(* ===== verification/Cios_Prelude.thy ===== *)
theory Cios_Prelude
  imports Main "HOL-Library.Word" "HOL-Library.Monad_Syntax"
begin

text \<open>
  Shared vocabulary of the development: the C integer types as words, bounds-checked
  reads of byte buffers, big-endian (Starlet is big-endian) packing of integers, byte
  bitmaps, in-place array writes, and the lemmas on them that the component theories
  use through the collections declared here.

  A C access outside a buffer is undefined behaviour. A model that may do such an
  access returns an \<open>option\<close>; the value \<open>None\<close> means "this run reads or writes outside
  the array", never an error code of the program. Error codes are ordinary values
  (\<open>s32\<close>, the C type of the same name, read as an \<open>int\<close>).
\<close>

unbundle bit_operations_syntax

type_synonym u8 = "8 word"
type_synonym u16 = "16 word"
type_synonym u32 = "32 word"
type_synonym s32 = int
type_synonym bytes = "u8 list"

named_theorems wire_simps \<open>packing and unpacking of integers and structures\<close>

text \<open>Return codes of the kernel (\<open>ipc.h\<close>).\<close>

abbreviation (input) IPC_ENOENT :: s32 where "IPC_ENOENT \<equiv> - 6"
abbreviation (input) IPC_ENOMEM :: s32 where "IPC_ENOMEM \<equiv> - 22"
abbreviation (input) IPC_EINVAL :: s32 where "IPC_EINVAL \<equiv> - 101"

section \<open>Words\<close>

lemma unat_u16_le [simp]: "unat (w :: u16) \<le> 65535"
proof -
  have "unat w < 2 ^ 16" using unsigned_less [of w] by simp
  then show ?thesis by simp
qed

lemma unat_u8_le [simp]: "unat (w :: u8) \<le> 255"
proof -
  have "unat w < 2 ^ 8" using unsigned_less [of w] by simp
  then show ?thesis by simp
qed

lemma u16_less [simp]: "unat (w :: u16) < 65536"
  using unat_u16_le [of w] by linarith

lemma u32_less [simp]: "unat (w :: u32) < 4294967296"
  using unsigned_less [of w] by simp

lemma xor_cancel: "(a XOR c = b XOR c) = ((a :: 'a :: len word) = b)"
proof
  assume "a XOR c = b XOR c"
  then have "(a XOR c) XOR c = (b XOR c) XOR c" by simp
  then show "a = b" by (simp add: ac_simps xor.assoc)
qed simp

lemma xor_eq_0_iff_u32: "(a XOR b = 0) = ((a :: 'a :: len word) = b)"
  using xor_cancel [of a b b] by simp

lemma word_and_nonzero: "(a AND b \<noteq> 0) = (\<exists>i. bit a i \<and> bit b i)" for a b :: "'a :: len word"
proof
  assume "a AND b \<noteq> 0"
  then show "\<exists>i. bit a i \<and> bit b i" using bit_word_eqI [of "a AND b" 0] by (auto simp: bit_and_iff)
next
  assume "\<exists>i. bit a i \<and> bit b i"
  then obtain i where "bit (a AND b) i" by (auto simp: bit_and_iff)
  then show "a AND b \<noteq> 0" by auto
qed

lemma unat_u16_add:
  "unat (a :: u16) + unat b < 65536 \<Longrightarrow> unat (a + b) = unat a + unat b"
  by (simp add: unat_word_ariths)

lemma unat_u32_add:
  "unat (a :: u32) + unat b < 4294967296 \<Longrightarrow> unat (a + b) = unat a + unat b"
  by (simp add: unat_word_ariths)

lemma unat_u32_sub: "unat b \<le> unat a \<Longrightarrow> unat ((a :: u32) - b) = unat a - unat b"
  by (rule unat_sub) (simp add: word_le_nat_alt)

lemma unat_ucast_u16_u32 [simp]: "unat (ucast (w :: u16) :: u32) = unat w"
  by (simp add: unsigned_ucast_eq take_bit_nat_eq_self_iff)
    (rule less_trans [OF unsigned_less [of w]], simp)

lemma unat_ucast_u8_u32 [simp]: "unat (ucast (w :: u8) :: u32) = unat w"
  by (simp add: unsigned_ucast_eq take_bit_nat_eq_self_iff)
    (rule less_trans [OF unsigned_less [of w]], simp)

lemma word_eq_of_nat_iff:
  "n < 2 ^ LENGTH('a) \<Longrightarrow> (w :: 'a :: len word) = of_nat n \<longleftrightarrow> unat w = n"
  by (auto simp: unat_of_nat)

lemma unat_of_nat_u16: "n < 65536 \<Longrightarrow> unat (of_nat n :: u16) = n"
  by (simp add: unat_of_nat)

lemma unat_of_nat_u32: "n < 4294967296 \<Longrightarrow> unat (of_nat n :: u32) = n"
  by (simp add: unat_of_nat)

lemma unat_push_bit_u32:
  "unat (w :: u32) * 2 ^ n < 4294967296 \<Longrightarrow> unat (push_bit n w) = unat w * 2 ^ n"
  unfolding unsigned_push_bit_eq by (simp add: push_bit_eq_mult take_bit_nat_eq_self_iff)

lemma unat_exp_u32: "n < 32 \<Longrightarrow> unat (2 ^ n :: u32) = 2 ^ n"
  using unat_push_bit_u32 [of 1 n] power_strict_increasing [of n 32 "2::nat"] by simp

lemma drop_bit_mask_word:
  "k \<le> n \<Longrightarrow> n < LENGTH('a) \<Longrightarrow> drop_bit k (mask n :: 'a :: len word) = mask (n - k)"
  by (rule bit_word_eqI) (auto simp: bit_simps)

lemma unat_and_mask: "unat (w AND mask n :: u32) = unat w mod 2 ^ n"
  unfolding take_bit_eq_mask [symmetric] unsigned_take_bit_eq by (simp only: take_bit_eq_mod)

lemma unat_drop_bit_u32: "unat (drop_bit n w :: u32) = unat w div 2 ^ n"
  unfolding unsigned_drop_bit_eq by (simp add: drop_bit_eq_div take_bit_nat_eq_self)

lemma unat_mask_u32: "n < 32 \<Longrightarrow> unat (mask n :: u32) = 2 ^ n - 1"
  by (simp add: mask_eq_exp_minus_1 unat_u32_sub unat_exp_u32)

section \<open>Bounds-checked buffer reads\<close>

definition rd :: "'a list \<Rightarrow> nat \<Rightarrow> 'a option" where
  "rd xs i = (if i < length xs then Some (xs ! i) else None)"

definition rd_block :: "'a list \<Rightarrow> nat \<Rightarrow> nat \<Rightarrow> 'a list option" where
  "rd_block xs off n = (if off + n \<le> length xs then Some (take n (drop off xs)) else None)"

lemma rd_Some [simp]: "i < length xs \<Longrightarrow> rd xs i = Some (xs ! i)"
  by (simp add: rd_def)

lemma rd_None [simp]: "length xs \<le> i \<Longrightarrow> rd xs i = None"
  by (simp add: rd_def)

lemma rd_eq_Some_iff: "rd xs i = Some v \<longleftrightarrow> i < length xs \<and> xs ! i = v"
  by (auto simp: rd_def)

lemma rd_block_Some: "off + n \<le> length xs \<Longrightarrow> rd_block xs off n = Some (take n (drop off xs))"
  by (simp add: rd_block_def)

lemma rd_block_None: "length xs < off + n \<Longrightarrow> rd_block xs off n = None"
  by (simp add: rd_block_def)

lemma rd_block_length: "rd_block xs off n = Some ys \<Longrightarrow> length ys = n"
  by (auto simp: rd_block_def split: if_splits)

lemma rd_block_append:
  "off = length pre \<Longrightarrow> n = length mid \<Longrightarrow> rd_block (pre @ mid @ post) off n = Some mid"
  by (simp add: rd_block_def)

section \<open>Big-endian integers\<close>

definition be16 :: "bytes \<Rightarrow> u16" where
  "be16 bs = push_bit 8 (ucast (bs ! 0)) OR ucast (bs ! 1)"

definition put_be16 :: "u16 \<Rightarrow> bytes" where
  "put_be16 w = [ucast (drop_bit 8 w), ucast w]"

definition be32 :: "bytes \<Rightarrow> u32" where
  "be32 bs = push_bit 24 (ucast (bs ! 0)) OR push_bit 16 (ucast (bs ! 1))
     OR push_bit 8 (ucast (bs ! 2)) OR ucast (bs ! 3)"

definition put_be32 :: "u32 \<Rightarrow> bytes" where
  "put_be32 w = [ucast (drop_bit 24 w), ucast (drop_bit 16 w), ucast (drop_bit 8 w), ucast w]"

lemma length_put_be16 [simp]: "length (put_be16 w) = 2"
  by (simp add: put_be16_def)

lemma length_put_be32 [simp]: "length (put_be32 w) = 4"
  by (simp add: put_be32_def)

lemma be16_put [simp]: "be16 (put_be16 w) = w"
  unfolding be16_def put_be16_def
  by (rule bit_word_eqI) (auto simp: bit_simps)

lemma be32_put [simp]: "be32 (put_be32 w) = w"
proof (rule bit_word_eqI)
  fix n assume "n < LENGTH(32)"
  then consider "n < 8" | "8 \<le> n" "n < 16" | "16 \<le> n" "n < 24" | "24 \<le> n" "n < 32"
    by fastforce
  then show "bit (be32 (put_be32 w)) n = bit w n"
    by cases (auto simp add: be32_def put_be32_def bit_simps)
qed

text \<open>
  A packed C structure of fixed size travels as its bytes, most significant byte of each
  integer field first. The contract of such a structure is that its image has the C
  \<open>sizeof\<close> and that reading it back gives the structure. Every wire structure of the
  protocol is an instance; the client facts (reading it out of a larger buffer, reading
  an array of them) are proved once here.
\<close>

locale wire_codec =
  fixes enc :: "'s \<Rightarrow> bytes" and dec :: "bytes \<Rightarrow> 's" and sizeof :: nat
  assumes length_enc: "length (enc x) = sizeof"
    and dec_enc: "dec (enc x) = x"
begin

lemma enc_inject: "enc x = enc y \<longleftrightarrow> x = y"
  by (metis dec_enc)

lemma enc_append_inject: "enc x @ xs = enc y @ ys \<longleftrightarrow> x = y \<and> xs = ys"
  by (auto simp: enc_inject length_enc append_eq_append_conv)

lemma read_at:
  assumes "off = length pre"
  shows "map_option dec (rd_block (pre @ enc x @ post) off sizeof) = Some x"
  using assms by (simp add: rd_block_append length_enc dec_enc)

lemma length_concat_enc: "length (concat (map enc xs)) = sizeof * length xs"
  by (induction xs) (simp_all add: length_enc)

lemma drop_concat_enc:
  "k \<le> length xs \<Longrightarrow> drop (sizeof * k) (concat (map enc xs)) = concat (map enc (drop k xs))"
proof (induction xs arbitrary: k)
  case (Cons x xs)
  then show ?case
    by (cases k) (simp_all add: length_enc)
qed simp

lemma read_array_at:
  assumes "off = length pre + sizeof * k" and "k < length xs"
  shows "map_option dec (rd_block (pre @ concat (map enc xs) @ post) off sizeof) = Some (xs ! k)"
proof -
  have split: "concat (map enc xs)
      = concat (map enc (take k xs)) @ enc (xs ! k) @ concat (map enc (drop (Suc k) xs))"
    using assms(2) by (metis (no_types, lifting) concat.simps(2) concat_append id_take_nth_drop
        list.simps(9) map_append)
  have "off = length (pre @ concat (map enc (take k xs)))"
    using assms by (simp add: length_concat_enc)
  from read_at [OF this, of "xs ! k" "concat (map enc (drop (Suc k) xs)) @ post"]
  show ?thesis
    by (subst split) simp
qed

end

lemma be16_bytes [simp]: "be16 [ucast (drop_bit 8 w), ucast w] = w"
  using be16_put [of w] unfolding put_be16_def .

lemma be32_bytes [simp]:
  "be32 [ucast (drop_bit 24 w), ucast (drop_bit 16 w), ucast (drop_bit 8 w), ucast w] = w"
  using be32_put [of w] unfolding put_be32_def .

interpretation be16_codec: wire_codec put_be16 be16 2
  by unfold_locales simp_all

interpretation be32_codec: wire_codec put_be32 be32 4
  by unfold_locales simp_all

text \<open>Reading an integer field out of a buffer, as \<open>memcpy(&x, buf + off, n)\<close> does.\<close>

definition rd16 :: "bytes \<Rightarrow> nat \<Rightarrow> u16 option" where
  "rd16 buf off = map_option be16 (rd_block buf off 2)"

definition rd32 :: "bytes \<Rightarrow> nat \<Rightarrow> u32 option" where
  "rd32 buf off = map_option be32 (rd_block buf off 4)"

lemma rd16_Some: "off + 2 \<le> length buf \<Longrightarrow> rd16 buf off = Some (be16 (take 2 (drop off buf)))"
  by (simp add: rd16_def rd_block_Some)

lemma rd32_Some: "off + 4 \<le> length buf \<Longrightarrow> rd32 buf off = Some (be32 (take 4 (drop off buf)))"
  by (simp add: rd32_def rd_block_Some)

lemma rd16_None: "length buf < off + 2 \<Longrightarrow> rd16 buf off = None"
  by (simp add: rd16_def rd_block_None)

lemma rd32_None: "length buf < off + 4 \<Longrightarrow> rd32 buf off = None"
  by (simp add: rd32_def rd_block_None)

text \<open>Reading \<open>n\<close> consecutive integers, as the copy loops of the protocol code do.\<close>

fun rd_arr :: "(bytes \<Rightarrow> nat \<Rightarrow> 'a option) \<Rightarrow> nat \<Rightarrow> bytes \<Rightarrow> nat \<Rightarrow> nat \<Rightarrow> 'a list option" where
  "rd_arr f w buf off 0 = Some []"
| "rd_arr f w buf off (Suc n) =
     do { x \<leftarrow> f buf off; xs \<leftarrow> rd_arr f w buf (off + w) n; Some (x # xs) }"

lemma rd_arr_length: "rd_arr f w buf off n = Some xs \<Longrightarrow> length xs = n"
  by (induction n arbitrary: off xs) (auto split: Option.bind_splits)

lemma rd_arr_Some:
  assumes "\<And>k. k < n \<Longrightarrow> \<exists>x. f buf (off + w * k) = Some x"
  shows "\<exists>xs. rd_arr f w buf off n = Some xs \<and> length xs = n"
  using assms
proof (induction n arbitrary: off)
  case (Suc n)
  obtain x where x: "f buf off = Some x" using Suc.prems [of 0] by auto
  have "\<exists>xs. rd_arr f w buf (off + w) n = Some xs \<and> length xs = n"
  proof (rule Suc.IH)
    fix k assume "k < n"
    then show "\<exists>x. f buf (off + w + w * k) = Some x"
      using Suc.prems [of "Suc k"] by (simp add: add.assoc)
  qed
  with x show ?case by auto
qed simp

lemma rd_arr_eqI:
  assumes "length xs = n" and "\<And>k. k < n \<Longrightarrow> f buf (off + w * k) = Some (xs ! k)"
  shows "rd_arr f w buf off n = Some xs"
  using assms
proof (induction n arbitrary: off xs)
  case (Suc n)
  then obtain y ys where xs: "xs = y # ys" by (cases xs) auto
  have "rd_arr f w buf (off + w) n = Some ys"
  proof (rule Suc.IH)
    show "length ys = n" using Suc.prems(1) xs by simp
  next
    fix k assume "k < n"
    then show "f buf (off + w + w * k) = Some (ys ! k)"
      using Suc.prems(2) [of "Suc k"] xs by (simp add: add.assoc)
  qed
  then show ?case using Suc.prems(2) [of 0] xs by simp
qed simp

lemma rd_arr_be32:
  assumes "off = length pre"
  shows "rd_arr rd32 4 (pre @ concat (map put_be32 xs) @ post) off (length xs) = Some xs"
  using assms by (intro rd_arr_eqI) (simp_all add: rd32_def be32_codec.read_array_at)

lemma rd_arr_be16:
  assumes "off = length pre"
  shows "rd_arr rd16 2 (pre @ concat (map put_be16 xs) @ post) off (length xs) = Some xs"
  using assms by (intro rd_arr_eqI) (simp_all add: rd16_def be16_codec.read_array_at)

section \<open>Byte bitmaps\<close>

text \<open>
  \<open>bm[i >> 3] & (1u << (i & 7))\<close> and the two updates, on a bitmap held as an array of
  bytes. Outside the array the reads and writes are not made by the code (the
  component theories prove the index is in range).
\<close>

definition bm_get :: "bytes \<Rightarrow> nat \<Rightarrow> bool" where
  "bm_get bm i = ((bm ! (i div 8)) AND push_bit (i mod 8) 1 \<noteq> 0)"

definition bm_set :: "bytes \<Rightarrow> nat \<Rightarrow> bytes" where
  "bm_set bm i = bm[i div 8 := (bm ! (i div 8)) OR push_bit (i mod 8) 1]"

definition bm_clr :: "bytes \<Rightarrow> nat \<Rightarrow> bytes" where
  "bm_clr bm i = bm[i div 8 := (bm ! (i div 8)) AND NOT (push_bit (i mod 8) 1)]"

definition bm_put :: "bytes \<Rightarrow> nat \<Rightarrow> bool \<Rightarrow> bytes" where
  "bm_put bm i b = (if b then bm_set bm i else bm_clr bm i)"

lemma length_bm_put [simp]: "length (bm_put bm i b) = length bm"
  by (simp add: bm_put_def bm_set_def bm_clr_def)

lemma length_bm_set [simp]: "length (bm_set bm i) = length bm"
  by (simp add: bm_set_def)

lemma bm_get_bit: "bm_get bm i = bit (bm ! (i div 8)) (i mod 8)"
  by (simp only: bm_get_def bit_iff_and_push_bit_not_eq_0)

lemma div8_mod8_neq: "i \<noteq> j \<Longrightarrow> i div 8 = j div 8 \<Longrightarrow> (i :: nat) mod 8 \<noteq> j mod 8"
  by (metis div_mult_mod_eq)

lemma bm_get_put:
  assumes "i < 8 * length bm"
  shows "bm_get (bm_put bm i b) j = (if j = i then b else bm_get bm j)"
proof (cases "j div 8 = i div 8")
  case True
  have len: "i div 8 < length bm" using assms by simp
  have k: "i mod 8 < 8" "j mod 8 < 8" by simp_all
  have neq: "j \<noteq> i \<Longrightarrow> j mod 8 \<noteq> i mod 8" using True by (simp add: div8_mod8_neq)
  show ?thesis
    using True len k neq
    by (cases "j = i") (auto simp: bm_get_bit bm_put_def bm_set_def bm_clr_def bit_simps)
next
  case False
  then have "j \<noteq> i" by auto
  with False show ?thesis
    by (simp add: bm_get_bit bm_put_def bm_set_def bm_clr_def)
qed

lemma bm_get_set:
  "i < 8 * length bm \<Longrightarrow> bm_get (bm_set bm i) j = (j = i \<or> bm_get bm j)"
  using bm_get_put [of i bm True j] by (simp add: bm_put_def)

lemma bm_get_zero: "j < 8 * n \<Longrightarrow> bm_get (replicate n 0) j = False"
  by (simp add: bm_get_bit less_mult_imp_div_less mult.commute)

section \<open>Ranges\<close>

lemma upt_split_at: "i \<le> j \<Longrightarrow> j < k \<Longrightarrow> [i..<k] = [i..<j] @ j # [Suc j..<k]"
  by (metis le_add_diff_inverse less_imp_le upt_add_eq_append upt_conv_Cons)

lemma map_upt_join: "a \<le> b \<Longrightarrow> b \<le> c \<Longrightarrow> map B [a..<b] @ map B [b..<c] = map B [a..<c]"
  by (metis le_add_diff_inverse map_append upt_add_eq_append)

section \<open>Array writes\<close>

text \<open>\<open>memcpy(dst + off, src, length src)\<close> inside an array.\<close>

definition blit :: "'a list \<Rightarrow> nat \<Rightarrow> 'a list \<Rightarrow> 'a list" where
  "blit dst off src = take off dst @ src @ drop (off + length src) dst"

lemma length_blit: "off + length src \<le> length dst \<Longrightarrow> length (blit dst off src) = length dst"
  by (simp add: blit_def)

lemma take_blit:
  "off + length src \<le> length dst \<Longrightarrow> take (off + length src) (blit dst off src) = take off dst @ src"
  by (simp add: blit_def)

lemma nth_blit:
  "off + length src \<le> length dst \<Longrightarrow> k < length dst \<Longrightarrow>
   blit dst off src ! k = (if off \<le> k \<and> k < off + length src then src ! (k - off) else dst ! k)"
  by (auto simp: blit_def nth_append)

lemma drop_blit:
  "off + length src \<le> length dst \<Longrightarrow>
   drop (off + length src) (blit dst off src) = drop (off + length src) dst"
  by (simp add: blit_def)

lemma take_list_update_Suc:
  "n < length xs \<Longrightarrow> take (Suc n) (xs[n := v]) = take n xs @ [v]"
  by (simp add: take_Suc_conv_app_nth)

text \<open>
  An append loop \<open>for (j = 0; j < n; j++) a[base + j] = src[j];\<close> is a block write.
\<close>

fun store_seq :: "'a list \<Rightarrow> nat \<Rightarrow> 'a list \<Rightarrow> 'a list" where
  "store_seq dst off [] = dst"
| "store_seq dst off (x # xs) = store_seq (dst[off := x]) (Suc off) xs"

lemma length_store_seq [simp]: "length (store_seq dst off src) = length dst"
  by (induction src arbitrary: dst off) simp_all

lemma store_seq_blit:
  "off + length src \<le> length dst \<Longrightarrow> store_seq dst off src = blit dst off src"
proof (induction src arbitrary: dst off)
  case (Cons x xs)
  then have "store_seq (dst[off := x]) (Suc off) xs = blit (dst[off := x]) (Suc off) xs"
    by simp
  also have "\<dots> = blit dst off (x # xs)"
    using Cons.prems by (simp add: blit_def take_list_update_Suc)
  finally show ?case by simp
qed (simp add: blit_def)

lemma take_store_seq:
  assumes "off + length src \<le> length dst"
  shows "take (off + length src) (store_seq dst off src) = take off dst @ src"
  using assms by (simp add: store_seq_blit take_blit)

end
