(* ===== verification/RA_Protocol.thy ===== *)
theory RA_Protocol
  imports Cios_Prelude
begin

text \<open>
  The binary protocol between the console and the adapter (ESP32), from
  \<open>gc_ra_protocol.h\<close>: its limits, command and event codes, and every packed structure
  the console side writes or reads, as a record with the C field order, its wire image
  (integers big-endian) and the decoder that \<open>memcpy\<close> into the structure performs. Each
  structure is an interpretation of \<open>wire_codec\<close>: its image has the C size and decodes
  to itself.
\<close>

section \<open>Limits\<close>

abbreviation (input) RA_DEVICE_ID :: u32 where "RA_DEVICE_ID \<equiv> 0x52410001"
abbreviation (input) RA_MAGIC_GC_TO_ESP :: u8 where "RA_MAGIC_GC_TO_ESP \<equiv> 0x52"
abbreviation (input) RA_MAGIC_ESP_TO_GC :: u8 where "RA_MAGIC_ESP_TO_GC \<equiv> 0xAE"
abbreviation (input) RA_MAX_WATCH_ADDRS :: nat where "RA_MAX_WATCH_ADDRS \<equiv> 6144"
abbreviation (input) RA_WATCHLIST_CHUNK_ADDRS :: nat where "RA_WATCHLIST_CHUNK_ADDRS \<equiv> 1024"
abbreviation (input) RA_MAX_CHAIN_NODES :: nat where "RA_MAX_CHAIN_NODES \<equiv> 3072"
abbreviation (input) RA_CHAIN_CHUNK_NODES :: nat where "RA_CHAIN_CHUNK_NODES \<equiv> 512"
abbreviation (input) RA_CHAIN_NODE_SIZE :: nat where "RA_CHAIN_NODE_SIZE \<equiv> 8"
abbreviation (input) RA_MAX_DP_PARENTS :: nat where "RA_MAX_DP_PARENTS \<equiv> 128"
abbreviation (input) RA_ADDR_QUERY_MAX :: nat where "RA_ADDR_QUERY_MAX \<equiv> 512"

section \<open>Commands and events\<close>

datatype ra_gc_command_t =
    RA_CMD_IDENTIFY | RA_CMD_LOAD_GAME | RA_CMD_SNAPSHOT | RA_CMD_POLL | RA_CMD_GAME_RESET
  | RA_CMD_STATUS | RA_CMD_GET_WATCHLIST_CHUNK | RA_CMD_ADDR_RESPONSE | RA_CMD_DEBUG_LOG
  | RA_CMD_RESET_CREDENTIALS | RA_CMD_GET_CHAIN_CHUNK

fun cmd_code :: "ra_gc_command_t \<Rightarrow> u8" where
  "cmd_code RA_CMD_IDENTIFY = 0x01"
| "cmd_code RA_CMD_LOAD_GAME = 0x02"
| "cmd_code RA_CMD_SNAPSHOT = 0x03"
| "cmd_code RA_CMD_POLL = 0x04"
| "cmd_code RA_CMD_GAME_RESET = 0x05"
| "cmd_code RA_CMD_STATUS = 0x06"
| "cmd_code RA_CMD_GET_WATCHLIST_CHUNK = 0x07"
| "cmd_code RA_CMD_ADDR_RESPONSE = 0x08"
| "cmd_code RA_CMD_DEBUG_LOG = 0x09"
| "cmd_code RA_CMD_RESET_CREDENTIALS = 0x0A"
| "cmd_code RA_CMD_GET_CHAIN_CHUNK = 0x0B"

lemma cmd_code_inject: "cmd_code c = cmd_code d \<longleftrightarrow> c = d"
  by (cases c; cases d) simp_all

datatype ra_esp_event_t =
    RA_EVT_NONE | RA_EVT_ACHIEVEMENT | RA_EVT_WATCHLIST_UPDATE | RA_EVT_GAME_INFO
  | RA_EVT_LOGIN_STATUS | RA_EVT_ERROR | RA_EVT_LEADERBOARD_START | RA_EVT_LEADERBOARD_SUBMIT
  | RA_EVT_CHALLENGE | RA_EVT_RICH_PRESENCE | RA_EVT_ADDR_QUERY | RA_EVT_WATCHLIST_APPEND
  | RA_EVT_WATCHLIST_TRUNCATE | RA_EVT_WATCHLIST_REMOVE | RA_EVT_WATCHLIST_REMOVE_IDX

fun evt_code :: "ra_esp_event_t \<Rightarrow> u8" where
  "evt_code RA_EVT_NONE = 0x00"
| "evt_code RA_EVT_ACHIEVEMENT = 0x01"
| "evt_code RA_EVT_WATCHLIST_UPDATE = 0x02"
| "evt_code RA_EVT_GAME_INFO = 0x03"
| "evt_code RA_EVT_LOGIN_STATUS = 0x04"
| "evt_code RA_EVT_ERROR = 0x05"
| "evt_code RA_EVT_LEADERBOARD_START = 0x06"
| "evt_code RA_EVT_LEADERBOARD_SUBMIT = 0x07"
| "evt_code RA_EVT_CHALLENGE = 0x08"
| "evt_code RA_EVT_RICH_PRESENCE = 0x09"
| "evt_code RA_EVT_ADDR_QUERY = 0x0A"
| "evt_code RA_EVT_WATCHLIST_APPEND = 0x0B"
| "evt_code RA_EVT_WATCHLIST_TRUNCATE = 0x0C"
| "evt_code RA_EVT_WATCHLIST_REMOVE = 0x0D"
| "evt_code RA_EVT_WATCHLIST_REMOVE_IDX = 0x0E"

lemma evt_code_inject: "evt_code c = evt_code d \<longleftrightarrow> c = d"
  by (cases c; cases d) simp_all

section \<open>Packet structures\<close>

text \<open>Header of every console-to-adapter packet.\<close>

record ra_gc_header_t =
  gh_magic :: u8
  gh_command :: u8
  gh_payload_len :: u16

definition enc_ra_gc_header_t :: "ra_gc_header_t \<Rightarrow> bytes" where
  "enc_ra_gc_header_t h =
     [gh_magic h] @ [gh_command h] @ put_be16 (gh_payload_len h)"

definition dec_ra_gc_header_t :: "bytes \<Rightarrow> ra_gc_header_t" where
  "dec_ra_gc_header_t bs =
     \<lparr> gh_magic = bs ! 0, gh_command = bs ! 1, gh_payload_len = be16 [bs ! 2, bs ! 3] \<rparr>"

interpretation ra_gc_header_t_codec: wire_codec enc_ra_gc_header_t dec_ra_gc_header_t 4
  by unfold_locales (simp_all add: enc_ra_gc_header_t_def dec_ra_gc_header_t_def put_be16_def put_be32_def)

lemma length_enc_ra_gc_header_t [simp]: "length (enc_ra_gc_header_t h) = 4"
  by (rule ra_gc_header_t_codec.length_enc)

text \<open>Header of the SNAPSHOT payload.\<close>

record ra_snapshot_header_t =
  sh_frame_counter :: u32
  sh_addr_count :: u16
  sh_wl_seq :: u16
  sh_chain_first :: u16
  sh_chain_count :: u16
  sh_chain_blob_len :: u16
  sh_dp_count :: u16

definition enc_ra_snapshot_header_t :: "ra_snapshot_header_t \<Rightarrow> bytes" where
  "enc_ra_snapshot_header_t h =
     put_be32 (sh_frame_counter h) @ put_be16 (sh_addr_count h)
     @ put_be16 (sh_wl_seq h) @ put_be16 (sh_chain_first h)
     @ put_be16 (sh_chain_count h) @ put_be16 (sh_chain_blob_len h)
     @ put_be16 (sh_dp_count h)"

definition dec_ra_snapshot_header_t :: "bytes \<Rightarrow> ra_snapshot_header_t" where
  "dec_ra_snapshot_header_t bs =
     \<lparr> sh_frame_counter = be32 [bs ! 0, bs ! 1, bs ! 2, bs ! 3]
       , sh_addr_count = be16 [bs ! 4, bs ! 5], sh_wl_seq = be16 [bs ! 6, bs ! 7]
       , sh_chain_first = be16 [bs ! 8, bs ! 9]
       , sh_chain_count = be16 [bs ! 10, bs ! 11]
       , sh_chain_blob_len = be16 [bs ! 12, bs ! 13]
       , sh_dp_count = be16 [bs ! 14, bs ! 15] \<rparr>"

interpretation ra_snapshot_header_t_codec: wire_codec enc_ra_snapshot_header_t dec_ra_snapshot_header_t 16
  by unfold_locales (simp_all add: enc_ra_snapshot_header_t_def dec_ra_snapshot_header_t_def put_be16_def put_be32_def)

lemma length_enc_ra_snapshot_header_t [simp]: "length (enc_ra_snapshot_header_t h) = 16"
  by (rule ra_snapshot_header_t_codec.length_enc)

text \<open>Header of every adapter-to-console response.\<close>

record ra_esp_header_t =
  eh_magic :: u8
  eh_status :: u8
  eh_event_type :: u8
  eh_event_count :: u8
  eh_data_len :: u16

definition enc_ra_esp_header_t :: "ra_esp_header_t \<Rightarrow> bytes" where
  "enc_ra_esp_header_t h =
     [eh_magic h] @ [eh_status h] @ [eh_event_type h] @ [eh_event_count h]
     @ put_be16 (eh_data_len h)"

definition dec_ra_esp_header_t :: "bytes \<Rightarrow> ra_esp_header_t" where
  "dec_ra_esp_header_t bs =
     \<lparr> eh_magic = bs ! 0, eh_status = bs ! 1, eh_event_type = bs ! 2
       , eh_event_count = bs ! 3, eh_data_len = be16 [bs ! 4, bs ! 5] \<rparr>"

interpretation ra_esp_header_t_codec: wire_codec enc_ra_esp_header_t dec_ra_esp_header_t 6
  by unfold_locales (simp_all add: enc_ra_esp_header_t_def dec_ra_esp_header_t_def put_be16_def put_be32_def)

lemma length_enc_ra_esp_header_t [simp]: "length (enc_ra_esp_header_t h) = 6"
  by (rule ra_esp_header_t_codec.length_enc)

text \<open>Data of the watchlist events and chunk responses.\<close>

record ra_watchlist_notify_t =
  wn_total_addr_count :: u16
  wn_num_chunks :: u16
  wn_seq :: u16

definition enc_ra_watchlist_notify_t :: "ra_watchlist_notify_t \<Rightarrow> bytes" where
  "enc_ra_watchlist_notify_t h =
     put_be16 (wn_total_addr_count h) @ put_be16 (wn_num_chunks h)
     @ put_be16 (wn_seq h)"

definition dec_ra_watchlist_notify_t :: "bytes \<Rightarrow> ra_watchlist_notify_t" where
  "dec_ra_watchlist_notify_t bs =
     \<lparr> wn_total_addr_count = be16 [bs ! 0, bs ! 1]
       , wn_num_chunks = be16 [bs ! 2, bs ! 3], wn_seq = be16 [bs ! 4, bs ! 5] \<rparr>"

interpretation ra_watchlist_notify_t_codec: wire_codec enc_ra_watchlist_notify_t dec_ra_watchlist_notify_t 6
  by unfold_locales (simp_all add: enc_ra_watchlist_notify_t_def dec_ra_watchlist_notify_t_def put_be16_def put_be32_def)

lemma length_enc_ra_watchlist_notify_t [simp]: "length (enc_ra_watchlist_notify_t h) = 6"
  by (rule ra_watchlist_notify_t_codec.length_enc)

record ra_watchlist_chunk_t =
  wc_chunk_index :: u16
  wc_addr_count :: u16
  wc_is_last :: u8
  wc_reserved :: u8

definition enc_ra_watchlist_chunk_t :: "ra_watchlist_chunk_t \<Rightarrow> bytes" where
  "enc_ra_watchlist_chunk_t h =
     put_be16 (wc_chunk_index h) @ put_be16 (wc_addr_count h) @ [wc_is_last h]
     @ [wc_reserved h]"

definition dec_ra_watchlist_chunk_t :: "bytes \<Rightarrow> ra_watchlist_chunk_t" where
  "dec_ra_watchlist_chunk_t bs =
     \<lparr> wc_chunk_index = be16 [bs ! 0, bs ! 1], wc_addr_count = be16 [bs ! 2, bs ! 3]
       , wc_is_last = bs ! 4, wc_reserved = bs ! 5 \<rparr>"

interpretation ra_watchlist_chunk_t_codec: wire_codec enc_ra_watchlist_chunk_t dec_ra_watchlist_chunk_t 6
  by unfold_locales (simp_all add: enc_ra_watchlist_chunk_t_def dec_ra_watchlist_chunk_t_def put_be16_def put_be32_def)

lemma length_enc_ra_watchlist_chunk_t [simp]: "length (enc_ra_watchlist_chunk_t h) = 6"
  by (rule ra_watchlist_chunk_t_codec.length_enc)

record ra_watchlist_append_t =
  wa_seq :: u16
  wa_addr_count :: u16

definition enc_ra_watchlist_append_t :: "ra_watchlist_append_t \<Rightarrow> bytes" where
  "enc_ra_watchlist_append_t h =
     put_be16 (wa_seq h) @ put_be16 (wa_addr_count h)"

definition dec_ra_watchlist_append_t :: "bytes \<Rightarrow> ra_watchlist_append_t" where
  "dec_ra_watchlist_append_t bs =
     \<lparr> wa_seq = be16 [bs ! 0, bs ! 1], wa_addr_count = be16 [bs ! 2, bs ! 3] \<rparr>"

interpretation ra_watchlist_append_t_codec: wire_codec enc_ra_watchlist_append_t dec_ra_watchlist_append_t 4
  by unfold_locales (simp_all add: enc_ra_watchlist_append_t_def dec_ra_watchlist_append_t_def put_be16_def put_be32_def)

lemma length_enc_ra_watchlist_append_t [simp]: "length (enc_ra_watchlist_append_t h) = 4"
  by (rule ra_watchlist_append_t_codec.length_enc)

record ra_watchlist_remove_idx_t =
  wri_seq :: u16
  wri_idx_count :: u16

definition enc_ra_watchlist_remove_idx_t :: "ra_watchlist_remove_idx_t \<Rightarrow> bytes" where
  "enc_ra_watchlist_remove_idx_t h =
     put_be16 (wri_seq h) @ put_be16 (wri_idx_count h)"

definition dec_ra_watchlist_remove_idx_t :: "bytes \<Rightarrow> ra_watchlist_remove_idx_t" where
  "dec_ra_watchlist_remove_idx_t bs =
     \<lparr> wri_seq = be16 [bs ! 0, bs ! 1], wri_idx_count = be16 [bs ! 2, bs ! 3] \<rparr>"

interpretation ra_watchlist_remove_idx_t_codec: wire_codec enc_ra_watchlist_remove_idx_t dec_ra_watchlist_remove_idx_t 4
  by unfold_locales (simp_all add: enc_ra_watchlist_remove_idx_t_def dec_ra_watchlist_remove_idx_t_def put_be16_def put_be32_def)

lemma length_enc_ra_watchlist_remove_idx_t [simp]: "length (enc_ra_watchlist_remove_idx_t h) = 4"
  by (rule ra_watchlist_remove_idx_t_codec.length_enc)

text \<open>Chain table chunk header and chain node.\<close>

record ra_chain_chunk_t =
  cc_chunk_index :: u16
  cc_node_count :: u16
  cc_total_nodes :: u16
  cc_is_last :: u8
  cc_reserved :: u8

definition enc_ra_chain_chunk_t :: "ra_chain_chunk_t \<Rightarrow> bytes" where
  "enc_ra_chain_chunk_t h =
     put_be16 (cc_chunk_index h) @ put_be16 (cc_node_count h)
     @ put_be16 (cc_total_nodes h) @ [cc_is_last h] @ [cc_reserved h]"

definition dec_ra_chain_chunk_t :: "bytes \<Rightarrow> ra_chain_chunk_t" where
  "dec_ra_chain_chunk_t bs =
     \<lparr> cc_chunk_index = be16 [bs ! 0, bs ! 1], cc_node_count = be16 [bs ! 2, bs ! 3]
       , cc_total_nodes = be16 [bs ! 4, bs ! 5], cc_is_last = bs ! 6
       , cc_reserved = bs ! 7 \<rparr>"

interpretation ra_chain_chunk_t_codec: wire_codec enc_ra_chain_chunk_t dec_ra_chain_chunk_t 8
  by unfold_locales (simp_all add: enc_ra_chain_chunk_t_def dec_ra_chain_chunk_t_def put_be16_def put_be32_def)

lemma length_enc_ra_chain_chunk_t [simp]: "length (enc_ra_chain_chunk_t h) = 8"
  by (rule ra_chain_chunk_t_codec.length_enc)

record ra_chain_node_t =
  cn_operand :: u32
  cn_parent :: u16
  cn_op :: u8
  cn_psize :: u8

definition enc_ra_chain_node_t :: "ra_chain_node_t \<Rightarrow> bytes" where
  "enc_ra_chain_node_t h =
     put_be32 (cn_operand h) @ put_be16 (cn_parent h) @ [cn_op h] @ [cn_psize h]"

definition dec_ra_chain_node_t :: "bytes \<Rightarrow> ra_chain_node_t" where
  "dec_ra_chain_node_t bs =
     \<lparr> cn_operand = be32 [bs ! 0, bs ! 1, bs ! 2, bs ! 3]
       , cn_parent = be16 [bs ! 4, bs ! 5], cn_op = bs ! 6, cn_psize = bs ! 7 \<rparr>"

interpretation ra_chain_node_t_codec: wire_codec enc_ra_chain_node_t dec_ra_chain_node_t 8
  by unfold_locales (simp_all add: enc_ra_chain_node_t_def dec_ra_chain_node_t_def put_be16_def put_be32_def)

lemma length_enc_ra_chain_node_t [simp]: "length (enc_ra_chain_node_t h) = 8"
  by (rule ra_chain_node_t_codec.length_enc)

text \<open>Reading a structure out of a receive buffer (\<open>memcpy(&x, buf + off, sizeof(x))\<close>).\<close>

definition rd_struct :: "(bytes \<Rightarrow> 'a) \<Rightarrow> nat \<Rightarrow> bytes \<Rightarrow> nat \<Rightarrow> 'a option" where
  "rd_struct dec n buf off = map_option dec (rd_block buf off n)"

lemma rd_struct_Some:
  "off + n \<le> length buf \<Longrightarrow> rd_struct dec n buf off = Some (dec (take n (drop off buf)))"
  by (simp add: rd_struct_def rd_block_Some)

section \<open>Chain node codes\<close>

abbreviation (input) RA_CN_OP_NONE :: u8 where "RA_CN_OP_NONE \<equiv> 6"
abbreviation (input) RA_CN_OP_MULT :: u8 where "RA_CN_OP_MULT \<equiv> 7"
abbreviation (input) RA_CN_OP_DIV :: u8 where "RA_CN_OP_DIV \<equiv> 8"
abbreviation (input) RA_CN_OP_AND :: u8 where "RA_CN_OP_AND \<equiv> 9"
abbreviation (input) RA_CN_OP_XOR :: u8 where "RA_CN_OP_XOR \<equiv> 10"
abbreviation (input) RA_CN_OP_MOD :: u8 where "RA_CN_OP_MOD \<equiv> 11"
abbreviation (input) RA_CN_OP_ADD :: u8 where "RA_CN_OP_ADD \<equiv> 12"
abbreviation (input) RA_CN_OP_SUB :: u8 where "RA_CN_OP_SUB \<equiv> 13"
abbreviation (input) RA_CN_OP_SUB_PARENT :: u8 where "RA_CN_OP_SUB_PARENT \<equiv> 14"
abbreviation (input) RA_CN_OP_ADD_ACC :: u8 where "RA_CN_OP_ADD_ACC \<equiv> 15"
abbreviation (input) RA_CN_OP_SUB_ACC :: u8 where "RA_CN_OP_SUB_ACC \<equiv> 16"
abbreviation (input) RA_CN_OP_DEREF :: u8 where "RA_CN_OP_DEREF \<equiv> 17"

abbreviation (input) RA_CN_SZ_8 :: u8 where "RA_CN_SZ_8 \<equiv> 0"
abbreviation (input) RA_CN_SZ_16 :: u8 where "RA_CN_SZ_16 \<equiv> 1"
abbreviation (input) RA_CN_SZ_24 :: u8 where "RA_CN_SZ_24 \<equiv> 2"
abbreviation (input) RA_CN_SZ_32 :: u8 where "RA_CN_SZ_32 \<equiv> 3"
abbreviation (input) RA_CN_SZ_16_BE :: u8 where "RA_CN_SZ_16_BE \<equiv> 15"
abbreviation (input) RA_CN_SZ_24_BE :: u8 where "RA_CN_SZ_24_BE \<equiv> 16"
abbreviation (input) RA_CN_SZ_32_BE :: u8 where "RA_CN_SZ_32_BE \<equiv> 17"

abbreviation (input) RA_CN_PSZ_MEM_MASK :: u8 where "RA_CN_PSZ_MEM_MASK \<equiv> 0x3F"
abbreviation (input) RA_CN_DP_CUR :: u8 where "RA_CN_DP_CUR \<equiv> 0"
abbreviation (input) RA_CN_DP_DELTA :: u8 where "RA_CN_DP_DELTA \<equiv> 1"
abbreviation (input) RA_CN_DP_PRIOR :: u8 where "RA_CN_DP_PRIOR \<equiv> 2"
abbreviation (input) RA_CHAIN_PARENT_NONE :: u16 where "RA_CHAIN_PARENT_NONE \<equiv> 0xFFFF"

end
