(* ===== verification/RA_Util.thy ===== *)
theory RA_Util
  imports RA_Protocol
begin

text \<open>
  Helpers of \<open>ra-module/main.c\<close> and \<open>ra-module/vi.c\<close>: hexadecimal and decimal
  rendering of debug messages, the bitwise CRC32 of the chunk trailer, and the
  conversion of hardware timer ticks. The main result is that the CRC tells apart any
  two messages that differ inside a window of at most four bytes.
\<close>

section \<open>Debug text\<close>

definition ra_dbg_hex :: "u8 \<Rightarrow> u8" where
  "ra_dbg_hex nibble = (if nibble < 10 then 48 + nibble else 65 + (nibble - 10))"

text \<open>The bytes written to \<open>dst\<close>; the C function returns their number. \<open>sep\<close> is only
  written between two source bytes, and only when it is not 0.\<close>

fun ra_dbg_hex_bytes :: "bytes \<Rightarrow> u8 \<Rightarrow> bytes" where
  "ra_dbg_hex_bytes [] sep = []"
| "ra_dbg_hex_bytes (b # bs) sep =
     ra_dbg_hex (drop_bit 4 b) # ra_dbg_hex (b AND 0xF)
       # (if sep \<noteq> 0 \<and> bs \<noteq> [] then [sep] else []) @ ra_dbg_hex_bytes bs sep"

text \<open>First loop of \<open>ra_dbg_u16_dec\<close>: the digits, least significant first.\<close>

fun dec_digits :: "nat \<Rightarrow> nat list" where
  "dec_digits v = (if v > 0 then v mod 10 # dec_digits (v div 10) else [])"

declare dec_digits.simps [simp del]

definition ra_dbg_u16_dec :: "u16 \<Rightarrow> bytes" where
  "ra_dbg_u16_dec v =
     (if v = 0 then [48] else map (\<lambda>d. 48 + of_nat d) (rev (dec_digits (unat v))))"

text \<open>What a reader of the text computes.\<close>

definition dec_value :: "bytes \<Rightarrow> nat" where
  "dec_value bs = foldl (\<lambda>n b. 10 * n + (unat b - 48)) 0 bs"

lemma dec_digits_less: "d \<in> set (dec_digits v) \<Longrightarrow> d < 10"
proof (induction v rule: dec_digits.induct)
  case (1 v)
  then show ?case
    by (subst (asm) (2) dec_digits.simps) (auto split: if_splits)
qed

lemma dec_digits_value: "foldr (\<lambda>d n. 10 * n + d) (dec_digits v) 0 = v"
proof (induction v rule: dec_digits.induct)
  case (1 v)
  show ?case
  proof (cases "v > 0")
    case True
    then have "foldr (\<lambda>d n. 10 * n + d) (dec_digits v) 0
        = 10 * foldr (\<lambda>d n. 10 * n + d) (dec_digits (v div 10)) 0 + v mod 10"
      by (subst dec_digits.simps) simp
    also have "\<dots> = 10 * (v div 10) + v mod 10" using "1" [OF True] by simp
    finally show ?thesis by simp
  qed (simp add: dec_digits.simps)
qed

lemma dec_digits_length: "v < 10 ^ k \<Longrightarrow> length (dec_digits v) \<le> k"
proof (induction k arbitrary: v)
  case 0
  then show ?case by (simp add: dec_digits.simps)
next
  case (Suc k)
  then have "v div 10 < 10 ^ k" by simp
  then have "length (dec_digits (v div 10)) \<le> k" by (rule Suc.IH)
  then show ?case by (subst dec_digits.simps) simp
qed

lemma dec_char_value: "d < 10 \<Longrightarrow> unat (48 + of_nat d :: u8) - 48 = d"
  by (simp add: unat_word_ariths unat_of_nat)

lemma foldl_dec_chars:
  "\<forall>d \<in> set ds. d < 10 \<Longrightarrow>
   foldl (\<lambda>n b. 10 * n + (unat b - 48)) a (map (\<lambda>d. 48 + of_nat d :: u8) ds)
     = foldl (\<lambda>n d. 10 * n + d) a ds"
  by (induction ds arbitrary: a) (simp_all add: dec_char_value)

lemma u16_dec_value: "dec_value (ra_dbg_u16_dec v) = unat v"
proof (cases "v = 0")
  case True
  then show ?thesis by (simp add: dec_value_def ra_dbg_u16_dec_def)
next
  case False
  have small: "\<forall>d \<in> set (rev (dec_digits (unat v))). d < 10"
    by (auto dest: dec_digits_less)
  have "dec_value (ra_dbg_u16_dec v)
      = foldl (\<lambda>n d. 10 * n + d) 0 (rev (dec_digits (unat v)))"
    using False foldl_dec_chars [OF small, of 0] by (simp add: dec_value_def ra_dbg_u16_dec_def)
  also have "\<dots> = foldr (\<lambda>d n. 10 * n + d) (dec_digits (unat v)) 0"
    by (simp add: foldl_conv_foldr)
  finally show ?thesis by (simp add: dec_digits_value)
qed

lemma u16_dec_length: "length (ra_dbg_u16_dec v) \<le> 5" "0 < length (ra_dbg_u16_dec v)"
proof -
  have "unat v < 100000" using u16_less [of v] by linarith
  then show "length (ra_dbg_u16_dec v) \<le> 5"
    using dec_digits_length [of "unat v" 5] by (simp add: ra_dbg_u16_dec_def)
  have "v \<noteq> 0 \<Longrightarrow> dec_digits (unat v) \<noteq> []"
    by (subst dec_digits.simps) (simp add: unat_gt_0)
  then show "0 < length (ra_dbg_u16_dec v)" by (auto simp: ra_dbg_u16_dec_def)
qed

lemma hex_bytes_length:
  "length (ra_dbg_hex_bytes bs sep)
     = 2 * length bs + (if sep \<noteq> 0 then length bs - 1 else 0)"
proof (induction bs)
  case (Cons b bs)
  then show ?case by (cases bs) simp_all
qed simp

section \<open>CRC32 of the chunk trailer\<close>

abbreviation CRC_POLY :: u32 where "CRC_POLY \<equiv> 0xEDB88320"

text \<open>Body of the inner loop of \<open>ra_crc32\<close>.\<close>

definition crc_bit :: "u32 \<Rightarrow> u32" where
  "crc_bit crc = drop_bit 1 crc XOR (CRC_POLY AND (0 - (crc AND 1)))"

text \<open>Body of the outer loop: \<open>crc ^= p[i]\<close>, then eight inner steps.\<close>

definition crc_byte :: "u32 \<Rightarrow> u8 \<Rightarrow> u32" where
  "crc_byte crc b = (crc_bit ^^ 8) (crc XOR ucast b)"

definition ra_crc32 :: "bytes \<Rightarrow> u32" where
  "ra_crc32 p = NOT (foldl crc_byte 0xFFFFFFFF p)"

lemma crc_bit_alt: "crc_bit c = drop_bit 1 c XOR (if bit c 0 then CRC_POLY else 0)"
proof (cases "bit c 0")
  case True
  then have "c AND 1 = 1" by (simp add: and_one_eq odd_iff_mod_2_eq_one bit_0)
  with True show ?thesis by (simp add: crc_bit_def)
next
  case False
  then have "c AND 1 = 0" by (simp add: and_one_eq bit_0 even_iff_mod_2_eq_zero)
  with False show ?thesis by (simp add: crc_bit_def)
qed

lemma crc_bit_xor: "crc_bit (a XOR b) = crc_bit a XOR crc_bit b"
  unfolding crc_bit_alt
  by (rule bit_word_eqI) (auto simp: bit_simps)

lemma crc_bit_eq_0D:
  assumes "crc_bit d = 0"
  shows "d = 0"
proof -
  have "\<not> bit (crc_bit d) 31" using assms by simp
  then have low: "\<not> bit d 0" by (auto simp: crc_bit_alt bit_simps dest: bit_imp_le_length split: if_splits)
  then have shifted: "drop_bit 1 d = 0" using assms by (simp add: crc_bit_alt)
  show ?thesis
  proof (rule bit_word_eqI)
    fix n
    have "bit (drop_bit 1 d) (n - 1) = bit (0 :: u32) (n - 1)" using shifted by simp
    then show "bit d n = bit 0 n" using low by (cases n) (simp_all add: bit_simps)
  qed
qed

lemma crc_bits_xor: "(crc_bit ^^ n) (a XOR b) = (crc_bit ^^ n) a XOR (crc_bit ^^ n) b"
  by (induction n) (simp_all add: crc_bit_xor)

lemma crc_bits_eq_0D: "(crc_bit ^^ n) d = 0 \<Longrightarrow> d = 0"
  by (induction n) (auto dest: crc_bit_eq_0D)

lemma crc_bits_inject: "(crc_bit ^^ n) a = (crc_bit ^^ n) b \<longleftrightarrow> a = b"
proof
  assume "(crc_bit ^^ n) a = (crc_bit ^^ n) b"
  then have "(crc_bit ^^ n) (a XOR b) = 0" by (simp add: crc_bits_xor)
  then have "a XOR b = 0" by (rule crc_bits_eq_0D)
  then show "a = b" by (simp add: xor_eq_0_iff_u32)
qed simp

lemma crc_fold_inject: "foldl crc_byte s m = foldl crc_byte t m \<longleftrightarrow> s = t"
  by (induction m arbitrary: s t) (simp_all add: crc_byte_def crc_bits_inject xor_cancel)

text \<open>
  While a window of up to four bytes is processed, the register is the start state
  combined with the little-endian packing of the window.
\<close>

fun le_pack :: "bytes \<Rightarrow> u32" where
  "le_pack [] = 0"
| "le_pack (b # bs) = ucast b OR push_bit 8 (le_pack bs)"

lemma bit_le_pack:
  "length bs \<le> 4 \<Longrightarrow> bit (le_pack bs) n \<longleftrightarrow> n < 8 * length bs \<and> bit (bs ! (n div 8)) (n mod 8)"
proof (induction bs arbitrary: n)
  case (Cons b bs)
  show ?case
  proof (cases "n < 8")
    case True
    then show ?thesis by (auto simp: bit_simps)
  next
    case False
    then obtain k where n: "n = k + 8" by (metis add.commute le_Suc_ex not_less)
    have "\<not> bit (ucast b :: u32) (k + 8)" by (auto simp: bit_simps dest: bit_imp_le_length)
    moreover have "bit (le_pack bs) k \<Longrightarrow> k + 8 < 32"
      using Cons.IH [of k] Cons.prems by auto
    ultimately have "bit (le_pack (b # bs)) (k + 8) = bit (le_pack bs) k"
      by (auto simp: bit_simps)
    moreover have "(k + 8) div 8 = Suc (k div 8)" and "(k + 8) mod 8 = k mod 8" by presburger+
    ultimately show ?thesis using Cons.IH [of k] Cons.prems n by simp
  qed
qed simp

lemma le_pack_inject:
  assumes "length xs = length ys" and "length xs \<le> 4" and "le_pack xs = le_pack ys"
  shows "xs = ys"
proof (rule nth_equalityI [OF assms(1)])
  fix i assume i: "i < length xs"
  show "xs ! i = ys ! i"
  proof (rule bit_word_eqI)
    fix k assume "k < LENGTH(8)"
    then have k: "k < 8" by simp
    have "bit (le_pack xs) (8 * i + k) = bit (le_pack ys) (8 * i + k)" using assms(3) by simp
    moreover have "8 * i + k < 8 * length xs" using i k by linarith
    ultimately show "bit (xs ! i) k = bit (ys ! i) k"
      using k assms(1,2) by (simp add: bit_le_pack)
  qed
qed

lemma crc_bit_even: "\<not> bit c 0 \<Longrightarrow> crc_bit c = drop_bit 1 c"
  by (simp add: crc_bit_alt)

lemma crc_bits_push:
  assumes "n + 8 \<le> 32"
  shows "(crc_bit ^^ n) (push_bit n (ucast (b :: u8))) = ucast b"
  using assms
proof (induction n)
  case (Suc n)
  have small: "k < 8" if "bit b k" for k using bit_imp_le_length [OF that] by simp
  have "crc_bit (push_bit (Suc n) (ucast b)) = push_bit n (ucast b)"
    using Suc.prems
    by (subst crc_bit_even)
      (force simp: bit_simps simp del: push_bit_Suc intro!: bit_word_eqI dest: small)+
  then show ?case using Suc by (simp add: funpow_swap1 del: push_bit_Suc)
qed simp

lemma le_pack_snoc:
  "length m \<le> 3 \<Longrightarrow> le_pack (m @ [b]) = le_pack m XOR push_bit (8 * length m) (ucast b)"
proof (rule bit_word_eqI)
  fix n assume len: "length m \<le> 3" and "n < LENGTH(32)"
  then have n: "n < 32" by simp
  consider "n < 8 * length m" | "8 * length m \<le> n" "n < 8 * length m + 8"
    | "8 * length m + 8 \<le> n" by linarith
  then show "bit (le_pack (m @ [b])) n
      = bit (le_pack m XOR push_bit (8 * length m) (ucast b)) n"
  proof cases
    case 1
    then show ?thesis using len
      by (auto simp: bit_le_pack bit_simps nth_append less_mult_imp_div_less mult.commute)
  next
    case 2
    then have "n div 8 = length m" and "n mod 8 = n - 8 * length m"
      by (simp_all add: div_nat_eqI modulo_nat_def)
    then show ?thesis using len n 2 by (auto simp: bit_le_pack bit_simps nth_append)
  next
    case 3
    then show ?thesis using len n
      by (auto simp: bit_le_pack bit_simps dest: bit_imp_le_length)
  qed
qed

lemma le_pack_snoc_or:
  assumes "length m \<le> 3"
  shows "le_pack (m @ [b]) = le_pack m OR push_bit (8 * length m) (ucast b)"
  using assms
  by (subst le_pack_snoc) (auto intro!: bit_word_eqI simp: bit_simps bit_le_pack)

lemma crc_fold_window:
  "length m \<le> 4 \<Longrightarrow> foldl crc_byte s m = (crc_bit ^^ (8 * length m)) (s XOR le_pack m)"
proof (induction m rule: rev_induct)
  case (snoc b m)
  let ?k = "8 * length m"
  have len: "length m \<le> 3" using snoc.prems by simp
  have ih: "foldl crc_byte s m = (crc_bit ^^ ?k) (s XOR le_pack m)"
    using snoc by simp
  have "foldl crc_byte s (m @ [b])
      = (crc_bit ^^ 8) ((crc_bit ^^ ?k) (s XOR le_pack m) XOR ucast b)"
    by (simp only: foldl_append foldl.simps ih) (simp add: crc_byte_def)
  also have "(crc_bit ^^ ?k) (s XOR le_pack m) XOR ucast b
      = (crc_bit ^^ ?k) (s XOR le_pack (m @ [b]))"
    using len by (simp add: le_pack_snoc crc_bits_xor crc_bits_push xor.assoc)
  finally show ?case by (simp add: funpow_add [symmetric, THEN fun_cong, simplified] add.commute)
qed simp

lemma crc_window_eq_iff:
  assumes "length m = length m'" and "length m \<le> 4"
  shows "ra_crc32 (pre @ m @ suf) = ra_crc32 (pre @ m' @ suf) \<longleftrightarrow> m = m'"
proof -
  let ?s = "foldl crc_byte 0xFFFFFFFF pre"
  have "ra_crc32 (pre @ m @ suf) = ra_crc32 (pre @ m' @ suf)
      \<longleftrightarrow> foldl crc_byte ?s m = foldl crc_byte ?s m'"
    by (simp add: ra_crc32_def crc_fold_inject)
  also have "\<dots> \<longleftrightarrow> ?s XOR le_pack m = ?s XOR le_pack m'"
    using assms by (simp add: crc_fold_window crc_bits_inject)
  also have "\<dots> \<longleftrightarrow> le_pack m = le_pack m'"
    using xor_cancel [of "le_pack m" ?s "le_pack m'"] by (simp add: xor.commute)
  also have "\<dots> \<longleftrightarrow> m = m'" using le_pack_inject assms by auto
  finally show ?thesis .
qed

section \<open>Hardware timer\<close>

text \<open>\<open>vi_ticks_to_us\<close>: divide first, so the product stays inside 32 bits.\<close>

definition vi_ticks_to_us :: "u32 \<Rightarrow> u32" where
  "vi_ticks_to_us ticks = (ticks div 1000) * 527"

lemma unat_vi_ticks_to_us: "unat (vi_ticks_to_us t) = unat t div 1000 * 527"
proof -
  have "unat t div 1000 * 527 < 4294967296" using u32_less [of t] by linarith
  then show ?thesis by (simp add: vi_ticks_to_us_def unat_word_ariths unat_div)
qed

section \<open>Properties\<close>

text \<open>
  C30. The checksum of a chunk detects every corruption confined to four consecutive bytes:
  two messages of the same length that differ at most inside such a window have the same
  CRC32 exactly when they are equal.
\<close>

theorem crc_detects_burst:
  assumes "length m = length m'" and "length m \<le> 4"
  shows "ra_crc32 (pre @ m @ suf) = ra_crc32 (pre @ m' @ suf) \<longleftrightarrow> m = m'"
  using assms by (rule crc_window_eq_iff)

theorem crc_detects_burst_witness:
  "ra_crc32 ([0xAE, 7] @ [1, 2, 3] @ [9]) \<noteq> ra_crc32 ([0xAE, 7] @ [1, 2, 4] @ [9])"
  using crc_detects_burst [of "[1, 2, 3]" "[1, 2, 4]" "[0xAE, 7]" "[9]"] by simp

text \<open>
  The decimal rendering of a 16-bit value in debug messages reads back as that value and
  takes between one and five characters.
\<close>

theorem u16_dec_roundtrip:
  "dec_value (ra_dbg_u16_dec v) = unat v \<and> 0 < length (ra_dbg_u16_dec v) \<and> length (ra_dbg_u16_dec v) \<le> 5"
  using u16_dec_value [of v] u16_dec_length [of v] by simp

end
