(* ===== verification/RA_Link.thy ===== *)
theory RA_Link
  imports RA_Util
begin

text \<open>
  What the module uses of its transport, whichever build provides it (USB or the memory
  card bus): one request/response round trip (\<open>ra_send_phase_b\<close>) and the debug channel
  (\<open>ra_debug_send_always\<close>). \<open>'w\<close> is the world on the other side of the link: the adapter
  and the wire, together with the variables the transport keeps. \<open>lk_send\<close> is \<open>ra_send\<close>;
  \<open>lk_post\<close>, \<open>lk_reap\<close> and \<open>lk_posted\<close> are the pipelined exchange of the USB build;
  \<open>lk_timer\<close> reads the hardware timer, \<open>lk_wait_ms\<close> reads \<open>g_t_wait_ms\<close> and
  \<open>lk_to_phaseb\<close> is \<open>g_to_phaseb++\<close>. The locale \<open>ra_transport\<close> is the contract the protocol
  code relies on: the receive buffer keeps its size.
\<close>

record 'w ra_link =
  lk_phase_b :: "bytes \<Rightarrow> nat \<Rightarrow> 'w \<Rightarrow> (s32 \<times> bytes) \<times> 'w"
  lk_send :: "bytes \<Rightarrow> nat \<Rightarrow> 'w \<Rightarrow> (s32 \<times> bytes) \<times> 'w"
  lk_debug :: "bytes \<Rightarrow> 'w \<Rightarrow> 'w"
  lk_post :: "bytes \<Rightarrow> nat \<Rightarrow> 'w \<Rightarrow> s32 \<times> 'w"
  lk_reap :: "'w \<Rightarrow> (s32 \<times> bytes) \<times> 'w"
  lk_posted :: "'w \<Rightarrow> bool"
  lk_timer :: "'w \<Rightarrow> u32 \<times> 'w"
  lk_wait_ms :: "'w \<Rightarrow> u32"
  lk_to_phaseb :: "'w \<Rightarrow> 'w"

locale ra_transport =
  fixes L :: "'w ra_link"
  assumes phase_b_length: "length (snd (fst (lk_phase_b L tx n w))) = n"

section \<open>Headers\<close>

definition ra_fill_header :: "ra_gc_command_t \<Rightarrow> nat \<Rightarrow> bytes" where
  "ra_fill_header cmd payload_len =
     enc_ra_gc_header_t \<lparr> gh_magic = RA_MAGIC_GC_TO_ESP, gh_command = cmd_code cmd,
                          gh_payload_len = of_nat payload_len \<rparr>"

lemma length_ra_fill_header [simp]: "length (ra_fill_header cmd n) = 4"
  by (simp add: ra_fill_header_def)

definition sub_bytes :: "bytes \<Rightarrow> nat \<Rightarrow> nat \<Rightarrow> bytes" where
  "sub_bytes buf off n = take n (drop off buf)"

lemma sub_bytes_mid:
  "off = length pre \<Longrightarrow> n = length xs \<Longrightarrow> sub_bytes (pre @ xs @ post) off n = xs"
  by (simp add: sub_bytes_def)

text \<open>A link with nobody at the other end: every exchange fails.\<close>

definition dead_link :: "'w ra_link" where
  "dead_link = \<lparr> lk_phase_b = (\<lambda>tx n w. ((-1, replicate n 0), w)),
     lk_send = (\<lambda>tx n w. ((-1, replicate n 0), w)), lk_debug = (\<lambda>m w. w), lk_post = (\<lambda>tx n w. (-1, w)),
     lk_reap = (\<lambda>w. ((-1, replicate 2080 0), w)), lk_posted = (\<lambda>w. False), lk_timer = (\<lambda>w. (0, w)),
     lk_wait_ms = (\<lambda>w. 0), lk_to_phaseb = (\<lambda>w. w) \<rparr>"

section \<open>Debug channel\<close>

text \<open>The packet \<open>ra_debug_send_always\<close> builds in its 260-byte buffer.\<close>

definition debug_packet :: "bytes \<Rightarrow> bytes" where
  "debug_packet msg =
     ra_fill_header RA_CMD_DEBUG_LOG (1 + length msg) @ [of_nat (length msg)] @ msg"

definition ra_debug_send_always :: "'w ra_link \<Rightarrow> bytes \<Rightarrow> 'w \<Rightarrow> 'w" where
  "ra_debug_send_always L msg w = lk_debug L (debug_packet msg) w"

definition ascii :: "string \<Rightarrow> bytes" where
  "ascii s = map of_char s"

definition retry_msg :: "char \<Rightarrow> u16 \<Rightarrow> nat \<Rightarrow> bytes" where
  "retry_msg tag idx att =
     ascii (''RTY '' @ [tag] @ '' i='') @ ra_dbg_u16_dec idx @ ascii '' a='' @ ra_dbg_u16_dec (of_nat att)"

definition ra_report_chunk_retry :: "'w ra_link \<Rightarrow> char \<Rightarrow> u16 \<Rightarrow> nat \<Rightarrow> 'w \<Rightarrow> 'w" where
  "ra_report_chunk_retry L tag idx att w = ra_debug_send_always L (retry_msg tag idx att) w"

lemma length_ascii [simp]: "length (ascii s) = length s"
  by (simp add: ascii_def)

lemma debug_packet_length: "length (debug_packet msg) = 5 + length msg"
  by (simp add: debug_packet_def)

lemma retry_msg_length: "length (retry_msg tag idx att) \<le> 24"
  using u16_dec_length(1) [of idx] u16_dec_length(1) [of "of_nat att"]
  by (simp add: retry_msg_def)

section \<open>Per-chunk retries\<close>

text \<open>
  The retry loop around a chunk fetch, used by the watchlist fetch and the chain table
  fetch: at most \<open>RA_CHUNK_FETCH_ATTEMPTS\<close> calls, stopping at the first that does not
  fail; a success after a failed attempt is reported.
\<close>

abbreviation (input) RA_CHUNK_FETCH_ATTEMPTS :: nat where "RA_CHUNK_FETCH_ATTEMPTS \<equiv> 3"

fun chunk_attempts ::
  "'w ra_link \<Rightarrow> char \<Rightarrow> u16 \<Rightarrow> ('s \<Rightarrow> 'w \<Rightarrow> s32 \<times> 's \<times> 'w) \<Rightarrow> nat \<Rightarrow> nat \<Rightarrow> s32 \<Rightarrow> 's \<Rightarrow> 'w
    \<Rightarrow> s32 \<times> 's \<times> 'w"
where
  "chunk_attempts L tag idx once att 0 ret s w = (ret, s, w)"
| "chunk_attempts L tag idx once att (Suc left) ret s w =
     (case once s w of (ret', s', w') \<Rightarrow>
        if ret' \<ge> 0 then
          (ret', s', if att \<noteq> 0 then ra_report_chunk_retry L tag idx att w' else w')
        else chunk_attempts L tag idx once (Suc att) left ret' s' w')"

text \<open>
  What holds of every attempt holds of the loop: \<open>P\<close> is kept by every attempt, and \<open>Q\<close>
  relates the state before the successful attempt to its result.
\<close>

lemma chunk_attempts_induct:
  assumes step: "\<And>s w ret' s' w'. P s \<Longrightarrow> once s w = (ret', s', w') \<Longrightarrow>
      P s' \<and> (0 \<le> ret' \<longrightarrow> Q ret' s')"
    and "P s" and "chunk_attempts L tag idx once att left ret s w = (r, t, v)"
  shows "P t \<and> (0 \<le> r \<and> ret < 0 \<longrightarrow> Q r t)"
  using assms(2,3)
proof (induction left arbitrary: att ret s w)
  case (Suc left)
  obtain r1 s1 w1 where o: "once s w = (r1, s1, w1)" by (metis prod_cases3)
  note st = step [OF Suc.prems(1) o]
  show ?case
  proof (cases "0 \<le> r1")
    case True
    then show ?thesis using Suc.prems(2) o st by auto
  next
    case False
    then have "chunk_attempts L tag idx once (Suc att) left r1 s1 w1 = (r, t, v)"
      using Suc.prems(2) o by simp
    from Suc.IH [OF _ this] st False show ?thesis by auto
  qed
qed auto

lemma chunk_attempts_keeps:
  assumes "\<And>s w ret' s' w'. P s \<Longrightarrow> once s w = (ret', s', w') \<Longrightarrow> P s'"
    and "P s" and "chunk_attempts L tag idx once att left ret s w = (r, t, v)"
  shows "P t"
  using chunk_attempts_induct [where Q = "\<lambda>_ _. True", of P once, OF _ assms(2,3)] assms(1)
  by auto

end
