(* ===== verification/RA_Chain.thy ===== *)
theory RA_Chain
  imports RA_Util
begin

text \<open>
  The pointer-chain walker of \<open>ra-module/main.c\<close> ("Phase C" and "Phase D"): the guarded
  reads of the game's memory, the edge transforms and the node arithmetic, the state the
  walker keeps between frames, and the per-frame walk. The reference semantics
  \<open>chain_sem\<close> defines the validity and value of a node by recursion through its parent,
  the way \<open>gc_ra_protocol.h\<close> words it; the walk, one forward pass over arrays and a
  validity bitmap, is shown to compute it for every node and to keep the history rule.

  \<open>mem\<close> is the memory of the PowerPC side as the Starlet sees it during one walk.
\<close>

type_synonym ppc_mem = "u32 \<Rightarrow> u8"

section \<open>Guarded reads\<close>

abbreviation (input) RA_MEM2_SAFE_HI :: u32 where "RA_MEM2_SAFE_HI \<equiv> 0x13400000"

definition ra_read_ppc_byte :: "ppc_mem \<Rightarrow> u32 \<Rightarrow> u8" where
  "ra_read_ppc_byte mem addr =
     (if addr \<le> 0x017FFFFF then mem addr
      else if addr \<ge> 0x10000000 \<and> addr < RA_MEM2_SAFE_HI then mem addr
      else 0)"

definition ra_chain_addr_ok :: "u32 \<Rightarrow> u8 \<Rightarrow> bool" where
  "ra_chain_addr_ok addr w =
     (let end = addr + ucast w - 1
      in if end < addr then False
         else if end \<le> 0x017FFFFF then True
         else addr \<ge> 0x10000000 \<and> end < RA_MEM2_SAFE_HI)"

text \<open>The memory a game can own: all of MEM1 and the lower part of MEM2.\<close>

definition game_ram :: "u32 \<Rightarrow> bool" where
  "game_ram a \<longleftrightarrow> a \<le> 0x017FFFFF \<or> (0x10000000 \<le> a \<and> a < RA_MEM2_SAFE_HI)"

lemma ra_read_ppc_byte_alt: "ra_read_ppc_byte mem a = (if game_ram a then mem a else 0)"
  by (auto simp: ra_read_ppc_byte_def game_ram_def)

lemma ra_read_ppc_byte_cong:
  "(\<And>a. game_ram a \<Longrightarrow> mem a = mem' a) \<Longrightarrow> ra_read_ppc_byte mem = ra_read_ppc_byte mem'"
  by (rule ext) (simp add: ra_read_ppc_byte_alt)

lemma unat_addr_end:
  assumes "0 < w" and "\<not> addr + ucast (w :: u8) - 1 < (addr :: u32)"
  shows "unat (addr + ucast w - 1) = unat addr + unat w - 1"
    and "unat addr + unat w - 1 < 4294967296"
proof -
  have w: "0 < unat w" using assms(1) by (simp add: word_less_nat_alt)
  have "unat addr + unat w - 1 < 4294967296 \<and>
    unat (addr + ucast w - 1) = unat addr + unat w - 1"
  proof (cases "unat addr + unat w < 4294967296")
    case True
    then have "unat (addr + ucast w) = unat addr + unat w" by (simp add: unat_u32_add)
    moreover from this w have "unat (1 :: u32) \<le> unat (addr + ucast w)" by simp
    ultimately show ?thesis using True by (simp add: unat_u32_sub)
  next
    case False
    have red: "n mod 4294967296 = n - 4294967296" if "4294967296 \<le> n" "n < 8589934592" for n :: nat
      using that by (simp add: le_mod_geq)
    have "unat (addr + ucast w) = (unat addr + unat w) mod 4294967296"
      by (simp add: unat_word_ariths)
    moreover have "unat addr + unat w < 8589934592"
      using unat_u8_le [of w] u32_less [of addr] by linarith
    ultimately have wrap: "unat (addr + ucast w) = unat addr + unat w - 4294967296"
      using False by (simp add: red)
    show ?thesis
    proof (cases "unat addr + unat w = 4294967296")
      case True
      then have "addr + ucast w = 0" using wrap by (simp add: unat_eq_0)
      then have "addr + ucast w - 1 = - 1" by simp
      then have "unat (addr + ucast w - 1) = 4294967295" by (simp add: unsigned_minus_1_eq_mask mask_eq_exp_minus_1)
      then show ?thesis using True by simp
    next
      case F: False
      then have "unat (addr + ucast w - 1) = unat addr + unat w - 4294967297"
        using wrap False by (simp add: unat_u32_sub)
      then have "unat (addr + ucast w - 1) < unat addr"
        using unat_u8_le [of w] False F by linarith
      then show ?thesis using assms(2) by (simp add: word_less_nat_alt)
    qed
  qed
  then show "unat (addr + ucast w - 1) = unat addr + unat w - 1"
    and "unat addr + unat w - 1 < 4294967296" by auto
qed

text \<open>
  The width check covers every byte that is then read: no byte of an accepted access
  lies outside the game's memory.
\<close>

lemma addr_ok_game_ram:
  assumes ok: "ra_chain_addr_ok addr w" and w: "0 < w" and k: "k < unat w"
  shows "game_ram (addr + of_nat k)" and "unat (addr + of_nat k) = unat addr + k"
proof -
  let ?e = "addr + ucast w - 1"
  have nw: "\<not> ?e < addr" using ok by (auto simp: ra_chain_addr_ok_def Let_def)
  note e = unat_addr_end [OF w nw]
  have "unat addr + k < 4294967296" using e(2) k by linarith
  then show u: "unat (addr + of_nat k) = unat addr + k"
    using k unat_u8_le [of w] by (subst unat_u32_add) (simp_all add: unat_of_nat_u32)
  have "unat addr + k \<le> unat ?e" using e(1) k by linarith
  then have le: "addr + of_nat k \<le> ?e" by (simp add: word_le_nat_alt u)
  have ge: "addr \<le> addr + of_nat k" by (simp add: word_le_nat_alt u)
  show "game_ram (addr + of_nat k)"
    using ok le ge nw
    by (auto simp: ra_chain_addr_ok_def Let_def game_ram_def split: if_splits
        intro: order_trans le_less_trans)
qed

section \<open>Edge transforms and node arithmetic\<close>

definition ra_chain_xform :: "u32 \<Rightarrow> u8 \<Rightarrow> u32" where
  "ra_chain_xform v psize =
     (if psize = RA_CN_SZ_32 then v
      else if psize = RA_CN_SZ_32_BE then
        drop_bit 24 (v AND 0xFF000000) OR drop_bit 8 (v AND 0x00FF0000)
        OR push_bit 8 (v AND 0x0000FF00) OR push_bit 24 (v AND 0x000000FF)
      else if psize = RA_CN_SZ_8 then v AND 0x000000FF
      else if psize = RA_CN_SZ_16 then v AND 0x0000FFFF
      else if psize = RA_CN_SZ_24 then v AND 0x00FFFFFF
      else if psize = RA_CN_SZ_16_BE then drop_bit 8 (v AND 0xFF00) OR push_bit 8 (v AND 0x00FF)
      else if psize = RA_CN_SZ_24_BE then
        drop_bit 16 (v AND 0xFF0000) OR (v AND 0x00FF00) OR push_bit 16 (v AND 0x0000FF)
      else v)"

definition ra_chain_combine :: "u32 \<Rightarrow> u32 \<Rightarrow> u8 \<Rightarrow> u32" where
  "ra_chain_combine pv o1 op =
     (if op = RA_CN_OP_AND then pv AND o1
      else if op = RA_CN_OP_ADD then pv + o1
      else if op = RA_CN_OP_SUB then pv - o1
      else if op = RA_CN_OP_MULT then pv * o1
      else if op = RA_CN_OP_DIV then (if o1 \<noteq> 0 then pv div o1 else 0)
      else if op = RA_CN_OP_XOR then pv XOR o1
      else if op = RA_CN_OP_MOD then (if o1 \<noteq> 0 then pv mod o1 else 0)
      else if op = RA_CN_OP_SUB_PARENT then o1 - pv
      else if op = RA_CN_OP_ADD_ACC then pv + o1
      else if op = RA_CN_OP_SUB_ACC then pv - o1
      else 0)"

text \<open>The read loop of a dereference: \<open>v |= (u32)ra_read_ppc_byte(addr + k) << (8u * k)\<close>.\<close>

definition deref_read :: "ppc_mem \<Rightarrow> u32 \<Rightarrow> nat \<Rightarrow> u32" where
  "deref_read mem addr w =
     foldl (\<lambda>v k. v OR push_bit (8 * k) (ucast (ra_read_ppc_byte mem (addr + of_nat k)))) 0 [0..<w]"

section \<open>State kept between frames\<close>

text \<open>
  The static arrays and counters of the walker. Counters and node indices are \<open>u16\<close> in
  the source; they never exceed \<open>RA_MAX_CHAIN_NODES\<close> (\<open>chain_wf\<close> below), so the model keeps
  them as natural numbers.
\<close>

record chain_state =
  ra_chain_nodes :: "ra_chain_node_t list"
  ra_chain_values :: "u32 list"
  ra_chain_ship_node :: "nat list"
  ra_chain_node_valid :: bytes
  ra_chain_node_count :: nat
  ra_chain_shipped :: nat
  ra_chain_win_next :: nat
  ra_chain_values_prev :: "u32 list"
  ra_chain_prior :: "u32 list"
  ra_chain_valid_prev :: bytes
  ra_chain_have_prev :: bool
  ra_chain_dp_node :: "nat list"
  ra_chain_dp_kind :: "u8 list"
  ra_chain_dp_count :: nat

definition zero_node :: ra_chain_node_t where
  "zero_node = \<lparr> cn_operand = 0, cn_parent = 0, cn_op = 0, cn_psize = 0 \<rparr>"

text \<open>The arrays as the loader leaves them (static storage is zero).\<close>

definition chain_init :: chain_state where
  "chain_init =
     \<lparr> ra_chain_nodes = replicate RA_MAX_CHAIN_NODES zero_node,
       ra_chain_values = replicate RA_MAX_CHAIN_NODES 0,
       ra_chain_ship_node = replicate RA_MAX_CHAIN_NODES 0,
       ra_chain_node_valid = replicate (RA_MAX_CHAIN_NODES div 8) 0,
       ra_chain_node_count = 0, ra_chain_shipped = 0, ra_chain_win_next = 0,
       ra_chain_values_prev = replicate RA_MAX_CHAIN_NODES 0,
       ra_chain_prior = replicate RA_MAX_CHAIN_NODES 0,
       ra_chain_valid_prev = replicate (RA_MAX_CHAIN_NODES div 8) 0,
       ra_chain_have_prev = False,
       ra_chain_dp_node = replicate RA_MAX_DP_PARENTS 0,
       ra_chain_dp_kind = replicate RA_MAX_DP_PARENTS 0,
       ra_chain_dp_count = 0 \<rparr>"

section \<open>The walk\<close>

definition node_op :: "ra_chain_node_t \<Rightarrow> u8" where
  "node_op n = cn_op n AND 0x1F"

definition node_width :: "ra_chain_node_t \<Rightarrow> u8" where
  "node_width n = (drop_bit 5 (cn_op n) AND 3) + 1"

definition node_shipped :: "ra_chain_node_t \<Rightarrow> bool" where
  "node_shipped n = (cn_op n AND 0x80 \<noteq> 0)"

definition node_dpk :: "ra_chain_node_t \<Rightarrow> u8" where
  "node_dpk n = drop_bit 6 (cn_psize n)"

text \<open>First half of the loop body of \<open>ra_chain_walk\<close>: \<open>valid\<close> and \<open>pv\<close>.\<close>

definition walk_edge :: "chain_state \<Rightarrow> ra_chain_node_t \<Rightarrow> bool \<times> u32" where
  "walk_edge c n =
     (if cn_parent n \<noteq> RA_CHAIN_PARENT_NONE then
        (let p = unat (cn_parent n); dpk = node_dpk n
         in if \<not> bm_get (ra_chain_node_valid c) p then (False, 0)
            else if dpk \<noteq> RA_CN_DP_CUR \<and> \<not> ra_chain_have_prev c then (False, 0)
            else (let praw = (if dpk = RA_CN_DP_DELTA then ra_chain_values_prev c ! p
                              else if dpk = RA_CN_DP_PRIOR then ra_chain_prior c ! p
                              else ra_chain_values c ! p)
                  in (True, ra_chain_xform praw (cn_psize n AND RA_CN_PSZ_MEM_MASK))))
      else (True, 0))"

text \<open>Second half: the node's value from its edge.\<close>

definition walk_value :: "ppc_mem \<Rightarrow> ra_chain_node_t \<Rightarrow> bool \<Rightarrow> u32 \<Rightarrow> bool \<times> u32" where
  "walk_value mem n valid pv =
     (if node_op n = RA_CN_OP_NONE then (valid, cn_operand n)
      else if node_op n = RA_CN_OP_DEREF then
        (let addr = (if cn_parent n = RA_CHAIN_PARENT_NONE then cn_operand n
                     else pv + cn_operand n);
             w = node_width n
         in if valid \<and> ra_chain_addr_ok addr w then (valid, deref_read mem addr (unat w))
            else (False, 0))
      else (valid, if valid then ra_chain_combine pv (cn_operand n) (node_op n) else 0))"

text \<open>The loop body: value, frame history, validity bit.\<close>

definition walk_node :: "ppc_mem \<Rightarrow> nat \<Rightarrow> chain_state \<Rightarrow> chain_state" where
  "walk_node mem i c =
     (let n = ra_chain_nodes c ! i;
          (valid0, pv) = walk_edge c n;
          (valid, v) = walk_value mem n valid0 pv;
          old = ra_chain_values c ! i
      in c\<lparr> ra_chain_values_prev := (ra_chain_values_prev c)[i := old],
            ra_chain_prior := (if v \<noteq> old then (ra_chain_prior c)[i := old] else ra_chain_prior c),
            ra_chain_values := (ra_chain_values c)[i := v],
            ra_chain_node_valid := bm_put (ra_chain_node_valid c) i valid \<rparr>)"

definition ra_chain_walk :: "ppc_mem \<Rightarrow> chain_state \<Rightarrow> chain_state" where
  "ra_chain_walk mem c =
     (let c0 = c\<lparr> ra_chain_valid_prev := ra_chain_node_valid c \<rparr>;
          c1 = fold (walk_node mem) [0..<ra_chain_node_count c] c0
      in c1\<lparr> ra_chain_have_prev := True \<rparr>)"

section \<open>Well-formed tables\<close>

definition node_ok :: "nat \<Rightarrow> ra_chain_node_t \<Rightarrow> bool" where
  "node_ok i n \<longleftrightarrow>
     (cn_parent n = RA_CHAIN_PARENT_NONE \<or> unat (cn_parent n) < i) \<and>
     (node_op n = RA_CN_OP_NONE \<or> node_op n = RA_CN_OP_DEREF
      \<or> (RA_CN_OP_MULT \<le> node_op n \<and> node_op n \<le> RA_CN_OP_SUB_ACC))"

definition chain_arrays :: "chain_state \<Rightarrow> bool" where
  "chain_arrays c \<longleftrightarrow>
     length (ra_chain_nodes c) = RA_MAX_CHAIN_NODES \<and>
     length (ra_chain_values c) = RA_MAX_CHAIN_NODES \<and>
     length (ra_chain_ship_node c) = RA_MAX_CHAIN_NODES \<and>
     length (ra_chain_node_valid c) = RA_MAX_CHAIN_NODES div 8 \<and>
     length (ra_chain_values_prev c) = RA_MAX_CHAIN_NODES \<and>
     length (ra_chain_prior c) = RA_MAX_CHAIN_NODES \<and>
     length (ra_chain_valid_prev c) = RA_MAX_CHAIN_NODES div 8 \<and>
     length (ra_chain_dp_node c) = RA_MAX_DP_PARENTS \<and>
     length (ra_chain_dp_kind c) = RA_MAX_DP_PARENTS"

definition chain_wf :: "chain_state \<Rightarrow> bool" where
  "chain_wf c \<longleftrightarrow> chain_arrays c \<and>
     ra_chain_node_count c \<le> RA_MAX_CHAIN_NODES \<and>
     (\<forall>i < ra_chain_node_count c. node_ok i (ra_chain_nodes c ! i)) \<and>
     ra_chain_shipped c \<le> ra_chain_node_count c \<and>
     (\<forall>s < ra_chain_shipped c. ra_chain_ship_node c ! s < ra_chain_node_count c) \<and>
     ra_chain_dp_count c \<le> RA_MAX_DP_PARENTS \<and>
     (\<forall>d < ra_chain_dp_count c. ra_chain_dp_node c ! d < ra_chain_node_count c)"

lemma chain_init_wf: "chain_wf chain_init"
  by (simp add: chain_wf_def chain_arrays_def chain_init_def)

lemma chain_wfD:
  assumes "chain_wf c"
  shows "chain_arrays c" "ra_chain_node_count c \<le> RA_MAX_CHAIN_NODES"
    "i < ra_chain_node_count c \<Longrightarrow> node_ok i (ra_chain_nodes c ! i)"
  using assms by (simp_all add: chain_wf_def)

section \<open>Reference semantics\<close>

text \<open>
  \<open>chain_sem mem T old prior hist i\<close> is the pair (resolved?, value) of node \<open>i\<close> of the
  table \<open>T\<close>, where \<open>old\<close> and \<open>prior\<close> are the values and the last different values at the
  previous frame and \<open>hist\<close> says whether there was one.
\<close>

function chain_sem ::
  "ppc_mem \<Rightarrow> ra_chain_node_t list \<Rightarrow> (nat \<Rightarrow> u32) \<Rightarrow> (nat \<Rightarrow> u32) \<Rightarrow> bool \<Rightarrow> nat \<Rightarrow> bool \<times> u32"
where
  "chain_sem mem T old prior hist i =
     (let n = T ! i;
          p = unat (cn_parent n);
          xf = (\<lambda>v. ra_chain_xform v (cn_psize n AND RA_CN_PSZ_MEM_MASK));
          edge =
            (if cn_parent n = RA_CHAIN_PARENT_NONE then Some 0
             else if p < i then
               (case chain_sem mem T old prior hist p of (ok, now) \<Rightarrow>
                  if \<not> ok then None
                  else if node_dpk n = RA_CN_DP_CUR then Some (xf now)
                  else if \<not> hist then None
                  else if node_dpk n = RA_CN_DP_DELTA then Some (xf (old p))
                  else if node_dpk n = RA_CN_DP_PRIOR then
                    Some (xf (if now \<noteq> old p then old p else prior p))
                  else Some (xf now))
             else None)
      in if node_op n = RA_CN_OP_NONE then (edge \<noteq> None, cn_operand n)
         else case edge of
             None \<Rightarrow> (False, 0)
           | Some pv \<Rightarrow>
               if node_op n = RA_CN_OP_DEREF then
                 (if ra_chain_addr_ok (pv + cn_operand n) (node_width n)
                  then (True, le_pack (map (\<lambda>k. mem (pv + cn_operand n + of_nat k))
                                           [0..<unat (node_width n)]))
                  else (False, 0))
               else (True, ra_chain_combine pv (cn_operand n) (node_op n)))"
  by pat_completeness auto
termination
  by (relation "measure (\<lambda>(mem, T, old, prior, hist, i). i)") auto

declare chain_sem.simps [simp del]

section \<open>The walk computes the reference semantics\<close>

lemma node_width_bounds: "0 < node_width n" "0 < unat (node_width n)" "unat (node_width n) \<le> 4"
proof -
  let ?x = "drop_bit 5 (cn_op n) AND 3"
  have "?x \<le> 3" by (rule word_and_le1)
  then have x: "unat ?x \<le> 3" by (simp add: word_le_nat_alt)
  then have "unat (node_width n) = unat ?x + 1" by (simp add: node_width_def unat_word_ariths)
  with x show "0 < unat (node_width n)" and "unat (node_width n) \<le> 4" by simp_all
  then show "0 < node_width n" by (simp add: word_less_nat_alt)
qed

lemma deref_read_le_pack:
  "w \<le> 4 \<Longrightarrow> deref_read mem addr w = le_pack (map (\<lambda>k. ra_read_ppc_byte mem (addr + of_nat k)) [0..<w])"
proof (induction w)
  case (Suc w)
  then show ?case by (simp add: deref_read_def le_pack_snoc_or)
qed (simp add: deref_read_def)

text \<open>An accepted dereference reads the game's own bytes, never the guard's default 0.\<close>

lemma deref_read_ok:
  assumes "ra_chain_addr_ok addr (node_width n)"
  shows "deref_read mem addr (unat (node_width n))
    = le_pack (map (\<lambda>k. mem (addr + of_nat k)) [0..<unat (node_width n)])"
proof -
  have "ra_read_ppc_byte mem (addr + of_nat k) = mem (addr + of_nat k)"
    if "k < unat (node_width n)" for k
    using addr_ok_game_ram [OF assms node_width_bounds(1) that] by (simp add: ra_read_ppc_byte_alt)
  then have "map (\<lambda>k. ra_read_ppc_byte mem (addr + of_nat k)) [0..<unat (node_width n)]
      = map (\<lambda>k. mem (addr + of_nat k)) [0..<unat (node_width n)]" by simp
  then show ?thesis by (simp only: deref_read_le_pack [OF node_width_bounds(3)])
qed

definition sem_of :: "ppc_mem \<Rightarrow> chain_state \<Rightarrow> nat \<Rightarrow> bool \<times> u32" where
  "sem_of mem c = chain_sem mem (ra_chain_nodes c) (\<lambda>j. ra_chain_values c ! j)
     (\<lambda>j. ra_chain_prior c ! j) (ra_chain_have_prev c)"

text \<open>State of the loop after \<open>k\<close> nodes, relative to the state before the walk.\<close>

definition walk_inv :: "ppc_mem \<Rightarrow> chain_state \<Rightarrow> nat \<Rightarrow> chain_state \<Rightarrow> bool" where
  "walk_inv mem c k d \<longleftrightarrow>
     chain_arrays d \<and> ra_chain_nodes d = ra_chain_nodes c \<and>
     ra_chain_have_prev d = ra_chain_have_prev c \<and>
     (\<forall>j < RA_MAX_CHAIN_NODES. k \<le> j \<longrightarrow>
        ra_chain_values d ! j = ra_chain_values c ! j \<and> ra_chain_prior d ! j = ra_chain_prior c ! j) \<and>
     (\<forall>j < k. bm_get (ra_chain_node_valid d) j = fst (sem_of mem c j) \<and>
        ra_chain_values d ! j = snd (sem_of mem c j) \<and>
        ra_chain_values_prev d ! j = ra_chain_values c ! j \<and>
        ra_chain_prior d ! j =
          (if snd (sem_of mem c j) \<noteq> ra_chain_values c ! j then ra_chain_values c ! j
           else ra_chain_prior c ! j))"

lemma walk_edge_sem:
  assumes inv: "walk_inv mem c i d" and i: "i < RA_MAX_CHAIN_NODES"
    and ok: "node_ok i (ra_chain_nodes c ! i)"
  shows "(case walk_edge d (ra_chain_nodes c ! i) of (v, pv) \<Rightarrow>
            walk_value mem (ra_chain_nodes c ! i) v pv) = sem_of mem c i"
proof -
  let ?n = "ra_chain_nodes c ! i"
  show ?thesis
  proof (cases "cn_parent ?n = RA_CHAIN_PARENT_NONE")
    case True
    then show ?thesis
      by (simp add: walk_edge_def walk_value_def sem_of_def chain_sem.simps [of _ _ _ _ _ i]
          Let_def deref_read_ok)
  next
    case False
    with ok have p: "unat (cn_parent ?n) < i" by (simp add: node_ok_def)
    obtain pok now where sem: "sem_of mem c (unat (cn_parent ?n)) = (pok, now)" by fastforce
    from inv p sem have facts:
      "bm_get (ra_chain_node_valid d) (unat (cn_parent ?n)) = pok"
      "ra_chain_values d ! unat (cn_parent ?n) = now"
      "ra_chain_values_prev d ! unat (cn_parent ?n) = ra_chain_values c ! unat (cn_parent ?n)"
      "ra_chain_prior d ! unat (cn_parent ?n) =
         (if now \<noteq> ra_chain_values c ! unat (cn_parent ?n) then ra_chain_values c ! unat (cn_parent ?n)
          else ra_chain_prior c ! unat (cn_parent ?n))"
      "ra_chain_have_prev d = ra_chain_have_prev c"
      by (simp_all add: walk_inv_def)
    show ?thesis
      using False p sem
      by (auto simp: walk_edge_def walk_value_def sem_of_def chain_sem.simps [of _ _ _ _ _ i]
          Let_def deref_read_ok facts)
  qed
qed

lemma walk_node_inv:
  assumes inv: "walk_inv mem c i d" and i: "i < RA_MAX_CHAIN_NODES"
    and ok: "node_ok i (ra_chain_nodes c ! i)"
  shows "walk_inv mem c (Suc i) (walk_node mem i d)"
proof -
  obtain v0 pv where e: "walk_edge d (ra_chain_nodes c ! i) = (v0, pv)" by fastforce
  obtain ok v where w: "walk_value mem (ra_chain_nodes c ! i) v0 pv = (ok, v)" by fastforce
  have sem: "sem_of mem c i = (ok, v)" using walk_edge_sem [OF assms] e w by simp
  have len: "i < 8 * length (ra_chain_node_valid d)"
    using inv i by (simp add: walk_inv_def chain_arrays_def)
  have old: "ra_chain_values d ! i = ra_chain_values c ! i"
    and oldp: "ra_chain_prior d ! i = ra_chain_prior c ! i"
    using inv i by (simp_all add: walk_inv_def)
  have n: "ra_chain_nodes d ! i = ra_chain_nodes c ! i" using inv by (simp add: walk_inv_def)
  have step: "walk_node mem i d = d\<lparr>
      ra_chain_values_prev := (ra_chain_values_prev d)[i := ra_chain_values c ! i],
      ra_chain_prior := (if v \<noteq> ra_chain_values c ! i
        then (ra_chain_prior d)[i := ra_chain_values c ! i] else ra_chain_prior d),
      ra_chain_values := (ra_chain_values d)[i := v],
      ra_chain_node_valid := bm_put (ra_chain_node_valid d) i ok \<rparr>"
    by (simp add: walk_node_def n e w old Let_def)
  show ?thesis
    using inv i unfolding walk_inv_def step
    by (auto simp: chain_arrays_def nth_list_update bm_get_put [OF len] sem old oldp less_Suc_eq)
qed

lemma walk_loop_inv:
  assumes "chain_wf c" and "k \<le> ra_chain_node_count c"
  shows "walk_inv mem c k (fold (walk_node mem) [0..<k]
           (c\<lparr> ra_chain_valid_prev := ra_chain_node_valid c \<rparr>))"
  using assms(2)
proof (induction k)
  case 0
  then show ?case using chain_wfD(1) [OF assms(1)] by (simp add: walk_inv_def chain_arrays_def)
next
  case (Suc k)
  then have "k < RA_MAX_CHAIN_NODES" using chain_wfD(2) [OF assms(1)] by simp
  moreover have "node_ok k (ra_chain_nodes c ! k)" using Suc.prems chain_wfD(3) [OF assms(1)] by simp
  ultimately show ?case using walk_node_inv [OF Suc.IH] Suc.prems by simp
qed

lemma walk_node_frame:
  "ra_chain_node_count (walk_node mem i d) = ra_chain_node_count d"
  "ra_chain_shipped (walk_node mem i d) = ra_chain_shipped d"
  "ra_chain_ship_node (walk_node mem i d) = ra_chain_ship_node d"
  "ra_chain_win_next (walk_node mem i d) = ra_chain_win_next d"
  "ra_chain_valid_prev (walk_node mem i d) = ra_chain_valid_prev d"
  "ra_chain_dp_node (walk_node mem i d) = ra_chain_dp_node d"
  "ra_chain_dp_kind (walk_node mem i d) = ra_chain_dp_kind d"
  "ra_chain_dp_count (walk_node mem i d) = ra_chain_dp_count d"
  by (simp_all add: walk_node_def Let_def split: prod.split)

lemma walk_loop_frame:
  "ra_chain_node_count (fold (walk_node mem) is d) = ra_chain_node_count d"
  "ra_chain_shipped (fold (walk_node mem) is d) = ra_chain_shipped d"
  "ra_chain_ship_node (fold (walk_node mem) is d) = ra_chain_ship_node d"
  "ra_chain_win_next (fold (walk_node mem) is d) = ra_chain_win_next d"
  "ra_chain_valid_prev (fold (walk_node mem) is d) = ra_chain_valid_prev d"
  "ra_chain_dp_node (fold (walk_node mem) is d) = ra_chain_dp_node d"
  "ra_chain_dp_kind (fold (walk_node mem) is d) = ra_chain_dp_kind d"
  "ra_chain_dp_count (fold (walk_node mem) is d) = ra_chain_dp_count d"
  by (induction "is" arbitrary: d) (simp_all add: walk_node_frame)

lemmas walk_frame = walk_loop_frame

lemma ra_chain_walk_frame:
  "ra_chain_node_count (ra_chain_walk mem c) = ra_chain_node_count c"
  "ra_chain_shipped (ra_chain_walk mem c) = ra_chain_shipped c"
  "ra_chain_ship_node (ra_chain_walk mem c) = ra_chain_ship_node c"
  "ra_chain_win_next (ra_chain_walk mem c) = ra_chain_win_next c"
  "ra_chain_valid_prev (ra_chain_walk mem c) = ra_chain_node_valid c"
  "ra_chain_dp_node (ra_chain_walk mem c) = ra_chain_dp_node c"
  "ra_chain_dp_kind (ra_chain_walk mem c) = ra_chain_dp_kind c"
  "ra_chain_dp_count (ra_chain_walk mem c) = ra_chain_dp_count c"
  "ra_chain_have_prev (ra_chain_walk mem c)"
  by (simp_all add: ra_chain_walk_def Let_def walk_frame)

lemma walk_inv_have_prev:
  "walk_inv mem c k d \<Longrightarrow> walk_inv mem c k (d\<lparr> ra_chain_have_prev := ra_chain_have_prev c \<rparr>)"
  unfolding walk_inv_def chain_arrays_def by (intro conjI) (elim conjE; simp)+

lemma ra_chain_walk_inv:
  assumes "chain_wf c"
  shows "walk_inv mem c (ra_chain_node_count c)
    ((ra_chain_walk mem c)\<lparr> ra_chain_have_prev := ra_chain_have_prev c \<rparr>)"
proof -
  have "walk_inv mem c (ra_chain_node_count c) (fold (walk_node mem) [0..<ra_chain_node_count c]
           (c\<lparr> ra_chain_valid_prev := ra_chain_node_valid c \<rparr>))"
    by (rule walk_loop_inv [OF assms order_refl])
  from walk_inv_have_prev [OF this] show ?thesis by (simp add: ra_chain_walk_def Let_def)
qed

lemma ra_chain_walk_nodes: "chain_wf c \<Longrightarrow> ra_chain_nodes (ra_chain_walk mem c) = ra_chain_nodes c"
  using ra_chain_walk_inv [of c mem] by (simp add: walk_inv_def)

lemma ra_chain_walk_wf: "chain_wf c \<Longrightarrow> chain_wf (ra_chain_walk mem c)"
  using ra_chain_walk_inv [of c mem]
  by (simp add: chain_wf_def walk_inv_def chain_arrays_def ra_chain_walk_frame ra_chain_walk_nodes)

section \<open>Properties\<close>

text \<open>A pointer at \<open>0x100\<close> and a word behind it: the smallest table with an edge.\<close>

definition demo_chain :: chain_state where
  "demo_chain = chain_init\<lparr>
     ra_chain_nodes := (ra_chain_nodes chain_init)[
       0 := \<lparr> cn_operand = 0x100, cn_parent = RA_CHAIN_PARENT_NONE, cn_op = 0x71, cn_psize = 0 \<rparr>,
       1 := \<lparr> cn_operand = 4, cn_parent = 0, cn_op = 0xF1, cn_psize = RA_CN_SZ_32 \<rparr>],
     ra_chain_node_count := 2, ra_chain_shipped := 1,
     ra_chain_ship_node := (ra_chain_ship_node chain_init)[0 := 1] \<rparr>"

definition demo_mem :: ppc_mem where
  "demo_mem a = (if a = 0x101 then 2 else if a = 0x204 then 7 else 0)"

lemma demo_nodes:
  "ra_chain_nodes demo_chain ! 0
     = \<lparr> cn_operand = 0x100, cn_parent = RA_CHAIN_PARENT_NONE, cn_op = 0x71, cn_psize = 0 \<rparr>"
  "ra_chain_nodes demo_chain ! Suc 0
     = \<lparr> cn_operand = 4, cn_parent = 0, cn_op = 0xF1, cn_psize = RA_CN_SZ_32 \<rparr>"
  by (simp_all add: demo_chain_def chain_init_def)

lemma demo_chain_wf: "chain_wf demo_chain"
  by (simp add: chain_wf_def chain_arrays_def demo_chain_def chain_init_def node_ok_def node_op_def
      less_2_cases_iff All_less_Suc2 numeral_2_eq_2 zero_node_def)

text \<open>
  C1. The walk is a correct one-pass evaluator: on a well-formed table it leaves at every node
  the validity and the value that the recursive definition of the protocol gives for the
  memory and the history before the walk, it shifts the value into the one-frame history, and
  it records the last different value exactly when the value changed.
\<close>

theorem chain_walk_refines:
  assumes "chain_wf c" and "i < ra_chain_node_count c"
  shows "bm_get (ra_chain_node_valid (ra_chain_walk mem c)) i = fst (sem_of mem c i)
    \<and> ra_chain_values (ra_chain_walk mem c) ! i = snd (sem_of mem c i)
    \<and> ra_chain_values_prev (ra_chain_walk mem c) ! i = ra_chain_values c ! i
    \<and> ra_chain_prior (ra_chain_walk mem c) ! i =
      (if snd (sem_of mem c i) \<noteq> ra_chain_values c ! i then ra_chain_values c ! i else ra_chain_prior c ! i)"
  using ra_chain_walk_inv [OF assms(1), of mem] assms(2) by (simp add: walk_inv_def)

theorem chain_walk_refines_witness:
  "ra_chain_values (ra_chain_walk demo_mem demo_chain) ! 1 = 7
   \<and> bm_get (ra_chain_node_valid (ra_chain_walk demo_mem demo_chain)) 1"
proof -
  have n: "(1::nat) < ra_chain_node_count demo_chain" by (simp add: demo_chain_def)
  have u: "[0..<4] = [0, 1, 2, 3::nat]" by (simp add: upt_rec)
  have s0: "sem_of demo_mem demo_chain 0 = (True, 0x200)"
    unfolding sem_of_def by (subst chain_sem.simps)
      (simp add: demo_nodes node_op_def node_width_def ra_chain_addr_ok_def demo_mem_def u)
  have s: "sem_of demo_mem demo_chain 1 = (True, 7)"
    unfolding sem_of_def by (subst chain_sem.simps)
      (simp add: demo_nodes node_op_def node_width_def node_dpk_def ra_chain_xform_def
        ra_chain_addr_ok_def demo_mem_def u s0 [unfolded sem_of_def])
  show ?thesis using chain_walk_refines [OF demo_chain_wf n, of demo_mem] s by simp
qed

text \<open>
  C29. The width check of a dereference covers every byte that is then read: each byte of an
  accepted access lies in the memory a game can own, and the addresses do not wrap around.
\<close>

theorem deref_stays_in_game_ram:
  assumes "ra_chain_addr_ok addr (node_width n)" and "k < unat (node_width n)"
  shows "game_ram (addr + of_nat k) \<and> unat (addr + of_nat k) = unat addr + k"
  using addr_ok_game_ram [OF assms(1) node_width_bounds(1) assms(2)] by simp

theorem deref_stays_in_game_ram_witness:
  "game_ram (0x133FFFFC + of_nat 3) \<and> unat (0x133FFFFC + of_nat 3 :: u32) = unat (0x133FFFFC :: u32) + 3"
  by (rule deref_stays_in_game_ram [of _ "\<lparr> cn_operand = 0, cn_parent = 0, cn_op = 0x71, cn_psize = 0 \<rparr>"])
     (simp_all add: ra_chain_addr_ok_def node_width_def)

end
