(* ===== verification/RA_Chain_Fetch.thy ===== *)
theory RA_Chain_Fetch
  imports RA_Chain RA_Link
begin

text \<open>
  Fetching the chain descriptor table (\<open>ra_fetch_chain_chunk\<close>,
  \<open>ra_fetch_chain_table\<close> of \<open>ra-module/main.c\<close>): the request, the checks on the response
  in the order of the source, the copy into the node array, the structural validation,
  the shipped-node index and the list of delta/prior parents. The adapter is not
  trusted: whatever the link returns, the table that results is well-formed.
\<close>

abbreviation (input) CHUNK_PAD :: nat where "CHUNK_PAD \<equiv> 6"
abbreviation (input) CHUNK_RX_SIZE :: nat where
  "CHUNK_RX_SIZE \<equiv> 6 + 6 + 8 + RA_WATCHLIST_CHUNK_ADDRS * 4 + 4"

section \<open>One chunk\<close>

definition chain_chunk_request :: "u16 \<Rightarrow> bytes" where
  "chain_chunk_request idx = ra_fill_header RA_CMD_GET_CHAIN_CHUNK 2 @ put_be16 idx"

definition chain_chunk_check :: "bytes \<Rightarrow> u16 \<Rightarrow> nat \<Rightarrow> s32 + ra_chain_chunk_t" where
  "chain_chunk_check rx idx base =
     (let resp = dec_ra_esp_header_t (sub_bytes rx CHUNK_PAD 6);
          chunk = dec_ra_chain_chunk_t (sub_bytes rx (CHUNK_PAD + 6) 8);
          pl = 6 + 8 + unat (cc_node_count chunk) * RA_CHAIN_NODE_SIZE
      in if eh_magic resp \<noteq> RA_MAGIC_ESP_TO_GC then Inl (-100)
         else if unat (cc_node_count chunk) > RA_CHAIN_CHUNK_NODES then Inl (-101)
         else if cc_chunk_index chunk \<noteq> idx then Inl (-102)
         else if unat (cc_total_nodes chunk) > RA_MAX_CHAIN_NODES then Inl (-103)
         else if base + unat (cc_node_count chunk) > unat (cc_total_nodes chunk) then Inl (-104)
         else if be32 (sub_bytes rx (CHUNK_PAD + pl) 4) \<noteq> ra_crc32 (sub_bytes rx CHUNK_PAD pl)
         then Inl (-107)
         else Inr chunk)"

definition chunk_nodes :: "bytes \<Rightarrow> nat \<Rightarrow> ra_chain_node_t list" where
  "chunk_nodes rx n =
     map (\<lambda>k. dec_ra_chain_node_t (sub_bytes rx (CHUNK_PAD + 6 + 8 + k * RA_CHAIN_NODE_SIZE)
                                     RA_CHAIN_NODE_SIZE)) [0..<n]"

text \<open>The validation loop: the index and error of the first bad node.\<close>

fun chain_validate :: "nat \<Rightarrow> ra_chain_node_t list \<Rightarrow> (nat \<times> s32) option" where
  "chain_validate i [] = None"
| "chain_validate i (n # ns) =
     (if cn_parent n \<noteq> RA_CHAIN_PARENT_NONE \<and> unat (cn_parent n) \<ge> i then Some (i, -105)
      else if node_op n \<noteq> RA_CN_OP_NONE \<and> node_op n \<noteq> RA_CN_OP_DEREF
              \<and> (node_op n < RA_CN_OP_MULT \<or> node_op n > RA_CN_OP_SUB_ACC) then Some (i, -106)
      else chain_validate (Suc i) ns)"

definition ra_chain_dump_bad_node :: "'w ra_link \<Rightarrow> nat \<Rightarrow> ra_chain_node_t \<Rightarrow> 'w \<Rightarrow> 'w" where
  "ra_chain_dump_bad_node L idx n w =
     ra_debug_send_always L
       (ascii ''CHN i='' @ ra_dbg_u16_dec (of_nat idx) @ ascii '' b=''
        @ ra_dbg_hex_bytes (enc_ra_chain_node_t n) 0) w"

definition ra_fetch_chain_chunk ::
  "'w ra_link \<Rightarrow> u16 \<Rightarrow> nat \<times> chain_state \<Rightarrow> 'w \<Rightarrow> s32 \<times> (nat \<times> chain_state) \<times> 'w"
where
  "ra_fetch_chain_chunk L idx s w =
     (case s of (base, c) \<Rightarrow>
      case lk_phase_b L (chain_chunk_request idx) CHUNK_RX_SIZE w of ((ret, rx), w1) \<Rightarrow>
        if ret < 0 then (ret, (base, c), w1)
        else case chain_chunk_check rx idx base of
            Inl e \<Rightarrow> (e, (base, c), w1)
          | Inr chunk \<Rightarrow>
              (let ns = chunk_nodes rx (unat (cc_node_count chunk));
                   c1 = c\<lparr> ra_chain_nodes := blit (ra_chain_nodes c) base ns \<rparr>
               in case chain_validate base ns of
                    Some (i, e) \<Rightarrow> (e, (base, c1),
                                     ra_chain_dump_bad_node L i (ra_chain_nodes c1 ! i) w1)
                  | None \<Rightarrow> (if cc_is_last chunk \<noteq> 0 then 1 else 0,
                             (base + unat (cc_node_count chunk), c1), w1)))"

section \<open>The whole table\<close>

text \<open>The chunk loop; \<open>left\<close> counts the iterations the bound on \<open>chunk_idx\<close> still allows.\<close>

fun chain_chunks ::
  "'w ra_link \<Rightarrow> u16 \<Rightarrow> nat \<Rightarrow> nat \<times> chain_state \<Rightarrow> 'w \<Rightarrow> s32 \<times> (nat \<times> chain_state) \<times> 'w"
where
  "chain_chunks L idx 0 s w = (0, s, w)"
| "chain_chunks L idx (Suc left) s w =
     (case chunk_attempts L CHR ''C'' idx (ra_fetch_chain_chunk L idx) 0
             RA_CHUNK_FETCH_ATTEMPTS (-1) s w of
        (ret, s', w') \<Rightarrow>
          if ret < 0 then
            (ret, s', ra_debug_send_always L
                        (ascii ''CHN err='' @ ra_dbg_u16_dec (of_int (- ret))) w')
          else if ret = 1 then (ret, s', w')
          else chain_chunks L (idx + 1) left s' w')"

definition ship_step :: "nat \<Rightarrow> chain_state \<Rightarrow> chain_state" where
  "ship_step i c =
     (if node_shipped (ra_chain_nodes c ! i)
      then c\<lparr> ra_chain_ship_node := (ra_chain_ship_node c)[ra_chain_shipped c := i],
              ra_chain_shipped := ra_chain_shipped c + 1 \<rparr>
      else c)"

definition clear_history :: "nat \<Rightarrow> chain_state \<Rightarrow> chain_state" where
  "clear_history i c =
     c\<lparr> ra_chain_values := (ra_chain_values c)[i := 0],
        ra_chain_values_prev := (ra_chain_values_prev c)[i := 0],
        ra_chain_prior := (ra_chain_prior c)[i := 0] \<rparr>"

definition dp_known :: "chain_state \<Rightarrow> nat \<Rightarrow> u8 \<Rightarrow> bool" where
  "dp_known c p k \<longleftrightarrow>
     list_ex (\<lambda>j. ra_chain_dp_node c ! j = p \<and> ra_chain_dp_kind c ! j = k) [0..<ra_chain_dp_count c]"

fun dp_scan :: "nat list \<Rightarrow> chain_state \<Rightarrow> chain_state" where
  "dp_scan [] c = c"
| "dp_scan (i # is) c =
     (let n = ra_chain_nodes c ! i; dpk = node_dpk n; p = unat (cn_parent n)
      in if dpk = RA_CN_DP_CUR \<or> cn_parent n = RA_CHAIN_PARENT_NONE then dp_scan is c
         else if dp_known c p dpk then dp_scan is c
         else if ra_chain_dp_count c \<ge> RA_MAX_DP_PARENTS then
           c\<lparr> ra_chain_node_count := 0, ra_chain_shipped := 0, ra_chain_dp_count := 0 \<rparr>
         else dp_scan is
           (c\<lparr> ra_chain_dp_node := (ra_chain_dp_node c)[ra_chain_dp_count c := p],
               ra_chain_dp_kind := (ra_chain_dp_kind c)[ra_chain_dp_count c := dpk],
               ra_chain_dp_count := ra_chain_dp_count c + 1 \<rparr>))"

text \<open>Everything after the chunk loop.\<close>

definition chain_install :: "nat \<Rightarrow> chain_state \<Rightarrow> chain_state" where
  "chain_install base c =
     (let c1 = c\<lparr> ra_chain_node_count := base \<rparr>;
          c2 = fold ship_step [0..<base] c1;
          c3 = c2\<lparr> ra_chain_have_prev := False, ra_chain_dp_count := 0 \<rparr>;
          c4 = fold clear_history [0..<base] c3;
          c5 = c4\<lparr> ra_chain_valid_prev := replicate (RA_MAX_CHAIN_NODES div 8) 0 \<rparr>
      in dp_scan [0..<base] c5)"

definition ra_fetch_chain_table :: "'w ra_link \<Rightarrow> chain_state \<Rightarrow> 'w \<Rightarrow> chain_state \<times> 'w" where
  "ra_fetch_chain_table L c w =
     (let c0 = c\<lparr> ra_chain_node_count := 0, ra_chain_shipped := 0, ra_chain_win_next := 0 \<rparr>
      in case chain_chunks L 0 (RA_MAX_CHAIN_NODES div RA_CHAIN_CHUNK_NODES + 1) (0, c0) w of
           (ret, (base, c1), w1) \<Rightarrow>
             if ret < 0 then (c1, w1) else (chain_install base c1, w1))"

section \<open>Any response leaves a well-formed table\<close>

lemma chain_validate_None:
  "chain_validate i ns = None \<longleftrightarrow> (\<forall>k < length ns. node_ok (i + k) (ns ! k))"
proof (induction i ns rule: chain_validate.induct)
  case (2 i n ns)
  have eq: "(\<forall>k < length (n # ns). node_ok (i + k) ((n # ns) ! k))
      \<longleftrightarrow> node_ok i n \<and> (\<forall>k < length ns. node_ok (Suc i + k) (ns ! k))"
    by (simp add: All_less_Suc2)
  show ?case
    unfolding eq using "2.IH" by (auto simp: node_ok_def not_le not_less)
qed simp

lemma chain_check_bounds:
  assumes "chain_chunk_check rx idx base = Inr chunk"
  shows "unat (cc_node_count chunk) \<le> RA_CHAIN_CHUNK_NODES"
    and "base + unat (cc_node_count chunk) \<le> RA_MAX_CHAIN_NODES"
    and "CHUNK_PAD + 14 + unat (cc_node_count chunk) * RA_CHAIN_NODE_SIZE + 4 \<le> CHUNK_RX_SIZE"
  using assms by (auto simp: chain_chunk_check_def Let_def split: if_splits)

text \<open>State of the fetch: the nodes taken over so far are well-formed.\<close>

definition fetch_inv :: "nat \<times> chain_state \<Rightarrow> bool" where
  "fetch_inv s \<longleftrightarrow> (case s of (base, c) \<Rightarrow>
     chain_arrays c \<and> base \<le> RA_MAX_CHAIN_NODES \<and>
     (\<forall>i < base. node_ok i (ra_chain_nodes c ! i)) \<and>
     ra_chain_node_count c = 0 \<and> ra_chain_shipped c = 0 \<and> ra_chain_dp_count c = 0)"

lemma fetch_chunk_inv:
  assumes "fetch_inv s" and "ra_fetch_chain_chunk L idx s w = (ret, s', w')"
  shows "fetch_inv s'"
proof -
  obtain base c where s: "s = (base, c)" by fastforce
  obtain r rx w1 where pb: "lk_phase_b L (chain_chunk_request idx) CHUNK_RX_SIZE w = ((r, rx), w1)"
    by (metis prod.exhaust)
  show ?thesis
  proof (cases "r < 0 \<or> (\<exists>e. chain_chunk_check rx idx base = Inl e)")
    case True
    then show ?thesis using assms s pb
      by (auto simp: ra_fetch_chain_chunk_def split: if_splits)
  next
    case False
    then obtain chunk where ck: "chain_chunk_check rx idx base = Inr chunk"
      by (metis sumE)
    define ns where "ns = chunk_nodes rx (unat (cc_node_count chunk))"
    define c1 where "c1 = c\<lparr> ra_chain_nodes := blit (ra_chain_nodes c) base ns \<rparr>"
    have len: "length ns = unat (cc_node_count chunk)" by (simp add: ns_def chunk_nodes_def)
    have fit: "base + length ns \<le> length (ra_chain_nodes c)"
      using chain_check_bounds(2) [OF ck] assms(1) s len
      by (simp add: fetch_inv_def chain_arrays_def)
    have arr: "chain_arrays c1"
      using assms(1) s fit by (simp add: fetch_inv_def chain_arrays_def c1_def length_blit)
    have low: "node_ok i (ra_chain_nodes c1 ! i)" if "i < base" for i
      using that assms(1) s fit by (simp add: fetch_inv_def c1_def nth_blit)
    have base_inv: "fetch_inv (base, c1)"
      using assms(1) s arr low by (simp add: fetch_inv_def c1_def)
    show ?thesis
    proof (cases "chain_validate base ns")
      case None
      then have ok: "node_ok (base + k) (ns ! k)" if "k < length ns" for k
        using that by (simp add: chain_validate_None)
      have "node_ok i (ra_chain_nodes c1 ! i)" if "i < base + length ns" for i
      proof (cases "i < base")
        case False
        then show ?thesis using that ok [of "i - base"] fit by (simp add: c1_def nth_blit)
      qed (rule low)
      then have "fetch_inv (base + length ns, c1)"
        using base_inv fit assms(1) s by (simp add: fetch_inv_def chain_arrays_def)
      moreover have "s' = (base + length ns, c1)"
        using assms(2) s pb ck False None
        by (auto simp: ra_fetch_chain_chunk_def Let_def ns_def [symmetric] c1_def [symmetric] len)
      ultimately show ?thesis by simp
    next
      case (Some ie)
      then have "s' = (base, c1)"
        using assms(2) s pb ck False
        by (auto simp: ra_fetch_chain_chunk_def Let_def ns_def [symmetric] c1_def [symmetric]
            split: prod.splits)
      then show ?thesis using base_inv by simp
    qed
  qed
qed

lemma chain_chunks_inv:
  "fetch_inv s \<Longrightarrow> chain_chunks L idx left s w = (ret, s', w') \<Longrightarrow> fetch_inv s'"
proof (induction left arbitrary: idx s w)
  case (Suc left)
  obtain r s1 w1 where a: "chunk_attempts L CHR ''C'' idx (ra_fetch_chain_chunk L idx) 0
      RA_CHUNK_FETCH_ATTEMPTS (-1) s w = (r, s1, w1)" by (metis prod_cases3)
  have "fetch_inv s1"
    by (rule chunk_attempts_keeps [where P = fetch_inv, OF fetch_chunk_inv Suc.prems(1) a])
  then show ?case using Suc.IH Suc.prems(2) a by (auto split: if_splits)
qed auto

text \<open>The shipped index: the positions of the shipped nodes, in table order.\<close>

lemma ship_fold:
  assumes "chain_arrays c" and "base \<le> RA_MAX_CHAIN_NODES" and "ra_chain_shipped c = 0"
    and "k \<le> base"
  shows "\<exists>sn. fold ship_step [0..<k] c
      = c\<lparr> ra_chain_ship_node := sn,
            ra_chain_shipped := length (filter (\<lambda>i. node_shipped (ra_chain_nodes c ! i)) [0..<k]) \<rparr>
    \<and> length sn = RA_MAX_CHAIN_NODES
    \<and> take (length (filter (\<lambda>i. node_shipped (ra_chain_nodes c ! i)) [0..<k])) sn
        = filter (\<lambda>i. node_shipped (ra_chain_nodes c ! i)) [0..<k]"
  using assms(4)
proof (induction k)
  case 0
  have "c = c\<lparr> ra_chain_ship_node := ra_chain_ship_node c, ra_chain_shipped := 0 \<rparr>"
    using assms(3) by simp
  then show ?case using assms(1) unfolding chain_arrays_def
    by (intro exI [of _ "ra_chain_ship_node c"]) simp
next
  case (Suc k)
  let ?f = "\<lambda>k. filter (\<lambda>i. node_shipped (ra_chain_nodes c ! i)) [0..<k]"
  obtain sn where sn: "fold ship_step [0..<k] c
      = c\<lparr> ra_chain_ship_node := sn, ra_chain_shipped := length (?f k) \<rparr>"
    "length sn = RA_MAX_CHAIN_NODES" "take (length (?f k)) sn = ?f k"
    using Suc by auto
  have "length (?f k) \<le> k" using length_filter_le [of _ "[0..<k]"] by simp
  then have lt: "length (?f k) < length sn" using Suc.prems assms(2) sn(2) by simp
  show ?case
  proof (cases "node_shipped (ra_chain_nodes c ! k)")
    case True
    then show ?thesis
      using sn lt
      by (intro exI [of _ "sn[length (?f k) := k]"])
        (simp add: ship_step_def [of k] take_list_update_Suc)
  next
    case False
    then show ?thesis using sn by (intro exI [of _ sn]) (simp add: ship_step_def [of k])
  qed
qed

lemma clear_fold:
  "\<exists>v p q. fold clear_history is c
     = c\<lparr> ra_chain_values := v, ra_chain_values_prev := p, ra_chain_prior := q \<rparr>
   \<and> length v = length (ra_chain_values c) \<and> length p = length (ra_chain_values_prev c)
   \<and> length q = length (ra_chain_prior c)"
proof (induction "is" arbitrary: c)
  case Nil
  have "c = c\<lparr> ra_chain_values := ra_chain_values c, ra_chain_values_prev := ra_chain_values_prev c,
      ra_chain_prior := ra_chain_prior c \<rparr>" by simp
  then show ?case by (metis fold_simps(1))
next
  case (Cons i "is")
  from Cons.IH [of "clear_history i c"] show ?case
    by (auto simp: clear_history_def)
qed

lemma dp_scan_wf:
  assumes "chain_wf c" and "\<forall>i \<in> set is. i < ra_chain_node_count c"
  shows "chain_wf (dp_scan is c)"
  using assms
proof (induction "is" arbitrary: c)
  case (Cons i "is")
  let ?n = "ra_chain_nodes c ! i"
  let ?c = "c\<lparr> ra_chain_dp_node := (ra_chain_dp_node c)[ra_chain_dp_count c := unat (cn_parent ?n)],
      ra_chain_dp_kind := (ra_chain_dp_kind c)[ra_chain_dp_count c := node_dpk ?n],
      ra_chain_dp_count := ra_chain_dp_count c + 1 \<rparr>"
  have i: "i < ra_chain_node_count c" using Cons.prems(2) by simp
  have ok: "node_ok i ?n" using i chain_wfD(3) [OF Cons.prems(1)] by simp
  consider (skip) "node_dpk ?n = 0 \<or> cn_parent ?n = RA_CHAIN_PARENT_NONE
        \<or> dp_known c (unat (cn_parent ?n)) (node_dpk ?n)"
    | (full) "\<not> (node_dpk ?n = 0 \<or> cn_parent ?n = RA_CHAIN_PARENT_NONE)"
        "\<not> dp_known c (unat (cn_parent ?n)) (node_dpk ?n)" "ra_chain_dp_count c \<ge> RA_MAX_DP_PARENTS"
    | (add) "\<not> (node_dpk ?n = 0 \<or> cn_parent ?n = RA_CHAIN_PARENT_NONE)"
        "\<not> dp_known c (unat (cn_parent ?n)) (node_dpk ?n)" "ra_chain_dp_count c < RA_MAX_DP_PARENTS"
    by linarith
  then show ?case
  proof cases
    case skip
    then have "dp_scan (i # is) c = dp_scan is c" by (auto simp: Let_def)
    moreover have "chain_wf (dp_scan is c)" using Cons by simp
    ultimately show ?thesis by simp
  next
    case full
    then show ?thesis using Cons.prems(1) by (simp add: Let_def chain_wf_def chain_arrays_def)
  next
    case add
    then have p: "unat (cn_parent ?n) < ra_chain_node_count c" using ok i by (simp add: node_ok_def)
    have "chain_wf ?c"
      using Cons.prems(1) add(3) p
      by (auto simp: chain_wf_def chain_arrays_def nth_list_update less_Suc_eq)
    then have "chain_wf (dp_scan is ?c)"
      using Cons.IH [of ?c] Cons.prems(2) by simp
    then show ?thesis using add by (simp add: Let_def)
  qed
qed simp

lemma chain_install_wf:
  assumes "fetch_inv (base, c)"
  shows "chain_wf (chain_install base c)"
proof -
  let ?c1 = "c\<lparr> ra_chain_node_count := base \<rparr>"
  let ?f = "filter (\<lambda>i. node_shipped (ra_chain_nodes ?c1 ! i)) [0..<base]"
  have b: "base \<le> RA_MAX_CHAIN_NODES" and arr: "chain_arrays ?c1" and s0: "ra_chain_shipped ?c1 = 0"
    and nodes: "\<forall>i < base. node_ok i (ra_chain_nodes c ! i)"
    using assms by (simp_all add: fetch_inv_def chain_arrays_def)
  obtain sn where sn: "fold ship_step [0..<base] ?c1
      = ?c1\<lparr> ra_chain_ship_node := sn, ra_chain_shipped := length ?f \<rparr>"
    "length sn = RA_MAX_CHAIN_NODES" "take (length ?f) sn = ?f"
    using ship_fold [OF arr b s0 order_refl] by blast
  let ?c3 = "?c1\<lparr> ra_chain_ship_node := sn, ra_chain_shipped := length ?f,
      ra_chain_have_prev := False, ra_chain_dp_count := 0 \<rparr>"
  obtain v p q where vpq: "fold clear_history [0..<base] ?c3
      = ?c3\<lparr> ra_chain_values := v, ra_chain_values_prev := p, ra_chain_prior := q \<rparr>"
    "length v = RA_MAX_CHAIN_NODES" "length p = RA_MAX_CHAIN_NODES" "length q = RA_MAX_CHAIN_NODES"
    using clear_fold [of "[0..<base]" ?c3] arr by (auto simp: chain_arrays_def)
  have ships: "sn ! s < base" if "s < length ?f" for s
  proof -
    have "sn ! s = ?f ! s" using sn(3) that by (metis nth_take)
    then show ?thesis using nth_mem [OF that] by auto
  qed
  have "length ?f \<le> base" using length_filter_le [of _ "[0..<base]"] by simp
  then have "chain_wf (?c3\<lparr> ra_chain_values := v, ra_chain_values_prev := p, ra_chain_prior := q,
      ra_chain_valid_prev := replicate (RA_MAX_CHAIN_NODES div 8) 0 \<rparr>)"
    using arr b nodes sn(2) vpq(2-4) ships by (simp add: chain_wf_def chain_arrays_def)
  then show ?thesis
    unfolding chain_install_def Let_def sn(1) vpq(1)
    by (simp add: sn(1) vpq(1) dp_scan_wf)
qed

lemma fetch_chain_table_wf:
  assumes "chain_arrays c" and "ra_chain_dp_count c = 0"
  shows "chain_wf (fst (ra_fetch_chain_table L c w))"
proof -
  let ?c0 = "c\<lparr> ra_chain_node_count := 0, ra_chain_shipped := 0, ra_chain_win_next := 0 \<rparr>"
  obtain ret base c1 w1 where ch:
    "chain_chunks L 0 (RA_MAX_CHAIN_NODES div RA_CHAIN_CHUNK_NODES + 1) (0, ?c0) w
       = (ret, (base, c1), w1)"
    by (metis prod.exhaust)
  have "fetch_inv (0, ?c0)" using assms by (simp add: fetch_inv_def chain_arrays_def)
  then have inv: "fetch_inv (base, c1)" using ch by (rule chain_chunks_inv)
  show ?thesis
  proof (cases "ret < 0")
    case True
    then show ?thesis using inv ch
      by (simp add: ra_fetch_chain_table_def Let_def fetch_inv_def chain_wf_def chain_arrays_def)
  next
    case False
    then show ?thesis using chain_install_wf [OF inv] ch
      by (simp add: ra_fetch_chain_table_def Let_def)
  qed
qed

section \<open>Properties\<close>

text \<open>
  C28. The adapter is not trusted with the chain table: whatever the link returns, in however
  many attempts, the table that a fetch leaves is well-formed (every parent precedes its
  child, every operation is known, every index the walk and the snapshot use is in range).
\<close>

theorem fetched_table_wf:
  assumes "chain_arrays c" and "ra_chain_dp_count c = 0"
  shows "chain_wf (fst (ra_fetch_chain_table L c w))"
  using assms by (rule fetch_chain_table_wf)

theorem fetched_table_wf_witness:
  "chain_wf (fst (ra_fetch_chain_table dead_link chain_init ()))"
  by (rule fetched_table_wf) (simp_all add: chain_wfD(1) [OF chain_init_wf], simp add: chain_init_def)

end
