(* ===== verification/RA_Watchlist.thy ===== *)
theory RA_Watchlist
  imports RA_Link RA_Chain_Fetch
begin

text \<open>
  The watchlist of \<open>ra-module/main.c\<close>: its chunked fetch (\<open>ra_fetch_watchlist*\<close>), the
  central response parser \<open>ra_parse_response\<close> with its in-place mutations, and the
  resynchronisation. The watchlist is a fixed array with a count; its abstraction
  \<open>wl\<close> is the list of the first \<open>count\<close> addresses, and every operation is shown to
  implement the plain list operation on it, for any bytes the adapter sends.
\<close>

section \<open>State\<close>

record wl_state =
  ra_watchlist :: "u32 list"
  ra_watchlist_count :: nat
  ra_pending_query_addrs :: "u32 list"
  ra_pending_query_count :: nat
  ra_wl_seq :: u16
  ra_resync_pending :: bool
  ra_resync_seq :: u16
  ra_led_celebrate :: nat

definition wl_init :: wl_state where
  "wl_init = \<lparr> ra_watchlist = replicate RA_MAX_WATCH_ADDRS 0, ra_watchlist_count = 0,
     ra_pending_query_addrs = replicate RA_ADDR_QUERY_MAX 0, ra_pending_query_count = 0,
     ra_wl_seq = 0, ra_resync_pending = False, ra_resync_seq = 0, ra_led_celebrate = 0 \<rparr>"

definition wl :: "wl_state \<Rightarrow> u32 list" where
  "wl s = take (ra_watchlist_count s) (ra_watchlist s)"

definition wl_inv :: "wl_state \<Rightarrow> bool" where
  "wl_inv s \<longleftrightarrow>
     length (ra_watchlist s) = RA_MAX_WATCH_ADDRS \<and> ra_watchlist_count s \<le> RA_MAX_WATCH_ADDRS \<and>
     length (ra_pending_query_addrs s) = RA_ADDR_QUERY_MAX \<and>
     ra_pending_query_count s \<le> RA_ADDR_QUERY_MAX"

lemma wl_init_inv: "wl_inv wl_init"
  by (simp add: wl_inv_def wl_init_def)

lemma length_wl: "wl_inv s \<Longrightarrow> length (wl s) = ra_watchlist_count s"
  by (simp add: wl_def wl_inv_def)

section \<open>Fetching the list\<close>

definition watchlist_chunk_request :: "u16 \<Rightarrow> bytes" where
  "watchlist_chunk_request idx = ra_fill_header RA_CMD_GET_WATCHLIST_CHUNK 2 @ put_be16 idx"

definition watchlist_chunk_check :: "bytes \<Rightarrow> u16 \<Rightarrow> s32 + ra_watchlist_chunk_t" where
  "watchlist_chunk_check rx idx =
     (let resp = dec_ra_esp_header_t (sub_bytes rx CHUNK_PAD 6);
          chunk = dec_ra_watchlist_chunk_t (sub_bytes rx (CHUNK_PAD + 6) 6);
          pl = 6 + 6 + unat (wc_addr_count chunk) * 4
      in if eh_magic resp \<noteq> RA_MAGIC_ESP_TO_GC then Inl (-100)
         else if unat (wc_addr_count chunk) > RA_WATCHLIST_CHUNK_ADDRS then Inl (-101)
         else if wc_chunk_index chunk \<noteq> idx then Inl (-102)
         else if be32 (sub_bytes rx (CHUNK_PAD + pl) 4) \<noteq> ra_crc32 (sub_bytes rx CHUNK_PAD pl)
         then Inl (-103)
         else Inr chunk)"

definition chunk_addrs :: "bytes \<Rightarrow> nat \<Rightarrow> u32 list" where
  "chunk_addrs rx n = map (\<lambda>i. be32 (sub_bytes rx (CHUNK_PAD + 6 + 6 + i * 4) 4)) [0..<n]"

text \<open>The append loop, which stops when the list is full.\<close>

fun wl_push :: "u32 list \<Rightarrow> wl_state \<Rightarrow> wl_state" where
  "wl_push [] s = s"
| "wl_push (a # as) s =
     (if ra_watchlist_count s < RA_MAX_WATCH_ADDRS
      then wl_push as (s\<lparr> ra_watchlist := (ra_watchlist s)[ra_watchlist_count s := a],
                          ra_watchlist_count := ra_watchlist_count s + 1 \<rparr>)
      else s)"

definition ra_fetch_watchlist_chunk_once ::
  "'w ra_link \<Rightarrow> u16 \<Rightarrow> wl_state \<Rightarrow> 'w \<Rightarrow> s32 \<times> wl_state \<times> 'w"
where
  "ra_fetch_watchlist_chunk_once L idx s w =
     (case lk_phase_b L (watchlist_chunk_request idx) CHUNK_RX_SIZE w of ((ret, rx), w1) \<Rightarrow>
        if ret < 0 then (ret, s, w1)
        else case watchlist_chunk_check rx idx of
            Inl e \<Rightarrow> (e, s, w1)
          | Inr chunk \<Rightarrow>
              (if wc_is_last chunk \<noteq> 0 then 1 else 0,
               wl_push (chunk_addrs rx (unat (wc_addr_count chunk))) s, w1))"

definition ra_fetch_watchlist_chunk ::
  "'w ra_link \<Rightarrow> u16 \<Rightarrow> wl_state \<Rightarrow> 'w \<Rightarrow> s32 \<times> wl_state \<times> 'w"
where
  "ra_fetch_watchlist_chunk L idx s w =
     chunk_attempts L CHR ''W'' idx (ra_fetch_watchlist_chunk_once L idx) 0
       RA_CHUNK_FETCH_ATTEMPTS (-1) s w"

fun watchlist_chunks ::
  "'w ra_link \<Rightarrow> u16 \<Rightarrow> nat \<Rightarrow> wl_state \<Rightarrow> 'w \<Rightarrow> s32 \<times> wl_state \<times> 'w"
where
  "watchlist_chunks L idx 0 s w = (-200, s, w)"
| "watchlist_chunks L idx (Suc left) s w =
     (case ra_fetch_watchlist_chunk L idx s w of (ret, s', w') \<Rightarrow>
        if ret < 0 then
          (ret, s', ra_debug_send_always L
                      (ascii ''WLC err='' @ ra_dbg_u16_dec (of_int (- ret))) w')
        else if ret = 1 then (0, s', w')
        else watchlist_chunks L (idx + 1) left s' w')"

definition ra_fetch_watchlist :: "'w ra_link \<Rightarrow> wl_state \<Rightarrow> 'w \<Rightarrow> s32 \<times> wl_state \<times> 'w" where
  "ra_fetch_watchlist L s w = watchlist_chunks L 0 32 (s\<lparr> ra_watchlist_count := 0 \<rparr>) w"

section \<open>Responses\<close>

abbreviation (input) RA_SNAP_RX_BUF_SZ :: nat where "RA_SNAP_RX_BUF_SZ \<equiv> 2080"

text \<open>Single-pass compaction of the watchlist (\<open>RA_EVT_WATCHLIST_REMOVE_IDX\<close>).\<close>

fun remove_loop ::
  "bytes \<Rightarrow> nat \<Rightarrow> nat \<Rightarrow> nat \<Rightarrow> nat \<Rightarrow> nat \<Rightarrow> u32 list \<Rightarrow> (nat \<times> u32 list) option"
where
  "remove_loop buf k i 0 skip wr arr = Some (wr, arr)"
| "remove_loop buf k i (Suc n) skip wr arr =
     (let keep = remove_loop buf k (Suc i) n skip (Suc wr)
                   (if wr \<noteq> i then arr[wr := arr ! i] else arr)
      in if skip < k then
           do { idx \<leftarrow> rd16 buf (10 + skip * 2);
                if unat idx = i then remove_loop buf k (Suc i) n (Suc skip) wr arr else keep }
         else keep)"

definition parse_addr_query :: "bytes \<Rightarrow> wl_state \<Rightarrow> wl_state option" where
  "parse_addr_query buf s =
     do { n \<leftarrow> rd16 buf 6;
          if 0 < unat n \<and> unat n \<le> RA_ADDR_QUERY_MAX then
            do { as \<leftarrow> rd_arr rd32 4 buf 8 (unat n);
                 let s1 = s\<lparr> ra_pending_query_addrs := store_seq (ra_pending_query_addrs s) 0 as,
                             ra_pending_query_count := unat n \<rparr> in
                 Some (if ra_watchlist_count s + unat n \<le> RA_MAX_WATCH_ADDRS
                       then s1\<lparr> ra_watchlist := store_seq (ra_watchlist s) (ra_watchlist_count s) as,
                                ra_watchlist_count := ra_watchlist_count s + unat n \<rparr>
                       else s1) }
          else Some s }"

definition parse_append :: "bytes \<Rightarrow> wl_state \<Rightarrow> wl_state option" where
  "parse_append buf s =
     do { wa \<leftarrow> rd_struct dec_ra_watchlist_append_t 4 buf 6;
          if wa_seq wa \<noteq> ra_wl_seq s + 1 then Some s
          else if 0 < unat (wa_addr_count wa)
                  \<and> ra_watchlist_count s + unat (wa_addr_count wa) \<le> RA_MAX_WATCH_ADDRS then
            do { as \<leftarrow> rd_arr rd32 4 buf 10 (unat (wa_addr_count wa));
                 Some (s\<lparr> ra_watchlist := store_seq (ra_watchlist s) (ra_watchlist_count s) as,
                          ra_watchlist_count := ra_watchlist_count s + unat (wa_addr_count wa),
                          ra_wl_seq := wa_seq wa \<rparr>) }
          else Some s }"

definition parse_remove_idx :: "bytes \<Rightarrow> wl_state \<Rightarrow> wl_state option" where
  "parse_remove_idx buf s =
     do { wri \<leftarrow> rd_struct dec_ra_watchlist_remove_idx_t 4 buf 6;
          if wri_seq wri \<noteq> ra_wl_seq s + 1 then Some s
          else if 0 < unat (wri_idx_count wri) \<and> unat (wri_idx_count wri) \<le> ra_watchlist_count s then
            do { (n, arr) \<leftarrow> remove_loop buf (unat (wri_idx_count wri)) 0 (ra_watchlist_count s) 0 0
                              (ra_watchlist s);
                 Some (s\<lparr> ra_watchlist := arr, ra_watchlist_count := n, ra_wl_seq := wri_seq wri \<rparr>) }
          else Some s }"

definition parse_update :: "bytes \<Rightarrow> wl_state \<Rightarrow> wl_state option" where
  "parse_update buf s =
     do { wn \<leftarrow> rd_struct dec_ra_watchlist_notify_t 6 buf 6;
          Some (s\<lparr> ra_resync_seq := wn_seq wn, ra_resync_pending := True \<rparr>) }"

definition ra_parse_response :: "bytes \<Rightarrow> wl_state \<Rightarrow> wl_state option" where
  "ra_parse_response buf s =
     do { resp \<leftarrow> rd_struct dec_ra_esp_header_t 6 buf 0;
          if eh_magic resp \<noteq> RA_MAGIC_ESP_TO_GC then Some s
          else if eh_event_type resp = evt_code RA_EVT_ADDR_QUERY then parse_addr_query buf s
          else if eh_event_type resp = evt_code RA_EVT_WATCHLIST_APPEND then parse_append buf s
          else if eh_event_type resp = evt_code RA_EVT_WATCHLIST_REMOVE_IDX then parse_remove_idx buf s
          else if eh_event_type resp = evt_code RA_EVT_WATCHLIST_UPDATE then parse_update buf s
          else if eh_event_type resp = evt_code RA_EVT_ACHIEVEMENT
               then Some (s\<lparr> ra_led_celebrate := 54 \<rparr>)
          else Some s }"

definition ra_do_resync :: "'w ra_link \<Rightarrow> wl_state \<Rightarrow> 'w \<Rightarrow> wl_state \<times> 'w" where
  "ra_do_resync L s w =
     (if \<not> ra_resync_pending s then (s, w)
      else case ra_fetch_watchlist L (s\<lparr> ra_resync_pending := False \<rparr>) w of
             (ret, s', w') \<Rightarrow> if ret = 0 then (s'\<lparr> ra_wl_seq := ra_resync_seq s' \<rparr>, w') else (s', w'))"

section \<open>List operations behind the array operations\<close>

text \<open>Dropping the entries at the given positions.\<close>

definition remove_at :: "nat list \<Rightarrow> 'a list \<Rightarrow> 'a list" where
  "remove_at is xs = map ((!) xs) (filter (\<lambda>j. j \<notin> set is) [0..<length xs])"

definition wl_frame :: "wl_state \<Rightarrow> wl_state \<Rightarrow> bool" where
  "wl_frame s t \<longleftrightarrow> ra_pending_query_addrs t = ra_pending_query_addrs s \<and>
     ra_pending_query_count t = ra_pending_query_count s \<and> ra_wl_seq t = ra_wl_seq s \<and>
     ra_resync_pending t = ra_resync_pending s \<and> ra_resync_seq t = ra_resync_seq s \<and>
     ra_led_celebrate t = ra_led_celebrate s"

lemma wl_push_spec:
  "wl_inv s \<Longrightarrow> wl_inv (wl_push as s) \<and> wl_frame s (wl_push as s)
     \<and> wl (wl_push as s) = take RA_MAX_WATCH_ADDRS (wl s @ as)"
proof (induction as arbitrary: s)
  case Nil
  have "length (wl s) \<le> RA_MAX_WATCH_ADDRS" using Nil length_wl [OF Nil] by (simp add: wl_inv_def)
  then show ?case using Nil by (simp add: wl_frame_def)
next
  case (Cons a as)
  show ?case
  proof (cases "ra_watchlist_count s < RA_MAX_WATCH_ADDRS")
    case True
    let ?s = "s\<lparr> ra_watchlist := (ra_watchlist s)[ra_watchlist_count s := a],
                 ra_watchlist_count := ra_watchlist_count s + 1 \<rparr>"
    have inv: "wl_inv ?s" using Cons.prems True by (simp add: wl_inv_def)
    have "wl ?s = wl s @ [a]"
      using Cons.prems True by (simp add: wl_def wl_inv_def take_list_update_Suc)
    then show ?thesis using Cons.IH [OF inv] True by (simp add: wl_frame_def)
  next
    case False
    then show ?thesis using Cons.prems length_wl [OF Cons.prems]
      by (simp add: wl_frame_def) (simp add: wl_inv_def)
  qed
qed

lemma wl_store_seq:
  assumes "wl_inv s" and "ra_watchlist_count s + length as \<le> RA_MAX_WATCH_ADDRS"
  shows "take (ra_watchlist_count s + length as) (store_seq (ra_watchlist s) (ra_watchlist_count s) as)
    = wl s @ as"
  using assms by (simp add: take_store_seq wl_def wl_inv_def)

lemma remove_loop_bounds:
  "remove_loop buf k i n skip wr arr = Some (wr', arr') \<Longrightarrow> length arr' = length arr \<and> wr' \<le> wr + n"
proof (induction n arbitrary: i skip wr arr)
  case (Suc n)
  then show ?case
    by (fastforce simp: Let_def split: if_splits Option.bind_splits)
qed simp

lemma remove_loop_spec:
  assumes "length idxs = k" and "\<And>j. j < k \<Longrightarrow> map_option unat (rd16 buf (10 + j * 2)) = Some (idxs ! j)"
    and "sorted_wrt (<) idxs" and "wr \<le> i" and "i + n \<le> length arr" and "skip \<le> k"
    and "\<forall>x \<in> set (drop skip idxs). i \<le> x"
  shows "\<exists>wr' arr'. remove_loop buf k i n skip wr arr = Some (wr', arr') \<and>
    take wr' arr' = take wr arr @ map ((!) arr) (filter (\<lambda>j. j \<notin> set (drop skip idxs)) [i..<i + n])"
  using assms(4-7)
proof (induction n arbitrary: i skip wr arr)
  case (Suc n)
  have range: "[i..<i + Suc n] = i # [Suc i..<Suc i + n]" by (simp add: upt_conv_Cons del: upt_Suc)
  have keep: "\<exists>wr' arr'. remove_loop buf k (Suc i) n skip (Suc wr)
        (if wr \<noteq> i then arr[wr := arr ! i] else arr) = Some (wr', arr') \<and>
      take wr' arr' = take wr arr @ map ((!) arr) (filter (\<lambda>j. j \<notin> set (drop skip idxs)) [i..<i + Suc n])"
    if above: "\<forall>x \<in> set (drop skip idxs). Suc i \<le> x"
  proof -
    let ?a = "if wr \<noteq> i then arr[wr := arr ! i] else arr"
    have len: "length ?a = length arr" by simp
    have pre: "take (Suc wr) ?a = take wr arr @ [arr ! i]"
      using Suc.prems(1,2) by (simp add: take_list_update_Suc take_Suc_conv_app_nth)
    have post: "map ((!) ?a) (filter Q [Suc i..<Suc i + n]) = map ((!) arr) (filter Q [Suc i..<Suc i + n])" for Q
      using Suc.prems(1) by auto
    obtain wr' arr' where "remove_loop buf k (Suc i) n skip (Suc wr) ?a = Some (wr', arr')"
      "take wr' arr' = take (Suc wr) ?a
         @ map ((!) ?a) (filter (\<lambda>j. j \<notin> set (drop skip idxs)) [Suc i..<Suc i + n])"
      using Suc.IH [of "Suc wr" "Suc i" ?a skip] Suc.prems above unfolding len by fastforce
    moreover have "i \<notin> set (drop skip idxs)" using above by auto
    ultimately show ?thesis unfolding pre post range by (simp del: upt_Suc)
  qed
  show ?case
  proof (cases "skip < k")
    case False
    then show ?thesis using keep assms(1) by simp
  next
    case True
    then have tail: "drop skip idxs = idxs ! skip # drop (Suc skip) idxs"
      using assms(1) by (simp add: Cons_nth_drop_Suc)
    obtain idx where idx: "rd16 buf (10 + skip * 2) = Some idx" "unat idx = idxs ! skip"
      using assms(2) [OF True] by auto
    have srt: "\<forall>x \<in> set (drop (Suc skip) idxs). idxs ! skip < x"
      using sorted_wrt_drop [OF assms(3), of skip] tail by simp
    show ?thesis
    proof (cases "idxs ! skip = i")
      case match: True
      have above: "\<forall>x \<in> set (drop (Suc skip) idxs). Suc i \<le> x"
        using srt match by (simp add: Suc_le_eq)
      have "\<exists>wr' arr'. remove_loop buf k (Suc i) n (Suc skip) wr arr = Some (wr', arr') \<and>
          take wr' arr' = take wr arr
            @ map ((!) arr) (filter (\<lambda>j. j \<notin> set (drop (Suc skip) idxs)) [Suc i..<Suc i + n])"
        by (rule Suc.IH) (use Suc.prems True above in simp_all)
      moreover have "filter (\<lambda>j. j \<notin> set (drop skip idxs)) [i..<i + Suc n]
          = filter (\<lambda>j. j \<notin> set (drop (Suc skip) idxs)) [Suc i..<Suc i + n]"
        unfolding range using match tail by (auto simp del: upt_Suc intro!: filter_cong)
      ultimately show ?thesis using True idx match by simp
    next
      case False
      then have "\<forall>x \<in> set (drop skip idxs). Suc i \<le> x"
        using Suc.prems(4) srt tail by fastforce
      from keep [OF this] show ?thesis using True idx False by simp
    qed
  qed
qed simp

section \<open>The parser keeps the invariant, for any response\<close>

lemma parse_addr_query_inv: "wl_inv s \<Longrightarrow> parse_addr_query buf s = Some t \<Longrightarrow> wl_inv t"
  by (auto simp: parse_addr_query_def wl_inv_def Let_def split: Option.bind_splits if_splits)

lemma parse_append_inv: "wl_inv s \<Longrightarrow> parse_append buf s = Some t \<Longrightarrow> wl_inv t"
  by (auto simp: parse_append_def wl_inv_def split: Option.bind_splits if_splits)

lemma parse_remove_idx_inv: "wl_inv s \<Longrightarrow> parse_remove_idx buf s = Some t \<Longrightarrow> wl_inv t"
  by (auto simp: parse_remove_idx_def wl_inv_def split: Option.bind_splits if_splits
      dest!: remove_loop_bounds)

lemma parse_update_inv: "wl_inv s \<Longrightarrow> parse_update buf s = Some t \<Longrightarrow> wl_inv t"
  by (auto simp: parse_update_def wl_inv_def split: Option.bind_splits)

lemma parse_response_inv:
  assumes "wl_inv s" and "ra_parse_response buf s = Some t"
  shows "wl_inv t"
  using assms
  by (auto simp: ra_parse_response_def split: Option.bind_splits if_splits
      intro: parse_addr_query_inv parse_append_inv parse_remove_idx_inv parse_update_inv)
    (simp_all add: wl_inv_def)

section \<open>Properties\<close>

text \<open>
  Whatever bytes arrive, the response parser keeps the watchlist inside its array and the
  pending query inside its buffer.
\<close>

theorem parse_response_keeps_inv:
  assumes "wl_inv s" and "ra_parse_response buf s = Some t"
  shows "wl_inv t"
  using assms by (rule parse_response_inv)

theorem parse_response_keeps_inv_witness: "wl_inv (wl_init\<lparr> ra_led_celebrate := 54 \<rparr>)"
proof (rule parse_response_keeps_inv [OF wl_init_inv])
  show "ra_parse_response [0xAE, 7, 1, 1, 0, 0] wl_init = Some (wl_init\<lparr> ra_led_celebrate := 54 \<rparr>)"
    by (simp add: ra_parse_response_def rd_struct_def rd_block_def dec_ra_esp_header_t_def)
qed

end
