(* ===== verification/RA_Snapshot.thy ===== *)
theory RA_Snapshot
  imports RA_Watchlist
begin

text \<open>
  The per-frame SNAPSHOT of \<open>ra-module/main.c\<close>: sampling the watched bytes, walking the
  chains, filling the rotating chain window inside the transfer budget, the delta/prior
  verification section, and the message that goes on the wire. The message is shown
  never to exceed the budget (for every list, table and memory), to decode to the
  sampled values at the positions the protocol names, and the window to reach every
  shipped slot.
\<close>

record ra_state =
  rs_wl :: wl_state
  rs_chain :: chain_state
  esp_present :: bool
  ra_frame_counter :: u32
  ra_game_frame :: u32
  g_tro_writes :: u32
  g_tro_last_w :: u32
  g_tro_last_rb :: u32
  g_t_mem1_ms :: u32
  g_t_snap_ms :: u32

definition ra_init :: ra_state where
  "ra_init = \<lparr> rs_wl = wl_init, rs_chain = chain_init, esp_present = False, ra_frame_counter = 0,
     ra_game_frame = 0, g_tro_writes = 0, g_tro_last_w = 0, g_tro_last_rb = 0,
     g_t_mem1_ms = 0, g_t_snap_ms = 0 \<rparr>"

definition ra_inv :: "ra_state \<Rightarrow> bool" where
  "ra_inv st \<longleftrightarrow> wl_inv (rs_wl st) \<and> chain_wf (rs_chain st)"

lemma ra_init_inv: "ra_inv ra_init"
  by (simp add: ra_inv_def ra_init_def wl_init_inv chain_init_wf)

text \<open>\<open>RA_SNAP_TX_BUDGET\<close> of the USB build and of the memory card build.\<close>

abbreviation (input) RA_USB_TX_MAX :: nat where "RA_USB_TX_MAX \<equiv> 8191"
abbreviation (input) EXI_TX_BUDGET :: nat where "EXI_TX_BUDGET \<equiv> 8192"

section \<open>Chain window\<close>

definition bm_len :: "nat \<Rightarrow> nat" where
  "bm_len n = (n + 7) div 8"

text \<open>The budget left for the window, in \<open>u32\<close> arithmetic.\<close>

definition win_avail :: "nat \<Rightarrow> nat \<Rightarrow> nat \<Rightarrow> u32" where
  "win_avail budget count dp =
     of_nat budget - 4 - 16 - of_nat count - of_nat dp * 4 - (of_nat dp + 7) div 8"

definition slot_node :: "chain_state \<Rightarrow> nat \<Rightarrow> ra_chain_node_t" where
  "slot_node c s = ra_chain_nodes c ! (ra_chain_ship_node c ! s)"

definition slot_width :: "chain_state \<Rightarrow> nat \<Rightarrow> nat" where
  "slot_width c s = unat (node_width (slot_node c s))"

text \<open>The greedy fill loop; it returns the cursor, the slot count and the blob length.\<close>

function win_fill :: "chain_state \<Rightarrow> nat \<Rightarrow> nat \<Rightarrow> nat \<Rightarrow> nat \<Rightarrow> nat \<times> nat \<times> nat" where
  "win_fill c avail s n blob =
     (if s < ra_chain_shipped c then
        (if bm_len (n + 1) + blob + slot_width c s > avail then (s, n, blob)
         else win_fill c avail (s + 1) (n + 1) (blob + slot_width c s))
      else (s, n, blob))"
  by pat_completeness auto
termination
  by (relation "measure (\<lambda>(c, avail, s, n, blob). ra_chain_shipped c - s)") auto

declare win_fill.simps [simp del]

definition win_start :: "chain_state \<Rightarrow> nat" where
  "win_start c = (if ra_chain_win_next c < ra_chain_shipped c then ra_chain_win_next c else 0)"

definition win_bitmap :: "chain_state \<Rightarrow> nat \<Rightarrow> nat \<Rightarrow> bytes" where
  "win_bitmap c first n =
     fold (\<lambda>wi bm. if bm_get (ra_chain_node_valid c) (ra_chain_ship_node c ! (first + wi))
                   then bm_set bm wi else bm)
       [0..<n] (replicate (bm_len n) 0)"

definition le_bytes :: "u32 \<Rightarrow> nat \<Rightarrow> bytes" where
  "le_bytes v w = map (\<lambda>k. ucast (drop_bit (8 * k) v)) [0..<w]"

definition win_blob :: "chain_state \<Rightarrow> nat \<Rightarrow> nat \<Rightarrow> bytes" where
  "win_blob c first n =
     concat (map (\<lambda>wi. le_bytes (ra_chain_values c ! (ra_chain_ship_node c ! (first + wi)))
                          (slot_width c (first + wi))) [0..<n])"

section \<open>Delta/prior verification section\<close>

definition dp_value :: "chain_state \<Rightarrow> nat \<Rightarrow> u32" where
  "dp_value c d =
     (let node = ra_chain_dp_node c ! d
      in if ra_chain_dp_kind c ! d = RA_CN_DP_PRIOR then ra_chain_prior c ! node
         else ra_chain_values_prev c ! node)"

definition dp_section :: "chain_state \<Rightarrow> bytes" where
  "dp_section c =
     concat (map (\<lambda>d. put_be32 (dp_value c d)) [0..<ra_chain_dp_count c])
     @ fold (\<lambda>d bm. if bm_get (ra_chain_valid_prev c) (ra_chain_dp_node c ! d) then bm_set bm d else bm)
         [0..<ra_chain_dp_count c] (replicate (bm_len (ra_chain_dp_count c)) 0)"

section \<open>The message\<close>

text \<open>Window of one snapshot: first slot, slot count, blob length and the next cursor.\<close>

definition snap_window :: "nat \<Rightarrow> nat \<Rightarrow> chain_state \<Rightarrow> nat \<times> nat \<times> nat \<times> nat" where
  "snap_window budget count c =
     (if ra_chain_node_count c > 0 \<and> ra_chain_shipped c > 0 then
        (let s = win_start c in
         case win_fill c (unat (win_avail budget count (ra_chain_dp_count c))) s 0 0 of
           (s', n, blob) \<Rightarrow> (s, n, blob, if s' \<ge> ra_chain_shipped c then 0 else s'))
      else (0, 0, 0, ra_chain_win_next c))"

definition snap_chain :: "ppc_mem \<Rightarrow> chain_state \<Rightarrow> chain_state" where
  "snap_chain mem c = (if ra_chain_node_count c > 0 then ra_chain_walk mem c else c)"

definition snap_values :: "ppc_mem \<Rightarrow> wl_state \<Rightarrow> bytes" where
  "snap_values mem s = map (\<lambda>i. ra_read_ppc_byte mem (ra_watchlist s ! i)) [0..<ra_watchlist_count s]"

definition snap_payload_len :: "nat \<Rightarrow> nat \<Rightarrow> nat \<Rightarrow> nat \<Rightarrow> nat" where
  "snap_payload_len count n blob dp = 16 + count + bm_len n + blob + dp * 4 + bm_len dp"

definition snap_header :: "ra_state \<Rightarrow> nat \<Rightarrow> nat \<Rightarrow> nat \<Rightarrow> ra_snapshot_header_t" where
  "snap_header st first n blob =
     \<lparr> sh_frame_counter = (if ra_game_frame st \<noteq> 0 then ra_game_frame st else ra_frame_counter st),
       sh_addr_count = of_nat (ra_watchlist_count (rs_wl st)), sh_wl_seq = ra_wl_seq (rs_wl st),
       sh_chain_first = of_nat first, sh_chain_count = of_nat n, sh_chain_blob_len = of_nat blob,
       sh_dp_count = of_nat (ra_chain_dp_count (rs_chain st)) \<rparr>"

text \<open>
  The first part of \<open>ra_send_snapshot\<close>, up to the transfer: the new state and the bytes
  in the transmit buffer (\<open>tx_len\<close> of them).
\<close>

definition snap_build :: "nat \<Rightarrow> ppc_mem \<Rightarrow> ra_state \<Rightarrow> ra_state \<times> bytes" where
  "snap_build budget mem st =
     (let s = rs_wl st;
          count = ra_watchlist_count s;
          c = snap_chain mem (rs_chain st)
      in case snap_window budget count c of (first, n, blob, nxt) \<Rightarrow>
         let st1 = st\<lparr> ra_frame_counter := ra_frame_counter st + 1,
                       rs_chain := c\<lparr> ra_chain_win_next := nxt \<rparr> \<rparr>;
             tx = ra_fill_header RA_CMD_SNAPSHOT
                    (snap_payload_len count n blob (ra_chain_dp_count c))
                  @ enc_ra_snapshot_header_t (snap_header st1 first n blob)
                  @ snap_values mem s
                  @ win_bitmap c first n @ win_blob c first n
                  @ dp_section c
         in (st1, tx))"

section \<open>The message fits the transfer\<close>

definition budget_ok :: "nat \<Rightarrow> bool" where
  "budget_ok budget \<longleftrightarrow> budget = RA_USB_TX_MAX \<or> budget = EXI_TX_BUDGET"

lemma unat_win_avail:
  assumes "budget_ok budget" and "count \<le> RA_MAX_WATCH_ADDRS" and "dp \<le> RA_MAX_DP_PARENTS"
  shows "unat (win_avail budget count dp) = budget - 20 - count - dp * 4 - bm_len dp"
    and "20 + count + dp * 4 + bm_len dp + 1000 \<le> budget"
proof -
  have b: "8191 \<le> budget" "budget \<le> 8192" using assms(1) by (auto simp: budget_ok_def)
  have d: "bm_len dp \<le> 17" using assms(3) by (simp add: bm_len_def)
  show fits: "20 + count + dp * 4 + bm_len dp + 1000 \<le> budget" using assms(2,3) b d by linarith
  have dp7: "unat ((of_nat dp + 7 :: u32) div 8) = bm_len dp"
    using assms(3) by (simp add: bm_len_def unat_div unat_word_ariths unat_of_nat_u32)
  have dp4: "unat (of_nat dp * 4 :: u32) = dp * 4"
    using assms(3) by (simp add: unat_word_ariths unat_of_nat_u32)
  have c: "unat (of_nat count :: u32) = count" using assms(2) by (simp add: unat_of_nat_u32)
  have s1: "unat (of_nat budget - 4 :: u32) = budget - 4"
    using b by (subst unat_u32_sub) (simp_all add: unat_of_nat_u32)
  have s2: "unat (of_nat budget - 4 - 16 :: u32) = budget - 20"
    using b s1 by (subst unat_u32_sub) simp_all
  have s3: "unat (of_nat budget - 4 - 16 - of_nat count :: u32) = budget - 20 - count"
    using fits s2 c by (subst unat_u32_sub) simp_all
  have s4: "unat (of_nat budget - 4 - 16 - of_nat count - of_nat dp * 4 :: u32)
      = budget - 20 - count - dp * 4"
    using fits s3 dp4 by (subst unat_u32_sub) simp_all
  show "unat (win_avail budget count dp) = budget - 20 - count - dp * 4 - bm_len dp"
    unfolding win_avail_def using fits s4 dp7 by (subst unat_u32_sub) simp_all
qed

lemma win_fill_spec:
  "win_fill c avail s n blob = (s', n', blob') \<Longrightarrow>
     s \<le> s' \<and> n' = n + (s' - s) \<and> s' \<le> max s (ra_chain_shipped c)
     \<and> blob' = blob + sum_list (map (slot_width c) [s..<s'])
     \<and> (bm_len n + blob \<le> avail \<longrightarrow> bm_len n' + blob' \<le> avail)"
proof (induction c avail s n blob rule: win_fill.induct)
  case (1 c avail s n blob)
  show ?case
  proof (cases "s < ra_chain_shipped c \<and> bm_len (n + 1) + blob + slot_width c s \<le> avail")
    case True
    then have rec: "win_fill c avail (s + 1) (n + 1) (blob + slot_width c s) = (s', n', blob')"
      using "1.prems" by (simp add: win_fill.simps [of c avail s])
    note ih = "1.IH" [OF _ _ rec]
    then have "[s..<s'] = s # [Suc s..<s']" using True by (simp add: upt_conv_Cons)
    then show ?thesis using ih True by (auto simp: max_def)
  next
    case False
    then have "(s', n', blob') = (s, n, blob)"
      using "1.prems" by (auto simp: win_fill.simps [of c avail s] split: if_splits)
    then show ?thesis by simp
  qed
qed

lemma win_fill_progress:
  assumes "s < ra_chain_shipped c" and "5 \<le> avail" and "win_fill c avail s 0 0 = (s', n', blob')"
  shows "s < s'"
proof -
  have "slot_width c s \<le> 4" by (simp add: slot_width_def node_width_bounds)
  then have "bm_len (0 + 1) + 0 + slot_width c s \<le> avail" using assms(2) by (simp add: bm_len_def)
  then have "win_fill c avail (s + 1) (0 + 1) (0 + slot_width c s) = (s', n', blob')"
    using assms(1,3) by (simp add: win_fill.simps [of c avail s])
  from win_fill_spec [OF this] show ?thesis by simp
qed

lemma length_fold_bm [simp]:
  "length (fold (\<lambda>i bm. if P i then bm_set bm i else bm) is bm) = length bm"
  by (induction "is" arbitrary: bm) simp_all

lemma length_win_bitmap [simp]: "length (win_bitmap c first n) = bm_len n"
  by (simp add: win_bitmap_def)

lemma length_le_bytes [simp]: "length (le_bytes v w) = w"
  by (simp add: le_bytes_def)

lemma length_win_blob:
  "length (win_blob c first n) = sum_list (map (slot_width c) [first..<first + n])"
proof (induction n)
  case (Suc n)
  then show ?case by (simp add: win_blob_def)
qed (simp add: win_blob_def)

lemma length_dp_section [simp]:
  "length (dp_section c) = ra_chain_dp_count c * 4 + bm_len (ra_chain_dp_count c)"
  by (simp add: dp_section_def length_concat comp_def sum_list_triv)

lemma snap_chain_wf: "chain_wf c \<Longrightarrow> chain_wf (snap_chain mem c)"
  by (simp add: snap_chain_def ra_chain_walk_wf)

lemma ra_inv_facts:
  assumes "ra_inv st"
  shows "chain_wf (rs_chain st)" and "chain_wf (snap_chain mem (rs_chain st))"
    and "ra_watchlist_count (rs_wl st) \<le> RA_MAX_WATCH_ADDRS"
  using assms by (simp_all add: ra_inv_def snap_chain_wf wl_inv_def)

lemma snap_chain_frame:
  "ra_chain_node_count (snap_chain mem c) = ra_chain_node_count c"
  "ra_chain_shipped (snap_chain mem c) = ra_chain_shipped c"
  "ra_chain_ship_node (snap_chain mem c) = ra_chain_ship_node c"
  "ra_chain_win_next (snap_chain mem c) = ra_chain_win_next c"
  "ra_chain_dp_count (snap_chain mem c) = ra_chain_dp_count c"
  "chain_wf c \<Longrightarrow> ra_chain_nodes (snap_chain mem c) = ra_chain_nodes c"
  by (simp_all add: snap_chain_def ra_chain_walk_frame ra_chain_walk_nodes)

lemma snap_window_spec:
  assumes wf: "chain_wf c" and b: "budget_ok budget" and cnt: "count \<le> RA_MAX_WATCH_ADDRS"
    and w: "snap_window budget count c = (first, n, blob, nxt)"
  shows "first + n \<le> ra_chain_shipped c"
    and "blob = length (win_blob c first n)"
    and "20 + count + bm_len n + blob + ra_chain_dp_count c * 4 + bm_len (ra_chain_dp_count c) \<le> budget"
    and "0 < ra_chain_shipped c \<Longrightarrow> 0 < ra_chain_node_count c \<Longrightarrow>
      first = win_start c \<and> 0 < n \<and> nxt = (if first + n \<ge> ra_chain_shipped c then 0 else first + n)"
proof -
  have dp: "ra_chain_dp_count c \<le> RA_MAX_DP_PARENTS" using wf by (simp add: chain_wf_def)
  note av = unat_win_avail [OF b cnt dp]
  let ?av = "unat (win_avail budget count (ra_chain_dp_count c))"
  have "first + n \<le> ra_chain_shipped c \<and> blob = length (win_blob c first n) \<and>
    20 + count + bm_len n + blob + ra_chain_dp_count c * 4 + bm_len (ra_chain_dp_count c) \<le> budget \<and>
    (0 < ra_chain_shipped c \<longrightarrow> 0 < ra_chain_node_count c \<longrightarrow>
      first = win_start c \<and> 0 < n \<and> nxt = (if first + n \<ge> ra_chain_shipped c then 0 else first + n))"
  proof (cases "ra_chain_node_count c > 0 \<and> ra_chain_shipped c > 0")
    case True
    obtain s' where f: "win_fill c ?av (win_start c) 0 0 = (s', n, blob)" "first = win_start c"
      "nxt = (if s' \<ge> ra_chain_shipped c then 0 else s')"
      using w True by (auto simp: snap_window_def Let_def split: prod.splits)
    have st: "win_start c < ra_chain_shipped c" using True by (simp add: win_start_def)
    have "5 \<le> ?av" using av by linarith
    then have "win_start c < s'" by (rule win_fill_progress [OF st _ f(1)])
    moreover note win_fill_spec [OF f(1)]
    ultimately have n: "s' = first + n" "0 < n" "s' \<le> ra_chain_shipped c"
      "blob = length (win_blob c first n)" "bm_len n + blob \<le> ?av"
      using f(2) st by (auto simp: length_win_blob bm_len_def)
    then show ?thesis using f av by auto
  next
    case False
    then show ?thesis using w av by (auto simp: snap_window_def win_blob_def bm_len_def)
  qed
  then show "first + n \<le> ra_chain_shipped c" "blob = length (win_blob c first n)"
    "20 + count + bm_len n + blob + ra_chain_dp_count c * 4 + bm_len (ra_chain_dp_count c) \<le> budget"
    "0 < ra_chain_shipped c \<Longrightarrow> 0 < ra_chain_node_count c \<Longrightarrow>
      first = win_start c \<and> 0 < n \<and> nxt = (if first + n \<ge> ra_chain_shipped c then 0 else first + n)"
    by auto
qed

lemma length_snap_values [simp]: "length (snap_values mem s) = ra_watchlist_count s"
  by (simp add: snap_values_def)

lemma snap_build_eq:
  assumes "snap_window budget (ra_watchlist_count (rs_wl st)) (snap_chain mem (rs_chain st))
    = (first, n, blob, nxt)"
  shows "snap_build budget mem st =
    (st\<lparr> ra_frame_counter := ra_frame_counter st + 1,
         rs_chain := (snap_chain mem (rs_chain st))\<lparr> ra_chain_win_next := nxt \<rparr> \<rparr>,
     ra_fill_header RA_CMD_SNAPSHOT (snap_payload_len (ra_watchlist_count (rs_wl st)) n blob
         (ra_chain_dp_count (rs_chain st)))
     @ enc_ra_snapshot_header_t (snap_header
         (st\<lparr> ra_frame_counter := ra_frame_counter st + 1,
              rs_chain := (snap_chain mem (rs_chain st))\<lparr> ra_chain_win_next := nxt \<rparr> \<rparr>) first n blob)
     @ snap_values mem (rs_wl st)
     @ win_bitmap (snap_chain mem (rs_chain st)) first n @ win_blob (snap_chain mem (rs_chain st)) first n
     @ dp_section (snap_chain mem (rs_chain st)))"
  using assms by (simp add: snap_build_def Let_def snap_chain_frame)

lemma snap_build_length:
  assumes inv: "ra_inv st" and b: "budget_ok budget" and e: "snap_build budget mem st = (st', tx)"
  shows "length tx \<le> budget"
    and "length tx = 4 + unat (be16 (take 2 (drop 2 tx)))"
proof -
  let ?c = "snap_chain mem (rs_chain st)"
  note wf = ra_inv_facts(2) [OF inv, of mem] and cnt = ra_inv_facts(3) [OF inv]
  obtain first n blob nxt where w: "snap_window budget (ra_watchlist_count (rs_wl st)) ?c
      = (first, n, blob, nxt)" by (metis prod_cases4)
  note sp = snap_window_spec [OF wf b cnt w]
  have len: "length tx = 4 + snap_payload_len (ra_watchlist_count (rs_wl st)) n blob
      (ra_chain_dp_count (rs_chain st))"
    using e snap_build_eq [OF w] sp(2) by (auto simp: snap_payload_len_def snap_chain_frame)
  then show le: "length tx \<le> budget" using sp(3) by (simp add: snap_payload_len_def snap_chain_frame)
  have "be16 (take 2 (drop 2 tx)) = of_nat (snap_payload_len (ra_watchlist_count (rs_wl st)) n blob
      (ra_chain_dp_count (rs_chain st)))"
    using e snap_build_eq [OF w]
    by (auto simp: ra_fill_header_def enc_ra_gc_header_t_def)
  moreover have "budget \<le> 8192" using b by (auto simp: budget_ok_def)
  ultimately show "length tx = 4 + unat (be16 (take 2 (drop 2 tx)))"
    using le len by (simp add: unat_of_nat_u16)
qed

lemma snap_build_inv:
  assumes inv: "ra_inv st"
  shows "ra_inv (fst (snap_build budget mem st))"
proof -
  obtain first n blob nxt where w: "snap_window budget (ra_watchlist_count (rs_wl st))
      (snap_chain mem (rs_chain st)) = (first, n, blob, nxt)" by (metis prod_cases4)
  have "chain_wf (snap_chain mem (rs_chain st))" using inv by (simp add: ra_inv_def snap_chain_wf)
  then show ?thesis using inv
    by (simp add: snap_build_eq [OF w] ra_inv_def) (simp add: chain_wf_def chain_arrays_def)
qed

section \<open>What the adapter reads back\<close>

definition snap_msg_header :: "bytes \<Rightarrow> ra_snapshot_header_t" where
  "snap_msg_header tx = dec_ra_snapshot_header_t (sub_bytes tx 4 16)"

text \<open>Bit \<open>wi\<close> of a bitmap filled by the loop.\<close>

lemma bm_get_fold:
  assumes "\<forall>i \<in> set is. i < 8 * length bm"
  shows "bm_get (fold (\<lambda>i bm. if P i then bm_set bm i else bm) is bm) j
    \<longleftrightarrow> bm_get bm j \<or> (j \<in> set is \<and> P j)"
  using assms
proof (induction "is" arbitrary: bm)
  case (Cons i "is")
  then show ?case by (auto simp: bm_get_set)
qed simp

lemma bm_len_bits: "i < n \<Longrightarrow> i < 8 * bm_len n"
  by (simp add: bm_len_def)

lemma bm_get_win_bitmap:
  "wi < n \<Longrightarrow> bm_get (win_bitmap c first n) wi
     = bm_get (ra_chain_node_valid c) (ra_chain_ship_node c ! (first + wi))"
  by (simp add: win_bitmap_def bm_get_fold bm_get_zero bm_len_bits)

lemma win_blob_slot:
  assumes "wi < n"
  shows "sub_bytes (win_blob c first n) (length (win_blob c first wi)) (slot_width c (first + wi))
    = le_bytes (ra_chain_values c ! (ra_chain_ship_node c ! (first + wi))) (slot_width c (first + wi))"
proof -
  show ?thesis
    by (simp add: win_blob_def upt_split_at [OF _ assms] sub_bytes_def)
qed

lemma le_pack_le_bytes:
  assumes "w \<le> 4"
  shows "le_pack (le_bytes v w) = take_bit (8 * w) v"
proof (rule bit_word_eqI)
  fix n
  have "bit (ucast (drop_bit (8 * (n div 8)) v) :: u8) (n mod 8) \<longleftrightarrow> bit v n"
    by (simp add: bit_simps)
  moreover have "n < 8 * w \<Longrightarrow> n div 8 < w" by (simp add: less_mult_imp_div_less mult.commute)
  ultimately show "bit (le_pack (le_bytes v w)) n = bit (take_bit (8 * w) v) n"
    using assms by (auto simp: bit_le_pack bit_take_bit_iff) (simp_all add: le_bytes_def)
qed

text \<open>
  The values and validity bits of the walk that a snapshot takes, in terms of the
  reference semantics on the memory and the state before the snapshot.
\<close>

lemma snap_chain_sem:
  assumes "chain_wf c" and "i < ra_chain_node_count c"
  shows "bm_get (ra_chain_node_valid (snap_chain mem c)) i = fst (sem_of mem c i)"
    and "ra_chain_values (snap_chain mem c) ! i = snd (sem_of mem c i)"
  using ra_chain_walk_inv [OF assms(1), of mem] assms(2)
  by (auto simp: snap_chain_def walk_inv_def)

definition slot_off :: "chain_state \<Rightarrow> nat \<Rightarrow> nat \<Rightarrow> nat" where
  "slot_off c first wi = sum_list (map (slot_width c) [first..<first + wi])"

lemma slot_width_snap_chain:
  "chain_wf c \<Longrightarrow> slot_width (snap_chain mem c) = slot_width c"
  by (rule ext) (simp add: slot_width_def slot_node_def snap_chain_frame)

lemma sub_bytes_append:
  "off = length pre + k \<Longrightarrow> k + n \<le> length xs \<Longrightarrow> sub_bytes (pre @ xs @ post) off n = sub_bytes xs k n"
  by (simp add: sub_bytes_def)

text \<open>The parts of a message and where they stand.\<close>

lemma snap_layout:
  assumes inv: "ra_inv st" and b: "budget_ok budget" and e: "snap_build budget mem st = (st', tx)"
  obtains first n blob nxt hdr where
    "snap_window budget (ra_watchlist_count (rs_wl st)) (snap_chain mem (rs_chain st)) = (first, n, blob, nxt)"
    "st' = st\<lparr> ra_frame_counter := ra_frame_counter st + 1,
               rs_chain := (snap_chain mem (rs_chain st))\<lparr> ra_chain_win_next := nxt \<rparr> \<rparr>"
    "length hdr = 4"
    "tx = hdr @ enc_ra_snapshot_header_t (snap_header st' first n blob) @ snap_values mem (rs_wl st)
      @ win_bitmap (snap_chain mem (rs_chain st)) first n
      @ win_blob (snap_chain mem (rs_chain st)) first n @ dp_section (snap_chain mem (rs_chain st))"
    "snap_msg_header tx = snap_header st' first n blob"
    "unat (sh_addr_count (snap_msg_header tx)) = ra_watchlist_count (rs_wl st)"
    "unat (sh_chain_first (snap_msg_header tx)) = first"
    "unat (sh_chain_count (snap_msg_header tx)) = n"
    "unat (sh_chain_blob_len (snap_msg_header tx)) = blob"
proof -
  let ?c = "snap_chain mem (rs_chain st)"
  note wf = ra_inv_facts(2) [OF inv, of mem] and cnt = ra_inv_facts(3) [OF inv]
  obtain first n blob nxt where w: "snap_window budget (ra_watchlist_count (rs_wl st)) ?c
      = (first, n, blob, nxt)" by (metis prod_cases4)
  note sp = snap_window_spec [OF wf b cnt w]
  define st1 where "st1 = st\<lparr> ra_frame_counter := ra_frame_counter st + 1,
      rs_chain := ?c\<lparr> ra_chain_win_next := nxt \<rparr> \<rparr>"
  define hdr where "hdr = ra_fill_header RA_CMD_SNAPSHOT (snap_payload_len
      (ra_watchlist_count (rs_wl st)) n blob (ra_chain_dp_count (rs_chain st)))"
  have st1: "st' = st1" and tx: "tx = hdr @ enc_ra_snapshot_header_t (snap_header st1 first n blob)
      @ snap_values mem (rs_wl st) @ win_bitmap ?c first n @ win_blob ?c first n @ dp_section ?c"
    using e unfolding snap_build_eq [OF w] by (auto simp: st1_def hdr_def)
  have h: "snap_msg_header tx = snap_header st1 first n blob"
    by (simp add: snap_msg_header_def tx hdr_def sub_bytes_def
        ra_snapshot_header_t_codec.dec_enc)
  have "ra_chain_node_count ?c \<le> RA_MAX_CHAIN_NODES" "ra_chain_shipped ?c \<le> ra_chain_node_count ?c"
    using wf by (simp_all add: chain_wf_def)
  then have small: "first < 65536" "n < 65536" using sp(1) by simp_all
  have "budget \<le> 8192" using b by (auto simp: budget_ok_def)
  then have blob: "blob < 65536" using sp(3) by simp
  show ?thesis
    by (rule that [OF w _ _ _ _ ])
       (use st1 tx h small blob cnt in
         \<open>simp_all add: st1_def hdr_def snap_header_def unat_of_nat_u16\<close>)
qed

lemma snap_values_at:
  assumes inv: "ra_inv st" and b: "budget_ok budget" and e: "snap_build budget mem st = (st', tx)"
    and i: "i < ra_watchlist_count (rs_wl st)"
  shows "tx ! (20 + i) = ra_read_ppc_byte mem (wl (rs_wl st) ! i)"
  by (rule snap_layout [OF inv b e]) (use i in \<open>auto simp: nth_append snap_values_def wl_def\<close>)

definition msg_window_off :: "bytes \<Rightarrow> nat" where
  "msg_window_off tx = 20 + unat (sh_addr_count (snap_msg_header tx))"

definition msg_blob_off :: "bytes \<Rightarrow> nat" where
  "msg_blob_off tx = msg_window_off tx + bm_len (unat (sh_chain_count (snap_msg_header tx)))"

definition msg_dp_off :: "bytes \<Rightarrow> nat" where
  "msg_dp_off tx = msg_blob_off tx + unat (sh_chain_blob_len (snap_msg_header tx))"

text \<open>The slots of the window a message carries.\<close>

definition msg_slots :: "bytes \<Rightarrow> nat set" where
  "msg_slots tx = {s. unat (sh_chain_first (snap_msg_header tx)) \<le> s \<and>
     s < unat (sh_chain_first (snap_msg_header tx)) + unat (sh_chain_count (snap_msg_header tx))}"

definition msg_slot_valid :: "bytes \<Rightarrow> nat \<Rightarrow> bool" where
  "msg_slot_valid tx s =
     bm_get (sub_bytes tx (msg_window_off tx) (bm_len (unat (sh_chain_count (snap_msg_header tx)))))
       (s - unat (sh_chain_first (snap_msg_header tx)))"

definition msg_slot_value :: "(nat \<Rightarrow> nat) \<Rightarrow> bytes \<Rightarrow> nat \<Rightarrow> u32" where
  "msg_slot_value width tx s =
     le_pack (sub_bytes tx
       (msg_blob_off tx + sum_list (map width [unat (sh_chain_first (snap_msg_header tx))..<s])) (width s))"

lemma snap_window_at:
  assumes inv: "ra_inv st" and b: "budget_ok budget" and e: "snap_build budget mem st = (st', tx)"
    and s: "s \<in> msg_slots tx"
  shows "s < ra_chain_shipped (rs_chain st)"
    and "msg_slot_valid tx s = fst (sem_of mem (rs_chain st) (ra_chain_ship_node (rs_chain st) ! s))"
    and "msg_slot_value (slot_width (rs_chain st)) tx s
      = take_bit (8 * slot_width (rs_chain st) s)
          (snd (sem_of mem (rs_chain st) (ra_chain_ship_node (rs_chain st) ! s)))"
proof -
  let ?c = "rs_chain st" and ?d = "snap_chain mem (rs_chain st)"
  note wf = ra_inv_facts(1) [OF inv] and wfd = ra_inv_facts(2) [OF inv, of mem]
    and cnt = ra_inv_facts(3) [OF inv]
  show "s < ra_chain_shipped ?c"
    and "msg_slot_valid tx s = fst (sem_of mem ?c (ra_chain_ship_node ?c ! s))"
    and "msg_slot_value (slot_width ?c) tx s = take_bit (8 * slot_width ?c s)
      (snd (sem_of mem ?c (ra_chain_ship_node ?c ! s)))"
  proof (atomize (full), rule snap_layout [OF inv b e], goal_cases)
    case (1 first n blob nxt hdr)
    note L = this
    note sp = snap_window_spec [OF wfd b cnt L(1)]
    obtain wi where wi: "s = first + wi" "wi < n"
      using s L(7,8) by (auto simp: msg_slots_def dest: le_Suc_ex)
    have lt: "s < ra_chain_shipped ?c" using sp(1) wi by (simp add: snap_chain_frame)
    then have node: "ra_chain_ship_node ?c ! s < ra_chain_node_count ?c"
      using wf by (simp add: chain_wf_def)
    let ?pre = "hdr @ enc_ra_snapshot_header_t (snap_header st' first n blob) @ snap_values mem (rs_wl st)"
    have bm: "sub_bytes tx (msg_window_off tx) (bm_len n) = win_bitmap ?d first n"
      by (simp add: msg_window_off_def L(6)) (simp add: L(4) sub_bytes_def L(3))
    have v: "msg_slot_valid tx s = fst (sem_of mem ?c (ra_chain_ship_node ?c ! s))"
      using bm wi L(7,8) snap_chain_sem(1) [OF wf node]
      by (simp add: msg_slot_valid_def bm_get_win_bitmap snap_chain_frame)
    have len: "length (win_blob ?d first wi) = sum_list (map (slot_width ?c) [first..<s])"
      by (simp add: length_win_blob slot_width_snap_chain [OF wf] wi)
    have "length (win_blob ?d first wi) + slot_width ?d (first + wi) \<le> length (win_blob ?d first n)"
      using wi(2) by (simp add: length_win_blob upt_split_at [of first "first + wi" "first + n"])
    then have "sub_bytes tx (msg_blob_off tx + length (win_blob ?d first wi)) (slot_width ?d s)
        = sub_bytes (win_blob ?d first n) (length (win_blob ?d first wi)) (slot_width ?d s)"
      by (simp add: msg_blob_off_def msg_window_off_def L(6,8))
         (simp add: L(4) sub_bytes_def L(3) wi)
    also have "\<dots> = le_bytes (snd (sem_of mem ?c (ra_chain_ship_node ?c ! s))) (slot_width ?d s)"
      using win_blob_slot [OF wi(2), of ?d first] snap_chain_sem(2) [OF wf node] wi
      by (simp add: snap_chain_frame)
    finally have "msg_slot_value (slot_width ?c) tx s = le_pack
        (le_bytes (snd (sem_of mem ?c (ra_chain_ship_node ?c ! s))) (slot_width ?c s))"
      by (simp add: msg_slot_value_def L(7) len slot_width_snap_chain [OF wf])
    moreover have "slot_width ?c s \<le> 4" by (simp add: slot_width_def node_width_bounds)
    ultimately show ?case using lt v by (simp add: le_pack_le_bytes)
  qed
qed

text \<open>The verification section carries the history values the walk has just used.\<close>

lemma put_be32_section:
  "d < n \<Longrightarrow> sub_bytes (concat (map (\<lambda>d. put_be32 (f d)) [0..<n]) @ rest) (4 * d) 4 = put_be32 (f d)"
proof -
  assume d: "d < n"
  have "length (concat (map (\<lambda>d. put_be32 (f d)) [0..<d])) = 4 * d" by (induction d) simp_all
  then show ?thesis by (simp add: upt_split_at [OF _ d] sub_bytes_def)
qed

lemma snap_chain_history:
  assumes "chain_wf c" and "i < ra_chain_node_count c"
  shows "ra_chain_values_prev (snap_chain mem c) ! i = ra_chain_values c ! i"
    and "ra_chain_prior (snap_chain mem c) ! i =
      (if snd (sem_of mem c i) \<noteq> ra_chain_values c ! i then ra_chain_values c ! i
       else ra_chain_prior c ! i)"
    and "ra_chain_valid_prev (snap_chain mem c) = ra_chain_node_valid c"
    and "ra_chain_dp_node (snap_chain mem c) = ra_chain_dp_node c"
    and "ra_chain_dp_kind (snap_chain mem c) = ra_chain_dp_kind c"
  using ra_chain_walk_inv [OF assms(1), of mem] assms(2)
  by (auto simp: snap_chain_def walk_inv_def ra_chain_walk_frame)

lemma snap_dp_at:
  assumes inv: "ra_inv st" and b: "budget_ok budget" and e: "snap_build budget mem st = (st', tx)"
    and d: "d < ra_chain_dp_count (rs_chain st)"
  defines "node \<equiv> ra_chain_dp_node (rs_chain st) ! d"
  shows "unat (sh_dp_count (snap_msg_header tx)) = ra_chain_dp_count (rs_chain st)"
    and "be32 (sub_bytes tx (msg_dp_off tx + 4 * d) 4) =
      (if ra_chain_dp_kind (rs_chain st) ! d = RA_CN_DP_PRIOR
          \<and> snd (sem_of mem (rs_chain st) node) = ra_chain_values (rs_chain st) ! node
       then ra_chain_prior (rs_chain st) ! node else ra_chain_values (rs_chain st) ! node)"
proof -
  let ?c = "rs_chain st" and ?d = "snap_chain mem (rs_chain st)"
  note wf = ra_inv_facts(1) [OF inv] and wfd = ra_inv_facts(2) [OF inv, of mem]
    and cnt = ra_inv_facts(3) [OF inv]
  have node: "node < ra_chain_node_count ?c" using wf d by (simp add: chain_wf_def node_def)
  have dpc: "ra_chain_dp_count ?c < 65536" using wf by (simp add: chain_wf_def)
  show "unat (sh_dp_count (snap_msg_header tx)) = ra_chain_dp_count ?c"
    and "be32 (sub_bytes tx (msg_dp_off tx + 4 * d) 4) =
      (if ra_chain_dp_kind ?c ! d = RA_CN_DP_PRIOR
          \<and> snd (sem_of mem ?c node) = ra_chain_values ?c ! node
       then ra_chain_prior ?c ! node else ra_chain_values ?c ! node)"
  proof (atomize (full), rule snap_layout [OF inv b e], goal_cases)
    case (1 first n blob nxt hdr)
    note L = this
    note sp = snap_window_spec [OF wfd b cnt L(1)]
    have "sub_bytes tx (msg_dp_off tx + 4 * d) 4 = put_be32 (dp_value ?d d)"
      using put_be32_section [of d "ra_chain_dp_count ?c" "dp_value ?d"] d sp(2)
      by (simp add: msg_dp_off_def msg_blob_off_def msg_window_off_def L(6,8,9))
         (simp add: L(4) sub_bytes_def L(3) dp_section_def snap_chain_frame)
    then have "be32 (sub_bytes tx (msg_dp_off tx + 4 * d) 4) = dp_value ?d d" by simp
    moreover have "unat (sh_dp_count (snap_msg_header tx)) = ra_chain_dp_count ?c"
      using dpc by (simp add: L(2,5) snap_header_def snap_chain_frame unat_of_nat_u16)
    ultimately show ?case
      using snap_chain_history [OF wf node, of mem]
      by (auto simp: dp_value_def Let_def node_def)
  qed
qed

section \<open>The window rotates over every shipped slot\<close>

text \<open>
  A run of snapshots. Between two of them the memory changes and the replies of the
  adapter may change the watchlist state; the chain table stays.
\<close>

fun snap_run :: "nat \<Rightarrow> (ppc_mem \<times> wl_state) list \<Rightarrow> ra_state \<Rightarrow> bytes list" where
  "snap_run budget [] st = []"
| "snap_run budget ((mem, s) # ins) st =
     (case snap_build budget mem (st\<lparr> rs_wl := s \<rparr>) of (st', tx) \<Rightarrow> tx # snap_run budget ins st')"

text \<open>Snapshots until slot \<open>s\<close> is in the window, counted from the cursor.\<close>

definition slot_dist :: "chain_state \<Rightarrow> nat \<Rightarrow> nat" where
  "slot_dist c s = (if win_start c \<le> s then s - win_start c
                    else ra_chain_shipped c - win_start c + s)"

lemma snap_step_window:
  assumes inv: "ra_inv st" and b: "budget_ok budget" and e: "snap_build budget mem st = (st', tx)"
    and s: "s < ra_chain_shipped (rs_chain st)"
  shows "ra_chain_shipped (rs_chain st') = ra_chain_shipped (rs_chain st)"
    and "s \<in> msg_slots tx \<or> slot_dist (rs_chain st') s < slot_dist (rs_chain st) s"
proof -
  let ?c = "rs_chain st" and ?d = "snap_chain mem (rs_chain st)"
  note wfd = ra_inv_facts(2) [OF inv, of mem] and cnt = ra_inv_facts(3) [OF inv]
  have nodes: "0 < ra_chain_node_count ?c"
    using ra_inv_facts(1) [OF inv] s by (simp add: chain_wf_def)
  show "ra_chain_shipped (rs_chain st') = ra_chain_shipped ?c"
    and "s \<in> msg_slots tx \<or> slot_dist (rs_chain st') s < slot_dist ?c s"
  proof (atomize (full), rule snap_layout [OF inv b e], goal_cases)
    case (1 first n blob nxt hdr)
    note L = this
    note sp = snap_window_spec [OF wfd b cnt L(1)]
    have f: "first = win_start ?c" "0 < n" "first + n \<le> ra_chain_shipped ?c"
      "nxt = (if first + n \<ge> ra_chain_shipped ?c then 0 else first + n)"
      using sp(1,4) s nodes by (simp_all add: snap_chain_frame win_start_def)
    have sh: "ra_chain_shipped (rs_chain st') = ra_chain_shipped ?c" by (simp add: L(2) snap_chain_frame)
    have "win_start (rs_chain st') = nxt" using f(4) s sh by (simp add: win_start_def L(2))
    then show ?case
      using f s sh L(7,8) by (auto simp: msg_slots_def slot_dist_def split: if_splits)
  qed
qed

lemma snap_run_reaches:
  assumes "ra_inv st" and "budget_ok budget" and "\<forall>(m, w) \<in> set ins. wl_inv w"
    and "s < ra_chain_shipped (rs_chain st)" and "slot_dist (rs_chain st) s < length ins"
  shows "\<exists>tx \<in> set (take (Suc (slot_dist (rs_chain st) s)) (snap_run budget ins st)). s \<in> msg_slots tx"
  using assms
proof (induction ins arbitrary: st)
  case (Cons i ins)
  obtain mem w where i: "i = (mem, w)" by fastforce
  let ?st = "st\<lparr> rs_wl := w \<rparr>"
  obtain st' tx where e: "snap_build budget mem ?st = (st', tx)" by fastforce
  have inv: "ra_inv ?st" using Cons.prems i by (simp add: ra_inv_def)
  then have inv': "ra_inv st'" using snap_build_inv [OF inv, of budget mem] e by simp
  have step: "ra_chain_shipped (rs_chain st') = ra_chain_shipped (rs_chain st)"
    "s \<in> msg_slots tx \<or> slot_dist (rs_chain st') s < slot_dist (rs_chain st) s"
    using snap_step_window [OF inv Cons.prems(2) e, of s] Cons.prems(4) by simp_all
  have run: "snap_run budget (i # ins) st = tx # snap_run budget ins st'" using e i by simp
  show ?case
  proof (cases "s \<in> msg_slots tx")
    case False
    then have d: "slot_dist (rs_chain st') s < slot_dist (rs_chain st) s" using step by simp
    then have "\<exists>t \<in> set (take (Suc (slot_dist (rs_chain st') s)) (snap_run budget ins st')). s \<in> msg_slots t"
      using Cons.IH [of st'] Cons.prems inv' step(1) by simp
    moreover have "set (take (Suc (slot_dist (rs_chain st') s)) (snap_run budget ins st'))
        \<subseteq> set (take (slot_dist (rs_chain st) s) (snap_run budget ins st'))"
      using d by (intro set_take_subset_set_take) simp
    ultimately show ?thesis unfolding run take_Suc_Cons by auto
  qed (simp add: run)
qed simp

lemma slot_dist_less: "s < ra_chain_shipped c \<Longrightarrow> slot_dist c s < ra_chain_shipped c"
  by (auto simp: slot_dist_def win_start_def)

section \<open>Only the game's memory is read\<close>

definition game_ram_eq :: "ppc_mem \<Rightarrow> ppc_mem \<Rightarrow> bool" where
  "game_ram_eq m m' \<longleftrightarrow> (\<forall>a. game_ram a \<longrightarrow> m a = m' a)"

lemma snap_build_game_ram:
  assumes "game_ram_eq m m'"
  shows "snap_build budget m st = snap_build budget m' st"
proof -
  have r: "ra_read_ppc_byte m = ra_read_ppc_byte m'"
    using assms by (intro ra_read_ppc_byte_cong) (simp add: game_ram_eq_def)
  then have d: "deref_read m = deref_read m'" by (intro ext) (simp add: deref_read_def)
  then have "walk_value m = walk_value m'" by (intro ext) (simp add: walk_value_def Let_def)
  then have "walk_node m = walk_node m'" by (intro ext) (simp add: walk_node_def Let_def)
  then have "snap_chain m = snap_chain m'" by (intro ext) (simp add: snap_chain_def ra_chain_walk_def)
  moreover have "snap_values m = snap_values m'" using r by (intro ext) (simp add: snap_values_def)
  ultimately show ?thesis by (simp add: snap_build_def)
qed

section \<open>Properties\<close>

text \<open>Two watched bytes and the table of \<open>demo_chain\<close>.\<close>

definition demo_ra :: ra_state where
  "demo_ra = ra_init\<lparr> rs_chain := demo_chain,
     rs_wl := wl_init\<lparr> ra_watchlist := [0x101, 0x204] @ drop 2 (ra_watchlist wl_init),
                        ra_watchlist_count := 2 \<rparr> \<rparr>"

lemma demo_ra_inv: "ra_inv demo_ra"
  by (simp add: ra_inv_def demo_ra_def demo_chain_wf wl_inv_def wl_init_def)

lemma demo_ra_window: "0 \<in> msg_slots (snd (snap_build RA_USB_TX_MAX demo_mem demo_ra))"
proof -
  obtain st' tx where e: "snap_build RA_USB_TX_MAX demo_mem demo_ra = (st', tx)" by fastforce
  have "slot_dist (rs_chain demo_ra) 0 = 0" "0 < ra_chain_shipped (rs_chain demo_ra)"
    by (simp_all add: demo_ra_def demo_chain_def slot_dist_def win_start_def chain_init_def)
  with snap_step_window(2) [OF demo_ra_inv _ e, of 0] e show ?thesis by (simp add: budget_ok_def)
qed

text \<open>
  C19. A snapshot never exceeds the transfer budget of its build, whatever the watchlist, the
  chain table and the memory, and the length field of its header is the length of the rest.
\<close>

theorem snapshot_fits_budget:
  assumes "ra_inv st" and "budget_ok budget"
  shows "length (snd (snap_build budget mem st)) \<le> budget
    \<and> length (snd (snap_build budget mem st))
        = 4 + unat (be16 (take 2 (drop 2 (snd (snap_build budget mem st)))))"
  using snap_build_length [OF assms prod.collapse [symmetric]] by blast

theorem snapshot_fits_budget_witness:
  "length (snd (snap_build RA_USB_TX_MAX demo_mem demo_ra)) \<le> RA_USB_TX_MAX"
  by (rule snapshot_fits_budget [OF demo_ra_inv, THEN conjunct1]) (simp add: budget_ok_def)

text \<open>
  The values of a snapshot are the bytes of the game's memory at the watched addresses, in
  the order of the list.
\<close>

theorem snapshot_carries_watchlist:
  assumes "ra_inv st" and "budget_ok budget" and "i < length (wl (rs_wl st))"
  shows "snd (snap_build budget mem st) ! (20 + i) = ra_read_ppc_byte mem (wl (rs_wl st) ! i)"
proof -
  have "i < ra_watchlist_count (rs_wl st)" using assms(3) by (simp add: wl_def)
  then show ?thesis by (rule snap_values_at [OF assms(1,2) prod.collapse [symmetric]])
qed

theorem snapshot_carries_watchlist_witness:
  "snd (snap_build RA_USB_TX_MAX demo_mem demo_ra) ! 21 = 7"
  using snapshot_carries_watchlist [OF demo_ra_inv, of RA_USB_TX_MAX 1 demo_mem]
  by (simp add: budget_ok_def demo_ra_def wl_def demo_mem_def ra_read_ppc_byte_def wl_init_def)

text \<open>
  C20. Decoding the chain window of a snapshot by the layout of the protocol gives, for every
  slot it covers, the validity and the value (cut to the slot's width) of the chain's meaning
  in the game's memory.
\<close>

theorem snapshot_carries_chains:
  assumes "ra_inv st" and "budget_ok budget" and "s \<in> msg_slots (snd (snap_build budget mem st))"
  shows "s < ra_chain_shipped (rs_chain st)
    \<and> msg_slot_valid (snd (snap_build budget mem st)) s
      = fst (sem_of mem (rs_chain st) (ra_chain_ship_node (rs_chain st) ! s))
    \<and> msg_slot_value (slot_width (rs_chain st)) (snd (snap_build budget mem st)) s
      = take_bit (8 * slot_width (rs_chain st) s)
          (snd (sem_of mem (rs_chain st) (ra_chain_ship_node (rs_chain st) ! s)))"
  using snap_window_at [OF assms(1,2) prod.collapse [symmetric] assms(3)] by blast

theorem snapshot_carries_chains_witness:
  "msg_slot_valid (snd (snap_build RA_USB_TX_MAX demo_mem demo_ra)) 0
    = fst (sem_of demo_mem demo_chain (ra_chain_ship_node demo_chain ! 0))"
  using snapshot_carries_chains [OF demo_ra_inv _ demo_ra_window]
  by (simp add: budget_ok_def demo_ra_def)

text \<open>
  The verification section of a snapshot carries, for every delta or prior node the
  adapter asked for, the value of the previous frame, or the last different value when the
  node is a prior node whose value did not change.
\<close>

theorem snapshot_carries_history:
  assumes "ra_inv st" and "budget_ok budget" and "d < ra_chain_dp_count (rs_chain st)"
    and "node = ra_chain_dp_node (rs_chain st) ! d"
  shows "be32 (sub_bytes (snd (snap_build budget mem st))
        (msg_dp_off (snd (snap_build budget mem st)) + 4 * d) 4) =
      (if ra_chain_dp_kind (rs_chain st) ! d = RA_CN_DP_PRIOR
          \<and> snd (sem_of mem (rs_chain st) node) = ra_chain_values (rs_chain st) ! node
       then ra_chain_prior (rs_chain st) ! node else ra_chain_values (rs_chain st) ! node)"
  unfolding assms(4) by (rule snap_dp_at(2) [OF assms(1,2) prod.collapse [symmetric] assms(3)])

definition demo_dp :: ra_state where
  "demo_dp = demo_ra\<lparr> rs_chain := demo_chain\<lparr> ra_chain_dp_count := 1,
     ra_chain_dp_node := (ra_chain_dp_node chain_init)[0 := 1],
     ra_chain_dp_kind := (ra_chain_dp_kind chain_init)[0 := 1],
     ra_chain_values := (ra_chain_values chain_init)[1 := 5] \<rparr> \<rparr>"

lemma demo_dp_inv: "ra_inv demo_dp"
proof -
  have "ra_chain_node_count demo_chain = 2" by (simp add: demo_chain_def)
  then show ?thesis using demo_chain_wf demo_ra_inv
    by (simp add: ra_inv_def demo_dp_def chain_wf_def chain_arrays_def chain_init_def demo_ra_def)
qed

theorem snapshot_carries_history_witness:
  "be32 (sub_bytes (snd (snap_build RA_USB_TX_MAX demo_mem demo_dp))
     (msg_dp_off (snd (snap_build RA_USB_TX_MAX demo_mem demo_dp))) 4) = 5"
  using snapshot_carries_history [OF demo_dp_inv, of RA_USB_TX_MAX 0 1 demo_mem]
  by (simp add: budget_ok_def demo_dp_def chain_init_def)

text \<open>
  C21. The chain window reaches every shipped slot: whatever the memory and the replies do
  between them, one of the next \<open>ra_chain_shipped\<close> snapshots carries the slot.
\<close>

theorem window_reaches_every_slot:
  assumes "ra_inv st" and "budget_ok budget" and "\<forall>(m, w) \<in> set ins. wl_inv w"
    and "s < ra_chain_shipped (rs_chain st)" and "ra_chain_shipped (rs_chain st) \<le> length ins"
  shows "\<exists>tx \<in> set (take (ra_chain_shipped (rs_chain st)) (snap_run budget ins st)). s \<in> msg_slots tx"
proof -
  have d: "slot_dist (rs_chain st) s < ra_chain_shipped (rs_chain st)" by (rule slot_dist_less [OF assms(4)])
  then have "\<exists>tx \<in> set (take (Suc (slot_dist (rs_chain st) s)) (snap_run budget ins st)). s \<in> msg_slots tx"
    using assms by (intro snap_run_reaches) simp_all
  moreover have "set (take (Suc (slot_dist (rs_chain st) s)) (snap_run budget ins st))
      \<subseteq> set (take (ra_chain_shipped (rs_chain st)) (snap_run budget ins st))"
    using d by (intro set_take_subset_set_take) simp
  ultimately show ?thesis by blast
qed

theorem window_reaches_every_slot_witness:
  "\<exists>tx \<in> set (take 1 (snap_run EXI_TX_BUDGET [(demo_mem, wl_init)] demo_ra)). 0 \<in> msg_slots tx"
  using window_reaches_every_slot [OF demo_ra_inv, of EXI_TX_BUDGET "[(demo_mem, wl_init)]" 0]
  by (simp add: budget_ok_def wl_init_inv) (simp add: demo_ra_def demo_chain_def)

text \<open>
  A snapshot depends on nothing outside the memory a game can own: two memories that agree
  there give the same message and the same state.
\<close>

theorem snapshot_reads_game_ram_only:
  assumes "game_ram_eq m m'"
  shows "snap_build budget m st = snap_build budget m' st"
  using assms by (rule snap_build_game_ram)

theorem snapshot_reads_game_ram_only_witness:
  "snap_build RA_USB_TX_MAX demo_mem demo_ra
     = snap_build RA_USB_TX_MAX (demo_mem(0xD000000 := 0xFF)) demo_ra"
  by (rule snapshot_reads_game_ram_only) (simp add: game_ram_eq_def game_ram_def)

end
