(* ===== verification/RA_Fire.thy ===== *)
theory RA_Fire
  imports RA_Snapshot
begin

text \<open>
  One fire of the poll thread of \<open>ra-module/main.c\<close>: the snapshot exchange, the
  ADDR_RESPONSE rounds that answer the adapter's queries, and the resynchronisation, in
  the order of the memory card build (blocking exchanges) and of the pipelined USB build
  (the snapshot stays on the wire until the next fire).

  Every operation returns \<open>None\<close> where the code would read past the end of its receive
  buffer. A fire is shown to keep the invariant of the module, to make at most twelve
  response rounds and, when the adapter keeps to the sizes of the protocol, to return.
  \<open>mems i\<close> is the game's memory at response round \<open>i\<close> and \<open>mems 12\<close> at the snapshot.
\<close>

section \<open>Timed calls\<close>

definition timed :: "'w ra_link \<Rightarrow> ('w \<Rightarrow> 'a \<times> 'w) \<Rightarrow> 'w \<Rightarrow> ('a \<times> u32) \<times> 'w" where
  "timed L act w =
     (case lk_timer L w of (t0, w1) \<Rightarrow>
      case act w1 of (a, w2) \<Rightarrow>
      case lk_timer L w2 of (t1, w3) \<Rightarrow> ((a, vi_ticks_to_us (t1 - t0) div 1000), w3))"

lemma timed_result: "\<exists>m v. timed L act w = ((fst (act (snd (lk_timer L w))), m), v)"
  by (simp add: timed_def split: prod.split)

section \<open>Exchanges\<close>

definition ra_send_snapshot ::
  "'w ra_link \<Rightarrow> nat \<Rightarrow> ppc_mem \<Rightarrow> ra_state \<Rightarrow> 'w \<Rightarrow> (s32 \<times> ra_state \<times> 'w) option"
where
  "ra_send_snapshot L budget mem st w =
     (case timed L (\<lambda>w. (snap_build budget mem st, w)) w of (((st1, tx), m), w1) \<Rightarrow>
      case timed L (lk_phase_b L tx RA_SNAP_RX_BUF_SZ) w1 of (((ret, rx), t), w2) \<Rightarrow>
      let st2 = st1\<lparr> g_t_mem1_ms := m, g_t_snap_ms := t \<rparr> in
      if ret < 0 then Some (ret, st2, w2)
      else do { s \<leftarrow> ra_parse_response rx (rs_wl st2); Some (0, st2\<lparr> rs_wl := s \<rparr>, w2) })"

text \<open>The pipelined variant: the message is posted and the reply is collected later.\<close>

definition ra_post_snapshot ::
  "'w ra_link \<Rightarrow> nat \<Rightarrow> ppc_mem \<Rightarrow> ra_state \<Rightarrow> 'w \<Rightarrow> s32 \<times> ra_state \<times> 'w"
where
  "ra_post_snapshot L budget mem st w =
     (case timed L (\<lambda>w. (snap_build budget mem st, w)) w of (((st1, tx), m), w1) \<Rightarrow>
      case timed L (lk_post L tx RA_SNAP_RX_BUF_SZ) w1 of ((ret, t), w2) \<Rightarrow>
      (ret, st1\<lparr> g_t_mem1_ms := m, g_t_snap_ms := t \<rparr>, if ret < 0 then lk_to_phaseb L w2 else w2))"

abbreviation (input) RA_USB_ETIMEOUT :: s32 where "RA_USB_ETIMEOUT \<equiv> - 300"

definition ra_snap_collect :: "'w ra_link \<Rightarrow> ra_state \<Rightarrow> 'w \<Rightarrow> (s32 \<times> ra_state \<times> 'w) option" where
  "ra_snap_collect L st w =
     (if \<not> lk_posted L w then Some (0, st, w)
      else case lk_reap L w of ((ret, rx), w1) \<Rightarrow>
        if ret = RA_USB_ETIMEOUT then Some (ret, st, lk_to_phaseb L w1)
        else if ret = 0 then
          do { s \<leftarrow> ra_parse_response rx (rs_wl st); Some (0, st\<lparr> rs_wl := s \<rparr>, w1) }
        else Some (0, st, w1))"

definition addr_response_msg :: "ppc_mem \<Rightarrow> wl_state \<Rightarrow> bytes" where
  "addr_response_msg mem s =
     (let count = ra_pending_query_count s
      in ra_fill_header RA_CMD_ADDR_RESPONSE (2 + count) @ put_be16 (of_nat count)
         @ map (\<lambda>i. ra_read_ppc_byte mem (ra_pending_query_addrs s ! i)) [0..<count])"

definition ra_send_addr_response ::
  "'w ra_link \<Rightarrow> ppc_mem \<Rightarrow> ra_state \<Rightarrow> 'w \<Rightarrow> (s32 \<times> ra_state \<times> 'w) option"
where
  "ra_send_addr_response L mem st w =
     (if ra_pending_query_count (rs_wl st) = 0 then Some (0, st, w)
      else case lk_phase_b L (addr_response_msg mem (rs_wl st)) RA_SNAP_RX_BUF_SZ w of ((ret, rx), w1) \<Rightarrow>
        if ret < 0 then Some (ret, st, w1)
        else do { s \<leftarrow> ra_parse_response rx ((rs_wl st)\<lparr> ra_pending_query_count := 0 \<rparr>);
                  Some (0, st\<lparr> rs_wl := s \<rparr>, w1) })"

text \<open>\<open>for (i = 0; i < 12 && ra_pending_query_count > 0; i++)\<close>\<close>

fun addr_rounds ::
  "'w ra_link \<Rightarrow> (nat \<Rightarrow> ppc_mem) \<Rightarrow> nat \<Rightarrow> nat \<Rightarrow> ra_state \<Rightarrow> 'w \<Rightarrow> (nat \<times> ra_state \<times> 'w) option"
where
  "addr_rounds L mems i 0 st w = Some (i, st, w)"
| "addr_rounds L mems i (Suc left) st w =
     (if ra_pending_query_count (rs_wl st) > 0 then
        do { (ret, st', w') \<leftarrow> ra_send_addr_response L (mems i) st w;
             addr_rounds L mems (Suc i) left st' w' }
      else Some (i, st, w))"

definition resync_step :: "'w ra_link \<Rightarrow> ra_state \<Rightarrow> 'w \<Rightarrow> ra_state \<times> 'w" where
  "resync_step L st w = (case ra_do_resync L (rs_wl st) w of (s, w') \<Rightarrow> (st\<lparr> rs_wl := s \<rparr>, w'))"

text \<open>The exchanges of one fire; the result carries the number of response rounds.\<close>

definition fire_exchanges ::
  "'w ra_link \<Rightarrow> (nat \<Rightarrow> ppc_mem) \<Rightarrow> ra_state \<Rightarrow> 'w \<Rightarrow> (nat \<times> ra_state \<times> 'w) option"
where
  "fire_exchanges L mems st w =
     do { (ret, st1, w1) \<leftarrow> ra_send_snapshot L EXI_TX_BUDGET (mems 12) st w;
          addr_rounds L mems 0 12 st1 w1 }"

definition fire_exchanges_usb ::
  "'w ra_link \<Rightarrow> (nat \<Rightarrow> ppc_mem) \<Rightarrow> ra_state \<Rightarrow> 'w \<Rightarrow> (nat \<times> ra_state \<times> 'w) option"
where
  "fire_exchanges_usb L mems st w =
     do { (ret, st1, w1) \<leftarrow> ra_snap_collect L st w;
          if ret = 0 then
            do { (i, st2, w2) \<leftarrow> addr_rounds L mems 0 12 st1 w1;
                 let (st3, w3) = resync_step L st2 w2;
                     (_, st4, w4) = ra_post_snapshot L RA_USB_TX_MAX (mems 12) st3 w3
                 in Some (i, st4, w4) }
          else Some (0, st1, w1) }"

section \<open>Invariant\<close>

lemma watchlist_chunk_once_keeps:
  assumes "wl_inv s" and "ra_fetch_watchlist_chunk_once L idx s w = (r, t, v)"
  shows "wl_inv t \<and> wl_frame s t"
  using assms wl_push_spec [OF assms(1)]
  by (auto simp: ra_fetch_watchlist_chunk_once_def wl_frame_def split: prod.splits if_splits sum.splits)

lemma wl_frame_trans: "wl_frame s t \<Longrightarrow> wl_frame t u \<Longrightarrow> wl_frame s u"
  by (simp add: wl_frame_def)

lemma fetch_watchlist_chunk_keeps:
  assumes "wl_inv s" and "ra_fetch_watchlist_chunk L idx s w = (r, t, v)"
  shows "wl_inv t \<and> wl_frame s t"
proof -
  have "wl_inv b \<and> wl_frame s b"
    if "wl_inv a \<and> wl_frame s a" "ra_fetch_watchlist_chunk_once L idx a w = (ret, b, w')" for a w ret b w'
    using watchlist_chunk_once_keeps [of a L idx w] that wl_frame_trans by blast
  moreover have "wl_inv s \<and> wl_frame s s" using assms(1) by (simp add: wl_frame_def)
  ultimately show ?thesis
    using assms(2) unfolding ra_fetch_watchlist_chunk_def
    by (rule chunk_attempts_keeps [where P = "\<lambda>a. wl_inv a \<and> wl_frame s a"])
qed

lemma watchlist_chunks_keeps:
  "wl_inv s \<Longrightarrow> watchlist_chunks L idx n s w = (r, t, v) \<Longrightarrow> wl_inv t \<and> wl_frame s t"
proof (induction n arbitrary: idx s w)
  case (Suc n)
  obtain r1 s1 w1 where e: "ra_fetch_watchlist_chunk L idx s w = (r1, s1, w1)" by (metis prod_cases3)
  note k = fetch_watchlist_chunk_keeps [OF Suc.prems(1) e]
  have rest: "wl_inv t \<and> wl_frame s t" if "watchlist_chunks L (idx + 1) n s1 w1 = (r, t, v)"
    using Suc.IH [OF _ that] k wl_frame_trans by blast
  show ?case using Suc.prems(2) e k rest by (auto split: if_splits)
qed (simp add: wl_frame_def)

lemma fetch_watchlist_keeps:
  assumes "wl_inv s" and "ra_fetch_watchlist L s w = (r, t, v)"
  shows "wl_inv t \<and> wl_frame s t"
proof -
  have "wl_inv (s\<lparr> ra_watchlist_count := 0 \<rparr>)" using assms(1) by (simp add: wl_inv_def)
  moreover have "watchlist_chunks L 0 32 (s\<lparr> ra_watchlist_count := 0 \<rparr>) w = (r, t, v)"
    using assms(2) by (simp add: ra_fetch_watchlist_def)
  ultimately have "wl_inv t \<and> wl_frame (s\<lparr> ra_watchlist_count := 0 \<rparr>) t"
    by (rule watchlist_chunks_keeps)
  then show ?thesis by (simp add: wl_frame_def)
qed

lemma do_resync_inv:
  assumes "wl_inv s" and "ra_do_resync L s w = (t, v)"
  shows "wl_inv t"
proof -
  have "wl_inv (s\<lparr> ra_resync_pending := False \<rparr>)" using assms(1) by (simp add: wl_inv_def)
  note k = fetch_watchlist_keeps [OF this, of L w]
  obtain r a b where e: "ra_fetch_watchlist L (s\<lparr> ra_resync_pending := False \<rparr>) w = (r, a, b)"
    by (metis prod_cases3)
  have "wl_inv a" using k [OF e] by simp
  then have "wl_inv (a\<lparr> ra_wl_seq := ra_resync_seq a \<rparr>)" by (simp add: wl_inv_def)
  with \<open>wl_inv a\<close> show ?thesis
    using assms e by (auto simp: ra_do_resync_def split: if_splits)
qed

lemma ra_inv_update:
  "ra_inv st \<Longrightarrow> wl_inv s \<Longrightarrow> ra_inv (st\<lparr> rs_wl := s \<rparr>)"
  "ra_inv (st\<lparr> g_t_mem1_ms := m, g_t_snap_ms := t \<rparr>) = ra_inv st"
  by (simp_all add: ra_inv_def)

lemma send_snapshot_inv:
  assumes "ra_inv st" and "ra_send_snapshot L budget mem st w = Some (r, st', w')"
  shows "ra_inv st'"
proof -
  obtain st1 tx where b: "snap_build budget mem st = (st1, tx)" by fastforce
  then have i: "ra_inv st1" using snap_build_inv [OF assms(1), of budget mem] by simp
  then have "wl_inv (rs_wl st1)" by (simp add: ra_inv_def)
  then show ?thesis
    using assms(2) b i
    by (auto simp: ra_send_snapshot_def timed_def Let_def split: prod.splits if_splits Option.bind_splits
        intro: parse_response_inv) (auto simp: ra_inv_def intro: parse_response_inv)
qed

lemma post_snapshot_inv:
  assumes "ra_inv st" and "ra_post_snapshot L budget mem st w = (r, st', w')"
  shows "ra_inv st'"
proof -
  obtain st1 tx where b: "snap_build budget mem st = (st1, tx)" by fastforce
  then have "ra_inv st1" using snap_build_inv [OF assms(1), of budget mem] by simp
  then show ?thesis
    using assms(2) b by (auto simp: ra_post_snapshot_def timed_def ra_inv_update split: prod.splits)
qed

lemma snap_collect_inv:
  assumes "ra_inv st" and "ra_snap_collect L st w = Some (r, st', w')"
  shows "ra_inv st'"
  using assms
  by (auto simp: ra_snap_collect_def ra_inv_def split: prod.splits if_splits Option.bind_splits
      intro: parse_response_inv)

lemma send_addr_response_inv:
  assumes "ra_inv st" and "ra_send_addr_response L mem st w = Some (r, st', w')"
  shows "ra_inv st'"
proof -
  have "wl_inv ((rs_wl st)\<lparr> ra_pending_query_count := 0 \<rparr>)"
    using assms(1) by (simp add: ra_inv_def wl_inv_def)
  then show ?thesis
    using assms
    by (auto simp: ra_send_addr_response_def ra_inv_def split: prod.splits if_splits Option.bind_splits
        intro: parse_response_inv)
qed

lemma addr_rounds_inv:
  "ra_inv st \<Longrightarrow> addr_rounds L mems i n st w = Some (k, st', w') \<Longrightarrow> ra_inv st' \<and> i \<le> k \<and> k \<le> i + n"
proof (induction n arbitrary: i st w)
  case (Suc n)
  show ?case
  proof (cases "ra_pending_query_count (rs_wl st) > 0")
    case True
    then obtain r st1 w1 where s: "ra_send_addr_response L (mems i) st w = Some (r, st1, w1)"
      "addr_rounds L mems (Suc i) n st1 w1 = Some (k, st', w')"
      using Suc.prems by (auto split: Option.bind_splits)
    from Suc.IH [OF send_addr_response_inv [OF Suc.prems(1) s(1)] s(2)] show ?thesis by simp
  qed (use Suc.prems in auto)
qed simp

lemma resync_step_inv:
  assumes "ra_inv st" and "resync_step L st w = (st', w')"
  shows "ra_inv st'"
  using assms by (auto simp: resync_step_def ra_inv_def split: prod.splits intro: do_resync_inv)

lemma fire_exchanges_inv:
  assumes "ra_inv st" and "fire_exchanges L mems st w = Some (k, st', w')"
  shows "ra_inv st' \<and> k \<le> 12"
proof -
  obtain r st1 w1 where s: "ra_send_snapshot L EXI_TX_BUDGET (mems 12) st w = Some (r, st1, w1)"
    "addr_rounds L mems 0 12 st1 w1 = Some (k, st', w')"
    using assms(2) by (auto simp: fire_exchanges_def split: Option.bind_splits)
  from addr_rounds_inv [OF send_snapshot_inv [OF assms(1) s(1)] s(2)] show ?thesis by simp
qed

lemma fire_exchanges_usb_inv:
  assumes "ra_inv st" and "fire_exchanges_usb L mems st w = Some (k, st', w')"
  shows "ra_inv st' \<and> k \<le> 12"
proof -
  obtain r st1 w1 where c: "ra_snap_collect L st w = Some (r, st1, w1)"
    using assms(2) by (auto simp: fire_exchanges_usb_def split: Option.bind_splits)
  have i1: "ra_inv st1" by (rule snap_collect_inv [OF assms(1) c])
  show ?thesis
  proof (cases "r = 0")
    case True
    then obtain st2 w2 where a: "addr_rounds L mems 0 12 st1 w1 = Some (k, st2, w2)"
      and l: "(case resync_step L st2 w2 of (st3, w3) \<Rightarrow>
        case ra_post_snapshot L RA_USB_TX_MAX (mems 12) st3 w3 of (_, st4, w4) \<Rightarrow> (k, st4, w4)) = (k, st', w')"
      using assms(2) c by (auto simp: fire_exchanges_usb_def split: Option.bind_splits prod.splits)
    have "ra_inv st2 \<and> k \<le> 12" using addr_rounds_inv [OF i1 a] by simp
    then show ?thesis using l by (auto split: prod.splits dest: resync_step_inv post_snapshot_inv)
  next
    case False
    then show ?thesis using assms(2) c i1 by (simp add: fire_exchanges_usb_def)
  qed
qed

section \<open>Responses that fit the receive buffer\<close>

text \<open>
  What the protocol promises of a reply: an APPEND carries at most \<open>RA_ADDR_QUERY_MAX\<close>
  addresses and a REMOVE_IDX at most 256 positions.
\<close>

definition rx_conforms :: "bytes \<Rightarrow> bool" where
  "rx_conforms buf \<longleftrightarrow>
     (let ev = eh_event_type (dec_ra_esp_header_t (sub_bytes buf 0 6)) in
      (ev = evt_code RA_EVT_WATCHLIST_APPEND \<longrightarrow>
         unat (wa_addr_count (dec_ra_watchlist_append_t (sub_bytes buf 6 4))) \<le> RA_ADDR_QUERY_MAX) \<and>
      (ev = evt_code RA_EVT_WATCHLIST_REMOVE_IDX \<longrightarrow>
         unat (wri_idx_count (dec_ra_watchlist_remove_idx_t (sub_bytes buf 6 4))) \<le> 256))"

lemma remove_loop_total:
  "10 + 2 * k \<le> length buf \<Longrightarrow> \<exists>r. remove_loop buf k i n skip wr arr = Some r"
proof (induction n arbitrary: i skip wr arr)
  case (Suc n)
  have "\<exists>x. rd16 buf (10 + skip * 2) = Some x" if "skip < k"
    using Suc.prems that by (simp add: rd16_Some)
  then show ?case using Suc.IH [OF Suc.prems] by (fastforce simp: Let_def)
qed simp

lemma rd32_arr_total:
  "off + 4 * n \<le> length buf \<Longrightarrow> \<exists>xs. rd_arr rd32 4 buf off n = Some xs"
  using rd_arr_Some [of n rd32 buf off 4] by (fastforce simp: rd32_Some)

lemma parse_response_total:
  assumes len: "length buf = RA_SNAP_RX_BUF_SZ" and conf: "rx_conforms buf"
  shows "\<exists>t. ra_parse_response buf s = Some t"
proof -
  let ?ev = "eh_event_type (dec_ra_esp_header_t (take 6 buf))"
  have q: "\<exists>t. parse_addr_query buf s = Some t"
  proof -
    let ?n = "unat (be16 (take 2 (drop 6 buf)))"
    have "\<exists>xs. rd_arr rd32 4 buf 8 ?n = Some xs" if "?n \<le> RA_ADDR_QUERY_MAX"
      using len that by (intro rd32_arr_total) simp
    then show ?thesis using len by (fastforce simp: parse_addr_query_def rd16_Some Let_def)
  qed
  have a: "\<exists>t. parse_append buf s = Some t" if "?ev = evt_code RA_EVT_WATCHLIST_APPEND"
  proof -
    let ?n = "unat (wa_addr_count (dec_ra_watchlist_append_t (take 4 (drop 6 buf))))"
    have "?n \<le> RA_ADDR_QUERY_MAX"
      using conf that by (simp add: rx_conforms_def sub_bytes_def)
    then have "\<exists>xs. rd_arr rd32 4 buf 10 ?n = Some xs" using len by (intro rd32_arr_total) simp
    then show ?thesis using len by (auto simp: parse_append_def rd_struct_Some)
  qed
  have r: "\<exists>t. parse_remove_idx buf s = Some t" if "?ev = evt_code RA_EVT_WATCHLIST_REMOVE_IDX"
  proof -
    let ?n = "unat (wri_idx_count (dec_ra_watchlist_remove_idx_t (take 4 (drop 6 buf))))"
    have "?n \<le> 256" using conf that by (simp add: rx_conforms_def sub_bytes_def)
    then have "\<exists>x. remove_loop buf ?n 0 (ra_watchlist_count s) 0 0 (ra_watchlist s) = Some x"
      using len by (intro remove_loop_total) simp
    then show ?thesis using len by (auto simp: parse_remove_idx_def rd_struct_Some)
  qed
  have u: "\<exists>t. parse_update buf s = Some t" using len by (simp add: parse_update_def rd_struct_Some)
  show ?thesis using len q a r u by (auto simp: ra_parse_response_def rd_struct_Some)
qed

text \<open>
  The receive buffer bounds what the parser can read, and the parser bounds the counts only
  by the capacity of the watchlist: an APPEND of more than 517 addresses that fits the
  watchlist is read past the end of the buffer.
\<close>

lemma rd_arr_None: "k < n \<Longrightarrow> f buf (off + w * k) = None \<Longrightarrow> rd_arr f w buf off n = None"
proof (induction n arbitrary: off k)
  case (Suc n)
  show ?case
  proof (cases k)
    case (Suc j)
    then have "rd_arr f w buf (off + w) n = None"
      using Suc.IH [of j "off + w"] Suc.prems by (simp add: add.assoc)
    then show ?thesis by (cases "f buf off") simp_all
  qed (use Suc.prems in simp)
qed simp

lemma parse_append_overread:
  assumes "length buf = RA_SNAP_RX_BUF_SZ"
    and "dec_ra_esp_header_t (sub_bytes buf 0 6) = h" "eh_magic h = RA_MAGIC_ESP_TO_GC"
      "eh_event_type h = evt_code RA_EVT_WATCHLIST_APPEND"
    and "dec_ra_watchlist_append_t (sub_bytes buf 6 4) = wa" "wa_seq wa = ra_wl_seq s + 1"
    and "517 < unat (wa_addr_count wa)"
      "ra_watchlist_count s + unat (wa_addr_count wa) \<le> RA_MAX_WATCH_ADDRS"
  shows "ra_parse_response buf s = None"
proof -
  have "rd_arr rd32 4 buf 10 (unat (wa_addr_count wa)) = None"
    using assms(1,7) by (intro rd_arr_None [of 517]) (simp_all add: rd32_None)
  then show ?thesis
    using assms by (simp add: ra_parse_response_def parse_append_def rd_struct_Some sub_bytes_def)
qed

section \<open>A fire returns\<close>

text \<open>
  The transport returns full-size receive buffers, the adapter keeps to the sizes of the
  protocol: then no operation of a fire reads outside its buffers.
\<close>

context ra_transport
begin

definition adapter_conforms :: bool where
  "adapter_conforms \<longleftrightarrow> (\<forall>tx w. rx_conforms (snd (fst (lk_phase_b L tx RA_SNAP_RX_BUF_SZ w))))"

lemma phase_b_parses:
  assumes adapter_conforms and "lk_phase_b L tx RA_SNAP_RX_BUF_SZ w = ((ret, rx), w')"
  shows "\<exists>t. ra_parse_response rx s = Some t"
proof (rule parse_response_total)
  show "length rx = RA_SNAP_RX_BUF_SZ"
    using phase_b_length [of tx RA_SNAP_RX_BUF_SZ w] assms(2) by simp
  have "rx_conforms (snd (fst (lk_phase_b L tx RA_SNAP_RX_BUF_SZ w)))"
    using assms(1) unfolding adapter_conforms_def by blast
  then show "rx_conforms rx" using assms(2) by simp
qed

lemma send_snapshot_total:
  assumes adapter_conforms
  shows "\<exists>r. ra_send_snapshot L budget mem st w = Some r"
proof -
  obtain st1 tx where b: "snap_build budget mem st = (st1, tx)" by fastforce
  obtain m w1 where t1: "timed L (\<lambda>w. (snap_build budget mem st, w)) w = (((st1, tx), m), w1)"
    using timed_result [of L "\<lambda>w. (snap_build budget mem st, w)" w] b by auto
  obtain ret rx u1 where u1: "lk_phase_b L tx RA_SNAP_RX_BUF_SZ (snd (lk_timer L w1)) = ((ret, rx), u1)"
    by (metis prod.collapse)
  obtain t w2 where t2: "timed L (lk_phase_b L tx RA_SNAP_RX_BUF_SZ) w1 = (((ret, rx), t), w2)"
    using timed_result [of L "lk_phase_b L tx RA_SNAP_RX_BUF_SZ" w1] u1 by auto
  obtain s where "ra_parse_response rx (rs_wl st1) = Some s" using phase_b_parses [OF assms u1] by blast
  then show ?thesis by (simp add: ra_send_snapshot_def t1 t2 Let_def)
qed

lemma send_addr_response_total:
  assumes adapter_conforms
  shows "\<exists>r. ra_send_addr_response L mem st w = Some r"
proof -
  obtain ret rx w1 where e: "lk_phase_b L (addr_response_msg mem (rs_wl st)) RA_SNAP_RX_BUF_SZ w
      = ((ret, rx), w1)" by (metis prod.collapse)
  obtain s where "ra_parse_response rx ((rs_wl st)\<lparr> ra_pending_query_count := 0 \<rparr>) = Some s"
    using phase_b_parses [OF assms e] by blast
  then show ?thesis by (simp add: ra_send_addr_response_def e)
qed

lemma addr_rounds_total:
  assumes adapter_conforms
  shows "\<exists>r. addr_rounds L mems i n st w = Some r"
proof (induction n arbitrary: i st w)
  case (Suc n)
  obtain r st' w' where "ra_send_addr_response L (mems i) st w = Some (r, st', w')"
    using send_addr_response_total [OF assms] by (metis prod_cases3)
  then show ?case using Suc.IH by simp
qed simp

lemma fire_total:
  assumes adapter_conforms and "ra_inv st"
  shows "\<exists>k st' w'. fire_exchanges L mems st w = Some (k, st', w') \<and> ra_inv st' \<and> k \<le> 12"
proof -
  obtain r st1 w1 where "ra_send_snapshot L EXI_TX_BUDGET (mems 12) st w = Some (r, st1, w1)"
    using send_snapshot_total [OF assms(1)] by (metis prod_cases3)
  moreover obtain k st' w' where "addr_rounds L mems 0 12 st1 w1 = Some (k, st', w')"
    using addr_rounds_total [OF assms(1)] by (metis prod_cases3)
  ultimately have "fire_exchanges L mems st w = Some (k, st', w')" by (simp add: fire_exchanges_def)
  with fire_exchanges_inv [OF assms(2) this] show ?thesis by blast
qed

end

section \<open>Properties\<close>

text \<open>
  The response parser reads inside its 2080-byte buffer whenever the adapter keeps to the
  counts of the protocol: it never fails, whatever the rest of the bytes is.
\<close>

theorem parse_response_in_bounds:
  assumes "length buf = RA_SNAP_RX_BUF_SZ" and "rx_conforms buf"
  shows "\<exists>t. ra_parse_response buf s = Some t"
  using assms by (rule parse_response_total)

theorem parse_response_in_bounds_witness:
  "\<exists>t. ra_parse_response ([0xAE, 0, 0x0B, 0, 0, 0] @ [0, 1, 0, 2] @ replicate 2070 0) wl_init = Some t"
  by (rule parse_response_in_bounds) (simp_all add: rx_conforms_def sub_bytes_def
      dec_ra_esp_header_t_def dec_ra_watchlist_append_t_def be16_def)

text \<open>
  Without that promise it does not: an APPEND of more than 517 addresses that the list
  still has room for passes every check of the parser and makes it read past the end of the
  receive buffer.
\<close>

theorem append_overreads_buffer:
  assumes "length buf = RA_SNAP_RX_BUF_SZ"
    and "eh_magic (dec_ra_esp_header_t (sub_bytes buf 0 6)) = RA_MAGIC_ESP_TO_GC"
    and "eh_event_type (dec_ra_esp_header_t (sub_bytes buf 0 6)) = evt_code RA_EVT_WATCHLIST_APPEND"
    and "wa_seq (dec_ra_watchlist_append_t (sub_bytes buf 6 4)) = ra_wl_seq s + 1"
    and "517 < unat (wa_addr_count (dec_ra_watchlist_append_t (sub_bytes buf 6 4)))"
    and "ra_watchlist_count s + unat (wa_addr_count (dec_ra_watchlist_append_t (sub_bytes buf 6 4)))
           \<le> RA_MAX_WATCH_ADDRS"
  shows "ra_parse_response buf s = None"
  by (rule parse_append_overread [OF assms(1) refl assms(2,3) refl assms(4,5,6)])

theorem append_overreads_buffer_witness:
  "ra_parse_response ([0xAE, 0, 0x0B, 0, 0, 0] @ [0, 1, 2, 6] @ replicate 2070 0) wl_init = None"
  by (rule append_overreads_buffer) (simp_all add: sub_bytes_def dec_ra_esp_header_t_def
      dec_ra_watchlist_append_t_def be16_def wl_init_def)

end
