(* ===== verification/RA_Serve.thy ===== *)
theory RA_Serve
  imports RA_Fire
begin

text \<open>
  The chunked watchlist fetch of \<open>ra-module/main.c\<close> against an adapter that serves a list
  the way \<open>gc_ra_protocol.h\<close> lays it out: every chunk passes the checks, and the fetched
  list is the served list. The chunk responses are built here from the structures of the
  protocol; the adapter itself is not part of the repository.
\<close>

section \<open>Fetching from an adapter that serves the list\<close>

text \<open>The response to a chunk request: pad, header, chunk header, addresses, checksum.\<close>

definition chunk_body :: "u16 \<Rightarrow> u32 list \<Rightarrow> bool \<Rightarrow> bytes" where
  "chunk_body k as lst =
     enc_ra_esp_header_t \<lparr> eh_magic = RA_MAGIC_ESP_TO_GC, eh_status = 6, eh_event_type = 0,
       eh_event_count = 0, eh_data_len = of_nat (6 + 4 * length as) \<rparr>
     @ enc_ra_watchlist_chunk_t \<lparr> wc_chunk_index = k, wc_addr_count = of_nat (length as),
         wc_is_last = (if lst then 1 else 0), wc_reserved = 0 \<rparr>
     @ concat (map put_be32 as)"

definition chunk_response :: "u16 \<Rightarrow> u32 list \<Rightarrow> bool \<Rightarrow> bytes" where
  "chunk_response k as lst =
     (let rx = replicate CHUNK_PAD 0xFF @ chunk_body k as lst @ put_be32 (ra_crc32 (chunk_body k as lst))
      in rx @ replicate (CHUNK_RX_SIZE - length rx) 0)"

lemma length_chunk_body: "length (chunk_body k as lst) = 12 + 4 * length as"
  by (simp add: chunk_body_def be32_codec.length_concat_enc ra_esp_header_t_codec.length_enc
      ra_watchlist_chunk_t_codec.length_enc)

lemma chunk_response_accepted:
  assumes n: "length as \<le> RA_WATCHLIST_CHUNK_ADDRS"
  shows "watchlist_chunk_check (chunk_response k as lst) k
      = Inr \<lparr> wc_chunk_index = k, wc_addr_count = of_nat (length as),
              wc_is_last = (if lst then 1 else 0), wc_reserved = 0 \<rparr>"
    and "chunk_addrs (chunk_response k as lst) (length as) = as"
proof -
  let ?ch = "\<lparr> wc_chunk_index = k, wc_addr_count = of_nat (length as),
              wc_is_last = (if lst then 1 else 0), wc_reserved = 0 \<rparr>"
  let ?h = "\<lparr> eh_magic = RA_MAGIC_ESP_TO_GC, eh_status = 6, eh_event_type = 0,
       eh_event_count = 0, eh_data_len = of_nat (6 + 4 * length as) \<rparr>"
  let ?rx = "chunk_response k as lst" and ?b = "chunk_body k as lst"
  let ?pad = "replicate (CHUNK_RX_SIZE - (6 + length ?b + 4)) 0 :: bytes"
  have rx: "?rx = replicate 6 0xFF @ ?b @ put_be32 (ra_crc32 ?b) @ ?pad"
    by (simp add: chunk_response_def Let_def)
  have "?rx = replicate 6 0xFF @ enc_ra_esp_header_t ?h
      @ (enc_ra_watchlist_chunk_t ?ch @ concat (map put_be32 as) @ put_be32 (ra_crc32 ?b) @ ?pad)"
    unfolding rx by (simp add: chunk_body_def)
  then have "sub_bytes ?rx CHUNK_PAD 6 = enc_ra_esp_header_t ?h"
    by (simp only:) (rule sub_bytes_mid, simp_all only: length_replicate length_enc_ra_esp_header_t)
  moreover have "?rx = (replicate 6 0xFF @ enc_ra_esp_header_t ?h) @ enc_ra_watchlist_chunk_t ?ch
      @ (concat (map put_be32 as) @ put_be32 (ra_crc32 ?b) @ ?pad)"
    unfolding rx by (simp add: chunk_body_def)
  then have "sub_bytes ?rx (CHUNK_PAD + 6) 6 = enc_ra_watchlist_chunk_t ?ch"
    by (simp only:) (rule sub_bytes_mid,
      simp_all only: length_append length_replicate length_enc_ra_esp_header_t length_enc_ra_watchlist_chunk_t)
  moreover have "unat (of_nat (length as) :: u16) = length as" using n by (simp add: unat_of_nat_u16)
  moreover have "sub_bytes ?rx CHUNK_PAD (12 + length as * 4) = ?b"
    unfolding rx by (rule sub_bytes_mid) (simp_all add: length_chunk_body)
  moreover have "sub_bytes ?rx (CHUNK_PAD + (12 + length as * 4)) 4 = put_be32 (ra_crc32 ?b)"
  proof -
    have "?rx = (replicate 6 0xFF @ ?b) @ put_be32 (ra_crc32 ?b) @ ?pad" by (simp only: rx append_assoc)
    then show ?thesis
      by (simp only:) (rule sub_bytes_mid, simp_all add: length_chunk_body)
  qed
  ultimately show "watchlist_chunk_check ?rx k = Inr ?ch"
    using n by (simp add: watchlist_chunk_check_def Let_def ra_esp_header_t_codec.dec_enc
        ra_watchlist_chunk_t_codec.dec_enc)
  show "chunk_addrs ?rx (length as) = as"
  proof (rule nth_equalityI)
    fix i assume "i < length (chunk_addrs ?rx (length as))"
    then have i: "i < length as" by (simp add: chunk_addrs_def)
    let ?pre = "replicate 6 0xFF @ enc_ra_esp_header_t ?h @ enc_ra_watchlist_chunk_t ?ch"
    let ?post = "put_be32 (ra_crc32 ?b) @ ?pad"
    have e: "?rx = ?pre @ concat (map put_be32 as) @ ?post"
      unfolding rx by (simp add: chunk_body_def)
    have "map_option be32 (rd_block ?rx (18 + i * 4) 4) = Some (as ! i)"
      unfolding e using i by (intro be32_codec.read_array_at)
        (simp_all add: ra_esp_header_t_codec.length_enc ra_watchlist_chunk_t_codec.length_enc)
    then have "be32 (sub_bytes ?rx (18 + i * 4) 4) = as ! i"
      by (auto simp: rd_block_def sub_bytes_def split: if_splits)
    then show "chunk_addrs ?rx (length as) ! i = as ! i" using i by (simp add: chunk_addrs_def)
  qed (simp add: chunk_addrs_def)
qed

text \<open>Chunk \<open>k\<close> of a list, and an adapter that answers every request with it.\<close>

definition list_chunk :: "u32 list \<Rightarrow> nat \<Rightarrow> u32 list" where
  "list_chunk xs k = take RA_WATCHLIST_CHUNK_ADDRS (drop (RA_WATCHLIST_CHUNK_ADDRS * k) xs)"

definition serves_list :: "'w ra_link \<Rightarrow> u32 list \<Rightarrow> bool" where
  "serves_list L xs \<longleftrightarrow> (\<forall>k w. k < 32 \<longrightarrow>
     fst (lk_phase_b L (watchlist_chunk_request (of_nat k)) CHUNK_RX_SIZE w)
       = (0, chunk_response (of_nat k) (list_chunk xs k) (length xs \<le> RA_WATCHLIST_CHUNK_ADDRS * (k + 1))))"

lemma fetch_once_served:
  assumes p: "lk_phase_b L (watchlist_chunk_request k) CHUNK_RX_SIZE w = ((0, chunk_response k as lst), w1)"
    and n: "length as \<le> RA_WATCHLIST_CHUNK_ADDRS"
  shows "ra_fetch_watchlist_chunk_once L k s w = (if lst then 1 else 0, wl_push as s, w1)"
proof -
  have u: "unat (of_nat (length as) :: u16) = length as" using n by (simp add: unat_of_nat_u16)
  show ?thesis
    unfolding ra_fetch_watchlist_chunk_once_def p prod.case chunk_response_accepted(1) [OF n] sum.case
      ra_watchlist_chunk_t.select_convs u chunk_response_accepted(2) [OF n]
    by (cases lst) simp_all
qed

lemma fetch_chunk_served:
  assumes "serves_list L xs" and "k < 32"
  shows "\<exists>w'. ra_fetch_watchlist_chunk L (of_nat k) s w
    = (if length xs \<le> RA_WATCHLIST_CHUNK_ADDRS * (k + 1) then 1 else 0, wl_push (list_chunk xs k) s, w')"
proof -
  let ?r = "lk_phase_b L (watchlist_chunk_request (of_nat k)) CHUNK_RX_SIZE w"
  have f: "fst ?r = (0, chunk_response (of_nat k) (list_chunk xs k)
      (length xs \<le> RA_WATCHLIST_CHUNK_ADDRS * (k + 1)))"
    using assms unfolding serves_list_def by blast
  have p: "?r = ((0, chunk_response (of_nat k) (list_chunk xs k)
      (length xs \<le> RA_WATCHLIST_CHUNK_ADDRS * (k + 1))), snd ?r)"
    by (simp only: f [symmetric] prod.collapse)
  have n: "length (list_chunk xs k) \<le> RA_WATCHLIST_CHUNK_ADDRS" by (simp add: list_chunk_def)
  note o = fetch_once_served [OF p n, of s]
  show ?thesis
    unfolding ra_fetch_watchlist_chunk_def by (simp add: numeral_3_eq_3 o)
qed

lemma list_chunk_append:
  "take (RA_WATCHLIST_CHUNK_ADDRS * k) xs @ list_chunk xs k = take (RA_WATCHLIST_CHUNK_ADDRS * (k + 1)) xs"
  by (simp add: list_chunk_def take_add [symmetric] add.commute)

lemma watchlist_chunks_served:
  assumes sv: "serves_list L xs" and cap: "length xs \<le> RA_MAX_WATCH_ADDRS"
  shows "k + n = 32 \<Longrightarrow> length xs < RA_WATCHLIST_CHUNK_ADDRS * 32 \<Longrightarrow> (k = 0 \<or> RA_WATCHLIST_CHUNK_ADDRS * k < length xs) \<Longrightarrow> wl_inv s \<Longrightarrow>
    wl s = take (RA_WATCHLIST_CHUNK_ADDRS * k) xs \<Longrightarrow>
    \<exists>t w'. watchlist_chunks L (of_nat k) n s w = (0, t, w') \<and> wl t = xs"
proof (induction n arbitrary: k s w)
  case 0
  then show ?case by auto
next
  case (Suc n)
  let ?t = "wl_push (list_chunk xs k) s"
  have "k < 32" using Suc.prems(1) by simp
  then obtain w1 where f: "ra_fetch_watchlist_chunk L (of_nat k) s w
      = (if length xs \<le> RA_WATCHLIST_CHUNK_ADDRS * (k + 1) then 1 else 0, ?t, w1)"
    using fetch_chunk_served [OF sv] by blast
  have t: "wl_inv ?t" "wl ?t = take (RA_WATCHLIST_CHUNK_ADDRS * (k + 1)) xs"
    using wl_push_spec [OF Suc.prems(4), of "list_chunk xs k"] Suc.prems(5) list_chunk_append [of k xs] cap
    by (simp_all add: min_def)
  show ?case
  proof (cases "length xs \<le> RA_WATCHLIST_CHUNK_ADDRS * (k + 1)")
    case True
    then show ?thesis using f t by simp
  next
    case False
    have "(of_nat k + 1 :: u16) = of_nat (Suc k)" by (simp add: add.commute)
    moreover have "\<exists>t' w'. watchlist_chunks L (of_nat (Suc k)) n ?t w1 = (0, t', w') \<and> wl t' = xs"
      using False t Suc.prems by (intro Suc.IH) simp_all
    ultimately show ?thesis using f False by (simp only: watchlist_chunks.simps) simp
  qed
qed

lemma fetch_watchlist_served:
  assumes "serves_list L xs" and "length xs \<le> RA_MAX_WATCH_ADDRS" and "wl_inv s"
  shows "\<exists>t w'. ra_fetch_watchlist L s w = (0, t, w') \<and> wl_inv t \<and> wl t = xs"
proof -
  have "\<exists>t w'. watchlist_chunks L (of_nat 0) 32 (s\<lparr> ra_watchlist_count := 0 \<rparr>) w = (0, t, w') \<and> wl t = xs"
    using assms(2,3) by (intro watchlist_chunks_served [OF assms(1,2)]) (simp_all add: wl_inv_def wl_def)
  then obtain t w' where f: "ra_fetch_watchlist L s w = (0, t, w')" "wl t = xs"
    by (auto simp: ra_fetch_watchlist_def)
  then show ?thesis using fetch_watchlist_keeps [OF assms(3) f(1)] by blast
qed

section \<open>Properties\<close>

text \<open>
  C17. Fetching the watchlist from an adapter that serves a list of at most 6144 addresses in
  chunks of 1024, in the layout of the protocol and with its checksum, succeeds and leaves
  exactly that list, whatever was in the list before.
\<close>

theorem fetch_watchlist_roundtrip:
  assumes "serves_list L xs" and "length xs \<le> RA_MAX_WATCH_ADDRS" and "wl_inv s"
  shows "\<exists>t w'. ra_fetch_watchlist L s w = (0, t, w') \<and> wl_inv t \<and> wl t = xs"
  using assms by (rule fetch_watchlist_served)

text \<open>An adapter with two addresses.\<close>

definition demo_server :: "unit ra_link" where
  "demo_server = dead_link\<lparr> lk_phase_b := (\<lambda>tx n w. ((0, chunk_response (be16 (drop 4 tx))
     (list_chunk [0x100, 0x204] (unat (be16 (drop 4 tx)))) True), w)) \<rparr>"

lemma demo_server_serves: "serves_list demo_server [0x100, 0x204]"
proof -
  have "unat (of_nat k :: u16) = k" if "k < 32" for k using that by (simp add: unat_of_nat_u16)
  then show ?thesis
    unfolding serves_list_def demo_server_def
    by (simp add: watchlist_chunk_request_def be16_codec.dec_enc)
qed

theorem fetch_watchlist_roundtrip_witness:
  "\<exists>t w'. ra_fetch_watchlist demo_server wl_init () = (0, t, w') \<and> wl_inv t \<and> wl t = [0x100, 0x204]"
  by (rule fetch_watchlist_roundtrip [OF demo_server_serves _ wl_init_inv]) simp

end
