(* ===== verification/RA_Sync.thy ===== *)
theory RA_Sync
  imports RA_Watchlist
begin

text \<open>
  Keeping the two copies of the watchlist aligned. The adapter numbers its mutations;
  the console applies a mutation only when its number is the next one and echoes the
  number it has reached in every snapshot. The locale \<open>seq_replica\<close> states what such a
  replica promises for one delivery; inside it, any sequence of deliveries
  (duplicated, reordered, repeated) is shown to leave the replica at a prefix of the
  adapter's history, and a redelivery in order to bring it up to date. The
  interpretation at the end discharges the contract for \<open>ra_parse_response\<close> on the bytes
  the adapter sends.
\<close>

section \<open>Replicas that follow a numbered log\<close>

fun replay :: "('m \<Rightarrow> 'v \<Rightarrow> 'v) \<Rightarrow> 'v \<Rightarrow> 'm list \<Rightarrow> 'v" where
  "replay app x [] = x"
| "replay app x (m # ms) = replay app (app m x) ms"

lemma replay_append: "replay app x (ms @ ns) = replay app (replay app x ms) ns"
  by (induction ms arbitrary: x) simp_all

definition valid_log :: "('m \<Rightarrow> 'v \<Rightarrow> 'v) \<Rightarrow> ('m \<Rightarrow> 'v \<Rightarrow> bool) \<Rightarrow> 'v \<Rightarrow> 'm list \<Rightarrow> bool" where
  "valid_log app ok x log \<longleftrightarrow> (\<forall>k < length log. ok (log ! k) (replay app x (take k log)))"

text \<open>Delivering the log entries with the given positions, in the given order; entry \<open>j\<close>
  carries the number \<open>base + j + 1\<close>.\<close>

fun deliveries :: "(u16 \<Rightarrow> 'm \<Rightarrow> 's \<Rightarrow> 's option) \<Rightarrow> u16 \<Rightarrow> 'm list \<Rightarrow> nat list \<Rightarrow> 's \<Rightarrow> 's option" where
  "deliveries deliver base log [] s = Some s"
| "deliveries deliver base log (j # js) s =
     do { t \<leftarrow> deliver (base + of_nat (Suc j)) (log ! j) s; deliveries deliver base log js t }"

lemma deliveries_append:
  "deliveries d base log (js @ ks) s
     = do { t \<leftarrow> deliveries d base log js s; deliveries d base log ks t }"
proof (induction js arbitrary: s)
  case (Cons j js)
  then show ?case by (cases "d (base + of_nat (Suc j)) (log ! j) s") simp_all
qed simp

lemma of_nat_u16_inject:
  "j < 65536 \<Longrightarrow> k < 65536 \<Longrightarrow> (of_nat j :: u16) = of_nat k \<longleftrightarrow> j = k"
  by (metis unat_of_nat_u16)

locale seq_replica =
  fixes view :: "'s \<Rightarrow> 'v" and echo :: "'s \<Rightarrow> u16" and inv :: "'s \<Rightarrow> bool"
    and app :: "'m \<Rightarrow> 'v \<Rightarrow> 'v" and ok :: "'m \<Rightarrow> 'v \<Rightarrow> bool"
    and deliver :: "u16 \<Rightarrow> 'm \<Rightarrow> 's \<Rightarrow> 's option"
  assumes in_order: "inv s \<Longrightarrow> ok m (view s) \<Longrightarrow>
      \<exists>t. deliver (echo s + 1) m s = Some t \<and> inv t \<and> view t = app m (view s) \<and> echo t = echo s + 1"
    and out_of_order: "q \<noteq> echo s + 1 \<Longrightarrow> deliver q m s = Some s"
begin

definition at_prefix :: "u16 \<Rightarrow> 'v \<Rightarrow> 'm list \<Rightarrow> nat \<Rightarrow> 's \<Rightarrow> bool" where
  "at_prefix base x log k s \<longleftrightarrow>
     inv s \<and> k \<le> length log \<and> echo s = base + of_nat k \<and> view s = replay app x (take k log)"

lemma deliver_step:
  assumes "valid_log app ok x log" and "length log < 65536" and "at_prefix base x log k s"
    and "j < length log"
  shows "\<exists>t. deliver (base + of_nat (Suc j)) (log ! j) s = Some t
    \<and> at_prefix base x log (if j = k then Suc k else k) t"
proof (cases "j = k")
  case True
  then have okm: "ok (log ! j) (view s)" using assms by (simp add: valid_log_def at_prefix_def)
  have inv: "inv s" using assms(3) by (simp add: at_prefix_def)
  have e: "base + of_nat (Suc j) = echo s + 1" using assms(3) True by (simp add: at_prefix_def)
  from in_order [OF inv okm] obtain t where t: "deliver (base + of_nat (Suc j)) (log ! j) s = Some t"
    "inv t" "view t = app (log ! j) (view s)" "echo t = base + of_nat (Suc j)"
    unfolding e by blast
  then show ?thesis using True assms(3,4)
    by (auto simp: at_prefix_def take_Suc_conv_app_nth replay_append simp del: of_nat_Suc)
next
  case False
  have "k \<le> length log" using assms(3) by (simp add: at_prefix_def)
  then have "(of_nat (Suc j) :: u16) \<noteq> of_nat k + 1"
    using of_nat_u16_inject [of j k] assms(2,4) False by simp
  then have "base + of_nat (Suc j) \<noteq> echo s + 1"
    using assms(3) by (simp add: at_prefix_def add.assoc)
  then show ?thesis using out_of_order False assms(3) by auto
qed

lemma any_order:
  assumes "valid_log app ok x log" and "length log < 65536"
    and "at_prefix base x log k s" and "\<forall>j \<in> set js. j < length log"
  shows "\<exists>t l. deliveries deliver base log js s = Some t \<and> at_prefix base x log l t \<and> k \<le> l"
  using assms(3,4)
proof (induction js arbitrary: s k)
  case (Cons j js)
  obtain t where t: "deliver (base + of_nat (Suc j)) (log ! j) s = Some t"
    "at_prefix base x log (if j = k then Suc k else k) t"
    using deliver_step [OF assms(1,2) Cons.prems(1), of j] Cons.prems(2) by (auto simp del: of_nat_Suc)
  obtain u l where "deliveries deliver base log js t = Some u" "at_prefix base x log l u"
    "(if j = k then Suc k else k) \<le> l"
    using Cons.IH [OF t(2)] Cons.prems(2) by auto
  then show ?case using t(1) by (auto split: if_splits)
qed auto

lemma redelivery:
  assumes "valid_log app ok x log" and "length log < 65536" and "at_prefix base x log k s"
  shows "n \<le> length log \<Longrightarrow>
    \<exists>t l. deliveries deliver base log [0..<n] s = Some t \<and> at_prefix base x log l t \<and> max n k \<le> l"
proof (induction n)
  case 0
  then show ?case using assms(3) by auto
next
  case (Suc n)
  then obtain t l where t: "deliveries deliver base log [0..<n] s = Some t"
    "at_prefix base x log l t" "max n k \<le> l" by auto
  obtain u where u: "deliver (base + of_nat (Suc n)) (log ! n) t = Some u"
    "at_prefix base x log (if n = l then Suc l else l) u"
    using deliver_step [OF assms(1,2) t(2), of n] Suc.prems by (auto simp del: of_nat_Suc)
  have "deliveries deliver base log [0..<Suc n] s = Some u"
    using t(1) u(1) by (simp add: deliveries_append)
  then show ?case using u(2) t(3) by (auto split: if_splits)
qed

lemma caught_up:
  assumes "valid_log app ok x log" and "length log < 65536" and "at_prefix base x log k s"
    and "\<forall>j \<in> set js. j < length log"
  shows "\<exists>t. deliveries deliver base log (js @ [0..<length log]) s = Some t
    \<and> inv t \<and> view t = replay app x log \<and> echo t = base + of_nat (length log)"
proof -
  obtain t l where t: "deliveries deliver base log js s = Some t" "at_prefix base x log l t"
    using any_order [OF assms] by auto
  obtain u m where u: "deliveries deliver base log [0..<length log] t = Some u"
    "at_prefix base x log m u" "max (length log) l \<le> m"
    using redelivery [OF assms(1,2) t(2) order_refl] by blast
  have "m = length log" using u(2,3) by (simp add: at_prefix_def)
  with t(1) u(1,2) show ?thesis by (simp add: deliveries_append at_prefix_def)
qed

end

section \<open>The mutations of the protocol\<close>

datatype mutation = MAppend "u32 list" | MRemove "nat list"

fun mut_apply :: "mutation \<Rightarrow> u32 list \<Rightarrow> u32 list" where
  "mut_apply (MAppend as) xs = xs @ as"
| "mut_apply (MRemove is) xs = remove_at is xs"

text \<open>What the adapter may emit on a list: an append of 1 to 512 addresses that fits, or
  the removal of 1 to 256 positions, ascending and in range.\<close>

fun mut_ok :: "mutation \<Rightarrow> u32 list \<Rightarrow> bool" where
  "mut_ok (MAppend as) xs \<longleftrightarrow>
     as \<noteq> [] \<and> length as \<le> RA_ADDR_QUERY_MAX \<and> length xs + length as \<le> RA_MAX_WATCH_ADDRS"
| "mut_ok (MRemove is) xs \<longleftrightarrow>
     is \<noteq> [] \<and> length is \<le> 256 \<and> sorted_wrt (<) is \<and> (\<forall>i \<in> set is. i < length xs)"

definition resp_header :: "ra_esp_event_t \<Rightarrow> nat \<Rightarrow> bytes" where
  "resp_header e n = enc_ra_esp_header_t
     \<lparr> eh_magic = RA_MAGIC_ESP_TO_GC, eh_status = 7, eh_event_type = evt_code e,
       eh_event_count = 1, eh_data_len = of_nat n \<rparr>"

fun mut_body :: "u16 \<Rightarrow> mutation \<Rightarrow> bytes" where
  "mut_body q (MAppend as) =
     resp_header RA_EVT_WATCHLIST_APPEND (4 + 4 * length as)
     @ enc_ra_watchlist_append_t \<lparr> wa_seq = q, wa_addr_count = of_nat (length as) \<rparr>
     @ concat (map put_be32 as)"
| "mut_body q (MRemove is) =
     resp_header RA_EVT_WATCHLIST_REMOVE_IDX (4 + 2 * length is)
     @ enc_ra_watchlist_remove_idx_t \<lparr> wri_seq = q, wri_idx_count = of_nat (length is) \<rparr>
     @ concat (map put_be16 (map of_nat is))"

text \<open>The receive buffer: cleared, then filled with the response.\<close>

definition rx_buffer :: "bytes \<Rightarrow> bytes" where
  "rx_buffer body = body @ replicate (RA_SNAP_RX_BUF_SZ - length body) 0"

definition mut_deliver :: "u16 \<Rightarrow> mutation \<Rightarrow> wl_state \<Rightarrow> wl_state option" where
  "mut_deliver q m s = ra_parse_response (rx_buffer (mut_body q m)) s"

section \<open>The parser is such a replica\<close>

lemma length_resp_header [simp]: "length (resp_header e n) = 6"
  by (simp add: resp_header_def)

lemma rd_resp_header:
  "rd_struct dec_ra_esp_header_t 6 (resp_header e n @ rest) 0 = Some
     \<lparr> eh_magic = RA_MAGIC_ESP_TO_GC, eh_status = 7, eh_event_type = evt_code e,
       eh_event_count = 1, eh_data_len = of_nat n \<rparr>"
  using ra_esp_header_t_codec.read_at [of 0 "[]" _ rest]
  by (simp add: rd_struct_def resp_header_def)

lemma parse_dispatch:
  "ra_parse_response (resp_header RA_EVT_WATCHLIST_APPEND n @ rest) s
     = parse_append (resp_header RA_EVT_WATCHLIST_APPEND n @ rest) s"
  "ra_parse_response (resp_header RA_EVT_WATCHLIST_REMOVE_IDX n @ rest) s
     = parse_remove_idx (resp_header RA_EVT_WATCHLIST_REMOVE_IDX n @ rest) s"
  "ra_parse_response (resp_header RA_EVT_ADDR_QUERY n @ rest) s
     = parse_addr_query (resp_header RA_EVT_ADDR_QUERY n @ rest) s"
  by (simp_all add: ra_parse_response_def rd_resp_header)

lemma rd_append_struct:
  "rd_struct dec_ra_watchlist_append_t 4 (resp_header e n @ enc_ra_watchlist_append_t x @ rest) 6 = Some x"
  using ra_watchlist_append_t_codec.read_at [of 6 "resp_header e n"] by (simp add: rd_struct_def)

lemma rd_remove_struct:
  "rd_struct dec_ra_watchlist_remove_idx_t 4 (resp_header e n @ enc_ra_watchlist_remove_idx_t x @ rest) 6
     = Some x"
  using ra_watchlist_remove_idx_t_codec.read_at [of 6 "resp_header e n"] by (simp add: rd_struct_def)

lemma parse_append_next:
  assumes inv: "wl_inv s" and ok: "mut_ok (MAppend as) (wl s)" and q: "q = ra_wl_seq s + 1"
  shows "\<exists>t. ra_parse_response (mut_body q (MAppend as) @ post) s = Some t \<and> wl_inv t
    \<and> wl t = wl s @ as \<and> ra_wl_seq t = q"
proof -
  let ?buf = "mut_body q (MAppend as) @ post"
  let ?pre = "resp_header RA_EVT_WATCHLIST_APPEND (4 + 4 * length as)
    @ enc_ra_watchlist_append_t \<lparr> wa_seq = q, wa_addr_count = of_nat (length as) \<rparr>"
  have n: "unat (of_nat (length as) :: u16) = length as" using ok by (simp add: unat_of_nat_u16)
  have fit: "ra_watchlist_count s + length as \<le> RA_MAX_WATCH_ADDRS"
    using ok length_wl [OF inv] by simp
  have arr: "rd_arr rd32 4 ?buf 10 (length as) = Some as"
    using rd_arr_be32 [of 10 ?pre as post] by simp
  have "ra_parse_response ?buf s = Some (s\<lparr>
      ra_watchlist := store_seq (ra_watchlist s) (ra_watchlist_count s) as,
      ra_watchlist_count := ra_watchlist_count s + length as, ra_wl_seq := q \<rparr>)" (is "_ = Some ?t")
    using ok arr fit q n by (simp add: parse_dispatch parse_append_def rd_append_struct)
  moreover from this have "wl_inv ?t" using parse_response_inv [OF inv] by blast
  moreover have "wl ?t = wl s @ as" using wl_store_seq [OF inv fit] by (simp add: wl_def)
  ultimately show ?thesis by auto
qed

lemma parse_remove_next:
  assumes inv: "wl_inv s" and ok: "mut_ok (MRemove is) (wl s)" and q: "q = ra_wl_seq s + 1"
  shows "\<exists>t. ra_parse_response (mut_body q (MRemove is) @ post) s = Some t \<and> wl_inv t
    \<and> wl t = remove_at is (wl s) \<and> ra_wl_seq t = q"
proof -
  let ?buf = "mut_body q (MRemove is) @ post"
  let ?pre = "resp_header RA_EVT_WATCHLIST_REMOVE_IDX (4 + 2 * length is)
    @ enc_ra_watchlist_remove_idx_t \<lparr> wri_seq = q, wri_idx_count = of_nat (length is) \<rparr>"
  let ?c = "ra_watchlist_count s"
  have n: "unat (of_nat (length is) :: u16) = length is" using ok by (simp add: unat_of_nat_u16)
  have c: "?c \<le> length (ra_watchlist s)" "length (wl s) = ?c" "?c \<le> RA_MAX_WATCH_ADDRS"
    using inv by (simp_all add: wl_inv_def wl_def)
  have small: "unat (of_nat (is ! j) :: u16) = is ! j" if "j < length is" for j
  proof -
    have "is ! j < length (wl s)" using ok that by simp
    then show ?thesis using c by (simp add: unat_of_nat_u16)
  qed
  have rdi: "map_option unat (rd16 ?buf (10 + j * 2)) = Some (is ! j)" if "j < length is" for j
  proof -
    have "rd16 ?buf (10 + j * 2) = Some (of_nat (is ! j))"
      using be16_codec.read_array_at [of "10 + j * 2" ?pre j "map of_nat is" post] that
      by (simp add: rd16_def)
    then show ?thesis using small [OF that] by simp
  qed
  have "length is \<le> ?c"
  proof -
    have "distinct is" using ok by (auto simp: strict_sorted_iff)
    then have "length is = card (set is)" by (simp add: distinct_card)
    also have "\<dots> \<le> card {0..<?c}" using ok c(2) by (intro card_mono) auto
    finally show ?thesis by simp
  qed
  moreover obtain wr arr where rl: "remove_loop ?buf (length is) 0 ?c 0 0 (ra_watchlist s) = Some (wr, arr)"
    "take wr arr = map ((!) (ra_watchlist s)) (filter (\<lambda>j. j \<notin> set is) [0..<?c])"
    using remove_loop_spec [of "is" "length is" ?buf 0 0 ?c "ra_watchlist s" 0] rdi ok c(1) by auto
  ultimately have "ra_parse_response ?buf s
      = Some (s\<lparr> ra_watchlist := arr, ra_watchlist_count := wr, ra_wl_seq := q \<rparr>)" (is "_ = Some ?t")
    using ok q n by (simp add: parse_dispatch parse_remove_idx_def rd_remove_struct)
  moreover from this have "wl_inv ?t" using parse_response_inv [OF inv] by blast
  moreover have "wl ?t = remove_at is (wl s)"
    using rl(2) c(1,2) by (auto simp: wl_def remove_at_def intro!: map_cong)
  ultimately show ?thesis by auto
qed

lemma parse_mut_skip:
  assumes "q \<noteq> ra_wl_seq s + 1"
  shows "ra_parse_response (mut_body q m @ post) s = Some s"
  using assms
  by (cases m) (simp_all add: parse_dispatch parse_append_def parse_remove_idx_def
      rd_append_struct rd_remove_struct)

interpretation wl_replica: seq_replica wl ra_wl_seq wl_inv mut_apply mut_ok mut_deliver
proof
  fix s m assume inv: "wl_inv s" and ok: "mut_ok m (wl s)"
  show "\<exists>t. mut_deliver (ra_wl_seq s + 1) m s = Some t \<and> wl_inv t \<and> wl t = mut_apply m (wl s)
      \<and> ra_wl_seq t = ra_wl_seq s + 1"
  proof (cases m)
    case (MAppend as)
    then show ?thesis using parse_append_next [OF inv, of as] ok
      by (simp add: mut_deliver_def rx_buffer_def del: mut_body.simps)
  next
    case (MRemove "is")
    then show ?thesis using parse_remove_next [OF inv, of "is"] ok
      by (simp add: mut_deliver_def rx_buffer_def del: mut_body.simps)
  qed
next
  fix q m and s :: wl_state assume "q \<noteq> ra_wl_seq s + 1"
  then show "mut_deliver q m s = Some s" by (simp add: mut_deliver_def rx_buffer_def parse_mut_skip)
qed

section \<open>Properties\<close>

text \<open>
  C2. The console's watchlist follows the adapter's history: when the numbered mutations of a
  valid history are delivered in any order, with any repetitions and losses, no delivery is
  misread, and the list is always the result of the first mutations of the history, as many as
  the sequence number echoed in the snapshots says.
\<close>

theorem replica_follows_prefix:
  assumes "valid_log mut_apply mut_ok (wl s) log" and "length log < 65536" and "wl_inv s"
    and "\<forall>j \<in> set js. j < length log"
  shows "\<exists>t k. deliveries mut_deliver (ra_wl_seq s) log js s = Some t \<and> k \<le> length log \<and> wl_inv t
    \<and> ra_wl_seq t = ra_wl_seq s + of_nat k \<and> wl t = replay mut_apply (wl s) (take k log)"
proof -
  have "wl_replica.at_prefix (ra_wl_seq s) (wl s) log 0 s"
    using assms(3) by (simp add: wl_replica.at_prefix_def)
  from wl_replica.any_order [OF assms(1,2) this assms(4)] show ?thesis
    by (auto simp: wl_replica.at_prefix_def)
qed

theorem replica_follows_prefix_witness:
  "\<exists>t k. deliveries mut_deliver (ra_wl_seq wl_init) [MAppend [8, 9], MRemove [0]] [1, 0, 0] wl_init = Some t
    \<and> k \<le> length [MAppend [8, 9], MRemove [0]] \<and> wl_inv t \<and> ra_wl_seq t = ra_wl_seq wl_init + of_nat k
    \<and> wl t = replay mut_apply (wl wl_init) (take k [MAppend [8, 9], MRemove [0]])"
proof (rule replica_follows_prefix [OF _ _ wl_init_inv])
  show "valid_log mut_apply mut_ok (wl wl_init) [MAppend [8, 9], MRemove [0]]"
    by (simp add: valid_log_def All_less_Suc2 wl_def wl_init_def)
qed simp_all

text \<open>
  C3. Redelivery in order repairs every loss: after any deliveries whatsoever, delivering the
  history once more from its start leaves the console with exactly the adapter's list, and
  echoing the number of its last mutation.
\<close>

theorem replica_catches_up:
  assumes "valid_log mut_apply mut_ok (wl s) log" and "length log < 65536" and "wl_inv s"
    and "\<forall>j \<in> set js. j < length log"
  shows "\<exists>t. deliveries mut_deliver (ra_wl_seq s) log (js @ [0..<length log]) s = Some t
    \<and> wl_inv t \<and> wl t = replay mut_apply (wl s) log \<and> ra_wl_seq t = ra_wl_seq s + of_nat (length log)"
proof -
  have "wl_replica.at_prefix (ra_wl_seq s) (wl s) log 0 s"
    using assms(3) by (simp add: wl_replica.at_prefix_def)
  from wl_replica.caught_up [OF assms(1,2) this assms(4)] show ?thesis .
qed

theorem replica_catches_up_witness:
  "\<exists>t. deliveries mut_deliver (ra_wl_seq wl_init) [MAppend [8, 9], MRemove [0]]
         ([1, 0, 0] @ [0..<length [MAppend [8, 9], MRemove [0]]]) wl_init = Some t
    \<and> wl_inv t \<and> wl t = replay mut_apply (wl wl_init) [MAppend [8, 9], MRemove [0]]
    \<and> ra_wl_seq t = ra_wl_seq wl_init + of_nat (length [MAppend [8, 9], MRemove [0]])"
proof (rule replica_catches_up [OF _ _ wl_init_inv])
  show "valid_log mut_apply mut_ok (wl wl_init) [MAppend [8, 9], MRemove [0]]"
    by (simp add: valid_log_def All_less_Suc2 wl_def wl_init_def)
qed simp_all

end
