(* ===== verification/RA_Main.thy ===== *)
theory RA_Main
  imports RA_Fire
begin

text \<open>
  The poll thread of \<open>ra-module/main.c\<close>: the silent wait for a running game, the start-up
  (link, IDENTIFY, watchlist and chain table), and the main loop with its
  vertical-retrace schedule, the celebration pattern of the disc-slot LED and the five
  second diagnostics; and the request loop of the module's device.

  \<open>'w ra_env\<close> is what the thread does besides exchanging messages: sleeping, switching the
  LED, reading and writing words of the game's memory (\<open>en_peek\<close> and \<open>en_poke\<close>, cache
  maintenance included), and the start of the transport. \<open>en_mems\<close> is the game's memory
  during a fire. The game runs on the other processor, so nothing is assumed of any of it.
\<close>

record 'w ra_env =
  en_link :: "'w ra_link"
  en_usb :: bool
  en_debug :: bool
  en_sleep :: "nat \<Rightarrow> 'w \<Rightarrow> 'w"
  en_led :: "bool \<Rightarrow> 'w \<Rightarrow> 'w"
  en_peek :: "u32 \<Rightarrow> 'w \<Rightarrow> u32 \<times> 'w"
  en_poke :: "u32 \<Rightarrow> u32 \<Rightarrow> 'w \<Rightarrow> 'w"
  en_usb_init :: "'w \<Rightarrow> s32 \<times> 'w"
  en_exi_init :: "'w \<Rightarrow> 'w"
  en_mems :: "'w \<Rightarrow> nat \<Rightarrow> ppc_mem"

abbreviation (input) RA_VBI_COUNTER_PHYS :: u32 where "RA_VBI_COUNTER_PHYS \<equiv> 0x2FF8"
abbreviation (input) RA_TROPHY_FLAG_PHYS :: u32 where "RA_TROPHY_FLAG_PHYS \<equiv> 0x2FFC"

section \<open>IDENTIFY\<close>

definition ra_identify :: "'w ra_link \<Rightarrow> ra_state \<Rightarrow> 'w \<Rightarrow> s32 \<times> ra_state \<times> 'w" where
  "ra_identify L st w =
     (case lk_send L (ra_fill_header RA_CMD_IDENTIFY 0) 10 w of ((ret, rx), w1) \<Rightarrow>
        if ret < 0 then (ret, st, w1)
        else if eh_magic (dec_ra_esp_header_t (sub_bytes rx 0 6)) \<noteq> RA_MAGIC_ESP_TO_GC then (1, st, w1)
        else (0, if be32 (sub_bytes rx 6 4) = RA_DEVICE_ID then st\<lparr> esp_present := True \<rparr> else st, w1))"

section \<open>Waiting for a running game\<close>

text \<open>The loop has no timeout; \<open>None\<close> is the loop that never ends.\<close>

partial_function (option) wait_alive :: "'w ra_env \<Rightarrow> nat \<Rightarrow> u32 \<Rightarrow> 'w \<Rightarrow> 'w option" where
  "wait_alive E changes prev w =
     (if changes < 4 then
        (case en_peek E RA_VBI_COUNTER_PHYS (en_sleep E 50 w) of (cur, w1) \<Rightarrow>
           if cur \<noteq> prev then wait_alive E (changes + 1) cur w1 else wait_alive E changes prev w1)
      else Some w)"

definition wait_for_game :: "'w ra_env \<Rightarrow> 'w \<Rightarrow> 'w option" where
  "wait_for_game E w = (case en_peek E RA_VBI_COUNTER_PHYS w of (prev, w1) \<Rightarrow> wait_alive E 0 prev w1)"

section \<open>Start-up\<close>

definition blink :: "'w ra_env \<Rightarrow> nat \<Rightarrow> nat \<Rightarrow> 'w \<Rightarrow> 'w" where
  "blink E on off w = en_sleep E off (en_led E False (en_sleep E on (en_led E True w)))"

fun usb_init_tries :: "'w ra_env \<Rightarrow> nat \<Rightarrow> s32 \<Rightarrow> 'w \<Rightarrow> s32 \<times> 'w" where
  "usb_init_tries E 0 ur w = (ur, w)"
| "usb_init_tries E (Suc n) ur w =
     (case en_usb_init E w of (ur', w1) \<Rightarrow>
        if ur' = 0 then (ur', w1) else usb_init_tries E n ur' (en_sleep E 500 w1))"

fun identify_tries :: "'w ra_env \<Rightarrow> nat \<Rightarrow> ra_state \<Rightarrow> 'w \<Rightarrow> ra_state \<times> 'w" where
  "identify_tries E 0 st w = (st, w)"
| "identify_tries E (Suc n) st w =
     (if esp_present st then (st, w)
      else case ra_identify (en_link E) st w of (ret, st1, w1) \<Rightarrow>
        identify_tries E n st1 (if esp_present st1 then w1 else en_sleep E 100 w1))"

definition start_link :: "'w ra_env \<Rightarrow> ra_state \<Rightarrow> 'w \<Rightarrow> ra_state \<times> 'w" where
  "start_link E st w =
     (if en_usb E then
        (case usb_init_tries E 30 (-1) w of (ur, w1) \<Rightarrow>
           let w2 = (if ur \<noteq> 0
                     then en_sleep E 1000 ((blink E 250 250 ^^ (if ur = -4 then 2 else 3)) w1) else w1)
           in identify_tries E 10 st w2)
      else case ra_identify (en_link E) st (en_exi_init E w) of
             (ret, st1, w1) \<Rightarrow> (st1, en_sleep E 100 w1))"

definition start_tables :: "'w ra_env \<Rightarrow> ra_state \<Rightarrow> 'w \<Rightarrow> ra_state \<times> 'w" where
  "start_tables E st w =
     (case ra_fetch_watchlist (en_link E) (rs_wl st) w of (ret, s, w1) \<Rightarrow>
        let st1 = st\<lparr> rs_wl := s \<rparr> in
        if ret < 0 then (st1, (blink E 120 120 ^^ 7) w1)
        else let w2 = en_led E False (en_sleep E 80 (en_led E True (blink E 80 80 w1)))
             in case ra_fetch_chain_table (en_link E) (rs_chain st1) w2 of
                  (c, w3) \<Rightarrow> (st1\<lparr> rs_chain := c \<rparr>, w3))"

text \<open>Everything the poll thread does before its main loop.\<close>

definition poll_start :: "'w ra_env \<Rightarrow> 'w \<Rightarrow> (ra_state \<times> 'w) option" where
  "poll_start E w =
     do { w1 \<leftarrow> wait_for_game E w;
          let w2 = en_led E False (en_sleep E 100 (en_led E True w1));
              (st1, w3) = start_link E ra_init w2
          in Some (start_tables E st1 w3) }"

section \<open>The celebration pattern\<close>

text \<open>The counter, the LED switch it makes, if any, and the trophy flag.\<close>

definition celebrate_led :: "nat \<Rightarrow> bool option" where
  "celebrate_led c = (if c mod 9 = 0 then Some (odd (c div 9)) else None)"

definition trophy_on :: "nat \<Rightarrow> u32" where
  "trophy_on c = (of_nat (c + 8) div 9) AND 1"

definition celebrate_step :: "'w ra_env \<Rightarrow> ra_state \<Rightarrow> 'w \<Rightarrow> ra_state \<times> 'w" where
  "celebrate_step E st w =
     (if ra_led_celebrate (rs_wl st) = 0 then (st, w)
      else let c = ra_led_celebrate (rs_wl st) - 1;
               w1 = (case celebrate_led c of None \<Rightarrow> w | Some on \<Rightarrow> en_led E on w);
               w2 = en_poke E RA_TROPHY_FLAG_PHYS (trophy_on c) w1
           in case en_peek E RA_TROPHY_FLAG_PHYS w2 of (rb, w3) \<Rightarrow>
                (st\<lparr> rs_wl := (rs_wl st)\<lparr> ra_led_celebrate := c \<rparr>, g_tro_last_rb := rb,
                     g_tro_last_w := trophy_on c, g_tro_writes := g_tro_writes st + 1 \<rparr>, w3))"

section \<open>Diagnostics\<close>

definition ra_debug_send :: "'w ra_env \<Rightarrow> bytes \<Rightarrow> 'w \<Rightarrow> 'w" where
  "ra_debug_send E msg w = (if en_debug E then ra_debug_send_always (en_link E) msg w else w)"

record loop_state =
  ml_last_ctr :: u32
  ml_last_fire_tick :: u32
  ml_last_diag_tick :: u32
  ml_fires :: u32
  ml_vbi_fires :: u32

definition vbi_line :: "u32 \<Rightarrow> u32 \<Rightarrow> u32 \<Rightarrow> bytes" where
  "vbi_line ctr fires vbi =
     ascii ''VBI c='' @ ra_dbg_hex_bytes (put_be32 ctr) 0
     @ ascii '' f='' @ ra_dbg_u16_dec (ucast fires) @ ascii '' v='' @ ra_dbg_u16_dec (ucast vbi)"

definition phb_line :: "u32 \<Rightarrow> u32 \<Rightarrow> u32 \<Rightarrow> bytes" where
  "phb_line wait_ms mem1_ms snap_ms =
     ascii ''PHB w='' @ ra_dbg_u16_dec (ucast wait_ms) @ ascii '' m='' @ ra_dbg_u16_dec (ucast mem1_ms)
     @ ascii '' s='' @ ra_dbg_u16_dec (ucast snap_ms)"

definition tro_line :: "u32 \<Rightarrow> u32 \<Rightarrow> u32 \<Rightarrow> bytes" where
  "tro_line n wr rb =
     ascii ''TRO n='' @ ra_dbg_u16_dec (ucast n) @ ascii '' w='' @ ra_dbg_u16_dec (ucast wr)
     @ ascii '' rb='' @ ra_dbg_u16_dec (ucast rb)"

text \<open>The landmarks of the OCAP line, read one after the other.\<close>

fun ocap_words :: "'w ra_env \<Rightarrow> u32 list \<Rightarrow> 'w \<Rightarrow> bytes \<times> 'w" where
  "ocap_words E [] w = ([], w)"
| "ocap_words E (a # as) w =
     (case en_peek E a w of (v, w1) \<Rightarrow>
      case ocap_words E as w1 of (rest, w2) \<Rightarrow>
        (ascii '' '' @ concat (map (\<lambda>b. ra_dbg_hex_bytes [b] 0) (put_be32 v)) @ rest, w2))"

definition diag_step :: "'w ra_env \<Rightarrow> u32 \<Rightarrow> u32 \<Rightarrow> ra_state \<Rightarrow> loop_state \<Rightarrow> 'w \<Rightarrow> loop_state \<times> 'w" where
  "diag_step E ctr now st l w =
     (if vi_ticks_to_us (now - ml_last_diag_tick l) > 5000000 then
        let w1 = ra_debug_send E (vbi_line ctr (ml_fires l) (ml_vbi_fires l)) w;
            w2 = ra_debug_send E
                   (phb_line (lk_wait_ms (en_link E) w1) (g_t_mem1_ms st) (g_t_snap_ms st)) w1;
            w3 = ra_debug_send E (tro_line (g_tro_writes st) (g_tro_last_w st) (g_tro_last_rb st)) w2;
            (words, w4) = ocap_words E [0x1800, 0x22A8, 0x28B8, 0x2FE0, 0x2FE4] w3
        in (l\<lparr> ml_last_diag_tick := now \<rparr>, ra_debug_send E (ascii ''OCAP'' @ words) w4)
      else (l, w))"

section \<open>The main loop\<close>

abbreviation (input) FRAME_US :: u32 where "FRAME_US \<equiv> 16667"
abbreviation (input) FALLBACK_FACTOR :: u32 where "FALLBACK_FACTOR \<equiv> 2"

text \<open>The scheduling decision: fire or not, and whether on a retrace.\<close>

definition schedule :: "loop_state \<Rightarrow> u32 \<Rightarrow> u32 \<Rightarrow> loop_state \<times> bool" where
  "schedule l ctr now =
     (let diff_us = vi_ticks_to_us (now - ml_last_fire_tick l);
          (l1, fire) =
            (if ctr \<noteq> ml_last_ctr l
             then (l\<lparr> ml_last_ctr := ctr, ml_vbi_fires := ml_vbi_fires l + 1 \<rparr>, True)
             else (l, diff_us > FRAME_US * FALLBACK_FACTOR))
      in if fire then (l1\<lparr> ml_last_fire_tick := now, ml_fires := ml_fires l1 + 1 \<rparr>, True) else (l1, False))"

text \<open>What a fire does: exchanges, celebration, resynchronisation (memory card build).\<close>

definition fire_step :: "'w ra_env \<Rightarrow> ra_state \<Rightarrow> 'w \<Rightarrow> (ra_state \<times> 'w) option" where
  "fire_step E st w =
     (if en_usb E then
        do { (i, st1, w1) \<leftarrow> fire_exchanges_usb (en_link E) (en_mems E w) st w;
             Some (celebrate_step E st1 w1) }
      else
        do { (i, st1, w1) \<leftarrow> fire_exchanges (en_link E) (en_mems E w) st w;
             let (st2, w2) = celebrate_step E st1 w1 in Some (resync_step (en_link E) st2 w2) })"

definition loop_step ::
  "'w ra_env \<Rightarrow> loop_state \<Rightarrow> ra_state \<Rightarrow> 'w \<Rightarrow> (loop_state \<times> ra_state \<times> 'w) option"
where
  "loop_step E l st w =
     (case en_peek E RA_VBI_COUNTER_PHYS w of (ctr, w1) \<Rightarrow>
      case lk_timer (en_link E) w1 of (now, w2) \<Rightarrow>
      case schedule l ctr now of (l1, fire) \<Rightarrow>
      let st1 = st\<lparr> ra_game_frame := ml_last_ctr l1 \<rparr> in
      if \<not> fire then Some (l1, st1, en_sleep E 1 w2)
      else do { (st2, w3) \<leftarrow> fire_step E st1 w2;
                let (l2, w4) = diag_step E ctr now st2 l1 w3 in Some (l2, st2, w4) })"

definition loop_start :: "'w ra_env \<Rightarrow> 'w \<Rightarrow> loop_state \<times> 'w" where
  "loop_start E w =
     (case en_peek E RA_VBI_COUNTER_PHYS w of (ctr, w1) \<Rightarrow>
      case lk_timer (en_link E) w1 of (now, w2) \<Rightarrow>
        (\<lparr> ml_last_ctr = ctr, ml_last_fire_tick = now, ml_last_diag_tick = now, ml_fires = 0,
           ml_vbi_fires = 0 \<rparr>, w2))"

text \<open>States the poll thread can be in at the head of its main loop.\<close>

inductive poll_reach :: "'w ra_env \<Rightarrow> 'w \<Rightarrow> loop_state \<Rightarrow> ra_state \<Rightarrow> 'w \<Rightarrow> bool"
  for E :: "'w ra_env" and w0 :: 'w
where
  start: "poll_start E w0 = Some (st, w) \<Longrightarrow> loop_start E w = (l, w') \<Longrightarrow> poll_reach E w0 l st w'"
| step: "poll_reach E w0 l st w \<Longrightarrow> loop_step E l st w = Some (l', st', w') \<Longrightarrow>
    poll_reach E w0 l' st' w'"

section \<open>Requests to the module's device\<close>

abbreviation (input) DEVICE_NAME :: string where "DEVICE_NAME \<equiv> ''/dev/ra''"
abbreviation (input) RA_CMD_PING :: u32 where "RA_CMD_PING \<equiv> 1"

datatype ipcmessage = IOS_OPEN string s32 | IOS_CLOSE | IOS_IOCTLV u32 | IOS_OTHER u32

definition RA_Ioctlv :: "ra_state \<Rightarrow> u32 \<Rightarrow> s32" where
  "RA_Ioctlv st cmd = (if cmd = RA_CMD_PING then (if esp_present st then 1 else 0) else IPC_ENOENT)"

fun ipc_reply :: "ra_state \<Rightarrow> ipcmessage \<Rightarrow> s32" where
  "ipc_reply st (IOS_OPEN device resultfd) = (if device = DEVICE_NAME then resultfd else IPC_ENOENT)"
| "ipc_reply st IOS_CLOSE = 0"
| "ipc_reply st (IOS_IOCTLV cmd) = RA_Ioctlv st cmd"
| "ipc_reply st (IOS_OTHER cmd) = IPC_EINVAL"

section \<open>The wait ends exactly when the counter has moved four times\<close>

text \<open>\<open>n\<close> polls of the counter, 50 ms apart.\<close>

fun polls :: "'w ra_env \<Rightarrow> nat \<Rightarrow> 'w \<Rightarrow> u32 list \<times> 'w" where
  "polls E 0 w = ([], w)"
| "polls E (Suc n) w =
     (case en_peek E RA_VBI_COUNTER_PHYS (en_sleep E 50 w) of (c, w1) \<Rightarrow>
      case polls E n w1 of (cs, w2) \<Rightarrow> (c # cs, w2))"

fun moves :: "u32 \<Rightarrow> u32 list \<Rightarrow> nat" where
  "moves p [] = 0"
| "moves p (c # cs) = (if c \<noteq> p then Suc (moves c cs) else moves p cs)"

lemma wait_alive_returns:
  "4 \<le> k + moves p (fst (polls E n w)) \<Longrightarrow> \<exists>m \<le> n. wait_alive E k p w = Some (snd (polls E m w))"
proof (induction n arbitrary: k p w)
  case 0
  then show ?case by (simp add: wait_alive.simps [of E k])
next
  case (Suc n)
  obtain c w1 where e: "en_peek E RA_VBI_COUNTER_PHYS (en_sleep E 50 w) = (c, w1)" by fastforce
  have rest: "\<exists>m \<le> Suc n. wait_alive E j q w1 = Some (snd (polls E m w))"
    if four: "4 \<le> j + moves q (fst (polls E n w1))" for j q
  proof -
    obtain m where "m \<le> n" "wait_alive E j q w1 = Some (snd (polls E m w1))" using Suc.IH [OF four] by blast
    then show ?thesis by (intro exI [of _ "Suc m"]) (simp add: e split: prod.split)
  qed
  show ?case
  proof (cases "k < 4")
    case True
    moreover have "fst (polls E (Suc n) w) = c # fst (polls E n w1)" by (simp add: e split: prod.split)
    ultimately show ?thesis using Suc.prems rest [of "Suc k" c] rest [of k p]
      by (auto simp: e wait_alive.simps [of E k] split: if_splits)
  next
    case False
    then show ?thesis by (intro exI [of _ 0]) (simp add: wait_alive.simps [of E k])
  qed
qed

lemma wait_alive_moved:
  "wait_alive E k p w = Some w' \<Longrightarrow> \<exists>m. w' = snd (polls E m w) \<and> 4 \<le> k + moves p (fst (polls E m w))"
proof (rule wait_alive.raw_induct [where P = "\<lambda>E k p w w'.
      \<exists>m. w' = snd (polls E m w) \<and> 4 \<le> k + moves p (fst (polls E m w))"], goal_cases)
  case (1 rec E k p w w')
  show ?case
  proof (cases "k < 4")
    case True
    obtain c w1 where e: "en_peek E RA_VBI_COUNTER_PHYS (en_sleep E 50 w) = (c, w1)" by fastforce
    let ?j = "if c \<noteq> p then k + 1 else k"
    have jq: "rec E ?j c w1 = Some w'"
      using 1(3) True unfolding e by (auto split: if_splits)
    have mv: "k + moves p (c # cs) = ?j + moves c cs" for cs by simp
    obtain m where m: "w' = snd (polls E m w1)" "4 \<le> ?j + moves c (fst (polls E m w1))"
      using 1(2) [OF jq] by blast
    have "polls E (Suc m) w = (c # fst (polls E m w1), snd (polls E m w1))"
      by (simp add: e split: prod.split)
    then show ?thesis using m mv by (intro exI [of _ "Suc m"]) simp
  next
    case False
    then show ?thesis using 1(3) by (intro exI [of _ 0]) simp
  qed
qed

section \<open>Invariants of the poll thread\<close>

lemma identify_inv:
  assumes "ra_inv st" and "ra_identify L st w = (r, st', w')"
  shows "ra_inv st' \<and> rs_chain st' = rs_chain st \<and> rs_wl st' = rs_wl st"
  using assms by (auto simp: ra_identify_def ra_inv_def split: prod.splits if_splits)

lemma identify_tries_inv:
  "ra_inv st \<Longrightarrow> identify_tries E n st w = (st', w') \<Longrightarrow>
     ra_inv st' \<and> rs_chain st' = rs_chain st \<and> rs_wl st' = rs_wl st"
proof (induction n arbitrary: st w)
  case (Suc n)
  obtain r st1 w1 where e: "ra_identify (en_link E) st w = (r, st1, w1)" by (metis prod_cases3)
  note i = identify_inv [OF Suc.prems(1) e]
  show ?case
    using Suc.prems e i Suc.IH [of st1] by (auto split: if_splits)
qed simp

lemma start_link_inv:
  assumes "ra_inv st" and "start_link E st w = (st', w')"
  shows "ra_inv st' \<and> rs_chain st' = rs_chain st"
  using assms
  by (auto simp: start_link_def Let_def split: if_splits prod.splits
      dest: identify_tries_inv [OF assms(1)] identify_inv [OF assms(1)])

lemma start_tables_inv:
  assumes inv: "ra_inv st" and c: "rs_chain st = chain_init" and e: "start_tables E st w = (st', w')"
  shows "ra_inv st'"
proof -
  obtain r s w1 where f: "ra_fetch_watchlist (en_link E) (rs_wl st) w = (r, s, w1)" by (metis prod_cases3)
  have s: "wl_inv s" using fetch_watchlist_keeps [OF _ f] inv by (simp add: ra_inv_def)
  have arr: "chain_arrays chain_init" and dp: "ra_chain_dp_count chain_init = 0"
    using chain_wfD(1) [OF chain_init_wf] by (simp_all add: chain_init_def)
  show ?thesis
  proof (cases "r < 0")
    case True
    then show ?thesis using e f inv s by (auto simp: start_tables_def Let_def ra_inv_def)
  next
    case False
    define w2 where "w2 = en_led E False (en_sleep E 80 (en_led E True (blink E 80 80 w1)))"
    have "st' = st\<lparr> rs_wl := s, rs_chain := fst (ra_fetch_chain_table (en_link E) chain_init w2) \<rparr>"
      using e f False c by (auto simp: start_tables_def Let_def w2_def split: prod.splits)
    then show ?thesis using s fetch_chain_table_wf [OF arr dp] by (simp add: ra_inv_def)
  qed
qed

lemma poll_start_returns: "wait_for_game E w = Some w1 \<Longrightarrow> \<exists>st w2. poll_start E w = Some (st, w2)"
  by (auto simp: poll_start_def Let_def split: prod.split)

lemma poll_start_inv:
  assumes "poll_start E w = Some (st, w')"
  shows "ra_inv st"
proof -
  obtain w1 where "wait_for_game E w = Some w1"
    using assms by (auto simp: poll_start_def split: Option.bind_splits)
  then obtain st1 w3 where l: "start_link E ra_init (en_led E False (en_sleep E 100 (en_led E True w1)))
      = (st1, w3)" and t: "start_tables E st1 w3 = (st, w')"
    using assms by (auto simp: poll_start_def split: prod.splits)
  have "ra_inv st1 \<and> rs_chain st1 = chain_init"
    using start_link_inv [OF ra_init_inv l] by (simp add: ra_init_def)
  then show ?thesis using start_tables_inv [OF _ _ t] by simp
qed

lemma celebrate_step_inv: "ra_inv st \<Longrightarrow> ra_inv (fst (celebrate_step E st w))"
  by (auto simp: celebrate_step_def Let_def ra_inv_def wl_inv_def split: prod.splits)

lemma fire_step_inv:
  assumes "ra_inv st" and "fire_step E st w = Some (st', w')"
  shows "ra_inv st'"
proof (cases "en_usb E")
  case True
  then obtain i st1 w1 where f: "fire_exchanges_usb (en_link E) (en_mems E w) st w = Some (i, st1, w1)"
    "celebrate_step E st1 w1 = (st', w')"
    using assms(2) by (auto simp: fire_step_def split: Option.bind_splits)
  then show ?thesis
    using fire_exchanges_usb_inv [OF assms(1) f(1)] celebrate_step_inv [of st1 E w1] by simp
next
  case False
  then obtain i st1 w1 where f: "fire_exchanges (en_link E) (en_mems E w) st w = Some (i, st1, w1)"
    "(case celebrate_step E st1 w1 of (st2, w2) \<Rightarrow> resync_step (en_link E) st2 w2) = (st', w')"
    using assms(2) by (auto simp: fire_step_def split: Option.bind_splits prod.splits)
  then show ?thesis
    using fire_exchanges_inv [OF assms(1) f(1)] celebrate_step_inv [of st1 E w1]
    by (auto split: prod.splits intro: resync_step_inv)
qed

inductive_cases poll_reachE: "poll_reach E w0 l st w"

lemma poll_reach_inv: "poll_reach E w0 l st w \<Longrightarrow> ra_inv st"
proof (induction rule: poll_reach.induct)
  case (start st w l w')
  then show ?case by (simp add: poll_start_inv)
next
  case (step l st w l' st' w')
  have "ra_inv (st\<lparr> ra_game_frame := x \<rparr>)" for x using step.IH by (simp add: ra_inv_def)
  then show ?case
    using step.hyps(2)
    by (auto simp: loop_step_def Let_def split: prod.splits if_splits Option.bind_splits
        intro: fire_step_inv)
qed

section \<open>Schedule\<close>

lemma schedule_fires:
  "snd (schedule l ctr now) \<longleftrightarrow>
     ctr \<noteq> ml_last_ctr l \<or> 33334 < unat (now - ml_last_fire_tick l) div 1000 * 527"
  by (auto simp: schedule_def Let_def word_less_nat_alt unat_vi_ticks_to_us)

lemma schedule_state:
  "ml_last_ctr (fst (schedule l ctr now)) = ctr"
  "ml_fires (fst (schedule l ctr now)) = ml_fires l + of_bool (snd (schedule l ctr now))"
  "ml_vbi_fires (fst (schedule l ctr now)) = ml_vbi_fires l + of_bool (ctr \<noteq> ml_last_ctr l)"
  "snd (schedule l ctr now) \<Longrightarrow> ml_last_fire_tick (fst (schedule l ctr now)) = now"
  by (auto simp: schedule_def Let_def)

section \<open>The celebration: three pulses, the flag follows the LED\<close>

definition celebrate_iter :: "'w ra_env \<Rightarrow> nat \<Rightarrow> ra_state \<Rightarrow> 'w \<Rightarrow> ra_state \<times> 'w" where
  "celebrate_iter E n st w = ((\<lambda>(st, w). celebrate_step E st w) ^^ n) (st, w)"

lemma celebrate_pattern:
  assumes "n < 54"
  shows "(case celebrate_led (53 - n) of None \<Rightarrow> odd (n div 9) | Some on \<Rightarrow> on) = odd (Suc n div 9)"
    and "trophy_on (53 - n) = of_bool (odd (Suc n div 9))"
proof -
  have "\<forall>n \<in> set [0..<54].
      (case celebrate_led (53 - n) of None \<Rightarrow> odd (n div 9) | Some on \<Rightarrow> on) = odd (Suc n div 9)
      \<and> trophy_on (53 - n) = of_bool (odd (Suc n div 9))"
    by code_simp
  then show "(case celebrate_led (53 - n) of None \<Rightarrow> odd (n div 9) | Some on \<Rightarrow> on) = odd (Suc n div 9)"
    and "trophy_on (53 - n) = of_bool (odd (Suc n div 9))" using assms by auto
qed

text \<open>
  What the celebration needs of the board: \<open>led\<close> is the state of the LED and \<open>flag\<close> the word at
  \<open>RA_TROPHY_FLAG_PHYS\<close>.
\<close>

definition trophy_board :: "'w ra_env \<Rightarrow> ('w \<Rightarrow> bool) \<Rightarrow> ('w \<Rightarrow> u32) \<Rightarrow> bool" where
  "trophy_board E led flag \<longleftrightarrow>
     (\<forall>b w. led (en_led E b w) = b \<and> flag (en_led E b w) = flag w) \<and>
     (\<forall>v w. flag (en_poke E RA_TROPHY_FLAG_PHYS v w) = v \<and> led (en_poke E RA_TROPHY_FLAG_PHYS v w) = led w) \<and>
     (\<forall>a w. led (snd (en_peek E a w)) = led w \<and> flag (snd (en_peek E a w)) = flag w)"

lemma celebrate_step_board:
  assumes "trophy_board E led flag" and "ra_led_celebrate (rs_wl st) = Suc c"
    and "celebrate_step E st w = (st', w')"
  shows "ra_led_celebrate (rs_wl st') = c \<and> flag w' = trophy_on c
    \<and> led w' = (case celebrate_led c of None \<Rightarrow> led w | Some on \<Rightarrow> on)"
proof -
  let ?w1 = "case celebrate_led c of None \<Rightarrow> w | Some on \<Rightarrow> en_led E on w"
  have "w' = snd (en_peek E RA_TROPHY_FLAG_PHYS (en_poke E RA_TROPHY_FLAG_PHYS (trophy_on c) ?w1))"
    "ra_led_celebrate (rs_wl st') = c"
    using assms(2,3) by (auto simp: celebrate_step_def Let_def split: prod.splits)
  then show ?thesis using assms(1) by (simp add: trophy_board_def split: option.split)
qed

lemma celebrate_iter_board:
  assumes "trophy_board E led flag" and "ra_led_celebrate (rs_wl st) = 54" and "\<not> led w" and "n \<le> 54"
    and "celebrate_iter E n st w = (st', w')"
  shows "ra_led_celebrate (rs_wl st') = 54 - n \<and> led w' = odd (n div 9)
    \<and> (0 < n \<longrightarrow> flag w' = of_bool (led w'))"
  using assms(4,5)
proof (induction n arbitrary: st' w')
  case 0
  then show ?case using assms by (simp add: celebrate_iter_def)
next
  case (Suc n)
  obtain s v where i: "celebrate_iter E n st w = (s, v)" by fastforce
  then have ih: "ra_led_celebrate (rs_wl s) = 54 - n" "led v = odd (n div 9)" using Suc by auto
  have "celebrate_step E s v = (st', w')" using Suc.prems(2) i by (simp add: celebrate_iter_def)
  moreover have "ra_led_celebrate (rs_wl s) = Suc (53 - n)" using ih(1) Suc.prems(1) by simp
  ultimately have st: "ra_led_celebrate (rs_wl st') = 53 - n" "flag w' = trophy_on (53 - n)"
    "led w' = (case celebrate_led (53 - n) of None \<Rightarrow> led v | Some on \<Rightarrow> on)"
    using celebrate_step_board [OF assms(1), of s "53 - n" v st' w'] by blast+
  show ?case
    using celebrate_pattern [of n] Suc.prems(1) st(1) unfolding st(2,3) ih(2) by simp
qed

text \<open>A board whose world is the LED, the trophy flag and a frame counter that runs.\<close>

definition demo_env :: "(bool \<times> u32 \<times> u32) ra_env" where
  "demo_env = \<lparr> en_link = dead_link, en_usb = False, en_debug = False, en_sleep = (\<lambda>_ w. w),
     en_led = (\<lambda>b (l, f, c). (b, f, c)),
     en_peek = (\<lambda>a (l, f, c). (if a = RA_TROPHY_FLAG_PHYS then f else c, (l, f, c + 1))),
     en_poke = (\<lambda>a v (l, f, c). (l, if a = RA_TROPHY_FLAG_PHYS then v else f, c)),
     en_usb_init = (\<lambda>w. (-4, w)), en_exi_init = (\<lambda>w. w), en_mems = (\<lambda>w i. demo_mem) \<rparr>"

lemma demo_board: "trophy_board demo_env fst (\<lambda>w. fst (snd w))"
  by (auto simp: trophy_board_def demo_env_def)

section \<open>Diagnostic lines fit their buffers\<close>

lemma hex4_length: "length (ra_dbg_hex_bytes (put_be32 v) 0) = 8"
  by (simp add: put_be32_def)

lemma ocap_words_length: "length (fst (ocap_words E as w)) = 9 * length as"
proof (induction as arbitrary: w)
  case (Cons a as)
  obtain v w1 where "en_peek E a w = (v, w1)" by fastforce
  then show ?case using Cons.IH [of w1] by (cases "ocap_words E as w1") (simp add: put_be32_def)
qed simp

section \<open>Properties\<close>

text \<open>
  C18. Every state the poll thread can reach at the head of its main loop, on any transport and
  with any game running beside it, keeps the watchlist inside its array and the chain table
  well formed.
\<close>

theorem poll_thread_invariant:
  assumes "poll_reach E w0 l st w"
  shows "ra_inv st"
  using assms by (rule poll_reach_inv)

theorem poll_thread_invariant_witness: "\<exists>l st w. poll_reach demo_env (False, 0, 0) l st w \<and> ra_inv st"
proof -
  have "4 \<le> 0 + moves 0 (fst (polls demo_env 4 (False, 0, 1)))"
    by code_simp
  from wait_alive_returns [OF this]
  obtain w1 where "wait_alive demo_env 0 0 (False, 0, 1) = Some w1" by (elim exE conjE)
  then have "wait_for_game demo_env (False, 0, 0) = Some w1"
    by (simp add: wait_for_game_def) (simp add: demo_env_def)
  from poll_start_returns [OF this]
  obtain st w where "poll_start demo_env (False, 0, 0) = Some (st, w)" by (elim exE)
  moreover obtain l w' where "loop_start demo_env w = (l, w')" by (rule prod.exhaust)
  ultimately have r: "poll_reach demo_env (False, 0, 0) l st w'" by (rule poll_reach.start)
  show ?thesis by (intro exI conjI) (rule r, rule poll_thread_invariant [OF r])
qed

text \<open>
  The silent wait for a game ends exactly when the game's frame counter has moved four
  times between polls; on a counter that never moves it waits for ever.
\<close>

theorem wait_for_game_returns_iff:
  "(\<exists>w'. wait_for_game E w = Some w') \<longleftrightarrow>
     (\<exists>n. 4 \<le> moves (fst (en_peek E RA_VBI_COUNTER_PHYS w))
                (fst (polls E n (snd (en_peek E RA_VBI_COUNTER_PHYS w)))))"
proof -
  let ?p = "fst (en_peek E RA_VBI_COUNTER_PHYS w)" and ?w = "snd (en_peek E RA_VBI_COUNTER_PHYS w)"
  have "wait_for_game E w = wait_alive E 0 ?p ?w" by (simp add: wait_for_game_def split: prod.split)
  then show ?thesis using wait_alive_returns [of 0 ?p E _ ?w] wait_alive_moved [of E 0 ?p ?w] by auto
qed

text \<open>
  The schedule fires on every movement of the frame counter and otherwise only after more
  than two frame times without a fire; it always latches the counter, restarts the fallback
  timer exactly on a fire, and counts the fires and those of the retrace.
\<close>

theorem schedule_decision:
  "(snd (schedule l ctr now) \<longleftrightarrow>
      (if ctr = ml_last_ctr l then 33334 < unat (now - ml_last_fire_tick l) div 1000 * 527 else True))
   \<and> ml_last_ctr (fst (schedule l ctr now)) = ctr
   \<and> ml_last_fire_tick (fst (schedule l ctr now))
       = (if snd (schedule l ctr now) then now else ml_last_fire_tick l)
   \<and> ml_fires (fst (schedule l ctr now)) = ml_fires l + of_bool (snd (schedule l ctr now))
   \<and> ml_vbi_fires (fst (schedule l ctr now)) = ml_vbi_fires l + of_bool (ctr \<noteq> ml_last_ctr l)"
proof -
  have "\<not> snd (schedule l ctr now) \<Longrightarrow> ml_last_fire_tick (fst (schedule l ctr now)) = ml_last_fire_tick l"
    by (auto simp: schedule_def Let_def split: if_splits)
  then show ?thesis using schedule_fires [of l ctr now] schedule_state [of l ctr now] by auto
qed

text \<open>
  A celebration is three pulses of nine fires, nine fires apart: after \<open>n\<close> of its 54 fires
  the LED is on exactly when \<open>n div 9\<close> is odd, the trophy flag in the game's memory equals the
  LED after every fire, and both are off at the end.
\<close>

theorem celebration_pulses:
  assumes "trophy_board E led flag" and "ra_led_celebrate (rs_wl st) = 54" and "\<not> led w"
    and "0 < n" and "n \<le> 54" and "celebrate_iter E n st w = (st', w')"
  shows "ra_led_celebrate (rs_wl st') = 54 - n \<and> led w' = odd (n div 9) \<and> flag w' = of_bool (led w')"
  using celebrate_iter_board [OF assms(1,2,3,5,6)] assms(4) by blast

theorem celebration_pulses_witness:
  "\<exists>st' w'. celebrate_iter demo_env 10 (ra_init\<lparr> rs_wl := wl_init\<lparr> ra_led_celebrate := 54 \<rparr> \<rparr>)
      (False, 0, 0) = (st', w') \<and> fst w' \<and> fst (snd w') = 1"
proof -
  let ?st = "ra_init\<lparr> rs_wl := wl_init\<lparr> ra_led_celebrate := 54 \<rparr> \<rparr>"
  obtain st' w' where e: "celebrate_iter demo_env 10 ?st (False, 0, 0) = (st', w')" by (rule prod.exhaust)
  from celebration_pulses [OF demo_board _ _ _ _ e] e show ?thesis by simp
qed

text \<open>
  The diagnostic lines of the main loop fit the stack buffers they are built in (48 bytes
  for the first three, 64 for the landmark line), whatever the counters and the memory hold.
\<close>

theorem diagnostics_fit_buffers:
  "length (vbi_line a b c) \<le> 48 \<and> length (phb_line a b c) \<le> 48 \<and> length (tro_line a b c) \<le> 48
   \<and> length (ascii ''OCAP'' @ fst (ocap_words E [0x1800, 0x22A8, 0x28B8, 0x2FE0, 0x2FE4] w)) \<le> 64"
  using u16_dec_length(1) [of "ucast a"] u16_dec_length(1) [of "ucast b"] u16_dec_length(1) [of "ucast c"]
  by (simp add: vbi_line_def phb_line_def tro_line_def hex4_length ocap_words_length del: ocap_words.simps)

end
