(* ===== verification/USB_Link.thy ===== *)
theory USB_Link
  imports RA_Main
begin

text \<open>
  The USB transport of \<open>ra-module/usb_link.c\<close>: request blocks, the exchange on the wire
  with its two asynchronous completions, discovery of the adapter, blocking and posted
  exchanges; and \<open>ra_send\<close>, \<open>ra_send_phase_b\<close> and the debug channel of the USB build on
  top of them.

  IOS is a parameter (\<open>'k usb_kernel\<close>): opening devices, requests, timers, and the
  messages the two queues deliver. A receive that blocks for ever is \<open>None\<close>, and so is a
  wait that never ends. Buffers are named by their address in an explicit store, because a
  reply that arrives late is written to the buffer of the exchange it belongs to.
\<close>

section \<open>State\<close>

datatype backend = BK_NONE | BK_VEN | BK_OH0

text \<open>What the transfer queue can deliver: the completion of the request (its result), of
  the reply read (its result and the bytes moved), or another word (a timer token).\<close>

datatype xfer_msg = OutReply s32 | InReply s32 bytes | XferWord u32

datatype disc_msg = DiscReply s32 bytes | DiscWord u32

datatype vec_data = V5Block | V0Ep | V0Len | VData u32

record usb_req =
  rq_v5 :: bytes
  rq_v0_ep :: bytes
  rq_v0_len :: bytes
  rq_vec :: "(vec_data \<times> nat) list"

record usb_state =
  g_bk :: backend
  g_fd :: s32
  g_dev :: u32
  g_q :: s32
  g_qdisc :: s32
  g_tok :: u32
  g_inited :: bool
  g_up :: bool
  g_dead :: bool
  g_disc_pending :: bool
  xs_busy :: bool
  xs_is_post :: bool
  xs_out_done :: bool
  xs_in_done :: bool
  xs_out_res :: s32
  xs_in_res :: s32
  xs_out_len :: nat
  xs_in_buf :: u32
  xs_in_cap :: nat
  post_open :: bool
  post_ready :: bool
  post_res :: s32
  us_store :: "u32 \<Rightarrow> bytes"
  g_to_phaseb :: u32
  g_to_dbg :: u32
  g_t_wait_ms :: u32

definition usb_zero :: usb_state where
  "usb_zero = \<lparr> g_bk = BK_NONE, g_fd = 0, g_dev = 0, g_q = 0, g_qdisc = 0, g_tok = 0, g_inited = False,
     g_up = False, g_dead = False, g_disc_pending = False, xs_busy = False, xs_is_post = False,
     xs_out_done = False, xs_in_done = False, xs_out_res = 0, xs_in_res = 0, xs_out_len = 0,
     xs_in_buf = 0, xs_in_cap = 0, post_open = False, post_ready = False, post_res = 0,
     us_store = (\<lambda>_. []), g_to_phaseb = 0, g_to_dbg = 0, g_t_wait_ms = 0 \<rparr>"

record 'k usb_kernel =
  ik_open :: "string \<Rightarrow> 'k \<Rightarrow> s32 \<times> 'k"
  ik_close :: "s32 \<Rightarrow> 'k \<Rightarrow> 'k"
  ik_queue_create :: "nat \<Rightarrow> 'k \<Rightarrow> s32 \<times> 'k"
  ik_get_version :: "s32 \<Rightarrow> 'k \<Rightarrow> (s32 \<times> u32) \<times> 'k"
  ik_suspend_resume :: "s32 \<Rightarrow> bytes \<Rightarrow> 'k \<Rightarrow> s32 \<times> 'k"
  ik_attach_finish :: "s32 \<Rightarrow> 'k \<Rightarrow> 'k"
  ik_device_change :: "s32 \<Rightarrow> 'k \<Rightarrow> s32 \<times> 'k"
  ik_ioctlv_async :: "s32 \<Rightarrow> nat \<Rightarrow> nat \<Rightarrow> nat \<Rightarrow> usb_req \<Rightarrow> bytes \<Rightarrow> 'k \<Rightarrow> s32 \<times> 'k"
  ik_create_timer :: "nat \<Rightarrow> u32 \<Rightarrow> 'k \<Rightarrow> s32 \<times> 'k"
  ik_destroy_timer :: "s32 \<Rightarrow> 'k \<Rightarrow> 'k"
  ik_receive :: "'k \<Rightarrow> (xfer_msg \<times> 'k) option"
  ik_receive_disc :: "'k \<Rightarrow> (disc_msg \<times> 'k) option"
  ik_hw_timer :: "'k \<Rightarrow> u32 \<times> 'k"
  ik_small_in :: u32
  ik_small_out :: u32

abbreviation (input) RA_USB_EBUSY :: s32 where "RA_USB_EBUSY \<equiv> - 301"
abbreviation (input) RA_USB_EDEAD :: s32 where "RA_USB_EDEAD \<equiv> - 302"
abbreviation (input) RA_USB_EBUF :: s32 where "RA_USB_EBUF \<equiv> - 303"
abbreviation (input) RA_USB_ESHORT :: s32 where "RA_USB_ESHORT \<equiv> - 304"
abbreviation (input) RA_USB_EIDLE :: s32 where "RA_USB_EIDLE \<equiv> - 305"
abbreviation (input) IOS_RAW_EINVAL :: s32 where "IOS_RAW_EINVAL \<equiv> - 4"
abbreviation (input) SMALL_OUT :: nat where "SMALL_OUT \<equiv> 288"
abbreviation (input) SMALL_IN :: nat where "SMALL_IN \<equiv> 128"
abbreviation (input) EP_OUT :: u8 where "EP_OUT \<equiv> 0x01"
abbreviation (input) EP_IN :: u8 where "EP_IN \<equiv> 0x81"
abbreviation (input) USBV5_IOCTL_BULKMSG :: nat where "USBV5_IOCTL_BULKMSG \<equiv> 21"
abbreviation (input) USBV0_IOCTL_BLKMSG :: nat where "USBV0_IOCTL_BLKMSG \<equiv> 1"

definition dma_ok :: "u32 \<Rightarrow> nat \<Rightarrow> bool" where
  "dma_ok a len = (if a AND 31 \<noteq> 0 then False else (a AND 4095) + of_nat len \<le> 8192)"

section \<open>Bulk transfers\<close>

text \<open>The request block and the ioctl number with its vector counts.\<close>

definition req_fill :: "usb_state \<Rightarrow> u8 \<Rightarrow> u16 \<Rightarrow> u32 \<Rightarrow> usb_req \<times> nat \<times> nat \<times> nat" where
  "req_fill s ep len data =
     (let dir = (if ep AND 0x80 \<noteq> 0 then 1 else 0) in
      if g_bk s = BK_VEN then
        (\<lparr> rq_v5 = blit (blit (blit (blit (replicate 64 0) 0 (put_be32 (g_dev s)))
                             8 (put_be32 data)) 12 (put_be16 len)) 18 [ep],
           rq_v0_ep = replicate 32 0, rq_v0_len = replicate 32 0,
           rq_vec = [(V5Block, 64), (VData data, unat len)] \<rparr>,
         USBV5_IOCTL_BULKMSG, 2 - dir, dir)
      else
        (\<lparr> rq_v5 = replicate 64 0, rq_v0_ep = blit (replicate 32 0) 0 [ep],
           rq_v0_len = blit (replicate 32 0) 0 (put_be16 len),
           rq_vec = [(V0Ep, 1), (V0Len, 2), (VData data, unat len)] \<rparr>,
         USBV0_IOCTL_BLKMSG, 2, 1))"

definition bulk_async ::
  "'k usb_kernel \<Rightarrow> usb_state \<Rightarrow> u8 \<Rightarrow> nat \<Rightarrow> u32 \<Rightarrow> bytes \<Rightarrow> 'k \<Rightarrow> s32 \<times> 'k"
where
  "bulk_async K s ep len data content k =
     (case req_fill s ep (of_nat len) data of (r, ioc, n_in, n_io) \<Rightarrow>
        ik_ioctlv_async K (g_fd s) ioc n_in n_io r content k)"

definition xs_result :: "usb_state \<Rightarrow> s32" where
  "xs_result s =
     (if xs_out_res s \<noteq> int (xs_out_len s) then (if xs_out_res s < 0 then xs_out_res s else RA_USB_ESHORT)
      else if xs_in_res s < 0 then xs_in_res s else 0)"

text \<open>The DMA engine writes at most the capacity of the read, inside the buffer.\<close>

definition dma_write :: "bytes \<Rightarrow> bytes \<Rightarrow> bytes" where
  "dma_write dst src = take (length dst) src @ drop (length src) dst"

definition dma_in :: "usb_state \<Rightarrow> bytes \<Rightarrow> usb_state" where
  "dma_in s bs = s\<lparr> us_store := (us_store s)
     (xs_in_buf s := dma_write (us_store s (xs_in_buf s)) (take (xs_in_cap s) bs)) \<rparr>"

partial_function (option) xs_loop ::
  "'k usb_kernel \<Rightarrow> u32 option \<Rightarrow> usb_state \<Rightarrow> 'k \<Rightarrow> (usb_state \<times> 'k) option"
where
  "xs_loop K tok s k =
     (if xs_out_done s \<and> xs_in_done s then Some (s, k)
      else case ik_receive K k of
          None \<Rightarrow> None
        | Some (m, k1) \<Rightarrow>
            (case m of
               OutReply r \<Rightarrow> xs_loop K tok (s\<lparr> xs_out_done := True, xs_out_res := r \<rparr>) k1
             | InReply r bs \<Rightarrow> xs_loop K tok ((dma_in s bs)\<lparr> xs_in_done := True, xs_in_res := r \<rparr>) k1
             | XferWord v \<Rightarrow> if tok = Some v then Some (s, k1) else xs_loop K tok s k1))"

definition next_tok :: "u32 \<Rightarrow> u32 \<Rightarrow> u32" where
  "next_tok base t = base OR ((t + 1) AND 0xFFFF)"

text \<open>After the loop: the timer goes, and a finished exchange leaves the wire.\<close>

definition xs_finish :: "usb_state \<Rightarrow> s32 \<times> usb_state" where
  "xs_finish s =
     (if \<not> (xs_out_done s \<and> xs_in_done s) then (RA_USB_ETIMEOUT, s)
      else let s1 = s\<lparr> xs_busy := False \<rparr> in
        if xs_is_post s1
        then (0, s1\<lparr> xs_is_post := False, post_res := xs_result s1, post_ready := True \<rparr>)
        else (0, s1))"

definition xs_wait ::
  "'k usb_kernel \<Rightarrow> nat \<Rightarrow> usb_state \<Rightarrow> 'k \<Rightarrow> (s32 \<times> usb_state \<times> 'k) option"
where
  "xs_wait K timeout_ms s k =
     (if \<not> xs_busy s then Some (0, s, k)
      else
        (case (if timeout_ms \<noteq> 0 then
                 (let tk = next_tok 0x7A000000 (g_tok s)
                  in case ik_create_timer K (timeout_ms * 1000) tk k of
                       (t, k1) \<Rightarrow> (t, tk, s\<lparr> g_tok := g_tok s + 1 \<rparr>, k1))
               else (-1, 0, s, k)) of
           (t, tk, s1, k1) \<Rightarrow>
             do { (s2, k2) \<leftarrow> xs_loop K (if t \<ge> 0 then Some tk else None) s1 k1;
                  let k3 = (if t \<ge> 0 then ik_destroy_timer K t k2 else k2);
                      (r, s3) = xs_finish s2
                  in Some (r, s3, k3) }))"

definition xs_post ::
  "'k usb_kernel \<Rightarrow> u32 \<Rightarrow> bytes \<Rightarrow> u32 \<Rightarrow> nat \<Rightarrow> bool \<Rightarrow> usb_state \<Rightarrow> 'k \<Rightarrow> s32 \<times> usb_state \<times> 'k"
where
  "xs_post K out_addr out in_addr in_cap is_post s k =
     (if g_dead s then (RA_USB_EDEAD, s, k)
      else if xs_busy s then (RA_USB_EBUSY, s, k)
      else
        let s1 = s\<lparr> xs_out_done := False, xs_in_done := False, xs_out_res := 0, xs_in_res := 0,
                    xs_out_len := length out, xs_in_buf := in_addr, xs_in_cap := in_cap,
                    xs_is_post := is_post \<rparr>
        in case bulk_async K s1 EP_IN in_cap in_addr [] k of (r, k1) \<Rightarrow>
             if r < 0 then (r, s1, k1)
             else let s2 = s1\<lparr> xs_busy := True \<rparr> in
               case bulk_async K s2 EP_OUT (length out) out_addr out k1 of (r', k2) \<Rightarrow>
                 if r' < 0 then
                   (RA_USB_EDEAD, s2\<lparr> xs_out_done := True, xs_out_res := r', g_dead := True \<rparr>, k2)
                 else (0, s2, k2))"

section \<open>Discovery\<close>

definition ven_resume_block :: "u32 \<Rightarrow> bytes" where
  "ven_resume_block dev = put_be32 dev @ put_be32 0 @ put_be32 1 @ replicate 20 0"

text \<open>One entry of the device list: 12 bytes, id, vendor and product.\<close>

definition disc_match :: "bytes \<Rightarrow> nat \<Rightarrow> bool" where
  "disc_match devlist i \<longleftrightarrow> be16 (sub_bytes devlist (i * 12 + 4) 2) = 0x303A
     \<and> be16 (sub_bytes devlist (i * 12 + 6) 2) = 0x4052"

definition ven_scan :: "bytes \<Rightarrow> s32 \<Rightarrow> u32 option" where
  "ven_scan devlist n =
     (case filter (disc_match devlist) [0..<min (nat n) 32] of
        [] \<Rightarrow> None | i # _ \<Rightarrow> Some (be32 (sub_bytes devlist (i * 12) 4)))"

partial_function (option) disc_loop :: "'k usb_kernel \<Rightarrow> u32 \<Rightarrow> 'k \<Rightarrow> ((s32 \<times> bytes) option \<times> 'k) option" where
  "disc_loop K tok k =
     (case ik_receive_disc K k of
        None \<Rightarrow> None
      | Some (m, k1) \<Rightarrow>
          (case m of
             DiscReply n bs \<Rightarrow> Some (Some (n, bs), k1)
           | DiscWord v \<Rightarrow> if v = tok then Some (None, k1) else disc_loop K tok k1))"

fun ven_find ::
  "'k usb_kernel \<Rightarrow> nat \<Rightarrow> usb_state \<Rightarrow> 'k \<Rightarrow> ((s32 + u32) \<times> usb_state \<times> 'k) option"
where
  "ven_find K 0 s k = Some (Inl RA_USB_ETIMEOUT, s, k)"
| "ven_find K (Suc rounds) s k =
     (case (if g_disc_pending s then (0, k) else ik_device_change K (g_fd s) k) of (r, k1) \<Rightarrow>
        if r < 0 then Some (Inl r, s, k1)
        else
          let tk = next_tok 0x7B000000 (g_tok s);
              s1 = s\<lparr> g_tok := g_tok s + 1, g_disc_pending := True \<rparr>
          in case ik_create_timer K 1500000 tk k1 of (t, k2) \<Rightarrow>
             do { (m, k3) \<leftarrow> disc_loop K tk k2;
                  let k4 = (if t \<ge> 0 then ik_destroy_timer K t k3 else k3) in
                  case m of
                    None \<Rightarrow> Some (Inl RA_USB_ETIMEOUT, s1, k4)
                  | Some (n, devlist) \<Rightarrow>
                      let s2 = s1\<lparr> g_disc_pending := False \<rparr>;
                          k5 = ik_attach_finish K (g_fd s) k4
                      in (case ven_scan devlist n of
                            Some dev \<Rightarrow> Some (Inr dev, s2, k5)
                          | None \<Rightarrow> ven_find K rounds s2 k5) })"

definition usb_open :: "'k usb_kernel \<Rightarrow> usb_state \<Rightarrow> 'k \<Rightarrow> s32 \<times> usb_state \<times> 'k" where
  "usb_open K s k =
     (case ik_open K ''/dev/usb/ven'' k of (r, k1) \<Rightarrow>
        if r \<ge> 0 then
          (case ik_get_version K r k1 of ((r', v), k2) \<Rightarrow>
             if r' \<noteq> 0 \<or> v \<noteq> 0x50001 then (RA_USB_EDEAD, s\<lparr> g_fd := -1 \<rparr>, ik_close K r k2)
             else (1, s\<lparr> g_fd := r, g_bk := BK_VEN \<rparr>, k2))
        else if r = IOS_RAW_EINVAL then (r, s, k1)
        else case ik_open K ''/dev/usb/oh0/303a/4052'' k1 of (r', k2) \<Rightarrow>
               if r' < 0 then (r', s, k2)
               else (0, s\<lparr> g_fd := r', g_bk := BK_OH0, g_up := True \<rparr>, k2))"

definition usb_queues :: "'k usb_kernel \<Rightarrow> usb_state \<Rightarrow> 'k \<Rightarrow> usb_state \<times> 'k" where
  "usb_queues K s k =
     (if g_inited s then (s, k)
      else case ik_queue_create K 8 k of (q, k1) \<Rightarrow>
           case ik_queue_create K 4 k1 of (qd, k2) \<Rightarrow>
             (s\<lparr> g_bk := BK_NONE, g_fd := -1, g_dev := - 1, g_q := q, g_qdisc := qd, g_inited := True \<rparr>, k2))"

definition usb_attach :: "'k usb_kernel \<Rightarrow> usb_state \<Rightarrow> 'k \<Rightarrow> (s32 \<times> usb_state \<times> 'k) option" where
  "usb_attach K s k =
     do { (r, s1, k1) \<leftarrow> ven_find K 2 s k;
          case r of
            Inl e \<Rightarrow> Some (e, s1, k1)
          | Inr dev \<Rightarrow>
              (case ik_suspend_resume K (g_fd s1) (ven_resume_block dev) k1 of
                 (_, k2) \<Rightarrow> Some (0, s1\<lparr> g_dev := dev, g_up := True \<rparr>, k2)) }"

definition ra_usb_init :: "'k usb_kernel \<Rightarrow> usb_state \<Rightarrow> 'k \<Rightarrow> (s32 \<times> usb_state \<times> 'k) option" where
  "ra_usb_init K s k =
     (if g_up s then Some (0, s, k)
      else case usb_queues K s k of (s1, k1) \<Rightarrow>
        if g_q s1 < 0 \<or> g_qdisc s1 < 0 then Some (RA_USB_EDEAD, s1, k1)
        else if g_bk s1 = BK_NONE then
          (case usb_open K s1 k1 of (r, s2, k2) \<Rightarrow>
             if g_bk s2 = BK_VEN then usb_attach K s2 k2 else Some (r, s2, k2))
        else usb_attach K s1 k1)"

section \<open>Exchanges\<close>

text \<open>The framing pad: no message is a multiple of 64 bytes long.\<close>

definition usb_frame :: "bytes \<Rightarrow> bytes" where
  "usb_frame tx = (if length tx mod 64 = 0 then tx @ [0] else tx)"

definition out_buffer :: "'k usb_kernel \<Rightarrow> u32 \<Rightarrow> bytes \<Rightarrow> u32 option" where
  "out_buffer K tx_addr tx =
     (if length tx + 1 \<le> SMALL_OUT then Some (ik_small_out K)
      else if dma_ok tx_addr (length tx + 1) then Some tx_addr else None)"

text \<open>The receive buffer used for the exchange, with its capacity; \<open>rx = None\<close> is \<open>NULL\<close>.\<close>

definition in_buffer :: "'k usb_kernel \<Rightarrow> u32 option \<Rightarrow> nat \<Rightarrow> nat \<Rightarrow> (u32 \<times> nat) option" where
  "in_buffer K rx rx_len skip =
     (if rx \<noteq> None \<and> skip = 0 \<and> rx_len > SMALL_IN \<and> dma_ok (the rx) rx_len then Some (the rx, rx_len)
      else if skip + rx_len \<le> SMALL_IN then Some (ik_small_in K, SMALL_IN)
      else None)"

text \<open>Copying a reply out of the bounce buffer.\<close>

definition bounce :: "bytes \<Rightarrow> s32 \<Rightarrow> nat \<Rightarrow> nat \<Rightarrow> bytes" where
  "bounce small in_res skip rx_len =
     (if nat in_res > skip
      then blit (replicate rx_len 0) 0 (sub_bytes small skip (min (nat in_res - skip) rx_len))
      else replicate rx_len 0)"

definition ra_usb_xfer ::
  "'k usb_kernel \<Rightarrow> u32 \<Rightarrow> bytes \<Rightarrow> u32 option \<Rightarrow> nat \<Rightarrow> nat \<Rightarrow> nat \<Rightarrow> usb_state \<Rightarrow> 'k
    \<Rightarrow> (s32 \<times> usb_state \<times> 'k) option"
where
  "ra_usb_xfer K tx_addr tx rx rx_len skip timeout_ms s k =
     (if \<not> g_up s then Some (RA_USB_EDEAD, s, k)
      else do {
        (r0, s1, k1) \<leftarrow> xs_wait K timeout_ms s k;
        if r0 < 0 then Some (RA_USB_EBUSY, s1, k1)
        else case out_buffer K tx_addr tx of
            None \<Rightarrow> Some (RA_USB_EBUF, s1, k1)
          | Some out \<Rightarrow>
              (case in_buffer K rx rx_len skip of
                 None \<Rightarrow> Some (RA_USB_EBUF, s1, k1)
               | Some (inb, cap) \<Rightarrow>
                   (case xs_post K out (usb_frame tx) inb cap False s1 k1 of (r, s2, k2) \<Rightarrow>
                      if r < 0 then Some (r, s2, k2)
                      else do {
                        (r', s3, k3) \<leftarrow> xs_wait K timeout_ms s2 k2;
                        if r' < 0 then Some (r', s3, k3)
                        else if xs_result s3 < 0 then Some (xs_result s3, s3, k3)
                        else if rx \<noteq> None \<and> inb \<noteq> the rx \<and> rx_len > 0 then
                          Some (0, s3\<lparr> us_store := (us_store s3)(the rx :=
                                  bounce (us_store s3 (ik_small_in K)) (xs_in_res s3) skip rx_len) \<rparr>, k3)
                        else Some (0, s3, k3) })) })"

definition ra_usb_post ::
  "'k usb_kernel \<Rightarrow> u32 \<Rightarrow> bytes \<Rightarrow> u32 \<Rightarrow> nat \<Rightarrow> usb_state \<Rightarrow> 'k \<Rightarrow> s32 \<times> usb_state \<times> 'k"
where
  "ra_usb_post K tx_addr tx rx rx_cap s k =
     (if \<not> g_up s then (RA_USB_EDEAD, s, k)
      else if xs_busy s \<or> post_open s then (RA_USB_EBUSY, s, k)
      else if length tx > RA_USB_TX_MAX \<or> \<not> dma_ok tx_addr (length tx + 1) \<or> \<not> dma_ok rx rx_cap
        then (RA_USB_EBUF, s, k)
      else case xs_post K tx_addr (usb_frame tx) rx rx_cap True s k of (r, s1, k1) \<Rightarrow>
        if r < 0 then (r, s1, k1) else (0, s1\<lparr> post_open := True, post_ready := False \<rparr>, k1))"

definition ra_usb_reap :: "'k usb_kernel \<Rightarrow> nat \<Rightarrow> usb_state \<Rightarrow> 'k \<Rightarrow> (s32 \<times> usb_state \<times> 'k) option" where
  "ra_usb_reap K timeout_ms s k =
     (if \<not> post_open s then Some (RA_USB_EIDLE, s, k)
      else do {
        (r, s1, k1) \<leftarrow> (if post_ready s then Some (0, s, k)
                       else xs_wait K (if timeout_ms \<noteq> 0 then timeout_ms else 1) s k);
        if r < 0 then Some (r, s1, k1)
        else Some (post_res s1, s1\<lparr> post_open := False, post_ready := False \<rparr>, k1) })"

definition ra_usb_posted :: "usb_state \<Rightarrow> bool" where
  "ra_usb_posted s = post_open s"

section \<open>The USB build of the module\<close>

text \<open>Addresses of the module's own buffers.\<close>

record usb_bufs =
  ub_snap_tx :: u32
  ub_snap_rx :: u32
  ub_chunk_rx :: u32
  ub_stack :: u32

definition rx_addr :: "usb_bufs \<Rightarrow> nat \<Rightarrow> u32" where
  "rx_addr A n = (if n = RA_SNAP_RX_BUF_SZ then ub_snap_rx A
                  else if n = CHUNK_RX_SIZE then ub_chunk_rx A else ub_stack A)"

text \<open>The caller clears the buffer, then \<open>ra_send_phase_b\<close> and \<open>ra_send\<close> run the exchange.\<close>

definition usb_clear :: "usb_bufs \<Rightarrow> nat \<Rightarrow> usb_state \<Rightarrow> usb_state" where
  "usb_clear A n s = s\<lparr> us_store := (us_store s)(rx_addr A n := replicate n 0) \<rparr>"

definition usb_send_phase_b ::
  "'k usb_kernel \<Rightarrow> usb_bufs \<Rightarrow> bytes \<Rightarrow> nat \<Rightarrow> usb_state \<Rightarrow> 'k \<Rightarrow> (s32 \<times> usb_state \<times> 'k) option"
where
  "usb_send_phase_b K A tx n s k =
     (case ik_hw_timer K k of (t0, k0) \<Rightarrow>
        do { (ret, s1, k1) \<leftarrow> ra_usb_xfer K (ub_snap_tx A) tx (Some (rx_addr A n)) n 0 50 s k0;
             case ik_hw_timer K k1 of (t1, k2) \<Rightarrow>
               let s2 = s1\<lparr> g_t_wait_ms := vi_ticks_to_us (t1 - t0) div 1000 \<rparr> in
               Some (ret, if ret < 0 then s2\<lparr> g_to_phaseb := g_to_phaseb s2 + 1 \<rparr> else s2, k2) })"

definition usb_send ::
  "'k usb_kernel \<Rightarrow> usb_bufs \<Rightarrow> bytes \<Rightarrow> nat \<Rightarrow> usb_state \<Rightarrow> 'k \<Rightarrow> (s32 \<times> usb_state \<times> 'k) option"
where
  "usb_send K A tx n s k = ra_usb_xfer K (ub_stack A) tx (Some (rx_addr A n)) n (length tx) 100 s k"

definition usb_debug_send :: "'k usb_kernel \<Rightarrow> usb_bufs \<Rightarrow> bytes \<Rightarrow> usb_state \<Rightarrow> 'k \<Rightarrow> (usb_state \<times> 'k) option" where
  "usb_debug_send K A pkt s k =
     do { (ret, s1, k1) \<leftarrow> ra_usb_xfer K (ub_stack A) pkt None 0 0 50 s k;
          Some (if ret < 0 then s1\<lparr> g_to_dbg := g_to_dbg s1 + 1 \<rparr> else s1, k1) }"

text \<open>
  The link of the USB build. Its world is the state of the link and of the kernel; \<open>None\<close>
  is the world in which a wait has not returned, and it stays so.
\<close>

definition usb_run ::
  "(usb_state \<Rightarrow> 'k \<Rightarrow> (s32 \<times> usb_state \<times> 'k) option) \<Rightarrow> u32 \<Rightarrow> nat \<Rightarrow> (usb_state \<times> 'k) option
    \<Rightarrow> (s32 \<times> bytes) \<times> (usb_state \<times> 'k) option"
where
  "usb_run f a n w =
     (case do { (s, k) \<leftarrow> w; f s k } of
        None \<Rightarrow> ((-1, replicate n 0), None)
      | Some (ret, s, k) \<Rightarrow> ((ret, us_store s a), Some (s, k)))"

definition usb_link :: "'k usb_kernel \<Rightarrow> usb_bufs \<Rightarrow> (usb_state \<times> 'k) option ra_link" where
  "usb_link K A = \<lparr>
     lk_phase_b = (\<lambda>tx n. usb_run (\<lambda>s. usb_send_phase_b K A tx n (usb_clear A n s)) (rx_addr A n) n),
     lk_send = (\<lambda>tx n. usb_run (\<lambda>s. usb_send K A tx n (usb_clear A n s)) (rx_addr A n) n),
     lk_debug = (\<lambda>pkt w. do { (s, k) \<leftarrow> w; usb_debug_send K A pkt s k }),
     lk_post = (\<lambda>tx n w.
       case w of None \<Rightarrow> (-1, None)
       | Some (s, k) \<Rightarrow> (case ra_usb_post K (ub_snap_tx A) tx (ub_snap_rx A) n (usb_clear A n s) k of
           (r, s', k') \<Rightarrow> (r, Some (s', k')))),
     lk_reap = usb_run (ra_usb_reap K 50) (ub_snap_rx A) RA_SNAP_RX_BUF_SZ,
     lk_posted = (\<lambda>w. case w of None \<Rightarrow> False | Some (s, k) \<Rightarrow> ra_usb_posted s),
     lk_timer = (\<lambda>w. case w of None \<Rightarrow> (0, None)
       | Some (s, k) \<Rightarrow> (case ik_hw_timer K k of (t, k') \<Rightarrow> (t, Some (s, k')))),
     lk_wait_ms = (\<lambda>w. case w of None \<Rightarrow> 0 | Some (s, k) \<Rightarrow> g_t_wait_ms s),
     lk_to_phaseb = map_option (\<lambda>(s, k). (s\<lparr> g_to_phaseb := g_to_phaseb s + 1 \<rparr>, k)) \<rparr>"

section \<open>The store keeps the size of every buffer\<close>

lemma length_dma_write [simp]: "length (dma_write dst src) = length dst"
  by (simp add: dma_write_def)

lemma dma_in_frame:
  "length (us_store (dma_in s bs) a) = length (us_store s a)"
  by (simp add: dma_in_def)

lemma xs_loop_induct:
  assumes "xs_loop K tok s k = Some (s', k')"
    and "P s"
    and "\<And>s r. P s \<Longrightarrow> P (s\<lparr> xs_out_done := True, xs_out_res := r \<rparr>)"
    and "\<And>s r bs. P s \<Longrightarrow> P ((dma_in s bs)\<lparr> xs_in_done := True, xs_in_res := r \<rparr>)"
  shows "P s'"
proof -
  have "P s \<longrightarrow> P s'"
    by (rule xs_loop.raw_induct [where P = "\<lambda>K tok s k r. P s \<longrightarrow> P (fst r)",
          where y = "(s', k')", simplified, OF _ assms(1)])
       (use assms(3,4) in \<open>fastforce split: if_splits option.splits prod.splits xfer_msg.splits\<close>)
  then show ?thesis using assms(2) by simp
qed

lemma xs_loop_store:
  "xs_loop K tok s k = Some (s', k') \<Longrightarrow> length (us_store s' a) = length (us_store s a)"
  by (erule xs_loop_induct [where P = "\<lambda>t. length (us_store t a) = length (us_store s a)"])
     (simp_all add: dma_in_frame)

lemma xs_finish_frame:
  "xs_finish s = (r, s') \<Longrightarrow> us_store s' = us_store s \<and> post_open s' = post_open s"
  by (auto simp: xs_finish_def Let_def split: if_splits)

lemma xs_waitE:
  assumes "xs_wait K tm s k = Some (r, s', k')"
  obtains "\<not> xs_busy s" "r = 0" "s' = s" "k' = k"
  | tok s2 k1 k2 n where "xs_busy s" "xs_loop K tok (s\<lparr> g_tok := n \<rparr>) k1 = Some (s2, k2)"
      "xs_finish s2 = (r, s')"
proof (cases "xs_busy s")
  case False
  then show ?thesis using that(1) assms by (simp add: xs_wait_def)
next
  case True
  obtain t tk s1 k1 where c: "(if tm \<noteq> 0 then (let tk = next_tok 0x7A000000 (g_tok s)
      in case ik_create_timer K (tm * 1000) tk k of (t, k1) \<Rightarrow> (t, tk, s\<lparr> g_tok := g_tok s + 1 \<rparr>, k1))
      else (-1, 0, s, k)) = (t, tk, s1, k1)" by (metis prod_cases4)
  have "s1 = s\<lparr> g_tok := g_tok s + 1 \<rparr> \<or> s1 = s\<lparr> g_tok := g_tok s \<rparr>"
    using c by (auto simp: Let_def split: if_splits prod.splits)
  then obtain n where n: "s1 = s\<lparr> g_tok := n \<rparr>" by blast
  obtain s2 k2 where l: "xs_loop K (if t \<ge> 0 then Some tk else None) s1 k1 = Some (s2, k2)"
    using assms True unfolding xs_wait_def c by (auto split: Option.bind_splits)
  then have "xs_finish s2 = (r, s')"
    using assms True unfolding xs_wait_def c by (auto split: prod.splits)
  then show ?thesis using that(2) [OF True] l n by blast
qed

lemma xs_wait_store:
  assumes "xs_wait K tm s k = Some (r, s', k')"
  shows "length (us_store s' a) = length (us_store s a)"
  using assms by (rule xs_waitE) (auto dest!: xs_finish_frame xs_loop_store [where a = a])

lemma xs_post_store:
  "xs_post K oa out ia cap p s k = (r, s', k') \<Longrightarrow> us_store s' = us_store s"
  by (auto simp: xs_post_def Let_def split: if_splits prod.splits)

lemma length_bounce [simp]: "length (bounce small r skip n) = n"
  by (simp add: bounce_def length_blit sub_bytes_def)

lemma usb_xferE:
  assumes "ra_usb_xfer K ta tx rx n skip tm s k = Some (r, s', k')"
  obtains (down) "\<not> g_up s" "s' = s" "r = RA_USB_EDEAD"
  | (early) r0 k1 where "g_up s" "xs_wait K tm s k = Some (r0, s', k1)" "r < 0"
  | (posted) r0 s1 k1 out inb cap k2 where "g_up s" "xs_wait K tm s k = Some (r0, s1, k1)" "0 \<le> r0"
      "out_buffer K ta tx = Some out" "in_buffer K rx n skip = Some (inb, cap)"
      "xs_post K out (usb_frame tx) inb cap False s1 k1 = (r, s', k2)" "r < 0"
  | (waited) r0 s1 k1 out inb cap r2 s2 k2 r3 s3 k3 where "g_up s" "xs_wait K tm s k = Some (r0, s1, k1)" "0 \<le> r0"
      "out_buffer K ta tx = Some out" "in_buffer K rx n skip = Some (inb, cap)"
      "xs_post K out (usb_frame tx) inb cap False s1 k1 = (r2, s2, k2)" "0 \<le> r2"
      "xs_wait K tm s2 k2 = Some (r3, s3, k3)"
      "r < 0 \<and> s' = s3 \<or> r = 0 \<and> 0 \<le> r3 \<and> 0 \<le> xs_result s3 \<and>
        s' = (if rx \<noteq> None \<and> inb \<noteq> the rx \<and> n > 0
              then s3\<lparr> us_store := (us_store s3)(the rx :=
                     bounce (us_store s3 (ik_small_in K)) (xs_in_res s3) skip n) \<rparr>
              else s3)"
proof (cases "g_up s")
  case False
  then show ?thesis using that(1) assms by (simp add: ra_usb_xfer_def)
next
  case True
  obtain r0 s1 k1 where w: "xs_wait K tm s k = Some (r0, s1, k1)"
    using assms True by (auto simp: ra_usb_xfer_def split: Option.bind_splits)
  consider (e) "r0 < 0 \<or> out_buffer K ta tx = None \<or> in_buffer K rx n skip = None"
    | (io) out inb cap where "0 \<le> r0" "out_buffer K ta tx = Some out" "in_buffer K rx n skip = Some (inb, cap)"
    by (cases "in_buffer K rx n skip"; cases "out_buffer K ta tx") fastforce+
  then show ?thesis
  proof cases
    case e
    then have "s' = s1" "r < 0"
      using assms True w by (auto simp: ra_usb_xfer_def split: if_splits option.splits)
    then show ?thesis using that(2) True w by blast
  next
    case io
    obtain r2 s2 k2 where p: "xs_post K out (usb_frame tx) inb cap False s1 k1 = (r2, s2, k2)"
      by (metis prod_cases3)
    show ?thesis
    proof (cases "r2 < 0")
      case neg: True
      then have "s' = s2" "r = r2" using assms True w io p by (auto simp: ra_usb_xfer_def)
      then show ?thesis using that(3) [OF True w io] p neg by blast
    next
      case False
      then obtain r3 s3 k3 where w3: "xs_wait K tm s2 k2 = Some (r3, s3, k3)"
        using assms True w io p by (auto simp: ra_usb_xfer_def split: Option.bind_splits)
      show ?thesis
        by (rule that(4) [OF True w io p _ w3])
           (use assms True w io p False w3 in \<open>auto simp: ra_usb_xfer_def split: if_splits\<close>)
    qed
  qed
qed

lemma usb_xfer_store:
  assumes "ra_usb_xfer K ta tx (Some a) n skip tm s k = Some (r, s', k')"
    and len: "length (us_store s a) = n"
  shows "length (us_store s' a) = n"
  using assms(1)
proof (cases rule: usb_xferE)
  case down
  then show ?thesis using len by simp
next
  case (early r0 k1)
  then show ?thesis using xs_wait_store [OF early(2)] len by simp
next
  case (posted r0 s1 k1 out inb cap k2)
  then show ?thesis using xs_wait_store [OF posted(2)] xs_post_store [OF posted(6)] len by simp
next
  case (waited r0 s1 k1 out inb cap r2 s2 k2 r3 s3 k3)
  then show ?thesis
    using xs_wait_store [OF waited(2)] xs_post_store [OF waited(6)] xs_wait_store [OF waited(8)] len
    by (auto split: if_splits)
qed

interpretation usb_transport: ra_transport "usb_link K A" for K :: "'k usb_kernel" and A
proof
  fix tx n and w :: "(usb_state \<times> 'k) option"
  have clr: "length (us_store (usb_clear A n s) (rx_addr A n)) = n" for s by (simp add: usb_clear_def)
  have x: "length (us_store s' (rx_addr A n)) = n"
    if send: "usb_send_phase_b K A tx n (usb_clear A n s) k = Some (r, s', k')" for s k r s' k'
  proof -
    obtain k0 r1 s1 k1 where "ra_usb_xfer K (ub_snap_tx A) tx (Some (rx_addr A n)) n 0 50
        (usb_clear A n s) k0 = Some (r1, s1, k1)" and s1: "us_store s' = us_store s1"
      using send by (auto simp: usb_send_phase_b_def Let_def split: prod.splits Option.bind_splits if_splits)
    from usb_xfer_store [OF this(1)] clr show ?thesis by (simp add: s1)
  qed
  show "length (snd (fst (lk_phase_b (usb_link K A) tx n w))) = n"
    using x by (auto simp: usb_link_def usb_run_def split: option.splits Option.bind_splits)
qed

section \<open>Framing and DMA limits\<close>

lemma usb_frame_length:
  "length (usb_frame tx) mod 64 \<noteq> 0" "take (length tx) (usb_frame tx) = tx"
  "length tx \<le> RA_USB_TX_MAX \<Longrightarrow> length (usb_frame tx) \<le> RA_USB_TX_MAX"
proof -
  show "length (usb_frame tx) mod 64 \<noteq> 0" by (simp add: usb_frame_def mod_Suc)
  show "take (length tx) (usb_frame tx) = tx" by (simp add: usb_frame_def)
  assume "length tx \<le> RA_USB_TX_MAX"
  moreover have "length tx mod 64 = 0 \<Longrightarrow> length tx \<noteq> 8191" by presburger
  ultimately show "length (usb_frame tx) \<le> RA_USB_TX_MAX" by (auto simp: usb_frame_def)
qed

lemma dma_ok_page: "a AND 4095 = 0 \<Longrightarrow> n \<le> 8192 \<Longrightarrow> dma_ok a n"
proof -
  assume a: "a AND 4095 = 0" and n: "n \<le> 8192"
  have "a AND 31 = (a AND 4095) AND 31" by (simp add: and.assoc)
  then have "a AND 31 = 0" using a by simp
  moreover have "(of_nat n :: u32) \<le> 8192" using n by (simp add: word_le_nat_alt unat_of_nat_u32)
  ultimately show "dma_ok a n" using a by (simp add: dma_ok_def)
qed

lemma dma_ok_line: "a AND 31 = 0 \<Longrightarrow> n \<le> 4097 \<Longrightarrow> dma_ok a n"
proof -
  assume a: "a AND 31 = 0" and n: "n \<le> 4097"
  have "(a AND 4095) \<le> 4095" by (rule word_and_le1)
  then have p: "unat (a AND 4095) \<le> 4095" by (simp add: word_le_nat_alt)
  have "unat ((a AND 4095) + of_nat n) = unat (a AND 4095) + n"
    using p n by (subst unat_u32_add) (simp_all add: unat_of_nat_u32)
  then have "(a AND 4095) + of_nat n \<le> 8192" using p n by (simp add: word_le_nat_alt)
  then show "dma_ok a n" using a by (simp add: dma_ok_def)
qed

section \<open>One exchange on the wire\<close>

text \<open>
  The exchange record and the flags of the posted exchange agree: an open post that is not
  ready is the exchange on the wire, and, on a live link, a posted exchange on the wire is
  open and not ready.
\<close>

definition usb_inv :: "usb_state \<Rightarrow> bool" where
  "usb_inv s \<longleftrightarrow>
     (post_open s \<and> \<not> post_ready s \<longrightarrow> xs_busy s \<and> xs_is_post s) \<and>
     (xs_busy s \<and> xs_is_post s \<and> \<not> g_dead s \<longrightarrow> post_open s \<and> \<not> post_ready s) \<and>
     (g_up s \<longrightarrow> g_bk s \<noteq> BK_NONE)"

lemma usb_invI:
  assumes "post_open s \<Longrightarrow> \<not> post_ready s \<Longrightarrow> xs_busy s \<and> xs_is_post s"
    and "xs_busy s \<Longrightarrow> xs_is_post s \<Longrightarrow> \<not> g_dead s \<Longrightarrow> post_open s \<and> \<not> post_ready s"
    and "g_up s \<Longrightarrow> g_bk s \<noteq> BK_NONE"
  shows "usb_inv s"
  using assms unfolding usb_inv_def by blast

lemma usb_invD:
  assumes "usb_inv s"
  shows "post_open s \<Longrightarrow> \<not> post_ready s \<Longrightarrow> xs_busy s \<and> xs_is_post s"
    and "xs_busy s \<Longrightarrow> xs_is_post s \<Longrightarrow> \<not> g_dead s \<Longrightarrow> post_open s \<and> \<not> post_ready s"
    and "g_up s \<Longrightarrow> g_bk s \<noteq> BK_NONE"
  using assms unfolding usb_inv_def by blast+

lemma usb_inv_store [simp]: "usb_inv (s\<lparr> us_store := f \<rparr>) = usb_inv s"
  by (simp add: usb_inv_def)

lemma usb_zero_inv: "usb_inv usb_zero"
  by (simp add: usb_inv_def usb_zero_def)

lemma xs_loop_frame:
  assumes "xs_loop K tok s k = Some (s', k')"
  shows "post_open s' = post_open s \<and> post_ready s' = post_ready s \<and> xs_busy s' = xs_busy s
    \<and> xs_is_post s' = xs_is_post s \<and> g_dead s' = g_dead s \<and> g_up s' = g_up s \<and> g_bk s' = g_bk s
    \<and> xs_out_len s' = xs_out_len s"
  using assms
  by (rule xs_loop_induct [where P = "\<lambda>s'. post_open s' = post_open s \<and> post_ready s' = post_ready s
      \<and> xs_busy s' = xs_busy s \<and> xs_is_post s' = xs_is_post s \<and> g_dead s' = g_dead s
      \<and> g_up s' = g_up s \<and> g_bk s' = g_bk s \<and> xs_out_len s' = xs_out_len s"])
     (simp_all add: dma_in_def)

lemma xs_finishE:
  assumes "xs_finish s = (r, s')"
  obtains (timeout) "r = RA_USB_ETIMEOUT" "s' = s" "\<not> (xs_out_done s \<and> xs_in_done s)"
  | (posted) "r = 0" "xs_out_done s" "xs_in_done s" "xs_is_post s"
      "s' = s\<lparr> xs_busy := False, xs_is_post := False, post_res := xs_result (s\<lparr> xs_busy := False \<rparr>),
               post_ready := True \<rparr>"
  | (plain) "r = 0" "xs_out_done s" "xs_in_done s" "\<not> xs_is_post s" "s' = s\<lparr> xs_busy := False \<rparr>"
  using assms that by (simp add: xs_finish_def Let_def split: if_splits)

lemma xs_wait_frame:
  assumes "xs_wait K tm s k = Some (r, s', k')"
  shows "g_up s' = g_up s" "g_dead s' = g_dead s" "g_bk s' = g_bk s" "post_open s' = post_open s"
    "xs_out_len s' = xs_out_len s"
proof -
  have "g_up s' = g_up s \<and> g_dead s' = g_dead s \<and> g_bk s' = g_bk s \<and> post_open s' = post_open s
    \<and> xs_out_len s' = xs_out_len s"
  proof (cases rule: xs_waitE [OF assms])
    case (2 tok s2 k1 k2 n)
    note f = xs_loop_frame [OF 2(2)]
    show ?thesis by (cases rule: xs_finishE [OF 2(3)]) (use f in simp_all)
  qed simp
  then show "g_up s' = g_up s" "g_dead s' = g_dead s" "g_bk s' = g_bk s" "post_open s' = post_open s"
    "xs_out_len s' = xs_out_len s" by simp_all
qed

lemma xs_wait_result:
  assumes "xs_wait K tm s k = Some (r, s', k')"
  shows "r = 0 \<and> \<not> xs_busy s' \<or> r = RA_USB_ETIMEOUT \<and> xs_busy s'"
    and "r = 0 \<Longrightarrow> xs_busy s \<Longrightarrow> xs_out_done s' \<and> xs_in_done s'"
proof -
  have "(r = 0 \<and> \<not> xs_busy s' \<or> r = RA_USB_ETIMEOUT \<and> xs_busy s')
    \<and> (r = 0 \<longrightarrow> xs_busy s \<longrightarrow> xs_out_done s' \<and> xs_in_done s')"
  proof (cases rule: xs_waitE [OF assms])
    case (2 tok s2 k1 k2 n)
    note f = xs_loop_frame [OF 2(2)]
    show ?thesis by (cases rule: xs_finishE [OF 2(3)]) (use f 2(1) in simp_all)
  qed simp
  then show "r = 0 \<and> \<not> xs_busy s' \<or> r = RA_USB_ETIMEOUT \<and> xs_busy s'"
    and "r = 0 \<Longrightarrow> xs_busy s \<Longrightarrow> xs_out_done s' \<and> xs_in_done s'" by simp_all
qed

lemma usb_inv_cong:
  assumes "post_open t = post_open s" "post_ready t = post_ready s" "xs_busy t = xs_busy s"
    "xs_is_post t = xs_is_post s" "g_dead t = g_dead s" "g_up t = g_up s" "g_bk t = g_bk s"
  shows "usb_inv t = usb_inv s"
  using assms by (simp add: usb_inv_def)

lemma xs_wait_inv:
  assumes "xs_wait K tm s k = Some (r, s', k')" and inv: "usb_inv s"
  shows "usb_inv s'"
proof (cases rule: xs_waitE [OF assms(1)])
  case (2 tok s2 k1 k2 n)
  have f: "usb_inv s2"
    using xs_loop_frame [OF 2(2)] inv by (subst usb_inv_cong [of s2 s]) simp_all
  show ?thesis
    using 2(3)
  proof (cases rule: xs_finishE)
    case posted
    show ?thesis unfolding posted(5) by (rule usb_invI) (use f in \<open>auto dest: usb_invD(3)\<close>)
  next
    case plain
    show ?thesis unfolding plain(5) by (rule usb_invI) (use f plain(4) in \<open>auto dest: usb_invD\<close>)
  qed (use f in simp)
qed (use inv in simp)

lemma xs_postE:
  assumes "xs_post K oa out ia cap p s k = (r, s', k')"
  obtains (refused) "s' = s" "r < 0" | (no_in) "\<not> xs_busy s" "r < 0" 
      "s' = s\<lparr> xs_out_done := False, xs_in_done := False, xs_out_res := 0, xs_in_res := 0,
        xs_out_len := length out, xs_in_buf := ia, xs_in_cap := cap, xs_is_post := p \<rparr>"
  | (no_out) e where "\<not> xs_busy s" "r = RA_USB_EDEAD" "e < 0"
      "s' = s\<lparr> xs_in_done := False, xs_in_res := 0, xs_out_len := length out, xs_in_buf := ia,
        xs_in_cap := cap, xs_is_post := p, xs_busy := True, xs_out_done := True, xs_out_res := e,
        g_dead := True \<rparr>"
  | (sent) "\<not> xs_busy s" "r = 0" "\<not> g_dead s"
      "s' = s\<lparr> xs_out_done := False, xs_in_done := False, xs_out_res := 0, xs_in_res := 0,
        xs_out_len := length out, xs_in_buf := ia, xs_in_cap := cap, xs_is_post := p, xs_busy := True \<rparr>"
proof (cases "g_dead s \<or> xs_busy s")
  case True
  then show ?thesis using assms that(1) by (cases "g_dead s") (simp_all add: xs_post_def)
next
  case False
  define s1 where "s1 = s\<lparr> xs_out_done := False, xs_in_done := False, xs_out_res := 0, xs_in_res := 0,
        xs_out_len := length out, xs_in_buf := ia, xs_in_cap := cap, xs_is_post := p \<rparr>"
  obtain r1 k1 where b1: "bulk_async K s1 EP_IN cap ia [] k = (r1, k1)" by fastforce
  obtain r2 k2 where b2: "bulk_async K (s1\<lparr> xs_busy := True \<rparr>) EP_OUT (length out) oa out k1 = (r2, k2)" by fastforce
  note eq = assms [unfolded xs_post_def Let_def, folded s1_def, unfolded b1 prod.case b2 if_not_P [OF False [unfolded de_Morgan_disj, THEN conjunct1]]
    if_not_P [OF False [unfolded de_Morgan_disj, THEN conjunct2]]]
  show ?thesis
  proof (cases "r1 < 0")
    case True
    have "(r1, s1, k1) = (r, s', k')" using eq unfolding if_P [OF True] .
    then show ?thesis using that(2) False True by (simp add: s1_def)
  next
    case r1: False
    show ?thesis
    proof (cases "r2 < 0")
      case True
      have "(RA_USB_EDEAD, s1\<lparr> xs_busy := True, xs_out_done := True, xs_out_res := r2, g_dead := True \<rparr>, k2)
          = (r, s', k')" using eq unfolding if_not_P [OF r1] if_P [OF True] .
      then show ?thesis using that(3) [of r2] False True by (simp add: s1_def)
    next
      case r2: False
      have "(0, s1\<lparr> xs_busy := True \<rparr>, k2) = (r, s', k')"
        using eq unfolding if_not_P [OF r1] if_not_P [OF r2] .
      then show ?thesis using that(4) False by (simp add: s1_def)
    qed
  qed
qed

lemma xs_post_inv:
  assumes p: "xs_post K oa out ia cap p s k = (r, s', k')" and inv: "usb_inv s" and o: "p \<longrightarrow> \<not> post_open s"
  shows "\<not> p \<or> r < 0 \<Longrightarrow> usb_inv s'"
    and "p \<Longrightarrow> 0 \<le> r \<Longrightarrow> usb_inv (s'\<lparr> post_open := True, post_ready := False \<rparr>)"
proof -
  show "usb_inv s'" if "\<not> p \<or> r < 0"
    using p
  proof (cases rule: xs_postE)
    case refused
    then show ?thesis using inv by simp
  next
    case no_in
    show ?thesis unfolding no_in(3) by (rule usb_invI) (use no_in(1) in \<open>auto dest: usb_invD [OF inv]\<close>)
  next
    case (no_out e)
    show ?thesis unfolding no_out(4) by (rule usb_invI) (use no_out(1) o in \<open>auto dest: usb_invD [OF inv]\<close>)
  next
    case sent
    show ?thesis unfolding sent(4)
      by (rule usb_invI) (use sent(1,2) that in \<open>auto dest: usb_invD [OF inv]\<close>)
  qed
  show "usb_inv (s'\<lparr> post_open := True, post_ready := False \<rparr>)" if "p" "0 \<le> r"
    using p
  proof (cases rule: xs_postE)
    case sent
    show ?thesis unfolding sent(4) by (rule usb_invI) (use that in \<open>auto dest: usb_invD [OF inv]\<close>)
  qed (use that in simp_all)
qed

lemma usb_xfer_inv:
  assumes "ra_usb_xfer K ta tx rx n skip tm s k = Some (r, s', k')" and inv: "usb_inv s"
  shows "usb_inv s'"
  using assms(1)
proof (cases rule: usb_xferE)
  case down
  then show ?thesis using inv by simp
next
  case (early r0 k1)
  show ?thesis by (rule xs_wait_inv [OF early(2) inv])
next
  case (posted r0 s1 k1 out inb cap k2)
  then show ?thesis using xs_post_inv(1) [OF posted(6) xs_wait_inv [OF posted(2) inv]] by simp
next
  case (waited r0 s1 k1 out inb cap r2 s2 k2 r3 s3 k3)
  have "usb_inv s2" using xs_post_inv(1) [OF waited(6) xs_wait_inv [OF waited(2) inv]] by simp
  from xs_wait_inv [OF waited(8) this] waited(9) show ?thesis by (elim disjE) (simp_all split: if_splits)
qed

lemma usb_post_inv:
  assumes "ra_usb_post K ta tx rx cap s k = (r, s', k')" and inv: "usb_inv s"
  shows "usb_inv s'"
proof -
  obtain r1 s1 k1 where p: "xs_post K ta (usb_frame tx) rx cap True s k = (r1, s1, k1)" by (metis prod_cases3)
  consider "s' = s" | "\<not> post_open s" "r1 < 0" "s' = s1"
    | "\<not> post_open s" "0 \<le> r1" "s' = s1\<lparr> post_open := True, post_ready := False \<rparr>"
    using assms(1) unfolding ra_usb_post_def p prod.case
    by (cases "\<not> g_up s"; cases "xs_busy s \<or> post_open s"; cases "r1 < 0") (auto split: if_splits)
  then show ?thesis using inv xs_post_inv [OF p inv] by cases simp_all
qed

lemma usb_reap_inv:
  assumes "ra_usb_reap K tm s k = Some (r, s', k')" and inv: "usb_inv s"
  shows "usb_inv s'"
proof (cases "post_open s \<and> \<not> post_ready s")
  case idle: False
  show ?thesis
  proof (cases "post_open s")
    case False
    then have "s' = s" using assms(1) by (simp add: ra_usb_reap_def)
    then show ?thesis using inv by simp
  next
    case True
    then have r: "post_ready s" using idle by simp
    then have "s' = s\<lparr> post_open := False, post_ready := False \<rparr>"
      using assms(1) True by (simp add: ra_usb_reap_def)
    then show ?thesis by (simp only:) (rule usb_invI, use usb_invD [OF inv] r in auto)
  qed
next
  case True
  let ?tm = "if tm \<noteq> 0 then tm else 1"
  obtain r1 s1 k1 where w: "xs_wait K ?tm s k = Some (r1, s1, k1)"
    using assms(1) True by (auto simp: ra_usb_reap_def split: Option.bind_splits)
  note i = xs_wait_inv [OF w inv]
  show ?thesis
  proof (cases "r1 < 0")
    case neg: True
    then have "s' = s1" using assms(1) True w by (simp add: ra_usb_reap_def)
    then show ?thesis using i by simp
  next
    case False
    then have "\<not> xs_busy s1" using xs_wait_result(1) [OF w] by simp
    moreover have "s' = s1\<lparr> post_open := False, post_ready := False \<rparr>"
      using assms(1) True w False by (simp add: ra_usb_reap_def)
    ultimately show ?thesis by (simp only:) (rule usb_invI, use usb_invD [OF i] in auto)
  qed
qed
section \<open>Discovery and start\<close>

lemma ven_find_frame:
  "ven_find K n s k = Some (r, s', k') \<Longrightarrow>
     (\<exists>p t. s' = s\<lparr> g_tok := t, g_disc_pending := p \<rparr>) \<and> (\<forall>e. r = Inl e \<longrightarrow> e < 0)"
proof (induction n arbitrary: s k)
  case 0
  then have "s' = s\<lparr> g_tok := g_tok s, g_disc_pending := g_disc_pending s \<rparr>" by simp
  moreover have "\<forall>e. r = Inl e \<longrightarrow> e < 0" using 0 by auto
  ultimately show ?case by blast
next
  case (Suc n)
  obtain r1 k1 where q: "(if g_disc_pending s then (0, k) else ik_device_change K (g_fd s) k) = (r1, k1)"
    by fastforce
  let ?s1 = "s\<lparr> g_tok := g_tok s + 1, g_disc_pending := True \<rparr>"
  let ?s2 = "s\<lparr> g_tok := g_tok s + 1, g_disc_pending := False \<rparr>"
  show ?case
  proof (cases "r1 < 0")
    case True
    then have r: "r = Inl r1" and s: "s' = s\<lparr> g_tok := g_tok s, g_disc_pending := g_disc_pending s \<rparr>"
      using Suc.prems unfolding ven_find.simps q by simp_all
    have "\<forall>e. r = Inl e \<longrightarrow> e < 0" using r True by simp
    with s show ?thesis by blast
  next
    case False
    obtain t k2 where c: "ik_create_timer K 1500000 (next_tok 0x7B000000 (g_tok s)) k1 = (t, k2)" by fastforce
    obtain m k3 where d: "disc_loop K (next_tok 0x7B000000 (g_tok s)) k2 = Some (m, k3)"
      using Suc.prems False unfolding ven_find.simps q by (auto simp: Let_def c split: Option.bind_splits)
    define k4 where "k4 = (if t \<ge> 0 then ik_destroy_timer K t k3 else k3)"
    have e: "(case m of None \<Rightarrow> Some (Inl RA_USB_ETIMEOUT, ?s1, k4)
        | Some (n', dl) \<Rightarrow> (case ven_scan dl n' of Some dev \<Rightarrow> Some (Inr dev, ?s2, ik_attach_finish K (g_fd s) k4)
            | None \<Rightarrow> ven_find K n ?s2 (ik_attach_finish K (g_fd s) k4))) = Some (r, s', k')"
      using Suc.prems False unfolding ven_find.simps q k4_def
      by (cases m) (simp_all add: Let_def c d split: prod.splits)
    show ?thesis
    proof (cases m)
      case None
      then have "r = Inl RA_USB_ETIMEOUT" "s' = ?s1" using e by simp_all
      then show ?thesis by auto
    next
      case (Some nb)
      obtain n' dl where nb: "nb = (n', dl)" by fastforce
      show ?thesis
      proof (cases "ven_scan dl n'")
        case None
        then have "ven_find K n ?s2 (ik_attach_finish K (g_fd s) k4) = Some (r, s', k')"
          using e Some nb by simp
        from Suc.IH [OF this] show ?thesis by auto
      next
        case (Some dev)
        then have "r = Inr dev" "s' = ?s2" using e \<open>m = Some nb\<close> nb by simp_all
        then show ?thesis by auto
      qed
    qed
  qed
qed

lemma usb_attach_spec:
  assumes "usb_attach K s k = Some (r, s', k')" and up: "\<not> g_up s" and bk: "g_bk s \<noteq> BK_NONE"
  shows "(r = 0 \<longleftrightarrow> g_up s') \<and> (usb_inv s \<longrightarrow> usb_inv s')"
proof -
  obtain x s1 k1 where f: "ven_find K 2 s k = Some (x, s1, k1)"
    using assms(1) by (auto simp: usb_attach_def simp del: ven_find.simps split: Option.bind_splits)
  obtain p t where s1: "s1 = s\<lparr> g_tok := t, g_disc_pending := p \<rparr>" and neg: "\<forall>e. x = Inl e \<longrightarrow> e < 0"
    using ven_find_frame [OF f] by blast
  show ?thesis
  proof (cases x)
    case (Inl e)
    then have "r = e" "s' = s1"
      using assms(1) f by (simp_all add: usb_attach_def del: ven_find.simps)
    then show ?thesis using neg Inl s1 up by (simp add: usb_inv_cong [of "s\<lparr> g_tok := t, g_disc_pending := p \<rparr>" s])
  next
    case (Inr dev)
    then have "r = 0" and s': "s' = s1\<lparr> g_dev := dev, g_up := True \<rparr>"
      using assms(1) f by (simp_all add: usb_attach_def del: ven_find.simps split: prod.splits)
    moreover have "usb_inv s'" if i: "usb_inv s"
      unfolding s' s1 by (rule usb_invI) (use usb_invD [OF i] bk in simp_all)
    ultimately show ?thesis by simp
  qed
qed

lemma usb_open_spec:
  assumes "usb_open K s k = (r, s', k')" and up: "\<not> g_up s" and bk: "g_bk s = BK_NONE"
  shows "(if g_bk s' = BK_VEN then \<not> g_up s' else (r = 0 \<longleftrightarrow> g_up s')) \<and> (usb_inv s \<longrightarrow> usb_inv s')"
proof -
  have keep: "usb_inv s \<longrightarrow> usb_inv (s\<lparr> g_fd := f, g_bk := b \<rparr>)" for f b
    using up by (auto intro!: usb_invI dest: usb_invD)
  have keep': "usb_inv s \<longrightarrow> usb_inv (s\<lparr> g_fd := f \<rparr>)" for f
    by (subst usb_inv_cong [of _ s]) simp_all
  have open_oh0: "usb_inv s \<longrightarrow> usb_inv (s\<lparr> g_fd := f, g_bk := BK_OH0, g_up := True \<rparr>)" for f
    by (auto intro!: usb_invI dest: usb_invD)
  obtain r1 k1 where o1: "ik_open K ''/dev/usb/ven'' k = (r1, k1)" by fastforce
  obtain r2 v k2 where o2: "ik_get_version K r1 k1 = ((r2, v), k2)" by (metis prod.collapse)
  obtain r3 k3 where o3: "ik_open K ''/dev/usb/oh0/303a/4052'' k1 = (r3, k3)" by fastforce
  note d = assms(1) [unfolded usb_open_def o1 prod.case o2 o3]
  consider (bad) "r1 \<ge> 0" "r2 \<noteq> 0 \<or> v \<noteq> 0x50001" | (ven) "r1 \<ge> 0" "\<not> (r2 \<noteq> 0 \<or> v \<noteq> 0x50001)"
    | (taken) "\<not> r1 \<ge> 0" "r1 = IOS_RAW_EINVAL" | (none) "\<not> r1 \<ge> 0" "r1 \<noteq> IOS_RAW_EINVAL" "r3 < 0"
    | (oh0) "\<not> r1 \<ge> 0" "r1 \<noteq> IOS_RAW_EINVAL" "\<not> r3 < 0" by blast
  then show ?thesis
  proof cases
    case bad
    have "r = RA_USB_EDEAD" "s' = s\<lparr> g_fd := -1 \<rparr>" using d unfolding if_P [OF bad(1)] if_P [OF bad(2)] by simp_all
    then show ?thesis using up bk keep' by simp
  next
    case ven
    have "s' = s\<lparr> g_fd := r1, g_bk := BK_VEN \<rparr>" using d unfolding if_P [OF ven(1)] if_not_P [OF ven(2)] by simp
    then show ?thesis using up keep by simp
  next
    case taken
    have "r = r1" "s' = s" using d unfolding if_not_P [OF taken(1)] if_P [OF taken(2)] by simp_all
    then show ?thesis using up bk taken by simp
  next
    case none
    have "r = r3" "s' = s"
      using d unfolding if_not_P [OF none(1)] if_not_P [OF none(2)] if_P [OF none(3)] by simp_all
    then show ?thesis using up bk none by simp
  next
    case oh0
    have "r = 0" "s' = s\<lparr> g_fd := r3, g_bk := BK_OH0, g_up := True \<rparr>"
      using d unfolding if_not_P [OF oh0(1)] if_not_P [OF oh0(2)] if_not_P [OF oh0(3)] by simp_all
    then show ?thesis using open_oh0 by simp
  qed
qed

lemma usb_init_spec:
  assumes "ra_usb_init K s k = Some (r, s', k')"
  shows "(r = 0 \<longleftrightarrow> g_up s') \<and> (usb_inv s \<longrightarrow> usb_inv s')"
proof (cases "g_up s")
  case True
  then show ?thesis using assms by (simp add: ra_usb_init_def)
next
  case up: False
  obtain s1 k1 where q: "usb_queues K s k = (s1, k1)" by fastforce
  have s1: "\<not> g_up s1 \<and> (usb_inv s \<longrightarrow> usb_inv s1)"
  proof (cases "g_inited s")
    case True
    then show ?thesis using q up by (simp add: usb_queues_def)
  next
    case False
    obtain a ka b kb where "ik_queue_create K 8 k = (a, ka)" "ik_queue_create K 4 ka = (b, kb)" by fastforce
    then have "s1 = s\<lparr> g_bk := BK_NONE, g_fd := -1, g_dev := - 1, g_q := a, g_qdisc := b, g_inited := True \<rparr>"
      using q False by (simp add: usb_queues_def)
    then show ?thesis using up by (auto intro!: usb_invI dest: usb_invD)
  qed
  obtain r2 s2 k2 where o: "usb_open K s1 k1 = (r2, s2, k2)" by (metis prod_cases3)
  note d = assms [unfolded ra_usb_init_def q prod.case if_not_P [OF up] o]
  show ?thesis
  proof (cases "g_q s1 < 0 \<or> g_qdisc s1 < 0")
    case True
    have "r = RA_USB_EDEAD" "s' = s1" using d unfolding if_P [OF True] by simp_all
    then show ?thesis using s1 by simp
  next
    case queues: False
    show ?thesis
    proof (cases "g_bk s1 = BK_NONE")
      case True
      note sp = usb_open_spec [OF o _ True]
      show ?thesis
      proof (cases "g_bk s2 = BK_VEN")
        case ven: True
        then have "usb_attach K s2 k2 = Some (r, s', k')" using d queues True by simp
        from usb_attach_spec [OF this] show ?thesis using sp s1 ven by simp
      next
        case False
        then have "r = r2" "s' = s2" using d queues True by simp_all
        then show ?thesis using sp s1 False by simp
      qed
    next
      case False
      then have "usb_attach K s1 k1 = Some (r, s', k')" using d queues by simp
      from usb_attach_spec [OF this] show ?thesis using s1 False by simp
    qed
  qed
qed

lemma filter_upt_hd:
  assumes "filter P [0..<n] = i # is'"
  shows "i < n \<and> P i \<and> (\<forall>j < i. \<not> P j)"
proof -
  have i: "i \<in> set (filter P [0..<n])" using assms by simp
  have "\<not> P j" if "j < i" for j
  proof
    assume "P j"
    then have "j \<in> set (i # is')" using that i by (simp flip: assms)
    moreover have "sorted (i # is')" by (simp flip: assms add: sorted_wrt_filter)
    ultimately show False using that by auto
  qed
  then show ?thesis using i by simp
qed

lemma ven_scan_Some:
  assumes "ven_scan devlist n = Some dev"
  shows "\<exists>i < 32. int i < n \<and> disc_match devlist i \<and> dev = be32 (sub_bytes devlist (i * 12) 4)
    \<and> (\<forall>j < i. \<not> disc_match devlist j)"
proof -
  obtain i js where f: "filter (disc_match devlist) [0..<min (nat n) 32] = i # js"
    and dev: "dev = be32 (sub_bytes devlist (i * 12) 4)"
    using assms by (auto simp: ven_scan_def split: list.splits)
  from filter_upt_hd [OF f] dev show ?thesis by (intro exI [of _ i]) auto
qed

section \<open>Waits and completed exchanges\<close>

text \<open>The messages the transfer queue delivers next.\<close>

fun recv_seq :: "'k usb_kernel \<Rightarrow> nat \<Rightarrow> 'k \<Rightarrow> xfer_msg list" where
  "recv_seq K 0 k = []"
| "recv_seq K (Suc n) k = (case ik_receive K k of None \<Rightarrow> [] | Some (m, k') \<Rightarrow> m # recv_seq K n k')"

text \<open>A wait whose timer message is delivered returns.\<close>

lemma xs_loop_returns:
  "XferWord tok \<in> set (recv_seq K n k) \<Longrightarrow> \<exists>s' k'. xs_loop K (Some tok) s k = Some (s', k')"
proof (induction n arbitrary: k s)
  case (Suc n)
  obtain m k1 where r: "ik_receive K k = Some (m, k1)"
    using Suc.prems by (cases "ik_receive K k") auto
  have ih: "\<exists>s' k'. xs_loop K (Some tok) t k1 = Some (s', k')" if "m \<noteq> XferWord tok" for t
    using Suc.IH [of k1 t] Suc.prems r that by auto
  show ?case
  proof (cases m)
    case (OutReply x)
    then show ?thesis using ih by (simp add: xs_loop.simps [of K "Some tok" s k] r)
  next
    case (InReply x bs)
    then show ?thesis using ih by (simp add: xs_loop.simps [of K "Some tok" s k] r)
  next
    case (XferWord v)
    then show ?thesis using ih by (cases "v = tok") (simp_all add: xs_loop.simps [of K "Some tok" s k] r)
  qed
qed simp

lemma usb_xfer_success:
  assumes "ra_usb_xfer K ta tx rx n skip tm s k = Some (0, s', k')"
  shows "xs_out_res s' = int (length (usb_frame tx))" "0 \<le> xs_in_res s'" "\<not> xs_busy s'"
    "xs_out_done s'" "xs_in_done s'"
proof -
  have "xs_out_res s' = int (length (usb_frame tx)) \<and> 0 \<le> xs_in_res s' \<and> \<not> xs_busy s'
    \<and> xs_out_done s' \<and> xs_in_done s'"
    using assms
  proof (cases rule: usb_xferE)
    case (waited r0 s1 k1 out inb cap r2 s2 k2 r3 s3 k3)
    have busy: "xs_busy s2 \<and> xs_out_len s2 = length (usb_frame tx)"
      using waited(6) by (cases rule: xs_postE) (use waited(7) in simp_all)
    have r3: "0 \<le> r3" "0 \<le> xs_result s3" using waited(9) by auto
    then have "r3 = 0" "\<not> xs_busy s3" using xs_wait_result(1) [OF waited(8)] by auto
    then have s3: "xs_out_done s3 \<and> xs_in_done s3" "xs_out_len s3 = length (usb_frame tx)"
      using xs_wait_result(2) [OF waited(8)] xs_wait_frame(5) [OF waited(8)] busy by auto
    have "xs_out_res s3 = int (xs_out_len s3)" "0 \<le> xs_in_res s3"
      using r3(2) by (auto simp: xs_result_def split: if_splits)
    then show ?thesis using waited(9) s3 \<open>\<not> xs_busy s3\<close> by (simp split: if_splits)
  qed simp_all
  then show "xs_out_res s' = int (length (usb_frame tx))" "0 \<le> xs_in_res s'" "\<not> xs_busy s'"
    "xs_out_done s'" "xs_in_done s'" by simp_all
qed

section \<open>Every reachable state of the link\<close>

text \<open>
  The states the link can be in: the calls of its interface in any order, with the module
  changing its own buffers and counters in between.
\<close>

inductive usb_reach :: "'k usb_kernel \<Rightarrow> usb_state \<Rightarrow> bool" for K :: "'k usb_kernel" where
  zero: "usb_reach K usb_zero"
| init: "usb_reach K s \<Longrightarrow> ra_usb_init K s k = Some (r, s', k') \<Longrightarrow> usb_reach K s'"
| xfer: "usb_reach K s \<Longrightarrow> ra_usb_xfer K ta tx rx n skip tm s k = Some (r, s', k') \<Longrightarrow> usb_reach K s'"
| post: "usb_reach K s \<Longrightarrow> ra_usb_post K ta tx rxa cap s k = (r, s', k') \<Longrightarrow> usb_reach K s'"
| reap: "usb_reach K s \<Longrightarrow> ra_usb_reap K tm s k = Some (r, s', k') \<Longrightarrow> usb_reach K s'"
| module: "usb_reach K s \<Longrightarrow>
    usb_reach K (s\<lparr> us_store := f, g_to_phaseb := a, g_to_dbg := b, g_t_wait_ms := c \<rparr>)"

inductive_cases usb_reachE: "usb_reach K s"

text \<open>The bus of the examples: a queue of messages to deliver, every request accepted.\<close>

definition demo_kernel :: "xfer_msg list usb_kernel" where
  "demo_kernel = \<lparr> ik_open = (\<lambda>n k. (if n = ''/dev/usb/ven'' then -6 else 3, k)), ik_close = (\<lambda>_ k. k),
     ik_queue_create = (\<lambda>n k. (int n, k)), ik_get_version = (\<lambda>_ k. ((0, 0x50001), k)),
     ik_suspend_resume = (\<lambda>_ _ k. (0, k)), ik_attach_finish = (\<lambda>_ k. k), ik_device_change = (\<lambda>_ k. (0, k)),
     ik_ioctlv_async = (\<lambda>_ _ _ _ _ _ k. (0, k)), ik_create_timer = (\<lambda>_ _ k. (7, k)),
     ik_destroy_timer = (\<lambda>_ k. k),
     ik_receive = (\<lambda>k. case k of [] \<Rightarrow> None | m # ms \<Rightarrow> Some (m, ms)),
     ik_receive_disc = (\<lambda>k. None), ik_hw_timer = (\<lambda>k. (0, k)), ik_small_in = 0x1000, ik_small_out = 0x2000 \<rparr>"

definition demo_up :: usb_state where
  "demo_up = usb_zero\<lparr> g_bk := BK_OH0, g_fd := 3, g_dev := - 1, g_q := 8, g_qdisc := 4, g_inited := True,
                       g_up := True \<rparr>"

lemma demo_init: "ra_usb_init demo_kernel usb_zero [] = Some (0, demo_up, [])"
  by (simp add: ra_usb_init_def usb_queues_def usb_open_def demo_kernel_def usb_zero_def demo_up_def)

section \<open>Properties\<close>

text \<open>
  C22. In every reachable state of the link, whatever the order of its calls and the replies of
  the kernel: a posted exchange that is not yet answered is the one on the wire, an exchange of
  a post on a live wire is an open post without a reply (so a synchronous exchange can never
  take its answer), and the link is up only with a backend.
\<close>

theorem usb_link_invariant:
  assumes "usb_reach K s"
  shows "(post_open s \<and> \<not> post_ready s \<longrightarrow> xs_busy s \<and> xs_is_post s)
    \<and> (xs_busy s \<and> xs_is_post s \<and> \<not> g_dead s \<longrightarrow> post_open s \<and> \<not> post_ready s)
    \<and> (g_up s \<longrightarrow> g_bk s \<noteq> BK_NONE)"
proof -
  from assms have "usb_inv s"
  proof (induction rule: usb_reach.induct)
    case module
    show ?case by (rule usb_inv_cong [THEN iffD2, OF _ _ _ _ _ _ _ module.IH]) simp_all
  next
    case init
    show ?case using usb_init_spec [OF init.hyps(2)] init.IH by simp
  next
    case xfer
    show ?case by (rule usb_xfer_inv [OF xfer.hyps(2) xfer.IH])
  next
    case post
    show ?case by (rule usb_post_inv [OF post.hyps(2) post.IH])
  next
    case reap
    show ?case by (rule usb_reap_inv [OF reap.hyps(2) reap.IH])
  qed (rule usb_zero_inv)
  then show ?thesis unfolding usb_inv_def .
qed

theorem usb_link_invariant_witness: "g_up demo_up \<and> g_bk demo_up \<noteq> BK_NONE"
proof -
  have "usb_reach demo_kernel demo_up" by (rule usb_reach.init [OF usb_reach.zero demo_init])
  from usb_link_invariant [OF this] show ?thesis by (simp add: demo_up_def)
qed

text \<open>
  A synchronous exchange reports success only when the kernel accepted the whole framed
  request, a reply arrived without an error, and nothing of the exchange is left on the wire.
\<close>

theorem usb_xfer_success_complete:
  assumes "ra_usb_xfer K ta tx rx n skip tm s k = Some (0, s', k')"
  shows "xs_out_res s' = int (length (usb_frame tx)) \<and> 0 \<le> xs_in_res s' \<and> \<not> xs_busy s'
    \<and> xs_out_done s' \<and> xs_in_done s'"
  using usb_xfer_success [OF assms] by blast

theorem usb_xfer_success_complete_witness:
  "\<exists>s' k'. ra_usb_xfer demo_kernel 0 [5] None 0 0 50 demo_up [InReply 0 [], OutReply 1] = Some (0, s', k')
     \<and> xs_out_res s' = 1 \<and> \<not> xs_busy s'"
proof -
  have "\<exists>s' k'. ra_usb_xfer demo_kernel 0 [5] None 0 0 50 demo_up [InReply 0 [], OutReply 1] = Some (0, s', k')"
    by (simp add: ra_usb_xfer_def demo_kernel_def demo_up_def usb_zero_def xs_wait_def out_buffer_def
        in_buffer_def xs_post_def bulk_async_def req_fill_def usb_frame_def xs_loop.simps dma_in_def
        xs_finish_def xs_result_def)
  then obtain s' k' where
    x: "ra_usb_xfer demo_kernel 0 [5] None 0 0 50 demo_up [InReply 0 [], OutReply 1] = Some (0, s', k')"
    by blast
  from usb_xfer_success_complete [OF x] x show ?thesis by (auto simp: usb_frame_def)
qed

text \<open>
  The wait for a completion never hangs once the kernel delivers the timer message it armed,
  however many completions and stale timer messages are queued before it.
\<close>

theorem usb_wait_returns:
  assumes "XferWord tok \<in> set (recv_seq K n k)"
  shows "\<exists>s' k'. xs_loop K (Some tok) s k = Some (s', k')"
  using assms by (rule xs_loop_returns)

theorem usb_wait_returns_witness:
  "\<exists>s' k'. xs_loop demo_kernel (Some 9) usb_zero [XferWord 4, OutReply 3, XferWord 9] = Some (s', k')"
  by (rule usb_wait_returns [of _ _ 3]) (simp add: demo_kernel_def eval_nat_numeral)

text \<open>
  Every snapshot passes the checks of the pipelined post on the buffers of the USB build (a
  page-aligned transmit buffer, a line-aligned receive buffer): on a free, live link the only
  errors are those of the kernel, and the frame on the wire is never a multiple of the packet
  size, so the adapter always sees its end.
\<close>

theorem snapshot_post_accepted:
  assumes "ra_inv st" and "ta AND 4095 = 0" and "rxa AND 31 = 0"
    and "g_up s" and "\<not> xs_busy s" and "\<not> post_open s"
    and "tx = snd (snap_build RA_USB_TX_MAX mem st)"
  shows "ra_usb_post K ta tx rxa RA_SNAP_RX_BUF_SZ s k =
      (case xs_post K ta (usb_frame tx) rxa RA_SNAP_RX_BUF_SZ True s k of (r, s1, k1) \<Rightarrow>
         if r < 0 then (r, s1, k1) else (0, s1\<lparr> post_open := True, post_ready := False \<rparr>, k1))
    \<and> length (usb_frame tx) mod 64 \<noteq> 0 \<and> length (usb_frame tx) \<le> RA_USB_TX_MAX
    \<and> take (length tx) (usb_frame tx) = tx"
proof -
  have "budget_ok RA_USB_TX_MAX" by (simp add: budget_ok_def)
  from snap_build_length(1) [OF assms(1) this, of mem "fst (snap_build RA_USB_TX_MAX mem st)" tx]
  have len: "length tx \<le> RA_USB_TX_MAX" using assms(7) by simp
  then have "dma_ok ta (length tx + 1)" "dma_ok rxa RA_SNAP_RX_BUF_SZ"
    using dma_ok_page [OF assms(2)] dma_ok_line [OF assms(3)] by simp_all
  then have "ra_usb_post K ta tx rxa RA_SNAP_RX_BUF_SZ s k =
      (case xs_post K ta (usb_frame tx) rxa RA_SNAP_RX_BUF_SZ True s k of (r, s1, k1) \<Rightarrow>
         if r < 0 then (r, s1, k1) else (0, s1\<lparr> post_open := True, post_ready := False \<rparr>, k1))"
    using len assms(4-6) by (simp add: ra_usb_post_def)
  then show ?thesis using usb_frame_length [of tx] len by blast
qed

theorem snapshot_post_accepted_witness:
  "length (usb_frame (snd (snap_build RA_USB_TX_MAX demo_mem demo_ra))) mod 64 \<noteq> 0"
  using snapshot_post_accepted [OF demo_ra_inv, where ta = "0x10000000" and rxa = "0x10002000" and s = demo_up
      and mem = demo_mem and tx = "snd (snap_build RA_USB_TX_MAX demo_mem demo_ra)" and K = demo_kernel and k = "[]"]
  by (simp add: demo_up_def usb_zero_def)

text \<open>
  Device discovery picks the first entry of the device list, among at most 32, whose vendor
  and product are the adapter's, and none otherwise.
\<close>

theorem ven_scan_first_match:
  assumes "ven_scan devlist n = Some dev"
  shows "\<exists>i < 32. int i < n \<and> disc_match devlist i \<and> dev = be32 (sub_bytes devlist (i * 12) 4)
    \<and> (\<forall>j < i. \<not> disc_match devlist j)"
  using assms by (rule ven_scan_Some)

theorem ven_scan_first_match_witness:
  "\<exists>i < 32. int i < 2 \<and> disc_match (replicate 12 0 @ [0, 0, 0, 9, 0x30, 0x3A, 0x40, 0x52, 0, 0, 0, 0]) i
     \<and> (9::u32) = be32 (sub_bytes (replicate 12 0 @ [0, 0, 0, 9, 0x30, 0x3A, 0x40, 0x52, 0, 0, 0, 0]) (i * 12) 4)
     \<and> (\<forall>j < i. \<not> disc_match (replicate 12 0 @ [0, 0, 0, 9, 0x30, 0x3A, 0x40, 0x52, 0, 0, 0, 0]) j)"
  by (rule ven_scan_first_match) code_simp

end
