(* ===== verification/Exi.thy ===== *)
theory Exi
  imports RA_Main
begin

text \<open>
  The memory card bus transport: the register services of \<open>mload-module/swi.c\<close> (the EXI
  cases of \<open>Swi_Handler\<close>), the driver \<open>ra-module/exi.c\<close>, and \<open>ra_send\<close>,
  \<open>ra_send_phase_b\<close> and the debug channel of the memory card build.

  The Hollywood registers are a parameter (\<open>'h exi_hw\<close>): reading and writing a word at an
  address, the hardware timer, the LED and a sleep. All loops are bounded in the code and
  terminate on any hardware. What the driver relies on is named (\<open>ideal_bus\<close>); on such
  a bus the kernel-batched transfers are shown to move exactly the bytes of the caller, in
  order, and so are the older one-call-per-word loops.
\<close>

section \<open>Registers\<close>

record 'h exi_hw =
  hw_read :: "u32 \<Rightarrow> 'h \<Rightarrow> u32 \<times> 'h"
  hw_write :: "u32 \<Rightarrow> u32 \<Rightarrow> 'h \<Rightarrow> 'h"
  hw_sleep_us :: "nat \<Rightarrow> 'h \<Rightarrow> 'h"
  hw_led :: "bool \<Rightarrow> 'h \<Rightarrow> 'h"

abbreviation (input) HW_EXICTRL :: u32 where "HW_EXICTRL \<equiv> 0x0D800070"
abbreviation (input) HW_TIMER :: u32 where "HW_TIMER \<equiv> 0x0D800010"

definition EXI_CSR :: "nat \<Rightarrow> u32" where "EXI_CSR ch = 0x0D806800 + of_nat ch * 0x14"
definition EXI_CR :: "nat \<Rightarrow> u32" where "EXI_CR ch = 0x0D806800 + of_nat ch * 0x14 + 0x0C"
definition EXI_DATA :: "nat \<Rightarrow> u32" where "EXI_DATA ch = 0x0D806800 + of_nat ch * 0x14 + 0x10"

section \<open>Kernel services\<close>

text \<open>\<open>while ((*cr & 1) && --timeout)\<close>: the remaining budget, 0 when it ran out.\<close>

fun busy_wait :: "'h exi_hw \<Rightarrow> u32 \<Rightarrow> nat \<Rightarrow> 'h \<Rightarrow> nat \<times> 'h" where
  "busy_wait H cr 0 h = (0, h)"
| "busy_wait H cr (Suc t) h =
     (case hw_read H cr h of (v, h1) \<Rightarrow>
        if v AND 1 \<noteq> 0 then (if t = 0 then (0, h1) else busy_wait H cr t h1) else (Suc t, h1))"

definition be_pack :: "bytes \<Rightarrow> u32" where
  "be_pack bs = foldl (\<lambda>v i. v OR push_bit ((3 - i) * 8) (ucast (bs ! i))) 0 [0..<length bs]"

definition be_unpack :: "u32 \<Rightarrow> nat \<Rightarrow> bytes" where
  "be_unpack v n = map (\<lambda>i. ucast (drop_bit ((3 - i) * 8) v)) [0..<n]"

definition cr_write :: "nat \<Rightarrow> u32" where
  "cr_write n = 1 OR push_bit 2 1 OR push_bit 4 (of_nat n - 1)"

definition cr_read :: "nat \<Rightarrow> u32" where
  "cr_read n = 1 OR push_bit 4 (of_nat n - 1)"

text \<open>Case 7: DATA and CR back to back. Case 8: trigger, bounded poll, sample.\<close>

definition Swi_ExiDataCr :: "'h exi_hw \<Rightarrow> nat \<Rightarrow> u32 \<Rightarrow> u32 \<Rightarrow> 'h \<Rightarrow> 'h" where
  "Swi_ExiDataCr H ch d c h = hw_write H (EXI_CR ch) c (hw_write H (EXI_DATA ch) d h)"

definition Swi_ExiCrRead :: "'h exi_hw \<Rightarrow> nat \<Rightarrow> u32 \<Rightarrow> 'h \<Rightarrow> u32 \<times> 'h" where
  "Swi_ExiCrRead H ch c h =
     (case busy_wait H (EXI_CR ch) 100000 (hw_write H (EXI_CR ch) c h) of
        (t, h1) \<Rightarrow> hw_read H (EXI_DATA ch) h1)"

text \<open>Case 10.\<close>

function Swi_ExiBatchWrite :: "'h exi_hw \<Rightarrow> nat \<Rightarrow> bytes \<Rightarrow> 'h \<Rightarrow> s32 \<times> 'h" where
  "Swi_ExiBatchWrite H ch src h =
     (if src = [] then (0, h)
      else let n = min 4 (length src);
               h1 = hw_write H (EXI_CR ch) (cr_write n) (hw_write H (EXI_DATA ch) (be_pack (take n src)) h)
           in case busy_wait H (EXI_CR ch) 100000 h1 of (t, h2) \<Rightarrow>
                if t = 0 then (-1, h2) else Swi_ExiBatchWrite H ch (drop n src) h2)"
  by pat_completeness auto
termination
  by (relation "measure (\<lambda>(H, ch, src, h). length src)") (auto simp: min_def)

text \<open>Case 11; the bytes stored so far are returned with the result.\<close>

function Swi_ExiBatchRead :: "'h exi_hw \<Rightarrow> nat \<Rightarrow> nat \<Rightarrow> 'h \<Rightarrow> (s32 \<times> bytes) \<times> 'h" where
  "Swi_ExiBatchRead H ch left h =
     (if left = 0 then ((0, []), h)
      else let n = min 4 left in
        case busy_wait H (EXI_CR ch) 100000 (hw_write H (EXI_CR ch) (cr_read n) h) of (t, h1) \<Rightarrow>
          if t = 0 then ((-1, []), h1)
          else case hw_read H (EXI_DATA ch) h1 of (v, h2) \<Rightarrow>
               case Swi_ExiBatchRead H ch (left - n) h2 of ((r, bs), h3) \<Rightarrow>
                 ((r, be_unpack v n @ bs), h3))"
  by pat_completeness auto
termination
  by (relation "measure (\<lambda>(H, ch, left, h). left)") auto

declare Swi_ExiBatchWrite.simps [simp del] Swi_ExiBatchRead.simps [simp del]

section \<open>The driver\<close>

definition exi_mark :: "'h exi_hw \<Rightarrow> 'h \<Rightarrow> 'h" where
  "exi_mark H h = hw_sleep_us H 120000 (hw_led H False (hw_sleep_us H 120000 (hw_led H True h)))"

definition exi_init :: "'h exi_hw \<Rightarrow> 'h \<Rightarrow> 'h" where
  "exi_init H h =
     (case hw_read H HW_EXICTRL h of (ctrl, h1) \<Rightarrow>
        let h2 = exi_mark H h1 in if ctrl AND 1 \<noteq> 0 then exi_mark H h2 else h2)"

abbreviation (input) EXI_CSR_EXI_IRQ :: u32 where "EXI_CSR_EXI_IRQ \<equiv> 0x0002"
abbreviation (input) EXI_CSR_TC_IRQ :: u32 where "EXI_CSR_TC_IRQ \<equiv> 0x0008"
abbreviation (input) EXI_CSR_EXT_IRQ :: u32 where "EXI_CSR_EXT_IRQ \<equiv> 0x0800"

definition build_csr :: "nat \<Rightarrow> u32 \<Rightarrow> u32" where
  "build_csr dev freq = (freq AND 0x70) OR push_bit (dev + 7) 1"

definition build_cr :: "u32 \<Rightarrow> bool \<Rightarrow> u32" where
  "build_cr len wr = 1 OR push_bit 4 ((len - 1) AND 3) OR (if wr then push_bit 2 1 else 0)"

text \<open>
  The two polling loops: read a register until a condition holds, 256 reads between
  sleeps and at most \<open>budget\<close> sleeps.
\<close>

abbreviation (input) SPINS_BEFORE_YIELD :: nat where "SPINS_BEFORE_YIELD \<equiv> 256"
abbreviation (input) MAX_YIELDS :: nat where "MAX_YIELDS \<equiv> 200"

function poll_reg ::
  "'h exi_hw \<Rightarrow> u32 \<Rightarrow> (u32 \<Rightarrow> bool) \<Rightarrow> nat \<Rightarrow> nat \<Rightarrow> nat \<Rightarrow> nat \<Rightarrow> 'h \<Rightarrow> bool \<times> 'h"
where
  "poll_reg H a done us budget spins yields h =
     (case hw_read H a h of (v, h1) \<Rightarrow>
        if done v then (True, h1)
        else if spins + 1 \<ge> SPINS_BEFORE_YIELD then
          (if yields + 1 \<ge> budget then (False, h1)
           else poll_reg H a done us budget 0 (yields + 1) (hw_sleep_us H us h1))
        else poll_reg H a done us budget (spins + 1) yields h1)"
  by pat_completeness auto
termination
  by (relation "measures [\<lambda>(H, a, done, us, budget, spins, yields, h). budget - yields,
        \<lambda>(H, a, done, us, budget, spins, yields, h). SPINS_BEFORE_YIELD - spins]") auto

declare poll_reg.simps [simp del]

definition wait_cr_done :: "'h exi_hw \<Rightarrow> nat \<Rightarrow> 'h \<Rightarrow> s32 \<times> 'h" where
  "wait_cr_done H ch h =
     (case poll_reg H (EXI_CR ch) (\<lambda>v. v AND 1 = 0) 250 MAX_YIELDS 0 0 h of
        (ok, h1) \<Rightarrow> (if ok then 0 else -2, h1))"

definition exi_select :: "'h exi_hw \<Rightarrow> nat \<Rightarrow> nat \<Rightarrow> u32 \<Rightarrow> 'h \<Rightarrow> s32 \<times> 'h" where
  "exi_select H ch dev freq h =
     (if ch > 2 then (-1, h) else if dev > 2 then (-1, h)
      else (0, hw_write H (EXI_CSR ch) (build_csr dev freq) h))"

definition exi_deselect :: "'h exi_hw \<Rightarrow> nat \<Rightarrow> 'h \<Rightarrow> s32 \<times> 'h" where
  "exi_deselect H ch h = (if ch > 2 then (-1, h) else (0, hw_write H (EXI_CSR ch) 0 h))"

function exi_imm_write :: "'h exi_hw \<Rightarrow> nat \<Rightarrow> bytes \<Rightarrow> 'h \<Rightarrow> s32 \<times> 'h" where
  "exi_imm_write H ch buf h =
     (if buf = [] then (0, h)
      else let n = min 4 (length buf);
               h1 = Swi_ExiDataCr H ch (be_pack (take n buf)) (build_cr (of_nat n) True) h
           in case wait_cr_done H ch h1 of (r, h2) \<Rightarrow>
                if r < 0 then (-2, h2) else exi_imm_write H ch (drop n buf) h2)"
  by pat_completeness auto
termination
  by (relation "measure (\<lambda>(H, ch, buf, h). length buf)") (auto simp: min_def)

function exi_imm_read :: "'h exi_hw \<Rightarrow> nat \<Rightarrow> nat \<Rightarrow> 'h \<Rightarrow> (s32 \<times> bytes) \<times> 'h" where
  "exi_imm_read H ch len h =
     (if len = 0 then ((0, []), h)
      else let n = min 4 len in
        case Swi_ExiCrRead H ch (build_cr (of_nat n) False) h of (v, h1) \<Rightarrow>
        case exi_imm_read H ch (len - n) h1 of ((r, bs), h2) \<Rightarrow> ((r, be_unpack v n @ bs), h2))"
  by pat_completeness auto
termination
  by (relation "measure (\<lambda>(H, ch, len, h). len)") auto

declare exi_imm_write.simps [simp del] exi_imm_read.simps [simp del]

abbreviation (input) EXI_BATCH_SLICE :: nat where "EXI_BATCH_SLICE \<equiv> 256"

function batch_write_slices :: "'h exi_hw \<Rightarrow> nat \<Rightarrow> bytes \<Rightarrow> 'h \<Rightarrow> s32 \<times> 'h" where
  "batch_write_slices H ch p h =
     (if p = [] then (0, h)
      else let n = min EXI_BATCH_SLICE (length p) in
        case Swi_ExiBatchWrite H ch (take n p) h of (r, h1) \<Rightarrow>
          if r \<noteq> 0 then (-2, h1) else batch_write_slices H ch (drop n p) h1)"
  by pat_completeness auto
termination
  by (relation "measure (\<lambda>(H, ch, p, h). length p)") (auto simp: min_def)

function batch_read_slices :: "'h exi_hw \<Rightarrow> nat \<Rightarrow> nat \<Rightarrow> 'h \<Rightarrow> (s32 \<times> bytes) \<times> 'h" where
  "batch_read_slices H ch len h =
     (if len = 0 then ((0, []), h)
      else let n = min EXI_BATCH_SLICE len in
        case Swi_ExiBatchRead H ch n h of ((r, bs), h1) \<Rightarrow>
          if r \<noteq> 0 then ((-2, bs), h1)
          else case batch_read_slices H ch (len - n) h1 of ((r', bs'), h2) \<Rightarrow> ((r', bs @ bs'), h2))"
  by pat_completeness auto
termination
  by (relation "measure (\<lambda>(H, ch, len, h). len)") auto

declare batch_write_slices.simps [simp del] batch_read_slices.simps [simp del]

definition exi_batch_write :: "'h exi_hw \<Rightarrow> nat \<Rightarrow> bytes \<Rightarrow> 'h \<Rightarrow> s32 \<times> 'h" where
  "exi_batch_write H ch data h = (if ch > 2 then (-1, h) else batch_write_slices H ch data h)"

definition exi_batch_read :: "'h exi_hw \<Rightarrow> nat \<Rightarrow> nat \<Rightarrow> 'h \<Rightarrow> (s32 \<times> bytes) \<times> 'h" where
  "exi_batch_read H ch len h = (if ch > 2 then ((-1, []), h) else batch_read_slices H ch len h)"

definition exi_transaction ::
  "'h exi_hw \<Rightarrow> nat \<Rightarrow> nat \<Rightarrow> u32 \<Rightarrow> bytes \<Rightarrow> nat \<Rightarrow> 'h \<Rightarrow> (s32 \<times> bytes) \<times> 'h"
where
  "exi_transaction H ch dev freq wbuf rlen h =
     (case exi_select H ch dev freq h of (r0, h1) \<Rightarrow>
        if r0 < 0 then ((r0, []), h1)
        else case (if wbuf \<noteq> [] then exi_imm_write H ch wbuf h1 else (r0, h1)) of (r1, h2) \<Rightarrow>
          if r1 < 0 then ((r1, []), snd (exi_deselect H ch h2))
          else case (if rlen > 0 then exi_imm_read H ch rlen h2 else ((r1, []), h2)) of ((r2, bs), h3) \<Rightarrow>
            ((r2, bs), snd (exi_deselect H ch h3)))"

definition exi_wait_int :: "'h exi_hw \<Rightarrow> nat \<Rightarrow> nat \<Rightarrow> 'h \<Rightarrow> s32 \<times> 'h" where
  "exi_wait_int H ch timeout_ms h =
     (if ch > 2 then (-1, h)
      else case poll_reg H (EXI_CSR ch) (\<lambda>v. v AND EXI_CSR_EXI_IRQ \<noteq> 0) 1000 timeout_ms 0 0 h of
             (ok, h1) \<Rightarrow> (if ok then 0 else -1, h1))"

definition clear_int_word :: "u32 \<Rightarrow> u32" where
  "clear_int_word csr = (csr AND NOT (EXI_CSR_EXI_IRQ OR EXI_CSR_TC_IRQ OR EXI_CSR_EXT_IRQ)) OR EXI_CSR_EXI_IRQ"

definition exi_clear_int :: "'h exi_hw \<Rightarrow> nat \<Rightarrow> 'h \<Rightarrow> 'h" where
  "exi_clear_int H ch h =
     (if ch > 2 then h
      else case hw_read H (EXI_CSR ch) h of (csr, h1) \<Rightarrow> hw_write H (EXI_CSR ch) (clear_int_word csr) h1)"

section \<open>The memory card build of the module\<close>

abbreviation (input) RA_EXI_CHAN :: nat where "RA_EXI_CHAN \<equiv> 1"
abbreviation (input) RA_EXI_DEV :: nat where "RA_EXI_DEV \<equiv> 0"
abbreviation (input) RA_EXI_FREQ :: u32 where "RA_EXI_FREQ \<equiv> 0x40"
abbreviation (input) RA_INT_TIMEOUT_MS :: nat where "RA_INT_TIMEOUT_MS \<equiv> 50"

record 'h exi_world =
  ew_hw :: 'h
  ew_to_phaseb :: u32
  ew_to_dbg :: u32
  ew_wait_ms :: u32

definition exi_send :: "'h exi_hw \<Rightarrow> bytes \<Rightarrow> nat \<Rightarrow> 'h \<Rightarrow> (s32 \<times> bytes) \<times> 'h" where
  "exi_send H tx n h = exi_transaction H RA_EXI_CHAN RA_EXI_DEV RA_EXI_FREQ tx n h"

text \<open>The write phase: clear a stale latch, select, write, deselect.\<close>

definition phase_b_write :: "'h exi_hw \<Rightarrow> bytes \<Rightarrow> 'h \<Rightarrow> s32 \<times> 'h" where
  "phase_b_write H tx h =
     (case exi_select H RA_EXI_CHAN RA_EXI_DEV RA_EXI_FREQ (exi_clear_int H RA_EXI_CHAN h) of (r, h1) \<Rightarrow>
        if r < 0 then (r, h1)
        else case (if tx \<noteq> [] then exi_batch_write H RA_EXI_CHAN tx h1 else (r, h1)) of (r', h2) \<Rightarrow>
          (r', snd (exi_deselect H RA_EXI_CHAN h2)))"

text \<open>The read phase: clear the latch, select, read, deselect.\<close>

definition phase_b_read :: "'h exi_hw \<Rightarrow> nat \<Rightarrow> 'h \<Rightarrow> (s32 \<times> bytes) \<times> 'h" where
  "phase_b_read H n h =
     (case exi_select H RA_EXI_CHAN RA_EXI_DEV RA_EXI_FREQ (exi_clear_int H RA_EXI_CHAN h) of (r, h1) \<Rightarrow>
        if r < 0 then ((r, []), h1)
        else case (if n > 0 then exi_batch_read H RA_EXI_CHAN n h1 else ((r, []), h1)) of ((r', bs), h2) \<Rightarrow>
          ((r', bs), snd (exi_deselect H RA_EXI_CHAN h2)))"

definition exi_send_phase_b ::
  "'h exi_hw \<Rightarrow> bytes \<Rightarrow> nat \<Rightarrow> 'h exi_world \<Rightarrow> (s32 \<times> bytes) \<times> 'h exi_world"
where
  "exi_send_phase_b H tx n e =
     (case phase_b_write H tx (ew_hw e) of (r, h1) \<Rightarrow>
        if r < 0 then ((r, []), e\<lparr> ew_hw := h1 \<rparr>)
        else case hw_read H HW_TIMER h1 of (t0, h2) \<Rightarrow>
             case exi_wait_int H RA_EXI_CHAN RA_INT_TIMEOUT_MS h2 of (r', h3) \<Rightarrow>
             case hw_read H HW_TIMER h3 of (t1, h4) \<Rightarrow>
             let e1 = e\<lparr> ew_hw := h4, ew_wait_ms := vi_ticks_to_us (t1 - t0) div 1000 \<rparr> in
             if r' < 0 then ((r', []), e1\<lparr> ew_to_phaseb := ew_to_phaseb e1 + 1 \<rparr>)
             else case phase_b_read H n h4 of (res, h5) \<Rightarrow> (res, e1\<lparr> ew_hw := h5 \<rparr>))"

definition exi_debug_send :: "'h exi_hw \<Rightarrow> bytes \<Rightarrow> 'h exi_world \<Rightarrow> 'h exi_world" where
  "exi_debug_send H pkt e =
     (case exi_select H RA_EXI_CHAN RA_EXI_DEV RA_EXI_FREQ
             (exi_clear_int H RA_EXI_CHAN (hw_sleep_us H 10000 (ew_hw e))) of (r, h1) \<Rightarrow>
        if r < 0 then e\<lparr> ew_hw := h1 \<rparr>
        else case exi_imm_write H RA_EXI_CHAN pkt h1 of (_, h2) \<Rightarrow>
             case exi_wait_int H RA_EXI_CHAN RA_INT_TIMEOUT_MS (snd (exi_deselect H RA_EXI_CHAN h2)) of
               (r', h3) \<Rightarrow>
                 e\<lparr> ew_hw := exi_clear_int H RA_EXI_CHAN h3,
                    ew_to_dbg := ew_to_dbg e + (if r' < 0 then 1 else 0) \<rparr>)"

text \<open>The receive buffer is cleared by the caller; a failed read leaves its tail zero.\<close>

definition rx_pad :: "nat \<Rightarrow> bytes \<Rightarrow> bytes" where
  "rx_pad n bs = bs @ replicate (n - length bs) 0"

text \<open>The link of the memory card build; it has no pipelined exchange.\<close>

definition exi_link :: "'h exi_hw \<Rightarrow> 'h exi_world ra_link" where
  "exi_link H = \<lparr>
     lk_phase_b = (\<lambda>tx n e. case exi_send_phase_b H tx n e of ((r, bs), e') \<Rightarrow> ((r, rx_pad n bs), e')),
     lk_send = (\<lambda>tx n e. case exi_send H tx n (ew_hw e) of ((r, bs), h) \<Rightarrow>
                  ((r, rx_pad n bs), e\<lparr> ew_hw := h \<rparr>)),
     lk_debug = exi_debug_send H,
     lk_post = (\<lambda>tx n e. (-1, e)),
     lk_reap = (\<lambda>e. ((-1, []), e)),
     lk_posted = (\<lambda>e. False),
     lk_timer = (\<lambda>e. case hw_read H HW_TIMER (ew_hw e) of (t, h) \<Rightarrow> (t, e\<lparr> ew_hw := h \<rparr>)),
     lk_wait_ms = ew_wait_ms,
     lk_to_phaseb = (\<lambda>e. e\<lparr> ew_to_phaseb := ew_to_phaseb e + 1 \<rparr>) \<rparr>"

section \<open>Received bytes never exceed the buffer\<close>

lemma length_be_unpack [simp]: "length (be_unpack v n) = n"
  by (simp add: be_unpack_def)

lemma transfers_nil [simp]:
  "Swi_ExiBatchRead H ch 0 h = ((0, []), h)" "batch_read_slices H ch 0 h = ((0, []), h)"
  "exi_imm_read H ch 0 h = ((0, []), h)" "Swi_ExiBatchWrite H ch [] h = (0, h)"
  "batch_write_slices H ch [] h = (0, h)" "exi_imm_write H ch [] h = (0, h)"
  by (simp_all add: Swi_ExiBatchRead.simps [of H ch 0] batch_read_slices.simps [of H ch 0]
      exi_imm_read.simps [of H ch 0] Swi_ExiBatchWrite.simps [of H ch "[]"]
      batch_write_slices.simps [of H ch "[]"] exi_imm_write.simps [of H ch "[]"])

lemma swi_batch_read_length:
  "Swi_ExiBatchRead H ch left h = ((r, bs), h') \<Longrightarrow> length bs \<le> left \<and> (r = 0 \<longrightarrow> length bs = left)"
proof (induction H ch left h arbitrary: r bs h' rule: Swi_ExiBatchRead.induct)
  case (1 H ch left h)
  show ?case
  proof (cases "left = 0")
    case True
    then show ?thesis using "1.prems" by simp
  next
    case False
    let ?n = "min 4 left"
    obtain t h1 where b: "busy_wait H (EXI_CR ch) 100000 (hw_write H (EXI_CR ch) (cr_read ?n) h) = (t, h1)"
      by fastforce
    show ?thesis
    proof (cases "t = 0")
      case True
      then show ?thesis using "1.prems" False b by (simp add: Swi_ExiBatchRead.simps [of H ch left] Let_def)
    next
      case t: False
      obtain v h2 where d: "hw_read H (EXI_DATA ch) h1 = (v, h2)" by fastforce
      obtain r' bs' h3 where rec: "Swi_ExiBatchRead H ch (left - ?n) h2 = ((r', bs'), h3)"
        by (metis prod.collapse)
      have "r = r'" "bs = be_unpack v ?n @ bs'"
        using "1.prems" False b t d rec by (simp_all add: Swi_ExiBatchRead.simps [of H ch left] Let_def)
      then show ?thesis using "1.IH" [OF False refl b [symmetric] t d [symmetric] rec] by auto
    qed
  qed
qed

lemma batch_read_slices_length:
  "batch_read_slices H ch len h = ((r, bs), h') \<Longrightarrow> length bs \<le> len"
proof (induction H ch len h arbitrary: r bs h' rule: batch_read_slices.induct)
  case (1 H ch len h)
  show ?case
  proof (cases "len = 0")
    case True
    then show ?thesis using "1.prems" by simp
  next
    case False
    let ?n = "min EXI_BATCH_SLICE len"
    obtain r1 b1 h1 where s: "Swi_ExiBatchRead H ch ?n h = ((r1, b1), h1)" by (metis prod.collapse)
    note l = swi_batch_read_length [OF s]
    show ?thesis
    proof (cases "r1 = 0")
      case True
      obtain r2 b2 h2 where rec: "batch_read_slices H ch (len - ?n) h1 = ((r2, b2), h2)"
        by (metis prod.collapse)
      have "bs = b1 @ b2"
        using "1.prems" False s True rec by (simp add: batch_read_slices.simps [of H ch len] Let_def)
      moreover have "length b2 \<le> len - ?n"
        using "1.IH" [OF False refl s [symmetric] refl _ rec] True by simp
      ultimately show ?thesis using l True by (auto simp: min_def split: if_splits)
    next
      case nz: False
      then show ?thesis using "1.prems" False s l by (simp add: batch_read_slices.simps [of H ch len] Let_def)
    qed
  qed
qed

lemma exi_send_phase_b_length:
  assumes "exi_send_phase_b H tx n e = ((r, bs), e')"
  shows "length bs \<le> n"
  using assms
  by (auto simp: exi_send_phase_b_def phase_b_read_def exi_batch_read_def Let_def
      split: prod.splits if_splits dest: batch_read_slices_length)

interpretation exi_transport: ra_transport "exi_link H" for H :: "'h exi_hw"
proof
  fix tx n and e :: "'h exi_world"
  obtain r bs e' where p: "exi_send_phase_b H tx n e = ((r, bs), e')" by (metis prod.collapse)
  then show "length (snd (fst (lk_phase_b (exi_link H) tx n e))) = n"
    using exi_send_phase_b_length [OF p] by (simp add: exi_link_def rx_pad_def)
qed

section \<open>What reaches the wire\<close>

text \<open>
  The behaviour of the immediate-mode registers of one channel: \<open>data\<close> is the DATA
  register, \<open>sent\<close> the bytes clocked out so far, \<open>queue\<close> the bytes the device will clock in.
  A triggered transfer is complete when CR is next read.
\<close>

definition ideal_bus ::
  "'h exi_hw \<Rightarrow> nat \<Rightarrow> ('h \<Rightarrow> u32) \<Rightarrow> ('h \<Rightarrow> bytes) \<Rightarrow> ('h \<Rightarrow> bytes) \<Rightarrow> bool"
where
  "ideal_bus H ch data sent queue \<longleftrightarrow>
     (\<forall>v h. let h' = hw_write H (EXI_DATA ch) v h in
        data h' = v \<and> sent h' = sent h \<and> queue h' = queue h) \<and>
     (\<forall>n h. 1 \<le> n \<and> n \<le> 4 \<longrightarrow> (let h' = hw_write H (EXI_CR ch) (cr_write n) h in
        sent h' = sent h @ be_unpack (data h) n \<and> queue h' = queue h)) \<and>
     (\<forall>n h. 1 \<le> n \<and> n \<le> 4 \<and> n \<le> length (queue h) \<longrightarrow>
        (let h' = hw_write H (EXI_CR ch) (cr_read n) h in
         be_unpack (data h') n = take n (queue h) \<and> queue h' = drop n (queue h) \<and> sent h' = sent h)) \<and>
     (\<forall>h. let (v, h') = hw_read H (EXI_CR ch) h in
        v AND 1 = 0 \<and> data h' = data h \<and> sent h' = sent h \<and> queue h' = queue h) \<and>
     (\<forall>h. let (v, h') = hw_read H (EXI_DATA ch) h in
        v = data h \<and> data h' = data h \<and> sent h' = sent h \<and> queue h' = queue h)"

lemma ideal_busD:
  assumes "ideal_bus H ch data sent queue"
  shows "data (hw_write H (EXI_DATA ch) v h) = v" "sent (hw_write H (EXI_DATA ch) v h) = sent h"
    "queue (hw_write H (EXI_DATA ch) v h) = queue h"
    "1 \<le> n \<Longrightarrow> n \<le> 4 \<Longrightarrow> sent (hw_write H (EXI_CR ch) (cr_write n) h) = sent h @ be_unpack (data h) n"
    "1 \<le> n \<Longrightarrow> n \<le> 4 \<Longrightarrow> queue (hw_write H (EXI_CR ch) (cr_write n) h) = queue h"
    "1 \<le> n \<Longrightarrow> n \<le> 4 \<Longrightarrow> n \<le> length (queue h) \<Longrightarrow>
       be_unpack (data (hw_write H (EXI_CR ch) (cr_read n) h)) n = take n (queue h)"
    "1 \<le> n \<Longrightarrow> n \<le> 4 \<Longrightarrow> n \<le> length (queue h) \<Longrightarrow>
       queue (hw_write H (EXI_CR ch) (cr_read n) h) = drop n (queue h)"
    "1 \<le> n \<Longrightarrow> n \<le> 4 \<Longrightarrow> n \<le> length (queue h) \<Longrightarrow>
       sent (hw_write H (EXI_CR ch) (cr_read n) h) = sent h"
    "hw_read H (EXI_CR ch) h = (w, h') \<Longrightarrow>
       w AND 1 = 0 \<and> data h' = data h \<and> sent h' = sent h \<and> queue h' = queue h"
    "hw_read H (EXI_DATA ch) h = (w, h') \<Longrightarrow>
       w = data h \<and> sent h' = sent h \<and> queue h' = queue h"
proof -
  note d = assms [unfolded ideal_bus_def Let_def]
  show "data (hw_write H (EXI_DATA ch) v h) = v" "sent (hw_write H (EXI_DATA ch) v h) = sent h"
    "queue (hw_write H (EXI_DATA ch) v h) = queue h"
    using d [THEN conjunct1] by simp_all
  show "1 \<le> n \<Longrightarrow> n \<le> 4 \<Longrightarrow> sent (hw_write H (EXI_CR ch) (cr_write n) h) = sent h @ be_unpack (data h) n"
    "1 \<le> n \<Longrightarrow> n \<le> 4 \<Longrightarrow> queue (hw_write H (EXI_CR ch) (cr_write n) h) = queue h"
    using d [THEN conjunct2, THEN conjunct1] by simp_all
  show "1 \<le> n \<Longrightarrow> n \<le> 4 \<Longrightarrow> n \<le> length (queue h) \<Longrightarrow>
       be_unpack (data (hw_write H (EXI_CR ch) (cr_read n) h)) n = take n (queue h)"
    "1 \<le> n \<Longrightarrow> n \<le> 4 \<Longrightarrow> n \<le> length (queue h) \<Longrightarrow>
       queue (hw_write H (EXI_CR ch) (cr_read n) h) = drop n (queue h)"
    "1 \<le> n \<Longrightarrow> n \<le> 4 \<Longrightarrow> n \<le> length (queue h) \<Longrightarrow>
       sent (hw_write H (EXI_CR ch) (cr_read n) h) = sent h"
    using d [THEN conjunct2, THEN conjunct2, THEN conjunct1] by simp_all
  show "hw_read H (EXI_CR ch) h = (w, h') \<Longrightarrow>
       w AND 1 = 0 \<and> data h' = data h \<and> sent h' = sent h \<and> queue h' = queue h"
    using d [THEN conjunct2, THEN conjunct2, THEN conjunct2, THEN conjunct1, THEN spec, of h] by simp
  show "hw_read H (EXI_DATA ch) h = (w, h') \<Longrightarrow>
       w = data h \<and> sent h' = sent h \<and> queue h' = queue h"
    using d [THEN conjunct2, THEN conjunct2, THEN conjunct2, THEN conjunct2, THEN spec, of h] by simp
qed

lemma ideal_busy_wait:
  assumes "ideal_bus H ch data sent queue" and "0 < t"
  shows "\<exists>h'. busy_wait H (EXI_CR ch) t h = (t, h') \<and> data h' = data h \<and> sent h' = sent h \<and> queue h' = queue h"
proof -
  obtain v h' where r: "hw_read H (EXI_CR ch) h = (v, h')" by fastforce
  obtain u where "t = Suc u" using assms(2) by (cases t) auto
  then show ?thesis using ideal_busD(9) [OF assms(1) r] r by auto
qed

lemma ideal_wait_cr:
  assumes "ideal_bus H ch data sent queue"
  shows "\<exists>h'. wait_cr_done H ch h = (0, h') \<and> data h' = data h \<and> sent h' = sent h \<and> queue h' = queue h"
proof -
  obtain v h' where r: "hw_read H (EXI_CR ch) h = (v, h')" by fastforce
  then show ?thesis using ideal_busD(9) [OF assms r]
    by (auto simp: wait_cr_done_def poll_reg.simps [of H "EXI_CR ch"])
qed

lemma build_cr_write:
  assumes "1 \<le> n" and "n \<le> 4"
  shows "build_cr (of_nat n) True = cr_write n" and "build_cr (of_nat n) False = cr_read n"
proof -
  have "n = 1 \<or> n = 2 \<or> n = 3 \<or> n = 4" using assms by linarith
  then show "build_cr (of_nat n) True = cr_write n" and "build_cr (of_nat n) False = cr_read n"
    by (elim disjE; simp add: build_cr_def cr_write_def cr_read_def)+
qed

lemma be_unpack_pack:
  assumes "length bs \<le> 4"
  shows "be_unpack (be_pack bs) (length bs) = bs"
proof -
  have "length bs = 0 \<or> length bs = 1 \<or> length bs = 2 \<or> length bs = 3 \<or> length bs = 4"
    using assms by linarith
  then consider "bs = []" | a where "bs = [a]" | a b where "bs = [a, b]" | a b c where "bs = [a, b, c]"
    | a b c d where "bs = [a, b, c, d]"
    by (auto simp: length_Suc_conv numeral_2_eq_2 numeral_3_eq_3 eval_nat_numeral)
  then show ?thesis
  proof cases
    case (5 a b c d)
    show ?thesis unfolding 5
      by (simp add: be_pack_def be_unpack_def upt_rec) (intro conjI; rule bit_word_eqI; auto simp: bit_simps dest: bit_imp_le_length)
  next
    case (4 a b c)
    show ?thesis unfolding 4
      by (simp add: be_pack_def be_unpack_def upt_rec) (intro conjI; rule bit_word_eqI; auto simp: bit_simps dest: bit_imp_le_length)
  next
    case (3 a b)
    show ?thesis unfolding 3
      by (simp add: be_pack_def be_unpack_def upt_rec) (intro conjI; rule bit_word_eqI; auto simp: bit_simps dest: bit_imp_le_length)
  next
    case (2 a)
    show ?thesis unfolding 2
      by (simp add: be_pack_def be_unpack_def upt_rec) (rule bit_word_eqI; auto simp: bit_simps dest: bit_imp_le_length)
  qed (simp add: be_unpack_def)
qed

lemma swi_write_ideal:
  assumes bus: "ideal_bus H ch data sent queue"
  shows "\<exists>h'. Swi_ExiBatchWrite H ch src h = (0, h') \<and> sent h' = sent h @ src \<and> queue h' = queue h"
proof (induction "length src" arbitrary: src h rule: less_induct)
  case less
  show ?case
  proof (cases "src = []")
    case False
    let ?n = "min 4 (length src)"
    have n: "1 \<le> ?n" "?n \<le> 4" "length (take ?n src) = ?n" using False by (cases src; simp)+
    let ?h0 = "hw_write H (EXI_DATA ch) (be_pack (take ?n src)) h"
    let ?h1 = "hw_write H (EXI_CR ch) (cr_write ?n) ?h0"
    obtain h2 where b: "busy_wait H (EXI_CR ch) 100000 ?h1 = (100000, h2)" "sent h2 = sent ?h1"
      "queue h2 = queue ?h1"
      using ideal_busy_wait [OF bus, of 100000 ?h1] by auto
    have sent: "sent h2 = sent h @ take ?n src"
      using b(2) n ideal_busD(1,2,4) [OF bus] be_unpack_pack [of "take ?n src"] by simp
    obtain h' where rec: "Swi_ExiBatchWrite H ch (drop ?n src) h2 = (0, h')"
      "sent h' = sent h2 @ drop ?n src" "queue h' = queue h2"
      using less [of "drop ?n src" h2] n(1) False by auto
    have "Swi_ExiBatchWrite H ch src h = (0, h')"
      using False b(1) rec(1) by (simp add: Swi_ExiBatchWrite.simps [of H ch src] Let_def)
    then show ?thesis using rec sent b(3) n ideal_busD(3,5) [OF bus] by simp
  qed simp
qed

lemma imm_write_ideal:
  assumes bus: "ideal_bus H ch data sent queue"
  shows "\<exists>h'. exi_imm_write H ch src h = (0, h') \<and> sent h' = sent h @ src \<and> queue h' = queue h"
proof (induction "length src" arbitrary: src h rule: less_induct)
  case less
  show ?case
  proof (cases "src = []")
    case False
    let ?n = "min 4 (length src)"
    have n: "1 \<le> ?n" "?n \<le> 4" "length (take ?n src) = ?n" using False by (cases src; simp)+
    have cr: "build_cr (of_nat ?n) True = cr_write ?n" by (rule build_cr_write(1) [OF n(1,2)])
    let ?h0 = "hw_write H (EXI_DATA ch) (be_pack (take ?n src)) h"
    let ?h1 = "hw_write H (EXI_CR ch) (cr_write ?n) ?h0"
    obtain h2 where b: "wait_cr_done H ch ?h1 = (0, h2)" "sent h2 = sent ?h1" "queue h2 = queue ?h1"
      using ideal_wait_cr [OF bus, of ?h1] by auto
    have sent: "sent h2 = sent h @ take ?n src"
      using b(2) n ideal_busD(1,2,4) [OF bus] be_unpack_pack [of "take ?n src"] by simp
    obtain h' where rec: "exi_imm_write H ch (drop ?n src) h2 = (0, h')"
      "sent h' = sent h2 @ drop ?n src" "queue h' = queue h2"
      using less [of "drop ?n src" h2] n(1) False by auto
    have "exi_imm_write H ch src h = (0, h')"
      using False b(1) rec(1) by (simp add: exi_imm_write.simps [of H ch src] Let_def Swi_ExiDataCr_def cr)
    then show ?thesis using rec sent b(3) n ideal_busD(3,5) [OF bus] by simp
  qed simp
qed

lemma batch_write_ideal:
  assumes bus: "ideal_bus H ch data sent queue"
  shows "\<exists>h'. batch_write_slices H ch src h = (0, h') \<and> sent h' = sent h @ src \<and> queue h' = queue h"
proof (induction "length src" arbitrary: src h rule: less_induct)
  case less
  show ?case
  proof (cases "src = []")
    case False
    let ?n = "min EXI_BATCH_SLICE (length src)"
    obtain h1 where w: "Swi_ExiBatchWrite H ch (take ?n src) h = (0, h1)" "sent h1 = sent h @ take ?n src"
      "queue h1 = queue h" using swi_write_ideal [OF bus] by blast
    obtain h' where rec: "batch_write_slices H ch (drop ?n src) h1 = (0, h')"
      "sent h' = sent h1 @ drop ?n src" "queue h' = queue h1"
      using less [of "drop ?n src" h1] False by (auto simp: min_def)
    have "batch_write_slices H ch src h = (0, h')"
      using False w(1) rec(1) by (simp add: batch_write_slices.simps [of H ch src] Let_def)
    then show ?thesis using rec w by simp
  qed simp
qed

lemma swi_read_ideal:
  assumes bus: "ideal_bus H ch data sent queue"
  shows "n \<le> length (queue h) \<Longrightarrow> \<exists>h'. Swi_ExiBatchRead H ch n h = ((0, take n (queue h)), h')
    \<and> queue h' = drop n (queue h) \<and> sent h' = sent h"
proof (induction n arbitrary: h rule: less_induct)
  case (less n)
  show ?case
  proof (cases "n = 0")
    case False
    let ?k = "min 4 n"
    have k: "1 \<le> ?k" "?k \<le> 4" "?k \<le> length (queue h)" using False less.prems by auto
    let ?h1 = "hw_write H (EXI_CR ch) (cr_read ?k) h"
    obtain h2 where b: "busy_wait H (EXI_CR ch) 100000 ?h1 = (100000, h2)" "data h2 = data ?h1"
      "sent h2 = sent ?h1" "queue h2 = queue ?h1"
      using ideal_busy_wait [OF bus, of 100000 ?h1] by auto
    obtain v h3 where r: "hw_read H (EXI_DATA ch) h2 = (v, h3)" by fastforce
    note d = ideal_busD(10) [OF bus r]
    have q: "queue h3 = drop ?k (queue h)" "sent h3 = sent h" "be_unpack v ?k = take ?k (queue h)"
      using d b ideal_busD(6,7,8) [OF bus k] by simp_all
    obtain h' where rec: "Swi_ExiBatchRead H ch (n - ?k) h3 = ((0, take (n - ?k) (queue h3)), h')"
      "queue h' = drop (n - ?k) (queue h3)" "sent h' = sent h3"
      using less.IH [of "n - ?k" h3] less.prems q(1) False by (auto simp: diff_le_mono)
    have "take n (queue h) = take ?k (queue h) @ take (n - ?k) (drop ?k (queue h))"
      by (metis le_add_diff_inverse min.cobounded2 take_add)
    moreover have "Swi_ExiBatchRead H ch n h = ((0, be_unpack v ?k @ take (n - ?k) (queue h3)), h')"
      using False b(1) r rec(1) by (simp add: Swi_ExiBatchRead.simps [of H ch n] Let_def)
    ultimately show ?thesis using rec q by (simp add: min_def)
  qed simp
qed

lemma batch_read_ideal:
  assumes bus: "ideal_bus H ch data sent queue"
  shows "n \<le> length (queue h) \<Longrightarrow> \<exists>h'. batch_read_slices H ch n h = ((0, take n (queue h)), h')
    \<and> queue h' = drop n (queue h) \<and> sent h' = sent h"
proof (induction n arbitrary: h rule: less_induct)
  case (less n)
  show ?case
  proof (cases "n = 0")
    case False
    let ?k = "min EXI_BATCH_SLICE n"
    have k: "?k \<le> length (queue h)" using less.prems by simp
    obtain h1 where w: "Swi_ExiBatchRead H ch ?k h = ((0, take ?k (queue h)), h1)"
      "queue h1 = drop ?k (queue h)" "sent h1 = sent h" using swi_read_ideal [OF bus k] by blast
    obtain h' where rec: "batch_read_slices H ch (n - ?k) h1 = ((0, take (n - ?k) (queue h1)), h')"
      "queue h' = drop (n - ?k) (queue h1)" "sent h' = sent h1"
      using less.IH [of "n - ?k" h1] less.prems w(2) False by (auto simp: diff_le_mono)
    have "take n (queue h) = take ?k (queue h) @ take (n - ?k) (drop ?k (queue h))"
      by (metis le_add_diff_inverse min.cobounded2 take_add)
    moreover have "batch_read_slices H ch n h = ((0, take ?k (queue h) @ take (n - ?k) (queue h1)), h')"
      using False w(1) rec(1) by (simp add: batch_read_slices.simps [of H ch n] Let_def)
    ultimately show ?thesis using rec w by (simp add: min_def)
  qed simp
qed
lemma imm_read_ideal:
  assumes bus: "ideal_bus H ch data sent queue"
  shows "n \<le> length (queue h) \<Longrightarrow> \<exists>h'. exi_imm_read H ch n h = ((0, take n (queue h)), h')
    \<and> queue h' = drop n (queue h) \<and> sent h' = sent h"
proof (induction n arbitrary: h rule: less_induct)
  case (less n)
  show ?case
  proof (cases "n = 0")
    case False
    let ?k = "min 4 n"
    have k: "1 \<le> ?k" "?k \<le> 4" "?k \<le> length (queue h)" using False less.prems by auto
    let ?h1 = "hw_write H (EXI_CR ch) (cr_read ?k) h"
    obtain h2 where b: "busy_wait H (EXI_CR ch) 100000 ?h1 = (100000, h2)" "data h2 = data ?h1"
      "sent h2 = sent ?h1" "queue h2 = queue ?h1"
      using ideal_busy_wait [OF bus, of 100000 ?h1] by auto
    obtain v h3 where r: "hw_read H (EXI_DATA ch) h2 = (v, h3)" by fastforce
    note d = ideal_busD(10) [OF bus r]
    have q: "queue h3 = drop ?k (queue h)" "sent h3 = sent h" "be_unpack v ?k = take ?k (queue h)"
      using d b ideal_busD(6,7,8) [OF bus k] by simp_all
    obtain h' where rec: "exi_imm_read H ch (n - ?k) h3 = ((0, take (n - ?k) (queue h3)), h')"
      "queue h' = drop (n - ?k) (queue h3)" "sent h' = sent h3"
      using less.IH [of "n - ?k" h3] less.prems q(1) False by (auto simp: diff_le_mono)
    have "take n (queue h) = take ?k (queue h) @ take (n - ?k) (drop ?k (queue h))"
      by (metis le_add_diff_inverse min.cobounded2 take_add)
    moreover have "exi_imm_read H ch n h = ((0, be_unpack v ?k @ take (n - ?k) (queue h3)), h')"
      using False b(1) r rec(1) build_cr_write(2) [OF k(1,2)]
      by (simp add: exi_imm_read.simps [of H ch n] Let_def Swi_ExiCrRead_def)
    ultimately show ?thesis using rec q by (simp add: min_def)
  qed simp
qed

section \<open>Interrupt latches\<close>

lemma clear_int_word_bits:
  "bit (clear_int_word csr) n \<longleftrightarrow> n = 1 \<or> (bit csr n \<and> n \<noteq> 3 \<and> n \<noteq> 11)"
proof -
  have m: "EXI_CSR_EXI_IRQ OR EXI_CSR_TC_IRQ OR EXI_CSR_EXT_IRQ = (0x80A :: u32)" by simp
  have b: "bit (0x80A :: u32) n \<longleftrightarrow> n = 1 \<or> n = 3 \<or> n = 11"
    by (simp add: bit_numeral_rec numeral_eq_Suc split: nat.split) (auto simp: bit_1_iff)
  have b1: "bit (2 :: u32) n \<longleftrightarrow> n = 1" by (auto simp: bit_numeral_rec bit_1_iff split: nat.split)
  show ?thesis
    unfolding clear_int_word_def m bit_or_iff bit_and_iff bit_not_iff b b1
    by (auto simp: possible_bit_def dest: bit_imp_le_length)
qed

section \<open>A bus for the examples\<close>

text \<open>The data register, the bytes the device received and the bytes it will send.\<close>

definition demo_bus :: "(u32 \<times> bytes \<times> bytes) exi_hw" where
  "demo_bus = \<lparr>
     hw_read = (\<lambda>a (d, s, q). (if a = EXI_DATA 1 then d else 0, (d, s, q))),
     hw_write = (\<lambda>a v (d, s, q).
       if a = EXI_DATA 1 then (v, s, q)
       else if a = EXI_CR 1 then
         (let n = Suc (unat (drop_bit 4 v AND 3)) in
          if bit v 2 then (d, s @ be_unpack d n, q) else (be_pack (take n q), s, drop n q))
       else (d, s, q)),
     hw_sleep_us = (\<lambda>_ h. h), hw_led = (\<lambda>_ h. h) \<rparr>"

lemma demo_cr:
  assumes "1 \<le> n" and "n \<le> 4"
  shows "Suc (unat (drop_bit 4 (cr_write n) AND 3)) = n" "bit (cr_write n) 2"
    "Suc (unat (drop_bit 4 (cr_read n) AND 3)) = n" "\<not> bit (cr_read n) 2"
proof -
  have "n \<in> {1, 2, 3, 4}" using assms by auto
  then show "Suc (unat (drop_bit 4 (cr_write n) AND 3)) = n" "bit (cr_write n) 2"
    "Suc (unat (drop_bit 4 (cr_read n) AND 3)) = n" "\<not> bit (cr_read n) 2"
    by (elim insertE emptyE; simp; code_simp)+
qed

lemma demo_bus_ideal: "ideal_bus demo_bus 1 fst (\<lambda>h. fst (snd h)) (\<lambda>h. snd (snd h))"
proof -
  have ne: "EXI_CR (Suc 0) \<noteq> EXI_DATA (Suc 0)" by (simp add: EXI_CR_def EXI_DATA_def)
  have u: "be_unpack (be_pack (take n q)) n = take n q" if "n \<le> 4" "n \<le> length q" for n q
    using be_unpack_pack [of "take n q"] that by simp
  show ?thesis
    unfolding ideal_bus_def demo_bus_def by (auto simp: ne demo_cr u Let_def)
qed

section \<open>Properties\<close>

text \<open>
  The batched transfers of the kernel service do what the word-by-word routines do: on a bus
  whose transfers complete, both put exactly the given bytes on the wire, in order, and both
  report success.
\<close>

theorem batch_write_equals_words:
  assumes "ideal_bus H ch data sent queue" and "ch \<le> 2"
  shows "\<exists>h1 h2. exi_batch_write H ch bs h = (0, h1) \<and> exi_imm_write H ch bs h = (0, h2)
    \<and> sent h1 = sent h @ bs \<and> sent h2 = sent h1 \<and> queue h1 = queue h \<and> queue h2 = queue h"
  using batch_write_ideal [OF assms(1), of bs h] imm_write_ideal [OF assms(1), of bs h] assms(2)
  by (auto simp: exi_batch_write_def)

theorem batch_write_equals_words_witness:
  "\<exists>h1 h2. exi_batch_write demo_bus 1 [1, 2, 3, 4, 5] (0, [], []) = (0, h1)
     \<and> exi_imm_write demo_bus 1 [1, 2, 3, 4, 5] (0, [], []) = (0, h2)
     \<and> fst (snd h1) = [1, 2, 3, 4, 5] \<and> fst (snd h2) = fst (snd h1)"
  using batch_write_equals_words [OF demo_bus_ideal, of "[1, 2, 3, 4, 5]" "(0, [], [])"] by auto

text \<open>
  The same of the reads: batched and word by word, they return the next bytes of the device
  and consume exactly those.
\<close>

theorem batch_read_equals_words:
  assumes "ideal_bus H ch data sent queue" and "ch \<le> 2" and "n \<le> length (queue h)"
  shows "\<exists>h1 h2. exi_batch_read H ch n h = ((0, take n (queue h)), h1)
    \<and> exi_imm_read H ch n h = ((0, take n (queue h)), h2)
    \<and> queue h1 = drop n (queue h) \<and> queue h2 = queue h1 \<and> sent h1 = sent h \<and> sent h2 = sent h"
  using batch_read_ideal [OF assms(1,3)] imm_read_ideal [OF assms(1,3)] assms(2)
  by (auto simp: exi_batch_read_def)

theorem batch_read_equals_words_witness:
  "\<exists>h1 h2. exi_batch_read demo_bus 1 5 (0, [], [1, 2, 3, 4, 5, 6]) = ((0, [1, 2, 3, 4, 5]), h1)
     \<and> exi_imm_read demo_bus 1 5 (0, [], [1, 2, 3, 4, 5, 6]) = ((0, [1, 2, 3, 4, 5]), h2)"
  using batch_read_equals_words [OF demo_bus_ideal, of 5 "(0, [], [1, 2, 3, 4, 5, 6])"] by auto

text \<open>
  Clearing the interrupt latch writes a one to the latch of the adapter's interrupt only: the
  two other latches of the register are written as zero, so they stay pending, and every
  configuration bit is written back as it was read.
\<close>

theorem clear_int_only_exi:
  "bit (clear_int_word csr) n \<longleftrightarrow> n = 1 \<or> (bit csr n \<and> n \<noteq> 3 \<and> n \<noteq> 11)"
  by (rule clear_int_word_bits)

text \<open>
  C26. On the memory card bus a fire returns, after at most twelve rounds of address
  queries, and keeps the invariant of the module, whatever the hardware registers answer (also when
  no transfer ever completes). It rests on two things: every reply read from the bus keeps to the counts of the
  protocol (the copy of a longer one reads past the buffer), and the sleep of the kernel returns
  (\<open>hw_sleep_us\<close> is a function).
\<close>

theorem exi_fire_returns:
  assumes "\<forall>tx w. rx_conforms (snd (fst (lk_phase_b (exi_link H) tx RA_SNAP_RX_BUF_SZ w)))"
    and "ra_inv st"
  shows "\<exists>k st' w'. fire_exchanges (exi_link H) mems st w = Some (k, st', w') \<and> ra_inv st' \<and> k \<le> 12"
  using exi_transport.fire_total assms unfolding exi_transport.adapter_conforms_def by blast

text \<open>A bus on which nothing ever completes: every wait runs into its bound.\<close>

definition stuck_bus :: "unit exi_hw" where
  "stuck_bus = \<lparr> hw_read = (\<lambda>a h. (if a = HW_TIMER then 0 else if a = EXI_CR 1 then 1 else 0, h)),
     hw_write = (\<lambda>a v h. h), hw_sleep_us = (\<lambda>_ h. h), hw_led = (\<lambda>_ h. h) \<rparr>"

lemma busy_wait_stuck: "hw_read H cr h = (1, h) \<Longrightarrow> busy_wait H cr n h = (0, h)"
  by (induction n) auto

lemma stuck_phase_b:
  assumes "exi_send_phase_b stuck_bus tx n e = ((r, bs), e')"
  shows "bs = []"
proof -
  have b: "busy_wait stuck_bus (EXI_CR (Suc 0)) m h = (0, h)" for m h
    by (rule busy_wait_stuck) (simp add: stuck_bus_def EXI_CR_def)
  have "bs' = []" if "batch_read_slices stuck_bus 1 k h = ((r', bs'), h')" for k h r' bs' h'
    using that by (subst (asm) batch_read_slices.simps, subst (asm) Swi_ExiBatchRead.simps)
      (simp add: b Let_def split: if_splits)
  then show ?thesis using assms
    by (auto simp: exi_send_phase_b_def phase_b_read_def exi_batch_read_def Let_def
        split: prod.splits if_splits)
qed

theorem exi_fire_returns_witness:
  "\<exists>k st' w'. fire_exchanges (exi_link stuck_bus) (\<lambda>_. demo_mem) demo_ra
      \<lparr> ew_hw = (), ew_to_phaseb = 0, ew_to_dbg = 0, ew_wait_ms = 0 \<rparr> = Some (k, st', w') \<and> ra_inv st' \<and> k \<le> 12"
proof (rule exi_fire_returns [OF _ demo_ra_inv], intro allI)
  fix tx :: bytes and e :: "unit exi_world"
  obtain r bs e' where s: "exi_send_phase_b stuck_bus tx RA_SNAP_RX_BUF_SZ e = ((r, bs), e')"
    by (metis prod.collapse)
  then have "bs = []" by (rule stuck_phase_b)
  with s show "rx_conforms (snd (fst (lk_phase_b (exi_link stuck_bus) tx RA_SNAP_RX_BUF_SZ e)))"
    by (simp add: exi_link_def rx_pad_def rx_conforms_def sub_bytes_def dec_ra_esp_header_t_def)
qed

end
