(* ===== verification/Wbfs.thy ===== *)
theory Wbfs
  imports Cios_Prelude
begin

text \<open>
  The WBFS file system (\<open>cios-lib/libwbfs/libwbfs.c\<close>): opening a partition and a disc,
  reading a disc through its block table, the listing, and the free block table with its
  allocation. The disk is reached through the two sector callbacks the caller provides
  (\<open>wbfs_dev\<close>, a parameter); \<open>'d\<close> is their \<open>callback_data\<close>. Sector buffers are kept as the
  bytes the code casts to its structures; \<open>wbfs_ntohl\<close> and its relatives are the identity on
  the big-endian processor. \<open>None\<close> is a shift by 32 or more, a division by zero or an
  access outside a buffer.
\<close>

record 'd wbfs_dev =
  read_hdsector :: "u32 \<Rightarrow> u32 \<Rightarrow> 'd \<Rightarrow> (s32 \<times> bytes) \<times> 'd"
  write_hdsector :: "(u32 \<Rightarrow> u32 \<Rightarrow> bytes \<Rightarrow> 'd \<Rightarrow> 'd) option"

section \<open>Structures\<close>

abbreviation (input) WBFS_MAGIC :: u32 where "WBFS_MAGIC \<equiv> 0x57424653"
abbreviation (input) HEAD_SIZE :: nat where "HEAD_SIZE \<equiv> 12"
abbreviation (input) INFO_SIZE :: nat where "INFO_SIZE \<equiv> 0x100"

text \<open>The fields of \<open>wbfs_head_t\<close>, read out of the partition's first sector.\<close>

definition head_magic :: "bytes \<Rightarrow> u32" where
  "head_magic head = be32 (take 4 head)"

definition head_n_hd_sec :: "bytes \<Rightarrow> u32" where
  "head_n_hd_sec head = be32 (take 4 (drop 4 head))"

definition head_hd_sec_sz_s :: "bytes \<Rightarrow> u8" where
  "head_hd_sec_sz_s head = head ! 8"

definition head_wbfs_sec_sz_s :: "bytes \<Rightarrow> u8" where
  "head_wbfs_sec_sz_s head = head ! 9"

text \<open>\<open>wbfs_t\<close>, and the file's static \<open>hd_sec_sz_ratio\<close>, which is set for the partition.\<close>

record wbfs_t =
  head :: bytes
  hd_sec_sz :: u32
  hd_sec_sz_s :: u8
  n_hd_sec :: u32
  wii_sec_sz :: u32
  wii_sec_sz_s :: u8
  n_wii_sec :: u32
  n_wii_sec_per_disc :: u32
  wbfs_sec_sz :: u32
  wbfs_sec_sz_s :: u32
  n_wbfs_sec :: u16
  n_wbfs_sec_per_disc :: u16
  part_lba :: u32
  max_disc :: u16
  freeblks_lba :: u32
  freeblks :: "bytes option"
  disc_info_sz :: u16
  n_disc_open :: u32
  hd_sec_sz_ratio :: u32

record wbfs_disc_t =
  disc_header :: bytes
  disc_i :: u32

definition shl1 :: "nat \<Rightarrow> u32 option" where
  "shl1 s = (if s < 32 then Some (push_bit s 1) else None)"

definition shr32 :: "u32 \<Rightarrow> nat \<Rightarrow> u32 option" where
  "shr32 v s = (if s < 32 then Some (drop_bit s v) else None)"

definition div32 :: "u32 \<Rightarrow> u32 \<Rightarrow> u32 option" where
  "div32 a b = (if b = 0 then None else Some (a div b))"

function shift_loop :: "u32 \<Rightarrow> u8 \<Rightarrow> u8" where
  "shift_loop sz ret = (if sz = 0 then ret else shift_loop (drop_bit 1 sz) (ret + 1))"
  by pat_completeness auto
termination
  by (relation "measure (\<lambda>(sz, ret). unat sz)")
     (simp_all add: drop_bit_eq_div unat_div unat_gt_0)

declare shift_loop.simps [simp del]

definition size_to_shift :: "u32 \<Rightarrow> u8" where
  "size_to_shift sz = shift_loop sz 0 - 1"

text \<open>\<open>ALIGN_LBA\<close>\<close>

definition ALIGN_LBA :: "u32 \<Rightarrow> u32 \<Rightarrow> u32" where
  "ALIGN_LBA sec_sz x = (x + sec_sz - 1) AND NOT (sec_sz - 1)"

section \<open>Opening a partition\<close>

text \<open>The header of an empty partition (\<open>reset\<close>): the smallest block size whose block
  numbers fit 16 bits is chosen.\<close>

definition format_head :: "u32 \<Rightarrow> u32 \<Rightarrow> bytes" where
  "format_head hd_sector_size num_hd_sector =
     (let n_wii = (num_hd_sector div 0x8000) * hd_sector_size;
          sz_s = (case find (\<lambda>s. n_wii < 0x10000 * push_bit s 1) [6..<11] of Some s \<Rightarrow> s | None \<Rightarrow> 11)
      in blit (replicate (if hd_sector_size = 0 then 512 else unat hd_sector_size) 0) 0
           (put_be32 WBFS_MAGIC @ put_be32 num_hd_sector
            @ [size_to_shift hd_sector_size, of_nat sz_s + size_to_shift 0x8000]))"

text \<open>The disc table ends with the header sector.\<close>

definition clamp_discs :: "u32 \<Rightarrow> u16 \<Rightarrow> u16" where
  "clamp_discs sec_sz m =
     (if ucast m > sec_sz - of_nat HEAD_SIZE then ucast (sec_sz - of_nat HEAD_SIZE) else m)"

text \<open>The second half of \<open>wbfs_open_partition\<close>, after the checks; \<open>junk n\<close> is a fresh
  buffer of \<open>n\<close> bytes.\<close>

definition wbfs_geometry ::
  "(nat \<Rightarrow> bytes) \<Rightarrow> bytes \<Rightarrow> u32 \<Rightarrow> u8 \<Rightarrow> u32 \<Rightarrow> u32 \<Rightarrow> u32 \<Rightarrow> bool \<Rightarrow> wbfs_t option"
where
  "wbfs_geometry junk hb sec_sz sec_sz_s nsec lba ratio reset =
     (let n_wii = (nsec div 0x8000) * sec_sz;
          per_disc = 143432 * 2;
          ws = ucast (head_wbfs_sec_sz_s hb) :: u32;
          sh = unat (ws - ucast (size_to_shift 0x8000))
      in do { wsz \<leftarrow> shl1 (unat ws);
              nw \<leftarrow> shr32 n_wii sh;
              npd \<leftarrow> shr32 per_disc sh;
              let n_wbfs = (ucast nw :: u16);
              let n_pd = (ucast npd :: u16);
              let info_sz = (ucast (ALIGN_LBA sec_sz (0x100 + ucast n_pd * 2)) :: u16);
              let fbytes = (ucast n_wbfs div 8 :: u32);
              let fb = (if reset then
                          Some (replicate (unat fbytes) 0xFF
                                @ drop (unat fbytes) (junk (unat (ALIGN_LBA sec_sz fbytes))))
                        else None);
              let flba = drop_bit (unat sec_sz_s) (wsz - fbytes);
              md \<leftarrow> div32 (flba - 1) (drop_bit (unat sec_sz_s) (ucast info_sz));
              Some \<lparr> head = hb, hd_sec_sz = sec_sz, hd_sec_sz_s = sec_sz_s, n_hd_sec = nsec,
                wii_sec_sz = 0x8000, wii_sec_sz_s = size_to_shift 0x8000, n_wii_sec = n_wii,
                n_wii_sec_per_disc = per_disc, wbfs_sec_sz = wsz, wbfs_sec_sz_s = ws,
                n_wbfs_sec = n_wbfs, n_wbfs_sec_per_disc = n_pd, part_lba = lba,
                max_disc = clamp_discs sec_sz (ucast md), freeblks_lba = flba, freeblks = fb, disc_info_sz = info_sz,
                n_disc_open = 0, hd_sec_sz_ratio = ratio \<rparr> })"

text \<open>The header sector: formatted in memory, or read.\<close>

definition load_head :: "'d wbfs_dev \<Rightarrow> bool \<Rightarrow> bytes \<Rightarrow> u32 \<Rightarrow> u32 \<Rightarrow> 'd \<Rightarrow> bytes \<times> 'd" where
  "load_head dev reset fresh lba n d =
     (if reset then (fresh, d) else case read_hdsector dev lba n d of ((e, bs), d') \<Rightarrow> (bs, d'))"

definition wbfs_open_partition ::
  "'d wbfs_dev \<Rightarrow> (nat \<Rightarrow> bytes) \<Rightarrow> bool \<Rightarrow> u32 \<Rightarrow> u32 \<Rightarrow> u32 \<Rightarrow> bool \<Rightarrow> 'd
    \<Rightarrow> ((string + wbfs_t) \<times> 'd) option"
where
  "wbfs_open_partition dev junk force_mode hd_sector_size num_hd_sector lba reset d =
     (case load_head dev reset (format_head hd_sector_size num_hd_sector) lba 1 d of (head1, d1) \<Rightarrow>
      if head_magic head1 \<noteq> WBFS_MAGIC then Some (Inl ''bad magic'', d1)
      else do {
        sec_sz \<leftarrow> shl1 (unat (head_hd_sec_sz_s head1));
        let ratio = sec_sz div (if hd_sector_size \<noteq> 0 then hd_sector_size else 512);
        let (head2, d2) = load_head dev reset head1 lba ratio d1;
        if \<not> force_mode \<and> hd_sector_size \<noteq> 0
           \<and> head_hd_sec_sz_s head2 \<noteq> size_to_shift (hd_sector_size * ratio)
        then Some (Inl ''hd sector size doesn't match'', d2)
        else do {
          bad_num \<leftarrow> (if \<not> force_mode \<and> num_hd_sector \<noteq> 0
                      then map_option (\<lambda>q. head_n_hd_sec head2 \<noteq> q) (div32 num_hd_sector ratio)
                      else Some False);
          if bad_num then Some (Inl ''hd num sector doesn't match'', d2)
          else do { p \<leftarrow> wbfs_geometry junk head2 sec_sz (head_hd_sec_sz_s head1)
                           (head_n_hd_sec head1) lba ratio reset;
                    Some (Inr p, d2) } } })"

text \<open>The partition table entries of the first sector, tried in turn.\<close>

definition le32_at :: "bytes \<Rightarrow> nat \<Rightarrow> u32" where
  "le32_at bs k = ucast (bs ! k) OR push_bit 8 (ucast (bs ! (k + 1)))
     OR push_bit 16 (ucast (bs ! (k + 2))) OR push_bit 24 (ucast (bs ! (k + 3)))"

fun open_hd_loop ::
  "'d wbfs_dev \<Rightarrow> (nat \<Rightarrow> bytes) \<Rightarrow> bool \<Rightarrow> u32 \<Rightarrow> bool \<Rightarrow> bytes \<Rightarrow> nat \<Rightarrow> nat \<Rightarrow> 'd
    \<Rightarrow> (wbfs_t option \<times> 'd) option"
where
  "open_hd_loop dev junk force sz reset part_table i 0 d = Some (None, d)"
| "open_hd_loop dev junk force sz reset part_table i (Suc left) d =
     (let lba = le32_at part_table (16 * i + 8) in
      case read_hdsector dev lba 1 d of ((e, bs), d1) \<Rightarrow>
        if head_magic bs = WBFS_MAGIC then
          do { (r, d2) \<leftarrow> wbfs_open_partition dev junk force sz 0 lba reset d1;
               Some (case r of Inl msg \<Rightarrow> None | Inr p \<Rightarrow> Some p, d2) }
        else open_hd_loop dev junk force sz reset part_table (Suc i) left d1)"

definition wbfs_open_hd ::
  "'d wbfs_dev \<Rightarrow> (nat \<Rightarrow> bytes) \<Rightarrow> bool \<Rightarrow> u32 \<Rightarrow> bool \<Rightarrow> 'd \<Rightarrow> (wbfs_t option \<times> 'd) option"
where
  "wbfs_open_hd dev junk force_mode hd_sector_size reset d =
     (case read_hdsector dev 0 1 d of ((ret, bs), d1) \<Rightarrow>
        if ret \<noteq> 0 then Some (None, d1)
        else do { part_table \<leftarrow> rd_block bs 0x1BE 64;
                  open_hd_loop dev junk force_mode hd_sector_size reset part_table 0 4 d1 })"

section \<open>Sync and close\<close>

definition freeblks_sectors :: "wbfs_t \<Rightarrow> u32" where
  "freeblks_sectors p =
     drop_bit (unat (hd_sec_sz_s p)) (ALIGN_LBA (hd_sec_sz p) (ucast (n_wbfs_sec p) div 8)) * hd_sec_sz_ratio p"

definition wbfs_sync :: "'d wbfs_dev \<Rightarrow> wbfs_t \<Rightarrow> 'd \<Rightarrow> 'd" where
  "wbfs_sync dev p d =
     (case write_hdsector dev of None \<Rightarrow> d
      | Some wr \<Rightarrow>
          let d1 = wr (part_lba p) (hd_sec_sz_ratio p) (head p) d
          in case freeblks p of None \<Rightarrow> d1
             | Some fb \<Rightarrow> wr (part_lba p + freeblks_lba p * hd_sec_sz_ratio p) (freeblks_sectors p) fb d1)"

text \<open>The result says whether the partition was released.\<close>

definition wbfs_close :: "'d wbfs_dev \<Rightarrow> wbfs_t \<Rightarrow> 'd \<Rightarrow> bool \<times> 'd" where
  "wbfs_close dev p d = (n_disc_open p = 0, wbfs_sync dev p d)"

section \<open>Discs\<close>

definition disc_table :: "wbfs_t \<Rightarrow> nat \<Rightarrow> u8 option" where
  "disc_table p i = rd (head p) (HEAD_SIZE + i)"

definition disc_info_lba :: "wbfs_t \<Rightarrow> u32 \<Rightarrow> u32" where
  "disc_info_lba p i =
     part_lba p + (1 + i * drop_bit (unat (hd_sec_sz_s p)) (ucast (disc_info_sz p))) * hd_sec_sz_ratio p"

definition disc_info_sectors :: "wbfs_t \<Rightarrow> u32" where
  "disc_info_sectors p = drop_bit (unat (hd_sec_sz_s p)) (ucast (disc_info_sz p)) * hd_sec_sz_ratio p"

text \<open>\<open>d_ok\<close> and \<open>h_ok\<close>: whether the two allocations succeed.\<close>

fun open_disc_loop ::
  "'d wbfs_dev \<Rightarrow> bool \<Rightarrow> bool \<Rightarrow> bytes \<Rightarrow> wbfs_t \<Rightarrow> nat \<Rightarrow> nat \<Rightarrow> 'd
    \<Rightarrow> (wbfs_disc_t option \<times> wbfs_t \<times> 'd) option"
where
  "open_disc_loop dev d_ok h_ok discid p i 0 d = Some (None, p, d)"
| "open_disc_loop dev d_ok h_ok discid p i (Suc left) d =
     do { used \<leftarrow> disc_table p i;
          if used \<noteq> 0 then
            (case read_hdsector dev (disc_info_lba p (of_nat i)) (hd_sec_sz_ratio p) d of ((e, bs), d1) \<Rightarrow>
               if take 6 bs = take 6 discid then
                 (if \<not> d_ok \<or> \<not> h_ok then Some (None, p, d1)
                  else case read_hdsector dev (disc_info_lba p (of_nat i)) (disc_info_sectors p) d1 of
                         ((e2, hdr), d2) \<Rightarrow>
                           Some (Some \<lparr> disc_header = hdr, disc_i = of_nat i \<rparr>,
                                 p\<lparr> n_disc_open := n_disc_open p + 1 \<rparr>, d2))
               else open_disc_loop dev d_ok h_ok discid p (Suc i) left d1)
          else open_disc_loop dev d_ok h_ok discid p (Suc i) left d }"

definition wbfs_open_disc ::
  "'d wbfs_dev \<Rightarrow> bool \<Rightarrow> bool \<Rightarrow> wbfs_t \<Rightarrow> bytes \<Rightarrow> 'd \<Rightarrow> (wbfs_disc_t option \<times> wbfs_t \<times> 'd) option"
where
  "wbfs_open_disc dev d_ok h_ok p discid d =
     open_disc_loop dev d_ok h_ok discid p 0 (unat (max_disc p)) d"

definition wbfs_close_disc :: "wbfs_t \<Rightarrow> wbfs_t" where
  "wbfs_close_disc p = p\<lparr> n_disc_open := n_disc_open p - 1 \<rparr>"

definition wlba_table :: "bytes \<Rightarrow> u16 \<Rightarrow> u16 option" where
  "wlba_table hdr i = rd16 hdr (INFO_SIZE + 2 * unat i)"

section \<open>Reading a disc\<close>

text \<open>A read of \<open>n\<close> sectors from sector \<open>lba\<close> of block \<open>iwlba\<close>.\<close>

definition block_read ::
  "'d wbfs_dev \<Rightarrow> wbfs_t \<Rightarrow> u16 \<Rightarrow> u32 \<Rightarrow> u32 \<Rightarrow> 'd \<Rightarrow> (s32 \<times> bytes) \<times> 'd"
where
  "block_read dev p iwlba lba n d =
     read_hdsector dev
       (part_lba p + (push_bit (unat (wbfs_sec_sz_s p - ucast (hd_sec_sz_s p))) (ucast iwlba) + lba)
          * hd_sec_sz_ratio p)
       (n * hd_sec_sz_ratio p) d"

definition lba_mask :: "wbfs_t \<Rightarrow> u32" where
  "lba_mask p = drop_bit (unat (hd_sec_sz_s p)) (wbfs_sec_sz p - 1)"

text \<open>
  Stepping past the end of a block: the position, or \<open>None\<close> where the table has no block
  for it (the code returns 1 there).
\<close>

definition next_block ::
  "wbfs_t \<Rightarrow> bytes \<Rightarrow> u16 \<times> u16 \<times> u32 \<Rightarrow> u32 \<Rightarrow> (u16 \<times> u16 \<times> u32) option option"
where
  "next_block p hdr pos len =
     (case pos of (wlba, iwlba, lba) \<Rightarrow>
        if lba > lba_mask p \<and> len \<noteq> 0 then
          do { b \<leftarrow> wlba_table hdr (wlba + 1);
               Some (if b = 0 then None else Some (wlba + 1, b, 0)) }
        else Some (Some pos))"

text \<open>The leading part, up to a sector boundary, when the offset is inside a sector.\<close>

definition read_head ::
  "'d wbfs_dev \<Rightarrow> wbfs_t \<Rightarrow> bytes \<Rightarrow> u16 \<times> u16 \<times> u32 \<Rightarrow> u32 \<Rightarrow> u32 \<Rightarrow> 'd
    \<Rightarrow> ((s32 + (u16 \<times> u16 \<times> u32) \<times> u32 \<times> bytes) \<times> 'd) option"
where
  "read_head dev p hdr pos off len d =
     (if off = 0 then Some (Inr (pos, len, []), d)
      else case pos of (wlba, iwlba, lba) \<Rightarrow>
        case block_read dev p iwlba lba 1 d of ((err, bs), d1) \<Rightarrow>
          if err \<noteq> 0 then Some (Inl err, d1)
          else let off4 = off * 4;
                   n = (if len < hd_sec_sz p - off4 then len else hd_sec_sz p - off4)
               in do { part \<leftarrow> rd_block bs (unat off4) (unat n);
                       nxt \<leftarrow> next_block p hdr (wlba, iwlba, lba + 1) (len - n);
                       Some (case nxt of None \<Rightarrow> Inl 1 | Some pos' \<Rightarrow> Inr (pos', len - n, part), d1) })"

text \<open>The loop over whole sectors.\<close>

partial_function (option) read_sectors ::
  "'d wbfs_dev \<Rightarrow> wbfs_t \<Rightarrow> bytes \<Rightarrow> u16 \<times> u16 \<times> u32 \<Rightarrow> u32 \<Rightarrow> bytes \<Rightarrow> 'd
    \<Rightarrow> ((s32 + (u16 \<times> u16 \<times> u32) \<times> u32 \<times> bytes) \<times> 'd) option"
where
  "read_sectors dev p hdr pos len acc d =
     (if len \<ge> hd_sec_sz p then
        (case pos of (wlba, iwlba, lba) \<Rightarrow>
           let nlb0 = drop_bit (unat (hd_sec_sz_s p)) len;
               nlb = (if lba + nlb0 > wbfs_sec_sz p then wbfs_sec_sz p - lba else nlb0)
           in case block_read dev p iwlba lba nlb d of ((err, bs), d1) \<Rightarrow>
                if err \<noteq> 0 then Some (Inl err, d1)
                else let len' = len - push_bit (unat (hd_sec_sz_s p)) nlb
                     in do { nxt \<leftarrow> next_block p hdr (wlba, iwlba, lba + nlb) len';
                             case nxt of None \<Rightarrow> Some (Inl 1, d1)
                             | Some pos' \<Rightarrow> read_sectors dev p hdr pos' len' (acc @ bs) d1 })
      else Some (Inr (pos, len, acc), d))"

text \<open>The trailing part of a sector.\<close>

definition read_tail ::
  "'d wbfs_dev \<Rightarrow> wbfs_t \<Rightarrow> u16 \<times> u16 \<times> u32 \<Rightarrow> u32 \<Rightarrow> bytes \<Rightarrow> 'd \<Rightarrow> (s32 + bytes) \<times> 'd"
where
  "read_tail dev p pos len acc d =
     (case pos of (wlba, iwlba, lba) \<Rightarrow>
        if len = 0 then (Inr acc, d)
        else case block_read dev p iwlba lba 1 d of ((err, bs), d1) \<Rightarrow>
               if err \<noteq> 0 then (Inl err, d1) else (Inr (acc @ take (unat len) bs), d1))"

text \<open>
  \<open>wbfs_disc_read\<close>: the error code or the bytes. \<open>offset\<close> counts 32-bit words, \<open>len\<close> bytes.
\<close>

definition wbfs_disc_read ::
  "'d wbfs_dev \<Rightarrow> wbfs_t \<Rightarrow> bytes \<Rightarrow> u32 \<Rightarrow> u32 \<Rightarrow> 'd \<Rightarrow> ((s32 + bytes) \<times> 'd) option"
where
  "wbfs_disc_read dev p hdr offset len d =
     (let wlba = (ucast (drop_bit (unat (wbfs_sec_sz_s p - 2)) offset) :: u16);
          lba = drop_bit (unat (hd_sec_sz_s p - 2)) offset AND lba_mask p;
          off = offset AND (drop_bit 2 (hd_sec_sz p) - 1)
      in do { iwlba \<leftarrow> wlba_table hdr wlba;
              if iwlba = 0 then Some (Inl 1, d)
              else do {
                (r1, d1) \<leftarrow> read_head dev p hdr (wlba, iwlba, lba) off len d;
                case r1 of Inl e \<Rightarrow> Some (Inl e, d1)
                | Inr (pos, len1, part) \<Rightarrow>
                    do { (r2, d2) \<leftarrow> read_sectors dev p hdr pos len1 part d1;
                         case r2 of Inl e \<Rightarrow> Some (Inl e, d2)
                         | Inr (pos2, len2, acc) \<Rightarrow> Some (read_tail dev p pos2 len2 acc d2) } } })"

section \<open>Listing\<close>

fun count_table :: "wbfs_t \<Rightarrow> nat \<Rightarrow> nat \<Rightarrow> u32 \<Rightarrow> u32 option" where
  "count_table p i 0 count = Some count"
| "count_table p i (Suc left) count =
     do { used \<leftarrow> disc_table p i;
          count_table p (Suc i) left (if used \<noteq> 0 then count + 1 else count) }"

definition wbfs_count_discs :: "wbfs_t \<Rightarrow> u32 option" where
  "wbfs_count_discs p = count_table p 0 (unat (max_disc p)) 0"

fun sectors_used :: "bytes \<Rightarrow> nat \<Rightarrow> nat \<Rightarrow> u32 \<Rightarrow> u32 option" where
  "sectors_used di j 0 tot = Some tot"
| "sectors_used di j (Suc left) tot =
     do { b \<leftarrow> wlba_table di (of_nat j);
          sectors_used di (Suc j) left (if b \<noteq> 0 then tot + 1 else tot) }"

definition wbfs_sector_used :: "wbfs_t \<Rightarrow> bytes \<Rightarrow> u32 option" where
  "wbfs_sector_used p di = sectors_used di 0 (unat (n_wbfs_sec_per_disc p)) 0"

text \<open>\<open>wbfs_get_disc_info\<close>: the result carries the header bytes and the size in words. A
  slot whose copy of the disc header has lost its magic is dropped from the table.\<close>

fun disc_info_loop ::
  "'d wbfs_dev \<Rightarrow> u32 \<Rightarrow> u32 \<Rightarrow> wbfs_t \<Rightarrow> nat \<Rightarrow> nat \<Rightarrow> u32 \<Rightarrow> 'd
    \<Rightarrow> (((bytes \<times> u32) option) \<times> wbfs_t \<times> 'd) option"
where
  "disc_info_loop dev index header_size p i 0 count d = Some (None, p, d)"
| "disc_info_loop dev index header_size p i (Suc left) count d =
     do { used \<leftarrow> disc_table p i;
          if used \<noteq> 0 then
            if count = index then
              (case read_hdsector dev (disc_info_lba p (of_nat i)) (hd_sec_sz_ratio p) d of ((e, bs), d1) \<Rightarrow>
               do { magic \<leftarrow> rd32 bs 24;
                    if magic \<noteq> 0x5D1C9EA3
                    then Some (None, p\<lparr> head := (head p)[HEAD_SIZE + i := 0] \<rparr>, d1)
                    else case read_hdsector dev (disc_info_lba p (of_nat i)) (disc_info_sectors p) d1 of
                      ((e2, di), d2) \<Rightarrow>
                        do { n \<leftarrow> wbfs_sector_used p di;
                             Some (Some (take (unat (min header_size (hd_sec_sz p))) bs,
                                         push_bit (unat (wbfs_sec_sz_s p - 2)) n), p, d2) } })
            else disc_info_loop dev index header_size p (Suc i) left (count + 1) d
          else disc_info_loop dev index header_size p (Suc i) left count d }"

definition wbfs_get_disc_info ::
  "'d wbfs_dev \<Rightarrow> wbfs_t \<Rightarrow> u32 \<Rightarrow> u32 \<Rightarrow> 'd \<Rightarrow> (((bytes \<times> u32) option) \<times> wbfs_t \<times> 'd) option"
where
  "wbfs_get_disc_info dev p index header_size d =
     disc_info_loop dev index header_size p 0 (unat (max_disc p)) 0 d"

section \<open>Free block table\<close>

definition load_freeblocks :: "'d wbfs_dev \<Rightarrow> wbfs_t \<Rightarrow> 'd \<Rightarrow> wbfs_t \<times> 'd" where
  "load_freeblocks dev p d =
     (case freeblks p of Some fb \<Rightarrow> (p, d)
      | None \<Rightarrow>
          case read_hdsector dev (part_lba p + freeblks_lba p * hd_sec_sz_ratio p) (freeblks_sectors p) d of
            ((e, bs), d1) \<Rightarrow> (p\<lparr> freeblks := Some bs \<rparr>, d1))"

text \<open>Number of 32-bit words of the table that the loops go through.\<close>

definition fb_words :: "wbfs_t \<Rightarrow> nat" where
  "fb_words p = unat (n_wbfs_sec p) div 32"

definition count_word :: "u32 \<Rightarrow> u32" where
  "count_word v =
     (if v = - 1 then 32
      else if v \<noteq> 0 then of_nat (length (filter (\<lambda>j. v AND push_bit j 1 \<noteq> 0) [0..<32]))
      else 0)"

fun count_words :: "bytes \<Rightarrow> nat \<Rightarrow> nat \<Rightarrow> u32 \<Rightarrow> u32 option" where
  "count_words fb i 0 count = Some count"
| "count_words fb i (Suc left) count =
     do { v \<leftarrow> rd32 fb (4 * i); count_words fb (Suc i) left (count + count_word v) }"

definition wbfs_count_usedblocks :: "'d wbfs_dev \<Rightarrow> wbfs_t \<Rightarrow> 'd \<Rightarrow> (u32 \<times> wbfs_t \<times> 'd) option" where
  "wbfs_count_usedblocks dev p d =
     (case load_freeblocks dev p d of (p1, d1) \<Rightarrow>
        do { fb \<leftarrow> freeblks p1; n \<leftarrow> count_words fb 0 (fb_words p1) 0; Some (n, p1, d1) })"

fun alloc_loop :: "bytes \<Rightarrow> nat \<Rightarrow> nat \<Rightarrow> (u32 \<times> bytes) option" where
  "alloc_loop fb i 0 = Some (- 1, fb)"
| "alloc_loop fb i (Suc left) =
     do { v \<leftarrow> rd32 fb (4 * i);
          case (if v \<noteq> 0 then find (\<lambda>j. v AND push_bit j 1 \<noteq> 0) [0..<32] else None) of
            Some j \<Rightarrow> Some (of_nat (i * 32 + j + 1), blit fb (4 * i) (put_be32 (v AND NOT (push_bit j 1))))
          | None \<Rightarrow> alloc_loop fb (Suc i) left }"

definition alloc_block :: "wbfs_t \<Rightarrow> (u32 \<times> wbfs_t) option" where
  "alloc_block p =
     do { fb \<leftarrow> freeblks p; (bl, fb') \<leftarrow> alloc_loop fb 0 (fb_words p);
          Some (bl, p\<lparr> freeblks := Some fb' \<rparr>) }"

definition free_block :: "wbfs_t \<Rightarrow> nat \<Rightarrow> wbfs_t option" where
  "free_block p bl =
     do { fb \<leftarrow> freeblks p;
          v \<leftarrow> rd32 fb (4 * (bl div 32));
          Some (p\<lparr> freeblks := Some (blit fb (4 * (bl div 32)) (put_be32 (v OR push_bit (bl mod 32) 1))) \<rparr>) }"

definition block_used :: "bytes \<Rightarrow> nat \<Rightarrow> nat \<Rightarrow> bool" where
  "block_used used i wblk_sz \<longleftrightarrow>
     list_ex (\<lambda>k. i * wblk_sz + k < 143432 * 2 \<and> used ! (i * wblk_sz + k) \<noteq> 0) [0..<wblk_sz]"

section \<open>Removing a disc\<close>

fun free_blocks :: "bytes \<Rightarrow> nat \<Rightarrow> nat \<Rightarrow> wbfs_t \<Rightarrow> wbfs_t option" where
  "free_blocks hdr i 0 p = Some p"
| "free_blocks hdr i (Suc left) p =
     do { b \<leftarrow> wlba_table hdr (of_nat i);
          p' \<leftarrow> (if b \<noteq> 0 then free_block p (unat b) else Some p);
          free_blocks hdr (Suc i) left p' }"

definition wbfs_rm_disc ::
  "'d wbfs_dev \<Rightarrow> bool \<Rightarrow> bool \<Rightarrow> wbfs_t \<Rightarrow> bytes \<Rightarrow> 'd \<Rightarrow> (s32 \<times> wbfs_t \<times> 'd) option"
where
  "wbfs_rm_disc dev d_ok h_ok p discid d =
     do { (dd, p1, d1) \<leftarrow> wbfs_open_disc dev d_ok h_ok p discid d;
          case dd of None \<Rightarrow> Some (1, p1, d1)
          | Some disc \<Rightarrow>
              (case load_freeblocks dev p1 d1 of (p2, d2) \<Rightarrow>
               do { p3 \<leftarrow> free_blocks (disc_header disc) 0 (unat (n_wbfs_sec_per_disc p2)) p2;
                    wr \<leftarrow> write_hdsector dev;
                    let d3 = wr (disc_info_lba p3 (disc_i disc)) (disc_info_sectors p3)
                               (replicate (unat (disc_info_sz p3)) 0) d2;
                    let p4 = p3\<lparr> head := (head p3)[HEAD_SIZE + unat (disc_i disc) := 0] \<rparr>;
                    let p5 = wbfs_close_disc p4;
                    Some (0, p5, wbfs_sync dev p5 d3) }) }"

section \<open>Extracting a disc\<close>

text \<open>\<open>'e\<close> is the state behind the destination callback; the progress callback is left out.\<close>

fun extract_blocks ::
  "'d wbfs_dev \<Rightarrow> (u32 \<Rightarrow> u32 \<Rightarrow> bytes \<Rightarrow> 'e \<Rightarrow> 'e) \<Rightarrow> wbfs_t \<Rightarrow> bytes \<Rightarrow> nat \<Rightarrow> nat \<Rightarrow> 'd \<Rightarrow> 'e
    \<Rightarrow> ('d \<times> 'e) option"
where
  "extract_blocks dev dst p hdr i 0 d e = Some (d, e)"
| "extract_blocks dev dst p hdr i (Suc left) d e =
     do { b \<leftarrow> wlba_table hdr (of_nat i);
          if b \<noteq> 0 then
            (let src = wbfs_sec_sz p div hd_sec_sz p; n = wbfs_sec_sz p div wii_sec_sz p in
             case read_hdsector dev (part_lba p + ucast b * src * hd_sec_sz_ratio p)
                    (src * hd_sec_sz_ratio p) d of
               ((err, bs), d1) \<Rightarrow>
                 extract_blocks dev dst p hdr (Suc i) left d1 (dst (of_nat i * n) n bs e))
          else extract_blocks dev dst p hdr (Suc i) left d e }"

definition wbfs_extract_disc ::
  "'d wbfs_dev \<Rightarrow> (u32 \<Rightarrow> u32 \<Rightarrow> bytes \<Rightarrow> 'e \<Rightarrow> 'e) \<Rightarrow> bool \<Rightarrow> wbfs_t \<Rightarrow> bytes \<Rightarrow> 'd \<Rightarrow> 'e
    \<Rightarrow> (s32 \<times> 'd \<times> 'e) option"
where
  "wbfs_extract_disc dev dst buf_ok p hdr d e =
     (if \<not> buf_ok then Some (1, d, e)
      else do { (d1, e1) \<leftarrow> extract_blocks dev dst p hdr 0 (unat (n_wbfs_sec_per_disc p)) d e;
                Some (0, d1, e1) })"

section \<open>Reads return the block\<close>

definition wbfs_geom :: "wbfs_t \<Rightarrow> nat \<Rightarrow> nat \<Rightarrow> bool" where
  "wbfs_geom p hs ws \<longleftrightarrow> hd_sec_sz p = push_bit hs 1 \<and> unat (hd_sec_sz_s p) = hs
     \<and> wbfs_sec_sz p = push_bit ws 1 \<and> unat (wbfs_sec_sz_s p) = ws \<and> hs < 32 \<and> ws < 32"

lemma geom_facts:
  assumes "wbfs_geom p hs ws" and "2 \<le> hs" and "hs \<le> ws"
  shows "unat (hd_sec_sz p) = 2 ^ hs" and "unat (wbfs_sec_sz p) = 2 ^ ws"
    and "lba_mask p = mask (ws - hs)" and "drop_bit 2 (hd_sec_sz p) - 1 = mask (hs - 2)"
    and "unat (wbfs_sec_sz_s p - ucast (hd_sec_sz_s p)) = ws - hs"
    and "unat (wbfs_sec_sz_s p - 2) = ws - 2" and "unat (hd_sec_sz_s p - 2) = hs - 2"
proof -
  have g: "hd_sec_sz p = push_bit hs 1" "unat (hd_sec_sz_s p) = hs" "wbfs_sec_sz p = push_bit ws 1"
    "unat (wbfs_sec_sz_s p) = ws" "hs < 32" "ws < 32" using assms(1) by (simp_all add: wbfs_geom_def)
  show "unat (hd_sec_sz p) = 2 ^ hs" "unat (wbfs_sec_sz p) = 2 ^ ws"
    using g by (simp_all add: unat_exp_u32)
  show "lba_mask p = mask (ws - hs)"
    unfolding lba_mask_def g(2,3) using drop_bit_mask_word [of hs ws, where 'a = 32] assms g(6)
    by (simp add: mask_eq_exp_minus_1 push_bit_of_1)
  have "drop_bit 2 (push_bit hs 1 :: u32) = push_bit (hs - 2) 1"
    using assms g(5) by (intro bit_word_eqI) (auto simp: bit_simps)
  then show "drop_bit 2 (hd_sec_sz p) - 1 = mask (hs - 2)"
    by (simp add: g(1) mask_eq_exp_minus_1 push_bit_of_1)
  show "unat (wbfs_sec_sz_s p - ucast (hd_sec_sz_s p)) = ws - hs"
    using g assms by (simp add: unat_u32_sub)
  show "unat (wbfs_sec_sz_s p - 2) = ws - 2"
    using g assms by (simp add: unat_u32_sub)
  have "(2 :: u8) \<le> hd_sec_sz_s p" using g assms by (simp add: word_le_nat_alt)
  then show "unat (hd_sec_sz_s p - 2) = hs - 2" using g by (simp add: unat_sub)
qed

definition part_ok :: "'d wbfs_dev \<Rightarrow> wbfs_t \<Rightarrow> (nat \<Rightarrow> u8) \<Rightarrow> bool" where
  "part_ok dev p B \<longleftrightarrow> (\<forall>l n d. unat (part_lba p) + (unat l + unat n) * unat (hd_sec_sz_ratio p) < 4294967296 \<longrightarrow>
     read_hdsector dev (part_lba p + l * hd_sec_sz_ratio p) (n * hd_sec_sz_ratio p) d
       = ((0, map B [unat l * unat (hd_sec_sz p)..<(unat l + unat n) * unat (hd_sec_sz p)]), d))"

lemma block_read_ok:
  assumes g: "wbfs_geom p hs ws" "2 \<le> hs" "hs \<le> ws" and ok: "part_ok dev p B"
    and fit: "0 < unat (hd_sec_sz_ratio p)"
      "unat (part_lba p) + (unat b * 2 ^ (ws - hs) + unat lba + unat n) * unat (hd_sec_sz_ratio p) < 4294967296"
  shows "block_read dev p b lba n d
    = ((0, map B [(unat b * 2 ^ (ws - hs) + unat lba) * 2 ^ hs..<(unat b * 2 ^ (ws - hs) + unat lba + unat n) * 2 ^ hs]), d)"
proof -
  let ?k = "ws - hs"
  let ?l = "push_bit ?k (ucast b) + lba :: u32"
  define A where "A = unat b * 2 ^ ?k + unat lba + unat n"
  have "A \<le> A * unat (hd_sec_sz_ratio p)" using fit(1) by simp
  then have "A < 4294967296" using fit(2) unfolding A_def [symmetric] by linarith
  then have lt: "unat b * 2 ^ ?k + unat lba < 4294967296" unfolding A_def by linarith
  then have "unat (push_bit ?k (ucast b :: u32)) = unat b * 2 ^ ?k"
    by (subst unat_push_bit_u32) simp_all
  then have l: "unat ?l = unat b * 2 ^ ?k + unat lba" using lt by (simp add: unat_u32_add)
  then show ?thesis
    using ok fit(2) geom_facts [OF g] unfolding block_read_def part_ok_def
    by (simp add: geom_facts(5) [OF g])
qed

lemma read_sectors_once:
  assumes g: "wbfs_geom p hs ws" "2 \<le> hs" "hs \<le> ws" and ok: "part_ok dev p B"
    and r: "0 < unat (hd_sec_sz_ratio p)"
    and fit: "unat (part_lba p) + (unat b * 2 ^ (ws - hs) + unat lba + unat len div 2 ^ hs)
        * unat (hd_sec_sz_ratio p) < 4294967296"
    and blk: "unat lba + unat len div 2 ^ hs \<le> 2 ^ ws"
    and stop: "unat len mod 2 ^ hs = 0 \<or> unat lba + unat len div 2 ^ hs < 2 ^ (ws - hs)"
  defines "s0 \<equiv> unat b * 2 ^ (ws - hs) + unat lba"
  shows "\<exists>lba' len'. read_sectors dev p hdr (w, b, lba) len acc d
    = Some (Inr ((w, b, lba'), len', acc @ map B [s0 * 2 ^ hs..<(s0 + unat len div 2 ^ hs) * 2 ^ hs]), d)
    \<and> unat lba' = unat lba + unat len div 2 ^ hs \<and> unat len' = unat len mod 2 ^ hs"
proof (cases "unat len < 2 ^ hs")
  case True
  then have "\<not> len \<ge> hd_sec_sz p" by (simp add: word_le_nat_alt geom_facts(1) [OF g])
  then show ?thesis using True by (subst read_sectors.simps) simp
next
  case False
  let ?n = "drop_bit hs len"
  have hs: "unat (hd_sec_sz_s p) = hs" "ws < 32" using g by (simp_all add: wbfs_geom_def)
  have n: "unat ?n = unat len div 2 ^ hs" by (rule unat_drop_bit_u32)
  have ge: "len \<ge> hd_sec_sz p" using False by (simp add: word_le_nat_alt geom_facts(1) [OF g])
  have "(2::nat) ^ ws < 2 ^ 32" using hs(2) by (intro power_strict_increasing) simp_all
  then have lba: "unat (lba + ?n) = unat lba + unat len div 2 ^ hs"
    using blk n by (subst unat_u32_add) simp_all
  then have small: "\<not> lba + ?n > wbfs_sec_sz p"
    using blk by (simp add: word_less_nat_alt geom_facts(2) [OF g])
  have "unat len div 2 ^ hs * 2 ^ hs < 4294967296"
    using u32_less [of len] by (meson div_times_less_eq_dividend le_less_trans)
  then have push: "unat (push_bit hs ?n) = unat len div 2 ^ hs * 2 ^ hs"
    by (subst unat_push_bit_u32) (simp_all add: n)
  then have len': "unat (len - push_bit hs ?n) = unat len mod 2 ^ hs"
    by (subst unat_u32_sub) (simp_all add: minus_div_mult_eq_mod)
  have rd: "block_read dev p b lba ?n d
      = ((0, map B [s0 * 2 ^ hs..<(s0 + unat len div 2 ^ hs) * 2 ^ hs]), d)"
    unfolding s0_def using block_read_ok [OF g ok r, of b lba ?n d] fit by (simp add: n)
  have nb: "next_block p hdr (w, b, lba + ?n) (len - push_bit hs ?n) = Some (Some (w, b, lba + ?n))"
  proof (cases "unat len mod 2 ^ hs = 0")
    case True
    then have "len - push_bit hs ?n = 0" using len' by (metis unat_eq_0)
    then show ?thesis by (simp add: next_block_def)
  next
    case False
    then have "unat (lba + ?n) < 2 ^ (ws - hs)" using stop lba by simp
    moreover have "unat (mask (ws - hs) :: u32) = 2 ^ (ws - hs) - 1"
      using hs(2) by (intro unat_mask_u32) linarith
    ultimately have "\<not> lba + ?n > lba_mask p"
      by (simp add: geom_facts(3) [OF g] word_less_nat_alt)
    then show ?thesis by (simp add: next_block_def)
  qed
  have stop: "\<not> len - push_bit hs ?n \<ge> hd_sec_sz p"
    using len' mod_less_divisor [of "2 ^ hs" "unat len"]
    by (simp add: word_le_nat_alt geom_facts(1) [OF g] not_le)
  have "read_sectors dev p hdr (w, b, lba) len acc d
      = read_sectors dev p hdr (w, b, lba + ?n) (len - push_bit hs ?n)
          (acc @ map B [s0 * 2 ^ hs..<(s0 + unat len div 2 ^ hs) * 2 ^ hs]) d"
    by (subst read_sectors.simps) (simp only: hs(1) ge if_True prod.case Let_def small if_False rd nb
      Option.bind.simps option.case simp_thms)
  also have "\<dots> = Some (Inr ((w, b, lba + ?n), len - push_bit hs ?n,
      acc @ map B [s0 * 2 ^ hs..<(s0 + unat len div 2 ^ hs) * 2 ^ hs]), d)"
    using stop by (subst read_sectors.simps) (simp only: if_False)
  finally show ?thesis using lba len' by blast
qed


lemma read_tail_ok:
  assumes g: "wbfs_geom p hs ws" "2 \<le> hs" "hs \<le> ws" and ok: "part_ok dev p B"
    and r: "0 < unat (hd_sec_sz_ratio p)" and len: "unat len < 2 ^ hs"
    and fit: "len \<noteq> 0 \<Longrightarrow> unat (part_lba p) + (unat b * 2 ^ (ws - hs) + unat lba + 1)
        * unat (hd_sec_sz_ratio p) < 4294967296"
  shows "read_tail dev p (w, b, lba) len acc d
    = (Inr (acc @ map B [(unat b * 2 ^ (ws - hs) + unat lba) * 2 ^ hs
                         ..<(unat b * 2 ^ (ws - hs) + unat lba) * 2 ^ hs + unat len]), d)"
proof (cases "len = 0")
  case False
  then show ?thesis
    using block_read_ok [OF g ok r, of b lba 1 d] fit len
    by (simp add: read_tail_def take_map take_upt)
qed (simp add: read_tail_def)

text \<open>Whole sectors, then the rest, all from one block.\<close>

lemma read_rest_ok:
  assumes g: "wbfs_geom p hs ws" "2 \<le> hs" "hs \<le> ws" and ok: "part_ok dev p B"
    and r: "0 < unat (hd_sec_sz_ratio p)"
    and fit: "unat (part_lba p) + (unat b + 1) * 2 ^ (ws - hs) * unat (hd_sec_sz_ratio p) < 4294967296"
    and len: "len = 0 \<or> unat lba * 2 ^ hs + unat len \<le> 2 ^ ws"
  defines "s0 \<equiv> (unat b * 2 ^ (ws - hs) + unat lba) * 2 ^ hs"
  shows "\<exists>pos' len' acc'. read_sectors dev p hdr (w, b, lba) len acc d = Some (Inr (pos', len', acc'), d)
    \<and> read_tail dev p pos' len' acc' d = (Inr (acc @ map B [s0..<s0 + unat len]), d)"
proof (cases "len = 0")
  case True
  then have "\<not> len \<ge> hd_sec_sz p" by (simp add: word_le_nat_alt geom_facts(1) [OF g])
  then have "read_sectors dev p hdr (w, b, lba) len acc d = Some (Inr ((w, b, lba), len, acc), d)"
    by (subst read_sectors.simps) simp
  then show ?thesis using True by (simp add: read_tail_def)
next
  case False
  let ?k = "ws - hs" and ?r = "unat (hd_sec_sz_ratio p)" and ?q = "unat len div 2 ^ hs"
  have W: "(2::nat) ^ ws = 2 ^ ?k * 2 ^ hs" using g(3) by (simp flip: power_add)
  have lq: "unat len = ?q * 2 ^ hs + unat len mod 2 ^ hs" by (rule div_mult_mod_eq [symmetric])
  have le: "(unat lba + ?q) * 2 ^ hs + unat len mod 2 ^ hs \<le> 2 ^ ?k * 2 ^ hs"
    using len False lq unfolding W by (simp add: algebra_simps)
  then have "(unat lba + ?q) * 2 ^ hs \<le> 2 ^ ?k * 2 ^ hs" by (rule add_leD1)
  then have kq: "unat lba + ?q \<le> 2 ^ ?k" by simp
  have tl: "unat len mod 2 ^ hs \<noteq> 0 \<Longrightarrow> unat lba + ?q < 2 ^ ?k"
  proof -
    assume "unat len mod 2 ^ hs \<noteq> 0"
    then have "(unat lba + ?q) * 2 ^ hs < 2 ^ ?k * 2 ^ hs" using le by linarith
    then show "unat lba + ?q < 2 ^ ?k" by simp
  qed
  have rng: "m \<le> 2 ^ ?k \<Longrightarrow> unat (part_lba p) + (unat b * 2 ^ ?k + m) * ?r < 4294967296" for m
  proof -
    assume "m \<le> 2 ^ ?k"
    then have "(unat b * 2 ^ ?k + m) * ?r \<le> (unat b + 1) * 2 ^ ?k * ?r"
      by (intro mult_le_mono1) (simp add: algebra_simps)
    then show ?thesis using fit by linarith
  qed
  have "unat lba + ?q \<le> 2 ^ ws" using kq power_increasing [of ?k ws "2::nat"] by linarith
  then obtain lba' len' where rs: "read_sectors dev p hdr (w, b, lba) len acc d
      = Some (Inr ((w, b, lba'), len', acc @ map B [s0..<s0 + ?q * 2 ^ hs]), d)"
      "unat lba' = unat lba + ?q" "unat len' = unat len mod 2 ^ hs"
    using read_sectors_once [OF g ok r, of b lba len hdr w acc d] rng [OF kq] tl
    by (auto simp: s0_def algebra_simps)
  have "len' \<noteq> 0 \<Longrightarrow> unat (part_lba p) + (unat b * 2 ^ ?k + unat lba' + 1) * ?r < 4294967296"
    using tl rs(2,3) rng [of "unat lba' + 1"] by (simp add: unat_eq_0 [symmetric] add.assoc)
  then have "read_tail dev p (w, b, lba') len' (acc @ map B [s0..<s0 + ?q * 2 ^ hs]) d
      = (Inr ((acc @ map B [s0..<s0 + ?q * 2 ^ hs]) @ map B [s0 + ?q * 2 ^ hs..<s0 + ?q * 2 ^ hs + unat len']), d)"
    using read_tail_ok [OF g ok r, of len' b lba' w] rs(2,3) by (simp add: s0_def algebra_simps)
  moreover have "s0 + ?q * 2 ^ hs + unat len' = s0 + unat len" using rs(3) lq by linarith
  ultimately have "read_tail dev p (w, b, lba') len' (acc @ map B [s0..<s0 + ?q * 2 ^ hs]) d
      = (Inr (acc @ map B [s0..<s0 + unat len]), d)"
    using map_upt_join [of s0 "s0 + ?q * 2 ^ hs" "s0 + unat len" B] lq by simp
  then show ?thesis using rs(1) by blast
qed


lemma read_head_ok:
  assumes g: "wbfs_geom p hs ws" "2 \<le> hs" "hs \<le> ws" and ok: "part_ok dev p B"
    and r: "0 < unat (hd_sec_sz_ratio p)"
    and fit: "unat (part_lba p) + (unat b + 1) * 2 ^ (ws - hs) * unat (hd_sec_sz_ratio p) < 4294967296"
    and off: "4 * unat off < 2 ^ hs" and lba: "unat lba < 2 ^ (ws - hs)"
    and len: "unat lba * 2 ^ hs + 4 * unat off + unat len \<le> 2 ^ ws"
  defines "s0 \<equiv> (unat b * 2 ^ (ws - hs) + unat lba) * 2 ^ hs + 4 * unat off"
  shows "\<exists>lba' len' n. read_head dev p hdr (w, b, lba) off len d
      = Some (Inr ((w, b, lba'), len', map B [s0..<s0 + n]), d)
    \<and> unat len = n + unat len' \<and> (len' = 0 \<or> unat lba' * 2 ^ hs + unat len' \<le> 2 ^ ws
        \<and> (unat b * 2 ^ (ws - hs) + unat lba') * 2 ^ hs = s0 + n)"
proof (cases "off = 0")
  case True
  then show ?thesis using len by (intro exI [of _ lba] exI [of _ len] exI [of _ 0]) (simp add: read_head_def s0_def)
next
  case False
  let ?k = "ws - hs" and ?o = "4 * unat off"
  have W: "(2::nat) ^ ws = 2 ^ ?k * 2 ^ hs" using g(3) by (simp flip: power_add)
  have "(2::nat) ^ hs \<le> 2 ^ 31" using g by (intro power_increasing) (simp_all add: wbfs_geom_def)
  then have o4: "unat (off * 4) = ?o" using off by (simp add: unat_word_ariths)
  then have rest: "unat (hd_sec_sz p - off * 4) = 2 ^ hs - ?o"
    using off by (subst unat_u32_sub) (simp_all add: geom_facts(1) [OF g])
  define n where "n = (if len < hd_sec_sz p - off * 4 then len else hd_sec_sz p - off * 4)"
  have n: "unat n = min (unat len) (2 ^ hs - ?o)"
    using rest by (auto simp: n_def word_less_nat_alt)
  have "(unat b * 2 ^ ?k + unat lba + 1) * unat (hd_sec_sz_ratio p) \<le> (unat b + 1) * 2 ^ ?k * unat (hd_sec_sz_ratio p)"
    using lba by (intro mult_le_mono1) (simp add: algebra_simps)
  then have rd: "block_read dev p b lba 1 d = ((0, map B [(unat b * 2 ^ ?k + unat lba) * 2 ^ hs
      ..<(unat b * 2 ^ ?k + unat lba + 1) * 2 ^ hs]), d)"
    using block_read_ok [OF g ok r, of b lba 1 d] fit by simp
  have blk: "rd_block (map B [(unat b * 2 ^ ?k + unat lba) * 2 ^ hs..<(unat b * 2 ^ ?k + unat lba + 1) * 2 ^ hs])
      (unat (off * 4)) (unat n) = Some (map B [s0..<s0 + unat n])"
    using n off by (simp add: rd_block_def o4 s0_def drop_map take_map drop_upt take_upt algebra_simps)
  have ln: "unat (len - n) = unat len - unat n" using n by (intro unat_u32_sub) simp
  have l1: "unat (lba + 1) = unat lba + 1"
  proof -
    have "ws - hs \<le> 31" using g unfolding wbfs_geom_def by linarith
    then have "(2::nat) ^ ?k \<le> 2 ^ 31" by (intro power_increasing) simp_all
    then show ?thesis using lba by (subst unat_u32_add) simp_all
  qed
  have more: "unat n = 2 ^ hs - ?o \<and> (unat lba + 1) * 2 ^ hs + unat (len - n) \<le> 2 ^ ws" if "len - n \<noteq> 0"
  proof -
    have "unat (len - n) \<noteq> 0" using that by (simp add: unat_eq_0)
    then have "unat n = 2 ^ hs - ?o" using n ln by linarith
    then show ?thesis using len off ln n by (simp add: algebra_simps)
  qed
  have "next_block p hdr (w, b, lba + 1) (len - n) = Some (Some (w, b, lba + 1))"
  proof (cases "len - n = 0")
    case nz: False
    have "0 < unat (len - n)" using nz by (simp add: unat_gt_0)
    then have "(unat lba + 1) * 2 ^ hs < 2 ^ ?k * 2 ^ hs" using more [OF nz] unfolding W by linarith
    then have "unat (lba + 1) < 2 ^ ?k" unfolding l1 using mult_less_cancel2 by blast
    moreover have "unat (mask ?k :: u32) = 2 ^ ?k - 1"
      using g unfolding wbfs_geom_def by (intro unat_mask_u32) linarith
    ultimately have "\<not> lba + 1 > lba_mask p" by (simp add: geom_facts(3) [OF g] word_less_nat_alt)
    then show ?thesis by (simp add: next_block_def)
  qed (simp add: next_block_def)
  then have "read_head dev p hdr (w, b, lba) off len d
      = Some (Inr ((w, b, lba + 1), len - n, map B [s0..<s0 + unat n]), d)"
    unfolding read_head_def using False rd blk by (simp add: Let_def flip: n_def)
  moreover have "unat len = unat n + unat (len - n)" using ln n by simp
  moreover have "len - n \<noteq> 0 \<Longrightarrow> (unat b * 2 ^ ?k + unat (lba + 1)) * 2 ^ hs = s0 + unat n"
    using more off unfolding l1 s0_def by (simp add: algebra_simps)
  ultimately show ?thesis using more l1 by (metis)
qed


lemma disc_read_split:
  assumes "wlba_table hdr (ucast (drop_bit (unat (wbfs_sec_sz_s p - 2)) offset)) = Some b" and "b \<noteq> 0"
    and "read_head dev p hdr (ucast (drop_bit (unat (wbfs_sec_sz_s p - 2)) offset), b,
        drop_bit (unat (hd_sec_sz_s p - 2)) offset AND lba_mask p)
        (offset AND (drop_bit 2 (hd_sec_sz p) - 1)) len d = Some (Inr (pos, len1, part), d)"
    and "read_sectors dev p hdr pos len1 part d = Some (Inr (pos2, len2, acc), d)"
    and "read_tail dev p pos2 len2 acc d = (Inr bs, d)"
  shows "wbfs_disc_read dev p hdr offset len d = Some (Inr bs, d)"
  using assms by (simp add: wbfs_disc_read_def Let_def)

text \<open>Where a disc offset falls.\<close>

lemma disc_position:
  fixes offset :: u32
  assumes g: "wbfs_geom p hs ws" "2 \<le> hs" "hs \<le> ws"
  defines "x \<equiv> 4 * unat offset"
  defines "lba \<equiv> drop_bit (unat (hd_sec_sz_s p - 2)) offset AND lba_mask p"
  defines "off \<equiv> offset AND (drop_bit 2 (hd_sec_sz p) - 1)"
  shows "ucast (drop_bit (unat (wbfs_sec_sz_s p - 2)) offset) = (of_nat (x div 2 ^ ws) :: u16)"
    and "unat lba < 2 ^ (ws - hs)" and "4 * unat off < 2 ^ hs"
    and "unat lba * 2 ^ hs + 4 * unat off = x mod 2 ^ ws"
    and "4 * unat off = x mod 2 ^ hs"
proof -
  have p4: "(2::nat) ^ m = 4 * 2 ^ (m - 2)" if "2 \<le> m" for m
    using that by (auto simp: le_iff_add power_add)
  have xd: "x div 2 ^ m = unat offset div 2 ^ (m - 2)" if "2 \<le> m" for m
    unfolding x_def p4 [OF that] by simp
  have "unat (drop_bit (unat (wbfs_sec_sz_s p - 2)) offset) = x div 2 ^ ws"
    using g xd [of ws] by (simp add: unat_drop_bit_u32 geom_facts(6) [OF g])
  then show "ucast (drop_bit (unat (wbfs_sec_sz_s p - 2)) offset) = (of_nat (x div 2 ^ ws) :: u16)"
    by (metis of_nat_unat)
  have lba: "unat lba = x div 2 ^ hs mod 2 ^ (ws - hs)"
    using g xd [of hs] by (simp add: lba_def unat_and_mask unat_drop_bit_u32 geom_facts(3,7) [OF g])
  then show "unat lba < 2 ^ (ws - hs)" by simp
  have "4 * unat off = 4 * (unat offset mod 2 ^ (hs - 2))"
    by (simp add: off_def unat_and_mask geom_facts(4) [OF g])
  then show off: "4 * unat off = x mod 2 ^ hs"
    unfolding x_def p4 [OF g(2)] mult_mod_right .
  then show "4 * unat off < 2 ^ hs" by simp
  have "(2::nat) ^ ws = 2 ^ hs * 2 ^ (ws - hs)" using g(3) by (simp flip: power_add)
  then show "unat lba * 2 ^ hs + 4 * unat off = x mod 2 ^ ws"
    unfolding lba off by (simp add: mod_mult2_eq mult.commute)
qed

lemma disc_read_block:
  assumes g: "wbfs_geom p hs ws" "2 \<le> hs" "hs \<le> ws" and ok: "part_ok dev p B"
    and r: "0 < unat (hd_sec_sz_ratio p)"
    and fit: "unat (part_lba p) + (unat b + 1) * 2 ^ (ws - hs) * unat (hd_sec_sz_ratio p) < 4294967296"
    and tab: "wlba_table hdr (of_nat (4 * unat offset div 2 ^ ws)) = Some b" "b \<noteq> 0"
    and len: "4 * unat offset mod 2 ^ ws + unat len \<le> 2 ^ ws"
  defines "a \<equiv> unat b * 2 ^ ws + 4 * unat offset mod 2 ^ ws"
  shows "wbfs_disc_read dev p hdr offset len d = Some (Inr (map B [a..<a + unat len]), d)"
proof -
  note P = disc_position [OF g, of offset]
  let ?k = "ws - hs"
  have W: "(2::nat) ^ ws = 2 ^ ?k * 2 ^ hs" using g(3) by (simp flip: power_add)
  define lba where "lba = drop_bit (unat (hd_sec_sz_s p - 2)) offset AND lba_mask p"
  define off where "off = offset AND (drop_bit 2 (hd_sec_sz p) - 1)"
  define w where "w = (ucast (drop_bit (unat (wbfs_sec_sz_s p - 2)) offset) :: u16)"
  have a: "a = (unat b * 2 ^ ?k + unat lba) * 2 ^ hs + 4 * unat off"
    unfolding a_def lba_def off_def using P(4) W by (simp add: algebra_simps)
  obtain lba' len' n where h: "read_head dev p hdr (w, b, lba) off len d
      = Some (Inr ((w, b, lba'), len', map B [a..<a + n]), d)" "unat len = n + unat len'"
    "len' = 0 \<or> unat lba' * 2 ^ hs + unat len' \<le> 2 ^ ws \<and> (unat b * 2 ^ ?k + unat lba') * 2 ^ hs = a + n"
    using read_head_ok [OF g ok r fit, of off lba len hdr w d] P(2,3,4) len unfolding a
    by (auto simp: lba_def off_def)
  obtain pos2 len2 acc where t: "read_sectors dev p hdr (w, b, lba') len' (map B [a..<a + n]) d
      = Some (Inr (pos2, len2, acc), d)"
    "read_tail dev p pos2 len2 acc d = (Inr (map B [a..<a + n] @ map B [(unat b * 2 ^ ?k + unat lba') * 2 ^ hs
        ..<(unat b * 2 ^ ?k + unat lba') * 2 ^ hs + unat len']), d)"
    using read_rest_ok [OF g ok r fit, of len' lba' hdr w "map B [a..<a + n]" d] h(3) by blast
  have "map B [a..<a + n] @ map B [(unat b * 2 ^ ?k + unat lba') * 2 ^ hs
        ..<(unat b * 2 ^ ?k + unat lba') * 2 ^ hs + unat len'] = map B [a..<a + unat len]"
    using h(2,3) map_upt_join [of a "a + n" "a + unat len" B] by (auto simp: add.assoc)
  then show ?thesis
    using disc_read_split [OF _ tab(2) h(1) [unfolded w_def lba_def off_def] t(1) [unfolded w_def]] t(2) tab(1) P(1)
    by simp
qed


text \<open>
  The guard against crossing a block compares sectors with the block size in bytes, so a
  sector-aligned read runs on past the end of its block.
\<close>

lemma disc_read_aligned:
  assumes g: "wbfs_geom p hs ws" "2 \<le> hs" "hs \<le> ws" and ok: "part_ok dev p B"
    and r: "0 < unat (hd_sec_sz_ratio p)"
    and tab: "wlba_table hdr (of_nat (4 * unat offset div 2 ^ ws)) = Some b" "b \<noteq> 0"
    and al: "4 * unat offset mod 2 ^ hs = 0" "unat len mod 2 ^ hs = 0"
    and blk: "4 * unat offset mod 2 ^ ws div 2 ^ hs + unat len div 2 ^ hs \<le> 2 ^ ws"
    and fit: "unat (part_lba p) + (unat b * 2 ^ (ws - hs) + 4 * unat offset mod 2 ^ ws div 2 ^ hs
        + unat len div 2 ^ hs) * unat (hd_sec_sz_ratio p) < 4294967296"
  defines "a \<equiv> unat b * 2 ^ ws + 4 * unat offset mod 2 ^ ws"
  shows "wbfs_disc_read dev p hdr offset len d = Some (Inr (map B [a..<a + unat len]), d)"
proof -
  note P = disc_position [OF g, of offset]
  let ?k = "ws - hs"
  have W: "(2::nat) ^ ws = 2 ^ ?k * 2 ^ hs" using g(3) by (simp flip: power_add)
  define lba where "lba = drop_bit (unat (hd_sec_sz_s p - 2)) offset AND lba_mask p"
  define w where "w = (ucast (drop_bit (unat (wbfs_sec_sz_s p - 2)) offset) :: u16)"
  have lx: "unat lba * 2 ^ hs = 4 * unat offset mod 2 ^ ws" using P(4,5) al(1) by (simp add: lba_def)
  then have l: "unat lba = 4 * unat offset mod 2 ^ ws div 2 ^ hs"
    by (metis nonzero_mult_div_cancel_right power_not_zero zero_neq_numeral)
  have a: "a = (unat b * 2 ^ ?k + unat lba) * 2 ^ hs"
    unfolding a_def using lx W by (simp add: algebra_simps)
  have off: "offset AND (drop_bit 2 (hd_sec_sz p) - 1) = 0"
    using P(5) al(1) by (simp add: unat_eq_0 [symmetric])
  have h: "read_head dev p hdr (w, b, lba) (offset AND (drop_bit 2 (hd_sec_sz p) - 1)) len d
      = Some (Inr ((w, b, lba), len, []), d)"
    by (simp add: read_head_def off)
  have "unat len div 2 ^ hs * 2 ^ hs = unat len" using al(2) by (metis add.right_neutral div_mult_mod_eq)
  then have e: "(unat b * 2 ^ ?k + unat lba + unat len div 2 ^ hs) * 2 ^ hs = a + unat len"
    unfolding a by (simp add: add_mult_distrib)
  obtain lba' len' where t: "read_sectors dev p hdr (w, b, lba) len [] d
      = Some (Inr ((w, b, lba'), len', map B [a..<a + unat len]), d)" "unat len' = 0"
    using read_sectors_once [OF g ok r, of b lba len hdr w "[]" d] fit blk al(2) e unfolding l [symmetric] a [symmetric]
    by auto
  have "read_tail dev p (w, b, lba') len' (map B [a..<a + unat len]) d = (Inr (map B [a..<a + unat len]), d)"
    using t(2) by (simp add: read_tail_def unat_eq_0)
  then show ?thesis
    using disc_read_split [OF _ tab(2) h [unfolded w_def lba_def] t(1) [unfolded w_def lba_def]] tab(1) P(1)
    by (simp add: w_def)
qed

section \<open>Allocation\<close>

definition fb_free :: "bytes \<Rightarrow> nat \<Rightarrow> bool" where
  "fb_free fb k = bit (be32 (take 4 (drop (4 * (k div 32)) fb))) (k mod 32)"

lemma test_bit: "(v AND push_bit j 1 \<noteq> 0) = bit (v :: u32) j"
  by (simp only: bit_iff_and_push_bit_not_eq_0)

lemma fb_free_blit:
  assumes i: "4 * i + 4 \<le> length fb" and k: "4 * (k div 32) + 4 \<le> length fb"
  shows "fb_free (blit fb (4 * i) (put_be32 v)) k
    = (if k div 32 = i then bit v (k mod 32) else fb_free fb k)"
proof (cases "k div 32 = i")
  case True
  have "take 4 (drop (4 * i) (blit fb (4 * i) (put_be32 v))) = put_be32 v"
    using i by (simp add: blit_def)
  then show ?thesis using True by (simp add: fb_free_def)
next
  case False
  have "take 4 (drop (4 * (k div 32)) (blit fb (4 * i) (put_be32 v))) = take 4 (drop (4 * (k div 32)) fb)"
    using i k False by (intro nth_equalityI) (auto simp: nth_blit length_blit)
  then show ?thesis using False by (simp add: fb_free_def)
qed

lemma find_first_bit:
  "find (\<lambda>j. v AND push_bit j 1 \<noteq> 0) [0..<32] = Some j \<longleftrightarrow> j < 32 \<and> bit (v :: u32) j \<and> (\<forall>j' < j. \<not> bit v j')"
  unfolding test_bit by (auto simp: find_Some_iff)

lemma find_no_bit:
  "find (\<lambda>j. v AND push_bit j 1 \<noteq> 0) [0..<32] = None \<longleftrightarrow> (v :: u32) = 0"
  unfolding test_bit find_None_iff
  by (auto intro!: bit_word_eqI)

definition fb_word :: "bytes \<Rightarrow> nat \<Rightarrow> u32" where
  "fb_word fb i = be32 (take 4 (drop (4 * i) fb))"

definition fb_put :: "bytes \<Rightarrow> nat \<Rightarrow> bool \<Rightarrow> bytes" where
  "fb_put fb k b =
     blit fb (4 * (k div 32)) (put_be32
       (if b then fb_word fb (k div 32) OR push_bit (k mod 32) 1
        else fb_word fb (k div 32) AND NOT (push_bit (k mod 32) 1)))"

lemma fb_free_word: "j < 32 \<Longrightarrow> fb_free fb (32 * i + j) = bit (fb_word fb i) j"
  by (simp add: fb_free_def fb_word_def)

lemma fb_free_put:
  assumes k: "4 * (k div 32) + 4 \<le> length fb" and m: "4 * (m div 32) + 4 \<le> length fb"
  shows "fb_free (fb_put fb k b) m \<longleftrightarrow> (if m = k then b else fb_free fb m)"
proof (cases "m div 32 = k div 32")
  case True
  then have "(m = k) = (m mod 32 = k mod 32)" by (metis div_mult_mod_eq)
  moreover have "fb_free fb m = bit (fb_word fb (k div 32)) (m mod 32)"
    by (simp add: fb_free_def fb_word_def True)
  ultimately show ?thesis
    unfolding fb_put_def using fb_free_blit [OF k m] True by (auto simp: bit_simps)
next
  case False
  then show ?thesis unfolding fb_put_def using fb_free_blit [OF k m] by auto
qed

lemma length_fb_put: "4 * (k div 32) + 4 \<le> length fb \<Longrightarrow> length (fb_put fb k b) = length fb"
  by (simp add: fb_put_def length_blit)

lemma alloc_loop_full:
  assumes "4 * (i + n) \<le> length fb" and "\<And>k. 32 * i \<le> k \<Longrightarrow> k < 32 * (i + n) \<Longrightarrow> \<not> fb_free fb k"
  shows "alloc_loop fb i n = Some (- 1, fb)"
  using assms
proof (induction n arbitrary: i)
  case (Suc n)
  have "fb_word fb i = 0"
  proof (rule bit_word_eqI)
    fix j assume "j < LENGTH(32)"
    then show "bit (fb_word fb i) j = bit 0 j"
      using Suc.prems(2) [of "32 * i + j"] fb_free_word [of j fb i] by simp
  qed
  moreover have "rd32 fb (4 * i) = Some (fb_word fb i)"
    using Suc.prems(1) by (simp add: rd32_Some fb_word_def)
  ultimately show ?case using Suc.IH [of "Suc i"] Suc.prems by simp
qed simp

lemma alloc_loop_first:
  assumes "4 * (i + n) \<le> length fb" and "32 * i \<le> k" and "k < 32 * (i + n)" and "fb_free fb k"
    and "\<And>m. 32 * i \<le> m \<Longrightarrow> m < k \<Longrightarrow> \<not> fb_free fb m"
  shows "alloc_loop fb i n = Some (of_nat (k + 1), fb_put fb k False)"
  using assms
proof (induction n arbitrary: i)
  case (Suc n)
  have rd: "rd32 fb (4 * i) = Some (fb_word fb i)"
    using Suc.prems(1) by (simp add: rd32_Some fb_word_def)
  show ?case
  proof (cases "k div 32 = i")
    case True
    then have k: "k = 32 * i + k mod 32" by (metis mult_div_mod_eq)
    then have b: "bit (fb_word fb i) (k mod 32)"
      using Suc.prems(4) fb_free_word [of "k mod 32" fb i] by simp
    moreover have "\<not> bit (fb_word fb i) j" if "j < k mod 32" for j
    proof -
      have "32 * i + j < k" using k that by linarith
      then show ?thesis using Suc.prems(5) [of "32 * i + j"] fb_free_word [of j fb i] that by simp
    qed
    ultimately have "find (\<lambda>j. fb_word fb i AND push_bit j 1 \<noteq> 0) [0..<32] = Some (k mod 32)"
      unfolding find_first_bit by simp
    moreover have "fb_word fb i \<noteq> 0" using b by auto
    moreover have "i * 32 + k mod 32 + 1 = k + 1" using k by simp
    ultimately show ?thesis using rd True by (simp add: fb_put_def)
  next
    case False
    have "i \<le> k div 32" using Suc.prems(2) by simp
    then have "Suc i \<le> k div 32" using False by simp
    then have "32 * Suc i \<le> 32 * (k div 32)" by simp
    also have "\<dots> \<le> k" by simp
    finally have ge: "32 * Suc i \<le> k" .
    have "fb_word fb i = 0"
    proof (rule bit_word_eqI)
      fix j assume "j < LENGTH(32)"
      then show "bit (fb_word fb i) j = bit 0 j"
        using Suc.prems(5) [of "32 * i + j"] ge fb_free_word [of j fb i] by simp
    qed
    then show ?thesis using Suc.IH [of "Suc i"] Suc.prems ge rd by simp
  qed
qed simp

lemma free_block_put:
  assumes "freeblks p = Some fb" and "4 * (bl div 32) + 4 \<le> length fb"
  shows "free_block p bl = Some (p\<lparr> freeblks := Some (fb_put fb bl True) \<rparr>)"
  using assms by (simp add: free_block_def rd32_Some fb_put_def fb_word_def)

text \<open>Counting.\<close>

lemma count_word_card: "unat (count_word v) = card {j. j < 32 \<and> bit v j}"
proof -
  have "length (filter (\<lambda>j. v AND push_bit j 1 \<noteq> 0) [0..<32]) = card {j. j < 32 \<and> bit v j}"
    unfolding test_bit by (simp add: length_filter_conv_card conj_commute del: upt_Suc)
      (rule arg_cong [where f = card], auto simp: nth_upt)
  moreover have "card {j. j < 32 \<and> bit v j} \<le> card {..<32::nat}" by (rule card_mono) auto
  moreover have "{j. j < 32 \<and> bit (- 1 :: u32) j} = {..<32}" by auto
  ultimately show ?thesis by (auto simp: count_word_def unat_of_nat)
qed


definition free_count :: "bytes \<Rightarrow> nat \<Rightarrow> nat \<Rightarrow> nat" where
  "free_count fb lo hi = card {k. lo \<le> k \<and> k < hi \<and> fb_free fb k}"

lemma free_count_word: "free_count fb (32 * i) (32 * Suc i) = unat (count_word (fb_word fb i))"
proof -
  have "{k. 32 * i \<le> k \<and> k < 32 * Suc i \<and> fb_free fb k} = (\<lambda>j. 32 * i + j) ` {j. j < 32 \<and> bit (fb_word fb i) j}"
  proof (intro equalityI subsetI)
    fix k assume "k \<in> {k. 32 * i \<le> k \<and> k < 32 * Suc i \<and> fb_free fb k}"
    then show "k \<in> (\<lambda>j. 32 * i + j) ` {j. j < 32 \<and> bit (fb_word fb i) j}"
      using fb_free_word [of "k - 32 * i" fb i] by (intro image_eqI [of _ _ "k - 32 * i"]) auto
  qed (auto simp: fb_free_word)
  then show ?thesis by (simp add: free_count_def count_word_card card_image)
qed

lemma free_count_split: "lo \<le> mid \<Longrightarrow> mid \<le> hi \<Longrightarrow> free_count fb lo hi = free_count fb lo mid + free_count fb mid hi"
  unfolding free_count_def by (subst card_Un_disjoint [symmetric]) (auto intro!: arg_cong [where f = card])

lemma free_count_le: "free_count fb lo hi \<le> hi - lo"
  unfolding free_count_def by (rule order_trans [OF card_mono [of "{lo..<hi}"]]) auto

lemma count_words_spec:
  assumes "4 * (i + n) \<le> length fb" and "unat c + 32 * n < 4294967296"
  shows "\<exists>r. count_words fb i n c = Some r \<and> unat r = unat c + free_count fb (32 * i) (32 * (i + n))"
  using assms
proof (induction n arbitrary: i c)
  case (Suc n)
  let ?w = "count_word (fb_word fb i)"
  have w: "unat ?w = free_count fb (32 * i) (32 * Suc i)" by (simp only: free_count_word)
  then have "unat ?w \<le> 32" using free_count_le [of fb "32 * i" "32 * Suc i"] by simp
  then have c: "unat (c + ?w) = unat c + unat ?w" "unat (c + ?w) + 32 * n < 4294967296"
    using Suc.prems(2) by (simp_all add: unat_u32_add)
  have "rd32 fb (4 * i) = Some (fb_word fb i)"
    using Suc.prems(1) by (simp add: rd32_Some fb_word_def)
  then show ?case
    using Suc.IH [of "Suc i" "c + ?w"] Suc.prems(1) c w
      free_count_split [of "32 * i" "32 * Suc i" "32 * (i + Suc n)" fb] by auto
qed (simp add: free_count_def)

section \<open>Finding a disc\<close>

text \<open>What the sector callback returns for the first sector of each disc slot, when reading does
  not change what is on the disk.\<close>

definition slot_sector :: "'d wbfs_dev \<Rightarrow> wbfs_t \<Rightarrow> 'd \<Rightarrow> nat \<Rightarrow> bytes" where
  "slot_sector dev p d i = snd (fst (read_hdsector dev (disc_info_lba p (of_nat i)) (hd_sec_sz_ratio p) d))"

definition holds_disc :: "'d wbfs_dev \<Rightarrow> wbfs_t \<Rightarrow> bytes \<Rightarrow> 'd \<Rightarrow> nat \<Rightarrow> bool" where
  "holds_disc dev p discid d i \<longleftrightarrow>
     (\<exists>u. disc_table p i = Some u \<and> u \<noteq> 0) \<and> take 6 (slot_sector dev p d i) = take 6 discid"

definition read_only :: "'d wbfs_dev \<Rightarrow> bool" where
  "read_only dev \<longleftrightarrow> (\<forall>l n d. snd (read_hdsector dev l n d) = d)"

lemma open_disc_found:
  assumes ro: "read_only dev" and "\<And>j. j < i + n \<Longrightarrow> \<exists>u. disc_table p j = Some u"
    and "i \<le> k" "k < i + n" and "holds_disc dev p discid d k" and "\<And>j. i \<le> j \<Longrightarrow> j < k \<Longrightarrow> \<not> holds_disc dev p discid d j"
  shows "open_disc_loop dev True True discid p i n d
    = Some (Some \<lparr> disc_header = snd (fst (read_hdsector dev (disc_info_lba p (of_nat k)) (disc_info_sectors p) d)),
                   disc_i = of_nat k \<rparr>, p\<lparr> n_disc_open := n_disc_open p + 1 \<rparr>, d)"
  using assms(2-)
proof (induction n arbitrary: i)
  case (Suc n)
  have rd: "read_hdsector dev l m d = ((fst (fst (read_hdsector dev l m d)), snd (fst (read_hdsector dev l m d))), d)" for l m
    using ro by (simp add: read_only_def prod_eq_iff)
  obtain u where u: "disc_table p i = Some u" using Suc.prems(1) [of i] by auto
  show ?case
  proof (cases "i = k")
    case True
    then have "u \<noteq> 0" "take 6 (slot_sector dev p d i) = take 6 discid"
      using Suc.prems(4) u by (auto simp: holds_disc_def)
    then show ?thesis
      using u True rd [of "disc_info_lba p (of_nat k)" "hd_sec_sz_ratio p"]
        rd [of "disc_info_lba p (of_nat k)" "disc_info_sectors p"]
      by (auto simp: slot_sector_def split: prod.splits)
  next
    case False
    have "\<not> holds_disc dev p discid d i" using Suc.prems(2,5) False by auto
    then have "open_disc_loop dev True True discid p i (Suc n) d = open_disc_loop dev True True discid p (Suc i) n d"
      using u rd [of "disc_info_lba p (of_nat i)" "hd_sec_sz_ratio p"]
      by (auto simp: holds_disc_def slot_sector_def split: prod.splits)
    then show ?thesis using Suc.IH [of "Suc i"] Suc.prems False by simp
  qed
qed simp

lemma open_disc_missing:
  assumes ro: "read_only dev" and "\<And>j. j < i + n \<Longrightarrow> \<exists>u. disc_table p j = Some u"
    and "\<And>j. i \<le> j \<Longrightarrow> j < i + n \<Longrightarrow> \<not> holds_disc dev p discid d j"
  shows "open_disc_loop dev d_ok h_ok discid p i n d = Some (None, p, d)"
  using assms(2-)
proof (induction n arbitrary: i)
  case (Suc n)
  have rd: "read_hdsector dev l m d = ((fst (fst (read_hdsector dev l m d)), snd (fst (read_hdsector dev l m d))), d)" for l m
    using ro by (simp add: read_only_def prod_eq_iff)
  obtain u where u: "disc_table p i = Some u" using Suc.prems(1) [of i] by auto
  have "\<not> holds_disc dev p discid d i" using Suc.prems(2) by auto
  then have "open_disc_loop dev d_ok h_ok discid p i (Suc n) d = open_disc_loop dev d_ok h_ok discid p (Suc i) n d"
    using u rd [of "disc_info_lba p (of_nat i)" "hd_sec_sz_ratio p"]
    by (auto simp: holds_disc_def slot_sector_def split: prod.splits)
  then show ?case using Suc.IH [of "Suc i"] Suc.prems by simp
qed simp

lemma size_to_shift_exp: "k < 32 \<Longrightarrow> size_to_shift (2 ^ k) = of_nat k"
proof -
  have "shift_loop (2 ^ k) r = r + of_nat (k + 1)" if "k < 32" for k and r :: u8
    using that
  proof (induction k arbitrary: r)
    case 0
    then show ?case by (simp add: shift_loop.simps)
  next
    case (Suc k)
    have "drop_bit 1 (2 ^ Suc k :: u32) = 2 ^ k"
      using Suc.prems by (intro bit_word_eqI) (auto simp: bit_simps simp flip: push_bit_of_1)
    moreover have "(2 ^ Suc k :: u32) \<noteq> 0" using Suc.prems unat_exp_u32 [of "Suc k"]
      by (metis power_not_zero unat_0 zero_neq_numeral)
    ultimately show ?case using Suc by (subst shift_loop.simps) simp
  qed
  then show "k < 32 \<Longrightarrow> size_to_shift (2 ^ k) = of_nat k" by (simp add: size_to_shift_def)
qed

lemma clamp_discs_le: "unat (clamp_discs sec_sz m) \<le> unat (sec_sz - 12)"
proof (cases "ucast m > sec_sz - 12")
  case True
  then have "unat (sec_sz - 12) < unat m" by (simp add: word_less_nat_alt)
  then have "unat (sec_sz - 12) < 65536" using u16_less [of m] by linarith
  then show ?thesis using True
    by (simp add: clamp_discs_def unsigned_ucast_eq take_bit_nat_eq_self)
next
  case False
  then show ?thesis by (simp add: clamp_discs_def word_less_nat_alt)
qed

lemma geometry_facts:
  assumes e: "wbfs_geometry junk hb (push_bit hs 1) s nsec lba ratio reset = Some p"
    and hs: "hs < 32" and s: "unat s = hs"
  shows "wbfs_geom p hs (unat (head_wbfs_sec_sz_s hb))"
    and "HEAD_SIZE \<le> 2 ^ hs \<Longrightarrow> HEAD_SIZE + unat (max_disc p) \<le> 2 ^ hs"
    and "head p = hb" and "part_lba p = lba" and "hd_sec_sz_ratio p = ratio" and "n_disc_open p = 0"
proof -
  show "wbfs_geom p hs (unat (head_wbfs_sec_sz_s hb))"
    using assms by (auto simp: wbfs_geometry_def wbfs_geom_def shl1_def Let_def
        split: Option.bind_splits if_splits)
  show "head p = hb" and "part_lba p = lba" and "hd_sec_sz_ratio p = ratio" and "n_disc_open p = 0"
    using assms by (auto simp: wbfs_geometry_def Let_def split: Option.bind_splits)
  have "\<exists>m. max_disc p = clamp_discs (push_bit hs 1) m"
    using e unfolding wbfs_geometry_def Let_def by (auto split: Option.bind_splits)
  then have "unat (max_disc p) \<le> unat ((push_bit hs 1 :: u32) - 12)"
    using clamp_discs_le [of "push_bit hs 1"] by auto
  moreover assume "HEAD_SIZE \<le> 2 ^ hs"
  ultimately show "HEAD_SIZE + unat (max_disc p) \<le> 2 ^ hs"
    using hs by (simp add: unat_u32_sub unat_exp_u32)
qed

lemma open_partition_facts:
  assumes "wbfs_open_partition dev junk force sz num lba reset d = Some (Inr p, d')"
  shows "\<exists>hs ws. wbfs_geom p hs ws \<and> (HEAD_SIZE \<le> 2 ^ hs \<longrightarrow> HEAD_SIZE + unat (max_disc p) \<le> 2 ^ hs)
    \<and> part_lba p = lba \<and> n_disc_open p = 0"
proof -
  obtain hb s nsec ratio sec where g: "wbfs_geometry junk hb sec s nsec lba ratio reset = Some p"
    "shl1 (unat s) = Some sec"
    using assms unfolding wbfs_open_partition_def Let_def
    by (simp split: Option.bind_split_asm if_split_asm prod.split_asm)
  then have sec: "sec = push_bit (unat s) 1" "unat s < 32" by (auto simp: shl1_def split: if_splits)
  show ?thesis using geometry_facts [OF g(1) [unfolded sec(1)] sec(2) refl] by blast
qed

section \<open>Properties\<close>

text \<open>A drive with sectors of 512 bytes whose byte at \<open>k\<close> is \<open>k mod 256\<close>, and a partition of
  blocks of 32 KB on it.\<close>

definition demo_dev :: "unit wbfs_dev" where
  "demo_dev = \<lparr> read_hdsector = (\<lambda>l n d.
       ((0, map of_nat [unat l * 512..<(unat l + unat n) * 512]), d)), write_hdsector = None \<rparr>"

definition demo_part :: "wbfs_t" where
  "demo_part = \<lparr> head = replicate 512 1, hd_sec_sz = 512, hd_sec_sz_s = 9, n_hd_sec = 0, wii_sec_sz = 0x8000,
     wii_sec_sz_s = 15, n_wii_sec = 0, n_wii_sec_per_disc = 0, wbfs_sec_sz = 0x8000, wbfs_sec_sz_s = 15,
     n_wbfs_sec = 64, n_wbfs_sec_per_disc = 2, part_lba = 0, max_disc = 500, freeblks_lba = 0,
     freeblks = Some [0, 0, 0, 0, 0, 0, 0, 6], disc_info_sz = 512, n_disc_open = 0, hd_sec_sz_ratio = 1 \<rparr>"

text \<open>A disc whose first two blocks are 1 and 9.\<close>

definition demo_hdr :: bytes where
  "demo_hdr = replicate INFO_SIZE 0 @ [0, 1, 0, 9]"

lemma demo_part_geom: "wbfs_geom demo_part 9 15" and demo_part_ok: "part_ok demo_dev demo_part of_nat"
  by (simp_all add: wbfs_geom_def demo_part_def part_ok_def demo_dev_def)

lemma demo_hdr_table: "wlba_table demo_hdr 0 = Some 1"
  by (simp add: wlba_table_def demo_hdr_def rd16_def rd_block_def be16_def)

text \<open>
  C27. A read inside one block of a disc returns exactly the bytes of the block the disc's table
  assigns, at any offset and for any length, with the leading and trailing parts of sectors cut
  out of the buffer.
\<close>

theorem wbfs_read_inside_block:
  assumes "wbfs_geom p hs ws" and "2 \<le> hs" and "hs \<le> ws" and "part_ok dev p B"
    and "0 < unat (hd_sec_sz_ratio p)"
    and "unat (part_lba p) + (unat b + 1) * 2 ^ (ws - hs) * unat (hd_sec_sz_ratio p) < 4294967296"
    and "wlba_table hdr (of_nat (4 * unat offset div 2 ^ ws)) = Some b" and "b \<noteq> 0"
    and "4 * unat offset mod 2 ^ ws + unat len \<le> 2 ^ ws"
    and "a = unat b * 2 ^ ws + 4 * unat offset mod 2 ^ ws"
  shows "wbfs_disc_read dev p hdr offset len d = Some (Inr (map B [a..<a + unat len]), d)"
  unfolding assms(10) by (rule disc_read_block [OF assms(1-9)])

theorem wbfs_read_inside_block_witness:
  "wbfs_disc_read demo_dev demo_part demo_hdr 1 8 () = Some (Inr (map of_nat [32772..<32772 + unat (8 :: u32)]), ())"
proof (rule wbfs_read_inside_block [OF demo_part_geom _ _ demo_part_ok])
  show "wlba_table demo_hdr (of_nat (4 * unat (1 :: u32) div 2 ^ 15)) = Some 1"
    using demo_hdr_table by simp
qed (simp_all add: demo_part_def)

text \<open>
  A sector-aligned read that runs past the end of its block does not continue with the next
  block of the disc's table: it returns the bytes that follow on the drive. The loop compares a
  sector number with the block size in bytes, so it never stops at the block's end.
\<close>

theorem wbfs_read_leaves_block:
  assumes "wbfs_geom p hs ws" and "2 \<le> hs" and "hs \<le> ws" and "part_ok dev p B"
    and "0 < unat (hd_sec_sz_ratio p)"
    and "wlba_table hdr (of_nat (4 * unat offset div 2 ^ ws)) = Some b" and "b \<noteq> 0"
    and "4 * unat offset mod 2 ^ hs = 0" and "unat len mod 2 ^ hs = 0"
    and "4 * unat offset mod 2 ^ ws div 2 ^ hs + unat len div 2 ^ hs \<le> 2 ^ ws"
    and "unat (part_lba p) + (unat b * 2 ^ (ws - hs) + 4 * unat offset mod 2 ^ ws div 2 ^ hs
        + unat len div 2 ^ hs) * unat (hd_sec_sz_ratio p) < 4294967296"
    and "a = unat b * 2 ^ ws + 4 * unat offset mod 2 ^ ws"
    and "unat b * 2 ^ ws + 2 ^ ws < a + unat len"
  shows "\<exists>bs. wbfs_disc_read dev p hdr offset len d = Some (Inr bs, d) \<and>
    (\<forall>k < unat len. bs ! k = B (a + k))"
  using disc_read_aligned [OF assms(1-11), folded assms(12)] by simp

theorem wbfs_read_leaves_block_witness:
  "wlba_table demo_hdr 1 = Some 9 \<and>
   (\<exists>bs. wbfs_disc_read demo_dev demo_part demo_hdr 0 0x8400 () = Some (Inr bs, ()) \<and>
      (\<forall>k < unat (0x8400 :: u32). bs ! k = of_nat (0x8000 + k)))"
proof
  show "wlba_table demo_hdr 1 = Some 9" by (simp add: wlba_table_def demo_hdr_def rd16_def rd_block_def be16_def)
  show "\<exists>bs. wbfs_disc_read demo_dev demo_part demo_hdr 0 0x8400 () = Some (Inr bs, ()) \<and>
      (\<forall>k < unat (0x8400 :: u32). bs ! k = of_nat (0x8000 + k))"
  proof (rule wbfs_read_leaves_block [OF demo_part_geom _ _ demo_part_ok])
    show "wlba_table demo_hdr (of_nat (4 * unat (0 :: u32) div 2 ^ 15)) = Some 1"
      using demo_hdr_table by simp
  qed (simp_all add: demo_part_def)
qed

text \<open>
  Allocation takes the first free block of the table and marks exactly that one used; the
  number it returns is one more than the block's position in the table, and \<open>-1\<close> when no block
  is free.
\<close>

theorem alloc_block_takes_first:
  assumes "freeblks p = Some fb" and "4 * fb_words p \<le> length fb"
  shows "alloc_block p =
    (case find (fb_free fb) [0..<32 * fb_words p] of
       Some k \<Rightarrow> Some (of_nat (k + 1), p\<lparr> freeblks := Some (fb_put fb k False) \<rparr>)
     | None \<Rightarrow> Some (- 1, p))"
proof (cases "find (fb_free fb) [0..<32 * fb_words p]")
  case None
  then have "alloc_loop fb 0 (fb_words p) = Some (- 1, fb)"
    using assms(2) by (intro alloc_loop_full) (auto simp: find_None_iff)
  then show ?thesis using None assms(1) by (simp add: alloc_block_def)
next
  case (Some k)
  then have "k < 32 * fb_words p \<and> fb_free fb k \<and> (\<forall>m < k. \<not> fb_free fb m)"
    by (auto simp: find_Some_iff)
  then have "alloc_loop fb 0 (fb_words p) = Some (of_nat (k + 1), fb_put fb k False)"
    using assms(2) by (intro alloc_loop_first) auto
  then show ?thesis using Some assms(1) by (simp add: alloc_block_def)
qed

theorem alloc_block_takes_first_witness:
  "alloc_block demo_part
     = Some (34, demo_part\<lparr> freeblks := Some (fb_put [0, 0, 0, 0, 0, 0, 0, 6] 33 False) \<rparr>)"
proof -
  have f: "freeblks demo_part = Some [0, 0, 0, 0, 0, 0, 0, 6]" "fb_words demo_part = 2"
    by (simp_all add: demo_part_def fb_words_def)
  have "find (fb_free [0, 0, 0, 0, 0, 0, 0, 6]) [0..<32 * 2] = Some 33" by code_simp
  then show ?thesis using alloc_block_takes_first [OF f(1)] f(2) by simp
qed

text \<open>
  Freeing does not undo allocation: after allocating the block at position \<open>k\<close> and freeing
  the number that was returned, the block at \<open>k\<close> is still marked used and the block at \<open>k + 1\<close> is
  marked free, whether or not another disc owns it.
\<close>

theorem free_after_alloc_wrong_block:
  assumes "freeblks p = Some fb" and "4 * fb_words p \<le> length fb"
    and "fb_free fb k" and "\<forall>m < k. \<not> fb_free fb m" and "Suc k < 32 * fb_words p" and "k < 1000000"
  shows "\<exists>p1 p2 fb2. alloc_block p = Some (of_nat (Suc k), p1) \<and> free_block p1 (unat (of_nat (Suc k) :: u32)) = Some p2
    \<and> freeblks p2 = Some fb2 \<and> \<not> fb_free fb2 k \<and> fb_free fb2 (Suc k)"
proof -
  let ?fb = "fb_put fb k False" and ?p = "p\<lparr> freeblks := Some (fb_put fb k False) \<rparr>"
  have k: "4 * (k div 32) + 4 \<le> length fb" "4 * (Suc k div 32) + 4 \<le> length fb"
    using less_mult_imp_div_less [of k "fb_words p" 32] less_mult_imp_div_less [of "Suc k" "fb_words p" 32]
      assms(2,5) by linarith+
  have "alloc_loop fb 0 (fb_words p) = Some (of_nat (k + 1), ?fb)"
    using assms(2-5) by (intro alloc_loop_first) auto
  then have a: "alloc_block p = Some (of_nat (Suc k), ?p)" using assms(1) by (simp add: alloc_block_def)
  have l: "length ?fb = length fb" by (rule length_fb_put [OF k(1)])
  have "unat (of_nat (Suc k) :: u32) = Suc k"
    using assms(6) by (simp add: unat_of_nat take_bit_nat_eq_self del: of_nat_Suc)
  moreover have "free_block ?p (Suc k) = Some (?p\<lparr> freeblks := Some (fb_put ?fb (Suc k) True) \<rparr>)"
    using k l by (intro free_block_put) simp_all
  moreover have "\<not> fb_free (fb_put ?fb (Suc k) True) k" "fb_free (fb_put ?fb (Suc k) True) (Suc k)"
    using k l by (simp_all add: fb_free_put)
  ultimately show ?thesis using a by auto
qed

theorem free_after_alloc_wrong_block_witness:
  "\<exists>p1 p2 fb2. alloc_block demo_part = Some (of_nat (Suc 33), p1)
     \<and> free_block p1 (unat (of_nat (Suc 33) :: u32)) = Some p2 \<and> freeblks p2 = Some fb2
     \<and> \<not> fb_free fb2 33 \<and> fb_free fb2 (Suc 33)"
proof (rule free_after_alloc_wrong_block)
  show "freeblks demo_part = Some [0, 0, 0, 0, 0, 0, 0, 6]" by (simp add: demo_part_def)
  show "fb_free [0, 0, 0, 0, 0, 0, 0, 6] 33" by code_simp
  have "list_all (\<lambda>m. \<not> fb_free [0, 0, 0, 0, 0, 0, 0, 6] m) [0..<33]" by code_simp
  then show "\<forall>m < 33. \<not> fb_free [0, 0, 0, 0, 0, 0, 0, 6] m" by (simp add: list_all_iff)
qed (simp_all add: demo_part_def fb_words_def)

text \<open>
  The number that \<open>wbfs_count_usedblocks\<close> returns is the number of \<^emph>\<open>free\<close> blocks of the
  table.
\<close>

theorem count_usedblocks_counts_free:
  assumes "load_freeblocks dev p d = (p1, d1)" and "freeblks p1 = Some fb" and "4 * fb_words p1 \<le> length fb"
  shows "\<exists>n. wbfs_count_usedblocks dev p d = Some (n, p1, d1)
    \<and> unat n = card {k. k < 32 * fb_words p1 \<and> fb_free fb k}"
proof -
  have "fb_words p1 \<le> 65535 div 32"
    unfolding fb_words_def by (rule div_le_mono) (use u16_less [of "n_wbfs_sec p1"] in simp)
  then obtain r where "count_words fb 0 (fb_words p1) 0 = Some r" "unat r = free_count fb 0 (32 * fb_words p1)"
    using count_words_spec [of 0 "fb_words p1" fb 0] assms(3) by auto
  then show ?thesis using assms(1,2) by (simp add: wbfs_count_usedblocks_def free_count_def)
qed

theorem count_usedblocks_counts_free_witness:
  "\<exists>n. wbfs_count_usedblocks demo_dev demo_part () = Some (n, demo_part, ())
     \<and> unat n = card {k. k < 32 * fb_words demo_part \<and> fb_free [0, 0, 0, 0, 0, 0, 0, 6] k}"
  by (rule count_usedblocks_counts_free) (simp_all add: load_freeblocks_def demo_part_def fb_words_def)

text \<open>
  Opening a disc finds the first used slot of the table whose header carries the six bytes
  of the disc's identifier, loads that slot's header and counts the disc as open; without such a
  slot nothing changes.
\<close>

theorem open_disc_first_match:
  assumes "read_only dev" and "length (head p) \<ge> HEAD_SIZE + unat (max_disc p)"
  shows "wbfs_open_disc dev True True p discid d =
    (case find (holds_disc dev p discid d) [0..<unat (max_disc p)] of
       None \<Rightarrow> Some (None, p, d)
     | Some k \<Rightarrow> Some (Some \<lparr> disc_header = snd (fst (read_hdsector dev (disc_info_lba p (of_nat k))
                                 (disc_info_sectors p) d)), disc_i = of_nat k \<rparr>,
                       p\<lparr> n_disc_open := n_disc_open p + 1 \<rparr>, d))"
proof -
  have t: "\<exists>u. disc_table p j = Some u" if "j < 0 + unat (max_disc p)" for j
    using assms(2) that by (simp add: disc_table_def rd_def)
  show ?thesis
  proof (cases "find (holds_disc dev p discid d) [0..<unat (max_disc p)]")
    case None
    then have "open_disc_loop dev True True discid p 0 (unat (max_disc p)) d = Some (None, p, d)"
      by (intro open_disc_missing [OF assms(1) t]) (auto simp: find_None_iff)
    then show ?thesis using None by (simp add: wbfs_open_disc_def)
  next
    case (Some k)
    then have k: "k < unat (max_disc p)" "holds_disc dev p discid d k" "\<forall>m < k. \<not> holds_disc dev p discid d m"
      by (auto simp: find_Some_iff)
    have "open_disc_loop dev True True discid p 0 (unat (max_disc p)) d
      = Some (Some \<lparr> disc_header = snd (fst (read_hdsector dev (disc_info_lba p (of_nat k)) (disc_info_sectors p) d)),
                     disc_i = of_nat k \<rparr>, p\<lparr> n_disc_open := n_disc_open p + 1 \<rparr>, d)"
      using k by (intro open_disc_found [OF assms(1) t]) auto
    then show ?thesis using Some by (simp add: wbfs_open_disc_def)
  qed
qed

theorem open_disc_first_match_witness:
  "\<exists>hdr p'. wbfs_open_disc demo_dev True True demo_part [0, 1, 2, 3, 4, 5] ()
     = Some (Some \<lparr> disc_header = hdr, disc_i = 0 \<rparr>, p', ())"
proof -
  have six: "take 6 [512..<1024] = [512, 513, 514, 515, 516, 517 :: nat]" by (simp add: upt_rec)
  have h: "holds_disc demo_dev demo_part [0, 1, 2, 3, 4, 5] () 0"
    by (simp add: holds_disc_def disc_table_def rd_def slot_sector_def demo_dev_def demo_part_def
        disc_info_lba_def take_map six)
  have "find (holds_disc demo_dev demo_part [0, 1, 2, 3, 4, 5] ()) [0..<unat (max_disc demo_part)] = Some 0"
    using h by (subst upt_conv_Cons) (simp_all add: demo_part_def)
  moreover have "read_only demo_dev" "length (head demo_part) \<ge> HEAD_SIZE + unat (max_disc demo_part)"
    by (simp_all add: read_only_def demo_dev_def demo_part_def)
  ultimately show ?thesis using open_disc_first_match [of demo_dev demo_part "[0, 1, 2, 3, 4, 5]" "()"] by simp
qed

end
