(* ===== verification/Dip_Drive.thy ===== *)
theory Dip_Drive
  imports Cios_Prelude
begin

text \<open>
  The disc drive reads of the disc interface plugin (\<open>dip-plugin/dip.c\<close>, \<open>dip-plugin/dma.c\<close>): reads of a
  DVD in sectors of 2048 bytes, straight into the caller's buffer where its address allows
  it and through a sector buffer otherwise.

  The drive itself is code of the original module and a parameter: \<open>dv_cmd\<close> is
  \<open>DI_HandleCmd\<close> (the command words and the length of the buffer; the result and the bytes it
  left at the start of the buffer), \<open>dv_alloc\<close> is \<open>DI_Alloc\<close> (the block, with what it held).
\<close>

record 'd drive =
  dv_cmd :: "u32 list \<Rightarrow> nat \<Rightarrow> 'd \<Rightarrow> (s32 \<times> bytes) \<times> 'd"
  dv_alloc :: "nat \<Rightarrow> 'd \<Rightarrow> bytes option \<times> 'd"

abbreviation (input) SECTOR_SIZE :: u32 where "SECTOR_SIZE \<equiv> 0x800"
abbreviation (input) MAX_SECTOR_SIZE :: u32 where "MAX_SECTOR_SIZE \<equiv> 0x7F8000"
abbreviation (input) DIP_EIO :: s32 where "DIP_EIO \<equiv> 0xA000"
abbreviation (input) MAX_READ_RETRIES :: nat where "MAX_READ_RETRIES \<equiv> 16"
abbreviation (input) IOCTL_DI_READ_A8 :: u32 where "IOCTL_DI_READ_A8 \<equiv> 0xA8"
abbreviation (input) IOCTL_DI_READ_D0 :: u32 where "IOCTL_DI_READ_D0 \<equiv> 0xD0"
abbreviation (input) IOCTL_DI_STOP_MOTOR :: u32 where "IOCTL_DI_STOP_MOTOR \<equiv> 0xE3"

section \<open>Direct transfers\<close>

abbreviation (input) DMA1_END_ADDRESS :: u32 where "DMA1_END_ADDRESS \<equiv> 0x01800000"
abbreviation (input) DMA2_START_ADDRESS :: u32 where "DMA2_START_ADDRESS \<equiv> 0x10000000"
abbreviation (input) DMA2_END_ADDRESS :: u32 where "DMA2_END_ADDRESS \<equiv> 0x13618000"

definition DMA_CheckRange :: "u32 \<Rightarrow> u32 \<Rightarrow> u32 \<Rightarrow> u32" where
  "DMA_CheckRange mem sz alignment =
     (if mem AND 31 = 0 then
        let dmalen1 = (if mem < DMA1_END_ADDRESS then DMA1_END_ADDRESS - mem else 0);
            dmalen = (if mem \<ge> DMA2_START_ADDRESS \<and> mem < DMA2_END_ADDRESS
                      then DMA2_END_ADDRESS - mem else dmalen1);
            ret = (if dmalen \<ge> alignment then (if dmalen < sz then dmalen else sz) else 0)
        in ret - (ret AND (alignment - 1))
      else 0)"

section \<open>Drive commands\<close>

text \<open>A command on a buffer: what the drive wrote, and the rest as it was.\<close>

definition drive_cmd :: "'d drive \<Rightarrow> u32 list \<Rightarrow> bytes \<Rightarrow> 'd \<Rightarrow> (s32 \<times> bytes) \<times> 'd" where
  "drive_cmd D dic buf d =
     (case dv_cmd D dic (length buf) d of
        ((r, bs), d') \<Rightarrow> ((r, take (length buf) bs @ drop (length bs) buf), d'))"

definition DI_ReadA8 :: "'d drive \<Rightarrow> bytes \<Rightarrow> u32 \<Rightarrow> u32 \<Rightarrow> 'd \<Rightarrow> (s32 \<times> bytes) \<times> 'd" where
  "DI_ReadA8 D buf len offset d =
     drive_cmd D [push_bit 24 IOCTL_DI_READ_A8, len, offset, 0, 0, 0, 0, 0] buf d"

fun d0_tries :: "'d drive \<Rightarrow> u32 list \<Rightarrow> nat \<Rightarrow> s32 \<Rightarrow> bytes \<Rightarrow> 'd \<Rightarrow> (s32 \<times> bytes) \<times> 'd" where
  "d0_tries D dic 0 ret buf d = ((ret, buf), d)"
| "d0_tries D dic (Suc n) ret buf d =
     (if ret \<noteq> 0 then
        (case drive_cmd D dic buf d of ((r, buf'), d') \<Rightarrow> d0_tries D dic n r buf' d')
      else ((ret, buf), d))"

definition DI_ReadD0 :: "'d drive \<Rightarrow> bytes \<Rightarrow> u32 \<Rightarrow> u32 \<Rightarrow> 'd \<Rightarrow> (s32 \<times> bytes) \<times> 'd" where
  "DI_ReadD0 D buf len lba d =
     d0_tries D [push_bit 24 IOCTL_DI_READ_D0, 0, 0, drop_bit 11 len, lba, 0, 0, 0]
       MAX_READ_RETRIES DIP_EIO buf d"

text \<open>\<open>seg\<close> is the part of the output buffer to fill.\<close>

definition DI_ReadFromSector ::
  "'d drive \<Rightarrow> bytes \<Rightarrow> u32 \<Rightarrow> u32 \<Rightarrow> u32 \<Rightarrow> 'd \<Rightarrow> (s32 \<times> bytes) \<times> 'd"
where
  "DI_ReadFromSector D seg len pos lba d =
     (if len + pos > SECTOR_SIZE then ((IPC_EINVAL, seg), d)
      else case dv_alloc D (unat SECTOR_SIZE) d of
          (None, d1) \<Rightarrow> ((IPC_ENOMEM, seg), d1)
        | (Some buf, d1) \<Rightarrow>
            (case DI_ReadD0 D buf SECTOR_SIZE lba d1 of ((ret, buf'), d2) \<Rightarrow>
               ((ret, if ret = 0 then take (unat len) (drop (unat pos) buf') else seg), d2)))"

definition DI_StopMotor :: "'d drive \<Rightarrow> 'd \<Rightarrow> s32 \<times> 'd" where
  "DI_StopMotor D d =
     (case dv_cmd D [push_bit 24 IOCTL_DI_STOP_MOTOR, 0, 0] 0 d of ((r, bs), d') \<Rightarrow> (r, d'))"

section \<open>Reads\<close>

text \<open>
  One step of the loop of \<open>DI_ReadDvd\<close>: the position in the sector, whether the sector buffer
  is used, and the size of the transfer. \<open>mem\<close> is the address of the output buffer.
\<close>

definition dvd_pos :: "u32 \<Rightarrow> u32 \<Rightarrow> u32" where
  "dvd_pos offset lba =
     (let offlba = push_bit 9 lba in if offset > offlba then push_bit 2 (offset - offlba) else 0)"

definition dvd_sector :: "u32 \<Rightarrow> u32 \<Rightarrow> u32 \<Rightarrow> bool" where
  "dvd_sector mem sz pos \<longleftrightarrow> DMA_CheckRange mem sz SECTOR_SIZE = 0 \<or> pos \<noteq> 0"

definition dvd_size :: "u32 \<Rightarrow> u32 \<Rightarrow> u32 \<Rightarrow> u32" where
  "dvd_size mem sz pos =
     (if dvd_sector mem sz pos then (if sz + pos > SECTOR_SIZE then SECTOR_SIZE - pos else sz)
      else let dmasize = DMA_CheckRange mem sz SECTOR_SIZE
           in if dmasize > MAX_SECTOR_SIZE then MAX_SECTOR_SIZE else dmasize)"

partial_function (option) dvd_loop ::
  "'d drive \<Rightarrow> u32 \<Rightarrow> u32 \<Rightarrow> u32 \<Rightarrow> u32 \<Rightarrow> u32 \<Rightarrow> s32 \<Rightarrow> bytes \<Rightarrow> 'd \<Rightarrow> ((s32 \<times> bytes) \<times> 'd) option"
where
  "dvd_loop D mem len offset cnt lba ret out d =
     (if cnt < len then
        let pos = dvd_pos offset lba;
            sz = dvd_size (mem + cnt) (len - cnt) pos
        in do { seg \<leftarrow> rd_block out (unat cnt) (unat sz);
                case (if dvd_sector (mem + cnt) (len - cnt) pos then DI_ReadFromSector D seg sz pos lba d
                      else DI_ReadD0 D seg sz lba d) of
                  ((r, seg'), d') \<Rightarrow>
                    dvd_loop D mem len offset (cnt + sz) (lba + drop_bit 11 (sz + pos)) r
                      (blit out (unat cnt) seg') d' }
      else Some ((ret, out), d))"

definition DI_ReadDvd ::
  "'d drive \<Rightarrow> u32 \<Rightarrow> bytes \<Rightarrow> u32 \<Rightarrow> u32 \<Rightarrow> 'd \<Rightarrow> ((s32 \<times> bytes) \<times> 'd) option"
where
  "DI_ReadDvd D mem out len offset d = dvd_loop D mem len offset 0 (drop_bit 9 offset) 0 out d"

definition DI_ReadWod :: "'d drive \<Rightarrow> bytes \<Rightarrow> u32 \<Rightarrow> u32 \<Rightarrow> 'd \<Rightarrow> (s32 \<times> bytes) \<times> 'd" where
  "DI_ReadWod D out len offset d = DI_ReadA8 D out len offset d"

section \<open>Sizes of the steps\<close>

lemma dma_range:
  shows "unat (DMA_CheckRange mem sz SECTOR_SIZE) \<le> unat sz"
    and "unat (DMA_CheckRange mem sz SECTOR_SIZE) mod 2048 = 0"
proof -
  have m: "(2048 :: u32) - 1 = mask 11" by (simp add: mask_numeral)
  have r: "unat (r - (r AND mask 11)) = unat r - unat r mod 2048" for r :: u32
    by (simp add: unat_u32_sub unat_and_mask)
  have "\<exists>r :: u32. unat r \<le> unat sz \<and> DMA_CheckRange mem sz SECTOR_SIZE = r - (r AND mask 11)"
  proof (cases "mem AND 31 = 0")
    case True
    let ?dmalen = "if mem \<ge> DMA2_START_ADDRESS \<and> mem < DMA2_END_ADDRESS
                   then DMA2_END_ADDRESS - mem else if mem < DMA1_END_ADDRESS then DMA1_END_ADDRESS - mem else 0"
    let ?r = "if ?dmalen \<ge> SECTOR_SIZE then (if ?dmalen < sz then ?dmalen else sz) else 0"
    have "?r \<le> sz" by auto
    then show ?thesis using True unfolding DMA_CheckRange_def Let_def m
      by (intro exI [of _ ?r]) (simp add: word_le_nat_alt)
  next
    case False
    then show ?thesis by (intro exI [of _ 0]) (simp add: DMA_CheckRange_def)
  qed
  then obtain r :: u32 where "unat r \<le> unat sz" "DMA_CheckRange mem sz SECTOR_SIZE = r - (r AND mask 11)" by blast
  then show "unat (DMA_CheckRange mem sz SECTOR_SIZE) \<le> unat sz"
    "unat (DMA_CheckRange mem sz SECTOR_SIZE) mod 2048 = 0"
    by (simp_all add: r minus_mod_eq_mult_div)
qed

text \<open>The position of the loop: byte \<open>4 * offset + cnt\<close> of the disc is byte \<open>pos\<close> of sector \<open>lba\<close>.\<close>

definition dvd_at :: "u32 \<Rightarrow> u32 \<Rightarrow> u32 \<Rightarrow> bool" where
  "dvd_at offset cnt lba \<longleftrightarrow>
     4 * unat offset + unat cnt = 2048 * unat lba + unat (dvd_pos offset lba) \<and> unat (dvd_pos offset lba) < 2048"

lemma dvd_at_start: "dvd_at offset 0 (drop_bit 9 offset)"
proof -
  have o: "unat (drop_bit 9 offset :: u32) = unat offset div 512" by (simp add: unat_drop_bit_u32)
  have p: "unat (push_bit 9 (drop_bit 9 offset) :: u32) = unat offset div 512 * 512"
    using unat_push_bit_u32 [of "drop_bit 9 offset" 9] u32_less [of offset] o
      div_times_less_eq_dividend [of "unat offset" 512] by simp
  have d: "unat offset - unat offset div 512 * 512 = unat offset mod 512" by (simp add: minus_div_mult_eq_mod)
  have "unat (dvd_pos offset (drop_bit 9 offset)) = 4 * (unat offset mod 512)"
  proof (cases "offset > push_bit 9 (drop_bit 9 offset)")
    case True
    have u: "unat (offset - push_bit 9 (drop_bit 9 offset)) = unat offset mod 512"
      using p d by (subst unat_u32_sub) simp_all
    then show ?thesis using True unat_push_bit_u32 [of "offset - push_bit 9 (drop_bit 9 offset)" 2]
        mod_less_divisor [of 512 "unat offset"] by (simp add: dvd_pos_def Let_def)
  next
    case False
    then have "unat offset \<le> unat offset div 512 * 512" using p by (simp add: word_le_nat_alt not_less)
    then have "unat offset mod 512 = 0" using d by simp
    then show ?thesis using False by (simp add: dvd_pos_def Let_def)
  qed
  moreover have "4 * unat offset = 2048 * (unat offset div 512) + 4 * (unat offset mod 512)"
    using div_mult_mod_eq [of "unat offset" 512] by linarith
  ultimately show ?thesis using o mod_less_divisor [of 512 "unat offset"] by (simp add: dvd_at_def)
qed

lemma dvd_at_aligned:
  assumes "4 * unat offset + unat cnt = 2048 * unat lba" and "unat lba < 8388608"
  shows "dvd_pos offset lba = 0" and "dvd_at offset cnt lba"
proof -
  have "unat (push_bit 9 lba) = unat lba * 512" using unat_push_bit_u32 [of lba 9] assms(2) by simp
  then have "\<not> offset > push_bit 9 lba" using assms(1) by (simp add: word_less_nat_alt)
  then show "dvd_pos offset lba = 0" by (simp add: dvd_pos_def Let_def)
  then show "dvd_at offset cnt lba" using assms(1) by (simp add: dvd_at_def)
qed

lemma dvd_size_facts:
  fixes mem :: u32
  assumes "0 < unat sz" and "unat pos < 2048" and "unat sz + 2048 < 4294967296"
  defines "n \<equiv> unat (dvd_size mem sz pos)"
  shows "0 < n" and "n \<le> unat sz"
    and "dvd_sector mem sz pos \<Longrightarrow> n = min (unat sz) (2048 - unat pos)"
    and "\<not> dvd_sector mem sz pos \<Longrightarrow> n mod 2048 = 0 \<and> pos = 0"
proof -
  have sp: "unat (sz + pos) = unat sz + unat pos" using assms(2,3) by (intro unat_u32_add) simp
  have sec: "n = min (unat sz) (2048 - unat pos)" if "dvd_sector mem sz pos"
    using that assms(2) sp by (auto simp: n_def dvd_size_def word_less_nat_alt unat_u32_sub)
  have dma: "n mod 2048 = 0 \<and> pos = 0 \<and> 0 < n \<and> n \<le> unat sz" if "\<not> dvd_sector mem sz pos"
    using that dma_range [of mem sz]
    by (auto simp: n_def dvd_size_def dvd_sector_def Let_def word_less_nat_alt unat_gt_0)
  show "0 < n" "n \<le> unat sz" using sec dma assms(1,2) by (cases "dvd_sector mem sz pos"; simp)+
  show "dvd_sector mem sz pos \<Longrightarrow> n = min (unat sz) (2048 - unat pos)" by (rule sec)
  show "\<not> dvd_sector mem sz pos \<Longrightarrow> n mod 2048 = 0 \<and> pos = 0" using dma by simp
qed

section \<open>A drive that serves a disc\<close>

text \<open>Byte \<open>k\<close> of the disc is \<open>img k\<close>; a read of \<open>n\<close> sectors succeeds and fills its buffer; the heap
  has a sector to spare.\<close>

definition drive_serves :: "'d drive \<Rightarrow> (nat \<Rightarrow> u8) \<Rightarrow> bool" where
  "drive_serves D img \<longleftrightarrow>
     (\<forall>n lba d. \<exists>d'. dv_cmd D [push_bit 24 IOCTL_DI_READ_D0, 0, 0, n, lba, 0, 0, 0] (2048 * unat n) d
        = ((0, map img [2048 * unat lba..<2048 * (unat lba + unat n)]), d')) \<and>
     (\<forall>d. \<exists>buf d'. dv_alloc D 2048 d = (Some buf, d') \<and> length buf = 2048)"

lemma d0_tries_first:
  assumes "drive_cmd D dic buf d = ((0, buf'), d')" and "ret \<noteq> 0" and "0 < n"
  shows "d0_tries D dic n ret buf d = ((0, buf'), d')"
proof -
  obtain m where "n = Suc m" using assms(3) by (cases n) simp_all
  moreover have "d0_tries D dic m 0 buf' d' = ((0, buf'), d')" by (cases m) simp_all
  ultimately show ?thesis using assms(1,2) by simp
qed

lemma serves_d0:
  assumes "drive_serves D img" and "length buf = unat len" and "unat len mod 2048 = 0"
  shows "\<exists>d'. DI_ReadD0 D buf len lba d = ((0, map img [2048 * unat lba..<2048 * unat lba + unat len]), d')"
proof -
  have n: "2048 * unat (drop_bit 11 len) = unat len"
    using assms(3) div_mult_mod_eq [of "unat len" 2048] by (simp add: unat_drop_bit_u32)
  obtain d' where "dv_cmd D [push_bit 24 IOCTL_DI_READ_D0, 0, 0, drop_bit 11 len, lba, 0, 0, 0] (unat len) d
      = ((0, map img [2048 * unat lba..<2048 * unat lba + unat len]), d')"
    using assms(1) [unfolded drive_serves_def, THEN conjunct1, rule_format, of "drop_bit 11 len" lba d]
    unfolding distrib_left n by blast
  then have "drive_cmd D [push_bit 24 IOCTL_DI_READ_D0, 0, 0, drop_bit 11 len, lba, 0, 0, 0] buf d
      = ((0, map img [2048 * unat lba..<2048 * unat lba + unat len]), d')"
    using assms(2) by (simp add: drive_cmd_def)
  then show ?thesis unfolding DI_ReadD0_def by (intro exI d0_tries_first) simp_all
qed

lemma serves_sector:
  assumes "drive_serves D img" and "0 < unat len" and "unat pos + unat len \<le> 2048"
  shows "\<exists>d'. DI_ReadFromSector D seg len pos lba d
    = ((0, map img [2048 * unat lba + unat pos..<2048 * unat lba + unat pos + unat len]), d')"
proof -
  obtain buf d1 where a: "dv_alloc D 2048 d = (Some buf, d1)" "length buf = 2048"
    using assms(1) [unfolded drive_serves_def, THEN conjunct2, rule_format, of d] by blast
  obtain d2 where r: "DI_ReadD0 D buf SECTOR_SIZE lba d1
      = ((0, map img [2048 * unat lba..<2048 * unat lba + 2048]), d2)"
    using serves_d0 [OF assms(1), of buf SECTOR_SIZE lba d1] a(2) by auto
  have "unat (len + pos) = unat len + unat pos" using assms(3) by (intro unat_u32_add) simp
  then have "\<not> len + pos > SECTOR_SIZE" using assms(3) by (simp add: word_less_nat_alt)
  moreover have "take (unat len) (drop (unat pos) (map img [2048 * unat lba..<2048 * unat lba + 2048]))
      = map img [2048 * unat lba + unat pos..<2048 * unat lba + unat pos + unat len]"
    using assms(3) by (simp add: drop_map take_map)
  ultimately show ?thesis using a(1) r by (simp add: DI_ReadFromSector_def)
qed

lemma blit_image:
  assumes "take c out = map img [a..<a + c]" and "c + n \<le> length out"
  shows "take (c + n) (blit out c (map img [a + c..<a + c + n])) = map img [a..<a + (c + n)]"
    and "length (blit out c (map img [a + c..<a + c + n])) = length out"
proof -
  show "take (c + n) (blit out c (map img [a + c..<a + c + n])) = map img [a..<a + (c + n)]"
    using take_blit [of c "map img [a + c..<a + c + n]" out] assms
      map_upt_join [of a "a + c" "a + c + n" img] by (simp add: add.assoc)
  show "length (blit out c (map img [a + c..<a + c + n])) = length out"
    using assms(2) by (simp add: length_blit)
qed

text \<open>One step: it fills the next bytes of the buffer and stays on the disc's grid.\<close>

lemma dvd_step:
  fixes mem :: u32
  assumes ok: "drive_serves D img" and at: "dvd_at offset cnt lba" and cnt: "unat cnt < unat len"
    and lim: "4 * unat offset + unat len < 17179869184" "unat len + 2048 < 4294967296"
  defines "pos \<equiv> dvd_pos offset lba"
  defines "sz \<equiv> dvd_size (mem + cnt) (len - cnt) pos"
  defines "lba' \<equiv> lba + drop_bit 11 (sz + pos)"
  shows "0 < unat sz" and "unat (cnt + sz) = unat cnt + unat sz" and "unat cnt + unat sz \<le> unat len"
    and "length seg = unat sz \<Longrightarrow> \<exists>d'. (if dvd_sector (mem + cnt) (len - cnt) pos
          then DI_ReadFromSector D seg sz pos lba d else DI_ReadD0 D seg sz lba d)
        = ((0, map img [4 * unat offset + unat cnt..<4 * unat offset + unat cnt + unat sz]), d')"
    and "cnt + sz = len \<or> dvd_at offset (cnt + sz) lba'"
proof -
  let ?a = "4 * unat offset + unat cnt"
  have p: "?a = 2048 * unat lba + unat pos" "unat pos < 2048" using at by (simp_all add: dvd_at_def pos_def)
  have left: "unat (len - cnt) = unat len - unat cnt" using cnt by (intro unat_u32_sub) simp
  note f = dvd_size_facts [of "len - cnt" pos "mem + cnt", folded sz_def, unfolded left]
  have f12: "0 < unat sz" "unat sz \<le> unat len - unat cnt" using f(1,2) cnt p(2) lim(2) by simp_all
  show "0 < unat sz" by (rule f12(1))
  show add: "unat (cnt + sz) = unat cnt + unat sz"
    using f12 cnt u32_less [of len] by (intro unat_u32_add) linarith
  show le: "unat cnt + unat sz \<le> unat len" using f12 cnt by linarith
  have sec: "unat sz = min (unat len - unat cnt) (2048 - unat pos)" if "dvd_sector (mem + cnt) (len - cnt) pos"
    using f(3) [OF _ _ _ that] cnt p(2) lim(2) by simp
  have dma: "unat sz mod 2048 = 0" "pos = 0" if "\<not> dvd_sector (mem + cnt) (len - cnt) pos"
    using f(4) [OF _ _ _ that] cnt p(2) lim(2) by simp_all
  show "\<exists>d'. (if dvd_sector (mem + cnt) (len - cnt) pos
          then DI_ReadFromSector D seg sz pos lba d else DI_ReadD0 D seg sz lba d)
        = ((0, map img [?a..<?a + unat sz]), d')" if seg: "length seg = unat sz"
  proof (cases "dvd_sector (mem + cnt) (len - cnt) pos")
    case True
    have "unat pos + unat sz \<le> 2048" using sec [OF True] p(2) by linarith
    from serves_sector [OF ok f12(1) this, of seg lba d] show ?thesis using True p(1) by simp
  next
    case False
    from serves_d0 [OF ok seg dma(1) [OF False], of lba d] show ?thesis using False p(1) dma(2) [OF False] by simp
  qed
  show "cnt + sz = len \<or> dvd_at offset (cnt + sz) lba'"
  proof (cases "unat cnt + unat sz = unat len")
    case True
    then show ?thesis using add by (simp add: word_unat_eq_iff)
  next
    case False
    have sp: "unat (sz + pos) = unat sz + unat pos" using le lim(2) p(2) by (intro unat_u32_add) linarith
    have m: "2048 dvd unat sz + unat pos"
    proof (cases "dvd_sector (mem + cnt) (len - cnt) pos")
      case True
      then have "unat sz + unat pos = 2048" using sec [OF True] False cnt p(2) by linarith
      then show ?thesis by simp
    next
      case False
      then show ?thesis using dma by (simp add: mod_eq_0_iff_dvd)
    qed
    have d: "2048 * unat (drop_bit 11 (sz + pos)) = unat sz + unat pos"
      using m sp by (simp add: unat_drop_bit_u32)
    have tot: "4 * unat offset + unat (cnt + sz) = 2048 * (unat lba + unat (drop_bit 11 (sz + pos)))"
      using d p(1) add by (simp add: distrib_left)
    define X where "X = unat lba + unat (drop_bit 11 (sz + pos))"
    have "2048 * X < 17179869184" using tot [folded X_def] add le lim(1) by linarith
    then have lt: "unat lba + unat (drop_bit 11 (sz + pos)) < 8388608" unfolding X_def [symmetric] by linarith
    then have "unat lba' = unat lba + unat (drop_bit 11 (sz + pos))"
      unfolding lba'_def by (intro unat_u32_add) linarith
    then show ?thesis using dvd_at_aligned(2) [of offset "cnt + sz" lba'] tot lt by simp
  qed
qed

lemma dvd_loop_image:
  assumes ok: "drive_serves D img"
    and lim: "4 * unat offset + unat len < 17179869184" "unat len + 2048 < 4294967296"
  shows "\<lbrakk>cnt = len \<or> dvd_at offset cnt lba; unat cnt \<le> unat len; unat len \<le> length out;
     take (unat cnt) out = map img [4 * unat offset..<4 * unat offset + unat cnt]; ret = 0\<rbrakk> \<Longrightarrow>
    \<exists>out' d'. dvd_loop D mem len offset cnt lba ret out d = Some ((0, out'), d') \<and> length out' = length out
      \<and> take (unat len) out' = map img [4 * unat offset..<4 * unat offset + unat len]"
proof (induction "unat len - unat cnt" arbitrary: cnt lba ret out d rule: less_induct)
  case less
  show ?case
  proof (cases "unat cnt < unat len")
    case False
    then have "\<not> cnt < len" "unat cnt = unat len" using less.prems(2) by (simp_all add: word_less_nat_alt)
    then show ?thesis using less.prems by (simp add: dvd_loop.simps [of D mem len])
  next
    case True
    then have c: "cnt < len" "dvd_at offset cnt lba" using less.prems(1) by (auto simp: word_less_nat_alt)
    let ?pos = "dvd_pos offset lba"
    define sz where "sz = dvd_size (mem + cnt) (len - cnt) ?pos"
    note st = dvd_step [OF ok c(2) True lim, where mem = mem, folded sz_def]
    have fit: "unat cnt + unat sz \<le> length out" using st(3) less.prems(3) by linarith
    obtain seg where seg: "rd_block out (unat cnt) (unat sz) = Some seg" "length seg = unat sz"
      using fit by (simp add: rd_block_Some)
    obtain d' where x: "(if dvd_sector (mem + cnt) (len - cnt) ?pos
          then DI_ReadFromSector D seg sz ?pos lba d else DI_ReadD0 D seg sz lba d)
        = ((0, map img [4 * unat offset + unat cnt..<4 * unat offset + unat cnt + unat sz]), d')"
      using st(4) [OF seg(2), of d] by blast
    let ?out = "blit out (unat cnt) (map img [4 * unat offset + unat cnt..<4 * unat offset + unat cnt + unat sz])"
    have step: "dvd_loop D mem len offset cnt lba ret out d =
        dvd_loop D mem len offset (cnt + sz) (lba + drop_bit 11 (sz + ?pos)) 0 ?out d'"
      by (subst dvd_loop.simps) (simp only: c(1) if_True Let_def sz_def [symmetric] seg(1) x
          Option.bind.bind_lunit prod.case)
    note b = blit_image [OF less.prems(4) fit]
    have "\<exists>out' d''. dvd_loop D mem len offset (cnt + sz) (lba + drop_bit 11 (sz + ?pos)) 0 ?out d'
          = Some ((0, out'), d'') \<and> length out' = length ?out
        \<and> take (unat len) out' = map img [4 * unat offset..<4 * unat offset + unat len]"
      using st(1,2,3,5) less.prems(3) b True
      by (intro less.hyps) (simp_all add: add.assoc)
    then show ?thesis unfolding step using b(2) by simp
  qed
qed

section \<open>Errors inside a read\<close>

text \<open>Reading sector \<open>lba\<close> alone always gives the result \<open>r\<close> and the bytes \<open>bs\<close>.\<close>

definition sector_result :: "'d drive \<Rightarrow> u32 \<Rightarrow> s32 \<Rightarrow> bytes \<Rightarrow> bool" where
  "sector_result D lba r bs \<longleftrightarrow>
     (\<forall>d. \<exists>d'. dv_cmd D [push_bit 24 IOCTL_DI_READ_D0, 0, 0, 1, lba, 0, 0, 0] 2048 d = ((r, bs), d'))"

lemma d0_tries_fail:
  assumes "\<And>d. \<exists>d'. drive_cmd D dic buf d = ((r, buf), d')" and "r \<noteq> 0"
  shows "ret \<noteq> 0 \<Longrightarrow> \<exists>d'. d0_tries D dic n ret buf d = ((if n = 0 then ret else r, buf), d')"
proof (induction n arbitrary: ret d)
  case (Suc n)
  obtain d1 where d1: "drive_cmd D dic buf d = ((r, buf), d1)" using assms(1) by blast
  obtain d2 where "d0_tries D dic n r buf d1 = ((if n = 0 then r else r, buf), d2)"
    using Suc.IH [OF assms(2)] by blast
  then show ?case using d1 Suc.prems by simp
qed simp

lemma sector_read_fails:
  assumes "sector_result D lba r []" and "r \<noteq> 0" and "\<And>d. \<exists>buf d'. dv_alloc D 2048 d = (Some buf, d') \<and> length buf = 2048"
  shows "\<exists>d'. DI_ReadFromSector D seg SECTOR_SIZE 0 lba d = ((r, seg), d')"
proof -
  obtain buf d1 where a: "dv_alloc D 2048 d = (Some buf, d1)" "length buf = 2048" using assms(3) by blast
  have one: "drop_bit 11 SECTOR_SIZE = (1 :: u32)" by simp
  have "\<exists>d'. drive_cmd D [push_bit 24 IOCTL_DI_READ_D0, 0, 0, 1, lba, 0, 0, 0] buf d = ((r, buf), d')" for d
    using assms(1) [unfolded sector_result_def, rule_format, of d] a(2) by (auto simp: drive_cmd_def)
  from d0_tries_fail [OF this assms(2), of DIP_EIO MAX_READ_RETRIES d1]
  obtain d2 where "DI_ReadD0 D buf SECTOR_SIZE lba d1 = ((r, buf), d2)"
    unfolding DI_ReadD0_def one by auto
  then show ?thesis using a(1) assms(2) by (simp add: DI_ReadFromSector_def)
qed

lemma sector_read_serves:
  assumes "sector_result D lba 0 bs" and "length bs = 2048"
    and "\<And>d. \<exists>buf d'. dv_alloc D 2048 d = (Some buf, d') \<and> length buf = 2048"
  shows "\<exists>d'. DI_ReadFromSector D seg SECTOR_SIZE 0 lba d = ((0, bs), d')"
proof -
  obtain buf d1 where a: "dv_alloc D 2048 d = (Some buf, d1)" "length buf = 2048" using assms(3) by blast
  have one: "drop_bit 11 SECTOR_SIZE = (1 :: u32)" by simp
  obtain d2 where "drive_cmd D [push_bit 24 IOCTL_DI_READ_D0, 0, 0, 1, lba, 0, 0, 0] buf d1 = ((0, bs), d2)"
    using assms(1) [unfolded sector_result_def, rule_format, of d1] a(2) assms(2) by (auto simp: drive_cmd_def)
  then have "DI_ReadD0 D buf SECTOR_SIZE lba d1 = ((0, bs), d2)"
    unfolding DI_ReadD0_def one by (rule d0_tries_first) simp_all
  then show ?thesis using a(1) assms(2) by (simp add: DI_ReadFromSector_def)
qed

text \<open>A step of the loop on an address that is no multiple of 32.\<close>

lemma dvd_loop_unaligned:
  assumes "mem AND 31 \<noteq> 0" and "dvd_pos offset lba = 0" and "unat cnt mod 2048 = 0"
    and "unat cnt + 2048 \<le> unat len" and "unat cnt + 2048 \<le> length out"
    and "DI_ReadFromSector D (take 2048 (drop (unat cnt) out)) SECTOR_SIZE 0 lba d = ((r, seg), d')"
  shows "dvd_loop D mem len offset cnt lba ret out d
    = dvd_loop D mem len offset (cnt + 2048) (lba + 1) r (blit out (unat cnt) seg) d'"
proof -
  have c: "cnt < len" using assms(4) by (simp add: word_less_nat_alt)
  have "unat (len - cnt) = unat len - unat cnt" using assms(4) by (intro unat_u32_sub) simp
  then have big: "2048 \<le> unat (len - cnt)" using assms(4) by linarith
  have m5: "(31 :: u32) = mask 5" by (simp add: mask_numeral)
  have "unat ((mem + cnt) AND mask 5) = unat (mem AND mask 5)"
  proof -
    have "2048 dvd unat cnt" using assms(3) by (simp add: mod_eq_0_iff_dvd)
    then have "32 dvd unat cnt" by (rule dvd_trans [rotated]) simp
    then have "(unat mem + unat cnt) mod 32 = unat mem mod 32" by (metis add.commute dvd_imp_mod_0 mod_add_left_eq add_0)
    moreover have "unat (mem + cnt) mod 32 = (unat mem + unat cnt) mod 32"
      by (simp add: unat_word_ariths mod_mod_cancel)
    ultimately show ?thesis by (simp add: unat_and_mask)
  qed
  then have "(mem + cnt) AND 31 \<noteq> 0" using assms(1) unfolding m5 by (metis unat_eq_zero)
  then have s: "dvd_sector (mem + cnt) (len - cnt) 0" by (simp add: dvd_sector_def DMA_CheckRange_def)
  have "dvd_size (mem + cnt) (len - cnt) 0 = 2048"
    using s big by (auto simp: dvd_size_def word_less_nat_alt word_unat_eq_iff)
  then show ?thesis using c s assms(2,5,6)
    by (subst dvd_loop.simps) (simp add: Let_def rd_block_def)
qed

section \<open>Properties\<close>

text \<open>
  C6. Reading a DVD refines the disc: on a drive that serves its sectors, a read of any length at
  any word offset into a buffer at any address returns, and leaves exactly the bytes of the
  disc in the buffer, whether the transfers go straight to the buffer, through the sector
  buffer or alternate.
\<close>

theorem dvd_read_refines_disc:
  assumes "drive_serves D img" and "unat len \<le> length out"
    and "4 * unat offset + unat len < 17179869184" and "unat len + 2048 < 4294967296"
  shows "\<exists>out' d'. DI_ReadDvd D mem out len offset d = Some ((0, out'), d') \<and> length out' = length out
    \<and> take (unat len) out' = map img [4 * unat offset..<4 * unat offset + unat len]"
  unfolding DI_ReadDvd_def
  using dvd_loop_image [OF assms(1,3,4), of 0 "drop_bit 9 offset" out 0 mem d] dvd_at_start [of offset] assms(2)
  by simp

text \<open>A drive whose byte \<open>k\<close> is \<open>k mod 256\<close>, whose sector 7 cannot be read.\<close>

definition demo_drive :: "unit drive" where
  "demo_drive = \<lparr> dv_cmd = (\<lambda>dic n d. ((0, map of_nat [2048 * unat (dic ! 4)..<2048 * unat (dic ! 4) + n]), d)),
     dv_alloc = (\<lambda>n d. (Some (replicate n 0), d)) \<rparr>"

definition bad_drive :: "unit drive" where
  "bad_drive = demo_drive\<lparr> dv_cmd := (\<lambda>dic n d.
     if dic ! 4 = 7 then ((DIP_EIO, []), d) else dv_cmd demo_drive dic n d) \<rparr>"

theorem dvd_read_refines_disc_witness:
  "\<exists>out' d'. DI_ReadDvd demo_drive 0x20 (replicate 5000 9) 5000 100 () = Some ((0, out'), d')
     \<and> length out' = length (replicate 5000 (9 :: u8))
     \<and> take (unat (5000 :: u32)) out'
         = map of_nat [4 * unat (100 :: u32)..<4 * unat (100 :: u32) + unat (5000 :: u32)]"
proof (rule dvd_read_refines_disc)
  show "drive_serves demo_drive of_nat" by (simp add: drive_serves_def demo_drive_def distrib_left)
qed simp_all

text \<open>
  A read error in the middle of a DVD read is lost: the loop goes on and returns the result of
  its last transfer, so a failed sector followed by a good one is reported as success with the
  old bytes of the buffer in place of the sector.
\<close>

theorem dvd_read_loses_error:
  assumes "sector_result D lba e []" and "e \<noteq> 0" and "sector_result D (lba + 1) 0 bs" and "length bs = 2048"
    and "\<forall>d. \<exists>buf d'. dv_alloc D 2048 d = (Some buf, d') \<and> length buf = 2048"
    and "mem AND 31 \<noteq> 0" and "unat lba < 8388607" and "length out = 4096"
  shows "\<exists>d'. DI_ReadDvd D mem out 4096 (push_bit 9 lba) d = Some ((0, take 2048 out @ bs), d')"
proof -
  let ?o = "push_bit 9 lba"
  have o: "unat ?o = 512 * unat lba" using unat_push_bit_u32 [of lba 9] assms(7) by simp
  have lb: "drop_bit 9 ?o = lba"
    using o by (simp add: word_unat_eq_iff unat_drop_bit_u32)
  have l1: "unat (lba + 1) = unat lba + 1" using assms(7) unat_u32_add [of lba 1] by simp
  have p: "dvd_pos ?o lba = 0" "dvd_pos ?o (lba + 1) = 0"
    using dvd_at_aligned(1) [of ?o 0 lba] dvd_at_aligned(1) [of ?o 2048 "lba + 1"] o l1 assms(7) by simp_all
  obtain d1 where r1: "DI_ReadFromSector D (take 2048 (drop (unat (0 :: u32)) out)) SECTOR_SIZE 0 lba d
      = ((e, take 2048 out), d1)"
    using sector_read_fails [OF assms(1,2), of "take 2048 out" d] assms(5) by auto
  have b1: "blit out (unat (0 :: u32)) (take 2048 out) = out" using assms(8) by (simp add: blit_def)
  obtain d2 where r2: "DI_ReadFromSector D (take 2048 (drop (unat (2048 :: u32)) out)) SECTOR_SIZE 0 (lba + 1) d1
      = ((0, bs), d2)"
    using sector_read_serves [OF assms(3,4), of _ d1] assms(5) by auto
  have b2: "blit out (unat (2048 :: u32)) bs = take 2048 out @ bs" using assms(4,8) by (simp add: blit_def)
  have "DI_ReadDvd D mem out 4096 ?o d = dvd_loop D mem 4096 ?o 4096 (lba + 1 + 1) 0 (take 2048 out @ bs) d2"
    using dvd_loop_unaligned [OF assms(6) p(1) _ _ _ r1, of 4096 0]
      dvd_loop_unaligned [OF assms(6) p(2) _ _ _ r2, of 4096 e] assms(8)
    unfolding DI_ReadDvd_def lb b1 b2 by simp
  then show ?thesis by (simp add: dvd_loop.simps [of D mem 4096 _ 4096])
qed

theorem dvd_read_loses_error_witness:
  "\<exists>d'. DI_ReadDvd bad_drive 1 (replicate 4096 9) 4096 (push_bit 9 7) () =
     Some ((0, take 2048 (replicate 4096 9) @ map of_nat [2048 * 8..<2048 * 8 + 2048]), d')"
  by (rule dvd_read_loses_error [where e = DIP_EIO])
     (simp_all add: sector_result_def bad_drive_def demo_drive_def)

end
