(* ===== verification/Frag.thy ===== *)
theory Frag
  imports Cios_Prelude
begin

text \<open>
  The fragment list reader of \<open>dip-plugin/frag.c\<close>: a disc image stored in fragments on a
  drive, read through a list that maps image sectors to drive sectors, with gaps that read
  as zeros. The list, the index that shortens the search, the sector and byte reads, and
  the set-up are modelled at the width of the source.

  The storage drivers are the parameter \<open>disk\<close>: \<open>disk dev sector count\<close> is the bytes read,
  or \<open>None\<close> for a read error. The outer option of a result is \<open>None\<close> where the code would
  read outside an array.
\<close>

section \<open>Data\<close>

abbreviation (input) FRAG_MAX :: nat where "FRAG_MAX \<equiv> 20000"
abbreviation (input) MAX_IDX :: nat where "MAX_IDX \<equiv> 640"
abbreviation (input) IDX_SHIFT :: nat where "IDX_SHIFT \<equiv> 15"
abbreviation (input) DEV_USB :: u32 where "DEV_USB \<equiv> 1"
abbreviation (input) DEV_SDHC :: u32 where "DEV_SDHC \<equiv> 2"

record Fragment =
  fr_offset :: u32
  fr_sector :: u32
  fr_count :: u32

record FragList =
  fl_size :: u32
  fl_num :: u32
  fl_maxnum :: u32
  fl_frag :: "Fragment list"

definition sizeof_FragList :: nat where
  "sizeof_FragList = 12 + FRAG_MAX * 12"

definition dec_Fragment :: "bytes \<Rightarrow> Fragment" where
  "dec_Fragment bs = \<lparr> fr_offset = be32 (take 4 bs), fr_sector = be32 (take 4 (drop 4 bs)),
     fr_count = be32 (take 4 (drop 8 bs)) \<rparr>"

text \<open>The structure the bytes of a caller make: cleared, then overwritten.\<close>

definition dec_FragList :: "bytes \<Rightarrow> FragList" where
  "dec_FragList bs0 =
     (let bs = bs0 @ replicate (sizeof_FragList - length bs0) 0
      in \<lparr> fl_size = be32 (take 4 bs), fl_num = be32 (take 4 (drop 4 bs)),
           fl_maxnum = be32 (take 4 (drop 8 bs)),
           fl_frag = map (\<lambda>i. dec_Fragment (take 12 (drop (12 + 12 * i) bs))) [0..<FRAG_MAX] \<rparr>)"

record frag_state =
  frag_idx :: "nat list"
  frag_inited :: bool
  frag_dev :: u32
  sector_size :: u32
  ss_num_bits :: nat
  sector_buf :: bool
  frag_list :: "FragList option"

definition frag_zero :: frag_state where
  "frag_zero = \<lparr> frag_idx = replicate MAX_IDX 0, frag_inited = False, frag_dev = 0, sector_size = 0,
     ss_num_bits = 0, sector_buf = False, frag_list = None \<rparr>"

section \<open>The search index\<close>

function Frag_GetNumBits :: "u32 \<Rightarrow> nat" where
  "Frag_GetNumBits val =
     (let v = drop_bit 1 val in if v = 0 then 1 else Suc (Frag_GetNumBits v))"
  by pat_completeness auto
termination
proof (relation "measure unat", goal_cases)
  case (2 val v)
  then have "val \<noteq> 0" by auto
  then have "0 < unat val" by (simp add: unat_gt_0)
  then show ?case using 2 by (simp add: unat_div drop_bit_eq_div)
qed simp

declare Frag_GetNumBits.simps [simp del]

text \<open>The inner loop: advance past the fragments that end at or before \<open>off\<close>.\<close>

fun idx_advance :: "FragList \<Rightarrow> u32 \<Rightarrow> nat \<Rightarrow> nat \<Rightarrow> nat option" where
  "idx_advance ff off idx 0 = None"
| "idx_advance ff off idx (Suc fuel) =
     do { f \<leftarrow> rd (fl_frag ff) idx;
          if off \<ge> fr_offset f + fr_count f \<and> idx + 1 < unat (fl_num ff)
          then idx_advance ff off (idx + 1) fuel else Some idx }"

text \<open>The outer loop over the chunks of 16 MB; the counter is an \<open>u16\<close> bounded by the list.\<close>

fun idx_build :: "FragList \<Rightarrow> nat \<Rightarrow> nat \<Rightarrow> nat \<Rightarrow> nat list option" where
  "idx_build ff i 0 idx = Some []"
| "idx_build ff i (Suc left) idx =
     do { j \<leftarrow> idx_advance ff (push_bit IDX_SHIFT (of_nat i)) idx (Suc (unat (fl_num ff)));
          js \<leftarrow> idx_build ff (Suc i) left j;
          Some (j # js) }"

definition Frag_OptimizeList :: "FragList \<Rightarrow> nat list option" where
  "Frag_OptimizeList ff = idx_build ff 0 MAX_IDX 0"

section \<open>Lookup\<close>

text \<open>The search loop of \<open>__Frag_Get\<close> over \<open>n\<close> entries from \<open>i\<close>; \<open>Some None\<close>: not found.\<close>

fun frag_scan ::
  "FragList \<Rightarrow> nat \<Rightarrow> nat \<Rightarrow> u32 \<Rightarrow> u32 \<Rightarrow> (u32 \<times> u32 \<times> u32) option option"
where
  "frag_scan ff i 0 offset count = Some None"
| "frag_scan ff i (Suc n) offset count =
     do { f \<leftarrow> rd (fl_frag ff) i;
          if fr_offset f \<le> offset \<and> fr_offset f + fr_count f > offset then
            (let delta = offset - fr_offset f
             in Some (Some (offset, fr_sector f + delta, min (fr_count f - delta) count)))
          else if fr_offset f > offset \<and> fr_offset f < offset + count then
            (let delta = fr_offset f - offset
             in Some (Some (fr_offset f, fr_sector f, min (fr_count f) (count - delta))))
          else frag_scan ff (Suc i) n offset count }"

definition Frag_Get ::
  "nat list \<Rightarrow> FragList \<Rightarrow> u32 \<Rightarrow> u32 \<Rightarrow> (s32 + (u32 \<times> u32 \<times> u32)) option"
where
  "Frag_Get idxs ff offset count =
     (let io = unat (drop_bit IDX_SHIFT offset);
          idx_off = (if io > MAX_IDX then MAX_IDX - 1 else io)
      in do { start \<leftarrow> rd idxs idx_off;
              r \<leftarrow> frag_scan ff start (unat (fl_num ff) - start) offset count;
              Some (case r of
                      Some t \<Rightarrow> Inr t
                    | None \<Rightarrow> if offset + count > fl_size ff then Inl (-2)
                              else Inr (offset + count, 0, 0)) })"

section \<open>Reads\<close>

type_synonym frag_disk = "u32 \<Rightarrow> u32 \<Rightarrow> u32 \<Rightarrow> bytes option"

text \<open>The results of a lookup lie inside the request.\<close>

lemma u32_minus_less:
  "a \<le> b \<Longrightarrow> unat (b - a :: u32) = unat b - unat a"
  by (simp add: unat_u32_sub word_le_nat_alt)

lemma u32_range:
  assumes "o1 < (x :: u32)" and "x < o1 + c"
  shows "unat (x - o1) < unat c"
proof -
  have "unat (o1 + c) \<le> unat o1 + unat c" by (simp add: unat_word_ariths)
  then have "unat x < unat o1 + unat c" using assms(2) by (simp add: word_less_nat_alt)
  moreover have "unat (x - o1) = unat x - unat o1" using assms(1) by (simp add: u32_minus_less)
  ultimately show ?thesis using assms(1) by (simp add: word_less_nat_alt)
qed

lemma frag_scan_bounds:
  "frag_scan ff i n offset count = Some (Some (po, ps, pc)) \<Longrightarrow>
     unat (po - offset) + unat pc \<le> unat count"
proof (induction n arbitrary: i)
  case (Suc n)
  obtain f where f: "rd (fl_frag ff) i = Some f" using Suc.prems by (cases "rd (fl_frag ff) i") auto
  show ?case
  proof (cases "fr_offset f \<le> offset \<and> fr_offset f + fr_count f > offset")
    case True
    then have "po = offset" "pc = min (fr_count f - (offset - fr_offset f)) count"
      using Suc.prems f by (auto simp: Let_def)
    then show ?thesis by (simp add: min_def word_le_nat_alt)
  next
    case F: False
    show ?thesis
    proof (cases "fr_offset f > offset \<and> fr_offset f < offset + count")
      case True
      then have d: "unat (fr_offset f - offset) < unat count" using u32_range by blast
      have "po = fr_offset f" "pc = min (fr_count f) (count - (fr_offset f - offset))"
        using Suc.prems f F True by (auto simp: Let_def)
      moreover have "unat (count - (fr_offset f - offset)) = unat count - unat (fr_offset f - offset)"
        using d by (simp add: unat_u32_sub)
      ultimately show ?thesis using d by (simp add: min_def word_le_nat_alt split: if_splits)
    next
      case False
      then show ?thesis using Suc.IH [of "Suc i"] Suc.prems f F by auto
    qed
  qed
qed simp

lemma Frag_Get_bounds:
  assumes "Frag_Get idxs ff offset count = Some (Inr (po, ps, pc))"
  shows "unat (po - offset) + unat pc \<le> unat count"
  using assms frag_scan_bounds
  by (fastforce simp: Frag_Get_def Let_def split: Option.bind_splits option.splits if_splits)

lemma Frag_Get_progress:
  assumes "Frag_Get idxs ff offset len = Some (Inr (off_ret, sector, count))"
    and "off_ret - offset + count \<noteq> 0"
  shows "unat (len - (off_ret - offset) - count) < unat len"
    and "unat (len - (off_ret - offset) - count) = unat len - unat (off_ret - offset) - unat count"
proof -
  note b = Frag_Get_bounds [OF assms(1)]
  have "unat (len - (off_ret - offset)) = unat len - unat (off_ret - offset)"
    using b by (simp add: unat_u32_sub)
  then show e: "unat (len - (off_ret - offset) - count) = unat len - unat (off_ret - offset) - unat count"
    using b by (subst unat_u32_sub) simp_all
  have "off_ret - offset \<noteq> 0 \<or> count \<noteq> 0" using assms(2) by auto
  then have "0 < unat (off_ret - offset) + unat count" by (auto simp: unat_gt_0)
  then show "unat (len - (off_ret - offset) - count) < unat len" using b e by linarith
qed

text \<open>\<open>__Frag_ReadSect\<close>: the bytes read, or an error code.\<close>

function Frag_ReadSect :: "frag_disk \<Rightarrow> frag_state \<Rightarrow> FragList \<Rightarrow> u32 \<Rightarrow> u32 \<Rightarrow> (s32 + bytes) option" where
  "Frag_ReadSect disk s ff offset len =
     (if len = 0 then Some (Inr [])
      else case Frag_Get (frag_idx s) ff offset len of
        None \<Rightarrow> None
      | Some (Inl e) \<Rightarrow> Some (Inl e)
      | Some (Inr (off_ret, sector, count)) \<Rightarrow>
          let delta = off_ret - offset;
              gap = replicate (unat (push_bit (ss_num_bits s) delta)) 0
          in case (if count \<noteq> 0 then disk (frag_dev s) sector count else Some []) of
               None \<Rightarrow> Some (Inl (-3))
             | Some dat \<Rightarrow>
                 if delta + count = 0 then Some (Inl (-4))
                 else map_option (map_sum id (\<lambda>rest. gap @ dat @ rest))
                   (Frag_ReadSect disk s ff (offset + delta + count) (len - delta - count)))"
  by pat_completeness auto
termination
  by (relation "measure (\<lambda>(disk, s, ff, offset, len). unat len)") (auto simp: Frag_Get_progress(1))

declare Frag_ReadSect.simps [simp del]

text \<open>\<open>__Frag_ReadPartial\<close>: the part of one sector that does not fill it; \<open>offset\<close> counts
  32-bit words.\<close>

definition Frag_ReadPartial ::
  "frag_disk \<Rightarrow> frag_state \<Rightarrow> FragList \<Rightarrow> u32 \<Rightarrow> u32 \<Rightarrow> (s32 + bytes) option"
where
  "Frag_ReadPartial disk s ff offset len =
     (let off_sec = drop_bit (ss_num_bits s - 2) offset;
          md = push_bit 2 (offset AND drop_bit 2 (sector_size s - 1));
          rlen0 = min (sector_size s - md) len;
          rlen = (if rlen0 = sector_size s then 0 else rlen0)
      in if rlen \<noteq> 0 then
           map_option (map_sum id (\<lambda>buf. take (unat rlen) (drop (unat md) buf)))
             (Frag_ReadSect disk s ff off_sec 1)
         else Some (Inr []))"

definition Frag_Read ::
  "frag_disk \<Rightarrow> frag_state \<Rightarrow> FragList \<Rightarrow> u32 \<Rightarrow> u32 \<Rightarrow> (s32 + bytes) option"
where
  "Frag_Read disk s ff len0 woffset0 =
     do { r1 \<leftarrow> Frag_ReadPartial disk s ff woffset0 len0;
          case r1 of
            Inl e \<Rightarrow> Some (Inl e)
          | Inr d1 \<Rightarrow>
              let woffset = woffset0 + drop_bit 2 (of_nat (length d1));
                  len = len0 - of_nat (length d1);
                  len_sec = drop_bit (ss_num_bits s) len
              in do { r2 \<leftarrow> (if len \<ge> sector_size s
                            then Frag_ReadSect disk s ff (drop_bit (ss_num_bits s - 2) woffset) len_sec
                            else Some (Inr []));
                      case r2 of
                        Inl e \<Rightarrow> Some (Inl e)
                      | Inr d2 \<Rightarrow>
                          let (woffset', len') =
                                (if len \<ge> sector_size s
                                 then (woffset + push_bit (ss_num_bits s - 2) len_sec,
                                       len - push_bit (ss_num_bits s) len_sec)
                                 else (woffset, len))
                          in do { r3 \<leftarrow> (if len' \<noteq> 0 then Frag_ReadPartial disk s ff woffset' len'
                                        else Some (Inr []));
                                  case r3 of
                                    Inl e \<Rightarrow> Some (Inl e)
                                  | Inr d3 \<Rightarrow>
                                      Some (if len' - of_nat (length d3) \<noteq> 0 then Inl (-5)
                                            else Inr (d1 @ d2 @ d3)) } } }"

section \<open>Set-up\<close>

definition Frag_Close :: "frag_state \<Rightarrow> frag_state" where
  "Frag_Close s = s\<lparr> frag_inited := False, frag_list := None, frag_dev := 0, sector_buf := False \<rparr>"

text \<open>
  \<open>init_ok\<close>, \<open>usb_sector_size\<close> and \<open>alloc_ok\<close> are what the drivers and the allocator answer.
  The size is compared as an unsigned number, so a negative one is too large.
\<close>

definition Frag_Init ::
  "(u32 \<Rightarrow> bool) \<Rightarrow> u32 \<Rightarrow> bool \<Rightarrow> u32 \<Rightarrow> bytes \<Rightarrow> s32 \<Rightarrow> frag_state \<Rightarrow> (s32 \<times> frag_state) option"
where
  "Frag_Init init_ok usb_sector_size alloc_ok device fraglist sz s0 =
     (let s = (if frag_inited s0 then Frag_Close s0 else s0) in
      if device \<noteq> DEV_USB \<and> device \<noteq> DEV_SDHC then Some (-1, s)
      else if sz = 0 then Some (-2, s)
      else if sz < 0 \<or> sz > int sizeof_FragList then Some (-3, s)
      else if \<not> init_ok device then Some (-4, s)
      else
        let ss = (if device = DEV_SDHC then 512 else usb_sector_size);
            s1 = s\<lparr> sector_size := ss, ss_num_bits := Frag_GetNumBits (ss - 1) \<rparr>
        in if \<not> alloc_ok then Some (-5, s1\<lparr> sector_buf := False \<rparr>)
           else let ff = dec_FragList (take (nat sz) fraglist) in
             do { idx \<leftarrow> Frag_OptimizeList ff;
                  Some (0, s1\<lparr> sector_buf := True, frag_dev := device, frag_list := Some ff,
                               frag_idx := idx, frag_inited := True \<rparr>) })"

section \<open>The image a fragment list describes\<close>

definition fr_start :: "Fragment \<Rightarrow> nat" where "fr_start f = unat (fr_offset f)"
definition fr_end :: "Fragment \<Rightarrow> nat" where "fr_end f = unat (fr_offset f) + unat (fr_count f)"

text \<open>A list as the loader writes it: fragments in image order, disjoint, inside the image.\<close>

definition frag_wf :: "FragList \<Rightarrow> bool" where
  "frag_wf ff \<longleftrightarrow> 0 < unat (fl_num ff) \<and> unat (fl_num ff) \<le> length (fl_frag ff) \<and>
     (\<forall>i < unat (fl_num ff). fr_end (fl_frag ff ! i) \<le> unat (fl_size ff)
        \<and> unat (fr_sector (fl_frag ff ! i)) + unat (fr_count (fl_frag ff ! i)) < 4294967296) \<and>
     (\<forall>j < unat (fl_num ff). \<forall>i < j. fr_end (fl_frag ff ! i) \<le> fr_start (fl_frag ff ! j))"

text \<open>Drive sector of an image sector; \<open>None\<close> in a gap.\<close>

definition sector_of :: "FragList \<Rightarrow> nat \<Rightarrow> nat option" where
  "sector_of ff t =
     map_option (\<lambda>f. unat (fr_sector f) + (t - fr_start f))
       (find (\<lambda>f. fr_start f \<le> t \<and> t < fr_end f) (take (unat (fl_num ff)) (fl_frag ff)))"

definition image_sector :: "(nat \<Rightarrow> bytes) \<Rightarrow> nat \<Rightarrow> FragList \<Rightarrow> nat \<Rightarrow> bytes" where
  "image_sector dsect ss ff t =
     (case sector_of ff t of Some d \<Rightarrow> dsect d | None \<Rightarrow> replicate ss 0)"

text \<open>The drive returns the sectors it is asked for.\<close>

definition disk_ok :: "frag_disk \<Rightarrow> u32 \<Rightarrow> (nat \<Rightarrow> bytes) \<Rightarrow> nat \<Rightarrow> bool" where
  "disk_ok disk dev dsect ss \<longleftrightarrow> (\<forall>t. length (dsect t) = ss) \<and>
     (\<forall>sec cnt. disk dev sec cnt = Some (concat (map dsect [unat sec..<unat sec + unat cnt])))"

lemma frag_wfD:
  assumes "frag_wf ff" and "i < unat (fl_num ff)"
  shows "rd (fl_frag ff) i = Some (fl_frag ff ! i)"
    and "fr_end (fl_frag ff ! i) \<le> unat (fl_size ff)"
    and "i < j \<Longrightarrow> j < unat (fl_num ff) \<Longrightarrow> fr_end (fl_frag ff ! i) \<le> fr_start (fl_frag ff ! j)"
    and "unat (fr_offset (fl_frag ff ! i) + fr_count (fl_frag ff ! i)) = fr_end (fl_frag ff ! i)"
    and "unat (fr_sector (fl_frag ff ! i)) + unat (fr_count (fl_frag ff ! i)) < 4294967296"
proof -
  show "rd (fl_frag ff) i = Some (fl_frag ff ! i)" using assms by (simp add: frag_wf_def)
  show e: "fr_end (fl_frag ff ! i) \<le> unat (fl_size ff)" using assms by (simp add: frag_wf_def)
  show "i < j \<Longrightarrow> j < unat (fl_num ff) \<Longrightarrow> fr_end (fl_frag ff ! i) \<le> fr_start (fl_frag ff ! j)"
    using assms by (simp add: frag_wf_def)
  have "unat (fl_size ff) < 4294967296" by (rule u32_less)
  then show "unat (fr_offset (fl_frag ff ! i) + fr_count (fl_frag ff ! i)) = fr_end (fl_frag ff ! i)"
    using e unfolding fr_end_def by (intro unat_u32_add) linarith
  show "unat (fr_sector (fl_frag ff ! i)) + unat (fr_count (fl_frag ff ! i)) < 4294967296"
    using assms by (simp add: frag_wf_def)
qed

lemma sector_of_covered:
  assumes wf: "frag_wf ff" and i: "i < unat (fl_num ff)"
    and t: "fr_start (fl_frag ff ! i) \<le> t" "t < fr_end (fl_frag ff ! i)"
  shows "sector_of ff t = Some (unat (fr_sector (fl_frag ff ! i)) + (t - fr_start (fl_frag ff ! i)))"
proof -
  let ?P = "\<lambda>f. fr_start f \<le> t \<and> t < fr_end f" and ?n = "unat (fl_num ff)"
  have n: "?n \<le> length (fl_frag ff)" using wf by (simp add: frag_wf_def)
  have "\<not> ?P (fl_frag ff ! j)" if "j < i" for j
    using frag_wfD(3) [OF wf _ that i] that i t by auto
  then have "find ?P (take ?n (fl_frag ff)) = Some (fl_frag ff ! i)"
    using i t n by (subst find_Some_iff) (auto intro!: exI [of _ i])
  then show ?thesis by (simp add: sector_of_def)
qed

lemma sector_of_gap:
  assumes "frag_wf ff" and "\<And>i. i < unat (fl_num ff) \<Longrightarrow> t < fr_start (fl_frag ff ! i) \<or> fr_end (fl_frag ff ! i) \<le> t"
  shows "sector_of ff t = None"
proof -
  have "unat (fl_num ff) \<le> length (fl_frag ff)" using assms(1) by (simp add: frag_wf_def)
  then have "find (\<lambda>f. fr_start f \<le> t \<and> t < fr_end f) (take (unat (fl_num ff)) (fl_frag ff)) = None"
    using assms(2) by (auto simp: find_None_iff in_set_conv_nth) (metis not_less)
  then show ?thesis by (simp add: sector_of_def)
qed

section \<open>A lookup describes the image\<close>

text \<open>What a lookup result says of the image, for the request at \<open>offset\<close>.\<close>

definition lookup_ok :: "FragList \<Rightarrow> nat \<Rightarrow> nat \<Rightarrow> u32 \<times> u32 \<times> u32 \<Rightarrow> bool" where
  "lookup_ok ff offset count r \<longleftrightarrow>
     (case r of (po, ps, pc) \<Rightarrow>
        offset \<le> unat po \<and> unat po + unat pc \<le> offset + count \<and> offset < unat po + unat pc \<and>
        unat ps + unat pc < 4294967296 \<and>
        (\<forall>t. offset \<le> t \<and> t < unat po \<longrightarrow> sector_of ff t = None) \<and>
        (\<forall>k < unat pc. sector_of ff (unat po + k) = Some (unat ps + k)))"

lemma frag_scan_ok:
  assumes wf: "frag_wf ff" and nowrap: "unat offset + unat count < 4294967296" and pos: "0 < unat count"
  shows "i + n = unat (fl_num ff) \<Longrightarrow> \<forall>j < i. fr_end (fl_frag ff ! j) \<le> unat offset \<or> unat offset + unat count \<le> fr_start (fl_frag ff ! j) \<Longrightarrow>
    \<exists>r. frag_scan ff i n offset count = Some r \<and>
      (case r of Some t \<Rightarrow> lookup_ok ff (unat offset) (unat count) t
       | None \<Rightarrow> \<forall>t. unat offset \<le> t \<and> t < unat offset + unat count \<longrightarrow> sector_of ff t = None)"
proof (induction n arbitrary: i)
  case 0
  have "sector_of ff t = None" if "unat offset \<le> t" "t < unat offset + unat count" for t
  proof (rule sector_of_gap [OF wf])
    fix j assume "j < unat (fl_num ff)"
    then have "fr_end (fl_frag ff ! j) \<le> unat offset \<or> unat offset + unat count \<le> fr_start (fl_frag ff ! j)"
      using 0 by simp
    then show "t < fr_start (fl_frag ff ! j) \<or> fr_end (fl_frag ff ! j) \<le> t" using that by linarith
  qed
  then show ?case by simp
next
  case (Suc n)
  let ?f = "fl_frag ff ! i"
  have i: "i < unat (fl_num ff)" using Suc.prems(1) by simp
  note F = frag_wfD [OF wf i]
  have sum: "unat (offset + count) = unat offset + unat count" by (rule unat_u32_add [OF nowrap])
  have c1: "fr_offset ?f \<le> offset \<longleftrightarrow> fr_start ?f \<le> unat offset" by (simp add: word_le_nat_alt fr_start_def)
  have c2: "fr_offset ?f + fr_count ?f > offset \<longleftrightarrow> unat offset < fr_end ?f"
    by (simp add: word_less_nat_alt F(4))
  have c3: "fr_offset ?f < offset + count \<longleftrightarrow> fr_start ?f < unat offset + unat count"
    by (simp add: word_less_nat_alt sum fr_start_def)
  show ?case
  proof (cases "fr_start ?f \<le> unat offset \<and> unat offset < fr_end ?f")
    case True
    define d where "d = offset - fr_offset ?f"
    have d: "unat d = unat offset - fr_start ?f"
      using True c1 unfolding d_def fr_start_def by (intro u32_minus_less) simp
    have dc: "unat d < unat (fr_count ?f)" using True d unfolding fr_end_def fr_start_def by linarith
    have cd: "unat (fr_count ?f - d) = unat (fr_count ?f) - unat d" using dc by (simp add: unat_u32_sub)
    have sd: "unat (fr_sector ?f + d) = unat (fr_sector ?f) + unat d"
      using F(5) dc by (intro unat_u32_add) linarith
    let ?c = "min (fr_count ?f - d) count"
    have c: "unat ?c = min (unat (fr_count ?f) - unat d) (unat count)"
      using cd by (simp add: min_def word_le_nat_alt)
    have "sector_of ff (unat offset + k) = Some (unat (fr_sector ?f + d) + k)" if "k < unat ?c" for k
    proof -
      have "unat offset + k < fr_end ?f" using that True d c unfolding fr_end_def fr_start_def by linarith
      then show ?thesis using sector_of_covered [OF wf i, of "unat offset + k"] True d sd by simp
    qed
    then have "lookup_ok ff (unat offset) (unat count) (offset, fr_sector ?f + d, ?c)"
      using c dc pos sd F(5) by (auto simp: lookup_ok_def)
    moreover have "frag_scan ff i (Suc n) offset count = Some (Some (offset, fr_sector ?f + d, ?c))"
      using True F(1) c1 c2 by (simp add: Let_def d_def)
    ultimately show ?thesis by simp
  next
    case no_cover: False
    show ?thesis
    proof (cases "unat offset < fr_start ?f \<and> fr_start ?f < unat offset + unat count")
      case True
      define d where "d = fr_offset ?f - offset"
      have d: "unat d = fr_start ?f - unat offset"
        using True unfolding d_def fr_start_def by (intro u32_minus_less) (simp add: word_le_nat_alt)
      have cd: "unat (count - d) = unat count - unat d" using True d by (intro unat_u32_sub) linarith
      let ?c = "min (fr_count ?f) (count - d)"
      have c: "unat ?c = min (unat (fr_count ?f)) (unat count - unat d)"
        using cd by (simp add: min_def word_le_nat_alt)
      have gap: "sector_of ff t = None" if "unat offset \<le> t" "t < fr_start ?f" for t
      proof (rule sector_of_gap [OF wf])
        fix j assume j: "j < unat (fl_num ff)"
        have se: "fr_start ?f \<le> fr_end ?f" by (simp add: fr_end_def fr_start_def)
        consider "j < i" | "j = i" | "i < j" by linarith
        then show "t < fr_start (fl_frag ff ! j) \<or> fr_end (fl_frag ff ! j) \<le> t"
        proof cases
          case 1
          then have "fr_end (fl_frag ff ! j) \<le> unat offset \<or> unat offset + unat count \<le> fr_start (fl_frag ff ! j)"
            using Suc.prems(2) by simp
          then show ?thesis using that True by linarith
        next
          case 3
          then show ?thesis using F(3) [OF 3 j] that se by linarith
        qed (use that in simp)
      qed
      have cov: "sector_of ff (unat (fr_offset ?f) + k) = Some (unat (fr_sector ?f) + k)" if "k < unat ?c" for k
        using sector_of_covered [OF wf i, of "fr_start ?f + k"] that c by (simp add: fr_end_def fr_start_def)
      have "unat (fr_sector ?f) + unat ?c < 4294967296" using F(5) c by linarith
      then have "lookup_ok ff (unat offset) (unat count) (fr_offset ?f, fr_sector ?f, ?c)"
        using True gap cov c d by (auto simp: lookup_ok_def fr_start_def)
      moreover have "\<not> fr_offset ?f \<le> offset" "fr_offset ?f > offset" "fr_offset ?f < offset + count"
        using True c1 c3 by (simp_all add: word_less_nat_alt fr_start_def)
      then have "frag_scan ff i (Suc n) offset count = Some (Some (fr_offset ?f, fr_sector ?f, ?c))"
        using F(1) by (simp add: Let_def d_def)
      ultimately show ?thesis by simp
    next
      case False
      have step: "frag_scan ff i (Suc n) offset count = frag_scan ff (Suc i) n offset count"
        using False no_cover F(1) c1 c2 c3 by (auto simp: not_le word_less_nat_alt fr_start_def)
      show ?thesis
        using False no_cover Suc.prems(2) Suc.IH [of "Suc i"] Suc.prems(1)
        unfolding step by (auto simp: less_Suc_eq)
    qed
  qed
qed

section \<open>The index is sound\<close>

definition idx_ok :: "nat list \<Rightarrow> FragList \<Rightarrow> bool" where
  "idx_ok idxs ff \<longleftrightarrow> length idxs = MAX_IDX \<and>
     (\<forall>i < MAX_IDX. idxs ! i \<le> unat (fl_num ff) \<and>
        (\<forall>j < idxs ! i. fr_end (fl_frag ff ! j) \<le> i * 32768))"

lemma idx_advance_ok:
  assumes wf: "frag_wf ff"
  shows "idx < unat (fl_num ff) \<Longrightarrow> unat (fl_num ff) - idx < fuel \<Longrightarrow>
    \<forall>j < idx. fr_end (fl_frag ff ! j) \<le> unat off \<Longrightarrow>
    \<exists>k. idx_advance ff off idx fuel = Some k \<and> idx \<le> k \<and> k < unat (fl_num ff)
      \<and> (\<forall>j < k. fr_end (fl_frag ff ! j) \<le> unat off)"
proof (induction fuel arbitrary: idx)
  case (Suc fuel)
  note F = frag_wfD [OF wf Suc.prems(1)]
  show ?case
  proof (cases "off \<ge> fr_offset (fl_frag ff ! idx) + fr_count (fl_frag ff ! idx) \<and> idx + 1 < unat (fl_num ff)")
    case True
    have fu: "unat (fl_num ff) - Suc idx < fuel" using Suc.prems True by linarith
    have "fr_end (fl_frag ff ! idx) \<le> unat off" using F(4) True by (simp add: word_le_nat_alt)
    then have "\<forall>j < Suc idx. fr_end (fl_frag ff ! j) \<le> unat off" using Suc.prems(3) less_Suc_eq by auto
    then obtain k where "idx_advance ff off (Suc idx) fuel = Some k" "Suc idx \<le> k" "k < unat (fl_num ff)"
      "\<forall>j < k. fr_end (fl_frag ff ! j) \<le> unat off"
      using Suc.IH [of "Suc idx", OF _ fu] True by auto
    then show ?thesis using True F(1) by auto
  next
    case False
    then show ?thesis using F(1) Suc.prems by (auto simp: not_le)
  qed
qed simp

lemma idx_build_ok:
  assumes wf: "frag_wf ff"
  shows "idx < unat (fl_num ff) \<Longrightarrow> i + n \<le> MAX_IDX \<Longrightarrow>
    \<forall>j < idx. fr_end (fl_frag ff ! j) \<le> i * 32768 \<Longrightarrow>
    \<exists>ks. idx_build ff i n idx = Some ks \<and> length ks = n \<and>
      (\<forall>m < n. ks ! m \<le> unat (fl_num ff) \<and> (\<forall>j < ks ! m. fr_end (fl_frag ff ! j) \<le> (i + m) * 32768))"
proof (induction n arbitrary: i idx)
  case (Suc n)
  have off: "unat (push_bit IDX_SHIFT (of_nat i :: u32)) = i * 32768"
    using Suc.prems(2) by (simp add: push_bit_eq_mult unat_word_ariths unat_of_nat)
  obtain k where k: "idx_advance ff (push_bit IDX_SHIFT (of_nat i)) idx (Suc (unat (fl_num ff))) = Some k"
    "k < unat (fl_num ff)" "\<forall>j < k. fr_end (fl_frag ff ! j) \<le> i * 32768"
    using idx_advance_ok [OF wf Suc.prems(1), of "Suc (unat (fl_num ff))" "push_bit IDX_SHIFT (of_nat i)"]
      Suc.prems(3) by (auto simp: off less_Suc_eq_le simp del: idx_advance.simps)
  have "\<forall>j < k. fr_end (fl_frag ff ! j) \<le> Suc i * 32768" using k(3) by auto
  then obtain ks where ks: "idx_build ff (Suc i) n k = Some ks" "length ks = n"
    "\<forall>m < n. ks ! m \<le> unat (fl_num ff) \<and> (\<forall>j < ks ! m. fr_end (fl_frag ff ! j) \<le> (Suc i + m) * 32768)"
    using Suc.IH [OF k(2), of "Suc i"] Suc.prems(2) by auto
  have "(k # ks) ! m \<le> unat (fl_num ff) \<and> (\<forall>j < (k # ks) ! m. fr_end (fl_frag ff ! j) \<le> (i + m) * 32768)"
    if "m < Suc n" for m
    using that k ks(3) by (cases m) auto
  then show ?case using k(1) ks(1,2) by auto
qed simp

lemma Frag_OptimizeList_ok:
  assumes "frag_wf ff"
  shows "\<exists>idxs. Frag_OptimizeList ff = Some idxs \<and> idx_ok idxs ff"
  using idx_build_ok [OF assms, of 0 0 MAX_IDX] assms
  by (auto simp: Frag_OptimizeList_def idx_ok_def frag_wf_def)

section \<open>Sector reads return the image\<close>

lemma Frag_Get_ok:
  assumes wf: "frag_wf ff" and ix: "idx_ok idxs ff" and pos: "0 < unat count"
    and fit: "unat offset + unat count \<le> unat (fl_size ff)" and lim: "unat offset < MAX_IDX * 32768"
  shows "\<exists>r. Frag_Get idxs ff offset count = Some (Inr r) \<and> lookup_ok ff (unat offset) (unat count) r"
proof -
  have nowrap: "unat offset + unat count < 4294967296" using fit u32_less [of "fl_size ff"] by linarith
  have sum: "unat (offset + count) = unat offset + unat count" by (rule unat_u32_add [OF nowrap])
  let ?io = "unat (drop_bit IDX_SHIFT offset)"
  have io: "?io = unat offset div 32768" by (simp add: drop_bit_eq_div unat_div)
  then have iol: "?io < MAX_IDX" using lim by (simp add: less_mult_imp_div_less)
  then have rd: "rd idxs ?io = Some (idxs ! ?io)" using ix by (simp add: idx_ok_def)
  have le: "idxs ! ?io \<le> unat (fl_num ff)" "\<forall>j < idxs ! ?io. fr_end (fl_frag ff ! j) \<le> ?io * 32768"
    using ix iol by (simp_all add: idx_ok_def)
  have "?io * 32768 \<le> unat offset" by (simp add: io)
  then have "\<forall>j < idxs ! ?io. fr_end (fl_frag ff ! j) \<le> unat offset \<or> unat offset + unat count \<le> fr_start (fl_frag ff ! j)"
    using le(2) by (meson order_trans)
  then obtain r where r: "frag_scan ff (idxs ! ?io) (unat (fl_num ff) - idxs ! ?io) offset count = Some r"
    "case r of Some t \<Rightarrow> lookup_ok ff (unat offset) (unat count) t
       | None \<Rightarrow> \<forall>t. unat offset \<le> t \<and> t < unat offset + unat count \<longrightarrow> sector_of ff t = None"
    using frag_scan_ok [OF wf nowrap pos, of "idxs ! ?io" "unat (fl_num ff) - idxs ! ?io"] le(1) by auto
  show ?thesis
  proof (cases r)
    case None
    then have "lookup_ok ff (unat offset) (unat count) (offset + count, 0, 0)"
      using r(2) sum pos by (simp add: lookup_ok_def)
    moreover have "\<not> offset + count > fl_size ff" using fit sum by (simp add: word_less_nat_alt)
    ultimately show ?thesis using None r(1) rd iol by (simp add: Frag_Get_def Let_def)
  next
    case (Some t)
    then show ?thesis using r rd iol by (simp add: Frag_Get_def Let_def)
  qed
qed

definition reader_ok :: "frag_disk \<Rightarrow> frag_state \<Rightarrow> FragList \<Rightarrow> (nat \<Rightarrow> bytes) \<Rightarrow> bool" where
  "reader_ok disk s ff dsect \<longleftrightarrow> frag_wf ff \<and> idx_ok (frag_idx s) ff \<and>
     unat (sector_size s) = 2 ^ ss_num_bits s \<and> 2 \<le> ss_num_bits s \<and> ss_num_bits s < 32 \<and>
     disk_ok disk (frag_dev s) dsect (2 ^ ss_num_bits s)"

definition image_bytes :: "(nat \<Rightarrow> bytes) \<Rightarrow> nat \<Rightarrow> FragList \<Rightarrow> nat \<Rightarrow> nat \<Rightarrow> bytes" where
  "image_bytes dsect ss ff t n = concat (map (image_sector dsect ss ff) [t..<t + n])"

lemma image_bytes_append:
  "image_bytes dsect ss ff t (m + n) = image_bytes dsect ss ff t m @ image_bytes dsect ss ff (t + m) n"
proof -
  have "[t..<t + (m + n)] = [t..<t + m] @ [t + m..<t + m + n]"
    by (metis add.assoc le_add1 upt_add_eq_append)
  then show ?thesis by (simp add: image_bytes_def)
qed

lemma image_bytes_gap:
  "(\<And>k. k < n \<Longrightarrow> sector_of ff (t + k) = None) \<Longrightarrow> image_bytes dsect ss ff t n = replicate (n * ss) 0"
proof (induction n)
  case (Suc n)
  then have "image_bytes dsect ss ff t n = replicate (n * ss) 0" by simp
  then show ?case using Suc.prems [of n]
    by (simp add: image_bytes_def image_sector_def add.commute [of ss] replicate_add)
qed (simp add: image_bytes_def)

lemma image_bytes_frag:
  assumes "\<And>k. k < n \<Longrightarrow> sector_of ff (t + k) = Some (d + k)"
  shows "image_bytes dsect ss ff t n = concat (map dsect [d..<d + n])"
  using assms by (induction n) (simp_all add: image_bytes_def image_sector_def)

lemma Frag_ReadSect_ok:
  assumes rdr: "reader_ok disk s ff dsect"
  shows "unat offset + unat len \<le> unat (fl_size ff) \<Longrightarrow> unat offset + unat len \<le> MAX_IDX * 32768 \<Longrightarrow>
    unat len * 2 ^ ss_num_bits s < 4294967296 \<Longrightarrow>
    Frag_ReadSect disk s ff offset len
      = Some (Inr (image_bytes dsect (2 ^ ss_num_bits s) ff (unat offset) (unat len)))"
proof (induction "unat len" arbitrary: offset len rule: less_induct)
  case less
  let ?ss = "2 ^ ss_num_bits s :: nat"
  let ?img = "image_bytes dsect ?ss ff"
  have wf: "frag_wf ff" and ix: "idx_ok (frag_idx s) ff" and dk: "disk_ok disk (frag_dev s) dsect ?ss"
    using rdr by (simp_all add: reader_ok_def)
  show ?case
  proof (cases "len = 0")
    case True
    then show ?thesis by (simp add: Frag_ReadSect.simps [of disk s ff offset 0] image_bytes_def)
  next
    case False
    then have pos: "0 < unat len" by (simp add: unat_gt_0)
    obtain po ps pc where g: "Frag_Get (frag_idx s) ff offset len = Some (Inr (po, ps, pc))"
      and l: "lookup_ok ff (unat offset) (unat len) (po, ps, pc)"
    proof -
      have "unat offset < MAX_IDX * 32768" using less.prems(2) pos by linarith
      from Frag_Get_ok [OF wf ix pos less.prems(1) this] that show thesis by (metis prod_cases3)
    qed
    define d where "d = po - offset"
    have d: "unat d = unat po - unat offset"
      using l unfolding d_def lookup_ok_def by (intro u32_minus_less) (simp add: word_le_nat_alt)
    have b: "unat d + unat pc \<le> unat len" "0 < unat d + unat pc" "unat offset + unat d = unat po"
      using l d by (auto simp: lookup_ok_def)
    have len: "unat len < 4294967296" by (rule u32_less)
    have dc: "unat (d + pc) = unat d + unat pc" using b len by (intro unat_u32_add) linarith
    then have nz: "d + pc \<noteq> 0" using b(2) by (metis unat_0 less_irrefl)
    have rest: "unat (len - d - pc) = unat len - unat d - unat pc"
      using Frag_Get_progress(2) [OF g] nz by (simp add: d_def)
    have "unat offset + unat len < 4294967296" using less.prems(1) u32_less [of "fl_size ff"] by linarith
    then have off: "unat (offset + d + pc) = unat offset + unat d + unat pc"
      using b by (subst unat_u32_add; subst unat_u32_add; simp)+
    have ih: "Frag_ReadSect disk s ff (offset + d + pc) (len - d - pc)
        = Some (Inr (?img (unat offset + unat d + unat pc) (unat len - unat d - unat pc)))"
    proof -
      have "(unat len - unat d - unat pc) * ?ss \<le> unat len * ?ss" by (intro mult_le_mono1) simp
      then have "(unat len - unat d - unat pc) * ?ss < 4294967296" using less.prems(3) by linarith
      moreover have "unat len - unat d - unat pc < unat len"
        "unat offset + unat d + unat pc + (unat len - unat d - unat pc) \<le> unat (fl_size ff)"
        "unat offset + unat d + unat pc + (unat len - unat d - unat pc) \<le> MAX_IDX * 32768"
        using less.prems b(1,2) pos by linarith+
      ultimately show ?thesis using less.hyps [of "len - d - pc" "offset + d + pc"] unfolding rest off by blast
    qed
    have "unat d * ?ss \<le> unat len * ?ss" using b by (intro mult_le_mono1) simp
    then have "unat (push_bit (ss_num_bits s) d) = unat d * ?ss"
      using less.prems(3) by (intro unat_push_bit_u32) linarith
    moreover have "?img (unat offset) (unat d) = replicate (unat d * ?ss) 0"
      using l b(3) by (intro image_bytes_gap) (simp add: lookup_ok_def)
    moreover have "(if pc \<noteq> 0 then disk (frag_dev s) ps pc else Some [])
        = Some (?img (unat offset + unat d) (unat pc))"
    proof -
      have "?img (unat offset + unat d) (unat pc) = concat (map dsect [unat ps..<unat ps + unat pc])"
        using l b(3) by (intro image_bytes_frag) (simp add: lookup_ok_def)
      then show ?thesis using dk by (auto simp: disk_ok_def)
    qed
    moreover have "?img (unat offset) (unat len) = ?img (unat offset) (unat d)
        @ ?img (unat offset + unat d) (unat pc)
        @ ?img (unat offset + unat d + unat pc) (unat len - unat d - unat pc)"
      using image_bytes_append [of dsect ?ss ff "unat offset" "unat d" "unat len - unat d"]
        image_bytes_append [of dsect ?ss ff "unat offset + unat d" "unat pc" "unat len - unat d - unat pc"] b
      by simp
    ultimately show ?thesis
      using False g ih nz by (simp add: Frag_ReadSect.simps [of disk s ff offset len] Let_def flip: d_def)
  qed
qed

section \<open>Byte reads return the image\<close>

definition disc_image :: "(nat \<Rightarrow> bytes) \<Rightarrow> nat \<Rightarrow> FragList \<Rightarrow> bytes" where
  "disc_image dsect ss ff = image_bytes dsect ss ff 0 (unat (fl_size ff))"

lemma length_image_bytes:
  "(\<And>t. length (dsect t) = ss) \<Longrightarrow> length (image_bytes dsect ss ff t n) = n * ss"
proof (induction n)
  case (Suc n)
  moreover have "length (image_sector dsect ss ff (t + n)) = ss"
    using Suc.prems by (simp add: image_sector_def split: option.split)
  ultimately show ?case by (simp add: image_bytes_def)
qed (simp add: image_bytes_def)

lemma image_bytes_sub:
  assumes "\<And>t. length (dsect t) = ss" and "t + n \<le> unat (fl_size ff)"
  shows "image_bytes dsect ss ff t n = take (n * ss) (drop (t * ss) (disc_image dsect ss ff))"
proof -
  have "disc_image dsect ss ff = image_bytes dsect ss ff 0 t @ image_bytes dsect ss ff t n
      @ image_bytes dsect ss ff (t + n) (unat (fl_size ff) - t - n)"
    using image_bytes_append [of dsect ss ff 0 t "unat (fl_size ff) - t"]
      image_bytes_append [of dsect ss ff t n "unat (fl_size ff) - t - n"] assms(2)
    by (simp add: disc_image_def)
  then show ?thesis using length_image_bytes [OF assms(1)] by simp
qed

text \<open>How many bytes a partial read moves.\<close>

definition partial_len :: "nat \<Rightarrow> nat \<Rightarrow> nat \<Rightarrow> nat" where
  "partial_len ss b n = (let r = min (ss - b mod ss) n in if r = ss then 0 else r)"

lemma reader_okD:
  assumes "reader_ok disk s ff dsect"
  shows "length (dsect t) = 2 ^ ss_num_bits s" "unat (sector_size s) = 2 ^ ss_num_bits s"
    "2 \<le> ss_num_bits s" "2 ^ ss_num_bits s < (4294967296 :: nat)"
    "(2 :: nat) ^ ss_num_bits s = 4 * 2 ^ (ss_num_bits s - 2)"
proof -
  show "length (dsect t) = 2 ^ ss_num_bits s" "unat (sector_size s) = 2 ^ ss_num_bits s" "2 \<le> ss_num_bits s"
    using assms by (simp_all add: reader_ok_def disk_ok_def)
  show "2 ^ ss_num_bits s < (4294967296 :: nat)"
    using assms u32_less [of "sector_size s"] by (simp add: reader_ok_def)
  have "2 \<le> ss_num_bits s" using assms by (simp add: reader_ok_def)
  then have "ss_num_bits s = 2 + (ss_num_bits s - 2)" by linarith
  then show "(2 :: nat) ^ ss_num_bits s = 4 * 2 ^ (ss_num_bits s - 2)"
    by (metis power_add power2_eq_square mult_2 numeral_Bit0 numeral_One one_add_one)
qed

lemma partial_mod:
  assumes "reader_ok disk s ff dsect"
  shows "unat (push_bit 2 (w AND drop_bit 2 (sector_size s - 1))) = 4 * unat w mod 2 ^ ss_num_bits s"
    and "unat (drop_bit (ss_num_bits s - 2) w) = 4 * unat w div 2 ^ ss_num_bits s"
proof -
  note D = reader_okD [OF assms]
  let ?k = "ss_num_bits s - 2"
  have ss1: "unat (sector_size s - 1) = 2 ^ ss_num_bits s - 1"
    using D(2) by (subst unat_u32_sub) simp_all
  have "unat (drop_bit 2 (sector_size s - 1)) = (2 ^ ss_num_bits s - 1) div 4"
    by (simp add: drop_bit_eq_div unat_div ss1)
  also have "\<dots> = 2 ^ ?k - 1" unfolding D(5) by (cases "2 ^ ?k :: nat") simp_all
  finally have m: "unat (drop_bit 2 (sector_size s - 1)) = mask ?k" by (simp add: mask_eq_exp_minus_1)
  have "unat (w AND drop_bit 2 (sector_size s - 1)) = unat w AND mask ?k"
    by (simp add: unsigned_and_eq m)
  then have a: "unat (w AND drop_bit 2 (sector_size s - 1)) = unat w mod 2 ^ ?k"
    by (simp add: take_bit_eq_mask [symmetric] take_bit_eq_mod)
  have "unat w mod 2 ^ ?k * 2 ^ 2 < 4294967296"
  proof -
    have "unat w mod 2 ^ ?k < 2 ^ ?k" by simp
    then have "unat w mod 2 ^ ?k * 4 < 4294967296" using D(4) unfolding D(5) by linarith
    then show ?thesis by simp
  qed
  then show "unat (push_bit 2 (w AND drop_bit 2 (sector_size s - 1))) = 4 * unat w mod 2 ^ ss_num_bits s"
    using unat_push_bit_u32 [of "w AND drop_bit 2 (sector_size s - 1)" 2] mult_mod_right [of 4 "unat w" "2 ^ ?k"]
    unfolding D(5) a by simp
  show "unat (drop_bit ?k w) = 4 * unat w div 2 ^ ss_num_bits s"
    unfolding D(5) unat_drop_bit_u32 by simp
qed

lemma Frag_ReadPartial_ok:
  assumes rdr: "reader_ok disk s ff dsect"
    and fit: "4 * unat w + unat len \<le> unat (fl_size ff) * 2 ^ ss_num_bits s"
    and lim: "unat (fl_size ff) \<le> MAX_IDX * 32768"
  shows "Frag_ReadPartial disk s ff w len = Some (Inr
    (take (partial_len (2 ^ ss_num_bits s) (4 * unat w) (unat len))
       (drop (4 * unat w) (disc_image dsect (2 ^ ss_num_bits s) ff))))"
proof -
  note D = reader_okD [OF rdr] and M = partial_mod [OF rdr, of w]
  let ?ss = "2 ^ ss_num_bits s :: nat"
  let ?b = "4 * unat w" and ?img = "disc_image dsect ?ss ff"
  let ?md = "push_bit 2 (w AND drop_bit 2 (sector_size s - 1))"
  define rlen where "rlen = (if min (sector_size s - ?md) len = sector_size s then 0
    else min (sector_size s - ?md) len)"
  have lt: "?b mod ?ss < ?ss" by simp
  have sub: "unat (sector_size s - ?md) = ?ss - ?b mod ?ss"
    using lt M(1) D(2) by (subst unat_u32_sub) (simp_all)
  have mn: "unat (min (sector_size s - ?md) len) = min (?ss - ?b mod ?ss) (unat len)"
    using sub by (simp add: min_def word_le_nat_alt)
  have rl: "unat rlen = partial_len ?ss ?b (unat len)"
  proof -
    have "min (sector_size s - ?md) len = sector_size s \<longleftrightarrow> min (?ss - ?b mod ?ss) (unat len) = ?ss"
      using mn D(2) by (metis unsigned_word_eqI)
    then show ?thesis using mn by (simp add: rlen_def partial_len_def Let_def)
  qed
  show ?thesis
  proof (cases "rlen = 0")
    case True
    then have "partial_len ?ss ?b (unat len) = 0" using rl by simp
    then show ?thesis using True unfolding Frag_ReadPartial_def Let_def rlen_def [symmetric] by simp
  next
    case False
    then have pos: "0 < partial_len ?ss ?b (unat len)" using rl by (simp add: unat_gt_0 flip: rl)
    have pl: "partial_len ?ss ?b (unat len) \<le> ?ss - ?b mod ?ss" "partial_len ?ss ?b (unat len) \<le> unat len"
      by (simp_all add: partial_len_def Let_def min_def)
    have "?b < unat (fl_size ff) * ?ss" using fit pos pl(2) by linarith
    then have o: "?b div ?ss + 1 \<le> unat (fl_size ff)" by (simp add: less_mult_imp_div_less Suc_leI)
    have "Frag_ReadSect disk s ff (drop_bit (ss_num_bits s - 2) w) 1
        = Some (Inr (image_bytes dsect ?ss ff (?b div ?ss) 1))"
      using Frag_ReadSect_ok [OF rdr, of "drop_bit (ss_num_bits s - 2) w" 1] o lim M(2) D(4) by simp
    also have "image_bytes dsect ?ss ff (?b div ?ss) 1 = take ?ss (drop (?b div ?ss * ?ss) ?img)"
      using image_bytes_sub [OF D(1) o] by simp
    finally have rs: "Frag_ReadSect disk s ff (drop_bit (ss_num_bits s - 2) w) 1
        = Some (Inr (take ?ss (drop (?b div ?ss * ?ss) ?img)))" .
    have split: "?b div ?ss * ?ss + ?b mod ?ss = ?b" by (rule div_mult_mod_eq)
    have "take (unat rlen) (drop (unat ?md) (take ?ss (drop (?b div ?ss * ?ss) ?img)))
        = take (partial_len ?ss ?b (unat len)) (drop ?b ?img)"
      unfolding M(1) rl using pl(1) split by (simp add: drop_take min_absorb1 add.commute)
    then show ?thesis using False unfolding Frag_ReadPartial_def Let_def rlen_def [symmetric] rs by simp
  qed
qed

lemma partial_len_cases:
  assumes "0 < ss"
  shows "partial_len ss b n = n \<or> partial_len ss b n \<le> n \<and> ss dvd b + partial_len ss b n"
proof -
  have lt: "b mod ss < ss" using assms by simp
  consider "n < ss - b mod ss" | "ss - b mod ss \<le> n" "b mod ss = 0" | "ss - b mod ss \<le> n" "0 < b mod ss"
    by linarith
  then show ?thesis
  proof cases
    case 1
    then show ?thesis using lt by (auto simp: partial_len_def Let_def min_def)
  next
    case 2
    then show ?thesis by (auto simp: partial_len_def Let_def min_def)
  next
    case 3
    then have "partial_len ss b n = ss - b mod ss" using lt by (simp add: partial_len_def Let_def min_def)
    moreover have "ss dvd b + (ss - b mod ss)"
      using lt by (metis add.commute le_add_diff_inverse2 less_imp_le mod_eq_0_iff_dvd mod_add_left_eq mod_self)
    ultimately show ?thesis using 3 by simp
  qed
qed

lemma partial_len_aligned: "0 < ss \<Longrightarrow> ss dvd b \<Longrightarrow> n < ss \<Longrightarrow> partial_len ss b n = n"
  by (simp add: partial_len_def Let_def)

lemma Frag_Read_ok:
  assumes rdr: "reader_ok disk s ff dsect"
    and fit: "4 * unat w + unat len \<le> unat (fl_size ff) * 2 ^ ss_num_bits s"
    and lim: "unat (fl_size ff) \<le> MAX_IDX * 32768"
    and addr: "4 * unat w + unat len < 17179869184"
  shows "Frag_Read disk s ff len w
    = Some (Inr (take (unat len) (drop (4 * unat w) (disc_image dsect (2 ^ ss_num_bits s) ff))))"
proof -
  note D = reader_okD [OF rdr]
  let ?ss = "2 ^ ss_num_bits s :: nat" and ?k = "ss_num_bits s - 2"
  let ?b = "4 * unat w" and ?img = "disc_image dsect (2 ^ ss_num_bits s) ff"
  define p where "p = partial_len ?ss ?b (unat len)"
  have ss: "0 < ?ss" by simp
  have p: "p \<le> unat len" by (simp add: p_def partial_len_def Let_def)
  have limg: "length ?img = unat (fl_size ff) * ?ss" by (simp add: disc_image_def length_image_bytes [OF D(1)])
  have d1: "Frag_ReadPartial disk s ff w len = Some (Inr (take p (drop ?b ?img)))"
    unfolding p_def by (rule Frag_ReadPartial_ok [OF rdr fit lim])
  have l1: "length (take p (drop ?b ?img)) = p" using limg fit p by simp
  have pw: "unat (of_nat p :: u32) = p" using p u32_less [of len] by (intro unat_of_nat_u32) linarith
  define len1 where "len1 = len - of_nat p"
  have len1: "unat len1 = unat len - p" unfolding len1_def using p pw by (subst unat_u32_sub) simp_all
  show ?thesis
  proof (cases "p = unat len")
    case True
    then have z: "len1 = 0" using len1 by (metis diff_self_eq_0 unat_eq_0)
    moreover have "\<not> sector_size s \<le> 0" using D(2) by (metis word_le_0_iff unat_0 ss less_irrefl)
    ultimately show ?thesis
      using d1 l1 True by (simp add: Frag_Read_def Let_def len1_def [symmetric])
  next
    case False
    then have al: "?ss dvd ?b + p" using partial_len_cases [OF ss, of ?b "unat len"] by (simp add: p_def)
    then obtain m where m: "?b + p = ?ss * m" by (elim dvdE)
    then have p4: "p = 4 * (p div 4)"
    proof -
      have "4 dvd p" using m unfolding D(5) by (metis dvd_add_right_iff dvd_triv_left mult.assoc)
      then show ?thesis by simp
    qed
    define w1 where "w1 = w + drop_bit 2 (of_nat p)"
    have w1: "4 * unat w1 = ?b + p"
    proof -
      have "unat (drop_bit 2 (of_nat p :: u32)) = p div 4" by (simp add: drop_bit_eq_div unat_div pw)
      moreover have "unat w + p div 4 < 4294967296" using addr p p4 by linarith
      ultimately have "unat w1 = unat w + p div 4" unfolding w1_def by (subst unat_u32_add) simp_all
      then show ?thesis using p4 by simp
    qed
    define ls where "ls = drop_bit (ss_num_bits s) len1"
    have ls: "unat ls = unat len1 div ?ss" unfolding ls_def by (rule unat_drop_bit_u32)
    have lss: "unat ls * ?ss \<le> unat len1" unfolding ls by simp
    have os: "unat (drop_bit ?k w1) = m"
      using partial_mod(2) [OF rdr, of w1] w1 m by simp
    have fit1: "?ss * m + unat len1 \<le> unat (fl_size ff) * ?ss" using fit m len1 p by linarith
    have ms: "m + unat ls \<le> unat (fl_size ff)"
    proof -
      have "(m + unat ls) * ?ss \<le> unat (fl_size ff) * ?ss"
        using fit1 lss by (simp add: algebra_simps)
      then show ?thesis using ss by simp
    qed
    have rs: "Frag_ReadSect disk s ff (drop_bit ?k w1) ls
        = Some (Inr (take (unat ls * ?ss) (drop (?b + p) ?img)))"
      using Frag_ReadSect_ok [OF rdr, of "drop_bit ?k w1" ls] ms lim lss u32_less [of len1] os m
        image_bytes_sub [OF D(1) ms] by (simp add: mult.commute)
    define len2 where "len2 = len1 - push_bit (ss_num_bits s) ls"
    have pls: "unat (push_bit (ss_num_bits s) ls) = unat ls * ?ss"
      using lss u32_less [of len1] by (intro unat_push_bit_u32) linarith
    have len2: "unat len2 = unat len1 mod ?ss"
      unfolding len2_def using lss pls by (subst unat_u32_sub) (simp_all add: ls minus_div_mult_eq_mod)
    define w2 where "w2 = w1 + push_bit ?k ls"
    have w2: "4 * unat w2 = ?b + p + unat ls * ?ss"
    proof -
      have le: "?b + p + unat ls * ?ss \<le> ?b + unat len" using lss len1 p by linarith
      then have "unat ls * 2 ^ ?k < 4294967296" "unat w1 + unat ls * 2 ^ ?k < 4294967296"
        using addr w1 unfolding D(5) by linarith+
      then have "unat w2 = unat w1 + unat ls * 2 ^ ?k"
        unfolding w2_def by (subst unat_u32_add) (simp_all add: unat_push_bit_u32)
      then show ?thesis using w1 unfolding D(5) by simp
    qed
    have small: "\<not> len1 \<ge> sector_size s \<Longrightarrow> ls = 0"
      using ls D(2) by (metis div_less not_le unat_eq_0 word_le_nat_alt)
    have r2: "(if len1 \<ge> sector_size s then Frag_ReadSect disk s ff (drop_bit ?k w1) ls else Some (Inr []))
        = Some (Inr (take (unat ls * ?ss) (drop (?b + p) ?img)))"
      using rs small by (cases "len1 \<ge> sector_size s") simp_all
    have wl: "(if len1 \<ge> sector_size s then (w1 + push_bit ?k ls, len1 - push_bit (ss_num_bits s) ls)
        else (w1, len1)) = (w2, len2)"
      using small by (cases "len1 \<ge> sector_size s") (simp_all add: w2_def len2_def)
    have lt2: "unat len2 < ?ss" unfolding len2 by simp
    have tot: "unat len = p + unat ls * ?ss + unat len2"
      using div_mult_mod_eq [of "unat len1" ?ss] len1 p unfolding ls len2 by linarith
    have fit2: "4 * unat w2 + unat len2 \<le> unat (fl_size ff) * ?ss" using fit tot w2 by linarith
    have dv: "?ss dvd 4 * unat w2" unfolding w2 using al by simp
    have r3: "(if len2 \<noteq> 0 then Frag_ReadPartial disk s ff w2 len2 else Some (Inr []))
        = Some (Inr (take (unat len2) (drop (?b + p + unat ls * ?ss) ?img)))"
      using Frag_ReadPartial_ok [OF rdr fit2 lim] partial_len_aligned [OF ss dv lt2] w2 by simp
    have l3: "length (take (unat len2) (drop (?b + p + unat ls * ?ss) ?img)) = unat len2"
      using limg fit tot by simp
    have "take (unat len) (drop ?b ?img) = take p (drop ?b ?img)
        @ take (unat ls * ?ss) (drop (?b + p) ?img) @ take (unat len2) (drop (?b + p + unat ls * ?ss) ?img)"
      by (simp only: tot take_add drop_drop append_assoc) (simp add: ac_simps)
    then show ?thesis
      unfolding Frag_Read_def d1 Let_def
      by (simp only: Option.bind.simps sum.case l1 flip: w1_def len1_def)
         (simp only: flip: ls_def, simp only: r2 wl Option.bind.simps sum.case prod.case r3 l3,
          simp)
  qed
qed

section \<open>Set-up makes a reader\<close>

lemma Frag_GetNumBits_mask:
  "k < 31 \<Longrightarrow> Frag_GetNumBits (mask (Suc k)) = Suc k"
proof (induction k)
  case 0
  show ?case by (simp add: Frag_GetNumBits.simps mask_eq_exp_minus_1)
next
  case (Suc k)
  have h: "drop_bit 1 (mask (Suc (Suc k)) :: u32) = mask (Suc k)"
    using Suc.prems by (intro bit_word_eqI) (auto simp: bit_simps)
  have "bit (mask (Suc k) :: u32) 0" by (simp add: bit_simps)
  then have "(mask (Suc k) :: u32) \<noteq> 0" by auto
  then show ?case using Suc h by (simp add: Frag_GetNumBits.simps [of "mask (Suc (Suc k))"] Let_def del: drop_bit_Suc)
qed

lemma Frag_Init_reader:
  assumes init: "Frag_Init init_ok (2 ^ k) alloc_ok device bs sz s0 = Some (0, s)"
    and dev: "device = DEV_USB" and k: "2 \<le> k" "k < 32" and wf: "frag_wf (dec_FragList (take (nat sz) bs))"
    and disk: "disk_ok disk DEV_USB dsect (2 ^ k)"
  shows "frag_list s = Some (dec_FragList (take (nat sz) bs))"
    and "reader_ok disk s (dec_FragList (take (nat sz) bs)) dsect" and "ss_num_bits s = k"
proof -
  let ?ff = "dec_FragList (take (nat sz) bs)"
  obtain idxs where ix: "Frag_OptimizeList ?ff = Some idxs" "idx_ok idxs ?ff"
    using Frag_OptimizeList_ok [OF wf] by blast
  define sc where "sc = (if frag_inited s0 then Frag_Close s0 else s0)"
  have "s = sc\<lparr> sector_size := 2 ^ k, ss_num_bits := Frag_GetNumBits (2 ^ k - 1), sector_buf := True,
      frag_dev := DEV_USB, frag_list := Some ?ff, frag_idx := idxs, frag_inited := True \<rparr>"
    using init dev ix(1) unfolding Frag_Init_def Let_def sc_def [symmetric]
    by (simp split: if_splits)
  moreover have "Frag_GetNumBits (2 ^ k - 1 :: u32) = k"
    using Frag_GetNumBits_mask [of "k - 1"] k by (simp add: mask_eq_exp_minus_1)
  moreover have "unat (2 ^ k :: u32) = 2 ^ k"
    using unat_push_bit_u32 [of 1 k] power_strict_increasing [of k 32 "2::nat"] k
    by (simp add: push_bit_of_1)
  ultimately show "frag_list s = Some ?ff" "reader_ok disk s ?ff dsect" "ss_num_bits s = k"
    using wf ix(2) k disk by (simp_all add: reader_ok_def)
qed

section \<open>Properties\<close>

text \<open>A list with one fragment: four image sectors at drive sector 100.\<close>

definition demo_list :: bytes where
  "demo_list = put_be32 4 @ put_be32 1 @ put_be32 1 @ put_be32 0 @ put_be32 100 @ put_be32 4"

definition demo_sect :: "nat \<Rightarrow> bytes" where
  "demo_sect t = replicate 512 (of_nat t)"

definition demo_disk :: frag_disk where
  "demo_disk dev sec cnt = Some (concat (map demo_sect [unat sec..<unat sec + unat cnt]))"

lemma demo_disk_ok: "disk_ok demo_disk DEV_USB demo_sect (2 ^ 9)"
  by (simp add: disk_ok_def demo_disk_def demo_sect_def)

lemma demo_list_fields:
  "fl_size (dec_FragList demo_list) = 4" "fl_num (dec_FragList demo_list) = 1"
  "fl_frag (dec_FragList demo_list) ! 0 = \<lparr> fr_offset = 0, fr_sector = 100, fr_count = 4 \<rparr>"
  "length (fl_frag (dec_FragList demo_list)) = FRAG_MAX"
  by (simp_all add: dec_FragList_def demo_list_def Let_def dec_Fragment_def)

lemma demo_list_wf: "frag_wf (dec_FragList demo_list)"
  using demo_list_fields by (simp add: frag_wf_def fr_end_def)

text \<open>
  The list index makes the lookup faster and never wrong: on every well-formed list the
  index is built without leaving the list, and a lookup through it returns the first run of
  sectors at or after the offset, with the drive sectors the list assigns to them, after a gap
  that no fragment covers.
\<close>

theorem frag_lookup_correct:
  assumes "frag_wf ff" and "0 < unat count" and "unat offset + unat count \<le> unat (fl_size ff)"
    and "unat offset < MAX_IDX * 32768"
  shows "\<exists>idxs r. Frag_OptimizeList ff = Some idxs \<and> Frag_Get idxs ff offset count = Some (Inr r)
    \<and> lookup_ok ff (unat offset) (unat count) r"
  using Frag_OptimizeList_ok [OF assms(1)] Frag_Get_ok [OF assms(1) _ assms(2,3,4)] by blast

theorem frag_lookup_correct_witness:
  "\<exists>idxs r. Frag_OptimizeList (dec_FragList demo_list) = Some idxs
     \<and> Frag_Get idxs (dec_FragList demo_list) 1 2 = Some (Inr r) \<and> lookup_ok (dec_FragList demo_list) 1 2 r"
  using frag_lookup_correct [OF demo_list_wf, of 2 1] demo_list_fields(1) by simp

text \<open>
  C4. The reader refines the image: after a successful set-up on a USB drive with sectors of
  \<open>2 ^ k\<close> bytes, reading any range of bytes inside the image, aligned or not and across any number of
  fragments and gaps, returns exactly those bytes, for an image of a size the index can hold.
\<close>

theorem frag_read_refines_image:
  assumes "Frag_Init init_ok (2 ^ k) alloc_ok DEV_USB bs sz s0 = Some (0, s)" and "2 \<le> k" and "k < 32"
    and "ff = dec_FragList (take (nat sz) bs)" and "frag_wf ff" and "disk_ok disk DEV_USB dsect (2 ^ k)"
    and "4 * unat w + unat len \<le> unat (fl_size ff) * 2 ^ k" and "unat (fl_size ff) \<le> MAX_IDX * 32768"
    and "4 * unat w + unat len < 17179869184"
  shows "frag_list s = Some ff \<and> Frag_Read disk s ff len w
    = Some (Inr (take (unat len) (drop (4 * unat w) (disc_image dsect (2 ^ k) ff))))"
proof -
  note r = Frag_Init_reader [OF assms(1) refl assms(2,3) _ assms(6), folded assms(4), OF assms(5)]
  show ?thesis
    using Frag_Read_ok [OF r(2), unfolded r(3), OF assms(7,8,9)] r(1) by simp
qed

theorem frag_read_refines_image_witness:
  "\<exists>s. Frag_Init (\<lambda>_. True) (2 ^ 9) True DEV_USB demo_list 24 frag_zero = Some (0, s) \<and>
     Frag_Read demo_disk s (dec_FragList demo_list) 8 128
       = Some (Inr (take 8 (drop 512 (disc_image demo_sect 512 (dec_FragList demo_list)))))"
proof -
  obtain idxs where ix: "Frag_OptimizeList (dec_FragList demo_list) = Some idxs"
    using Frag_OptimizeList_ok [OF demo_list_wf] by blast
  have t: "take (nat 24) demo_list = demo_list" by (simp add: demo_list_def)
  obtain s where s: "Frag_Init (\<lambda>_. True) (2 ^ 9) True DEV_USB demo_list 24 frag_zero = Some (0, s)"
    using ix t by (simp add: Frag_Init_def frag_zero_def sizeof_FragList_def Let_def)
  have "frag_list s = Some (dec_FragList demo_list) \<and> Frag_Read demo_disk s (dec_FragList demo_list) 8 128
      = Some (Inr (take (unat (8 :: u32)) (drop (4 * unat (128 :: u32))
          (disc_image demo_sect (2 ^ 9) (dec_FragList demo_list)))))"
    using demo_list_fields(1)
    by (intro frag_read_refines_image [OF s _ _ _ demo_list_wf demo_disk_ok]) (simp_all only: t, simp_all)
  then show ?thesis using s by auto
qed

text \<open>
  The clamp on the index is off by one: a lookup whose chunk number is exactly \<open>MAX_IDX\<close>
  passes the check and reads one entry past the end of the index.
\<close>

theorem frag_index_off_by_one:
  assumes "length idxs = MAX_IDX" and "drop_bit IDX_SHIFT offset = (of_nat MAX_IDX :: u32)"
  shows "Frag_Get idxs ff offset count = None"
  using assms by (simp add: Frag_Get_def Let_def rd_def)

theorem frag_index_off_by_one_witness:
  "Frag_Get (frag_idx frag_zero) (dec_FragList demo_list) 0x1400000 1 = None"
  by (rule frag_index_off_by_one) (simp_all add: frag_zero_def)

end
