(* ===== verification/Dip_Config.thy ===== *)
theory Dip_Config
  imports Frag
begin

text \<open>
  The saved state of the disc interface plugin (\<open>dip-plugin/config.c\<close>): two small files that carry the
  emulation modes across a reload of the system, written before it and read and deleted after it.

  The file system is the parameter \<open>files\<close>: \<open>fl_open\<close> is \<open>os_open\<close>, \<open>fl_read\<close> is \<open>os_read\<close> (the result and
  the bytes it put into the buffer), \<open>fl_write\<close> is \<open>os_write\<close>, \<open>fl_create\<close> and \<open>fl_delete\<close> are the calls of
  the file system module between \<open>ISFS_Open\<close> and \<open>ISFS_Close\<close>.
\<close>

record 'd files =
  fl_open :: "string \<Rightarrow> nat \<Rightarrow> 'd \<Rightarrow> s32 \<times> 'd"
  fl_read :: "s32 \<Rightarrow> nat \<Rightarrow> 'd \<Rightarrow> (s32 \<times> bytes) \<times> 'd"
  fl_write :: "s32 \<Rightarrow> bytes \<Rightarrow> 'd \<Rightarrow> s32 \<times> 'd"
  fl_close :: "s32 \<Rightarrow> 'd \<Rightarrow> 'd"
  fl_isfs_open :: "'d \<Rightarrow> s32 \<times> 'd"
  fl_isfs_close :: "'d \<Rightarrow> 'd"
  fl_create :: "string \<Rightarrow> 'd \<Rightarrow> s32 \<times> 'd"
  fl_delete :: "string \<Rightarrow> 'd \<Rightarrow> s32 \<times> 'd"

abbreviation (input) ISFS_OPEN_READ :: nat where "ISFS_OPEN_READ \<equiv> 1"
abbreviation (input) ISFS_OPEN_WRITE :: nat where "ISFS_OPEN_WRITE \<equiv> 2"
abbreviation (input) ISFS_MAXPATH :: nat where "ISFS_MAXPATH \<equiv> 64"
abbreviation (input) MODE_FRAG :: u32 where "MODE_FRAG \<equiv> 0x10"
abbreviation (input) dip_cfg_filename :: string where "dip_cfg_filename \<equiv> ''/sys/dip.cfg''"
abbreviation (input) ffs_cfg_filename :: string where "ffs_cfg_filename \<equiv> ''/sys/ffs.cfg''"

record dipConfigState =
  ds_mode :: u32
  ds_device :: u32
  ds_frag_size :: u32

record ffsConfigState =
  fs_mode :: u32
  fs_partition :: u32
  fs_path :: bytes

definition enc_dipConfigState :: "dipConfigState \<Rightarrow> bytes" where
  "enc_dipConfigState c = put_be32 (ds_mode c) @ put_be32 (ds_device c) @ put_be32 (ds_frag_size c)"

definition dec_dipConfigState :: "bytes \<Rightarrow> dipConfigState" where
  "dec_dipConfigState bs = \<lparr> ds_mode = be32 (take 4 bs), ds_device = be32 (take 4 (drop 4 bs)),
     ds_frag_size = be32 (take 4 (drop 8 bs)) \<rparr>"

interpretation dipConfigState_codec: wire_codec enc_dipConfigState dec_dipConfigState 12
  by unfold_locales (simp_all add: enc_dipConfigState_def dec_dipConfigState_def)

declare dipConfigState_codec.length_enc [simp] dipConfigState_codec.dec_enc [simp]

definition enc_ffsConfigState :: "ffsConfigState \<Rightarrow> bytes" where
  "enc_ffsConfigState c = put_be32 (fs_mode c) @ put_be32 (fs_partition c)
     @ take ISFS_MAXPATH (fs_path c) @ replicate (ISFS_MAXPATH - length (fs_path c)) 0"

definition dec_ffsConfigState :: "bytes \<Rightarrow> ffsConfigState" where
  "dec_ffsConfigState bs = \<lparr> fs_mode = be32 (take 4 bs), fs_partition = be32 (take 4 (drop 4 bs)),
     fs_path = take ISFS_MAXPATH (drop 8 bs) \<rparr>"

lemma length_enc_ffsConfigState [simp]: "length (enc_ffsConfigState c) = 72"
  by (simp add: enc_ffsConfigState_def)

lemma dec_enc_ffsConfigState:
  "length (fs_path c) = ISFS_MAXPATH \<Longrightarrow> dec_ffsConfigState (enc_ffsConfigState c) = c"
  by (simp add: enc_ffsConfigState_def dec_ffsConfigState_def)

text \<open>A structure that the bytes of a read are put over.\<close>

definition over :: "bytes \<Rightarrow> bytes \<Rightarrow> bytes" where
  "over bs old = take (length old) bs @ drop (length bs) old"

lemma over_all: "length bs = length old \<Longrightarrow> over bs old = bs"
  by (simp add: over_def)

section \<open>Operations\<close>

definition Config_Create :: "'d files \<Rightarrow> string \<Rightarrow> 'd \<Rightarrow> s32 \<times> 'd" where
  "Config_Create F name d =
     (case fl_isfs_open F d of (r, d1) \<Rightarrow>
        if r < 0 then (r, d1)
        else case fl_create F name d1 of (r', d2) \<Rightarrow> (r', fl_isfs_close F d2))"

definition Config_Delete :: "'d files \<Rightarrow> string \<Rightarrow> 'd \<Rightarrow> s32 \<times> 'd" where
  "Config_Delete F name d =
     (case fl_isfs_open F d of (r, d1) \<Rightarrow>
        if r < 0 then (r, d1)
        else case fl_delete F name d1 of (r', d2) \<Rightarrow> (r', fl_isfs_close F d2))"

text \<open>
  \<open>fraglist_data\<close> is kept as the bytes written to it since it was last cleared; the rest of the
  structure is zero.
\<close>

definition load_fraglist ::
  "'d files \<Rightarrow> s32 \<Rightarrow> dipConfigState \<Rightarrow> 'd \<Rightarrow> (s32 \<times> bytes) \<times> 'd"
where
  "load_fraglist F fd cfg d =
     (if unat (ds_frag_size cfg) > sizeof_FragList then ((-1, []), d)
      else case fl_read F fd (unat (ds_frag_size cfg)) d of
             ((r, bs), d') \<Rightarrow> ((r, take (unat (ds_frag_size cfg)) bs), d'))"

definition DI_Config_Load ::
  "'d files \<Rightarrow> dipConfigState \<Rightarrow> bytes \<Rightarrow> 'd \<Rightarrow> s32 \<times> dipConfigState \<times> bytes \<times> 'd"
where
  "DI_Config_Load F cfg fraglist_data d =
     (case fl_open F dip_cfg_filename ISFS_OPEN_READ d of (fd, d1) \<Rightarrow>
        if fd < 0 then (fd, cfg, fraglist_data, d1)
        else case fl_read F fd 12 d1 of ((ret, bs), d2) \<Rightarrow>
          let cfg1 = dec_dipConfigState (over bs (enc_dipConfigState cfg));
              ((ret', data), d3) =
                (if ret = 12 then
                   if ds_mode cfg1 = MODE_FRAG then
                     (case load_fraglist F fd cfg1 d2 of ((ret2, bs2), d3) \<Rightarrow>
                        ((if (of_int ret2 :: u32) \<noteq> ds_frag_size cfg1 then -1 else ret, bs2), d3))
                   else ((ret, fraglist_data), d2)
                 else ((if ret \<ge> 0 then -1 else ret, fraglist_data), d2));
              (r4, d4) = Config_Delete F dip_cfg_filename (fl_close F fd d3)
          in (ret', cfg1, data, d4))"

text \<open>\<open>None\<close>: more bytes than the fragment list has are written.\<close>

definition DI_Config_Save ::
  "'d files \<Rightarrow> dipConfigState \<Rightarrow> bytes \<Rightarrow> 'd \<Rightarrow> (s32 \<times> 'd) option"
where
  "DI_Config_Save F cfg fraglist_data d =
     (case Config_Create F dip_cfg_filename d of (r0, d0) \<Rightarrow>
      case fl_open F dip_cfg_filename ISFS_OPEN_WRITE d0 of (fd, d1) \<Rightarrow>
        if fd < 0 then Some (fd, d1)
        else case fl_write F fd (enc_dipConfigState cfg) d1 of (ret, d2) \<Rightarrow>
          if ret = 12 \<and> ds_mode cfg = MODE_FRAG then
            do { data \<leftarrow> rd_block (fraglist_data @ replicate (sizeof_FragList - length fraglist_data) 0) 0
                   (unat (ds_frag_size cfg));
                 let (ret2, d3) = fl_write F fd data d2
                 in Some (if ret2 < 0 then ret2 else ret + ret2, fl_close F fd d3) }
          else Some (ret, fl_close F fd d2))"

definition FFS_Config_Load :: "'d files \<Rightarrow> ffsConfigState \<Rightarrow> 'd \<Rightarrow> s32 \<times> ffsConfigState \<times> 'd" where
  "FFS_Config_Load F cfg d =
     (case fl_open F ffs_cfg_filename ISFS_OPEN_READ d of (fd, d1) \<Rightarrow>
        if fd < 0 then (fd, cfg, d1)
        else case fl_read F fd 72 d1 of ((ret, bs), d2) \<Rightarrow>
          let (r3, d3) = Config_Delete F ffs_cfg_filename (fl_close F fd d2)
          in (if ret \<noteq> 72 then -1 else ret, dec_ffsConfigState (over bs (enc_ffsConfigState cfg)), d3))"

definition FFS_Config_Save :: "'d files \<Rightarrow> ffsConfigState \<Rightarrow> 'd \<Rightarrow> s32 \<times> 'd" where
  "FFS_Config_Save F cfg d =
     (case Config_Create F ffs_cfg_filename d of (r0, d0) \<Rightarrow>
      case fl_open F ffs_cfg_filename ISFS_OPEN_WRITE d0 of (fd, d1) \<Rightarrow>
        if fd < 0 then (fd, d1)
        else case fl_write F fd (enc_ffsConfigState cfg) d1 of (ret, d2) \<Rightarrow>
          (if ret \<noteq> 72 then -1 else ret, fl_close F fd d2))"

section \<open>A file system that keeps what is written\<close>

text \<open>
  \<open>content d name\<close> is the file of that name, \<open>cursor d fd\<close> the file and position behind a descriptor;
  \<open>ok\<close> is what the file system keeps between the calls.
\<close>

definition short_name :: "string \<Rightarrow> bool" where
  "short_name n \<longleftrightarrow> CHR 0x00 \<notin> set n \<and> length n < ISFS_MAXPATH"

definition file_store ::
  "'d files \<Rightarrow> ('d \<Rightarrow> bool) \<Rightarrow> ('d \<Rightarrow> string \<Rightarrow> bytes option) \<Rightarrow> ('d \<Rightarrow> s32 \<Rightarrow> (string \<times> nat) option) \<Rightarrow> bool"
where
  "file_store F ok content cursor \<longleftrightarrow>
     (\<forall>d n r d'. ok d \<longrightarrow> short_name n \<longrightarrow> content d n = None \<longrightarrow> Config_Create F n d = (r, d') \<longrightarrow>
        ok d' \<and> content d' = (content d)(n := Some [])) \<and>
     (\<forall>d n r d'. ok d \<longrightarrow> short_name n \<longrightarrow> Config_Delete F n d = (r, d') \<longrightarrow>
        ok d' \<and> content d' = (content d)(n := None)) \<and>
     (\<forall>d n m fd d'. ok d \<longrightarrow> content d n \<noteq> None \<longrightarrow> fl_open F n m d = (fd, d') \<longrightarrow>
        ok d' \<and> 0 \<le> fd \<and> content d' = content d \<and> cursor d' fd = Some (n, 0)) \<and>
     (\<forall>d fd n bs data r d'. ok d \<longrightarrow> cursor d fd = Some (n, length bs) \<longrightarrow> content d n = Some bs
          \<longrightarrow> fl_write F fd data d = (r, d') \<longrightarrow>
        ok d' \<and> r = int (length data) \<and> content d' = (content d)(n := Some (bs @ data))
        \<and> cursor d' fd = Some (n, length (bs @ data))) \<and>
     (\<forall>d fd n p k bs r out d'. ok d \<longrightarrow> cursor d fd = Some (n, p) \<longrightarrow> content d n = Some bs \<longrightarrow> p + k \<le> length bs
          \<longrightarrow> fl_read F fd k d = ((r, out), d') \<longrightarrow>
        ok d' \<and> r = int k \<and> out = take k (drop p bs) \<and> content d' = content d \<and> cursor d' fd = Some (n, p + k)) \<and>
     (\<forall>d fd. ok d \<longrightarrow> ok (fl_close F fd d) \<and> content (fl_close F fd d) = content d)"

lemmas file_storeD =
  file_store_def [THEN iffD1, THEN conjunct1, rule_format]
  file_store_def [THEN iffD1, THEN conjunct2, THEN conjunct1, rule_format]
  file_store_def [THEN iffD1, THEN conjunct2, THEN conjunct2, THEN conjunct1, rule_format]
  file_store_def [THEN iffD1, THEN conjunct2, THEN conjunct2, THEN conjunct2, THEN conjunct1, rule_format]
  file_store_def [THEN iffD1, THEN conjunct2, THEN conjunct2, THEN conjunct2, THEN conjunct2, THEN conjunct1, rule_format]
  file_store_def [THEN iffD1, THEN conjunct2, THEN conjunct2, THEN conjunct2, THEN conjunct2, THEN conjunct2, rule_format]

text \<open>The beginning every save shares: a new file, open and empty.\<close>

lemma created_file:
  assumes st: "file_store F ok content cursor" and "ok d" and "short_name n" and "content d n = None"
    and "Config_Create F n d = (r0, d0)" and "fl_open F n m d0 = (fd, d1)"
  shows "0 \<le> fd" and "ok d1" and "content d1 = (content d)(n := Some [])" and "cursor d1 fd = Some (n, length ([] :: bytes))"
proof -
  note c = file_storeD(1) [OF st assms(2-5)]
  then have "content d0 n \<noteq> None" by simp
  from file_storeD(3) [OF st conjunct1 [OF c] this assms(6)] c
  show "0 \<le> fd" "ok d1" "content d1 = (content d)(n := Some [])" "cursor d1 fd = Some (n, length ([] :: bytes))"
    by (auto intro: trans)
qed

text \<open>The end every load shares: the descriptor is closed and the file removed.\<close>

lemma closed_and_deleted:
  assumes st: "file_store F ok content cursor" and "ok d" and "short_name n"
    and "Config_Delete F n (fl_close F fd d) = (r, d')"
  shows "ok d'" and "content d' = (content d)(n := None)"
  using file_storeD(6) [OF st assms(2), of fd] file_storeD(2) [OF st _ assms(3,4)] by simp_all

lemma config_names [simp]: "short_name dip_cfg_filename" "short_name ffs_cfg_filename"
  by (simp_all add: short_name_def)

text \<open>What a save leaves in the file.\<close>

definition saved_bytes :: "dipConfigState \<Rightarrow> bytes \<Rightarrow> bytes" where
  "saved_bytes cfg data = enc_dipConfigState cfg @
     (if ds_mode cfg = MODE_FRAG
      then take (unat (ds_frag_size cfg)) (data @ replicate (sizeof_FragList - length data) 0) else [])"

lemma config_save_store:
  assumes st: "file_store F ok content cursor" and "ok d" and "content d dip_cfg_filename = None"
    and fit: "unat (ds_frag_size cfg) \<le> sizeof_FragList"
  shows "\<exists>r d'. DI_Config_Save F cfg data d = Some (r, d') \<and> 0 \<le> r \<and> ok d'
    \<and> content d' = (content d)(dip_cfg_filename := Some (saved_bytes cfg data))"
proof -
  obtain r0 d0 where c: "Config_Create F dip_cfg_filename d = (r0, d0)" by fastforce
  obtain fd d1 where o: "fl_open F dip_cfg_filename ISFS_OPEN_WRITE d0 = (fd, d1)" by fastforce
  note o1 = created_file [OF st assms(2) config_names(1) assms(3) c o]
  obtain r2 d2 where w: "fl_write F fd (enc_dipConfigState cfg) d1 = (r2, d2)" by fastforce
  have w2: "ok d2" "r2 = 12" "content d2 = (content d)(dip_cfg_filename := Some (enc_dipConfigState cfg))"
    "cursor d2 fd = Some (dip_cfg_filename, length (enc_dipConfigState cfg))"
    using file_storeD(4) [OF st o1(2,4) _ w] o1(3) by simp_all
  show ?thesis
  proof (cases "ds_mode cfg = MODE_FRAG")
    case True
    let ?dat = "take (unat (ds_frag_size cfg)) (data @ replicate (sizeof_FragList - length data) 0)"
    have rb: "rd_block (data @ replicate (sizeof_FragList - length data) 0) 0 (unat (ds_frag_size cfg)) = Some ?dat"
      using fit by (simp add: rd_block_def)
    obtain r3 d3 where w3: "fl_write F fd ?dat d2 = (r3, d3)" by fastforce
    have "ok d3" "r3 = int (length ?dat)"
      "content d3 = (content d)(dip_cfg_filename := Some (enc_dipConfigState cfg @ ?dat))"
      using file_storeD(4) [OF st w2(1,4) _ w3] w2(3) by simp_all
    then show ?thesis using c o o1(1) w w2(2) True rb w3 file_storeD(6) [OF st]
      by (simp add: DI_Config_Save_def saved_bytes_def)
  next
    case False
    then show ?thesis using c o o1(1) w w2 file_storeD(6) [OF st]
      by (simp add: DI_Config_Save_def saved_bytes_def)
  qed
qed

lemma config_load_store:
  assumes st: "file_store F ok content cursor" and "ok d"
    and saved: "content d dip_cfg_filename = Some (saved_bytes cfg data)"
    and fit: "unat (ds_frag_size cfg) \<le> sizeof_FragList"
  shows "\<exists>d'. DI_Config_Load F cfg0 data0 d = (12, cfg,
      if ds_mode cfg = MODE_FRAG
      then take (unat (ds_frag_size cfg)) (data @ replicate (sizeof_FragList - length data) 0) else data0, d')
    \<and> content d' = (content d)(dip_cfg_filename := None)"
proof -
  obtain fd d1 where o: "fl_open F dip_cfg_filename ISFS_OPEN_READ d = (fd, d1)" by fastforce
  have o1: "ok d1" "0 \<le> fd" "content d1 = content d" "cursor d1 fd = Some (dip_cfg_filename, 0)"
    using file_storeD(3) [OF st assms(2) _ o] saved by simp_all
  obtain r bs d2 where rd: "fl_read F fd 12 d1 = ((r, bs), d2)" by (metis prod.collapse)
  have r2: "ok d2" "r = 12" "bs = enc_dipConfigState cfg" "content d2 = content d"
    "cursor d2 fd = Some (dip_cfg_filename, 12)"
    using file_storeD(5) [OF st o1(1,4) _ _ rd] o1(3) saved by (simp_all add: saved_bytes_def)
  have c: "dec_dipConfigState (over bs (enc_dipConfigState cfg0)) = cfg" using r2(3) by (simp add: over_all)
  show ?thesis
  proof (cases "ds_mode cfg = MODE_FRAG")
    case True
    let ?dat = "take (unat (ds_frag_size cfg)) (data @ replicate (sizeof_FragList - length data) 0)"
    have len: "length ?dat = unat (ds_frag_size cfg)" using fit by simp
    obtain r3 out d3 where rd3: "fl_read F fd (unat (ds_frag_size cfg)) d2 = ((r3, out), d3)"
      by (metis prod.collapse)
    have r3: "ok d3" "r3 = int (unat (ds_frag_size cfg))" "out = ?dat" "content d3 = content d"
      using file_storeD(5) [OF st r2(1,5) _ _ rd3] r2(4) saved True len by (simp_all add: saved_bytes_def)
    obtain r4 d4 where del: "Config_Delete F dip_cfg_filename (fl_close F fd d3) = (r4, d4)" by fastforce
    have "content d4 = (content d)(dip_cfg_filename := None)"
      using closed_and_deleted(2) [OF st r3(1) config_names(1) del] r3(4) by simp
    moreover have "load_fraglist F fd cfg d2 = ((r3, ?dat), d3)"
      using fit rd3 r3(3) len by (simp add: load_fraglist_def)
    ultimately show ?thesis using o o1(2) rd r2(2) c True r3(2) del
      by (simp add: DI_Config_Load_def Let_def)
  next
    case False
    obtain r4 d4 where del: "Config_Delete F dip_cfg_filename (fl_close F fd d2) = (r4, d4)" by fastforce
    have "content d4 = (content d)(dip_cfg_filename := None)"
      using closed_and_deleted(2) [OF st r2(1) config_names(1) del] r2(4) by simp
    then show ?thesis using o o1(2) rd r2(2) c False del by (simp add: DI_Config_Load_def Let_def)
  qed
qed

section \<open>Properties\<close>

text \<open>A file system in memory, with one descriptor per open file.\<close>

definition ram_files :: "((string \<Rightarrow> bytes option) \<times> (s32 \<Rightarrow> (string \<times> nat) option)) files" where
  "ram_files = \<lparr>
     fl_open = (\<lambda>n m (c, k). if c n = None then (-106, (c, k)) else (3, (c, k(3 := Some (n, 0))))),
     fl_read = (\<lambda>fd l (c, k). case k fd of None \<Rightarrow> ((-4, []), (c, k))
       | Some (n, p) \<Rightarrow> (case c n of None \<Rightarrow> ((-4, []), (c, k))
           | Some bs \<Rightarrow> ((int (length (take l (drop p bs))), take l (drop p bs)),
                         (c, k(fd := Some (n, p + length (take l (drop p bs)))))))),
     fl_write = (\<lambda>fd data (c, k). case k fd of None \<Rightarrow> (-4, (c, k))
       | Some (n, p) \<Rightarrow> (case c n of None \<Rightarrow> (-4, (c, k))
           | Some bs \<Rightarrow> (int (length data), (c(n := Some (blit bs p data)), k(fd := Some (n, p + length data)))))),
     fl_close = (\<lambda>fd (c, k). (c, k(fd := None))), fl_isfs_open = (\<lambda>d. (0, d)), fl_isfs_close = (\<lambda>d. d),
     fl_create = (\<lambda>n (c, k). if c n = None then (0, (c(n := Some []), k)) else (-105, (c, k))),
     fl_delete = (\<lambda>n (c, k). (0, (c(n := None), k))) \<rparr>"

lemma ram_file_store: "file_store ram_files (\<lambda>_. True) fst snd"
  by (auto simp: file_store_def ram_files_def blit_def Config_Create_def Config_Delete_def split: if_splits)

text \<open>
  C25. The saved state survives a reload: on a file system that keeps what is written, saving
  succeeds, and loading afterwards returns the saved state and removes the file. The fragment
  list comes back when the mode is exactly the fragment mode; in every other mode, the
  fragment mode combined with another included, it is neither written nor read.
\<close>

theorem config_roundtrip:
  assumes "file_store F ok content cursor" and "ok d" and "content d dip_cfg_filename = None"
    and "unat (ds_frag_size cfg) \<le> sizeof_FragList"
  shows "\<exists>r d1 d2. DI_Config_Save F cfg data d = Some (r, d1) \<and> 0 \<le> r
    \<and> DI_Config_Load F cfg0 data0 d1 = (12, cfg,
        if ds_mode cfg = MODE_FRAG
        then take (unat (ds_frag_size cfg)) (data @ replicate (sizeof_FragList - length data) 0) else data0, d2)
    \<and> content d2 = content d"
proof -
  from config_save_store [OF assms(1), OF assms(2-4), of data]
  obtain r d1 where s: "DI_Config_Save F cfg data d = Some (r, d1)" "0 \<le> r" "ok d1"
    "content d1 = (content d)(dip_cfg_filename := Some (saved_bytes cfg data))" by (elim exE conjE)
  have "content d1 dip_cfg_filename = Some (saved_bytes cfg data)" unfolding s(4) by simp
  from config_load_store [OF assms(1), OF s(3) this assms(4), of cfg0 data0]
  obtain d2 where "DI_Config_Load F cfg0 data0 d1 = (12, cfg,
        if ds_mode cfg = MODE_FRAG
        then take (unat (ds_frag_size cfg)) (data @ replicate (sizeof_FragList - length data) 0) else data0, d2)"
    "content d2 = (content d1)(dip_cfg_filename := None)" by (elim exE conjE)
  moreover from this(2) have "content d2 = content d"
    unfolding s(4) using assms(3) by (simp add: fun_upd_idem)
  ultimately show ?thesis using s(1,2) by (intro exI conjI)
qed

theorem config_roundtrip_witness:
  "\<exists>r d1 d2. DI_Config_Save ram_files \<lparr> ds_mode = MODE_FRAG, ds_device = 1, ds_frag_size = 3 \<rparr> [7, 8, 9]
       (\<lambda>_. None, \<lambda>_. None) = Some (r, d1) \<and> 0 \<le> r
     \<and> DI_Config_Load ram_files \<lparr> ds_mode = 0, ds_device = 0, ds_frag_size = 0 \<rparr> [] d1
       = (12, \<lparr> ds_mode = MODE_FRAG, ds_device = 1, ds_frag_size = 3 \<rparr>,
          if ds_mode \<lparr> ds_mode = MODE_FRAG, ds_device = 1, ds_frag_size = 3 \<rparr> = MODE_FRAG
          then take (unat (ds_frag_size \<lparr> ds_mode = MODE_FRAG, ds_device = 1, ds_frag_size = 3 \<rparr>))
            ([7, 8, 9] @ replicate (sizeof_FragList - length [7, 8, 9 :: u8]) 0) else [], d2)
     \<and> fst d2 = fst (\<lambda>_ :: string. None :: bytes option, \<lambda>_ :: s32. None :: (string \<times> nat) option)"
  by (rule config_roundtrip [where ok = "\<lambda>_. True" and content = fst and cursor = snd]) (simp_all add: ram_file_store sizeof_FragList_def)

end
