(* ===== verification/Dip_Plugin.thy ===== *)
theory Dip_Plugin
  imports Dip_Drive Dip_Config
begin

text \<open>
  The command dispatch of the disc interface plugin (\<open>dip-plugin/plugin.c\<close>) and its WBFS client
  (\<open>dip-plugin/wbfs.c\<close>): every command of the drive is answered by the plugin or handed to
  the original module, reads are redirected to the fragment list, the WBFS module or the
  drive, and the custom commands that switch the modes are hidden from a running title.

  What the plugin calls is the parameter \<open>dip_env\<close>: the drive, the kernel's files and devices,
  the running-title and ES checks of the kernel patcher, the file system module's emulation
  mode and the FAT module. The bytes a failed fragment read left in the buffer are not tracked
  (\<open>pe_partial\<close>). A result is \<open>None\<close> where the code would read or write outside a buffer, or through
  a null pointer.
\<close>

record 'd dip_env =
  pe_drive :: "'d drive"
  pe_ioctl :: "u32 \<Rightarrow> bytes \<Rightarrow> 'd \<Rightarrow> (s32 \<times> bytes) \<times> 'd"
  pe_init_drive :: "'d \<Rightarrow> 'd"
  pe_thread_rights :: "'d \<Rightarrow> 'd"
  pe_os_open :: "string \<Rightarrow> 'd \<Rightarrow> s32 \<times> 'd"
  pe_os_close :: "s32 \<Rightarrow> 'd \<Rightarrow> 'd"
  pe_wbfs_open :: "s32 \<Rightarrow> bytes \<Rightarrow> 'd \<Rightarrow> s32 \<times> 'd"
  pe_wbfs_read :: "s32 \<Rightarrow> u32 \<Rightarrow> u32 \<Rightarrow> 'd \<Rightarrow> (s32 \<times> bytes) \<times> 'd"
  pe_frag_ready :: "'d \<Rightarrow> u32 \<Rightarrow> bool"
  pe_usb_sector :: "'d \<Rightarrow> u32"
  pe_alloc_ok :: "'d \<Rightarrow> bool"
  pe_disk :: "'d \<Rightarrow> frag_disk"
  pe_partial :: "bytes \<Rightarrow> 'd \<Rightarrow> bytes"
  pe_mem :: "u32 \<Rightarrow> nat \<Rightarrow> 'd \<Rightarrow> bytes"
  pe_running_title :: "'d \<Rightarrow> bool \<times> 'd"
  pe_es_request :: "'d \<Rightarrow> bool \<times> 'd"
  pe_set_readctrl :: "'d \<Rightarrow> 'd"
  pe_readctrl1 :: "'d \<Rightarrow> bool \<times> 'd"
  pe_read_hash :: "'d \<Rightarrow> s32 \<times> 'd"
  pe_files :: "'d files"
  pe_isfs_getmode :: "'d \<Rightarrow> (s32 \<times> (u32 \<times> bytes) option) \<times> 'd"
  pe_isfs_setmode :: "u32 \<Rightarrow> bytes \<Rightarrow> 'd \<Rightarrow> 'd"
  pe_fat_mount :: "u32 \<Rightarrow> u32 \<Rightarrow> 'd \<Rightarrow> 'd"
  pe_fat_partition :: "u32 \<Rightarrow> 'd \<Rightarrow> u32 option \<times> 'd"
  pe_regs :: "bytes \<Rightarrow> 'd \<Rightarrow> ((bytes \<times> u32) \<times> 'd) option"

section \<open>State\<close>

abbreviation (input) WOD_MAGIC :: u32 where "WOD_MAGIC \<equiv> 0x5D1C9EA3"
abbreviation (input) GC_MAGIC :: u32 where "GC_MAGIC \<equiv> 0xC2339F3D"
abbreviation (input) MODE_DVDROM :: u32 where "MODE_DVDROM \<equiv> 0x01"
abbreviation (input) MODE_CRYPT :: u32 where "MODE_CRYPT \<equiv> 0x02"
abbreviation (input) MODE_WBFS :: u32 where "MODE_WBFS \<equiv> 0x04"
abbreviation (input) MODE_EMUL :: u32 where "MODE_EMUL \<equiv> 0x14"
abbreviation (input) DISC_DVD5 :: u32 where "DISC_DVD5 \<equiv> 1"
abbreviation (input) DISC_DVD9 :: u32 where "DISC_DVD9 \<equiv> 2"
abbreviation (input) DVD5_LENGTH :: u32 where "DVD5_LENGTH \<equiv> 0x46090000"
abbreviation (input) DVD9_LENGTH :: u32 where "DVD9_LENGTH \<equiv> 0x7ED38000"
abbreviation (input) ERROR_BLOCK_RANGE :: u32 where "ERROR_BLOCK_RANGE \<equiv> 0x52100"
abbreviation (input) ERROR_WRONG_DISC :: u32 where "ERROR_WRONG_DISC \<equiv> 0x53100"
abbreviation (input) ISFS_MODE_SDHC :: u32 where "ISFS_MODE_SDHC \<equiv> 0x01"

record dipConfig =
  dc_mode :: u32
  dc_type :: u32
  dc_offset0 :: u32
  dc_offset1 :: u32
  dc_error :: u32
  dc_cover :: u32
  dc_noreset :: u32

record dip_state =
  config :: dipConfig
  dipCfgState :: dipConfigState
  ffsCfgState :: ffsConfigState
  devFd :: s32
  frag :: frag_state
  fraglist_data :: bytes

definition dip_zero :: dip_state where
  "dip_zero = \<lparr> config = \<lparr> dc_mode = 0, dc_type = 0, dc_offset0 = 0, dc_offset1 = 0, dc_error = 0,
       dc_cover = 0, dc_noreset = 0 \<rparr>,
     dipCfgState = \<lparr> ds_mode = 0, ds_device = 0, ds_frag_size = 0 \<rparr>,
     ffsCfgState = \<lparr> fs_mode = 0, fs_partition = 0, fs_path = replicate ISFS_MAXPATH 0 \<rparr>,
     devFd = -1, frag = frag_zero, fraglist_data = [] \<rparr>"

definition DI_ChkMode :: "dip_state \<Rightarrow> u32 \<Rightarrow> bool" where
  "DI_ChkMode st b \<longleftrightarrow> dc_mode (config st) AND b \<noteq> 0"

definition DI_SetMode :: "u32 \<Rightarrow> dip_state \<Rightarrow> dip_state" where
  "DI_SetMode b st = st\<lparr> config := (config st)\<lparr> dc_mode := dc_mode (config st) OR b \<rparr> \<rparr>"

definition DI_DelMode :: "u32 \<Rightarrow> dip_state \<Rightarrow> dip_state" where
  "DI_DelMode b st = st\<lparr> config := (config st)\<lparr> dc_mode := dc_mode (config st) AND NOT b \<rparr> \<rparr>"

definition set_error :: "u32 \<Rightarrow> dip_state \<Rightarrow> dip_state" where
  "set_error e st = st\<lparr> config := (config st)\<lparr> dc_error := e \<rparr> \<rparr>"

type_synonym 'd di_result = "((s32 \<times> bytes) \<times> dip_state \<times> 'd) option"

section \<open>The WBFS client\<close>

definition WBFS_Open :: "'d dip_env \<Rightarrow> u32 \<Rightarrow> bytes \<Rightarrow> dip_state \<Rightarrow> 'd \<Rightarrow> (s32 \<times> dip_state \<times> 'd) option" where
  "WBFS_Open E device discid st d =
     do { name \<leftarrow> rd [''/dev/usb2'', ''/dev/sdio/sdhc''] (unat device);
          let (fd, d1) = pe_os_open E name d;
              st1 = st\<lparr> devFd := fd \<rparr>
          in if fd < 0 then Some (fd, st1, d1)
             else let (r, d2) = pe_wbfs_open E fd (take 6 discid) d1 in Some (r, st1, d2) }"

definition WBFS_Close :: "'d dip_env \<Rightarrow> dip_state \<Rightarrow> 'd \<Rightarrow> dip_state \<times> 'd" where
  "WBFS_Close E st d = (st\<lparr> devFd := -1 \<rparr>, if devFd st \<ge> 0 then pe_os_close E (devFd st) d else d)"

definition WBFS_Read ::
  "'d dip_env \<Rightarrow> bytes \<Rightarrow> u32 \<Rightarrow> u32 \<Rightarrow> dip_state \<Rightarrow> 'd \<Rightarrow> (s32 \<times> bytes) \<times> 'd"
where
  "WBFS_Read E out len offset st d =
     (case pe_wbfs_read E (devFd st) offset len d of ((r, bs), d') \<Rightarrow> ((r, over (take (unat len) bs) out), d'))"

section \<open>Reads\<close>

definition DI_CheckOffset :: "u32 \<Rightarrow> dip_state \<Rightarrow> s32 \<times> dip_state" where
  "DI_CheckOffset offset st =
     (if dc_type (config st) = DISC_DVD5 \<and> offset \<ge> DVD5_LENGTH
         \<or> dc_type (config st) = DISC_DVD9 \<and> offset \<ge> DVD9_LENGTH
      then (DIP_EIO, set_error ERROR_BLOCK_RANGE st) else (0, st))"

text \<open>A command of the original module on the first \<open>n\<close> bytes of a buffer.\<close>

definition cmd_on :: "'d dip_env \<Rightarrow> u32 list \<Rightarrow> nat \<Rightarrow> bytes \<Rightarrow> 'd \<Rightarrow> ((s32 \<times> bytes) \<times> 'd) option" where
  "cmd_on E dic n out d =
     do { seg \<leftarrow> rd_block out 0 n;
          let ((r, seg'), d') = drive_cmd (pe_drive E) dic seg d in Some ((r, blit out 0 seg'), d') }"

definition DI_ReadUnencrypted ::
  "'d dip_env \<Rightarrow> u32 \<Rightarrow> bytes \<Rightarrow> u32 \<Rightarrow> u32 \<Rightarrow> dip_state \<Rightarrow> 'd \<Rightarrow> 'd di_result"
where
  "DI_ReadUnencrypted E mem out len offset0 st d =
     (case DI_CheckOffset offset0 st of (ret, st1) \<Rightarrow>
        if ret \<noteq> 0 then Some ((ret, out), st1, d)
        else
          let offset = offset0 + (dc_offset0 (config st1) + dc_offset1 (config st1)) in
          if DI_ChkMode st1 MODE_FRAG then
            do { ff \<leftarrow> frag_list (frag st1);
                 r \<leftarrow> Frag_Read (pe_disk E d) (frag st1) ff len offset;
                 case r of
                   Inl e \<Rightarrow> Some ((e, over (pe_partial E out d) out), st1, d)
                 | Inr bs \<Rightarrow> if length bs \<le> length out then Some ((0, blit out 0 bs), st1, d) else None }
          else if DI_ChkMode st1 MODE_WBFS then
            (case WBFS_Read E out len offset st1 d of (res, d') \<Rightarrow> Some (res, st1, d'))
          else if DI_ChkMode st1 MODE_DVDROM then
            map_option (\<lambda>(res, d'). (res, st1, d')) (DI_ReadDvd (pe_drive E) mem out len offset d)
          else
            map_option (\<lambda>(res, d'). (res, st1, d'))
              (cmd_on E [push_bit 24 IOCTL_DI_READ_A8, len, offset, 0, 0, 0, 0, 0] (unat len) out d))"

definition DI_ReadDiscId ::
  "'d dip_env \<Rightarrow> u32 \<Rightarrow> bytes \<Rightarrow> u32 \<Rightarrow> dip_state \<Rightarrow> 'd \<Rightarrow> 'd di_result"
where
  "DI_ReadDiscId E mem out len st d =
     do { ((ret, out1), st1, d1) \<leftarrow> DI_ReadUnencrypted E mem out len 0 st d;
          if ret < 0 then Some ((ret, out1), st1, d1)
          else do {
            magic \<leftarrow> rd32 out1 24;
            if magic = WOD_MAGIC then
              (case pe_readctrl1 E (pe_set_readctrl E d1) of (rc, d2) \<Rightarrow>
                 if \<not> rc then (case pe_read_hash E d2 of (r, d3) \<Rightarrow> Some ((r, out1), st1, d3))
                 else Some ((ret, out1), st1, d2))
            else Some ((ret, out1), st1, d1) } }"

text \<open>The read of the second layer goes to a sector buffer of its own at \<open>addr\<close>.\<close>

definition DI_CheckDisc :: "'d dip_env \<Rightarrow> u32 \<Rightarrow> dip_state \<Rightarrow> 'd \<Rightarrow> (dip_state \<times> 'd) option" where
  "DI_CheckDisc E addr st d =
     (case dv_alloc (pe_drive E) (unat SECTOR_SIZE) d of
        (None, d1) \<Rightarrow> Some (st, d1)
      | (Some buf, d1) \<Rightarrow>
          do { ((ret, buf'), st1, d2) \<leftarrow> DI_ReadUnencrypted E addr buf SECTOR_SIZE 0x47000000 st d1;
               Some (st1\<lparr> config := (config st1)\<lparr> dc_type := if ret \<noteq> 0 then DISC_DVD5 else DISC_DVD9 \<rparr> \<rparr>, d2) })"

definition DI_ResetConfig :: "dip_state \<Rightarrow> dip_state" where
  "DI_ResetConfig st =
     (let st1 = DI_DelMode MODE_DVDROM (DI_DelMode MODE_CRYPT st)
      in st1\<lparr> config := (config st1)\<lparr> dc_offset0 := 0, dc_offset1 := 0, dc_type := 0, dc_error := 0,
                                       dc_cover := 0, dc_noreset := 0 \<rparr> \<rparr>)"

section \<open>Commands\<close>

text \<open>\<open>pass\<close> hands the command to the original module. \<open>out\<close> is the output buffer at address \<open>mem\<close>, of which
  the caller announces \<open>sz\<close> bytes.\<close>

definition pass :: "'d dip_env \<Rightarrow> u32 list \<Rightarrow> bytes \<Rightarrow> nat \<Rightarrow> dip_state \<Rightarrow> 'd \<Rightarrow> 'd di_result" where
  "pass E inbuf out sz st d = map_option (\<lambda>(res, d'). (res, st, d')) (cmd_on E inbuf sz out d)"

definition put_word :: "u32 \<Rightarrow> s32 \<Rightarrow> bytes \<Rightarrow> dip_state \<Rightarrow> 'd \<Rightarrow> 'd di_result" where
  "put_word v ret out st d = (if 4 \<le> length out then Some ((ret, blit out 0 (put_be32 v)), st, d) else None)"

definition cmd_reset :: "'d dip_env \<Rightarrow> u32 list \<Rightarrow> bytes \<Rightarrow> nat \<Rightarrow> dip_state \<Rightarrow> 'd \<Rightarrow> 'd di_result" where
  "cmd_reset E inbuf out sz st d =
     (if dc_noreset (config st) \<noteq> 0 then Some ((0, out), st, d)
      else let st1 = DI_ResetConfig st in
        if DI_ChkMode st1 MODE_EMUL then
          Some ((0, out), st1\<lparr> config := (config st1)\<lparr> dc_cover := dc_cover (config st1) OR 4 \<rparr> \<rparr>,
                snd (DI_StopMotor (pe_drive E) d))
        else pass E inbuf out sz st1 d)"

definition cmd_readid ::
  "'d dip_env \<Rightarrow> u32 \<Rightarrow> u32 list \<Rightarrow> u32 \<Rightarrow> bytes \<Rightarrow> u32 \<Rightarrow> dip_state \<Rightarrow> 'd \<Rightarrow> 'd di_result"
where
  "cmd_readid E addr inbuf mem out sz st d =
     (let offset = dc_offset0 (config st) OR dc_offset1 (config st) in
      do { ((r1, out1), st1, d1) \<leftarrow>
             (if \<not> DI_ChkMode st MODE_EMUL then
                do { ((r, o1), s1, d') \<leftarrow> pass E inbuf out (unat sz) st d;
                     Some ((r, o1), if r \<noteq> 0 then DI_SetMode MODE_DVDROM s1 else s1, d') }
              else Some ((0, out), st, d));
           ((r2, out2), st2, d2) \<leftarrow>
             (if DI_ChkMode st1 (MODE_DVDROM OR MODE_EMUL) \<or> offset \<noteq> 0
              then DI_ReadDiscId E mem out1 sz st1 d1 else Some ((r1, out1), st1, d1));
           if r2 = 0 then
             do { gc \<leftarrow> rd32 out2 28;
                  if gc = GC_MAGIC
                  then Some ((r2, out2), st2\<lparr> config := (config st2)\<lparr> dc_type := DISC_DVD9 \<rparr> \<rparr>, d2)
                  else do { (st3, d3) \<leftarrow> DI_CheckDisc E addr st2 d2; Some ((r2, out2), st3, d3) } }
           else Some ((r2, out2), st2, d2) })"

definition cmd_offset :: "'d dip_env \<Rightarrow> u32 list \<Rightarrow> bytes \<Rightarrow> nat \<Rightarrow> dip_state \<Rightarrow> 'd \<Rightarrow> 'd di_result" where
  "cmd_offset E inbuf out sz st d =
     (if DI_ChkMode st (MODE_DVDROM OR MODE_EMUL) then
        do { a \<leftarrow> rd inbuf 1; b \<leftarrow> rd inbuf 2;
             Some ((0, out), st\<lparr> config := (config st)\<lparr> dc_offset1 := (push_bit 30 a OR b) AND - 0x8000 \<rparr> \<rparr>, d) }
      else pass E inbuf out sz st d)"

definition cmd_wbfs_set :: "'d dip_env \<Rightarrow> u32 list \<Rightarrow> bytes \<Rightarrow> dip_state \<Rightarrow> 'd \<Rightarrow> 'd di_result" where
  "cmd_wbfs_set E inbuf out st d =
     do { device \<leftarrow> rd inbuf 1;
          let (st1, d1) = WBFS_Close E st d;
              st2 = DI_DelMode MODE_WBFS st1
          in if device \<noteq> 0 then
               do { a \<leftarrow> rd inbuf 2; b \<leftarrow> rd inbuf 3;
                    (ret, st3, d2) \<leftarrow> WBFS_Open E (device - 1) (put_be32 a @ put_be32 b) st2 d1;
                    Some ((ret, out),
                      if ret = 0 then
                        (let st4 = DI_SetMode MODE_WBFS st3 in
                         st4\<lparr> dipCfgState := \<lparr> ds_mode = dc_mode (config st4), ds_device = device,
                                                ds_frag_size = 0 \<rparr> \<rparr>)
                      else st3, d2) }
             else Some ((0, out), st2, d1) }"

text \<open>\<open>Frag_Init\<close> on the plugin's state; a successful one has copied the list.\<close>

definition frag_init ::
  "'d dip_env \<Rightarrow> u32 \<Rightarrow> bytes \<Rightarrow> u32 \<Rightarrow> dip_state \<Rightarrow> 'd \<Rightarrow> (s32 \<times> dip_state) option"
where
  "frag_init E device bs sz st d =
     do { (ret, f) \<leftarrow> Frag_Init (pe_frag_ready E d) (pe_usb_sector E d) (pe_alloc_ok E d) device bs (sint sz) (frag st);
          Some (ret, st\<lparr> frag := f, fraglist_data := if ret = 0 then take (unat sz) bs else fraglist_data st \<rparr>) }"

definition cmd_frag_set :: "'d dip_env \<Rightarrow> u32 list \<Rightarrow> bytes \<Rightarrow> dip_state \<Rightarrow> 'd \<Rightarrow> 'd di_result" where
  "cmd_frag_set E inbuf out st d =
     do { device \<leftarrow> rd inbuf 1; fraglist \<leftarrow> rd inbuf 2; sz \<leftarrow> rd inbuf 3;
          let st1 = DI_DelMode MODE_FRAG (st\<lparr> frag := Frag_Close (frag st) \<rparr>) in
          if device \<noteq> 0 \<and> fraglist \<noteq> 0 \<and> sz \<noteq> 0 then
            do { (ret, st2) \<leftarrow> frag_init E device (pe_mem E (fraglist AND 0x7FFFFFFF) (unat sz) d) sz st1 d;
                 ((r, out1), st3, d1) \<leftarrow> put_word (of_int ret) 0 out st2 d;
                 Some ((0, out1),
                   if ret = 0 then
                     (let st4 = DI_SetMode MODE_FRAG st3 in
                      st4\<lparr> dipCfgState := \<lparr> ds_mode = dc_mode (config st4), ds_device = device,
                                             ds_frag_size = sz \<rparr> \<rparr>)
                   else st3, d1) }
          else Some ((0, out), st1, d) }"

definition cmd_read ::
  "'d dip_env \<Rightarrow> u32 \<Rightarrow> u32 list \<Rightarrow> u32 \<Rightarrow> bytes \<Rightarrow> dip_state \<Rightarrow> 'd \<Rightarrow> 'd di_result"
where
  "cmd_read E cmd inbuf mem out st d =
     do { len \<leftarrow> rd inbuf 1; offset \<leftarrow> rd inbuf 2;
          if cmd = IOCTL_DI_READ_D0
          then DI_ReadUnencrypted E mem out (push_bit 11 len) (push_bit 9 offset) st d
          else DI_ReadUnencrypted E mem out len offset st d }"

definition ffs_device :: "u32 \<Rightarrow> u32" where
  "ffs_device mode = (if mode AND ISFS_MODE_SDHC \<noteq> 0 then 0 else 1)"

text \<open>The emulation of the file system is read back, switched off and saved; the path buffer takes
  what \<open>ISFS_GetMode\<close> puts into it.\<close>

definition save_ffs :: "'d dip_env \<Rightarrow> dip_state \<Rightarrow> 'd \<Rightarrow> s32 \<times> dip_state \<times> 'd" where
  "save_ffs E st d =
     (case pe_isfs_getmode E d of ((ret, got), d1) \<Rightarrow>
        let st1 = (case got of None \<Rightarrow> st
                   | Some (m, p) \<Rightarrow> st\<lparr> ffsCfgState := (ffsCfgState st)\<lparr> fs_mode := m,
                       fs_path := over p (fs_path (ffsCfgState st)) \<rparr> \<rparr>)
        in if ret < 0 then (ret, st1, d1)
           else if fs_mode (ffsCfgState st1) \<noteq> 0 then
             (case pe_fat_partition E (ffs_device (fs_mode (ffsCfgState st1))) d1 of (part, d2) \<Rightarrow>
                let st2 = (case part of None \<Rightarrow> st1
                           | Some q \<Rightarrow> st1\<lparr> ffsCfgState := (ffsCfgState st1)\<lparr> fs_partition := q \<rparr> \<rparr>)
                in case FFS_Config_Save (pe_files E) (ffsCfgState st2) (pe_isfs_setmode E 0 [] d2) of
                     (r, d3) \<Rightarrow> (r, st2, d3))
           else (ret, st1, d1))"

definition cmd_save_config :: "'d dip_env \<Rightarrow> bytes \<Rightarrow> dip_state \<Rightarrow> 'd \<Rightarrow> 'd di_result" where
  "cmd_save_config E out st d =
     (case save_ffs E st d of (ret, st1, d1) \<Rightarrow>
        if ret < 0 then Some ((ret, out), st1, d1)
        else if DI_ChkMode st1 MODE_EMUL then
          do { (r, d2) \<leftarrow> DI_Config_Save (pe_files E) (dipCfgState st1) (fraglist_data st1) d1;
               Some ((if r < 0 then r else 0, out), st1, d2) }
        else Some ((0, out), st1, d1))"

text \<open>A raw command writes 32 bytes to the registers of the drive and waits for the end of the transfer
  (\<open>pe_regs\<close>: the registers then, and the word behind them; \<open>None\<close> when it never ends). A null output
  buffer is the empty one.\<close>

definition DI_CustomCmd :: "'d dip_env \<Rightarrow> u32 \<Rightarrow> bytes \<Rightarrow> 'd \<Rightarrow> ((s32 \<times> bytes) \<times> 'd) option" where
  "DI_CustomCmd E addr out d =
     do { ((regs, r), d') \<leftarrow> pe_regs E (pe_mem E addr 32 d) d;
          if out = [] then Some ((sint r, out), d')
          else if length out < 32 then None
          else Some ((sint r, blit out 0 (take 32 regs)), d') }"

text \<open>The custom commands (codes \<open>0xF0\<close> and up, without the request of the ES module).\<close>

definition custom_cmd :: "'d dip_env \<Rightarrow> u32 \<Rightarrow> u32 list \<Rightarrow> bytes \<Rightarrow> dip_state \<Rightarrow> 'd \<Rightarrow> 'd di_result" where
  "custom_cmd E cmd inbuf out st d =
     (if cmd = 0xF0 then
        do { v \<leftarrow> rd inbuf 1; Some ((0, out), st\<lparr> config := (config st)\<lparr> dc_offset0 := v \<rparr> \<rparr>, d) }
      else if cmd = 0xF1 then put_word (dc_offset0 (config st)) 0 out st d
      else if cmd = 0xF2 then
        do { v \<leftarrow> rd inbuf 1;
             Some ((0, out), if v \<noteq> 0 then DI_SetMode MODE_CRYPT st else DI_DelMode MODE_CRYPT st, d) }
      else if cmd = 0xF3 then put_word (dc_mode (config st) AND MODE_CRYPT) 0 out st d
      else if cmd = 0xF4 then cmd_wbfs_set E inbuf out st d
      else if cmd = 0xF5 then put_word (dc_mode (config st) AND MODE_WBFS) 0 out st d
      else if cmd = 0xF6 then
        do { v \<leftarrow> rd inbuf 1; Some ((0, out), st\<lparr> config := (config st)\<lparr> dc_noreset := v \<rparr> \<rparr>, d) }
      else if cmd = 0xF9 then cmd_frag_set E inbuf out st d
      else if cmd = 0xFA then put_word (dc_mode (config st)) 0 out st d
      else
        do { v \<leftarrow> rd inbuf 1;
             (res, d') \<leftarrow> DI_CustomCmd E (v AND 0x7FFFFFFF) out d;
             Some (res, st, d') })"

definition custom_codes :: "u32 list" where
  "custom_codes = [0xF0, 0xF1, 0xF2, 0xF3, 0xF4, 0xF5, 0xF6, 0xF9, 0xFA, 0xFF]"

definition drive_cmds ::
  "'d dip_env \<Rightarrow> u32 \<Rightarrow> u32 \<Rightarrow> u32 list \<Rightarrow> u32 \<Rightarrow> bytes \<Rightarrow> u32 \<Rightarrow> dip_state \<Rightarrow> 'd \<Rightarrow> 'd di_result"
where
  "drive_cmds E addr cmd inbuf mem out sz st d =
     (if cmd = 0x8A then cmd_reset E inbuf out (unat sz) st d
      else if cmd = 0x70 then cmd_readid E addr inbuf mem out sz st d
      else if cmd = 0x71 then
        (if DI_ChkMode st MODE_CRYPT then cmd_read E cmd inbuf mem out st d else pass E inbuf out (unat sz) st d)
      else if cmd = 0x8D \<or> cmd = IOCTL_DI_READ_A8 \<or> cmd = IOCTL_DI_READ_D0 then cmd_read E cmd inbuf mem out st d
      else if cmd = 0xDA then DI_ReadUnencrypted E mem out sz 0x40 st d
      else if cmd = 0xD9 then cmd_offset E inbuf out (unat sz) st d
      else if cmd = 0xAB \<or> cmd = 0xE4 then
        (if DI_ChkMode st (MODE_DVDROM OR MODE_EMUL) then Some ((0, out), st, d) else pass E inbuf out (unat sz) st d)
      else if cmd = 0xA4 then
        (if DI_ChkMode st (MODE_DVDROM OR MODE_EMUL) then Some ((DIP_EIO, out), set_error ERROR_WRONG_DISC st, d)
         else pass E inbuf out (unat sz) st d)
      else if cmd = 0xDB then
        (if DI_ChkMode st MODE_EMUL then put_word 0 0 out st d else pass E inbuf out (unat sz) st d)
      else if cmd = 0xE0 then
        (if DI_ChkMode st MODE_EMUL \<or> dc_error (config st) \<noteq> 0 then put_word (dc_error (config st)) 0 out st d
         else pass E inbuf out (unat sz) st d)
      else pass E inbuf out (unat sz) st d)"

text \<open>\<open>addr\<close> is the address at which the heap would place a sector buffer.\<close>

definition DI_EmulateCmd ::
  "'d dip_env \<Rightarrow> u32 \<Rightarrow> u32 list \<Rightarrow> u32 \<Rightarrow> bytes \<Rightarrow> u32 \<Rightarrow> dip_state \<Rightarrow> 'd \<Rightarrow> 'd di_result"
where
  "DI_EmulateCmd E addr inbuf mem out sz st0 d =
     do { w \<leftarrow> rd inbuf 0;
          let cmd = drop_bit 24 w;
              st = (if cmd \<noteq> 0xE0 then set_error 0 st0 else st0)
          in if cmd \<in> set custom_codes then
               (case pe_running_title E d of (running, d1) \<Rightarrow>
                  if running then pass E inbuf out (unat sz) st d1 else custom_cmd E cmd inbuf out st d1)
             else if cmd = 0xFE then
               (case pe_es_request E d of (from_es, d1) \<Rightarrow>
                  if \<not> from_es then pass E inbuf out (unat sz) st d1 else cmd_save_config E out st d1)
             else drive_cmds E addr cmd inbuf mem out sz st d }"

section \<open>Requests\<close>

definition DI_EmulateIoctl ::
  "'d dip_env \<Rightarrow> u32 \<Rightarrow> bytes \<Rightarrow> dip_state \<Rightarrow> 'd \<Rightarrow> 'd di_result"
where
  "DI_EmulateIoctl E cmd out st d =
     (let orig = (case pe_ioctl E cmd out d of ((r, bs), d') \<Rightarrow> Some ((r, over bs out), st, d'))
      in if \<not> DI_ChkMode st MODE_EMUL then orig
         else if cmd = 0x79 then Some ((1, out), st, d)
         else if cmd = 0x7A then put_word (dc_cover (config st)) 1 out st d
         else if cmd = 0x86 then
           Some ((1, out), st\<lparr> config := (config st)\<lparr> dc_cover := dc_cover (config st) AND NOT 4 \<rparr> \<rparr>, d)
         else if cmd = 0x88 then put_word 0x02 1 out st d
         else if cmd = 0x95 then put_word 0x0A 1 out st d
         else orig)"

section \<open>After a reload\<close>

definition init_emulation_dip :: "'d dip_env \<Rightarrow> dip_state \<Rightarrow> 'd \<Rightarrow> (dip_state \<times> 'd) option" where
  "init_emulation_dip E st d =
     (case DI_Config_Load (pe_files E) (dipCfgState st) (fraglist_data st) d of (ret, cfg, data, d1) \<Rightarrow>
        let st1 = st\<lparr> dipCfgState := cfg, fraglist_data := data \<rparr> in
        if ret > 0 then
          let st2 = st1\<lparr> config := (config st1)\<lparr> dc_mode := ds_mode cfg \<rparr> \<rparr> in
          if DI_ChkMode st2 MODE_WBFS then
            do { (r, st3, d2) \<leftarrow> WBFS_Open E (ds_device cfg - 1) (pe_mem E 0 6 d1) st2 d1; Some (st3, d2) }
          else if DI_ChkMode st2 MODE_FRAG then
            do { (r, st3) \<leftarrow> frag_init E (ds_device cfg) (fraglist_data st2) (ds_frag_size cfg) st2 d1;
                 Some (st3, d1) }
          else Some (st2, d1)
        else Some (st1, d1))"

definition init_emulation_ffs :: "'d dip_env \<Rightarrow> dip_state \<Rightarrow> 'd \<Rightarrow> dip_state \<times> 'd" where
  "init_emulation_ffs E st d =
     (case FFS_Config_Load (pe_files E) (ffsCfgState st) d of (ret, cfg, d1) \<Rightarrow>
        (st\<lparr> ffsCfgState := cfg \<rparr>,
         if ret > 0 \<and> fs_mode cfg \<noteq> 0
         then pe_isfs_setmode E (fs_mode cfg) (fs_path cfg)
                (pe_fat_mount E (ffs_device (fs_mode cfg)) (fs_partition cfg) d1)
         else d1))"

definition DI_InitDriveEmulation :: "'d dip_env \<Rightarrow> dip_state \<Rightarrow> 'd \<Rightarrow> (dip_state \<times> 'd) option" where
  "DI_InitDriveEmulation E st d =
     do { (st1, d1) \<leftarrow> init_emulation_dip E st d; Some (init_emulation_ffs E st1 d1) }"

definition DI_EmulateInitDrive :: "'d dip_env \<Rightarrow> dip_state \<Rightarrow> 'd \<Rightarrow> (dip_state \<times> 'd) option" where
  "DI_EmulateInitDrive E st d = DI_InitDriveEmulation E st (pe_init_drive E (pe_thread_rights E d))"

section \<open>What a command leaves alone\<close>

text \<open>The media of the emulation: fragment list, device, saved state, and the emulation bits of the mode.\<close>

definition media_eq :: "dip_state \<Rightarrow> dip_state \<Rightarrow> bool" where
  "media_eq st st' \<longleftrightarrow> frag st' = frag st \<and> devFd st' = devFd st \<and> dipCfgState st' = dipCfgState st
     \<and> ffsCfgState st' = ffsCfgState st \<and> fraglist_data st' = fraglist_data st
     \<and> dc_mode (config st') AND MODE_EMUL = dc_mode (config st) AND MODE_EMUL"

lemma media_eq_refl [simp]: "media_eq st st"
  by (simp add: media_eq_def)

lemma media_eq_trans [trans]: "media_eq a b \<Longrightarrow> media_eq b c \<Longrightarrow> media_eq a c"
  by (simp add: media_eq_def)

lemma mode_or_emul: "b AND MODE_EMUL = 0 \<Longrightarrow> (m OR b) AND MODE_EMUL = m AND MODE_EMUL" for m b :: u32
  by (simp add: bit.conj_disj_distrib2)

lemma media_eq_simps [simp]:
  "media_eq st (set_error e st')  = media_eq st st'"
  "media_eq (set_error e st) st'  = media_eq st st'"
  "media_eq st (DI_SetMode MODE_DVDROM st') = media_eq st st'"
  "media_eq st (DI_SetMode MODE_CRYPT st') = media_eq st st'"
  "media_eq st (DI_DelMode MODE_CRYPT st') = media_eq st st'"
  "media_eq st (DI_DelMode MODE_DVDROM st') = media_eq st st'"
  by (simp_all add: media_eq_def set_error_def DI_SetMode_def DI_DelMode_def mode_or_emul and.assoc)

lemma media_eq_config:
  "dc_mode c = dc_mode (config st') \<Longrightarrow> media_eq st (st'\<lparr> config := c \<rparr>) = media_eq st st'"
  by (simp add: media_eq_def)

lemma pass_media: "pass E inbuf out sz st d = Some (res, st', d') \<Longrightarrow> st' = st"
  by (auto simp: pass_def)

lemma put_word_media: "put_word v r out st d = Some (res, st', d') \<Longrightarrow> st' = st"
  by (auto simp: put_word_def split: if_splits)

lemma check_offset_media: "DI_CheckOffset off st = (r, st') \<Longrightarrow> media_eq st st'"
  by (auto simp: DI_CheckOffset_def split: if_splits)

lemma read_media:
  assumes "DI_ReadUnencrypted E mem out len off st d = Some (res, st', d')"
  shows "media_eq st st'"
proof -
  obtain r st1 where c: "DI_CheckOffset off st = (r, st1)" by fastforce
  have "st' = st1" using assms
    by (auto simp: DI_ReadUnencrypted_def c Let_def split: if_splits Option.bind_splits sum.splits prod.splits)
  then show ?thesis using check_offset_media [OF c] by simp
qed

lemma read_id_media:
  assumes "DI_ReadDiscId E mem out len st d = Some (res, st', d')"
  shows "media_eq st st'"
  using assms
  by (auto simp: DI_ReadDiscId_def split: Option.bind_splits if_splits prod.splits dest!: read_media)

lemma check_disc_media:
  assumes "DI_CheckDisc E addr st d = Some (st', d')"
  shows "media_eq st st'"
  using assms
  by (auto simp: DI_CheckDisc_def media_eq_config split: option.splits prod.splits Option.bind_splits
      dest!: read_media)

lemma reset_media: "media_eq st (DI_ResetConfig st)"
  by (simp add: DI_ResetConfig_def Let_def media_eq_config)

lemma cmd_reset_media: "cmd_reset E inbuf out sz st d = Some (res, st', d') \<Longrightarrow> media_eq st st'"
  using reset_media [of st]
  by (auto simp: cmd_reset_def Let_def media_eq_config split: if_splits dest!: pass_media)

lemma cmd_readid_media:
  assumes "cmd_readid E addr inbuf mem out sz st d = Some (res, st', d')"
  shows "media_eq st st'"
proof -
  let ?first = "if \<not> DI_ChkMode st MODE_EMUL then
                do { ((r, o1), s1, d') \<leftarrow> pass E inbuf out (unat sz) st d;
                     Some ((r, o1), if r \<noteq> 0 then DI_SetMode MODE_DVDROM s1 else s1, d') }
              else Some ((0, out), st, d)"
  obtain r1 out1 st1 d1 where a: "?first = Some ((r1, out1), st1, d1)"
    using assms by (auto simp: cmd_readid_def Let_def split: Option.bind_splits)
  have m1: "media_eq st st1" using a by (auto split: if_splits Option.bind_splits dest!: pass_media)
  obtain r2 out2 st2 d2 where b: "(if DI_ChkMode st1 (MODE_DVDROM OR MODE_EMUL)
      \<or> dc_offset0 (config st) OR dc_offset1 (config st) \<noteq> 0
      then DI_ReadDiscId E mem out1 sz st1 d1 else Some ((r1, out1), st1, d1)) = Some ((r2, out2), st2, d2)"
    using assms a by (auto simp: cmd_readid_def Let_def split: Option.bind_splits)
  have "media_eq st1 st2" using b by (auto split: if_splits dest: read_id_media)
  with m1 have m2: "media_eq st st2" by (rule media_eq_trans)
  have "media_eq st2 st'" using assms a b
    by (auto simp: cmd_readid_def Let_def media_eq_config split: if_splits Option.bind_splits dest: check_disc_media)
  with m2 show ?thesis by (rule media_eq_trans)
qed

lemma cmd_read_media: "cmd_read E cmd inbuf mem out st d = Some (res, st', d') \<Longrightarrow> media_eq st st'"
  by (auto simp: cmd_read_def split: Option.bind_splits if_splits dest: read_media)

lemma cmd_offset_media: "cmd_offset E inbuf out sz st d = Some (res, st', d') \<Longrightarrow> media_eq st st'"
  by (auto simp: cmd_offset_def media_eq_config split: if_splits Option.bind_splits dest!: pass_media)

lemma drive_cmds_media:
  "drive_cmds E addr cmd inbuf mem out sz st d = Some (res, st', d') \<Longrightarrow> media_eq st st'"
  unfolding drive_cmds_def
  by (auto split: if_splits dest!: pass_media put_word_media
      dest: read_media cmd_reset_media cmd_readid_media cmd_read_media cmd_offset_media)

section \<open>Every reachable state\<close>

text \<open>
  A mode bit is set only over an open medium, or the start (\<open>s0\<close> is the state after it) has set it over none.
  Each redirection is kept on its own.
\<close>

definition media_ok :: "dip_state \<Rightarrow> dip_state \<Rightarrow> bool" where
  "media_ok s0 st \<longleftrightarrow>
     (DI_ChkMode st MODE_WBFS \<longrightarrow> 0 \<le> devFd st \<or> DI_ChkMode s0 MODE_WBFS \<and> devFd s0 < 0)
   \<and> (DI_ChkMode st MODE_FRAG \<longrightarrow> frag_list (frag st) \<noteq> None \<or> DI_ChkMode s0 MODE_FRAG \<and> frag_list (frag s0) = None)"

lemma media_ok_start: "media_ok s0 s0"
  by (auto simp: media_ok_def)

lemma media_eq_ChkMode:
  assumes "media_eq st st'"
  shows "DI_ChkMode st' MODE_WBFS = DI_ChkMode st MODE_WBFS" "DI_ChkMode st' MODE_FRAG = DI_ChkMode st MODE_FRAG"
proof -
  have e: "dc_mode (config st') AND MODE_EMUL = dc_mode (config st) AND MODE_EMUL" using assms by (simp add: media_eq_def)
  have w: "dc_mode (config x) AND MODE_WBFS = (dc_mode (config x) AND MODE_EMUL) AND MODE_WBFS"
    and f: "dc_mode (config x) AND MODE_FRAG = (dc_mode (config x) AND MODE_EMUL) AND MODE_FRAG" for x :: dip_state
    by (simp_all add: and.assoc)
  show "DI_ChkMode st' MODE_WBFS = DI_ChkMode st MODE_WBFS" by (simp only: DI_ChkMode_def w e)
  show "DI_ChkMode st' MODE_FRAG = DI_ChkMode st MODE_FRAG" by (simp only: DI_ChkMode_def f e)
qed

lemma media_ok_eq: "media_eq st st' \<Longrightarrow> media_ok s0 st' = media_ok s0 st"
  using media_eq_ChkMode [of st st'] by (simp add: media_ok_def media_eq_def)

lemma chk_set_del:
  "DI_ChkMode (DI_SetMode MODE_WBFS st) MODE_FRAG = DI_ChkMode st MODE_FRAG"
  "DI_ChkMode (DI_SetMode MODE_FRAG st) MODE_WBFS = DI_ChkMode st MODE_WBFS"
  "DI_ChkMode (DI_DelMode MODE_WBFS st) MODE_FRAG = DI_ChkMode st MODE_FRAG"
  "DI_ChkMode (DI_DelMode MODE_FRAG st) MODE_WBFS = DI_ChkMode st MODE_WBFS"
  "\<not> DI_ChkMode (DI_DelMode MODE_WBFS st) MODE_WBFS" "\<not> DI_ChkMode (DI_DelMode MODE_FRAG st) MODE_FRAG"
  by (simp_all add: DI_ChkMode_def DI_SetMode_def DI_DelMode_def bit.conj_disj_distrib2 and.assoc)

lemma chk_emul: "DI_ChkMode st MODE_EMUL \<longleftrightarrow> DI_ChkMode st MODE_WBFS \<or> DI_ChkMode st MODE_FRAG"
proof -
  have "dc_mode (config st) AND MODE_EMUL = (dc_mode (config st) AND MODE_WBFS) OR (dc_mode (config st) AND MODE_FRAG)"
    by (simp flip: bit.conj_disj_distrib)
  then show ?thesis by (simp add: DI_ChkMode_def or_eq_0_iff)
qed

lemma mode_frame [simp]:
  "devFd (DI_SetMode b st) = devFd st" "devFd (DI_DelMode b st) = devFd st"
  "frag (DI_SetMode b st) = frag st" "frag (DI_DelMode b st) = frag st"
  by (simp_all add: DI_SetMode_def DI_DelMode_def)

lemma chk_frame [simp]:
  "DI_ChkMode (st\<lparr> devFd := a \<rparr>) b = DI_ChkMode st b" "DI_ChkMode (st\<lparr> frag := f \<rparr>) b = DI_ChkMode st b"
  "DI_ChkMode (st\<lparr> dipCfgState := c \<rparr>) b = DI_ChkMode st b"
  "DI_ChkMode (st\<lparr> ffsCfgState := g \<rparr>) b = DI_ChkMode st b"
  "DI_ChkMode (st\<lparr> fraglist_data := x \<rparr>) b = DI_ChkMode st b"
  by (simp_all add: DI_ChkMode_def)

lemma wbfs_open_frame:
  assumes "WBFS_Open E device discid st d = Some (r, st', d')"
  shows "\<exists>fd. st' = st\<lparr> devFd := fd \<rparr> \<and> (r = 0 \<longrightarrow> 0 \<le> fd)"
  using assms by (auto simp: WBFS_Open_def Let_def split: Option.bind_splits prod.splits if_splits)

lemma cmd_wbfs_set_ok:
  assumes "cmd_wbfs_set E inbuf out st d = Some (res, st', d')" and ok: "media_ok s0 st"
  shows "media_ok s0 st'"
proof -
  obtain device where dev: "rd inbuf 1 = Some device"
    using assms(1) by (auto simp: cmd_wbfs_set_def split: Option.bind_splits)
  let ?st2 = "DI_DelMode MODE_WBFS (st\<lparr> devFd := -1 \<rparr>)"
  have f2: "DI_ChkMode ?st2 MODE_FRAG \<longrightarrow> frag_list (frag ?st2) \<noteq> None \<or> DI_ChkMode s0 MODE_FRAG \<and> frag_list (frag s0) = None"
    using ok by (simp add: media_ok_def chk_set_del)
  show ?thesis
  proof (cases "device = 0")
    case True
    then have "st' = ?st2" using assms(1) dev by (simp add: cmd_wbfs_set_def WBFS_Close_def)
    then show ?thesis using f2 by (simp add: media_ok_def chk_set_del)
  next
    case False
    then obtain ret st3 d1 d2 a b where o: "WBFS_Open E (device - 1) (put_be32 a @ put_be32 b) ?st2 d1 = Some (ret, st3, d2)"
      and e: "st' = (if ret = 0 then (DI_SetMode MODE_WBFS st3)\<lparr> dipCfgState :=
          \<lparr> ds_mode = dc_mode (config (DI_SetMode MODE_WBFS st3)), ds_device = device, ds_frag_size = 0 \<rparr> \<rparr> else st3)"
      using assms(1) dev by (auto simp: cmd_wbfs_set_def WBFS_Close_def Let_def split: Option.bind_splits)
    obtain fd where fd: "st3 = ?st2\<lparr> devFd := fd \<rparr>" "ret = 0 \<longrightarrow> 0 \<le> fd" using wbfs_open_frame [OF o] by blast
    show ?thesis
    proof (cases "ret = 0")
      case True
      then show ?thesis using e fd f2 by (simp add: media_ok_def chk_set_del)
    next
      case False
      then show ?thesis using e fd f2 by (simp add: media_ok_def chk_set_del)
    qed
  qed
qed

lemma frag_init_frame:
  assumes "frag_init E device bs sz st d = Some (ret, st')"
  shows "\<exists>f x. st' = st\<lparr> frag := f, fraglist_data := x \<rparr> \<and> (ret = 0 \<longrightarrow> frag_list f \<noteq> None)"
  using assms
  by (auto simp: frag_init_def Frag_Init_def Let_def split: Option.bind_splits if_splits)

lemma cmd_frag_set_ok:
  assumes "cmd_frag_set E inbuf out st d = Some (res, st', d')" and ok: "media_ok s0 st"
  shows "media_ok s0 st'"
proof -
  obtain device fraglist sz where w: "rd inbuf 1 = Some device" "rd inbuf 2 = Some fraglist" "rd inbuf 3 = Some sz"
    using assms(1) by (auto simp: cmd_frag_set_def split: Option.bind_splits)
  let ?st1 = "DI_DelMode MODE_FRAG (st\<lparr> frag := Frag_Close (frag st) \<rparr>)"
  have w1: "DI_ChkMode ?st1 MODE_WBFS \<longrightarrow> 0 \<le> devFd ?st1 \<or> DI_ChkMode s0 MODE_WBFS \<and> devFd s0 < 0" using ok by (simp add: media_ok_def chk_set_del)
  show ?thesis
  proof (cases "device \<noteq> 0 \<and> fraglist \<noteq> 0 \<and> sz \<noteq> 0")
    case True
    then obtain ret st2 bs where i: "frag_init E device bs sz ?st1 d = Some (ret, st2)"
      and e: "st' = (if ret = 0 then (DI_SetMode MODE_FRAG st2)\<lparr> dipCfgState :=
          \<lparr> ds_mode = dc_mode (config (DI_SetMode MODE_FRAG st2)), ds_device = device, ds_frag_size = sz \<rparr> \<rparr> else st2)"
      using assms(1) w
      by (auto simp: cmd_frag_set_def put_word_def Let_def split: Option.bind_splits if_splits)
    obtain f x where f: "st2 = ?st1\<lparr> frag := f, fraglist_data := x \<rparr>" "ret = 0 \<longrightarrow> frag_list f \<noteq> None"
      using frag_init_frame [OF i] by blast
    show ?thesis
    proof (cases "ret = 0")
      case True
      then show ?thesis using e f w1 by (simp add: media_ok_def chk_set_del)
    next
      case False
      then show ?thesis using e f w1 by (simp add: media_ok_def chk_set_del)
    qed
  next
    case False
    then have "st' = ?st1" using assms(1) w by (auto simp: cmd_frag_set_def Let_def)
    then show ?thesis using w1 by (simp add: media_ok_def chk_set_del)
  qed
qed

lemma save_ffs_frame: "save_ffs E st d = (r, st', d') \<Longrightarrow> \<exists>c. st' = st\<lparr> ffsCfgState := c \<rparr>"
  by (auto simp: save_ffs_def Let_def split: prod.splits option.splits if_splits)
    (metis dip_state.surjective dip_state.update_convs(3))+

lemma cmd_save_ok:
  assumes "cmd_save_config E out st d = Some (res, st', d')" and "media_ok s0 st"
  shows "media_ok s0 st'"
proof -
  obtain r st1 d1 where s: "save_ffs E st d = (r, st1, d1)" by (metis prod_cases3)
  from save_ffs_frame [OF s] obtain c where c: "st1 = st\<lparr> ffsCfgState := c \<rparr>" by (elim exE)
  have "st' = st1" using assms(1) s by (auto simp: cmd_save_config_def split: if_splits Option.bind_splits)
  then show ?thesis using assms(2) c by (simp add: media_ok_def)
qed

lemma media_ok_simps [simp]:
  "media_ok s0 (st\<lparr> config := (config st)\<lparr> dc_offset0 := v \<rparr> \<rparr>) = media_ok s0 st"
  "media_ok s0 (st\<lparr> config := (config st)\<lparr> dc_noreset := v \<rparr> \<rparr>) = media_ok s0 st"
  "media_ok s0 (st\<lparr> config := (config st)\<lparr> dc_cover := v \<rparr> \<rparr>) = media_ok s0 st"
  "media_ok s0 (set_error e st) = media_ok s0 st"
  "media_ok s0 (DI_SetMode MODE_CRYPT st) = media_ok s0 st" "media_ok s0 (DI_DelMode MODE_CRYPT st) = media_ok s0 st"
  by (auto intro!: media_ok_eq simp: media_eq_config)

lemma custom_cmd_ok:
  assumes "custom_cmd E cmd inbuf out st d = Some (res, st', d')" and "media_ok s0 st"
  shows "media_ok s0 st'"
  using assms unfolding custom_cmd_def
  by (auto split: if_splits Option.bind_splits prod.splits dest!: put_word_media
      dest: cmd_wbfs_set_ok cmd_frag_set_ok)

lemma emulate_cmd_ok:
  assumes "DI_EmulateCmd E addr inbuf mem out sz st d = Some (res, st', d')" and "media_ok s0 st"
  shows "media_ok s0 st'"
  using assms unfolding DI_EmulateCmd_def Let_def
  by (auto split: Option.bind_splits if_splits prod.splits dest!: pass_media drive_cmds_media
      dest: custom_cmd_ok cmd_save_ok simp: media_ok_eq)

lemma emulate_ioctl_ok:
  assumes "DI_EmulateIoctl E cmd out st d = Some (res, st', d')" and "media_ok s0 st"
  shows "media_ok s0 st'"
  using assms unfolding DI_EmulateIoctl_def Let_def
  by (auto split: if_splits prod.splits dest!: put_word_media)

text \<open>
  The states of the plugin: the start, which runs once on the first message and restores what was saved before a
  reload, leads to \<open>s0\<close>; commands and requests follow in any order.
\<close>

inductive dip_reach :: "'d dip_env \<Rightarrow> 'd \<Rightarrow> dip_state \<Rightarrow> dip_state \<Rightarrow> bool" for E :: "'d dip_env" and d0 :: 'd and s0 :: dip_state where
  start: "DI_EmulateInitDrive E dip_zero d0 = Some (s0, d1) \<Longrightarrow> dip_reach E d0 s0 s0"
| cmd: "dip_reach E d0 s0 st \<Longrightarrow> DI_EmulateCmd E addr inbuf mem out sz st d = Some (res, st', d') \<Longrightarrow> dip_reach E d0 s0 st'"
| ioctl: "dip_reach E d0 s0 st \<Longrightarrow> DI_EmulateIoctl E c out st d = Some (res, st', d') \<Longrightarrow> dip_reach E d0 s0 st'"

inductive_cases dip_reachE: "dip_reach E d0 s0 st"

lemma dip_reach_start: "dip_reach E d0 s0 st \<Longrightarrow> \<exists>d1. DI_EmulateInitDrive E dip_zero d0 = Some (s0, d1)"
  by (induction rule: dip_reach.induct) auto

lemma dip_reach_media: "dip_reach E d0 s0 st \<Longrightarrow> media_ok s0 st"
proof (induction rule: dip_reach.induct)
  case start
  show ?case by (rule media_ok_start)
next
  case cmd
  show ?case by (rule emulate_cmd_ok [OF cmd.hyps(2) cmd.IH])
next
  case ioctl
  show ?case by (rule emulate_ioctl_ok [OF ioctl.hyps(2) ioctl.IH])
qed

text \<open>The saved state the start looks for, and what the start leaves when there is none.\<close>

definition saved_state :: "'d dip_env \<Rightarrow> 'd \<Rightarrow> s32" where
  "saved_state E d0 = fst (DI_Config_Load (pe_files E) (dipCfgState dip_zero) (fraglist_data dip_zero)
     (pe_init_drive E (pe_thread_rights E d0)))"

lemma init_ffs_mode: "init_emulation_ffs E st d = (st', d') \<Longrightarrow> DI_ChkMode st' b = DI_ChkMode st b"
  by (auto simp: init_emulation_ffs_def split: prod.splits)

lemma start_without_saved_state:
  assumes "DI_EmulateInitDrive E dip_zero d0 = Some (s0, d1)" and "saved_state E d0 \<le> 0"
  shows "\<not> DI_ChkMode s0 MODE_EMUL"
proof -
  let ?d = "pe_init_drive E (pe_thread_rights E d0)"
  obtain r c bs d2 where l: "DI_Config_Load (pe_files E) (dipCfgState dip_zero) (fraglist_data dip_zero) ?d = (r, c, bs, d2)"
    by (rule prod_cases4)
  have r: "\<not> r > 0" using assms(2) l by (simp add: saved_state_def)
  have "init_emulation_dip E dip_zero ?d = Some (dip_zero\<lparr> dipCfgState := c, fraglist_data := bs \<rparr>, d2)"
    using l r by (simp add: init_emulation_dip_def Let_def)
  then obtain d3 where "init_emulation_ffs E (dip_zero\<lparr> dipCfgState := c, fraglist_data := bs \<rparr>) d2 = (s0, d3)"
    using assms(1) by (simp add: DI_EmulateInitDrive_def DI_InitDriveEmulation_def)
  from init_ffs_mode [OF this] have "DI_ChkMode s0 MODE_EMUL = DI_ChkMode dip_zero MODE_EMUL" by simp
  then show ?thesis by (simp add: DI_ChkMode_def dip_zero_def)
qed

section \<open>The fragment mode from command to read\<close>

lemma set_error_frame [simp]:
  "frag (set_error e st) = frag st" "dc_type (config (set_error e st)) = dc_type (config st)"
  "dc_offset0 (config (set_error e st)) = dc_offset0 (config st)"
  "dc_offset1 (config (set_error e st)) = dc_offset1 (config st)"
  by (simp_all add: set_error_def)

lemma cmd_frag_set_on:
  assumes "cmd_frag_set E inbuf out st d = Some (res, st', d')" and "DI_ChkMode st' MODE_FRAG"
    and "rd inbuf 1 = Some device" and "rd inbuf 2 = Some fl" and "rd inbuf 3 = Some sz"
  shows "Frag_Init (pe_frag_ready E d) (pe_usb_sector E d) (pe_alloc_ok E d) device
      (pe_mem E (fl AND 0x7FFFFFFF) (unat sz) d) (sint sz) (Frag_Close (frag st)) = Some (0, frag st')"
    and "dc_type (config st') = dc_type (config st)"
    and "dc_offset0 (config st') = dc_offset0 (config st)" and "dc_offset1 (config st') = dc_offset1 (config st)"
proof -
  have off: "\<not> DI_ChkMode (DI_DelMode MODE_FRAG s\<lparr> frag := f, fraglist_data := b \<rparr>) MODE_FRAG" for s f b
    by (simp add: DI_ChkMode_def DI_DelMode_def and.assoc)
  show "Frag_Init (pe_frag_ready E d) (pe_usb_sector E d) (pe_alloc_ok E d) device
      (pe_mem E (fl AND 0x7FFFFFFF) (unat sz) d) (sint sz) (Frag_Close (frag st)) = Some (0, frag st')"
    using assms off chk_set_del(6)
    by (auto simp: cmd_frag_set_def frag_init_def put_word_def Let_def DI_SetMode_def
        split: Option.bind_splits if_splits)
  show "dc_type (config st') = dc_type (config st)"
    "dc_offset0 (config st') = dc_offset0 (config st)" "dc_offset1 (config st') = dc_offset1 (config st)"
    using assms(1)
    by (auto simp: cmd_frag_set_def frag_init_def put_word_def Let_def DI_SetMode_def DI_DelMode_def
        split: Option.bind_splits if_splits)
qed

lemma emulate_frag_set:
  assumes "DI_EmulateCmd E addr inbuf mem out sz st d = Some (res, st', d')" and "rd inbuf 0 = Some 0xF9000000"
    and "\<not> fst (pe_running_title E d)"
  shows "cmd_frag_set E inbuf out (set_error 0 st) (snd (pe_running_title E d)) = Some (res, st', d')"
  using assms by (simp add: DI_EmulateCmd_def custom_codes_def custom_cmd_def Let_def split: prod.splits)

lemma emulate_read_frag:
  assumes "cmd = 0x8D \<or> cmd = IOCTL_DI_READ_A8" and "rd inbuf 0 = Some (push_bit 24 cmd)"
    and "rd inbuf 1 = Some len" and "rd inbuf 2 = Some offset"
    and "fst (DI_CheckOffset offset st) = 0" and "DI_ChkMode st MODE_FRAG" and "frag_list (frag st) = Some ff"
    and "Frag_Read (pe_disk E d) (frag st) ff len (offset + (dc_offset0 (config st) + dc_offset1 (config st)))
      = Some (Inr bs)" and "length bs \<le> length out"
  shows "DI_EmulateCmd E addr inbuf mem out sz st d = Some ((0, blit out 0 bs), set_error 0 st, d)"
proof -
  have c: "drop_bit 24 (push_bit 24 cmd :: u32) = cmd" using assms(1) by auto
  have o: "DI_CheckOffset offset (set_error 0 st) = (0, set_error 0 st)"
    using assms(5) by (auto simp: DI_CheckOffset_def set_error_def split: if_splits)
  have m: "DI_ChkMode (set_error 0 st) MODE_FRAG" using assms(6) by (simp add: DI_ChkMode_def set_error_def)
  have "DI_ReadUnencrypted E mem out len offset (set_error 0 st) d = Some ((0, blit out 0 bs), set_error 0 st, d)"
    using assms(7-9) m by (simp add: DI_ReadUnencrypted_def o Let_def)
  then have "cmd_read E cmd inbuf mem out (set_error 0 st) d = Some ((0, blit out 0 bs), set_error 0 st, d)"
    using assms(1,3,4) by (auto simp: cmd_read_def)
  then show ?thesis
    using assms(1) unfolding DI_EmulateCmd_def assms(2) Option.bind.bind_lunit Let_def c custom_codes_def drive_cmds_def
    by (elim disjE) simp_all
qed

section \<open>Properties\<close>

text \<open>An environment with a working drive, a WBFS device on descriptor 5 and one fragment list in memory;
  \<open>title\<close> says whether a title is running.\<close>

definition demo_dip :: "bool \<Rightarrow> unit dip_env" where
  "demo_dip title = \<lparr> pe_drive = demo_drive, pe_ioctl = (\<lambda>c out d. ((0, []), d)), pe_init_drive = (\<lambda>d. d),
     pe_thread_rights = (\<lambda>d. d), pe_os_open = (\<lambda>n d. (5, d)), pe_os_close = (\<lambda>fd d. d),
     pe_wbfs_open = (\<lambda>fd i d. (0, d)), pe_wbfs_read = (\<lambda>fd o' l d. ((0, []), d)), pe_frag_ready = (\<lambda>d dev. False),
     pe_usb_sector = (\<lambda>d. 512), pe_alloc_ok = (\<lambda>d. True), pe_disk = (\<lambda>d dev s n. None),
     pe_partial = (\<lambda>out d. []), pe_mem = (\<lambda>a n d. []), pe_running_title = (\<lambda>d. (title, d)),
     pe_es_request = (\<lambda>d. (False, d)), pe_set_readctrl = (\<lambda>d. d), pe_readctrl1 = (\<lambda>d. (True, d)),
     pe_read_hash = (\<lambda>d. (0, d)),
     pe_files = \<lparr> fl_open = (\<lambda>n m d. (3, d)),
       fl_read = (\<lambda>fd n d. ((int n, if n = 12 then enc_dipConfigState
         \<lparr> ds_mode = MODE_FRAG, ds_device = 1, ds_frag_size = 24 \<rparr> else replicate n 0), d)),
       fl_write = (\<lambda>fd bs d. (int (length bs), d)), fl_close = (\<lambda>fd d. d), fl_isfs_open = (\<lambda>d. (0, d)),
       fl_isfs_close = (\<lambda>d. d), fl_create = (\<lambda>n d. (0, d)), fl_delete = (\<lambda>n d. (0, d)) \<rparr>,
     pe_isfs_getmode = (\<lambda>d. ((0, None), d)), pe_isfs_setmode = (\<lambda>m p d. d), pe_fat_mount = (\<lambda>a b d. d),
     pe_fat_partition = (\<lambda>a d. (None, d)), pe_regs = (\<lambda>bs d. Some ((bs, 0), d)) \<rparr>"

text \<open>
  C23. In every state the plugin reaches from its start by commands and requests, in any order and whatever the
  drive, the kernel and the media answer, a redirection is on only over an open medium (the WBFS mode over an open
  device, the fragment mode over a loaded list), unless the start itself has restored this redirection without its
  medium. A start that finds no saved state leaves both redirections off, so that then there is no exception.
\<close>

theorem dip_modes_have_media:
  assumes "dip_reach E d0 s0 st"
  shows "(DI_ChkMode st MODE_WBFS \<longrightarrow> 0 \<le> devFd st \<or> DI_ChkMode s0 MODE_WBFS \<and> devFd s0 < 0)
    \<and> (DI_ChkMode st MODE_FRAG \<longrightarrow> frag_list (frag st) \<noteq> None \<or> DI_ChkMode s0 MODE_FRAG \<and> frag_list (frag s0) = None)
    \<and> (saved_state E d0 \<le> 0 \<longrightarrow> \<not> DI_ChkMode s0 MODE_WBFS \<and> \<not> DI_ChkMode s0 MODE_FRAG)"
proof -
  obtain d1 where s: "DI_EmulateInitDrive E dip_zero d0 = Some (s0, d1)" using dip_reach_start [OF assms] by (elim exE)
  have "saved_state E d0 \<le> 0 \<longrightarrow> \<not> DI_ChkMode s0 MODE_EMUL" by (intro impI start_without_saved_state [OF s])
  moreover have "DI_ChkMode s0 MODE_EMUL \<longleftrightarrow> DI_ChkMode s0 MODE_WBFS \<or> DI_ChkMode s0 MODE_FRAG" by (rule chk_emul)
  ultimately show ?thesis using dip_reach_media [OF assms] unfolding media_ok_def by blast
qed

text \<open>The environment of the demonstration without saved states.\<close>

definition demo_fresh :: "unit dip_env" where
  "demo_fresh = (demo_dip False)\<lparr> pe_files := (pe_files (demo_dip False))\<lparr> fl_open := (\<lambda>n m d. (-1, d)) \<rparr> \<rparr>"

theorem dip_modes_have_media_witness:
  "\<exists>s0 st. dip_reach demo_fresh () s0 st \<and> DI_ChkMode st MODE_WBFS \<and> 0 \<le> devFd st \<and> \<not> DI_ChkMode s0 MODE_WBFS"
proof -
  have f: "DI_Config_Load (pe_files demo_fresh) c x () = (-1, c, x, ())" "FFS_Config_Load (pe_files demo_fresh) g () = (-1, g, ())" for c x g
    by (simp_all add: DI_Config_Load_def FFS_Config_Load_def demo_fresh_def)
  have s: "DI_EmulateInitDrive demo_fresh dip_zero () = Some (dip_zero, ())"
    by (simp add: DI_EmulateInitDrive_def DI_InitDriveEmulation_def init_emulation_dip_def init_emulation_ffs_def f)
  have "\<exists>res st' d'. DI_EmulateCmd demo_fresh 0 [0xF4000000, 1, 0, 0] 0 [] 0 dip_zero () = Some (res, st', d')
      \<and> DI_ChkMode st' MODE_WBFS"
    by (simp add: DI_EmulateCmd_def custom_codes_def custom_cmd_def cmd_wbfs_set_def WBFS_Close_def WBFS_Open_def
        demo_fresh_def demo_dip_def dip_zero_def set_error_def DI_SetMode_def DI_DelMode_def DI_ChkMode_def Let_def)
  then obtain res st' d' where
    c: "DI_EmulateCmd demo_fresh 0 [0xF4000000, 1, 0, 0] 0 [] 0 dip_zero () = Some (res, st', d')"
    and m: "DI_ChkMode st' MODE_WBFS" by (elim exE conjE)
  have r: "dip_reach demo_fresh () dip_zero st'" by (rule dip_reach.cmd [OF dip_reach.start [OF s] c])
  have "saved_state demo_fresh () \<le> 0" by (simp add: saved_state_def f)
  then show ?thesis using dip_modes_have_media [OF r] r m by (intro exI [of _ dip_zero] exI [of _ st']) auto
qed

text \<open>
  C24. A running title cannot touch the emulation: no command it sends, custom or not, changes the
  fragment list, the WBFS device, the saved state or the emulation bits of the mode.
\<close>

theorem running_title_keeps_media:
  assumes "DI_EmulateCmd E addr inbuf mem out sz st d = Some (res, st', d')"
    and "fst (pe_running_title E d)" and "\<not> fst (pe_es_request E d)"
  shows "frag st' = frag st \<and> devFd st' = devFd st \<and> dipCfgState st' = dipCfgState st
    \<and> ffsCfgState st' = ffsCfgState st \<and> fraglist_data st' = fraglist_data st
    \<and> dc_mode (config st') AND MODE_EMUL = dc_mode (config st) AND MODE_EMUL"
proof -
  have "media_eq st st'"
    using assms unfolding DI_EmulateCmd_def Let_def
    by (auto split: Option.bind_splits if_splits prod.splits dest!: pass_media drive_cmds_media)
  then show ?thesis unfolding media_eq_def .
qed

theorem running_title_keeps_media_witness:
  "\<exists>res st' d'. DI_EmulateCmd (demo_dip True) 0 [0xF4000000, 1, 0, 0, 0] 0 [] 0 dip_zero () = Some (res, st', d')
     \<and> devFd st' = -1"
proof -
  have "\<exists>res st' d'. DI_EmulateCmd (demo_dip True) 0 [0xF4000000, 1, 0, 0, 0] 0 [] 0 dip_zero () = Some (res, st', d')"
    by (simp add: DI_EmulateCmd_def custom_codes_def pass_def cmd_on_def rd_block_def demo_dip_def Let_def
        split: prod.splits)
  then obtain res st' d' where
    c: "DI_EmulateCmd (demo_dip True) 0 [0xF4000000, 1, 0, 0, 0] 0 [] 0 dip_zero () = Some (res, st', d')" by (elim exE)
  have "devFd st' = devFd dip_zero"
    using running_title_keeps_media [OF c] by (simp add: demo_dip_def)
  then show ?thesis using c by (simp add: dip_zero_def)
qed

text \<open>
  A read that starts at or past the end of a disc of known type moves no data: it reports an
  input/output error and leaves buffer and media alone, and the error code that the game asks
  for next is the block range error.
\<close>

theorem read_past_end_reported:
  assumes "cmd = 0x8D \<or> cmd = IOCTL_DI_READ_A8" and "rd inbuf 0 = Some (push_bit 24 cmd)"
    and "rd inbuf 1 = Some len" and "rd inbuf 2 = Some offset"
    and "dc_type (config st) = DISC_DVD5 \<and> offset \<ge> DVD5_LENGTH \<or> dc_type (config st) = DISC_DVD9 \<and> offset \<ge> DVD9_LENGTH"
    and "rd inbuf2 0 = Some 0xE0000000" and "4 \<le> length out2"
  shows "\<exists>st'. DI_EmulateCmd E addr inbuf mem out sz st d = Some ((DIP_EIO, out), st', d)
    \<and> DI_EmulateCmd E addr2 inbuf2 mem2 out2 sz2 st' d2
        = Some ((0, blit out2 0 (put_be32 ERROR_BLOCK_RANGE)), st', d2)"
proof -
  have c: "drop_bit 24 (push_bit 24 cmd :: u32) = cmd" using assms(1) by auto
  let ?st = "set_error ERROR_BLOCK_RANGE (set_error 0 st)"
  have "DI_CheckOffset offset (set_error 0 st) = (DIP_EIO, ?st)"
    unfolding DI_CheckOffset_def set_error_def using assms(5) by simp
  then have "cmd_read E cmd inbuf mem out (set_error 0 st) d = Some ((DIP_EIO, out), ?st, d)"
    using assms(1,3,4) by (auto simp: cmd_read_def DI_ReadUnencrypted_def)
  then have "DI_EmulateCmd E addr inbuf mem out sz st d = Some ((DIP_EIO, out), ?st, d)"
    using assms(1) unfolding DI_EmulateCmd_def assms(2) Option.bind.bind_lunit Let_def c custom_codes_def drive_cmds_def
    by (elim disjE) simp_all
  moreover have "DI_EmulateCmd E addr2 inbuf2 mem2 out2 sz2 ?st d2
      = Some ((0, blit out2 0 (put_be32 ERROR_BLOCK_RANGE)), ?st, d2)"
    using assms(6,7)
    by (simp add: DI_EmulateCmd_def custom_codes_def drive_cmds_def put_word_def set_error_def Let_def)
  ultimately show ?thesis by blast
qed

theorem read_past_end_reported_witness:
  "\<exists>st'. DI_EmulateCmd (demo_dip True) 0 [push_bit 24 0x8D, 32, 0x50000000] 0 [] 32
        (dip_zero\<lparr> config := (config dip_zero)\<lparr> dc_type := DISC_DVD5 \<rparr> \<rparr>) () = Some ((DIP_EIO, []), st', ())
    \<and> DI_EmulateCmd (demo_dip True) 0 [0xE0000000] 0 (replicate 4 7) 4 st' ()
        = Some ((0, blit (replicate 4 7) 0 (put_be32 ERROR_BLOCK_RANGE)), st', ())"
proof (rule read_past_end_reported [where cmd = "0x8D" and len = 32 and offset = "0x50000000"])
  show "dc_type (config (dip_zero\<lparr> config := (config dip_zero)\<lparr> dc_type := DISC_DVD5 \<rparr> \<rparr>)) = DISC_DVD5
      \<and> (0x50000000 :: u32) \<ge> DVD5_LENGTH
    \<or> dc_type (config (dip_zero\<lparr> config := (config dip_zero)\<lparr> dc_type := DISC_DVD5 \<rparr> \<rparr>)) = DISC_DVD9
      \<and> (0x50000000 :: u32) \<ge> DVD9_LENGTH"
    by simp
qed simp_all

text \<open>
  After a reload the fragment mode is restored without looking at the result of the set-up: a
  drive that is not ready leaves the mode on with no list, and the next read of the disc goes
  through a null pointer.
\<close>

theorem reload_without_drive:
  assumes "DI_Config_Load (pe_files E) (dipCfgState st) (fraglist_data st) d = (12, cfg, bs, d1)"
    and "ds_mode cfg = MODE_FRAG" and "\<not> pe_frag_ready E d1 (ds_device cfg)" and "ds_frag_size cfg \<noteq> 0"
    and "frag_list (frag st) = None" and "dc_type (config st) = 0"
  shows "\<exists>st' d'. DI_InitDriveEmulation E st d = Some (st', d') \<and> DI_ChkMode st' MODE_FRAG
    \<and> DI_ReadUnencrypted E mem out len offset st' d2 = None"
proof -
  let ?st2 = "st\<lparr> dipCfgState := cfg, fraglist_data := bs, config := (config st)\<lparr> dc_mode := MODE_FRAG \<rparr> \<rparr>"
  have nz: "sint (ds_frag_size cfg) \<noteq> 0" using assms(4) by (simp add: signed_eq_0_iff)
  let ?fi = "Frag_Init (pe_frag_ready E d1) (pe_usb_sector E d1) (pe_alloc_ok E d1) (ds_device cfg) bs
    (sint (ds_frag_size cfg)) (frag st)"
  have "\<exists>r f. ?fi = Some (r, f) \<and> r \<noteq> 0 \<and> frag_list f = None"
    using nz assms(3,5) by (auto simp: Frag_Init_def Let_def Frag_Close_def)
  then obtain r f where fi: "?fi = Some (r, f)" "r \<noteq> 0" "frag_list f = None" by (elim exE conjE)
  have i: "init_emulation_dip E st d = Some (?st2\<lparr> frag := f \<rparr>, d1)"
    using assms(1,2) fi by (simp add: init_emulation_dip_def frag_init_def DI_ChkMode_def Let_def)
  obtain r c d3 where l: "FFS_Config_Load (pe_files E) (ffsCfgState st) d1 = (r, c, d3)" by (metis prod_cases3)
  obtain d' where g: "init_emulation_ffs E (?st2\<lparr> frag := f \<rparr>) d1 = (?st2\<lparr> frag := f, ffsCfgState := c \<rparr>, d')"
    by (simp add: init_emulation_ffs_def l)
  have "DI_ReadUnencrypted E mem out len offset (?st2\<lparr> frag := f, ffsCfgState := c \<rparr>) d2 = None"
    using fi(3) assms(6) by (simp add: DI_ReadUnencrypted_def DI_CheckOffset_def DI_ChkMode_def Let_def)
  moreover have "DI_ChkMode (?st2\<lparr> frag := f, ffsCfgState := c \<rparr>) MODE_FRAG" by (simp add: DI_ChkMode_def)
  moreover have "DI_InitDriveEmulation E st d = Some (?st2\<lparr> frag := f, ffsCfgState := c \<rparr>, d')"
    unfolding DI_InitDriveEmulation_def i by (simp add: g)
  ultimately show ?thesis by (intro exI conjI)
qed

theorem reload_without_drive_witness:
  "\<exists>st' d'. DI_InitDriveEmulation (demo_dip False) dip_zero () = Some (st', d') \<and> DI_ChkMode st' MODE_FRAG
     \<and> DI_ReadUnencrypted (demo_dip False) 0 [] 32 0 st' () = None"
proof (rule reload_without_drive)
  show "DI_Config_Load (pe_files (demo_dip False)) (dipCfgState dip_zero) (fraglist_data dip_zero) () =
      (12, \<lparr> ds_mode = MODE_FRAG, ds_device = 1, ds_frag_size = 24 \<rparr>, replicate 24 0, ())"
    by (simp add: DI_Config_Load_def demo_dip_def over_all load_fraglist_def sizeof_FragList_def Config_Delete_def)
qed (simp_all add: demo_dip_def dip_zero_def frag_zero_def)

end
