(* ===== verification/Fat_Tools.thy ===== *)
theory Fat_Tools
  imports Cios_Prelude "HOL-Library.Sublist"
begin

text \<open>
  The names of the emulated memory on a FAT partition (\<open>cios-lib/fat_tools.c\<close>): characters that
  FAT does not allow are replaced by sequences of four characters, and back. A C string is the list of
  its characters without the terminating zero. The lemmas say on which names the two are
  inverse: exactly on those that do not contain one of the sequences already.
\<close>

type_synonym cstring = string

section \<open>Definitions\<close>

fun FAT_Escape :: "cstring \<Rightarrow> cstring" where
  "FAT_Escape [] = []"
| "FAT_Escape (c # src) =
     (if c = CHR 0x22 then ''&qt;''
      else if c = CHR ''*'' then ''&st;''
      else if c = CHR '':'' then ''&cl;''
      else if c = CHR ''<'' then ''&lt;''
      else if c = CHR ''>'' then ''&gt;''
      else if c = CHR ''?'' then ''&qm;''
      else if c = CHR ''|'' then ''&vb;''
      else [c]) @ FAT_Escape src"

definition esc_code :: "cstring \<Rightarrow> char option" where
  "esc_code src =
     (let s = take 3 src in
      if s = ''qt;'' then Some (CHR 0x22)
      else if s = ''st;'' then Some (CHR ''*'')
      else if s = ''cl;'' then Some (CHR '':'')
      else if s = ''lt;'' then Some (CHR ''<'')
      else if s = ''gt;'' then Some (CHR ''>'')
      else if s = ''qm;'' then Some (CHR ''?'')
      else if s = ''vb;'' then Some (CHR ''|'')
      else None)"

function FAT_Unescape :: "cstring \<Rightarrow> cstring" where
  "FAT_Unescape [] = []"
| "FAT_Unescape (c # src) =
     (if c = CHR ''&'' then
        (case esc_code src of
           Some d \<Rightarrow> d # FAT_Unescape (drop 3 src)
         | None \<Rightarrow> c # FAT_Unescape src)
      else c # FAT_Unescape src)"
  by pat_completeness auto
termination by (relation "measure length") auto

section \<open>Escaping\<close>

text \<open>What one character becomes, and the characters that FAT refuses.\<close>

definition esc_char :: "char \<Rightarrow> cstring" where
  "esc_char c = FAT_Escape [c]"

definition fat_invalid :: "char list" where
  "fat_invalid = [CHR 0x22, CHR ''*'', CHR '':'', CHR ''<'', CHR ''>'', CHR ''?'', CHR ''|'']"

lemma FAT_Escape_concat: "FAT_Escape s = concat (map esc_char s)"
  by (induction s) (simp_all add: esc_char_def)

lemma FAT_Escape_append: "FAT_Escape (s @ t) = FAT_Escape s @ FAT_Escape t"
  by (simp add: FAT_Escape_concat)

lemma esc_char_valid [simp]: "c \<notin> set fat_invalid \<Longrightarrow> esc_char c = [c]"
  by (auto simp: esc_char_def fat_invalid_def)

lemma length_esc_char: "length (esc_char c) \<le> 4"
  by (simp add: esc_char_def)

lemma length_FAT_Escape: "length s \<le> length (FAT_Escape s)" "length (FAT_Escape s) \<le> 4 * length s"
proof -
  show "length (FAT_Escape s) \<le> 4 * length s"
  proof (induction s)
    case (Cons c s)
    then show ?case using length_esc_char [of c] by (simp add: FAT_Escape_concat)
  qed simp
  show "length s \<le> length (FAT_Escape s)" by (induction s) auto
qed

lemma FAT_Escape_invalid: "set (FAT_Escape s) \<inter> set fat_invalid = {}"
  by (induction s) (auto simp: fat_invalid_def)

lemma FAT_Escape_id: "set s \<inter> set fat_invalid = {} \<Longrightarrow> FAT_Escape s = s"
  by (induction s) (auto simp: fat_invalid_def)

section \<open>Escape sequences in a name\<close>

fun esc_free :: "cstring \<Rightarrow> bool" where
  "esc_free [] \<longleftrightarrow> True"
| "esc_free (c # s) \<longleftrightarrow> (c = CHR ''&'' \<longrightarrow> esc_code s = None) \<and> esc_free s"

text \<open>A sequence that begins inside the escaped name begins inside the name: the first three characters
  that follow match a code only if they were there before.\<close>

lemma Escape_Cons_cases:
  "FAT_Escape (c # s) = c # FAT_Escape s \<or> (\<exists>k. FAT_Escape (c # s) = CHR ''&'' # k)"
  by auto

lemma take3_Escape:
  assumes "take 3 (FAT_Escape s) = [a, b, d]" and "CHR ''&'' \<notin> {a, b, d}"
  shows "take 3 s = [a, b, d]"
proof -
  have amp: "\<exists>s'. s = x # s' \<and> t = FAT_Escape s'" if "FAT_Escape s = x # t" "x \<noteq> CHR ''&''" for s x t
    using that by (cases s) (auto split: if_splits)
  obtain t where t: "FAT_Escape s = a # b # d # t"
    using assms(1) by (cases "FAT_Escape s"; cases "tl (FAT_Escape s)"; cases "tl (tl (FAT_Escape s))") auto
  obtain s1 where s1: "s = a # s1" "FAT_Escape s1 = b # d # t" using amp [OF t] assms(2) by auto
  obtain s2 where s2: "s1 = b # s2" "FAT_Escape s2 = d # t" using amp [OF s1(2)] assms(2) by auto
  obtain s3 where s3: "s2 = d # s3" using amp [OF s2(2)] assms(2) by auto
  show ?thesis using s1 s2 s3 by simp
qed

lemma esc_code_Some:
  "esc_code s = Some d \<Longrightarrow> \<exists>a b. take 3 s = [a, b, CHR '';''] \<and> CHR ''&'' \<notin> {a, b, CHR '';''}"
  by (auto simp: esc_code_def Let_def split: if_splits)

lemma esc_code_take: "take 3 s = take 3 t \<Longrightarrow> esc_code s = esc_code t"
  by (simp add: esc_code_def)

lemma esc_code_Escape: "esc_code (FAT_Escape s) = Some d \<Longrightarrow> esc_code s = Some d"
proof -
  assume c: "esc_code (FAT_Escape s) = Some d"
  then obtain a b where ab: "take 3 (FAT_Escape s) = [a, b, CHR '';'']" "CHR ''&'' \<notin> {a, b, CHR '';''}"
    using esc_code_Some by blast
  have "take 3 s = take 3 (FAT_Escape s)" using take3_Escape [OF ab] ab(1) by simp
  then show ?thesis using c esc_code_take by metis
qed

lemma esc_code_Escape_None: "esc_code s = None \<Longrightarrow> esc_code (FAT_Escape s) = None"
  using esc_code_Escape by (metis not_Some_eq option.distinct(1))

lemma esc_code_split:
  assumes "esc_code s = Some d"
  shows "\<exists>k. length k = 3 \<and> s = k @ drop 3 s \<and> FAT_Escape s = k @ FAT_Escape (drop 3 s)
    \<and> esc_code (FAT_Escape s) = Some d"
proof -
  have k: "take 3 s \<in> {''qt;'', ''st;'', ''cl;'', ''lt;'', ''gt;'', ''qm;'', ''vb;''}"
    using assms by (simp add: esc_code_def Let_def split: if_splits)
  have "length k = 3 \<and> FAT_Escape k = k" if "k \<in> {''qt;'', ''st;'', ''cl;'', ''lt;'', ''gt;'', ''qm;'', ''vb;''}" for k
    using that by auto
  from this [OF k] have l: "length (take 3 s) = 3" and e: "FAT_Escape (take 3 s) = take 3 s" by blast+
  have "FAT_Escape s = FAT_Escape (take 3 s @ drop 3 s)" by simp
  then have f: "FAT_Escape s = take 3 s @ FAT_Escape (drop 3 s)" unfolding FAT_Escape_append e .
  then have "take 3 (FAT_Escape s) = take 3 s" using l by simp
  then show ?thesis using l f esc_code_take assms by (metis append_take_drop_id)
qed

lemma Unescape_esc_char [simp]: "c \<in> set fat_invalid \<Longrightarrow> FAT_Unescape (esc_char c @ t) = c # FAT_Unescape t"
  by (auto simp: esc_char_def fat_invalid_def esc_code_def)

lemma Unescape_other: "c \<noteq> CHR ''&'' \<or> esc_code s = None \<Longrightarrow> FAT_Unescape (c # s) = c # FAT_Unescape s"
  by auto

lemma Unescape_Escape: "esc_free s \<Longrightarrow> FAT_Unescape (FAT_Escape s) = s"
proof (induction s)
  case (Cons c s)
  have e: "FAT_Escape (c # s) = esc_char c @ FAT_Escape s" by (simp add: FAT_Escape_concat)
  show ?case
  proof (cases "c \<in> set fat_invalid")
    case True
    then show ?thesis using Cons unfolding e by simp
  next
    case False
    have "c \<noteq> CHR ''&'' \<or> esc_code (FAT_Escape s) = None"
      using Cons.prems esc_code_Escape_None by simp
    then show ?thesis unfolding e using False Cons by (simp add: Unescape_other)
  qed
qed simp

lemma length_Unescape: "length (FAT_Unescape s) \<le> length s"
proof (induction s rule: FAT_Unescape.induct)
  case (2 c src)
  then show ?case by (cases "esc_code src") (auto simp: le_diff_conv)
qed simp

text \<open>With a sequence inside, the result is shorter than the name.\<close>

lemma Unescape_Escape_length:
  "length (FAT_Unescape (FAT_Escape s)) \<le> length s \<and> (\<not> esc_free s \<longrightarrow> length (FAT_Unescape (FAT_Escape s)) < length s)"
proof (induction s rule: length_induct)
  case (1 s)
  show ?case
  proof (cases s)
    case (Cons c t)
    have e: "FAT_Escape (c # t) = esc_char c @ FAT_Escape t" by (simp add: FAT_Escape_concat)
    show ?thesis
    proof (cases "c = CHR ''&'' \<and> esc_code t \<noteq> None")
      case True
      then obtain d where d: "esc_code t = Some d" and c: "c = CHR ''&''" by auto
      obtain k where k: "length k = 3" "t = k @ drop 3 t" "FAT_Escape t = k @ FAT_Escape (drop 3 t)"
        "esc_code (FAT_Escape t) = Some d" using esc_code_split [OF d] by blast
      have l: "3 \<le> length t" using k(1,2) by (metis le_add1 length_append)
      have "drop 3 (FAT_Escape t) = FAT_Escape (drop 3 t)" using k(1) unfolding k(3) by simp
      then have "FAT_Unescape (CHR ''&'' # FAT_Escape t) = d # FAT_Unescape (FAT_Escape (drop 3 t))"
        by (simp only: FAT_Unescape.simps k(4) option.case simp_thms if_True)
      moreover have "FAT_Escape s = CHR ''&'' # FAT_Escape t" unfolding Cons c by simp
      ultimately have u: "FAT_Unescape (FAT_Escape s) = d # FAT_Unescape (FAT_Escape (drop 3 t))" by simp
      have "length (FAT_Unescape (FAT_Escape (drop 3 t))) \<le> length (drop 3 t)"
        using 1 [rule_format, of "drop 3 t"] Cons by simp
      then have "Suc (length (FAT_Unescape (FAT_Escape (drop 3 t)))) < Suc (length t)" using l by simp
      moreover have "length s = Suc (length t)" using Cons by simp
      ultimately show ?thesis unfolding u by simp
    next
      case False
      have "FAT_Unescape (FAT_Escape s) = c # FAT_Unescape (FAT_Escape t)"
      proof (cases "c \<in> set fat_invalid")
        case True
        then show ?thesis unfolding Cons e by simp
      next
        case False
        then show ?thesis using \<open>\<not> (c = CHR ''&'' \<and> esc_code t \<noteq> None)\<close> esc_code_Escape_None [of t]
          unfolding Cons e by (simp add: Unescape_other)
      qed
      then show ?thesis using 1 Cons False by auto
    qed
  qed simp
qed

lemma Unescape_Escape_iff: "FAT_Unescape (FAT_Escape s) = s \<longleftrightarrow> esc_free s"
  using Unescape_Escape [of s] Unescape_Escape_length [of s] by auto

section \<open>Properties\<close>

text \<open>
  Listing a directory gives back the name under which an entry was created exactly when that name
  contains none of the seven escape sequences; every escaped name is free of the characters
  that FAT refuses.
\<close>

theorem escape_roundtrip:
  "(FAT_Unescape (FAT_Escape s) = s \<longleftrightarrow> esc_free s) \<and> set (FAT_Escape s) \<inter> set fat_invalid = {}"
  by (simp add: Unescape_Escape_iff FAT_Escape_invalid)

text \<open>Two names of which one contains a sequence share their file on the partition.\<close>

lemma escape_collision: "FAT_Escape (s @ ''&cl;'' @ t) = FAT_Escape (s @ '':'' @ t)"
  by (simp add: FAT_Escape_append)

end
