(* ===== verification/Ffs_Paths.thy ===== *)
theory Ffs_Paths
  imports Fat_Tools
begin

text \<open>
  The path rules of the file system plugin (\<open>ffs-plugin/fs_tools.c\<close>): which paths stay on the real
  memory, pattern matching, and the two ways to name an emulated file, by an absolute path on the
  partition and by a path relative to the folder of the emulated memory. Also the C strings inside
  byte buffers, and the messages between the plugin and the FAT module with what they carry
  (\<open>ffs-plugin/fat.c\<close>, \<open>fat-module/main.h\<close>): the buffers of a request are the arguments of its
  constructor, those of the reply the arguments of the data.
\<close>

section \<open>C strings in buffers\<close>

definition cstr :: "bytes \<Rightarrow> nat \<Rightarrow> cstring option" where
  "cstr buf off =
     (let s = takeWhile (\<lambda>b. b \<noteq> 0) (drop off buf)
      in if off + length s < length buf then Some (map (char_of \<circ> unat) s) else None)"

definition cbytes :: "cstring \<Rightarrow> bytes" where
  "cbytes s = map (\<lambda>c. of_nat (of_char c)) s @ [0]"

definition starts :: "cstring \<Rightarrow> cstring \<Rightarrow> bool" where
  "starts p lit \<longleftrightarrow> take (length lit) p = lit"

definition cstring_ok :: "cstring \<Rightarrow> bool" where
  "cstring_ok s \<longleftrightarrow> CHR 0x00 \<notin> set s"

lemma unat_char [simp]: "unat (of_nat (of_char c) :: u8) = of_char c"
proof -
  have "(of_char c :: nat) < 256" by simp
  then show ?thesis by (simp add: unat_of_nat)
qed

lemma char_u8_eq_0 [simp]: "(of_nat (of_char c) :: u8) = 0 \<longleftrightarrow> c = CHR 0x00"
proof -
  have "(of_nat (of_char c) :: u8) = 0 \<longleftrightarrow> unat (of_nat (of_char c) :: u8) = 0"
    by (simp only: unsigned_eq_0_iff)
  also have "\<dots> \<longleftrightarrow> (of_char c :: nat) = of_char (CHR 0x00)" unfolding unat_char by simp
  finally show ?thesis by (simp only: of_char_eq_iff)
qed

lemma length_cbytes [simp]: "length (cbytes s) = Suc (length s)"
  by (simp add: cbytes_def)

text \<open>A string copied into a buffer is read back, whatever follows it.\<close>

lemma takeWhile_cbytes:
  "cstring_ok s \<Longrightarrow> takeWhile (\<lambda>b. b \<noteq> 0) (cbytes s @ rest) = map (\<lambda>c. of_nat (of_char c)) s"
  by (induction s) (auto simp: cbytes_def cstring_ok_def)

lemma cstr_cbytes:
  assumes "cstring_ok s"
  shows "cstr (pre @ cbytes s @ rest) (length pre) = Some s"
proof -
  have "map (char_of \<circ> unat) (map (\<lambda>c. of_nat (of_char c) :: u8) s) = s"
    by (simp add: comp_def unat_char)
  then show ?thesis using takeWhile_cbytes [OF assms] by (simp add: cstr_def)
qed

lemma cstr_cbytes0: "cstring_ok s \<Longrightarrow> cstr (cbytes s @ rest) 0 = Some s"
  using cstr_cbytes [of s "[]"] by simp

lemma cstr_ok: "cstr buf off = Some s \<Longrightarrow> cstring_ok s"
proof -
  assume "cstr buf off = Some s"
  then have s: "s = map (char_of \<circ> unat) (takeWhile (\<lambda>b. b \<noteq> 0) (drop off buf))"
    by (simp add: cstr_def Let_def split: if_splits)
  have nz: "char_of (unat b) \<noteq> CHR 0x00" if "b \<noteq> 0" for b :: u8
  proof
    assume "char_of (unat b) = CHR 0x00"
    then have "of_char (char_of (unat b)) = (0 :: nat)" by simp
    then have "unat b mod 256 = 0" by (simp only: of_char_of)
    then have "unat b = 0" using unat_u8_le [of b] by simp
    then show False using that by (simp only: unsigned_eq_0_iff)
  qed
  show ?thesis unfolding s cstring_ok_def set_map comp_def
  proof
    assume "CHR 0x00 \<in> (\<lambda>x. char_of (unat x)) ` set (takeWhile (\<lambda>b. b \<noteq> 0) (drop off buf))"
    then obtain b where b: "CHR 0x00 = char_of (unat b)" "b \<in> set (takeWhile (\<lambda>b. b \<noteq> 0) (drop off buf))"
      by (rule imageE)
    show False using nz [of b] b(1) [symmetric] set_takeWhileD [OF b(2)] by simp
  qed
qed

section \<open>Paths\<close>

abbreviation (input) FAT_MAXPATH :: nat where "FAT_MAXPATH \<equiv> 256"
abbreviation (input) MODE_SDHC :: u32 where "MODE_SDHC \<equiv> 0x01"
abbreviation (input) MODE_USB :: u32 where "MODE_USB \<equiv> 0x02"
abbreviation (input) MODE_REV17 :: u32 where "MODE_REV17 \<equiv> 0x80"
abbreviation (input) MODE_FULL :: u32 where "MODE_FULL \<equiv> 0x100"

definition FS_CheckRealPath :: "u32 \<Rightarrow> cstring \<Rightarrow> bool" where
  "FS_CheckRealPath mode path \<longleftrightarrow>
     (if mode \<noteq> 0 then
        if path = ''/tmp/launch.sys'' then True
        else if mode AND MODE_FULL \<noteq> 0 then
          if starts path ''/dev'' then True else \<not> starts path ''/''
        else if starts path ''/ticket/'' then
          \<not> (starts (drop 8 path) ''00010001'' \<or> starts (drop 8 path) ''00010005'')
        else if starts path ''/title/'' then
          \<not> (starts (drop 7 path) ''00010000'' \<or> starts (drop 7 path) ''00010001''
             \<or> starts (drop 7 path) ''00010004'' \<or> starts (drop 7 path) ''00010005'')
        else if starts path ''/tmp'' then drop 4 path = ''/uid.sys''
        else if starts path ''/import'' then False
        else if path = ''/sys/disc.sys'' then False
        else True
      else True)"

fun FS_MatchPath :: "cstring \<Rightarrow> cstring \<Rightarrow> bool \<Rightarrow> bool" where
  "FS_MatchPath [] [] strict = True"
| "FS_MatchPath [] (q # qs) strict = False"
| "FS_MatchPath (p # ps) [] strict = (\<not> strict)"
| "FS_MatchPath (p # ps) (q # qs) strict =
     (if q \<noteq> CHR ''#'' \<and> p \<noteq> q then False else FS_MatchPath ps qs strict)"

text \<open>The prefix of the device, the folder of the emulated memory up to its recorded length, and the escaped
  path, in a buffer of \<open>FAT_MAXPATH\<close> bytes. The folder comes from its array as a C string.\<close>

definition dev_prefix :: "u32 \<Rightarrow> cstring" where
  "dev_prefix mode =
     (let device = mode AND (MODE_SDHC OR MODE_USB)
      in if device = MODE_SDHC then ''0:'' else if device = MODE_USB then ''1:'' else [])"

definition FS_GenerateAbsolutePath :: "u32 \<Rightarrow> bytes \<Rightarrow> u32 \<Rightarrow> cstring \<Rightarrow> cstring option" where
  "FS_GenerateAbsolutePath mode path pathlen fspath =
     do { folder \<leftarrow> cstr path 0;
          let pre = dev_prefix mode;
              fatpath = pre @ take (unat pathlen) folder @ FAT_Escape fspath
          in if length pre + length folder < FAT_MAXPATH \<and> unat pathlen \<le> length folder
                \<and> length fatpath < FAT_MAXPATH
             then Some fatpath else None }"

definition FS_GenerateRelativePath :: "cstring \<Rightarrow> (bool \<times> cstring) option" where
  "FS_GenerateRelativePath fspath =
     (if \<not> starts fspath ''/'' then Some (False, [])
      else if length fspath < FAT_MAXPATH then Some (True, ''$'' @ drop 1 fspath) else None)"

section \<open>Messages to the FAT module\<close>

record stats =
  st_size :: u32
  st_date :: u16
  st_time :: u16
  st_attrib :: u8

record fstats =
  fst_length :: u32
  fst_pos :: u32

datatype fat_req =
  IOCTL_FAT_MKDIR cstring
| IOCTL_FAT_MKFILE cstring
| IOCTL_FAT_READDIR_FS cstring "(u32 \<times> u32) option"
| IOCTL_FAT_READDIR cstring "(u32 \<times> u32) option"
| IOCTL_FAT_DELETE cstring
| IOCTL_FAT_DELETEDIR cstring
| IOCTL_FAT_RENAME cstring cstring
| IOCTL_FAT_STATS cstring
| IOCTL_FAT_GETUSAGE_FS cstring
| IOCTL_FAT_GETUSAGE cstring
| IOCTL_FAT_MOUNT_SD "s32 option"
| IOCTL_FAT_UMOUNT_SD
| IOCTL_FAT_MOUNT_USB "s32 option"
| IOCTL_FAT_UMOUNT_USB
| IOCTL_FAT_GETPARTITION u32
| IOCTL_FAT_FILESTATS
| IOCTL_FAT_SETNANDPATH cstring

datatype fat_data =
  No_Data
| Dir_Data bytes u32
| Stats_Data stats
| Usage_Data "64 word" u32 u32
| FStats_Data fstats
| Partition_Data u32

end
