(* ===== verification/Stealth.thy ===== *)
theory Stealth
  imports Cios_Prelude
begin

text \<open>
  The stealth mode of the kernel patcher: the table of thread rights
  (\<open>mload-module/tid.c\<close>), the services of the software interrupt that keep the running title and
  the request of the ES module (\<open>mload-module/swi.c\<close>, services 32 to 37), and the checks the plugins
  make with them (\<open>cios-lib/stealth.c\<close>). The table refines a map from threads to rights; its array
  never overflows and a full table refuses new threads only.
\<close>

section \<open>Definitions\<close>

abbreviation (input) MAX_NUM_TIDS :: nat where "MAX_NUM_TIDS \<equiv> 8"
abbreviation (input) TID_RIGHTS_OPEN_FAT :: u32 where "TID_RIGHTS_OPEN_FAT \<equiv> 1"
abbreviation (input) TID_RIGHTS_FORCE_REAL_NAND :: u32 where "TID_RIGHTS_FORCE_REAL_NAND \<equiv> 2"

record TID =
  tid :: s32
  rights :: u32

record mload_state =
  num_tids :: nat
  tids :: "TID list"
  stealth_mode :: u32
  running_title :: s32
  es_request :: s32

definition mload_zero :: mload_state where
  "mload_zero = \<lparr> num_tids = 0, tids = replicate MAX_NUM_TIDS \<lparr> tid = 0, rights = 0 \<rparr>,
     stealth_mode = 1, running_title = 0, es_request = 0 \<rparr>"

text \<open>The search loop both functions share: the first index below the count that holds the thread.\<close>

fun tid_find :: "TID list \<Rightarrow> nat \<Rightarrow> s32 \<Rightarrow> nat option" where
  "tid_find [] n t = None"
| "tid_find (e # es) 0 t = None"
| "tid_find (e # es) (Suc n) t = (if tid e = t then Some 0 else map_option Suc (tid_find es n t))"

definition TID_AddRights :: "s32 \<Rightarrow> u32 \<Rightarrow> mload_state \<Rightarrow> s32 \<times> mload_state" where
  "TID_AddRights t r st =
     (if t < 0 then (-1, st)
      else case tid_find (tids st) (num_tids st) t of
             Some cnt \<Rightarrow>
               (0, st\<lparr> tids := (tids st)[cnt := (tids st ! cnt)\<lparr> rights := rights (tids st ! cnt) OR r \<rparr>] \<rparr>)
           | None \<Rightarrow>
               if num_tids st < MAX_NUM_TIDS then
                 (0, st\<lparr> tids := (tids st)[num_tids st := \<lparr> tid = t, rights = r \<rparr>], num_tids := num_tids st + 1 \<rparr>)
               else (-2, st))"

definition TID_CheckRights :: "mload_state \<Rightarrow> s32 \<Rightarrow> u32 \<Rightarrow> bool" where
  "TID_CheckRights st t r \<longleftrightarrow>
     (if stealth_mode st = 0 then True
      else case tid_find (tids st) (num_tids st) t of
             Some cnt \<Rightarrow> rights (tids st ! cnt) AND r \<noteq> 0
           | None \<Rightarrow> False)"

definition Swi_SetRunningTitle :: "s32 \<Rightarrow> mload_state \<Rightarrow> mload_state" where
  "Swi_SetRunningTitle v st = st\<lparr> running_title := v \<rparr>"

definition Swi_GetRunningTitle :: "mload_state \<Rightarrow> bool" where
  "Swi_GetRunningTitle st \<longleftrightarrow> stealth_mode st \<noteq> 0 \<and> running_title st \<noteq> 0"

definition Swi_SetEsRequest :: "s32 \<Rightarrow> mload_state \<Rightarrow> mload_state" where
  "Swi_SetEsRequest v st = st\<lparr> es_request := v \<rparr>"

definition Swi_GetEsRequest :: "mload_state \<Rightarrow> bool" where
  "Swi_GetEsRequest st \<longleftrightarrow> stealth_mode st = 0 \<or> es_request st \<noteq> 0"

definition Swi_AddThreadRights :: "s32 \<Rightarrow> u32 \<Rightarrow> mload_state \<Rightarrow> s32 \<times> mload_state" where
  "Swi_AddThreadRights t r st = TID_AddRights t r st"

definition Stealth_CheckRunningTitle :: "mload_state \<Rightarrow> bool" where
  "Stealth_CheckRunningTitle st = Swi_GetRunningTitle st"

definition Stealth_CheckEsRequest :: "mload_state \<Rightarrow> bool" where
  "Stealth_CheckEsRequest st = Swi_GetEsRequest st"

section \<open>The table as a map\<close>

text \<open>The grants of a list of requests, in order.\<close>

definition grant_all :: "(s32 \<times> u32) list \<Rightarrow> mload_state \<Rightarrow> mload_state" where
  "grant_all rs st = fold (\<lambda>(t, r) s. snd (Swi_AddThreadRights t r s)) rs st"

definition tid_inv :: "mload_state \<Rightarrow> bool" where
  "tid_inv st \<longleftrightarrow> length (tids st) = MAX_NUM_TIDS \<and> num_tids st \<le> MAX_NUM_TIDS
     \<and> distinct (map tid (take (num_tids st) (tids st)))"

definition rights_of :: "mload_state \<Rightarrow> s32 \<Rightarrow> u32 option" where
  "rights_of st t = map_of (map (\<lambda>e. (tid e, rights e)) (take (num_tids st) (tids st))) t"

text \<open>What a table of thread rights promises: additions accumulate, concern one thread only, and are
  refused only to a new thread when the table is full.\<close>

locale rights_table =
  fixes inv :: "'s \<Rightarrow> bool" and view :: "'s \<Rightarrow> s32 \<Rightarrow> u32 option" and add :: "s32 \<Rightarrow> u32 \<Rightarrow> 's \<Rightarrow> s32 \<times> 's"
    and capacity :: nat
  assumes add_inv: "inv st \<Longrightarrow> inv (snd (add t r st))"
    and dom_finite: "inv st \<Longrightarrow> finite (dom (view st)) \<and> card (dom (view st)) \<le> capacity"
    and add_ok: "inv st \<Longrightarrow> 0 \<le> t \<Longrightarrow> fst (add t r st) = 0 \<longleftrightarrow> t \<in> dom (view st) \<or> card (dom (view st)) < capacity"
    and add_view: "inv st \<Longrightarrow> fst (add t r st) = 0 \<Longrightarrow>
      view (snd (add t r st)) = (view st)(t \<mapsto> (case view st t of None \<Rightarrow> 0 | Some q \<Rightarrow> q) OR r)"
    and add_refused: "fst (add t r st) \<noteq> 0 \<Longrightarrow> snd (add t r st) = st"
begin

text \<open>Rights come from grants only.\<close>

lemma granted_view:
  assumes "inv st" and "view (fold (\<lambda>(t, r) s. snd (add t r s)) rs st) t = Some q"
  shows "bit q i \<Longrightarrow> (\<exists>r. (t, r) \<in> set rs \<and> bit r i) \<or> (\<exists>q0. view st t = Some q0 \<and> bit q0 i)"
  using assms
proof (induction rs arbitrary: st)
  case Nil
  then show ?case by simp
next
  case (Cons x rs)
  obtain u r where x: "x = (u, r)" by (rule prod.exhaust)
  let ?st = "snd (add u r st)"
  have "(\<exists>r'. (t, r') \<in> set rs \<and> bit r' i) \<or> (\<exists>q0. view ?st t = Some q0 \<and> bit q0 i)"
    using Cons.IH [OF Cons.prems(1) add_inv [OF Cons.prems(2)]] Cons.prems(3) by (simp add: x)
  moreover have "view ?st t = Some q0 \<Longrightarrow> bit q0 i \<Longrightarrow>
      t = u \<and> bit r i \<or> (\<exists>q1. view st t = Some q1 \<and> bit q1 i)" for q0
  proof (cases "fst (add u r st) = 0")
    case True
    assume "view ?st t = Some q0" "bit q0 i"
    then show ?thesis using add_view [OF Cons.prems(2) True]
      by (auto simp: bit_simps split: if_splits option.splits)
  next
    case False
    assume "view ?st t = Some q0" "bit q0 i"
    then show ?thesis using add_refused [OF False] by simp
  qed
  ultimately show ?case unfolding x by auto
qed

end

lemma tid_find_Some:
  "tid_find es n t = Some i \<Longrightarrow> i < n \<and> i < length es \<and> tid (es ! i) = t"
  by (induction es n t arbitrary: i rule: tid_find.induct) (auto split: if_splits)

lemma tid_find_None: "tid_find es n t = None \<longleftrightarrow> t \<notin> tid ` set (take n es)"
  by (induction es n t rule: tid_find.induct) auto

lemma tid_find_map_of:
  "map_of (map (\<lambda>e. (tid e, rights e)) (take n es)) t = map_option (\<lambda>i. rights (es ! i)) (tid_find es n t)"
  by (induction es n t rule: tid_find.induct) (auto simp: option.map_comp comp_def)

lemma rights_of_find: "rights_of st t = map_option (\<lambda>i. rights (tids st ! i)) (tid_find (tids st) (num_tids st) t)"
  by (simp add: rights_of_def tid_find_map_of)

lemma CheckRights_view: "TID_CheckRights st t r \<longleftrightarrow>
    stealth_mode st = 0 \<or> (\<exists>q. rights_of st t = Some q \<and> q AND r \<noteq> 0)"
  by (simp add: TID_CheckRights_def rights_of_find split: option.splits)

lemma dom_rights_of: "dom (rights_of st) = tid ` set (take (num_tids st) (tids st))"
proof -
  have "rights_of st = map_of (map (\<lambda>e. (tid e, rights e)) (take (num_tids st) (tids st)))"
    by (rule ext) (simp add: rights_of_def)
  then show ?thesis by (simp only: dom_map_of_conv_image_fst set_map image_image fst_conv)
qed

lemma card_dom_rights_of: "tid_inv st \<Longrightarrow> card (dom (rights_of st)) = num_tids st"
  unfolding dom_rights_of tid_inv_def
  by (metis distinct_card length_map length_take list.set_map min.absorb2)

lemma tid_find_update: "tid e = tid (es ! i) \<Longrightarrow> tid_find (es[i := e]) n t = tid_find es n t"
  by (induction es n t arbitrary: i rule: tid_find.induct) (auto split: nat.splits)

lemma tid_find_append:
  "n < length es \<Longrightarrow> tid_find (es[n := e]) (Suc n) t
     = (case tid_find es n t of Some i \<Rightarrow> Some i | None \<Rightarrow> if tid e = t then Some n else None)"
proof (induction es n t rule: tid_find.induct)
  case (2 e' es t)
  then show ?case by (cases es) auto
qed (auto split: option.splits)

text \<open>A successful addition, as a change of the map.\<close>

lemma AddRights_view:
  assumes inv: "tid_inv st" and ok: "fst (TID_AddRights t r st) = 0"
  shows "rights_of (snd (TID_AddRights t r st))
    = (rights_of st)(t \<mapsto> (case rights_of st t of None \<Rightarrow> 0 | Some q \<Rightarrow> q) OR r)"
proof (cases "tid_find (tids st) (num_tids st) t")
  case (Some i)
  note f = tid_find_Some [OF Some]
  let ?e = "(tids st ! i)\<lparr> rights := rights (tids st ! i) OR r \<rparr>"
  let ?st = "st\<lparr> tids := (tids st)[i := ?e] \<rparr>"
  have e: "snd (TID_AddRights t r st) = ?st" using ok Some by (simp add: TID_AddRights_def split: if_splits)
  have "rights_of ?st u = ((rights_of st)(t \<mapsto> rights (tids st ! i) OR r)) u" for u
  proof (cases "tid_find (tids st) (num_tids st) u")
    case None
    then have "u \<noteq> t" using Some by auto
    then show ?thesis using None by (simp add: rights_of_find tid_find_update)
  next
    case (Some j)
    then show ?thesis using f tid_find_Some [OF Some] \<open>tid_find _ _ t = Some i\<close>
      by (auto simp: rights_of_find tid_find_update nth_list_update)
  qed
  then show ?thesis unfolding e using Some by (auto simp: rights_of_find)
next
  case None
  then have n: "num_tids st < length (tids st)" and e: "snd (TID_AddRights t r st) =
      st\<lparr> tids := (tids st)[num_tids st := \<lparr> tid = t, rights = r \<rparr>], num_tids := num_tids st + 1 \<rparr>"
    using ok inv by (auto simp: TID_AddRights_def tid_inv_def split: if_splits)
  show ?thesis
  proof
    fix u
    show "rights_of (snd (TID_AddRights t r st)) u
      = ((rights_of st)(t \<mapsto> (case rights_of st t of None \<Rightarrow> 0 | Some q \<Rightarrow> q) OR r)) u"
      unfolding e using n None
      by (auto simp: rights_of_find tid_find_append nth_list_update dest: tid_find_Some split: option.splits)
  qed
qed

lemma AddRights_inv:
  assumes "tid_inv st"
  shows "tid_inv (snd (TID_AddRights t r st))"
proof (cases "tid_find (tids st) (num_tids st) t")
  case (Some i)
  let ?ts = "map tid (take (num_tids st) (tids st))"
  have "map tid (take (num_tids st) ((tids st)[i := (tids st ! i)\<lparr> rights := q \<rparr>])) = ?ts" for q
    using tid_find_Some [OF Some]
    by (intro nth_equalityI) (auto simp: nth_list_update)
  then show ?thesis using assms Some by (simp add: TID_AddRights_def tid_inv_def)
next
  case None
  then have "t \<notin> tid ` set (take (num_tids st) (tids st))" by (simp add: tid_find_None)
  then show ?thesis using assms None
    by (auto simp: TID_AddRights_def tid_inv_def take_Suc_conv_app_nth)
qed

lemma AddRights_refused: "fst (TID_AddRights t r st) \<noteq> 0 \<Longrightarrow> snd (TID_AddRights t r st) = st"
  by (auto simp: TID_AddRights_def split: option.splits)

lemma AddRights_ok:
  assumes "tid_inv st" and "0 \<le> t"
  shows "fst (TID_AddRights t r st) = 0 \<longleftrightarrow> t \<in> dom (rights_of st) \<or> card (dom (rights_of st)) < MAX_NUM_TIDS"
proof (cases "tid_find (tids st) (num_tids st) t")
  case None
  then have "t \<notin> tid ` set (take (num_tids st) (tids st))" by (simp add: tid_find_None)
  then show ?thesis using assms None card_dom_rights_of [OF assms(1), unfolded dom_rights_of]
    by (simp add: TID_AddRights_def dom_rights_of)
next
  case (Some i)
  then have "t \<in> tid ` set (take (num_tids st) (tids st))" using tid_find_None [of "tids st" "num_tids st" t] by simp
  then show ?thesis using assms Some by (simp add: TID_AddRights_def dom_rights_of)
qed

interpretation tt: rights_table tid_inv rights_of Swi_AddThreadRights MAX_NUM_TIDS
  unfolding Swi_AddThreadRights_def [abs_def]
proof unfold_locales
  fix st :: mload_state
  assume i: "tid_inv st"
  show "finite (dom (rights_of st)) \<and> card (dom (rights_of st)) \<le> MAX_NUM_TIDS"
    using i card_dom_rights_of [OF i] by (simp add: dom_rights_of tid_inv_def)
qed (rule AddRights_inv AddRights_ok AddRights_view AddRights_refused, assumption+)+

section \<open>Properties\<close>

lemma zero_inv: "tid_inv mload_zero" "rights_of mload_zero = Map.empty"
  by (auto simp: tid_inv_def mload_zero_def rights_of_def)

lemma stealth_grant_all: "stealth_mode (grant_all rs st) = stealth_mode st"
  unfolding grant_all_def
  by (induction rs arbitrary: st) (auto simp: Swi_AddThreadRights_def TID_AddRights_def split: option.splits)

lemma grants_sound:
  assumes "TID_CheckRights (grant_all rs mload_zero) t r"
  shows "\<exists>q. (t, q) \<in> set rs \<and> q AND r \<noteq> 0"
proof -
  obtain q where q: "rights_of (grant_all rs mload_zero) t = Some q" "q AND r \<noteq> 0"
    using assms stealth_grant_all [of rs mload_zero] by (auto simp: CheckRights_view mload_zero_def)
  obtain i where i: "bit q i" "bit r i" using q(2) unfolding word_and_nonzero by blast
  show ?thesis
    using tt.granted_view [OF zero_inv(1) q(1) [unfolded grant_all_def] i(1)] zero_inv(2) i(2)
    unfolding word_and_nonzero by auto
qed

text \<open>
  Rights come from grants only: after any sequence of grants, some refused because the table
  of eight threads was full, a thread passes the check in stealth mode only for a right that one of the
  grants gave to this very thread.
\<close>

theorem thread_rights_sound:
  assumes "TID_CheckRights (grant_all rs mload_zero) t r"
  shows "\<exists>q. (t, q) \<in> set rs \<and> q AND r \<noteq> 0"
  using grants_sound [OF assms] .

theorem thread_rights_sound_witness:
  "TID_CheckRights (grant_all [(3, 1), (4, 2)] mload_zero) 4 2
    \<and> (\<exists>q. (4 :: s32, q) \<in> set [(3, 1), (4, 2)] \<and> q AND (2 :: u32) \<noteq> 0)"
proof -
  have "TID_CheckRights (grant_all [(3, 1), (4, 2)] mload_zero) 4 2"
    by (simp add: grant_all_def Swi_AddThreadRights_def TID_AddRights_def mload_zero_def TID_CheckRights_def numeral_eq_Suc)
  then show ?thesis using thread_rights_sound by blast
qed

end
