(* ===== verification/Ffs_Plugin.thy ===== *)
theory Ffs_Plugin
  imports Ffs_Paths Stealth
begin

text \<open>
  The file system plugin (\<open>ffs-plugin/plugin.c\<close>), its client of the FAT module
  (\<open>ffs-plugin/fat.c\<close>) and the filter on the kernel's open call (\<open>ffs-plugin/iop.c\<close>). Requests of
  the game for files of the emulated memory are answered from a FAT partition; the rest goes to
  the original module. Each handler returns its result, the flag that says whether the
  request was performed here, and the changed buffers.

  The kernel's calls are the parameter \<open>ffs_env\<close>; the request to the FAT module is \<open>fe_fat\<close>. The
  kernel patcher's state (\<open>Stealth\<close>) is reached through the two last fields. \<open>None\<close> is an access
  outside a buffer or through a null pointer, or a request that the FAT module never answers.
\<close>

section \<open>State\<close>

record 'w ffs_env =
  fe_open :: "cstring \<Rightarrow> u32 \<Rightarrow> 'w \<Rightarrow> (s32 \<times> 'w) option"
  fe_close :: "s32 \<Rightarrow> 'w \<Rightarrow> s32 \<times> 'w"
  fe_read :: "s32 \<Rightarrow> u32 \<Rightarrow> 'w \<Rightarrow> (s32 \<times> bytes) \<times> 'w"
  fe_write :: "s32 \<Rightarrow> bytes \<Rightarrow> 'w \<Rightarrow> s32 \<times> 'w"
  fe_seek :: "s32 \<Rightarrow> s32 \<Rightarrow> s32 \<Rightarrow> 'w \<Rightarrow> s32 \<times> 'w"
  fe_fat :: "s32 \<Rightarrow> fat_req \<Rightarrow> 'w \<Rightarrow> ((s32 \<times> fat_data) \<times> 'w) option"
  fe_alloc :: "'w \<Rightarrow> bool \<times> 'w"
  fe_thread :: "'w \<Rightarrow> s32"
  fe_title :: "'w \<Rightarrow> u16"
  fe_syscode :: "'w \<Rightarrow> u8"
  fe_mload :: "'w \<Rightarrow> mload_state"
  fe_set_mload :: "mload_state \<Rightarrow> 'w \<Rightarrow> 'w"

abbreviation (input) MAX_FAT_FD :: nat where "MAX_FAT_FD \<equiv> 20"
abbreviation (input) ISFS_MAXPATH :: nat where "ISFS_MAXPATH \<equiv> 64"
abbreviation (input) ISFS_OPEN_RW :: u8 where "ISFS_OPEN_RW \<equiv> 3"
abbreviation (input) AM_DIR :: u8 where "AM_DIR \<equiv> 0x10"

record fs_state =
  fsc_mode :: u32
  fsc_path :: bytes
  fsc_pathlen :: u32
  forceRealPath :: bool
  fat_fd :: "s32 list"
  fatFd :: s32
  fat_iobuf :: bool

definition fs_zero :: fs_state where
  "fs_zero = \<lparr> fsc_mode = 0, fsc_path = replicate FAT_MAXPATH 0, fsc_pathlen = 0, forceRealPath = False,
     fat_fd = replicate MAX_FAT_FD 0, fatFd = 0, fat_iobuf = False \<rparr>"

definition abs_path :: "fs_state \<Rightarrow> cstring \<Rightarrow> cstring option" where
  "abs_path st p = FS_GenerateAbsolutePath (fsc_mode st) (fsc_path st) (fsc_pathlen st) p"

section \<open>The table of open files\<close>

fun fd_find :: "(s32 \<Rightarrow> bool) \<Rightarrow> s32 list \<Rightarrow> nat option" where
  "fd_find P [] = None"
| "fd_find P (x # xs) = (if P x then Some 0 else map_option Suc (fd_find P xs))"

definition FS_RegisterFile :: "s32 \<Rightarrow> s32 list \<Rightarrow> s32 \<times> s32 list" where
  "FS_RegisterFile fd t =
     (case fd_find (\<lambda>x. x < 0) t of Some idx \<Rightarrow> (int idx, t[idx := fd]) | None \<Rightarrow> (-1, t))"

definition FS_GetFileIndex :: "s32 \<Rightarrow> s32 list \<Rightarrow> s32" where
  "FS_GetFileIndex fd t = (case fd_find (\<lambda>x. x = fd) t of Some idx \<Rightarrow> int idx | None \<Rightarrow> -1)"

definition FS_UnregisterFile :: "s32 \<Rightarrow> s32 list \<Rightarrow> s32 list" where
  "FS_UnregisterFile idx t = (if idx \<ge> 0 \<and> idx < int MAX_FAT_FD then t[nat idx := -1] else t)"

definition FS_UnregisterAllFiles :: "s32 list \<Rightarrow> s32 list" where
  "FS_UnregisterAllFiles t = replicate MAX_FAT_FD (-1)"

section \<open>The client of the FAT module\<close>

text \<open>A path is copied to the request buffer, which \<open>FAT_Init\<close> allocates.\<close>

definition fat_call :: "'w ffs_env \<Rightarrow> fs_state \<Rightarrow> cstring \<Rightarrow> fat_req \<Rightarrow> 'w \<Rightarrow> ((s32 \<times> fat_data) \<times> 'w) option" where
  "fat_call E st path r w =
     (if fat_iobuf st \<and> length path < FAT_MAXPATH then fe_fat E (fatFd st) r w else None)"

definition FAT_Init :: "'w ffs_env \<Rightarrow> cstring \<Rightarrow> fs_state \<Rightarrow> 'w \<Rightarrow> (s32 \<times> fs_state \<times> 'w) option" where
  "FAT_Init E nandpath st w =
     (if fatFd st > 0 then Some (0, st, w)
      else
        let (ok, w1) = (if fat_iobuf st then (True, w) else fe_alloc E w) in
        if \<not> ok then Some (IPC_ENOMEM, st, w1)
        else
          do { (fd, w2) \<leftarrow> fe_open E ''fat'' 0 w1;
               let st2 = st\<lparr> fat_iobuf := True, fatFd := fd \<rparr> in
               if fd < 0 then Some (fd, st2, w2)
               else do { ((r, _), w3) \<leftarrow> fat_call E st2 nandpath (IOCTL_FAT_SETNANDPATH nandpath) w2;
                         Some (r, st2, w3) } })"

definition fat_simple :: "'w ffs_env \<Rightarrow> fs_state \<Rightarrow> cstring \<Rightarrow> fat_req \<Rightarrow> 'w \<Rightarrow> (s32 \<times> 'w) option" where
  "fat_simple E st path r w = do { ((ret, _), w') \<leftarrow> fat_call E st path r w; Some (ret, w') }"

definition FAT_CreateDir :: "'w ffs_env \<Rightarrow> cstring \<Rightarrow> fs_state \<Rightarrow> 'w \<Rightarrow> (s32 \<times> 'w) option" where
  "FAT_CreateDir E p st w = fat_simple E st p (IOCTL_FAT_MKDIR p) w"

definition FAT_CreateFile :: "'w ffs_env \<Rightarrow> cstring \<Rightarrow> fs_state \<Rightarrow> 'w \<Rightarrow> (s32 \<times> 'w) option" where
  "FAT_CreateFile E p st w = fat_simple E st p (IOCTL_FAT_MKFILE p) w"

definition FAT_Delete :: "'w ffs_env \<Rightarrow> cstring \<Rightarrow> fs_state \<Rightarrow> 'w \<Rightarrow> (s32 \<times> 'w) option" where
  "FAT_Delete E p st w = fat_simple E st p (IOCTL_FAT_DELETE p) w"

definition FAT_DeleteDir :: "'w ffs_env \<Rightarrow> cstring \<Rightarrow> fs_state \<Rightarrow> 'w \<Rightarrow> (s32 \<times> 'w) option" where
  "FAT_DeleteDir E p st w = fat_simple E st p (IOCTL_FAT_DELETEDIR p) w"

definition FAT_Rename :: "'w ffs_env \<Rightarrow> cstring \<Rightarrow> cstring \<Rightarrow> fs_state \<Rightarrow> 'w \<Rightarrow> (s32 \<times> 'w) option" where
  "FAT_Rename E p q st w =
     (if length q < FAT_MAXPATH then fat_simple E st p (IOCTL_FAT_RENAME p q) w else None)"

definition FAT_GetStats :: "'w ffs_env \<Rightarrow> cstring \<Rightarrow> fs_state \<Rightarrow> 'w \<Rightarrow> ((s32 \<times> u8) \<times> 'w) option" where
  "FAT_GetStats E p st w =
     do { ((ret, d), w') \<leftarrow> fat_call E st p (IOCTL_FAT_STATS p) w;
          Some ((ret, case d of Stats_Data s \<Rightarrow> st_attrib s | _ \<Rightarrow> 0), w') }"

definition FAT_ReadDir ::
  "'w ffs_env \<Rightarrow> cstring \<Rightarrow> u32 option \<Rightarrow> fs_state \<Rightarrow> 'w \<Rightarrow> ((s32 \<times> bytes \<times> u32) \<times> 'w) option"
where
  "FAT_ReadDir E p cnt st w =
     do { ((ret, d), w') \<leftarrow> fat_call E st p (IOCTL_FAT_READDIR_FS p (map_option (\<lambda>c. (c, 13 * c)) cnt)) w;
          Some ((ret, case d of Dir_Data bs n \<Rightarrow> (bs, n) | _ \<Rightarrow> ([], 0)), w') }"

definition usage_blocks :: "64 word \<Rightarrow> u32" where
  "usage_blocks sz =
     (let blocks = ucast (sz div 0x4000) :: u32
      in if blocks > 0x2000 then 0x1000 + (blocks AND 0xFFF) else blocks)"

definition FAT_GetUsage ::
  "'w ffs_env \<Rightarrow> cstring \<Rightarrow> u32 \<Rightarrow> u32 \<Rightarrow> fs_state \<Rightarrow> 'w \<Rightarrow> ((s32 \<times> u32 \<times> u32) \<times> 'w) option"
where
  "FAT_GetUsage E p blocks inodes st w =
     do { ((ret, d), w') \<leftarrow> fat_call E st p (IOCTL_FAT_GETUSAGE_FS p) w;
          Some ((ret, if ret \<ge> 0
                      then (case d of Usage_Data sz files dirs \<Rightarrow> (usage_blocks sz, files + 1) | _ \<Rightarrow> (usage_blocks 0, 1))
                      else (blocks, inodes)), w') }"

definition FAT_GetFileStats :: "'w ffs_env \<Rightarrow> s32 \<Rightarrow> bytes \<Rightarrow> fs_state \<Rightarrow> 'w \<Rightarrow> ((s32 \<times> bytes) \<times> 'w) option" where
  "FAT_GetFileStats E fd out st w =
     (if \<not> fat_iobuf st then None
      else do {
        ((ret, d), w') \<leftarrow> fe_fat E fd IOCTL_FAT_FILESTATS w;
        if ret \<ge> 0 then
          if length out < 8 then None
          else Some ((ret, case d of FStats_Data s \<Rightarrow> blit out 0 (put_be32 (fst_length s) @ put_be32 (fst_pos s)) | _ \<Rightarrow> out), w')
        else Some ((ret, out), w') })"

section \<open>Folders and mode\<close>

record dirinfo =
  di_path :: cstring
  di_delete :: bool
  di_make :: bool
  di_blocks :: s32
  di_inodes :: s32

definition dirs :: "dirinfo list" where
  "dirs =
    [\<lparr> di_path = ''/import'', di_delete = False, di_make = True, di_blocks = -1, di_inodes = -1 \<rparr>,
     \<lparr> di_path = ''/meta'', di_delete = False, di_make = False, di_blocks = 3, di_inodes = 8 \<rparr>,
     \<lparr> di_path = ''/sys'', di_delete = False, di_make = True, di_blocks = -1, di_inodes = -1 \<rparr>,
     \<lparr> di_path = ''/ticket'', di_delete = False, di_make = True, di_blocks = 71, di_inodes = 77 \<rparr>,
     \<lparr> di_path = ''/ticket/00010001'', di_delete = False, di_make = True, di_blocks = -1, di_inodes = -1 \<rparr>,
     \<lparr> di_path = ''/ticket/00010005'', di_delete = False, di_make = True, di_blocks = -1, di_inodes = -1 \<rparr>,
     \<lparr> di_path = ''/title'', di_delete = False, di_make = True, di_blocks = -1, di_inodes = -1 \<rparr>,
     \<lparr> di_path = ''/title/00010000'', di_delete = False, di_make = True, di_blocks = 75, di_inodes = 55 \<rparr>,
     \<lparr> di_path = ''/title/00010001'', di_delete = False, di_make = True, di_blocks = 1505, di_inodes = 74 \<rparr>,
     \<lparr> di_path = ''/title/00010004'', di_delete = False, di_make = True, di_blocks = 185, di_inodes = 9 \<rparr>,
     \<lparr> di_path = ''/title/00010005'', di_delete = False, di_make = True, di_blocks = 23, di_inodes = 42 \<rparr>,
     \<lparr> di_path = ''/tmp'', di_delete = True, di_make = True, di_blocks = -1, di_inodes = -1 \<rparr>]"

fun prepare_folders :: "'w ffs_env \<Rightarrow> fs_state \<Rightarrow> dirinfo list \<Rightarrow> 'w \<Rightarrow> 'w option" where
  "prepare_folders E st [] w = Some w"
| "prepare_folders E st (d # ds) w =
     do { fatpath \<leftarrow> abs_path st (di_path d);
          w1 \<leftarrow> (if di_delete d then map_option snd (FAT_DeleteDir E fatpath st w) else Some w);
          w2 \<leftarrow> (if di_make d then map_option snd (FAT_CreateDir E fatpath st w1) else Some w1);
          prepare_folders E st ds w2 }"

definition FS_PrepareFolders :: "'w ffs_env \<Rightarrow> fs_state \<Rightarrow> 'w \<Rightarrow> 'w option" where
  "FS_PrepareFolders E st w = prepare_folders E st dirs w"

fun fake_usage :: "dirinfo list \<Rightarrow> cstring \<Rightarrow> (u32 \<times> u32) option" where
  "fake_usage [] path = None"
| "fake_usage (d # ds) path =
     (if di_path d = path then
        if di_blocks d = -1 \<and> di_inodes d = -1 then None
        else Some (of_int (di_blocks d), of_int (di_inodes d))
      else fake_usage ds path)"

definition FS_FakeUsage :: "cstring \<Rightarrow> (u32 \<times> u32) option" where
  "FS_FakeUsage path = fake_usage dirs path"

definition mode_off :: "fs_state \<Rightarrow> fs_state" where
  "mode_off st = st\<lparr> fsc_mode := 0, fsc_path := (fsc_path st)[0 := 0], fsc_pathlen := 0 \<rparr>"

definition FS_SetMode :: "'w ffs_env \<Rightarrow> u32 \<Rightarrow> cstring \<Rightarrow> fs_state \<Rightarrow> 'w \<Rightarrow> (s32 \<times> fs_state \<times> 'w) option" where
  "FS_SetMode E mode0 path st w =
     (if mode0 AND (MODE_SDHC OR MODE_USB) \<noteq> 0 then
        if Stealth_CheckRunningTitle (fe_mload E w) then Some (IPC_ENOENT, st, w)
        else if length path < FAT_MAXPATH then
          let mode = mode0 OR MODE_REV17;
              w1 = (if mode AND MODE_REV17 \<noteq> 0
                    then fe_set_mload E (snd (Swi_AddThreadRights (fe_thread E w) TID_RIGHTS_OPEN_FAT (fe_mload E w))) w
                    else w);
              st1 = st\<lparr> fat_fd := FS_UnregisterAllFiles (fat_fd st), fsc_path := blit (fsc_path st) 0 (cbytes path),
                        fsc_pathlen := of_nat (length path), fsc_mode := mode \<rparr>
          in do { fatNandPath \<leftarrow> abs_path st1 [];
                  (ret, st2, w2) \<leftarrow> FAT_Init E fatNandPath st1 w1;
                  if ret \<ge> 0 then do { w3 \<leftarrow> FS_PrepareFolders E st2 w2; Some (ret, st2, w3) }
                  else Some (ret, mode_off st2, w2) }
        else None
      else if Swi_GetRunningTitle (fe_mload E w) \<and> \<not> Swi_GetEsRequest (fe_mload E w) then Some (IPC_ENOENT, st, w)
      else Some (0, mode_off st, w))"

section \<open>File requests\<close>

text \<open>A result: the code, the \<open>performed\<close> flag and the data.\<close>

type_synonym ('b, 'w) fs_result = "((s32 \<times> u32 \<times> 'b) \<times> fs_state \<times> 'w) option"

text \<open>The stub around the handlers (\<open>fs_calls.s\<close>) runs the original handler when the flag is clear and
  the result is an error.\<close>

definition fs_handled :: "s32 \<Rightarrow> u32 \<Rightarrow> bool" where
  "fs_handled ret performed \<longleftrightarrow> performed \<noteq> 0 \<or> 0 \<le> ret"

definition FS_Open :: "'w ffs_env \<Rightarrow> cstring \<Rightarrow> u32 \<Rightarrow> fs_state \<Rightarrow> 'w \<Rightarrow> (unit, 'w) fs_result" where
  "FS_Open E path mode st w =
     (if fsc_mode st AND MODE_REV17 \<noteq> 0 then
        if forceRealPath st then Some ((-6, 0, ()), st\<lparr> forceRealPath := False \<rparr>, w)
        else if \<not> FS_CheckRealPath (fsc_mode st) path then
          do { (ok, fatpath) \<leftarrow> FS_GenerateRelativePath path;
               if \<not> ok then None
               else do { (ret, w') \<leftarrow> fe_open E fatpath mode w;
                         Some ((ret, 1, ()),
                               if ret \<ge> 0 then st\<lparr> fat_fd := snd (FS_RegisterFile ret (fat_fd st)) \<rparr> else st, w') } }
        else Some ((-6, 0, ()), st, w)
      else Some ((-6, 0, ()), st, w))"

text \<open>The guard of the requests on a descriptor.\<close>

definition on_file :: "fs_state \<Rightarrow> s32 \<Rightarrow> 'b \<Rightarrow> 'w \<Rightarrow> ('b, 'w) fs_result \<Rightarrow> ('b, 'w) fs_result" where
  "on_file st fd b w act =
     (if fsc_mode st AND MODE_REV17 \<noteq> 0 \<and> FS_GetFileIndex fd (fat_fd st) \<ge> 0 then act
      else Some ((-6, 0, b), st, w))"

definition FS_Close :: "'w ffs_env \<Rightarrow> s32 \<Rightarrow> fs_state \<Rightarrow> 'w \<Rightarrow> (unit, 'w) fs_result" where
  "FS_Close E fd st w =
     on_file st fd () w
       (let (ret, w') = fe_close E fd w
        in Some ((ret, 1, ()),
                 if ret \<ge> 0
                 then st\<lparr> fat_fd := FS_UnregisterFile (FS_GetFileIndex fd (fat_fd st)) (fat_fd st) \<rparr> else st, w'))"

definition fill :: "bytes \<Rightarrow> bytes \<Rightarrow> bytes" where
  "fill out bs = take (length out) bs @ drop (length bs) out"

definition FS_Read :: "'w ffs_env \<Rightarrow> s32 \<Rightarrow> bytes \<Rightarrow> u32 \<Rightarrow> fs_state \<Rightarrow> 'w \<Rightarrow> (bytes, 'w) fs_result" where
  "FS_Read E fd out len st w =
     on_file st fd out w (let ((ret, bs), w') = fe_read E fd len w in Some ((ret, 1, fill out bs), st, w'))"

definition FS_Write :: "'w ffs_env \<Rightarrow> s32 \<Rightarrow> bytes \<Rightarrow> fs_state \<Rightarrow> 'w \<Rightarrow> (unit, 'w) fs_result" where
  "FS_Write E fd data st w =
     on_file st fd () w (let (ret, w') = fe_write E fd data w in Some ((ret, 1, ()), st, w'))"

definition FS_Seek :: "'w ffs_env \<Rightarrow> s32 \<Rightarrow> s32 \<Rightarrow> s32 \<Rightarrow> fs_state \<Rightarrow> 'w \<Rightarrow> (unit, 'w) fs_result" where
  "FS_Seek E fd where whence st w =
     on_file st fd () w (let (ret, w') = fe_seek E fd where whence w in Some ((ret, 1, ()), st, w'))"

section \<open>Requests with a path\<close>

text \<open>The common part: a real path is left to the original handler, an emulated one becomes an absolute
  path on the partition.\<close>

definition emulate ::
  "fs_state \<Rightarrow> cstring \<Rightarrow> 'b \<Rightarrow> (cstring \<Rightarrow> 'w \<Rightarrow> ((s32 \<times> 'b) \<times> 'w) option) \<Rightarrow> 'w \<Rightarrow> ('b, 'w) fs_result"
where
  "emulate st p b f w =
     (if FS_CheckRealPath (fsc_mode st) p then Some ((-6, 0, b), st, w)
      else if fsc_mode st \<noteq> 0 then
        do { fatpath \<leftarrow> abs_path st p;
             ((ret, b'), w') \<leftarrow> f fatpath w;
             Some ((ret, fsc_mode st, b'), st, w') }
      else Some ((-6, fsc_mode st, b), st, w))"

definition with_buf :: "'b \<Rightarrow> (s32 \<times> 'w) option \<Rightarrow> ((s32 \<times> 'b) \<times> 'w) option" where
  "with_buf b r = map_option (\<lambda>(ret, w). ((ret, b), w)) r"

definition ioctl_rename :: "'w ffs_env \<Rightarrow> bytes \<Rightarrow> bytes \<Rightarrow> fs_state \<Rightarrow> 'w \<Rightarrow> (bytes, 'w) fs_result" where
  "ioctl_rename E inbuf iobuf st w =
     do { old \<leftarrow> cstr inbuf 0; new \<leftarrow> cstr inbuf ISFS_MAXPATH;
          if FS_CheckRealPath (fsc_mode st) old \<or> FS_CheckRealPath (fsc_mode st) new
          then Some ((-6, 0, iobuf), st, w)
          else if fsc_mode st \<noteq> 0 then
            do { oldpath \<leftarrow> abs_path st old; newpath \<leftarrow> abs_path st new;
                 if oldpath \<noteq> newpath then
                   do { ((ret, attrib), w1) \<leftarrow> FAT_GetStats E newpath st w;
                        w3 \<leftarrow> (if ret \<ge> 0 then
                                do { w2 \<leftarrow> (if attrib AND AM_DIR \<noteq> 0
                                           then map_option snd (FAT_DeleteDir E newpath st w1) else Some w1);
                                     map_option snd (FAT_Delete E newpath st w2) }
                              else Some w1);
                        (r, w4) \<leftarrow> FAT_Rename E oldpath newpath st w3;
                        Some ((r, fsc_mode st, iobuf), st, w4) }
                 else
                   do { ((ret, attrib), w1) \<leftarrow> FAT_GetStats E oldpath st w;
                        Some ((ret, fsc_mode st, iobuf), st, w1) } }
          else Some ((-6, fsc_mode st, iobuf), st, w) }"

definition ioctl_getstats :: "bytes \<Rightarrow> fs_state \<Rightarrow> 'w \<Rightarrow> (bytes, 'w) fs_result" where
  "ioctl_getstats iobuf st w =
     (if fsc_mode st \<noteq> 0 then
        if length iobuf < 0x1C then Some ((-1017, fsc_mode st, iobuf), st, w)
        else Some ((0, fsc_mode st,
                    blit (replicate (length iobuf) 0) 0
                      (concat (map put_be32 [0x4000, 0x5DEC, 0x1DD4, 0x10, 0x02F0, 0x146B, 0x0394]))), st, w)
      else Some ((-6, fsc_mode st, iobuf), st, w))"

definition enc_fsattr :: "u32 \<Rightarrow> u16 \<Rightarrow> bytes \<Rightarrow> u8 \<Rightarrow> u8 \<Rightarrow> u8 \<Rightarrow> u8 \<Rightarrow> bytes" where
  "enc_fsattr owner gid filepath op gp tp attributes = put_be32 owner @ put_be16 gid @ filepath @ [op, gp, tp, attributes]"

definition FS_GetUID :: u16 where
  "FS_GetUID = 0x1001"

definition ioctl_getattr :: "'w ffs_env \<Rightarrow> bytes \<Rightarrow> bytes \<Rightarrow> fs_state \<Rightarrow> 'w \<Rightarrow> (bytes, 'w) fs_result" where
  "ioctl_getattr E inbuf iobuf st w =
     do { path \<leftarrow> cstr inbuf 0;
          emulate st path iobuf
            (\<lambda>fatpath w. do {
               ((ret, _), w') \<leftarrow> FAT_GetStats E fatpath st w;
               if ret < 0 then Some ((ret, iobuf), w')
               else do {
                 filepath \<leftarrow> rd_block inbuf 0 ISFS_MAXPATH;
                 let tp = (if FS_MatchPath path ''/title/0001000#/########/data/nocopy'' False then 0 else ISFS_OPEN_RW);
                     attr = (if starts path ''/tmp/'' \<or> starts path ''/import''
                             then enc_fsattr 0 0 filepath ISFS_OPEN_RW ISFS_OPEN_RW 0 0
                             else enc_fsattr (ucast FS_GetUID) (fe_title E w') filepath ISFS_OPEN_RW ISFS_OPEN_RW tp 0)
                 in if length attr \<le> length iobuf then Some ((0, blit iobuf 0 attr), w') else None } }) w }"

definition FS_Ioctl ::
  "'w ffs_env \<Rightarrow> u32 \<Rightarrow> s32 \<Rightarrow> bytes \<Rightarrow> bytes \<Rightarrow> fs_state \<Rightarrow> 'w \<Rightarrow> (bytes, 'w) fs_result"
where
  "FS_Ioctl E cmd fd inbuf iobuf st w =
     (if cmd = 3 then
        do { p \<leftarrow> cstr inbuf 6; emulate st p iobuf (\<lambda>q w. with_buf iobuf (FAT_CreateDir E q st w)) w }
      else if cmd = 9 then
        do { p \<leftarrow> cstr inbuf 6; emulate st p iobuf (\<lambda>q w. with_buf iobuf (FAT_CreateFile E q st w)) w }
      else if cmd = 7 then
        do { p \<leftarrow> cstr inbuf 0; emulate st p iobuf (\<lambda>q w. with_buf iobuf (FAT_Delete E q st w)) w }
      else if cmd = 8 then ioctl_rename E inbuf iobuf st w
      else if cmd = 2 then ioctl_getstats iobuf st w
      else if cmd = 11 then
        on_file st fd iobuf w
          (do { ((ret, out), w') \<leftarrow> FAT_GetFileStats E fd iobuf st w; Some ((ret, 1, out), st, w') })
      else if cmd = 6 then ioctl_getattr E inbuf iobuf st w
      else if cmd = 5 then
        do { p \<leftarrow> cstr inbuf 6;
             emulate st p iobuf (\<lambda>q w. map_option (\<lambda>((ret, a), w'). ((ret, iobuf), w')) (FAT_GetStats E q st w)) w }
      else if cmd = 1 then
        Some ((if fsc_mode st \<noteq> 0 then 0 else -6, fsc_mode st, iobuf), st, w)
      else if cmd = 100 then
        if length inbuf < 4 then Some ((IPC_ENOENT, 1, iobuf), st, w)
        else do { mode \<leftarrow> rd32 inbuf 0;
                  (ret, st', w') \<leftarrow> FS_SetMode E mode [] st w;
                  Some ((ret, 1, iobuf), st', w') }
      else Some ((-6, fsc_mode st, iobuf), st, w))"

section \<open>Vector requests\<close>

definition put32 :: "bytes list \<Rightarrow> nat \<Rightarrow> u32 \<Rightarrow> bytes list option" where
  "put32 vec i v = do { b \<leftarrow> rd vec i; if 4 \<le> length b then Some (vec[i := blit b 0 (put_be32 v)]) else None }"

definition readdir_reply :: "bytes list \<Rightarrow> bool \<Rightarrow> s32 \<Rightarrow> bytes \<Rightarrow> u32 \<Rightarrow> bytes list option" where
  "readdir_reply vec two ret bs n =
     do { vec1 \<leftarrow> (if two then do { out \<leftarrow> rd vec 2;
                                   if length bs \<le> length out then Some (vec[2 := blit out 0 bs]) else None }
                  else Some vec);
          if ret \<ge> 0 then put32 vec1 (if two then 3 else 1) n else Some vec1 }"

definition ioctlv_readdir ::
  "'w ffs_env \<Rightarrow> bytes list \<Rightarrow> nat \<Rightarrow> fs_state \<Rightarrow> 'w \<Rightarrow> (bytes list, 'w) fs_result"
where
  "ioctlv_readdir E vec iolen st w =
     do { v0 \<leftarrow> rd vec 0; dirpath \<leftarrow> cstr v0 0;
          emulate st dirpath vec
            (\<lambda>fatpath w. do {
               cnt \<leftarrow> (if iolen > 1 then do { v1 \<leftarrow> rd vec 1; e \<leftarrow> rd32 v1 0; Some (Some e) } else Some None);
               ((ret, bs, n), w') \<leftarrow> FAT_ReadDir E fatpath cnt st w;
               vec' \<leftarrow> readdir_reply vec (iolen > 1) ret bs n;
               Some ((ret, vec'), w') }) w }"

definition ioctlv_getusage ::
  "'w ffs_env \<Rightarrow> bytes list \<Rightarrow> fs_state \<Rightarrow> 'w \<Rightarrow> (bytes list, 'w) fs_result"
where
  "ioctlv_getusage E vec st w =
     do { v0 \<leftarrow> rd vec 0; dirpath \<leftarrow> cstr v0 0;
          if FS_CheckRealPath (fsc_mode st) dirpath then Some ((-6, 0, vec), st, w)
          else if fsc_mode st \<noteq> 0 then
            do { ((ret, blocks, inodes), w') \<leftarrow>
                   (if fe_syscode E w \<noteq> 0x52 \<and> fe_syscode E w \<noteq> 0x53 then Some ((0, 1, 1), w)
                    else do {
                      fatpath \<leftarrow> abs_path st dirpath;
                      case FS_FakeUsage dirpath of
                        Some (b, i) \<Rightarrow>
                          do { ((ret, _), w1) \<leftarrow> FAT_GetStats E fatpath st w; Some ((ret, b, i), w1) }
                      | None \<Rightarrow> FAT_GetUsage E fatpath 0 1 st w });
                 vec1 \<leftarrow> put32 vec 1 blocks;
                 vec2 \<leftarrow> put32 vec1 2 inodes;
                 Some ((ret, fsc_mode st, vec2), st, w') }
          else Some ((-6, fsc_mode st, vec), st, w) }"

definition FS_Ioctlv ::
  "'w ffs_env \<Rightarrow> u32 \<Rightarrow> bytes list \<Rightarrow> nat \<Rightarrow> nat \<Rightarrow> fs_state \<Rightarrow> 'w \<Rightarrow> (bytes list, 'w) fs_result"
where
  "FS_Ioctlv E cmd vec inlen iolen st w =
     (if cmd = 4 then ioctlv_readdir E vec iolen st w
      else if cmd = 12 then ioctlv_getusage E vec st w
      else if cmd = 100 then
        if inlen = 0 then Some ((IPC_ENOENT, 1, vec), st, w)
        else do { v0 \<leftarrow> rd vec 0; mode \<leftarrow> rd32 v0 0;
                  path \<leftarrow> (if inlen > 1 then do { v1 \<leftarrow> rd vec 1; cstr v1 0 } else Some []);
                  (ret, st', w') \<leftarrow> FS_SetMode E mode path st w;
                  Some ((ret, 1, vec), st', w') }
      else if cmd = 101 then
        if Swi_GetRunningTitle (fe_mload E w) \<and> \<not> Swi_GetEsRequest (fe_mload E w)
        then Some ((IPC_ENOENT, 1, vec), st, w)
        else do { vec1 \<leftarrow> put32 vec 0 (fsc_mode st);
                  v1 \<leftarrow> rd vec1 1;
                  bs \<leftarrow> rd_block (fsc_path st) 0 (length v1);
                  Some ((0, 1, vec1[1 := bs]), st, w) }
      else Some ((-6, fsc_mode st, vec), st, w))"

section \<open>The open call of the kernel\<close>

definition IOP_CheckOpeningRequest :: "'w ffs_env \<Rightarrow> u32 \<Rightarrow> 'w \<Rightarrow> bool" where
  "IOP_CheckOpeningRequest E r w = TID_CheckRights (fe_mload E w) (fe_thread E w) r"

definition IOP_SyscallOpen :: "'w ffs_env \<Rightarrow> cstring \<Rightarrow> fs_state \<Rightarrow> 'w \<Rightarrow> (cstring \<times> fs_state) option" where
  "IOP_SyscallOpen E path st w =
     (if starts path ''#'' then
        if \<not> IOP_CheckOpeningRequest E TID_RIGHTS_FORCE_REAL_NAND w then Some (path, st)
        else if length path < FAT_MAXPATH
        then Some (''/'' @ drop 1 path, st\<lparr> forceRealPath := fsc_mode st AND MODE_REV17 \<noteq> 0 \<rparr>)
        else None
      else if starts path ''$'' \<or> starts path ''fat'' then
        if Swi_GetRunningTitle (fe_mload E w) \<and> \<not> IOP_CheckOpeningRequest E TID_RIGHTS_OPEN_FAT w
        then Some (''GTFO'', st) else Some (path, st)
      else if fsc_mode st \<noteq> 0 then
        if fsc_mode st AND MODE_SDHC \<noteq> 0 \<and> path = ''/dev/sdio/slot0'' then Some (''/dev/null'', st)
        else if fsc_mode st AND MODE_REV17 = 0 \<and> \<not> FS_CheckRealPath (fsc_mode st) path then
          do { (ok, newpath) \<leftarrow> FS_GenerateRelativePath path;
               Some (if ok then newpath else path, st) }
        else Some (path, st)
      else Some (path, st))"

section \<open>Invariant\<close>

definition fs_inv :: "fs_state \<Rightarrow> bool" where
  "fs_inv st \<longleftrightarrow> length (fat_fd st) = MAX_FAT_FD \<and> length (fsc_path st) = FAT_MAXPATH
     \<and> (\<exists>p. cstr (fsc_path st) 0 = Some p \<and> length p = unat (fsc_pathlen st) \<and> (fsc_mode st = 0 \<longrightarrow> p = []))
     \<and> (fsc_mode st \<noteq> 0 \<longrightarrow> fsc_mode st AND (MODE_SDHC OR MODE_USB) \<noteq> 0 \<and> fsc_mode st AND MODE_REV17 \<noteq> 0 \<and> fat_iobuf st)
     \<and> (0 < fatFd st \<longrightarrow> fat_iobuf st)"

lemma fs_inv_frame [simp]:
  "fs_inv (st\<lparr> forceRealPath := b \<rparr>) = fs_inv st"
  "length t = MAX_FAT_FD \<Longrightarrow> length (fat_fd st) = MAX_FAT_FD \<Longrightarrow> fs_inv (st\<lparr> fat_fd := t \<rparr>) = fs_inv st"
  by (simp_all add: fs_inv_def)

lemma length_register [simp]:
  "length (snd (FS_RegisterFile fd t)) = length t" "length (FS_UnregisterFile i t) = length t"
  by (simp_all add: FS_RegisterFile_def FS_UnregisterFile_def split: option.splits)

lemma cstr_empty: "0 < length buf \<Longrightarrow> cstr (buf[0 := 0]) 0 = Some []"
  by (cases buf) (simp_all add: cstr_def)

lemma mode_off_inv: "length (fat_fd st) = MAX_FAT_FD \<Longrightarrow> length (fsc_path st) = FAT_MAXPATH
    \<Longrightarrow> (0 < fatFd st \<longrightarrow> fat_iobuf st) \<Longrightarrow> fs_inv (mode_off st)"
  using cstr_empty [of "fsc_path st"] by (auto simp: fs_inv_def mode_off_def)

lemma FAT_Init_frame:
  assumes "FAT_Init E nand st w = Some (ret, st', w')"
  shows "\<exists>b fd. st' = st\<lparr> fat_iobuf := b, fatFd := fd \<rparr> \<and> (0 < fatFd st \<longrightarrow> b = fat_iobuf st \<and> fd = fatFd st)
    \<and> (fatFd st \<le> 0 \<longrightarrow> 0 < fd \<or> 0 \<le> ret \<longrightarrow> b)"
proof (cases "fatFd st > 0")
  case True
  then have "st' = st\<lparr> fat_iobuf := fat_iobuf st, fatFd := fatFd st \<rparr>" using assms by (simp add: FAT_Init_def)
  then show ?thesis using True by (intro exI [of _ "fat_iobuf st"] exI [of _ "fatFd st"]) auto
next
  case False
  obtain ok w1 where a: "(if fat_iobuf st then (True, w) else fe_alloc E w) = (ok, w1)" by (rule prod.exhaust)
  show ?thesis
  proof (cases ok)
    case ok: True
    obtain fd where "st' = st\<lparr> fat_iobuf := True, fatFd := fd \<rparr>"
      using assms False ok a
      by (auto simp: FAT_Init_def Let_def split: Option.bind_splits if_splits)
    then show ?thesis using False by (intro exI [of _ True] exI [of _ fd]) auto
  next
    case bad: False
    then have "st' = st\<lparr> fat_iobuf := fat_iobuf st, fatFd := fatFd st \<rparr>" "ret < 0"
      using assms False a by (auto simp: FAT_Init_def Let_def split: if_splits)
    then show ?thesis using False by (intro exI [of _ "fat_iobuf st"] exI [of _ "fatFd st"]) auto
  qed
qed

lemma mode_bits: "m AND (MODE_SDHC OR MODE_USB) \<noteq> 0 \<Longrightarrow> (m OR MODE_REV17) AND (MODE_SDHC OR MODE_USB) \<noteq> 0"
  "(m OR MODE_REV17) AND MODE_REV17 \<noteq> 0" "m OR MODE_REV17 \<noteq> 0" for m :: u32
proof -
  show r: "(m OR MODE_REV17) AND MODE_REV17 \<noteq> 0" by (simp add: bit.conj_disj_distrib2)
  show "m OR MODE_REV17 \<noteq> 0"
  proof
    assume "m OR MODE_REV17 = 0"
    then have "(m OR MODE_REV17) AND MODE_REV17 = 0" by simp
    with r show False by contradiction
  qed
  show "m AND (MODE_SDHC OR MODE_USB) \<noteq> 0 \<Longrightarrow> (m OR MODE_REV17) AND (MODE_SDHC OR MODE_USB) \<noteq> 0"
    by (simp add: bit.conj_disj_distrib2)
qed

lemma FS_SetMode_inv:
  assumes "FS_SetMode E m path st w = Some (ret, st', w')" and inv: "fs_inv st" and ok: "cstring_ok path"
  shows "fs_inv st'"
proof (cases "m AND (MODE_SDHC OR MODE_USB) \<noteq> 0 \<and> \<not> Stealth_CheckRunningTitle (fe_mload E w)")
  case False
  have "fs_inv (mode_off st)" by (rule mode_off_inv) (use inv in \<open>simp_all add: fs_inv_def\<close>)
  then show ?thesis using assms(1) inv False by (auto simp: FS_SetMode_def split: if_splits)
next
  case True
  let ?st1 = "st\<lparr> fat_fd := FS_UnregisterAllFiles (fat_fd st), fsc_path := blit (fsc_path st) 0 (cbytes path),
      fsc_pathlen := of_nat (length path), fsc_mode := m OR MODE_REV17 \<rparr>"
  have l: "length path < FAT_MAXPATH" using assms(1) True by (simp add: FS_SetMode_def split: if_splits)
  obtain nand w1 r st2 w2 where i: "FAT_Init E nand ?st1 w1 = Some (r, st2, w2)"
    and e: "st' = (if 0 \<le> r then st2 else mode_off st2)"
    using assms(1) True l mode_bits(2) [of m]
    by (auto simp: FS_SetMode_def Let_def split: Option.bind_splits if_splits)
  obtain b fd where f: "st2 = ?st1\<lparr> fat_iobuf := b, fatFd := fd \<rparr>" "0 < fatFd st \<longrightarrow> b = fat_iobuf st \<and> fd = fatFd st"
    "fatFd st \<le> 0 \<longrightarrow> 0 < fd \<or> 0 \<le> r \<longrightarrow> b" using FAT_Init_frame [OF i] by auto
  have bl: "blit (fsc_path st) 0 (cbytes path) = cbytes path @ drop (Suc (length path)) (fsc_path st)"
    by (simp add: blit_def)
  have pl: "length (blit (fsc_path st) 0 (cbytes path)) = FAT_MAXPATH"
    using inv l by (simp add: fs_inv_def length_blit)
  have b: "0 < fd \<longrightarrow> b" and br: "0 \<le> r \<longrightarrow> b" using f(2,3) inv by (cases "0 < fatFd st"; auto simp: fs_inv_def)+
  have "fs_inv st2" if "0 \<le> r"
    using that b br pl l mode_bits [of m] True cstr_cbytes0 [OF ok]
    by (simp add: f(1) fs_inv_def FS_UnregisterAllFiles_def bl unat_of_nat_u32)
  moreover have "fs_inv (mode_off st2)"
    by (rule mode_off_inv) (use b pl in \<open>simp_all add: f(1) FS_UnregisterAllFiles_def\<close>)
  ultimately show ?thesis using e by simp
qed

text \<open>The requests with a path, and every request on a descriptor but the closing one, leave the state alone.\<close>

lemma emulate_state: "emulate st p b f w = Some (r, st', w') \<Longrightarrow> st' = st"
  by (auto simp: emulate_def split: Option.bind_splits if_splits)

lemma rename_state: "ioctl_rename E inbuf iobuf st w = Some (r, st', w') \<Longrightarrow> st' = st"
  unfolding ioctl_rename_def by (auto split: Option.bind_splits if_splits)

lemma getstats_state: "ioctl_getstats iobuf st w = Some (r, st', w') \<Longrightarrow> st' = st"
  by (auto simp: ioctl_getstats_def split: if_splits)

lemma getattr_state: "ioctl_getattr E inbuf iobuf st w = Some (r, st', w') \<Longrightarrow> st' = st"
  by (auto simp: ioctl_getattr_def split: Option.bind_splits dest: emulate_state)

lemma readdir_state: "ioctlv_readdir E vec iolen st w = Some (r, st', w') \<Longrightarrow> st' = st"
  by (auto simp: ioctlv_readdir_def split: Option.bind_splits dest: emulate_state)

lemma getusage_state: "ioctlv_getusage E vec st w = Some (r, st', w') \<Longrightarrow> st' = st"
  unfolding ioctlv_getusage_def by (auto split: Option.bind_splits if_splits)

lemmas request_states = emulate_state rename_state getstats_state getattr_state readdir_state getusage_state

lemma FS_Ioctl_state:
  assumes "FS_Ioctl E cmd fd inbuf iobuf st w = Some (r, st', w')"
  shows "st' = st \<or> (\<exists>mode ret. FS_SetMode E mode [] st w = Some (ret, st', w'))"
proof (cases "cmd = 100")
  case True
  then show ?thesis using assms by (auto simp: FS_Ioctl_def split: Option.bind_splits if_splits)
next
  case False
  then have "st' = st" using assms unfolding FS_Ioctl_def
    by (auto simp: on_file_def split: Option.bind_splits if_splits dest: request_states)
  then show ?thesis by simp
qed

lemma FS_Ioctlv_state:
  assumes "FS_Ioctlv E cmd vec inlen iolen st w = Some (r, st', w')"
  shows "st' = st \<or> (\<exists>mode path ret. cstring_ok path \<and> FS_SetMode E mode path st w = Some (ret, st', w'))"
proof (cases "cmd = 100")
  case True
  have "cstring_ok []" by (simp add: cstring_ok_def)
  then show ?thesis using assms True
    by (auto simp: FS_Ioctlv_def split: Option.bind_splits if_splits dest: cstr_ok)
next
  case False
  then have "st' = st" using assms unfolding FS_Ioctlv_def
    by (auto split: Option.bind_splits if_splits dest: request_states)
  then show ?thesis by simp
qed

lemma FS_Open_inv:
  assumes "FS_Open E path mode st w = Some (r, st', w')" and "fs_inv st"
  shows "fs_inv st'"
proof -
  have "length (fat_fd st) = MAX_FAT_FD" using assms(2) by (simp add: fs_inv_def)
  then show ?thesis using assms
    by (auto simp: FS_Open_def split: Option.bind_splits if_splits)
qed

lemma FS_Close_inv:
  assumes "FS_Close E fd st w = Some (r, st', w')" and "fs_inv st"
  shows "fs_inv st'"
proof -
  have "length (fat_fd st) = MAX_FAT_FD" using assms(2) by (simp add: fs_inv_def)
  then show ?thesis using assms
    by (auto simp: FS_Close_def on_file_def split: if_splits prod.splits)
qed

lemma SyscallOpen_inv: "IOP_SyscallOpen E path st w = Some (p, st') \<Longrightarrow> fs_inv st \<Longrightarrow> fs_inv st'"
  by (auto simp: IOP_SyscallOpen_def split: Option.bind_splits if_splits)

text \<open>The states of the plugin: requests and open calls in any order.\<close>

inductive fs_reach :: "'w ffs_env \<Rightarrow> fs_state \<Rightarrow> bool" for E :: "'w ffs_env" where
  zero: "fs_reach E fs_zero"
| "open": "fs_reach E st \<Longrightarrow> FS_Open E path mode st w = Some (r, st', w') \<Longrightarrow> fs_reach E st'"
| close: "fs_reach E st \<Longrightarrow> FS_Close E fd st w = Some (r, st', w') \<Longrightarrow> fs_reach E st'"
| ioctl: "fs_reach E st \<Longrightarrow> FS_Ioctl E cmd fd inbuf iobuf st w = Some (q, st', w') \<Longrightarrow> fs_reach E st'"
| ioctlv: "fs_reach E st \<Longrightarrow> FS_Ioctlv E cmd vec inlen iolen st w = Some (v, st', w') \<Longrightarrow> fs_reach E st'"
| sysopen: "fs_reach E st \<Longrightarrow> IOP_SyscallOpen E path st w = Some (p, st') \<Longrightarrow> fs_reach E st'"

lemma zero_fs_inv: "fs_inv fs_zero"
  by (simp add: fs_inv_def fs_zero_def cstr_def)

lemma fs_reach_inv: "fs_reach E st \<Longrightarrow> fs_inv st"
proof (induction rule: fs_reach.induct)
  case (ioctl st cmd fd inbuf iobuf w q st' w')
  from FS_Ioctl_state [OF ioctl.hyps(2)] show ?case
  proof (elim disjE exE)
    fix mode ret
    assume "FS_SetMode E mode [] st w = Some (ret, st', w')"
    then show "fs_inv st'" by (rule FS_SetMode_inv [OF _ ioctl.IH]) (simp add: cstring_ok_def)
  qed (simp add: ioctl.IH)
next
  case (ioctlv st cmd vec inlen iolen w v st' w')
  from FS_Ioctlv_state [OF ioctlv.hyps(2)] show ?case
  proof (elim disjE exE conjE)
    fix mode path ret
    assume "FS_SetMode E mode path st w = Some (ret, st', w')" and "cstring_ok path"
    then show "fs_inv st'" by (rule FS_SetMode_inv [OF _ ioctlv.IH])
  qed (simp add: ioctlv.IH)
qed (simp_all add: zero_fs_inv FS_Open_inv FS_Close_inv SyscallOpen_inv)

section \<open>Descriptors\<close>

definition owned :: "fs_state \<Rightarrow> s32 set" where
  "owned st = {fd \<in> set (fat_fd st). 0 \<le> fd}"

lemma fd_find_Some: "fd_find P t = Some i \<Longrightarrow> i < length t \<and> P (t ! i)"
  by (induction t arbitrary: i) (auto split: if_splits)

lemma fd_find_None: "fd_find P t = None \<longleftrightarrow> (\<forall>x \<in> set t. \<not> P x)"
  by (induction t) auto

lemma FS_GetFileIndex_owned: "0 \<le> FS_GetFileIndex fd t \<longleftrightarrow> fd \<in> set t"
  using fd_find_None [of "\<lambda>x. x = fd" t] by (auto simp: FS_GetFileIndex_def split: option.splits)

lemma register_owned:
  assumes "\<exists>x \<in> set t. x < 0"
  shows "{f \<in> set (snd (FS_RegisterFile fd t)). 0 \<le> f} = {f \<in> set t. 0 \<le> f} \<union> {f. f = fd \<and> 0 \<le> fd}"
proof -
  obtain i where i: "fd_find (\<lambda>x. x < 0) t = Some i" using assms fd_find_None [of "\<lambda>x. x < 0" t] by auto
  note f = fd_find_Some [OF i]
  have t: "t = take i t @ t ! i # drop (Suc i) t" using f by (simp add: id_take_nth_drop)
  have "snd (FS_RegisterFile fd t) = take i t @ fd # drop (Suc i) t"
    using i f by (simp add: FS_RegisterFile_def upd_conv_take_nth_drop)
  moreover have "set t = set (take i t) \<union> {t ! i} \<union> set (drop (Suc i) t)" by (subst t) auto
  ultimately show ?thesis using f by auto
qed

section \<open>Properties\<close>

text \<open>An environment whose FAT module accepts everything and opens files as descriptor 40; its world is the state of
  the kernel patcher. \<open>demo_fs\<close> emulates on a USB drive in the folder \<open>/nand\<close>.\<close>

definition demo_ffs :: "mload_state ffs_env" where
  "demo_ffs = \<lparr> fe_open = (\<lambda>p m w. Some (40, w)), fe_close = (\<lambda>fd w. (0, w)), fe_read = (\<lambda>fd n w. ((0, []), w)),
     fe_write = (\<lambda>fd bs w. (int (length bs), w)), fe_seek = (\<lambda>fd a b w. (0, w)), fe_fat = (\<lambda>fd r w. Some ((0, No_Data), w)),
     fe_alloc = (\<lambda>w. (True, w)), fe_thread = (\<lambda>w. 5), fe_title = (\<lambda>w. 0), fe_syscode = (\<lambda>w. 0x52), fe_mload = (\<lambda>w. w),
     fe_set_mload = (\<lambda>m w. m) \<rparr>"

definition demo_fs :: "s32 list \<Rightarrow> fs_state" where
  "demo_fs t = fs_zero\<lparr> fsc_mode := 0x82, fsc_path := blit (replicate 256 0) 0 (cbytes ''/nand''), fsc_pathlen := 5,
     fat_fd := t, fatFd := 40, fat_iobuf := True \<rparr>"

lemma abs_path_reach:
  assumes "fs_inv st"
  shows "\<exists>folder. cstr (fsc_path st) 0 = Some folder \<and> (length (dev_prefix (fsc_mode st) @ folder @ FAT_Escape p) < FAT_MAXPATH
    \<longrightarrow> abs_path st p = Some (dev_prefix (fsc_mode st) @ folder @ FAT_Escape p))"
proof -
  obtain folder where f: "cstr (fsc_path st) 0 = Some folder" "length folder = unat (fsc_pathlen st)"
    using assms by (auto simp: fs_inv_def)
  then show ?thesis by (auto simp: abs_path_def FS_GenerateAbsolutePath_def)
qed

text \<open>
  C32. Every state the plugin reaches is well typed: the table has its twenty entries, the folder of the
  emulated memory is a terminated string in its array whose length is the recorded one, and
  while an emulation mode is on a device is selected and the request buffer exists.
\<close>

theorem fs_state_typed:
  assumes "fs_reach E st"
  shows "length (fat_fd st) = MAX_FAT_FD \<and> length (fsc_path st) = FAT_MAXPATH
    \<and> (\<exists>p. cstr (fsc_path st) 0 = Some p \<and> length p = unat (fsc_pathlen st))
    \<and> (fsc_mode st \<noteq> 0 \<longrightarrow> fsc_mode st AND (MODE_SDHC OR MODE_USB) \<noteq> 0 \<and> fat_iobuf st)"
  using fs_reach_inv [OF assms] by (auto simp: fs_inv_def)

lemma demo_set_mode:
  "\<exists>st' w'. FS_Ioctl demo_ffs 100 0 [0, 0, 0, 2] [] fs_zero mload_zero = Some ((0, 1, []), st', w') \<and> fsc_mode st' = 0x82"
  by (simp add: FS_Ioctl_def FS_SetMode_def demo_ffs_def Stealth_CheckRunningTitle_def Swi_GetRunningTitle_def mload_zero_def
      rd32_def rd_block_def be32_def abs_path_def FS_GenerateAbsolutePath_def FAT_Init_def fat_call_def FS_PrepareFolders_def
      dirs_def FAT_DeleteDir_def FAT_CreateDir_def fat_simple_def fs_zero_def dev_prefix_def cstr_def cbytes_def blit_def Let_def)

theorem fs_state_typed_witness:
  "\<exists>st. fs_reach demo_ffs st \<and> fsc_mode st = 0x82 \<and> length (fat_fd st) = MAX_FAT_FD \<and> fat_iobuf st"
proof -
  obtain st' w' where c: "FS_Ioctl demo_ffs 100 0 [0, 0, 0, 2] [] fs_zero mload_zero = Some ((0, 1, []), st', w')"
    and m: "fsc_mode st' = 0x82" using demo_set_mode by (elim exE conjE)
  have r: "fs_reach demo_ffs st'" by (rule fs_reach.ioctl [OF fs_reach.zero c])
  show ?thesis using fs_state_typed [OF r] r m by (intro exI [of _ st']) simp
qed

text \<open>
  A request with a path is handled by the plugin exactly when the path is emulated; when it is
  not, nothing has happened before the original handler runs.
\<close>

theorem fs_routing:
  assumes "cmd \<in> {3, 5, 9} \<and> off = 6 \<or> cmd \<in> {6, 7} \<and> off = 0" and "cstr inbuf off = Some p"
    and "FS_Ioctl E cmd fd inbuf iobuf st w = Some ((ret, performed, out), st', w')"
  shows "(fs_handled ret performed \<longleftrightarrow> \<not> FS_CheckRealPath (fsc_mode st) p)
    \<and> (FS_CheckRealPath (fsc_mode st) p \<longrightarrow> out = iobuf \<and> w' = w) \<and> st' = st"
proof -
  have r: "(fs_handled ret performed \<longleftrightarrow> \<not> FS_CheckRealPath (fsc_mode st) p)
      \<and> (FS_CheckRealPath (fsc_mode st) p \<longrightarrow> out = iobuf \<and> w' = w) \<and> st' = st"
    if "emulate st p iobuf f w = Some ((ret, performed, out), st', w')" for f
  proof (cases "FS_CheckRealPath (fsc_mode st) p")
    case True
    then show ?thesis using that by (auto simp: emulate_def fs_handled_def)
  next
    case False
    then have "fsc_mode st \<noteq> 0" by (auto simp: FS_CheckRealPath_def)
    then show ?thesis using that False
      by (auto simp: emulate_def fs_handled_def split: Option.bind_splits)
  qed
  consider "cmd = 3" | "cmd = 5" | "cmd = 9" | "cmd = 6" | "cmd = 7" using assms(1) by auto
  then show ?thesis
    by cases (use assms r in \<open>auto simp: FS_Ioctl_def ioctl_getattr_def\<close>)
qed

theorem fs_routing_witness:
  "\<exists>ret performed out st' w'. FS_Ioctl demo_ffs 7 0 (cbytes ''/tmp/x'') [] (demo_fs []) mload_zero = Some ((ret, performed, out), st', w')
    \<and> fs_handled ret performed"
proof -
  have c: "cstr (cbytes ''/tmp/x'') 0 = Some ''/tmp/x''" using cstr_cbytes0 [of "''/tmp/x''" "[]"] by (simp add: cstring_ok_def)
  have p: "\<not> FS_CheckRealPath 0x82 ''/tmp/x''" by (simp add: FS_CheckRealPath_def starts_def)
  have "\<exists>ret performed out st' w'. FS_Ioctl demo_ffs 7 0 (cbytes ''/tmp/x'') [] (demo_fs []) mload_zero = Some ((ret, performed, out), st', w')"
    using p
    by (simp add: FS_Ioctl_def c emulate_def demo_fs_def demo_ffs_def abs_path_def FS_GenerateAbsolutePath_def fs_zero_def blit_def
        cstr_cbytes0 cstring_ok_def dev_prefix_def with_buf_def FAT_Delete_def fat_simple_def fat_call_def)
  then obtain ret performed out st' w' where
    f: "FS_Ioctl demo_ffs 7 0 (cbytes ''/tmp/x'') [] (demo_fs []) mload_zero = Some ((ret, performed, out), st', w')" by (elim exE)
  have "fs_handled ret performed" using fs_routing [OF _ c f] p by (simp add: demo_fs_def)
  then show ?thesis using f by (intro exI conjI)
qed

text \<open>
  C33. While a title is running, no request that does not come from the ES module changes the
  emulation mode or the folder of the emulated memory.
\<close>

theorem running_title_keeps_mode:
  assumes "Swi_GetRunningTitle (fe_mload E w)" and "\<not> Swi_GetEsRequest (fe_mload E w)"
    and "FS_Ioctl E cmd fd inbuf iobuf st w = Some (q, st', w') \<or> FS_Ioctlv E cmd vec inlen iolen st w = Some (v, st', w')
      \<or> FS_Open E path mode st w = Some (r, st', w') \<or> FS_Close E fd st w = Some (r, st', w')"
  shows "fsc_mode st' = fsc_mode st \<and> fsc_path st' = fsc_path st \<and> fsc_pathlen st' = fsc_pathlen st"
proof -
  have s: "st' = st" if "FS_SetMode E m p st w = Some (x, st', w')" for m p x
    using that assms(1,2) by (auto simp: FS_SetMode_def Stealth_CheckRunningTitle_def split: if_splits)
  from assms(3) show ?thesis
  proof (elim disjE)
    assume "FS_Ioctl E cmd fd inbuf iobuf st w = Some (q, st', w')"
    from FS_Ioctl_state [OF this] have "st' = st" by (elim disjE exE) (assumption | rule s)+
    then show ?thesis by simp
  next
    assume "FS_Ioctlv E cmd vec inlen iolen st w = Some (v, st', w')"
    from FS_Ioctlv_state [OF this] have "st' = st" by (elim disjE exE conjE) (assumption | rule s)+
    then show ?thesis by simp
  next
    assume "FS_Open E path mode st w = Some (r, st', w')"
    then show ?thesis by (auto simp: FS_Open_def split: Option.bind_splits if_splits)
  next
    assume "FS_Close E fd st w = Some (r, st', w')"
    then show ?thesis by (auto simp: FS_Close_def on_file_def split: if_splits prod.splits)
  qed
qed

theorem running_title_keeps_mode_witness:
  "\<exists>st' w'. FS_Ioctl demo_ffs 100 0 [0, 0, 0, 0] [] (demo_fs []) (mload_zero\<lparr> running_title := 1 \<rparr>) = Some ((-6, 1, []), st', w')
    \<and> fsc_mode st' = 0x82"
proof -
  let ?w = "mload_zero\<lparr> running_title := 1 \<rparr>"
  have g: "Swi_GetRunningTitle (fe_mload demo_ffs ?w)" "\<not> Swi_GetEsRequest (fe_mload demo_ffs ?w)"
    by (simp_all add: demo_ffs_def Swi_GetRunningTitle_def Swi_GetEsRequest_def mload_zero_def)
  have "FS_Ioctl demo_ffs 100 0 [0, 0, 0, 0] [] (demo_fs []) ?w = Some ((-6, 1, []), demo_fs [], ?w)"
    using g by (simp add: FS_Ioctl_def FS_SetMode_def rd32_def rd_block_def be32_def)
  then show ?thesis
    using running_title_keeps_mode [OF g, of 100 0 "[0, 0, 0, 0]" "[]" "demo_fs []"] by (simp add: demo_fs_def)
qed

text \<open>
  The partition is hidden from a running title: a thread that was never granted the right to open it
  gets no path of the FAT module through the kernel's open call, whatever it asks for.
\<close>

theorem fat_hidden_from_title:
  assumes "fs_reach E st" and "fe_mload E w = Swi_SetRunningTitle v (grant_all rs mload_zero)" and "v \<noteq> 0"
    and "\<forall>q. (fe_thread E w, q) \<in> set rs \<longrightarrow> q AND TID_RIGHTS_OPEN_FAT = 0"
    and "IOP_SyscallOpen E path st w = Some (p, st')"
  shows "\<not> starts p ''$'' \<and> \<not> starts p ''fat''"
proof -
  let ?m = "grant_all rs mload_zero"
  have st: "stealth_mode ?m = 1" by (simp add: stealth_grant_all mload_zero_def)
  have run: "Swi_GetRunningTitle (fe_mload E w)"
    using assms(2,3) st by (simp add: Swi_GetRunningTitle_def Swi_SetRunningTitle_def)
  have eq: "TID_CheckRights (fe_mload E w) t r = TID_CheckRights ?m t r" for t r
    unfolding assms(2) by (simp add: TID_CheckRights_def Swi_SetRunningTitle_def split: option.splits)
  have no: "\<not> IOP_CheckOpeningRequest E TID_RIGHTS_OPEN_FAT w"
    using grants_sound [of rs "fe_thread E w"] assms(4) unfolding IOP_CheckOpeningRequest_def eq by blast
  have m: "fsc_mode st = 0 \<or> fsc_mode st AND MODE_REV17 \<noteq> 0" using fs_reach_inv [OF assms(1)] by (auto simp: fs_inv_def)
  have h: "\<not> (take (Suc 0) q = ''#'' \<and> take (Suc (Suc (Suc 0))) q = ''fat'')" for q :: cstring by (cases q) auto
  show ?thesis using assms(5) run no m h [of p]
    by (auto simp: IOP_SyscallOpen_def starts_def take_Cons' split: if_splits Option.bind_splits)
qed

theorem fat_hidden_from_title_witness:
  "\<exists>p st'. IOP_SyscallOpen demo_ffs ''fat:/x'' fs_zero (Swi_SetRunningTitle 1 (grant_all [(3, 1), (5, 2)] mload_zero)) = Some (p, st')
    \<and> \<not> starts p ''fat''"
proof -
  let ?w = "Swi_SetRunningTitle 1 (grant_all [(3, 1), (5, 2)] mload_zero)"
  have "\<exists>p st'. IOP_SyscallOpen demo_ffs ''fat:/x'' fs_zero ?w = Some (p, st')"
    by (simp add: IOP_SyscallOpen_def starts_def)
  then obtain p st' where o: "IOP_SyscallOpen demo_ffs ''fat:/x'' fs_zero ?w = Some (p, st')" by (elim exE)
  have "\<not> starts p ''$'' \<and> \<not> starts p ''fat''"
    by (rule fat_hidden_from_title [OF fs_reach.zero _ _ _ o, of 1 "[(3, 1), (5, 2)]"]) (simp_all add: demo_ffs_def)
  from o conjunct2 [OF this] show ?thesis by (intro exI conjI)
qed

text \<open>
  A file that the plugin opens while an entry of its table is free belongs to it: reads, writes, seeks
  and the closing of its descriptor are performed by the plugin, and every file it
  owned before it still owns.
\<close>

theorem open_file_owned:
  assumes "FS_Open E path mode st w = Some ((fd, 1, ()), st', w')" and "0 \<le> fd" and "\<exists>x \<in> set (fat_fd st). x < 0"
  shows "owned st' = insert fd (owned st)
    \<and> FS_Read E fd buf len st' w2 = (let ((ret, bs), w3) = fe_read E fd len w2 in Some ((ret, 1, fill buf bs), st', w3))
    \<and> FS_Write E fd data st' w2 = (let (ret, w3) = fe_write E fd data w2 in Some ((ret, 1, ()), st', w3))"
proof -
  have m: "fsc_mode st AND MODE_REV17 \<noteq> 0" and e: "st' = st\<lparr> fat_fd := snd (FS_RegisterFile fd (fat_fd st)) \<rparr>"
    using assms(1,2) by (auto simp: FS_Open_def split: Option.bind_splits if_splits)
  have o: "owned st' = insert fd (owned st)"
    using register_owned [OF assms(3), of fd] assms(2) by (auto simp: owned_def e)
  then have "fd \<in> set (fat_fd st')" using assms(2) by (auto simp: owned_def)
  then have "0 \<le> FS_GetFileIndex fd (fat_fd st')" by (simp add: FS_GetFileIndex_owned)
  then show ?thesis using o m e by (simp add: FS_Read_def FS_Write_def on_file_def)
qed

theorem open_file_owned_witness:
  "\<exists>st'. FS_Open demo_ffs ''/tmp/x'' 1 (demo_fs [3, -1]) mload_zero = Some ((40, 1, ()), st', mload_zero) \<and> owned st' = {40, 3}"
proof -
  have p: "\<not> FS_CheckRealPath 0x82 ''/tmp/x''" by (simp add: FS_CheckRealPath_def starts_def)
  have "\<exists>st'. FS_Open demo_ffs ''/tmp/x'' 1 (demo_fs [3, -1]) mload_zero = Some ((40, 1, ()), st', mload_zero)"
    using p by (simp add: FS_Open_def demo_fs_def fs_zero_def demo_ffs_def FS_GenerateRelativePath_def starts_def)
  then obtain st' where o: "FS_Open demo_ffs ''/tmp/x'' 1 (demo_fs [3, -1]) mload_zero = Some ((40, 1, ()), st', mload_zero)"
    by (elim exE)
  have "owned st' = insert 40 (owned (demo_fs [3, -1]))" using open_file_owned [OF o] by (simp add: demo_fs_def)
  moreover have "owned (demo_fs [3, -1]) = {3}" by (auto simp: owned_def demo_fs_def)
  ultimately show ?thesis using o by (intro exI conjI) simp_all
qed

text \<open>
  With twenty files open the next open succeeds but is not recorded: the descriptor belongs to the FAT
  module, and the request to close it goes to the original file system instead.
\<close>

theorem open_file_lost:
  assumes "FS_Open E path mode st w = Some ((fd, 1, ()), st', w')" and "0 \<le> fd"
    and "\<forall>x \<in> set (fat_fd st). 0 \<le> x" and "fd \<notin> set (fat_fd st)"
  shows "st' = st \<and> FS_Close E fd st' w2 = Some ((-6, 0, ()), st', w2) \<and> \<not> fs_handled (-6) 0"
proof -
  have n: "fd_find (\<lambda>x. x < 0) (fat_fd st) = None" using assms(3) by (auto simp: fd_find_None)
  have e: "st' = st" using assms(1,2) n by (auto simp: FS_Open_def FS_RegisterFile_def split: Option.bind_splits if_splits)
  have "\<not> 0 \<le> FS_GetFileIndex fd (fat_fd st)" using assms(4) by (simp add: FS_GetFileIndex_owned)
  then show ?thesis using e by (simp add: FS_Close_def on_file_def fs_handled_def)
qed

theorem open_file_lost_witness:
  "FS_Open demo_ffs ''/tmp/x'' 1 (demo_fs (replicate 20 3)) mload_zero = Some ((40, 1, ()), demo_fs (replicate 20 3), mload_zero)
    \<and> FS_Close demo_ffs 40 (demo_fs (replicate 20 3)) mload_zero = Some ((-6, 0, ()), demo_fs (replicate 20 3), mload_zero)"
proof -
  have p: "\<not> FS_CheckRealPath 0x82 ''/tmp/x''" by (simp add: FS_CheckRealPath_def starts_def)
  have n: "fd_find (\<lambda>x. x < 0) (replicate 20 3) = None" by (auto simp: fd_find_None)
  have o: "FS_Open demo_ffs ''/tmp/x'' 1 (demo_fs (replicate 20 3)) mload_zero = Some ((40, 1, ()), demo_fs (replicate 20 3), mload_zero)"
    using p n by (simp add: FS_Open_def demo_fs_def fs_zero_def demo_ffs_def FS_GenerateRelativePath_def starts_def FS_RegisterFile_def)
  show ?thesis using o open_file_lost [OF o] by (simp add: demo_fs_def)
qed

text \<open>
  While an emulation mode is on, a command that the plugin does not know is answered with an error and
  never reaches the original handler, which the code means to call.
\<close>

theorem unknown_command_swallowed:
  assumes "fsc_mode st \<noteq> 0" and "cmd \<notin> {1, 2, 3, 5, 6, 7, 8, 9, 11, 100}"
  shows "\<exists>performed. FS_Ioctl E cmd fd inbuf iobuf st w = Some ((-6, performed, iobuf), st, w) \<and> fs_handled (-6) performed"
  using assms by (simp add: FS_Ioctl_def fs_handled_def)

theorem unknown_command_swallowed_witness:
  "\<exists>performed. FS_Ioctl demo_ffs 13 0 [] [] (demo_fs []) mload_zero = Some ((-6, performed, []), demo_fs [], mload_zero)
    \<and> fs_handled (-6) performed"
  by (rule unknown_command_swallowed) (simp_all add: demo_fs_def)

end
