(* ===== verification/Fat_Module.thy ===== *)
theory Fat_Module
  imports Ffs_Paths
begin

text \<open>
  The FAT module (\<open>fat-module/fat_wrapper.c\<close>, \<open>fat-module/main.c\<close>): it gives the plugins files and
  directories of a FAT partition in the return codes of the console's own file system. The FatFs
  library, the heap, the storage drivers and the word at address 0 are the parameter \<open>fat_env\<close>;
  a directory object is an element of \<open>'d\<close>, what the library keeps in a file object an element
  of \<open>'h\<close>. The LED and the debug messages are left out. \<open>None\<close> is an access outside a buffer, a file
  object that does not exist, or a directory that never ends.
\<close>

section \<open>The FatFs library\<close>

abbreviation (input) FR_OK :: nat where "FR_OK \<equiv> 0"
abbreviation (input) FR_NO_FILE :: nat where "FR_NO_FILE \<equiv> 4"
abbreviation (input) FR_NO_PATH :: nat where "FR_NO_PATH \<equiv> 5"
abbreviation (input) FR_INVALID_NAME :: nat where "FR_INVALID_NAME \<equiv> 6"
abbreviation (input) FR_DENIED :: nat where "FR_DENIED \<equiv> 7"
abbreviation (input) FR_EXIST :: nat where "FR_EXIST \<equiv> 8"
abbreviation (input) FA_WRITE :: u32 where "FA_WRITE \<equiv> 0x02"
abbreviation (input) FA_CREATE_NEW :: u32 where "FA_CREATE_NEW \<equiv> 0x04"
abbreviation (input) FA_CREATE_ALWAYS :: u32 where "FA_CREATE_ALWAYS \<equiv> 0x08"
abbreviation (input) FA_OPEN_EXISTING :: u32 where "FA_OPEN_EXISTING \<equiv> 0x00"
abbreviation (input) FAT_AM_DIR :: u8 where "FAT_AM_DIR \<equiv> 0x10"
abbreviation (input) MAX_LFN :: nat where "MAX_LFN \<equiv> 255"

abbreviation (input) FS_SUCCESS :: s32 where "FS_SUCCESS \<equiv> 0"
abbreviation (input) FS_EFATAL :: s32 where "FS_EFATAL \<equiv> -101"
abbreviation (input) FS_EACCESS :: s32 where "FS_EACCESS \<equiv> -102"
abbreviation (input) FS_EEXIST :: s32 where "FS_EEXIST \<equiv> -105"
abbreviation (input) FS_ENOENT :: s32 where "FS_ENOENT \<equiv> -106"

record 'h fil =
  fil_fs :: bool
  fil_fptr :: u32
  fil_fsize :: u32
  fil_priv :: 'h

record filinfo =
  fi_fsize :: u32
  fi_fdate :: u16
  fi_ftime :: u16
  fi_fattrib :: u8
  fi_fname :: cstring
  fi_lfname :: cstring

record ('h, 'd, 'f) fat_env =
  f_mount :: "nat \<Rightarrow> bool \<Rightarrow> 'f \<Rightarrow> nat \<times> 'f"
  f_opendir :: "cstring \<Rightarrow> 'f \<Rightarrow> (nat \<times> 'd) \<times> 'f"
  f_readdir :: "'d \<Rightarrow> 'f \<Rightarrow> (nat \<times> filinfo \<times> 'd) \<times> 'f"
  f_open :: "cstring \<Rightarrow> u32 \<Rightarrow> 'f \<Rightarrow> (nat \<times> 'h fil) \<times> 'f"
  f_close :: "'h fil \<Rightarrow> 'f \<Rightarrow> nat \<times> 'f"
  f_read :: "'h fil \<Rightarrow> u32 \<Rightarrow> 'f \<Rightarrow> (nat \<times> bytes \<times> 'h fil) \<times> 'f"
  f_write :: "'h fil \<Rightarrow> bytes \<Rightarrow> 'f \<Rightarrow> (nat \<times> u32 \<times> 'h fil) \<times> 'f"
  f_lseek :: "'h fil \<Rightarrow> u32 \<Rightarrow> 'f \<Rightarrow> (nat \<times> 'h fil) \<times> 'f"
  f_mkdir :: "cstring \<Rightarrow> 'f \<Rightarrow> nat \<times> 'f"
  f_unlink :: "cstring \<Rightarrow> 'f \<Rightarrow> nat \<times> 'f"
  f_rename :: "cstring \<Rightarrow> cstring \<Rightarrow> 'f \<Rightarrow> nat \<times> 'f"
  f_stat :: "cstring \<Rightarrow> 'f \<Rightarrow> (nat \<times> filinfo) \<times> 'f"
  fa_malloc :: "nat \<Rightarrow> 'f \<Rightarrow> (u32 \<times> bytes) option \<times> 'f"
  fa_free :: "u32 \<Rightarrow> 'f \<Rightarrow> 'f"
  fa_sizeof_FIL :: nat
  fa_startup :: "nat \<Rightarrow> 'f \<Rightarrow> bool \<times> 'f"
  fa_shutdown :: "nat \<Rightarrow> 'f \<Rightarrow> s32 \<times> 'f"
  fa_game :: "'f \<Rightarrow> u32"

text \<open>The variables of the module: the folder of the emulated memory, the mounted partitions (4 is none)
  and the file objects on the heap.\<close>

record 'h fat_mod =
  emuNandPath :: bytes
  emuNandPathLen :: u32
  vol_pt :: "nat list"
  fils :: "s32 \<rightharpoonup> 'h fil"

definition fat_zero :: "'h fat_mod" where
  "fat_zero = \<lparr> emuNandPath = blit (replicate 192 0) 0 (cbytes ''/''), emuNandPathLen = 1, vol_pt = [4, 4],
     fils = Map.empty \<rparr>"

section \<open>Mounting\<close>

definition FAT_MountPartition ::
  "('h, 'd, 'f) fat_env \<Rightarrow> nat \<Rightarrow> nat \<Rightarrow> 'h fat_mod \<Rightarrow> 'f \<Rightarrow> s32 \<times> 'h fat_mod \<times> 'f"
where
  "FAT_MountPartition E device part st f =
     (let st1 = st\<lparr> vol_pt := (vol_pt st)[device := part] \<rparr>; (ret, f1) = f_mount E device True f in
      if ret = 0 then
        (case f_opendir E (if device = 0 then ''0:/'' else ''1:/'') f1 of ((r, d), f2) \<Rightarrow>
           if r = FR_OK then (FS_SUCCESS, st1, f2)
           else (FS_EFATAL, st1\<lparr> vol_pt := (vol_pt st1)[device := 4] \<rparr>, snd (f_mount E device False f2)))
      else (FS_EFATAL, st1\<lparr> vol_pt := (vol_pt st1)[device := 4] \<rparr>, f1))"

fun mount_any ::
  "('h, 'd, 'f) fat_env \<Rightarrow> nat \<Rightarrow> nat list \<Rightarrow> 'h fat_mod \<Rightarrow> 'f \<Rightarrow> s32 \<times> 'h fat_mod \<times> 'f"
where
  "mount_any E device [] st f = (FS_EFATAL, st, f)"
| "mount_any E device (i # is) st f =
     (case FAT_MountPartition E device i st f of (ret, st1, f1) \<Rightarrow>
        if ret = 0 then (FS_SUCCESS, st1, f1) else mount_any E device is st1 f1)"

definition FAT_Mount ::
  "('h, 'd, 'f) fat_env \<Rightarrow> nat \<Rightarrow> s32 \<Rightarrow> 'h fat_mod \<Rightarrow> 'f \<Rightarrow> s32 \<times> 'h fat_mod \<times> 'f"
where
  "FAT_Mount E device part st f =
     (let (ok, f1) = (if device = 0 \<or> device = 1 then fa_startup E device f else (False, f)) in
      if \<not> ok then (IPC_EINVAL, st, f1)
      else if part \<ge> 0 \<and> part < 4 then FAT_MountPartition E device (nat part) st f1
      else mount_any E device [0, 1, 2, 3] st f1)"

definition FAT_Unmount :: "('h, 'd, 'f) fat_env \<Rightarrow> nat \<Rightarrow> 'h fat_mod \<Rightarrow> 'f \<Rightarrow> s32 \<times> 'h fat_mod \<times> 'f" where
  "FAT_Unmount E device st f =
     (let (ret, f1) = f_mount E device False f in
      if ret \<noteq> 0 then (FS_EFATAL, st, f1)
      else (FS_SUCCESS, st\<lparr> vol_pt := (vol_pt st)[device := 4] \<rparr>, f1))"

definition FAT_GetPartition :: "u32 \<Rightarrow> 'h fat_mod \<Rightarrow> (s32 \<times> fat_data) option" where
  "FAT_GetPartition device st =
     do { pt \<leftarrow> rd (vol_pt st) (unat (ucast device :: u8));
          Some (if pt \<ge> 4 then (-1, No_Data) else (0, Partition_Data (of_nat pt))) }"

section \<open>Files\<close>

definition FAT_Open ::
  "('h, 'd, 'f) fat_env \<Rightarrow> cstring \<Rightarrow> u32 \<Rightarrow> 'h fat_mod \<Rightarrow> 'f \<Rightarrow> s32 \<times> 'h fat_mod \<times> 'f"
where
  "FAT_Open E path mode st f =
     (case fa_malloc E (fa_sizeof_FIL E) f of
        (None, f1) \<Rightarrow> (IPC_ENOMEM, st, f1)
      | (Some (p, _), f1) \<Rightarrow>
          let ((ret1, fil1), f2) = f_open E path mode f1;
              ((ret, fil), f3) =
                (if ret1 = FR_NO_FILE \<and> mode AND FA_WRITE \<noteq> 0 \<and> drop_bit 8 (fa_game E f2) = 0x525559
                 then f_open E path (mode OR FA_CREATE_ALWAYS) f2 else ((ret1, fil1), f2))
          in if ret \<noteq> 0 then (FS_ENOENT, st, fa_free E p f3)
             else (sint p, st\<lparr> fils := (fils st)(sint p \<mapsto> fil) \<rparr>, f3))"

definition FAT_Close ::
  "('h, 'd, 'f) fat_env \<Rightarrow> s32 \<Rightarrow> 'h fat_mod \<Rightarrow> 'f \<Rightarrow> (s32 \<times> 'h fat_mod \<times> 'f) option"
where
  "FAT_Close E fd st f =
     do { fil \<leftarrow> fils st fd;
          let (ret, f1) = f_close E fil f in
          Some (if ret \<noteq> 0 then (FS_EFATAL, st, f1)
                else (FS_SUCCESS, st\<lparr> fils := (fils st)(fd := None) \<rparr>, fa_free E (of_int fd) f1)) }"

definition FAT_Read ::
  "('h, 'd, 'f) fat_env \<Rightarrow> s32 \<Rightarrow> u32 \<Rightarrow> 'h fat_mod \<Rightarrow> 'f \<Rightarrow> ((s32 \<times> bytes) \<times> 'h fat_mod \<times> 'f) option"
where
  "FAT_Read E fd len st f =
     do { fil \<leftarrow> fils st fd;
          let ((ret, bs, fil'), f1) = f_read E fil len f; st1 = st\<lparr> fils := (fils st)(fd \<mapsto> fil') \<rparr> in
          Some ((if ret = FR_OK then int (length bs) else if ret = FR_DENIED then FS_EACCESS else FS_EFATAL, bs), st1, f1) }"

definition FAT_Write ::
  "('h, 'd, 'f) fat_env \<Rightarrow> s32 \<Rightarrow> bytes \<Rightarrow> 'h fat_mod \<Rightarrow> 'f \<Rightarrow> (s32 \<times> 'h fat_mod \<times> 'f) option"
where
  "FAT_Write E fd data st f =
     do { fil \<leftarrow> fils st fd;
          let ((ret, wrote, fil'), f1) = f_write E fil data f; st1 = st\<lparr> fils := (fils st)(fd \<mapsto> fil') \<rparr> in
          Some (if ret = FR_OK then sint wrote else if ret = FR_DENIED then FS_EACCESS else FS_EFATAL, st1, f1) }"

definition seek_offset :: "'h fil \<Rightarrow> s32 \<Rightarrow> s32 \<Rightarrow> u32 option" where
  "seek_offset fil where whence =
     (if whence = 0 then Some (of_int where)
      else if whence = 1 then Some (fil_fptr fil + of_int where)
      else if whence = 2 then Some (fil_fsize fil + of_int where)
      else None)"

definition FAT_Seek ::
  "('h, 'd, 'f) fat_env \<Rightarrow> s32 \<Rightarrow> s32 \<Rightarrow> s32 \<Rightarrow> 'h fat_mod \<Rightarrow> 'f \<Rightarrow> (s32 \<times> 'h fat_mod \<times> 'f) option"
where
  "FAT_Seek E fd where whence st f =
     do { fil \<leftarrow> fils st fd;
          Some (case seek_offset fil where whence of
                  None \<Rightarrow> (FS_EFATAL, st, f)
                | Some offset \<Rightarrow>
                    if offset \<le> fil_fsize fil then
                      let ((ret, fil'), f1) = f_lseek E fil offset f; st1 = st\<lparr> fils := (fils st)(fd \<mapsto> fil') \<rparr>
                      in (if ret = 0 then sint offset else FS_EFATAL, st1, f1)
                    else (FS_EFATAL, st, f)) }"

definition FAT_GetFileStats :: "s32 \<Rightarrow> 'h fat_mod \<Rightarrow> (s32 \<times> fat_data) option" where
  "FAT_GetFileStats fd st =
     do { fil \<leftarrow> fils st fd;
          Some (if \<not> fil_fs fil then (FS_EFATAL, No_Data)
                else (FS_SUCCESS, FStats_Data \<lparr> fst_length = fil_fsize fil, fst_pos = fil_fptr fil \<rparr>)) }"

section \<open>Names\<close>

definition FAT_CreateDir :: "('h, 'd, 'f) fat_env \<Rightarrow> cstring \<Rightarrow> 'f \<Rightarrow> s32 \<times> 'f" where
  "FAT_CreateDir E path f =
     (let (ret, f1) = f_mkdir E path f in
      (if ret = FR_OK then FS_SUCCESS else if ret = FR_DENIED then FS_EACCESS else if ret = FR_EXIST then FS_EEXIST
       else if ret = FR_NO_FILE \<or> ret = FR_NO_PATH then FS_ENOENT else FS_EFATAL, f1))"

definition FAT_CreateFile :: "('h, 'd, 'f) fat_env \<Rightarrow> cstring \<Rightarrow> 'f \<Rightarrow> s32 \<times> 'f" where
  "FAT_CreateFile E path f =
     (let ((ret, fil), f1) = f_open E path FA_CREATE_NEW f in
      if ret = FR_OK then (FS_SUCCESS, snd (f_close E fil f1))
      else (if ret = FR_EXIST then FS_EEXIST
            else if ret = FR_NO_FILE \<or> ret = FR_NO_PATH then FS_ENOENT else FS_EFATAL, f1))"

definition FAT_Delete :: "('h, 'd, 'f) fat_env \<Rightarrow> cstring \<Rightarrow> 'f \<Rightarrow> s32 \<times> 'f" where
  "FAT_Delete E path f =
     (let (ret, f1) = f_unlink E path f in
      (if ret = FR_OK then FS_SUCCESS else if ret = FR_DENIED then FS_EACCESS else if ret = FR_EXIST then FS_EEXIST
       else if ret = FR_NO_FILE \<or> ret = FR_NO_PATH then FS_ENOENT else FS_EFATAL, f1))"

definition skip_prefix :: "cstring \<Rightarrow> cstring" where
  "skip_prefix name = (if CHR '':'' \<in> set name then tl (dropWhile (\<lambda>c. c \<noteq> CHR '':'') name) else name)"

definition FAT_Rename :: "('h, 'd, 'f) fat_env \<Rightarrow> cstring \<Rightarrow> cstring \<Rightarrow> 'f \<Rightarrow> s32 \<times> 'f" where
  "FAT_Rename E oldname newname f =
     (let (ret, f1) = f_rename E oldname (skip_prefix newname) f in
      (if ret = FR_OK then FS_SUCCESS else if ret = FR_EXIST then FS_EEXIST
       else if ret = FR_NO_PATH \<or> ret = FR_NO_FILE then FS_ENOENT else FS_EFATAL, f1))"

definition FAT_GetStats :: "('h, 'd, 'f) fat_env \<Rightarrow> cstring \<Rightarrow> 'f \<Rightarrow> (s32 \<times> fat_data) \<times> 'f" where
  "FAT_GetStats E path f =
     (let ((ret, fno), f1) = f_stat E path f in
      (if ret = FR_OK then
         (FS_SUCCESS, Stats_Data \<lparr> st_size = fi_fsize fno, st_date = fi_fdate fno, st_time = fi_ftime fno,
            st_attrib = fi_fattrib fno \<rparr>)
       else if ret = FR_NO_FILE \<or> ret = FR_NO_PATH \<or> ret = FR_INVALID_NAME then (FS_ENOENT, No_Data)
       else (FS_EFATAL, No_Data), f1))"

section \<open>Directories\<close>

definition FAT_OpenDir :: "('h, 'd, 'f) fat_env \<Rightarrow> cstring \<Rightarrow> 'f \<Rightarrow> (s32 \<times> 'd) \<times> 'f" where
  "FAT_OpenDir E path f =
     (let ((ret, d), f1) = f_opendir E path f in
      ((if ret = FR_OK then FS_SUCCESS
        else if ret = FR_INVALID_NAME \<or> ret = FR_NO_PATH then FS_ENOENT else FS_EFATAL, d), f1))"

partial_function (option) FAT_ReadDirEntry ::
  "('h, 'd, 'f) fat_env \<Rightarrow> 'd \<Rightarrow> 'f \<Rightarrow> ((s32 \<times> filinfo \<times> 'd) \<times> 'f) option"
where
  "FAT_ReadDirEntry E d f =
     (case f_readdir E d f of ((ret, fno, d'), f1) \<Rightarrow>
        if ret \<noteq> 0 then Some ((FS_ENOENT, fno, d'), f1)
        else if fi_fname fno = [] then Some ((FS_ENOENT, fno, d'), f1)
        else if hd (fi_fname fno) \<noteq> CHR ''.'' then Some ((FS_SUCCESS, fno, d'), f1)
        else FAT_ReadDirEntry E d' f1)"

definition entry_name :: "filinfo \<Rightarrow> cstring" where
  "entry_name fno = (if fi_lfname fno \<noteq> [] then fi_lfname fno else fi_fname fno)"

definition entry_skip :: "bool \<Rightarrow> cstring \<Rightarrow> bool" where
  "entry_skip forFS name \<longleftrightarrow> forFS \<and> length (FAT_Unescape name) > 12"

definition entry_text :: "bool \<Rightarrow> cstring \<Rightarrow> cstring" where
  "entry_text forFS name = (if forFS then FAT_Unescape name else take MAX_LFN name)"

text \<open>The buffer is absent (\<open>None\<close>) when no length was given.\<close>

partial_function (option) readdir_loop ::
  "('h, 'd, 'f) fat_env \<Rightarrow> bool \<Rightarrow> u32 \<Rightarrow> 'd \<Rightarrow> bytes option \<Rightarrow> nat \<Rightarrow> u32 \<Rightarrow> 'f \<Rightarrow> ((bytes option \<times> u32) \<times> 'f) option"
where
  "readdir_loop E forFS entries d buffer pos cnt f =
     (if entries = 0 \<or> entries > cnt then
        do { ((ret, fno, d'), f1) \<leftarrow> FAT_ReadDirEntry E d f;
             if ret \<noteq> 0 then Some ((buffer, cnt), f1)
             else if entry_skip forFS (entry_name fno) then readdir_loop E forFS entries d' buffer pos cnt f1
             else
               (let text = entry_text forFS (entry_name fno) in
                case buffer of
                  None \<Rightarrow> readdir_loop E forFS entries d' buffer pos (cnt + 1) f1
                | Some b \<Rightarrow>
                    if pos + length text + 1 \<le> length b
                    then readdir_loop E forFS entries d' (Some (blit b pos (cbytes text))) (pos + length text + 1) (cnt + 1) f1
                    else None) }
      else Some ((buffer, cnt), f))"

definition FAT_ReadDir ::
  "('h, 'd, 'f) fat_env \<Rightarrow> bool \<Rightarrow> cstring \<Rightarrow> (u32 \<times> u32) option \<Rightarrow> 'f \<Rightarrow> ((s32 \<times> fat_data) \<times> 'f) option"
where
  "FAT_ReadDir E forFS path out f =
     (let (entries, buflen) = (case out of Some (e, l) \<Rightarrow> (e, unat l) | None \<Rightarrow> (0, 0));
          ((r0, fil), f1) = f_open E path FA_OPEN_EXISTING f in
      if r0 = FR_OK then Some ((FS_EFATAL, No_Data), snd (f_close E fil f1))
      else
        (case FAT_OpenDir E path f1 of ((r1, d), f2) \<Rightarrow>
           if r1 \<noteq> 0 then Some ((r1, No_Data), f2)
           else if buflen = 0 then
             do { ((b, cnt), f3) \<leftarrow> readdir_loop E forFS entries d None 0 0 f2;
                  Some ((FS_SUCCESS, Dir_Data [] cnt), f3) }
           else
             (case fa_malloc E buflen f2 of
                (None, f3) \<Rightarrow> Some ((IPC_ENOMEM, No_Data), f3)
              | (Some (p, heap), f3) \<Rightarrow>
                  do { ((b, cnt), f4) \<leftarrow> readdir_loop E forFS entries d (Some heap) 0 0 f3;
                       Some ((FS_SUCCESS, Dir_Data (case b of Some bs \<Rightarrow> bs | None \<Rightarrow> []) cnt), fa_free E p f4) })))"

definition sub_path :: "cstring \<Rightarrow> cstring \<Rightarrow> cstring option" where
  "sub_path dirpath name =
     (if length dirpath + 1 + length name < MAX_LFN + 1 then Some (dirpath @ ''/'' @ name) else None)"

text \<open>In a listing for the console's file system the name of an entry has been unescaped in place before
  the path of a subdirectory is made from it.\<close>

partial_function (option) usage_loop ::
  "('h, 'd, 'f) fat_env \<Rightarrow> bool \<Rightarrow> cstring \<Rightarrow> 'd \<Rightarrow> 64 word \<Rightarrow> u32 \<Rightarrow> u32 \<Rightarrow> 'f
     \<Rightarrow> ((s32 \<times> 64 word \<times> u32 \<times> u32) \<times> 'f) option"
where
  "usage_loop E forFS path d sz files dirs f =
     do { ((ret, fno, d'), f1) \<leftarrow> FAT_ReadDirEntry E d f;
          if ret \<noteq> 0 then Some ((FS_SUCCESS, sz, files, dirs), f1)
          else if entry_skip forFS (entry_name fno) then usage_loop E forFS path d' sz files dirs f1
          else if fi_fattrib fno AND FAT_AM_DIR \<noteq> 0 then
            do { sub \<leftarrow> sub_path path (if forFS then FAT_Unescape (entry_name fno) else entry_name fno);
                 (case FAT_OpenDir E sub f1 of ((r1, d1), f2) \<Rightarrow>
                    if r1 \<noteq> 0 then Some ((r1, sz, files, dirs + 1), f2)
                    else do { ((r2, sz', files', dirs'), f3) \<leftarrow> usage_loop E forFS sub d1 sz files (dirs + 1) f2;
                              if r2 \<noteq> 0 then Some ((r2, sz', files', dirs'), f3)
                              else usage_loop E forFS path d' sz' files' dirs' f3 }) }
          else usage_loop E forFS path d' (sz + ucast (fi_fsize fno)) (files + 1) dirs f1 }"

definition FAT_GetUsage ::
  "('h, 'd, 'f) fat_env \<Rightarrow> bool \<Rightarrow> cstring \<Rightarrow> 'f \<Rightarrow> ((s32 \<times> fat_data) \<times> 'f) option"
where
  "FAT_GetUsage E forFS path f =
     (case FAT_OpenDir E path f of ((r, d), f1) \<Rightarrow>
        if r \<noteq> 0 then Some ((r, Usage_Data 0 0 0), f1)
        else do { ((ret, sz, files, dirs), f2) \<leftarrow> usage_loop E forFS path d 0 0 0 f1;
                  Some ((ret, Usage_Data sz files dirs), f2) })"

text \<open>The result of the recursive call is not looked at: the deletion of a directory that is not empty fails.\<close>

partial_function (option) deldir_loop ::
  "('h, 'd, 'f) fat_env \<Rightarrow> cstring \<Rightarrow> 'd \<Rightarrow> 'f \<Rightarrow> (s32 \<times> 'f) option"
where
  "deldir_loop E path d f =
     do { ((ret, fno, d'), f1) \<leftarrow> FAT_ReadDirEntry E d f;
          if ret \<noteq> 0 then Some (FS_SUCCESS, f1)
          else do {
            sub \<leftarrow> sub_path path (entry_name fno);
            f3 \<leftarrow> (if fi_fattrib fno AND FAT_AM_DIR \<noteq> 0 then
                    (case FAT_OpenDir E sub f1 of ((r1, d1), f2) \<Rightarrow>
                       if r1 \<noteq> 0 then Some f2
                       else do { (r2, f') \<leftarrow> deldir_loop E sub d1 f2; Some f' })
                  else Some f1);
            (case FAT_Delete E sub f3 of (r, f4) \<Rightarrow>
               if r \<noteq> 0 then Some (r, f4) else deldir_loop E path d' f4) } }"

definition FAT_DeleteDir :: "('h, 'd, 'f) fat_env \<Rightarrow> cstring \<Rightarrow> 'f \<Rightarrow> (s32 \<times> 'f) option" where
  "FAT_DeleteDir E path f =
     (case FAT_OpenDir E path f of ((r, d), f1) \<Rightarrow> if r \<noteq> 0 then Some (r, f1) else deldir_loop E path d f1)"

section \<open>Requests\<close>

text \<open>The folder of the emulated memory. The two tests of the request on alignment use the logical negation
  and are always true. The test for a final slash looks at the terminating zero.\<close>

definition set_nand_path :: "cstring \<Rightarrow> 'h fat_mod \<Rightarrow> (s32 \<times> 'h fat_mod) option" where
  "set_nand_path path st =
     (let len = length path in
      if len < 192 then
        let a = blit (emuNandPath st) 0 (cbytes path) in
        if a ! len \<noteq> 0x2F then
          if len + 1 < length a
          then Some (0, st\<lparr> emuNandPath := a[len := 0x2F, len + 1 := 0], emuNandPathLen := of_nat len + 1 \<rparr>) else None
        else Some (0, st\<lparr> emuNandPath := a, emuNandPathLen := of_nat len \<rparr>)
      else Some (-4, st))"

definition fat_ioctl :: "s32 \<Rightarrow> fat_req \<Rightarrow> 'h fat_mod \<Rightarrow> ((s32 \<times> fat_data) \<times> 'h fat_mod) option" where
  "fat_ioctl fd r st =
     (case r of
        IOCTL_FAT_FILESTATS \<Rightarrow> map_option (\<lambda>x. (x, st)) (FAT_GetFileStats fd st)
      | IOCTL_FAT_SETNANDPATH path \<Rightarrow> map_option (\<lambda>(ret, st'). ((ret, No_Data), st')) (set_nand_path path st)
      | _ \<Rightarrow> Some ((IPC_EINVAL, No_Data), st))"

definition fat_unmount ::
  "('h, 'd, 'f) fat_env \<Rightarrow> nat \<Rightarrow> 'h fat_mod \<Rightarrow> 'f \<Rightarrow> s32 \<times> 'h fat_mod \<times> 'f"
where
  "fat_unmount E device st f =
     (case FAT_Unmount E device st f of (ret, st1, f1) \<Rightarrow>
        if ret < 0 then (ret, st1, f1)
        else case fa_shutdown E device f1 of (r, f2) \<Rightarrow> (if r = 0 then IPC_EINVAL else r, st1, f2))"

definition plain :: "'h fat_mod \<Rightarrow> s32 \<times> 'f \<Rightarrow> ((s32 \<times> fat_data) \<times> 'h fat_mod \<times> 'f)" where
  "plain st r = ((fst r, No_Data), st, snd r)"

definition fat_ioctlv ::
  "('h, 'd, 'f) fat_env \<Rightarrow> fat_req \<Rightarrow> 'h fat_mod \<Rightarrow> 'f \<Rightarrow> ((s32 \<times> fat_data) \<times> 'h fat_mod \<times> 'f) option"
where
  "fat_ioctlv E r st f =
     (case r of
        IOCTL_FAT_MKDIR p \<Rightarrow> Some (plain st (FAT_CreateDir E p f))
      | IOCTL_FAT_MKFILE p \<Rightarrow> Some (plain st (FAT_CreateFile E p f))
      | IOCTL_FAT_READDIR_FS p out \<Rightarrow> map_option (\<lambda>(x, f'). (x, st, f')) (FAT_ReadDir E True p out f)
      | IOCTL_FAT_READDIR p out \<Rightarrow> map_option (\<lambda>(x, f'). (x, st, f')) (FAT_ReadDir E False p out f)
      | IOCTL_FAT_DELETE p \<Rightarrow> Some (plain st (FAT_Delete E p f))
      | IOCTL_FAT_DELETEDIR p \<Rightarrow> map_option (plain st) (FAT_DeleteDir E p f)
      | IOCTL_FAT_RENAME p q \<Rightarrow> Some (plain st (FAT_Rename E p q f))
      | IOCTL_FAT_STATS p \<Rightarrow> Some (case FAT_GetStats E p f of (x, f') \<Rightarrow> (x, st, f'))
      | IOCTL_FAT_GETUSAGE_FS p \<Rightarrow> map_option (\<lambda>(x, f'). (x, st, f')) (FAT_GetUsage E True p f)
      | IOCTL_FAT_GETUSAGE p \<Rightarrow> map_option (\<lambda>(x, f'). (x, st, f')) (FAT_GetUsage E False p f)
      | IOCTL_FAT_MOUNT_SD part \<Rightarrow>
          Some (case FAT_Mount E 0 (case part of Some x \<Rightarrow> x | None \<Rightarrow> -1) st f of (ret, st', f') \<Rightarrow> ((ret, No_Data), st', f'))
      | IOCTL_FAT_UMOUNT_SD \<Rightarrow> Some (case fat_unmount E 0 st f of (ret, st', f') \<Rightarrow> ((ret, No_Data), st', f'))
      | IOCTL_FAT_MOUNT_USB part \<Rightarrow>
          Some (case FAT_Mount E 1 (case part of Some x \<Rightarrow> x | None \<Rightarrow> -1) st f of (ret, st', f') \<Rightarrow> ((ret, No_Data), st', f'))
      | IOCTL_FAT_UMOUNT_USB \<Rightarrow> Some (case fat_unmount E 1 st f of (ret, st', f') \<Rightarrow> ((ret, No_Data), st', f'))
      | IOCTL_FAT_GETPARTITION device \<Rightarrow> map_option (\<lambda>x. (x, st, f)) (FAT_GetPartition device st)
      | _ \<Rightarrow> Some ((IPC_EINVAL, No_Data), st, f))"

text \<open>A relative name is resolved in the folder of the emulated memory, in a buffer of 256 bytes.\<close>

definition nand_file :: "'h fat_mod \<Rightarrow> cstring \<Rightarrow> cstring option" where
  "nand_file st name =
     do { folder \<leftarrow> cstr (emuNandPath st) 0;
          let path = take (unat (emuNandPathLen st)) folder @ FAT_Escape name in
          if length folder < 256 \<and> unat (emuNandPathLen st) \<le> length folder \<and> length path < 256 then Some path else None }"

definition fat_open ::
  "('h, 'd, 'f) fat_env \<Rightarrow> cstring \<Rightarrow> u32 \<Rightarrow> 'h fat_mod \<Rightarrow> 'f \<Rightarrow> (s32 \<times> 'h fat_mod \<times> 'f) option"
where
  "fat_open E devpath mode st f =
     (if starts devpath ''$'' then do { path \<leftarrow> nand_file st (drop 1 devpath); Some (FAT_Open E path mode st f) }
      else if devpath = ''fat'' then Some (0, st, f)
      else if starts devpath ''fat'' then Some (FAT_Open E (drop 3 devpath) mode st f)
      else Some (IPC_EINVAL, st, f))"

definition fat_close ::
  "('h, 'd, 'f) fat_env \<Rightarrow> s32 \<Rightarrow> 'h fat_mod \<Rightarrow> 'f \<Rightarrow> (s32 \<times> 'h fat_mod \<times> 'f) option"
where
  "fat_close E fd st f = (if fd \<noteq> 0 \<and> fd mod 32 = 0 then FAT_Close E fd st f else Some (0, st, f))"

text \<open>One round of the main loop: the message and the reply, with the bytes of a read and the data of a request.\<close>

datatype fat_msg =
  Msg_Open cstring u32
| Msg_Close s32
| Msg_Read s32 u32
| Msg_Write s32 bytes
| Msg_Seek s32 s32 s32
| Msg_Ioctl s32 fat_req
| Msg_Ioctlv fat_req
| Msg_Other

definition fat_main ::
  "('h, 'd, 'f) fat_env \<Rightarrow> fat_msg \<Rightarrow> 'h fat_mod \<Rightarrow> 'f \<Rightarrow> ((s32 \<times> bytes \<times> fat_data) \<times> 'h fat_mod \<times> 'f) option"
where
  "fat_main E msg st f =
     (case msg of
        Msg_Open devpath mode \<Rightarrow>
          do { (ret, st', f') \<leftarrow> fat_open E devpath mode st f; Some ((ret, [], No_Data), st', f') }
      | Msg_Close fd \<Rightarrow> do { (ret, st', f') \<leftarrow> fat_close E fd st f; Some ((ret, [], No_Data), st', f') }
      | Msg_Read fd len \<Rightarrow> do { ((ret, bs), st', f') \<leftarrow> FAT_Read E fd len st f; Some ((ret, bs, No_Data), st', f') }
      | Msg_Write fd data \<Rightarrow> do { (ret, st', f') \<leftarrow> FAT_Write E fd data st f; Some ((ret, [], No_Data), st', f') }
      | Msg_Seek fd where whence \<Rightarrow>
          do { (ret, st', f') \<leftarrow> FAT_Seek E fd where whence st f; Some ((ret, [], No_Data), st', f') }
      | Msg_Ioctl fd r \<Rightarrow> do { ((ret, d), st') \<leftarrow> fat_ioctl fd r st; Some ((ret, [], d), st', f) }
      | Msg_Ioctlv r \<Rightarrow> do { ((ret, d), st', f') \<leftarrow> fat_ioctlv E r st f; Some ((ret, [], d), st', f') }
      | Msg_Other \<Rightarrow> Some ((IPC_EINVAL, [], No_Data), st, f))"

section \<open>Mounting: the first partition that works\<close>

lemma mount_partition_result:
  assumes "FAT_MountPartition E device part st f = (ret, st', f')" and "device < length (vol_pt st)"
  shows "(ret = 0 \<and> st' = st\<lparr> vol_pt := (vol_pt st)[device := part] \<rparr>)
    \<or> (ret = FS_EFATAL \<and> st' = st\<lparr> vol_pt := (vol_pt st)[device := 4] \<rparr>)"
  using assms by (auto simp: FAT_MountPartition_def Let_def split: prod.splits if_splits)

lemma mount_any_result:
  assumes "mount_any E device is st f = (ret, st', f')" and "device < length (vol_pt st)"
  shows "(ret = 0 \<and> (\<exists>i \<in> set is. st' = st\<lparr> vol_pt := (vol_pt st)[device := i] \<rparr>))
    \<or> (ret = FS_EFATAL \<and> (st' = st\<lparr> vol_pt := (vol_pt st)[device := 4] \<rparr> \<or> is = []))"
  using assms
proof (induction "is" arbitrary: st f)
  case (Cons i js)
  obtain r st1 f1 where m: "FAT_MountPartition E device i st f = (r, st1, f1)" by (rule prod_cases3)
  from mount_partition_result [OF m Cons.prems(2)] show ?case
  proof (elim disjE conjE)
    assume "r = 0" and "st1 = st\<lparr> vol_pt := (vol_pt st)[device := i] \<rparr>"
    then show ?thesis using Cons.prems(1) m by auto
  next
    assume r: "r = FS_EFATAL" and s: "st1 = st\<lparr> vol_pt := (vol_pt st)[device := 4] \<rparr>"
    have "mount_any E device js st1 f1 = (ret, st', f')" using Cons.prems(1) m r by simp
    from Cons.IH [OF this] Cons.prems(2) s show ?thesis
      using \<open>mount_any E device js st1 f1 = (ret, st', f')\<close> by (cases js) auto
  qed
qed simp

section \<open>Reading a directory\<close>

text \<open>A directory object that lists entries: each read returns the next one and leaves the file system alone; an
  entry without a name ends the list.\<close>

fun dir_lists :: "('h, 'd, 'f) fat_env \<Rightarrow> 'f \<Rightarrow> 'd \<Rightarrow> filinfo list \<Rightarrow> bool" where
  "dir_lists E f d [] \<longleftrightarrow> (\<exists>fno d'. f_readdir E d f = ((0, fno, d'), f) \<and> fi_fname fno = [])"
| "dir_lists E f d (e # es) \<longleftrightarrow> (\<exists>d'. f_readdir E d f = ((0, e, d'), f) \<and> fi_fname e \<noteq> [] \<and> dir_lists E f d' es)"

definition shown :: "filinfo \<Rightarrow> bool" where
  "shown e \<longleftrightarrow> hd (fi_fname e) \<noteq> CHR ''.''"

text \<open>The next visible entry.\<close>

lemma ReadDirEntry_lists:
  assumes "dir_lists E f d es"
  shows "case filter shown es of
      [] \<Rightarrow> \<exists>fno d'. FAT_ReadDirEntry E d f = Some ((FS_ENOENT, fno, d'), f)
    | e # rest \<Rightarrow> \<exists>d' es'. FAT_ReadDirEntry E d f = Some ((FS_SUCCESS, e, d'), f) \<and> dir_lists E f d' es'
        \<and> filter shown es' = rest \<and> length es' < length es"
  using assms
proof (induction es arbitrary: d)
  case Nil
  then show ?case by (subst FAT_ReadDirEntry.simps) auto
next
  case (Cons e es)
  then obtain d' where r: "f_readdir E d f = ((0, e, d'), f)" "fi_fname e \<noteq> []" "dir_lists E f d' es" by auto
  show ?case
  proof (cases "shown e")
    case True
    then show ?thesis using r by (subst FAT_ReadDirEntry.simps) (auto simp: shown_def)
  next
    case False
    then have "FAT_ReadDirEntry E d f = FAT_ReadDirEntry E d' f"
      using r by (subst FAT_ReadDirEntry.simps) (simp add: shown_def)
    then show ?thesis using Cons.IH [OF r(3)] False
      by (auto split: list.splits) (metis less_SucI)
  qed
qed

definition visible :: "bool \<Rightarrow> filinfo list \<Rightarrow> filinfo list" where
  "visible forFS es = filter (\<lambda>e. \<not> entry_skip forFS (entry_name e)) (filter shown es)"

definition listing :: "bool \<Rightarrow> filinfo list \<Rightarrow> bytes" where
  "listing forFS es = concat (map (\<lambda>e. cbytes (entry_text forFS (entry_name e))) es)"

definition wanted :: "u32 \<Rightarrow> u32 \<Rightarrow> nat \<Rightarrow> nat" where
  "wanted entries cnt n = (if entries = 0 then n else min n (unat entries - unat cnt))"

lemma blit_blit: "pos + length xs + length ys \<le> length b \<Longrightarrow> blit (blit b pos xs) (pos + length xs) ys = blit b pos (xs @ ys)"
  by (cases xs) (auto simp: blit_def min_def ac_simps)

lemma readdir_loop_lists:
  assumes "dir_lists E f d es" and "n = wanted entries cnt (length (visible forFS es))" and "unat cnt + n < 4294967296"
    and "\<And>b. buffer = Some b \<Longrightarrow> pos + length (listing forFS (take n (visible forFS es))) \<le> length b"
  shows "readdir_loop E forFS entries d buffer pos cnt f
    = Some ((map_option (\<lambda>b. blit b pos (listing forFS (take n (visible forFS es)))) buffer, cnt + of_nat n), f)"
  using assms
proof (induction es arbitrary: d n buffer pos cnt rule: length_induct)
  case (1 es)
  note IH = "1.IH" [rule_format] and prems = "1.prems"
  show ?case
  proof (cases "entries = 0 \<or> entries > cnt")
    case False
    then have "n = 0" using prems(2) by (auto simp: wanted_def word_less_nat_alt)
    moreover have "blit b pos [] = b" for b :: bytes by (simp add: blit_def)
    ultimately show ?thesis using False
      by (subst readdir_loop.simps) (cases buffer; simp add: listing_def)
  next
    case more: True
    show ?thesis
    proof (cases "filter shown es")
      case Nil
      obtain fno d' where r: "FAT_ReadDirEntry E d f = Some ((FS_ENOENT, fno, d'), f)"
        using ReadDirEntry_lists [OF prems(1)] Nil by auto
      have n: "n = 0" and v: "visible forFS es = []" using prems(2) Nil by (auto simp: visible_def wanted_def)
      have "blit b pos [] = b" for b :: bytes by (simp add: blit_def)
      then show ?thesis using more r n v
        by (subst readdir_loop.simps) (cases buffer; simp add: listing_def)
    next
      case (Cons e rest)
      obtain d' es' where r: "FAT_ReadDirEntry E d f = Some ((FS_SUCCESS, e, d'), f)" "dir_lists E f d' es'"
        "filter shown es' = rest" "length es' < length es" using ReadDirEntry_lists [OF prems(1)] Cons by auto
      show ?thesis
      proof (cases "entry_skip forFS (entry_name e)")
        case True
        then have v: "visible forFS es = visible forFS es'" using Cons r(3) by (simp add: visible_def)
        show ?thesis using IH [OF r(4,2), of n cnt buffer pos] prems more r(1) True v
          by (subst readdir_loop.simps) simp
      next
        case False
        let ?t = "entry_text forFS (entry_name e)"
        have v: "visible forFS es = e # visible forFS es'" using False Cons r(3) by (simp add: visible_def)
        define m where "m = wanted entries (cnt + 1) (length (visible forFS es'))"
        have c: "unat cnt < unat entries" if "entries \<noteq> 0" using more that by (simp add: word_less_nat_alt)
        have "0 < n" using prems(2) v c by (auto simp: wanted_def)
        then have c1: "unat (cnt + 1) = unat cnt + 1" using prems(3) by (simp add: unat_u32_add)
        have n: "n = Suc m" using prems(2) v c c1 by (cases "entries = 0") (simp_all add: m_def wanted_def)
        have l: "listing forFS (take n (visible forFS es)) = cbytes ?t @ listing forFS (take m (visible forFS es'))"
          by (simp add: n v listing_def)
        have nn: "cnt + 1 + of_nat m = cnt + of_nat n" by (simp add: n)
        show ?thesis
        proof (cases buffer)
          case None
          show ?thesis using IH [OF r(4,2) m_def, of None] prems(3) c1 n more r(1) False None nn
            by (subst readdir_loop.simps) simp
        next
          case (Some b)
          have fit: "pos + Suc (length ?t) + length (listing forFS (take m (visible forFS es'))) \<le> length b"
            using prems(4) [OF Some] unfolding l by simp
          have lb: "length (blit b pos (cbytes ?t)) = length b" using fit by (simp add: length_blit)
          have "readdir_loop E forFS entries d' (Some (blit b pos (cbytes ?t))) (pos + length ?t + 1) (cnt + 1) f
              = Some ((Some (blit (blit b pos (cbytes ?t)) (pos + length ?t + 1) (listing forFS (take m (visible forFS es')))),
                  cnt + 1 + of_nat m), f)"
            using IH [OF r(4,2) m_def, of "Some (blit b pos (cbytes ?t))" "pos + length ?t + 1"] prems(3) c1 n fit lb by simp
          then show ?thesis using more r(1) False Some fit nn blit_blit [of pos "cbytes ?t" _ b]
            by (subst readdir_loop.simps) (simp add: l Let_def)
        qed
      qed
    qed
  qed
qed

section \<open>The content of a directory tree\<close>

datatype node = File filinfo | Dir filinfo "node list"

fun info :: "node \<Rightarrow> filinfo" where
  "info (File e) = e"
| "info (Dir e ts) = e"

definition counted :: "bool \<Rightarrow> filinfo \<Rightarrow> bool" where
  "counted forFS e \<longleftrightarrow> shown e \<and> \<not> entry_skip forFS (entry_name e)"

fun tree_size :: "bool \<Rightarrow> node \<Rightarrow> 64 word" where
  "tree_size forFS (File e) = (if counted forFS e then ucast (fi_fsize e) else 0)"
| "tree_size forFS (Dir e ts) = (if counted forFS e then sum_list (map (tree_size forFS) ts) else 0)"

fun tree_files :: "bool \<Rightarrow> node \<Rightarrow> u32" where
  "tree_files forFS (File e) = (if counted forFS e then 1 else 0)"
| "tree_files forFS (Dir e ts) = (if counted forFS e then sum_list (map (tree_files forFS) ts) else 0)"

fun tree_dirs :: "bool \<Rightarrow> node \<Rightarrow> u32" where
  "tree_dirs forFS (File e) = 0"
| "tree_dirs forFS (Dir e ts) = (if counted forFS e then 1 + sum_list (map (tree_dirs forFS) ts) else 0)"

text \<open>The tree that the library shows below a path. The names of the directories that are entered have no
  escape sequence when the listing is for the console's file system, and their paths fit the buffer.\<close>

fun on_disk :: "('h, 'd, 'f) fat_env \<Rightarrow> bool \<Rightarrow> 'f \<Rightarrow> cstring \<Rightarrow> node \<Rightarrow> bool" where
  "on_disk E forFS f path (File e) \<longleftrightarrow> fi_fname e \<noteq> [] \<and> fi_fattrib e AND FAT_AM_DIR = 0"
| "on_disk E forFS f path (Dir e ts) \<longleftrightarrow> fi_fname e \<noteq> [] \<and> fi_fattrib e AND FAT_AM_DIR \<noteq> 0
     \<and> (counted forFS e \<longrightarrow>
          (forFS \<longrightarrow> FAT_Unescape (entry_name e) = entry_name e)
          \<and> sub_path path (entry_name e) = Some (path @ ''/'' @ entry_name e)
          \<and> (\<exists>d. f_opendir E (path @ ''/'' @ entry_name e) f = ((0, d), f) \<and> dir_lists E f d (map info ts))
          \<and> (\<forall>t \<in> set ts. on_disk E forFS f (path @ ''/'' @ entry_name e) t))"

lemma usage_loop_hidden:
  assumes "f_readdir E d f = ((0, e, d'), f)" and "fi_fname e \<noteq> []" and "\<not> shown e"
  shows "usage_loop E forFS path d sz files dirs f = usage_loop E forFS path d' sz files dirs f"
proof -
  have "FAT_ReadDirEntry E d f = FAT_ReadDirEntry E d' f"
    using assms by (subst FAT_ReadDirEntry.simps) (simp add: shown_def)
  then show ?thesis by (subst (1 2) usage_loop.simps) simp
qed

text \<open>One entry adds its subtree to the counters.\<close>

definition adds :: "('h, 'd, 'f) fat_env \<Rightarrow> bool \<Rightarrow> 'f \<Rightarrow> node \<Rightarrow> bool" where
  "adds E forFS f t \<longleftrightarrow> (\<forall>path d d' sz files dirs. f_readdir E d f = ((0, info t, d'), f) \<longrightarrow> on_disk E forFS f path t \<longrightarrow>
     usage_loop E forFS path d sz files dirs f
       = usage_loop E forFS path d' (sz + tree_size forFS t) (files + tree_files forFS t) (dirs + tree_dirs forFS t) f)"

lemma usage_loop_list:
  assumes "\<And>t. t \<in> set ts \<Longrightarrow> adds E forFS f t" and "dir_lists E f d (map info ts)"
    and "\<And>t. t \<in> set ts \<Longrightarrow> on_disk E forFS f path t"
  shows "usage_loop E forFS path d sz files dirs f = Some ((0, sz + sum_list (map (tree_size forFS) ts),
    files + sum_list (map (tree_files forFS) ts), dirs + sum_list (map (tree_dirs forFS) ts)), f)"
  using assms
proof (induction ts arbitrary: d sz files dirs)
  case Nil
  then obtain fno d' where "f_readdir E d f = ((0, fno, d'), f)" "fi_fname fno = []" by auto
  then show ?case by (subst usage_loop.simps) (simp add: FAT_ReadDirEntry.simps)
next
  case (Cons t ts)
  from Cons.prems(2) obtain d' where r: "f_readdir E d f = ((0, info t, d'), f)" "dir_lists E f d' (map info ts)" by auto
  have "usage_loop E forFS path d sz files dirs f
      = usage_loop E forFS path d' (sz + tree_size forFS t) (files + tree_files forFS t) (dirs + tree_dirs forFS t) f"
    using Cons.prems(1) [of t] Cons.prems(3) [of t] r(1) by (simp add: adds_def)
  also have "\<dots> = Some ((0, sz + tree_size forFS t + sum_list (map (tree_size forFS) ts),
      files + tree_files forFS t + sum_list (map (tree_files forFS) ts),
      dirs + tree_dirs forFS t + sum_list (map (tree_dirs forFS) ts)), f)"
    by (rule Cons.IH) (use Cons.prems r(2) in auto)
  finally show ?case by (simp add: add.assoc)
qed

lemma node_adds: "adds E forFS f t"
proof (induction t)
  case (File e)
  show ?case unfolding adds_def
  proof (intro allI impI)
    fix path d d' sz files dirs
    assume r: "f_readdir E d f = ((0, info (File e), d'), f)" and o: "on_disk E forFS f path (File e)"
    have u: "usage_loop E forFS path d sz files dirs f = usage_loop E forFS path d' sz files dirs f" if "\<not> shown e"
      using usage_loop_hidden r o that by fastforce
    have e: "shown e \<Longrightarrow> FAT_ReadDirEntry E d f = Some ((FS_SUCCESS, e, d'), f)"
      using r o by (subst FAT_ReadDirEntry.simps) (simp add: shown_def)
    show "usage_loop E forFS path d sz files dirs f
       = usage_loop E forFS path d' (sz + tree_size forFS (File e)) (files + tree_files forFS (File e)) (dirs + tree_dirs forFS (File e)) f"
    proof (cases "shown e")
      case True
      then show ?thesis using e o by (subst usage_loop.simps) (simp add: counted_def)
    qed (simp add: u counted_def)
  qed
next
  case (Dir e ts)
  show ?case unfolding adds_def
  proof (intro allI impI)
    fix path d d' sz files dirs
    assume r: "f_readdir E d f = ((0, info (Dir e ts), d'), f)" and o: "on_disk E forFS f path (Dir e ts)"
    have u: "usage_loop E forFS path d sz files dirs f = usage_loop E forFS path d' sz files dirs f" if "\<not> shown e"
      using usage_loop_hidden r o that by fastforce
    have e: "shown e \<Longrightarrow> FAT_ReadDirEntry E d f = Some ((FS_SUCCESS, e, d'), f)"
      using r o by (subst FAT_ReadDirEntry.simps) (simp add: shown_def)
    show "usage_loop E forFS path d sz files dirs f
       = usage_loop E forFS path d' (sz + tree_size forFS (Dir e ts)) (files + tree_files forFS (Dir e ts)) (dirs + tree_dirs forFS (Dir e ts)) f"
    proof (cases "counted forFS e")
      case True
      let ?sub = "path @ ''/'' @ entry_name e"
      obtain d1 where d1: "f_opendir E ?sub f = ((0, d1), f)" "dir_lists E f d1 (map info ts)" using o True by auto
      have "usage_loop E forFS ?sub d1 sz files (dirs + 1) f = Some ((0, sz + sum_list (map (tree_size forFS) ts),
          files + sum_list (map (tree_files forFS) ts), dirs + 1 + sum_list (map (tree_dirs forFS) ts)), f)"
        by (rule usage_loop_list [OF Dir.IH d1(2)]) (use o True in auto)
      moreover have "FAT_OpenDir E ?sub f = ((0, d1), f)" using d1(1) by (simp add: FAT_OpenDir_def)
      ultimately show ?thesis using e o True
        by (subst usage_loop.simps) (auto simp: counted_def add.assoc)
    next
      case False
      show ?thesis
      proof (cases "shown e")
        case True
        then show ?thesis using e False by (subst usage_loop.simps) (simp add: counted_def)
      qed (simp add: u False)
    qed
  qed
qed

section \<open>Properties\<close>

text \<open>A partition with one folder, \<open>/a\<close>, that has a file of 5 bytes, a subfolder with a file of 7 bytes and a
  folder whose name was escaped; a directory object is the list of the entries that are left.\<close>

definition demo_entry :: "cstring \<Rightarrow> u32 \<Rightarrow> u8 \<Rightarrow> filinfo" where
  "demo_entry n sz a = \<lparr> fi_fsize = sz, fi_fdate = 0, fi_ftime = 0, fi_fattrib = a, fi_fname = n, fi_lfname = [] \<rparr>"

definition demo_dir :: "cstring \<Rightarrow> filinfo list option" where
  "demo_dir p =
     (if p = ''1:/'' then Some [demo_entry ''A'' 0 0x10]
      else if p = ''1:/a'' then Some [demo_entry ''.'' 0 0x10, demo_entry ''F'' 5 0, demo_entry ''S'' 0 0x10]
      else if p = ''1:/a/S'' then Some [demo_entry ''..'' 0 0x10, demo_entry ''G'' 7 0]
      else if p = ''1:/b'' then Some [demo_entry ''X&cl;Y'' 0 0x10]
      else None)"

definition demo_fat :: "(unit, filinfo list, unit) fat_env" where
  "demo_fat = \<lparr>
     f_mount = (\<lambda>v on f. (0, f)),
     f_opendir = (\<lambda>p f. ((case demo_dir p of Some es \<Rightarrow> (0, es) | None \<Rightarrow> (if CHR '':'' \<in> set (drop 2 p) then 6 else 5, [])), f)),
     f_readdir = (\<lambda>d f. ((0, case d of [] \<Rightarrow> (demo_entry [] 0 0, []) | e # es \<Rightarrow> (e, es)), f)),
     f_open = (\<lambda>p m f. ((4, \<lparr> fil_fs = False, fil_fptr = 0, fil_fsize = 0, fil_priv = () \<rparr>), f)),
     f_close = (\<lambda>h f. (0, f)), f_read = (\<lambda>h n f. ((0, [], h), f)), f_write = (\<lambda>h bs f. ((0, 0, h), f)),
     f_lseek = (\<lambda>h pos f. ((0, h\<lparr> fil_fptr := pos \<rparr>), f)), f_mkdir = (\<lambda>p f. (0, f)), f_unlink = (\<lambda>p f. (0, f)),
     f_rename = (\<lambda>p q f. (0, f)), f_stat = (\<lambda>p f. ((0, demo_entry ''F'' 5 0), f)),
     fa_malloc = (\<lambda>n f. (Some (32, replicate n 0), f)), fa_free = (\<lambda>p f. f), fa_sizeof_FIL = 32,
     fa_startup = (\<lambda>d f. (True, f)), fa_shutdown = (\<lambda>d f. (1, f)), fa_game = (\<lambda>f. 0) \<rparr>"

text \<open>
  A listing of a directory for the console's file system, with the buffer of 13 bytes per
  entry that the plugin asks for, returns the unescaped names of the first visible entries
  that fit the console's limit of 12 characters, one terminated string after another, and their
  number; it never writes past the buffer.
\<close>

theorem readdir_lists_names:
  assumes "f_open E path FA_OPEN_EXISTING f = ((r0, fil), f1)" and "r0 \<noteq> 0" and "f_opendir E path f1 = ((0, d), f2)"
    and "fa_malloc E (13 * unat entries) f2 = (Some (p, heap), f3)" and "length heap = 13 * unat entries"
    and "0 < entries" and "13 * unat entries < 4294967296" and "dir_lists E f3 d es"
    and "names = map (\<lambda>e. FAT_Unescape (entry_name e)) (take (unat entries) (visible True es))"
  shows "FAT_ReadDir E True path (Some (entries, 13 * entries)) f
    = Some ((0, Dir_Data (blit heap 0 (concat (map cbytes names))) (of_nat (length names))), fa_free E p f3)"
proof -
  let ?v = "visible True es"
  let ?n = "wanted entries 0 (length ?v)"
  have e: "entries \<noteq> 0" using assms(6) by auto
  have n: "?n = min (length ?v) (unat entries)" using e by (simp add: wanted_def)
  have l: "unat (13 * entries) = 13 * unat entries"
    using assms(7) by (simp add: unat_word_ariths mod_less)
  have t: "take ?n ?v = take (unat entries) ?v" by (cases "length ?v \<le> unat entries") (simp_all add: n min_def)
  have ls: "listing True (take (unat entries) ?v) = concat (map cbytes names)"
    by (simp add: assms(9) listing_def entry_text_def comp_def)
  have short: "length (cbytes (FAT_Unescape (entry_name x))) \<le> 13" if "x \<in> set ?v" for x
    using that by (auto simp: visible_def entry_skip_def)
  have "length (concat (map cbytes names)) = sum_list (map (\<lambda>x. length (cbytes (FAT_Unescape (entry_name x)))) (take (unat entries) ?v))"
    by (simp add: assms(9) length_concat comp_def)
  also have "\<dots> \<le> sum_list (map (\<lambda>x. 13) (take (unat entries) ?v))"
    by (rule sum_list_mono) (use short in \<open>auto dest: in_set_takeD\<close>)
  also have "\<dots> \<le> 13 * unat entries" by (simp add: sum_list_triv)
  finally have fit: "length (concat (map cbytes names)) \<le> length heap" using assms(5) by simp
  have c: "unat (0 :: u32) + ?n < 4294967296" using assms(7) by (simp add: n)
  have "readdir_loop E True entries d (Some heap) 0 0 f3
      = Some ((map_option (\<lambda>b. blit b 0 (listing True (take ?n ?v))) (Some heap), 0 + of_nat ?n), f3)"
    by (rule readdir_loop_lists [OF assms(8) refl c]) (simp add: fit t ls)
  moreover have "?n = length names" by (simp add: n assms(9))
  moreover have "13 * unat entries \<noteq> 0" using e by (simp add: unsigned_eq_0_iff)
  ultimately show ?thesis using assms(1-4) unfolding t ls
    by (simp add: FAT_ReadDir_def FAT_OpenDir_def l)
qed

theorem readdir_lists_names_witness:
  "FAT_ReadDir demo_fat True ''1:/b'' (Some (2, 13 * 2)) () = Some ((0, Dir_Data (cbytes ''X:Y'' @ replicate 22 0) 1), ())"
proof -
  let ?e = "demo_entry ''X&cl;Y'' 0 0x10"
  have o: "f_open demo_fat ''1:/b'' FA_OPEN_EXISTING () = ((4, \<lparr> fil_fs = False, fil_fptr = 0, fil_fsize = 0, fil_priv = () \<rparr>), ())"
    and d: "f_opendir demo_fat ''1:/b'' () = ((0, [?e]), ())"
    and m: "fa_malloc demo_fat (13 * unat (2 :: u32)) () = (Some (32, replicate 26 0), ())"
    and l: "dir_lists demo_fat () [?e] [?e]"
    by (simp_all add: demo_fat_def demo_dir_def demo_entry_def)
  have n: "[''X:Y''] = map (\<lambda>e. FAT_Unescape (entry_name e)) (take (unat (2 :: u32)) (visible True [?e]))"
    by (simp add: visible_def shown_def entry_skip_def entry_name_def demo_entry_def esc_code_def)
  have "FAT_ReadDir demo_fat True ''1:/b'' (Some (2, 13 * 2)) ()
      = Some ((0, Dir_Data (blit (replicate 26 0) 0 (concat (map cbytes [''X:Y'']))) (of_nat (length [''X:Y'']))), fa_free demo_fat 32 ())"
    by (rule readdir_lists_names [OF o _ d m _ _ _ l n]) simp_all
  then show ?thesis by (simp add: blit_def)
qed

text \<open>
  In a file below 2 GiB a seek moves to the position it names, relative to the start, the current
  position or the end, exactly when that lies inside the file or at its end; otherwise it fails and
  nothing is done, so that a seek never enlarges a file.
\<close>

theorem seek_exact:
  assumes "fils st fd = Some fil" and "uint (fil_fsize fil) < 2147483648" and "fil_fptr fil \<le> fil_fsize fil"
    and "- 2147483648 \<le> where \<and> where < 2147483648" and "whence \<in> {0, 1, 2}"
    and "target = (if whence = 0 then 0 else if whence = 1 then uint (fil_fptr fil) else uint (fil_fsize fil)) + where"
    and "f_lseek E fil (of_int target) f = ((0, fil'), f')"
  shows "FAT_Seek E fd where whence st f =
    Some (if 0 \<le> target \<and> target \<le> uint (fil_fsize fil) then (target, st\<lparr> fils := (fils st)(fd \<mapsto> fil') \<rparr>, f')
          else (FS_EFATAL, st, f))"
proof -
  have o: "seek_offset fil where whence = Some (of_int target)"
    using assms(5,6) by (auto simp: seek_offset_def)
  have p: "0 \<le> uint (fil_fptr fil)" "uint (fil_fptr fil) \<le> uint (fil_fsize fil)" "0 \<le> uint (fil_fsize fil)"
    using assms(3) by (simp_all add: word_le_def)
  have b: "- 2147483648 \<le> target" "target < 4294967296" 
  proof -
    obtain base where "target = base + where" "0 \<le> base" "base \<le> uint (fil_fsize fil)"
      using assms(6) p by (cases "whence = 0"; cases "whence = 1") auto
    then show "- 2147483648 \<le> target" "target < 4294967296" using assms(2,4) by linarith+
  qed
  have u: "uint (of_int target :: u32) = (if 0 \<le> target then target else target + 4294967296)"
  proof (cases "0 \<le> target")
    case True
    then show ?thesis using b by (simp add: uint_word_of_int)
  next
    case False
    have "target mod 4294967296 = (target + 4294967296) mod 4294967296" by simp
    also have "\<dots> = target + 4294967296" by (rule mod_pos_pos_trivial) (use False b in auto)
    finally show ?thesis using False by (simp add: uint_word_of_int)
  qed
  have le: "(of_int target :: u32) \<le> fil_fsize fil \<longleftrightarrow> 0 \<le> target \<and> target \<le> uint (fil_fsize fil)"
    using b assms(2) by (auto simp: word_le_def u)
  have s: "sint (of_int target :: u32) = target" if "0 \<le> target" "target \<le> uint (fil_fsize fil)"
    using that assms(2) by (simp add: sint_sbintrunc' signed_take_bit_int_eq_self)
  show ?thesis using assms(1,7) o le s by (simp add: FAT_Seek_def)
qed

definition demo_fil :: "unit fil" where
  "demo_fil = \<lparr> fil_fs = True, fil_fptr = 10, fil_fsize = 100, fil_priv = () \<rparr>"

theorem seek_exact_witness:
  "FAT_Seek demo_fat 64 (-5) 1 (fat_zero\<lparr> fils := [64 \<mapsto> demo_fil] \<rparr>) ()
     = Some (5, fat_zero\<lparr> fils := [64 \<mapsto> demo_fil\<lparr> fil_fptr := 5 \<rparr>] \<rparr>, ())
   \<and> FAT_Seek demo_fat 64 (-11) 1 (fat_zero\<lparr> fils := [64 \<mapsto> demo_fil] \<rparr>) ()
     = Some (-101, fat_zero\<lparr> fils := [64 \<mapsto> demo_fil] \<rparr>, ())"
  using seek_exact [of "fat_zero\<lparr> fils := [64 \<mapsto> demo_fil] \<rparr>" 64 demo_fil "-5" 1 5 demo_fat "()" "demo_fil\<lparr> fil_fptr := 5 \<rparr>" "()"]
    seek_exact [of "fat_zero\<lparr> fils := [64 \<mapsto> demo_fil] \<rparr>" 64 demo_fil "-11" 1 "-1" demo_fat "()" "demo_fil\<lparr> fil_fptr := -1 \<rparr>" "()"]
  by (simp add: demo_fil_def demo_fat_def)

text \<open>
  C34. The usage of a directory is the total size of the visible files below it, their number and the
  number of visible directories, at every depth, and the walk ends. The tree is any finite one whose entered
  directories have paths that fit the buffer and, when the listing is for the console's file system, names without
  escape sequences: a directory whose name has one is looked for under the unescaped name, and the walk fails
  (\<open>usage_escaped_subdir_fails\<close>).
\<close>

theorem usage_of_tree:
  assumes "f_opendir E path f = ((0, d), f)" and "dir_lists E f d (map info ts)"
    and "\<forall>t \<in> set ts. on_disk E forFS f path t"
  shows "FAT_GetUsage E forFS path f = Some ((0, Usage_Data (sum_list (map (tree_size forFS) ts))
    (sum_list (map (tree_files forFS) ts)) (sum_list (map (tree_dirs forFS) ts))), f)"
  using usage_loop_list [OF node_adds assms(2), of forFS path 0 0 0] assms(1,3)
  by (simp add: FAT_GetUsage_def FAT_OpenDir_def)

definition demo_tree :: "node list" where
  "demo_tree = [Dir (demo_entry ''.'' 0 0x10) [], File (demo_entry ''F'' 5 0),
     Dir (demo_entry ''S'' 0 0x10) [Dir (demo_entry ''..'' 0 0x10) [], File (demo_entry ''G'' 7 0)]]"

theorem usage_of_tree_witness:
  "FAT_GetUsage demo_fat True ''1:/a'' () = Some ((0, Usage_Data 12 2 1), ())"
proof -
  note defs = demo_fat_def demo_dir_def demo_entry_def counted_def shown_def entry_skip_def entry_name_def demo_tree_def sub_path_def
  let ?d = "map info demo_tree"
  have o: "f_opendir demo_fat ''1:/a'' () = ((0, ?d), ())" and l: "dir_lists demo_fat () ?d (map info demo_tree)"
    by (simp_all add: defs)
  have t: "\<forall>t \<in> set demo_tree. on_disk demo_fat True () ''1:/a'' t" by (simp add: defs)
  have "sum_list (map (tree_size True) demo_tree) = 12" "sum_list (map (tree_files True) demo_tree) = 2"
    "sum_list (map (tree_dirs True) demo_tree) = 1" by (simp_all add: defs)
  then show ?thesis using usage_of_tree [OF o l t] by simp
qed

text \<open>A name that unescaping changes has a character that the library refuses in a path.\<close>

lemma Unescape_changed: "FAT_Unescape n \<noteq> n \<Longrightarrow> set (FAT_Unescape n) \<inter> set fat_invalid \<noteq> {}"
proof (induction n rule: FAT_Unescape.induct)
  case (2 c src)
  show ?case
  proof (cases "c = CHR ''&'' \<and> esc_code src \<noteq> None")
    case True
    then obtain d where d: "c = CHR ''&''" "esc_code src = Some d" by auto
    then have "d \<in> set fat_invalid" by (auto simp: esc_code_def fat_invalid_def Let_def split: if_splits)
    then show ?thesis using d by simp
  next
    case False
    then show ?thesis using 2 by auto
  qed
qed simp

text \<open>
  The usage of a directory for the console's file system fails with "not found" when it has a
  visible subdirectory whose name needed escaping: the walk looks the subdirectory up under
  the unescaped name, which the library refuses, although it exists on the disk.
\<close>

theorem usage_escaped_subdir_fails:
  assumes "\<forall>n. set n \<inter> set fat_invalid \<noteq> {} \<longrightarrow> fst (fst (f_opendir E (path @ ''/'' @ n) f)) = FR_INVALID_NAME"
    and "f_opendir E path f = ((0, d), f)" and "dir_lists E f d (e # es)" and "counted True e"
    and "fi_fattrib e AND FAT_AM_DIR \<noteq> 0" and "FAT_Unescape (entry_name e) \<noteq> entry_name e"
    and "length path < 240"
  shows "\<exists>f'. FAT_GetUsage E True path f = Some ((FS_ENOENT, Usage_Data 0 0 1), f')"
proof -
  let ?sub = "path @ ''/'' @ FAT_Unescape (entry_name e)"
  have c: "shown e" "\<not> entry_skip True (entry_name e)" using assms(4) by (simp_all add: counted_def)
  obtain d' where r: "f_readdir E d f = ((0, e, d'), f)" "fi_fname e \<noteq> []" using assms(3) by auto
  have e: "FAT_ReadDirEntry E d f = Some ((FS_SUCCESS, e, d'), f)"
    using r c(1) by (subst FAT_ReadDirEntry.simps) (simp add: shown_def)
  have s: "sub_path path (FAT_Unescape (entry_name e)) = Some ?sub"
    using c(2) assms(7) by (simp add: entry_skip_def sub_path_def)
  obtain ret d1 f' where o: "f_opendir E ?sub f = ((ret, d1), f')" by (cases "f_opendir E ?sub f") auto
  have "ret = FR_INVALID_NAME"
    using assms(1) [rule_format, OF Unescape_changed [OF assms(6)]] o by simp
  then have "FAT_OpenDir E ?sub f = ((FS_ENOENT, d1), f')" using o by (simp add: FAT_OpenDir_def)
  then have "usage_loop E True path d 0 0 0 f = Some ((FS_ENOENT, 0, 0, 1), f')"
    using e c(2) s assms(5) by (subst usage_loop.simps) simp
  then show ?thesis using assms(2) by (simp add: FAT_GetUsage_def FAT_OpenDir_def)
qed

definition strict_fat :: "(unit, filinfo list, unit) fat_env" where
  "strict_fat = demo_fat\<lparr> f_opendir := (\<lambda>p f. ((if set (drop 2 p) \<inter> set fat_invalid \<noteq> {} then (6, [])
     else case demo_dir p of Some es \<Rightarrow> (0, es) | None \<Rightarrow> (5, [])), f)) \<rparr>"

theorem usage_escaped_subdir_fails_witness:
  "\<exists>f'. FAT_GetUsage strict_fat True ''1:/b'' () = Some ((-106, Usage_Data 0 0 1), f')"
proof -
  let ?e = "demo_entry ''X&cl;Y'' 0 0x10"
  have c: "f_opendir strict_fat ''1:/b'' () = ((0, [?e]), ())" "dir_lists strict_fat () [?e] [?e]" "counted True ?e"
    "fi_fattrib ?e AND FAT_AM_DIR \<noteq> 0" "FAT_Unescape (entry_name ?e) \<noteq> entry_name ?e"
    by (simp_all add: strict_fat_def demo_fat_def demo_dir_def demo_entry_def fat_invalid_def counted_def shown_def entry_skip_def
        entry_name_def esc_code_def)
  show ?thesis
    by (rule usage_escaped_subdir_fails [OF _ c]) (auto simp: strict_fat_def)
qed

text \<open>
  After a mount the module reports the partition in use: the requested one, or the first of
  the four that works, when it succeeded, none when the file system could not be mounted, and what it
  reported before when the device did not start. The other device is not affected.
\<close>

theorem mount_reports_partition:
  assumes "FAT_Mount E device part st f = (ret, st', f')" and "device < 2" and "length (vol_pt st) = 2"
  shows "((ret = 0 \<and> (\<exists>i < 4. (0 \<le> part \<and> part < 4 \<longrightarrow> i = nat part)
        \<and> FAT_GetPartition (of_nat device) st' = Some (0, Partition_Data (of_nat i))))
      \<or> (ret = FS_EFATAL \<and> FAT_GetPartition (of_nat device) st' = Some (-1, No_Data))
      \<or> (ret = IPC_EINVAL \<and> st' = st))
    \<and> (\<forall>other. unat (ucast other :: u8) \<noteq> device \<longrightarrow> FAT_GetPartition other st' = FAT_GetPartition other st)"
proof -
  consider "device = 0" | "device = 1" using assms(2) by linarith
  then have u: "unat (ucast (of_nat device :: u32) :: u8) = device" by cases simp_all
  have len: "device < length (vol_pt st)" using assms(2,3) by simp
  have g: "FAT_GetPartition (of_nat device) (st\<lparr> vol_pt := (vol_pt st)[device := i] \<rparr>)
      = Some (if i \<ge> 4 then (-1, No_Data) else (0, Partition_Data (of_nat i)))" for i
    using len by (simp add: FAT_GetPartition_def u rd_def)
  have o: "FAT_GetPartition other (st\<lparr> vol_pt := (vol_pt st)[device := i] \<rparr>) = FAT_GetPartition other st"
    if "unat (ucast other :: u8) \<noteq> device" for other i
    using that by (simp add: FAT_GetPartition_def rd_def)
  obtain ok f1 where s: "(if device = 0 \<or> device = 1 then fa_startup E device f else (False, f)) = (ok, f1)" by (rule prod.exhaust)
  have "(ret = 0 \<and> (\<exists>i < 4. (0 \<le> part \<and> part < 4 \<longrightarrow> i = nat part) \<and> st' = st\<lparr> vol_pt := (vol_pt st)[device := i] \<rparr>))
      \<or> (ret = FS_EFATAL \<and> st' = st\<lparr> vol_pt := (vol_pt st)[device := 4] \<rparr>) \<or> (ret = IPC_EINVAL \<and> st' = st)"
  proof (cases "ok \<and> 0 \<le> part \<and> part < 4")
    case True
    then have "FAT_MountPartition E device (nat part) st f1 = (ret, st', f')" using assms(1) s by (simp add: FAT_Mount_def)
    from mount_partition_result [OF this len] show ?thesis using True by auto
  next
    case False
    show ?thesis
    proof (cases ok)
      case True
      then have "mount_any E device [0, 1, 2, 3] st f1 = (ret, st', f')" using assms(1) s False by (auto simp: FAT_Mount_def)
      from mount_any_result [OF this len] show ?thesis
      proof (elim disjE conjE bexE)
        fix i
        assume "ret = 0" and "i \<in> set [0, 1, 2, 3]" and "st' = st\<lparr> vol_pt := (vol_pt st)[device := i] \<rparr>"
        then show ?thesis using False True by (intro disjI1 conjI exI [of _ i]) auto
      qed simp_all
    qed (use assms(1) s in \<open>simp add: FAT_Mount_def\<close>)
  qed
  then show ?thesis by (auto simp: g o)
qed

theorem mount_reports_partition_witness:
  "\<exists>st' i. FAT_Mount demo_fat 1 (-1) fat_zero () = (0, st', ()) \<and> FAT_GetPartition 1 st' = Some (0, Partition_Data i)
    \<and> FAT_GetPartition 0 st' = Some (-1, No_Data)"
proof -
  have "\<exists>st' :: unit fat_mod. FAT_Mount demo_fat 1 (-1) fat_zero () = (0, st', ())"
    by (simp add: FAT_Mount_def FAT_MountPartition_def demo_fat_def demo_dir_def)
  then obtain st' :: "unit fat_mod" where m: "FAT_Mount demo_fat 1 (-1) fat_zero () = (0, st', ())" by (elim exE)
  have z: "FAT_GetPartition 0 (fat_zero :: unit fat_mod) = Some (-1, No_Data)" by (simp add: FAT_GetPartition_def fat_zero_def rd_def)
  have l: "length (vol_pt (fat_zero :: unit fat_mod)) = 2" by (simp add: fat_zero_def)
  from mount_reports_partition [OF m _ l] obtain i where "FAT_GetPartition 1 st' = Some (0, Partition_Data (of_nat i))"
    by auto
  moreover have "FAT_GetPartition 0 st' = FAT_GetPartition 0 (fat_zero :: unit fat_mod)"
    using mount_reports_partition [OF m _ l, THEN conjunct2, rule_format, of 0] by simp
  ultimately show ?thesis using m z by (intro exI conjI) simp_all
qed

text \<open>A path that fits is stored with a slash after it.\<close>

lemma set_nand_path_short:
  assumes "length (emuNandPath st) = 192" and "cstring_ok path" and "length path < 191"
  shows "\<exists>st'. set_nand_path path st = Some (0, st') \<and> length (emuNandPath st') = 192
    \<and> cstr (emuNandPath st') 0 = Some (path @ ''/'') \<and> unat (emuNandPathLen st') = length path + 1
    \<and> st' = st\<lparr> emuNandPath := emuNandPath st', emuNandPathLen := emuNandPathLen st' \<rparr>"
proof -
  let ?n = "length path"
  let ?a = "blit (emuNandPath st) 0 (cbytes path)"
  have z: "?a ! ?n = 0" by (simp add: blit_def cbytes_def nth_append)
  have l: "length ?a = 192" using assms by (simp add: length_blit)
  have e: "?a[?n := 0x2F, ?n + 1 := 0] = cbytes (path @ ''/'') @ drop (?n + 2) (emuNandPath st)"
  proof -
    obtain x xs where d: "drop (Suc ?n) (emuNandPath st) = x # xs"
      using assms by (cases "drop (Suc ?n) (emuNandPath st)") auto
    have xs: "xs = drop (?n + 2) (emuNandPath st)"
      using arg_cong [OF d, of "drop 1"] by (simp only: drop_drop) simp
    show ?thesis by (simp add: blit_def cbytes_def d list_update_append xs)
  qed
  have ok: "cstring_ok (path @ ''/'')" using assms(2) by (simp add: cstring_ok_def)
  have u: "unat (of_nat ?n + 1 :: u32) = ?n + 1"
    using assms(3) by (subst unat_u32_add) (simp_all add: unat_of_nat)
  show ?thesis using z l assms(1,3) cstr_cbytes0 [OF ok] u
    by (intro exI [of _ "st\<lparr> emuNandPath := ?a[?n := 0x2F, ?n + 1 := 0], emuNandPathLen := of_nat ?n + 1 \<rparr>"])
      (simp add: set_nand_path_def Let_def e [simplified])
qed

lemma set_nand_path_long:
  assumes "length (emuNandPath st) = 192"
  shows "length path = 191 \<Longrightarrow> set_nand_path path st = None" and "192 \<le> length path \<Longrightarrow> set_nand_path path st = Some (-4, st)"
  using assms by (simp_all add: set_nand_path_def blit_def cbytes_def nth_append)

text \<open>
  Setting the folder of the emulated memory writes past its array of 192 bytes for a path of 191
  characters, and for no other: the test lets it through, and the slash takes the place
  of the terminating zero, which moves one further. A longer path is refused, a shorter
  one stored with its slash.
\<close>

theorem nand_path_overflow:
  assumes "length (emuNandPath st) = 192" and "cstring_ok path"
  shows "(set_nand_path path st = None \<longleftrightarrow> length path = 191)
    \<and> (192 \<le> length path \<longrightarrow> set_nand_path path st = Some (-4, st))
    \<and> (length path < 191 \<longrightarrow> (\<exists>st'. set_nand_path path st = Some (0, st') \<and> length (emuNandPath st') = 192
      \<and> cstr (emuNandPath st') 0 = Some (path @ ''/'') \<and> unat (emuNandPathLen st') = length path + 1))"
proof (cases "length path < 191")
  case True
  from set_nand_path_short [OF assms True] show ?thesis using True by auto
next
  case False
  then consider "length path = 191" | "192 \<le> length path" by linarith
  then show ?thesis
    by cases (simp_all add: set_nand_path_long [OF assms(1)])
qed

definition long_path :: cstring where
  "long_path = replicate 191 (CHR ''a'')"

theorem nand_path_overflow_witness:
  "set_nand_path long_path (fat_zero :: unit fat_mod) = None"
  using nand_path_overflow [of "fat_zero :: unit fat_mod" long_path]
  by (simp add: fat_zero_def long_path_def cstring_ok_def length_blit)

end
