(* ===== verification/Ffs_Fat.thy ===== *)
theory Ffs_Fat
  imports Ffs_Plugin Fat_Module
begin

text \<open>
  The file system plugin on top of the FAT module: the requests of the one are messages to the
  other. The numbers the kernel gives to opened resources are parameters (\<open>kfd\<close> from what the
  module returned, \<open>handle\<close> back to it), as is the rest of the kernel (\<open>B\<close>). A file is opened by a
  name relative to the folder that the module was told, while every other request carries the
  absolute path that the plugin makes itself; the lemmas say when the two agree.
\<close>

section \<open>The two components linked\<close>

type_synonym ('h, 'f) linked = "'h fat_mod \<times> 'f \<times> mload_state"

definition serve_req ::
  "('h, 'd, 'f) fat_env \<Rightarrow> (s32 \<Rightarrow> s32) \<Rightarrow> s32 \<Rightarrow> fat_req \<Rightarrow> ('h, 'f) linked \<Rightarrow> ((s32 \<times> fat_data) \<times> ('h, 'f) linked) option"
where
  "serve_req F handle fd r w =
     (case w of (m, f, k) \<Rightarrow>
        do { ((ret, _, d), m', f') \<leftarrow>
               fat_main F (case r of IOCTL_FAT_FILESTATS \<Rightarrow> Msg_Ioctl (handle fd) r
                           | IOCTL_FAT_SETNANDPATH p \<Rightarrow> Msg_Ioctl (handle fd) r | _ \<Rightarrow> Msg_Ioctlv r) m f;
             Some ((ret, d), m', f', k) })"

definition serve_open ::
  "('h, 'd, 'f) fat_env \<Rightarrow> (s32 \<Rightarrow> s32) \<Rightarrow> cstring \<Rightarrow> u32 \<Rightarrow> ('h, 'f) linked \<Rightarrow> (s32 \<times> ('h, 'f) linked) option"
where
  "serve_open F kfd p mode w =
     (case w of (m, f, k) \<Rightarrow>
        do { ((ret, _, _), m', f') \<leftarrow> fat_main F (Msg_Open p mode) m f;
             Some (if ret < 0 then ret else kfd ret, m', f', k) })"

definition link ::
  "('h, 'd, 'f) fat_env \<Rightarrow> (s32 \<Rightarrow> s32) \<Rightarrow> (s32 \<Rightarrow> s32) \<Rightarrow> ('h, 'f) linked ffs_env \<Rightarrow> ('h, 'f) linked ffs_env"
where
  "link F kfd handle B = B\<lparr> fe_open := serve_open F kfd, fe_fat := serve_req F handle,
     fe_alloc := (\<lambda>w. (fst (fe_alloc B w), w)), fe_mload := (\<lambda>(m, f, k). k), fe_set_mload := (\<lambda>k (m, f, _). (m, f, k)) \<rparr>"

definition nand_folder :: "('h, 'f) linked \<Rightarrow> bytes \<times> u32" where
  "nand_folder w = (emuNandPath (fst w), emuNandPathLen (fst w))"

lemma nand_file_cong: "nand_folder (m, w) = nand_folder (m', w') \<Longrightarrow> nand_file m = nand_file m'"
  by (rule ext) (simp add: nand_folder_def nand_file_def)

section \<open>The requests that prepare the folders leave the module's folder alone\<close>

lemma folder_request:
  assumes "map_option snd (Ffs_Plugin.FAT_DeleteDir (link F kfd handle B) p st w) = Some w'
    \<or> map_option snd (Ffs_Plugin.FAT_CreateDir (link F kfd handle B) p st w) = Some w'"
  shows "nand_folder w' = nand_folder w"
  using assms
  by (cases w) (auto simp: Ffs_Plugin.FAT_DeleteDir_def Ffs_Plugin.FAT_CreateDir_def fat_simple_def fat_call_def link_def serve_req_def
      fat_main_def fat_ioctlv_def plain_def nand_folder_def split: Option.bind_splits if_splits)

lemma prepare_folders_nand:
  "prepare_folders (link F kfd handle B) st ds w = Some w' \<Longrightarrow> nand_folder w' = nand_folder w"
proof (induction ds arbitrary: w)
  case (Cons d ds)
  let ?E = "link F kfd handle B"
  from Cons.prems obtain p w1 w2 where
    w1: "(if di_delete d then map_option snd (Ffs_Plugin.FAT_DeleteDir ?E p st w) else Some w) = Some w1" and
    w2: "(if di_make d then map_option snd (Ffs_Plugin.FAT_CreateDir ?E p st w1) else Some w1) = Some w2" and
    rest: "prepare_folders ?E st ds w2 = Some w'" by (auto split: Option.bind_splits)
  have "nand_folder w1 = nand_folder w" using w1 folder_request [of F kfd handle B p st w w1] by (simp split: if_splits)
  moreover have "nand_folder w2 = nand_folder w1" using w2 folder_request [of F kfd handle B p st w1 w2] by (simp split: if_splits)
  ultimately show ?case using Cons.IH [OF rest] by simp
qed simp

section \<open>Selecting the folder\<close>

lemma FAT_Init_again: "0 < fatFd st \<Longrightarrow> FAT_Init E p st w = Some (0, st, w)"
  by (simp add: FAT_Init_def)

lemma FAT_Init_first:
  assumes "FAT_Init (link F kfd handle B) p st (m, f, k) = Some (ret, st', m', f', k')" and "\<not> 0 < fatFd st" and "0 \<le> ret"
  shows "set_nand_path p m = Some (ret, m') \<and> st' = st\<lparr> fat_iobuf := True, fatFd := fatFd st' \<rparr>"
  using assms
  by (auto simp: FAT_Init_def link_def serve_open_def serve_req_def fat_call_def fat_main_def fat_open_def starts_def fat_ioctl_def Let_def
      split: Option.bind_splits if_splits prod.splits)

text \<open>A successful selection: the plugin's part up to the request to the module.\<close>

lemma FS_SetMode_on:
  assumes "FS_SetMode (link F kfd handle B) mode path st (m, f, k) = Some (ret, st', w')" and "0 \<le> ret" and "fsc_mode st' \<noteq> 0"
  shows "\<exists>st1 k1 p w2. abs_path st1 [] = Some p \<and> fatFd st1 = fatFd st
    \<and> FAT_Init (link F kfd handle B) p st1 (m, f, k1) = Some (ret, st', w2)
    \<and> FS_PrepareFolders (link F kfd handle B) st' w2 = Some w'"
proof -
  let ?E = "link F kfd handle B"
  let ?st1 = "st\<lparr> fat_fd := FS_UnregisterAllFiles (fat_fd st), fsc_path := blit (fsc_path st) 0 (cbytes path),
    fsc_pathlen := of_nat (length path), fsc_mode := mode OR MODE_REV17 \<rparr>"
  let ?k1 = "snd (Swi_AddThreadRights (fe_thread ?E (m, f, k)) TID_RIGHTS_OPEN_FAT k)"
  have l: "fe_mload ?E (m, f, k) = k" "fe_set_mload ?E k' (m, f, k) = (m, f, k')" for k' by (simp_all add: link_def)
  have "\<exists>p w2. abs_path ?st1 [] = Some p \<and> FAT_Init ?E p ?st1 (m, f, ?k1) = Some (ret, st', w2)
      \<and> FS_PrepareFolders ?E st' w2 = Some w'"
    using assms by (auto simp: FS_SetMode_def Let_def mode_off_def l split: if_splits Option.bind_splits)
  moreover have "fatFd ?st1 = fatFd st" by simp
  ultimately show ?thesis by (elim exE conjE) (intro exI conjI)
qed

lemma FS_SetMode_first:
  assumes "FS_SetMode (link F kfd handle B) mode path st (m, f, k) = Some (ret, st', m', f', k')" and "\<not> 0 < fatFd st"
    and "0 \<le> ret" and "fsc_mode st' \<noteq> 0"
  shows "\<exists>p m1. abs_path st' [] = Some p \<and> set_nand_path p m = Some (ret, m1)
    \<and> emuNandPath m' = emuNandPath m1 \<and> emuNandPathLen m' = emuNandPathLen m1"
proof -
  from FS_SetMode_on [OF assms(1,3,4)] obtain st1 k1 p w2 where p: "abs_path st1 [] = Some p" "fatFd st1 = fatFd st"
    and i: "FAT_Init (link F kfd handle B) p st1 (m, f, k1) = Some (ret, st', w2)"
    and w: "FS_PrepareFolders (link F kfd handle B) st' w2 = Some (m', f', k')" by (elim exE conjE)
  obtain m1 f1 k2 where w2: "w2 = (m1, f1, k2)" by (rule prod_cases3)
  have s: "set_nand_path p m = Some (ret, m1)" "st' = st1\<lparr> fat_iobuf := True, fatFd := fatFd st' \<rparr>"
    using FAT_Init_first [OF i [unfolded w2] _ assms(3)] p(2) assms(2) by auto
  have "abs_path st' [] = Some p" using p(1) by (subst s(2)) (simp add: abs_path_def)
  moreover have "nand_folder (m', f', k') = nand_folder (m1, f1, k2)"
    using prepare_folders_nand w unfolding FS_PrepareFolders_def w2 by blast
  ultimately show ?thesis using s(1) by (auto simp: nand_folder_def)
qed

lemma FS_SetMode_again:
  assumes "FS_SetMode (link F kfd handle B) mode path st (m, f, k) = Some (ret, st', w')" and "0 < fatFd st"
  shows "nand_folder w' = nand_folder (m, f, k)"
proof -
  have l: "fe_mload (link F kfd handle B) (m, f, k) = k" "fe_set_mload (link F kfd handle B) k' (m, f, k) = (m, f, k')" for k'
    by (simp_all add: link_def)
  have n: "nand_folder (m, f, k') = (emuNandPath m, emuNandPathLen m)" for k' by (simp add: nand_folder_def)
  show ?thesis using assms
    by (auto simp: FS_SetMode_def Let_def FAT_Init_again l FS_PrepareFolders_def n dest!: prepare_folders_nand
        split: if_splits Option.bind_splits)
qed

lemma abs_path_folder_ok: "abs_path st [] = Some nand \<Longrightarrow> cstring_ok nand"
  by (auto simp: abs_path_def FS_GenerateAbsolutePath_def Let_def dev_prefix_def cstring_ok_def split: if_splits Option.bind_splits
      dest!: cstr_ok dest: in_set_takeD)

section \<open>Properties\<close>

lemma agree_file:
  assumes "fs_inv st" and "abs_path st [] = Some nand" and "cstr (emuNandPath m) 0 = Some (nand @ ''/'')"
    and "unat (emuNandPathLen m) = length nand + 1" and "length nand < 191" and "abs_path st p = Some q" and "starts p ''/''"
  shows "nand_file m (drop 1 p) = Some q"
proof -
  obtain folder where f: "cstr (fsc_path st) 0 = Some folder" "length folder = unat (fsc_pathlen st)"
    using assms(1) by (auto simp: fs_inv_def)
  have n: "nand = dev_prefix (fsc_mode st) @ folder"
    using assms(2) f by (simp add: abs_path_def FS_GenerateAbsolutePath_def Let_def split: if_splits)
  have q: "q = nand @ FAT_Escape p" "length q < FAT_MAXPATH"
    using assms(6) f by (auto simp: n abs_path_def FS_GenerateAbsolutePath_def Let_def split: if_splits)
  obtain r where p: "p = CHR ''/'' # r" using assms(7) by (cases p) (auto simp: starts_def)
  have "FAT_Escape p = ''/'' @ FAT_Escape r" by (simp add: p)
  then show ?thesis using assms(3-5) q p by (simp add: nand_file_def)
qed

text \<open>A kernel for examples: every call but those that are linked fails.\<close>

definition demo_kernel :: "(unit, unit) linked ffs_env" where
  "demo_kernel = \<lparr> fe_open = (\<lambda>p m w. None), fe_close = (\<lambda>fd w. (-1, w)), fe_read = (\<lambda>fd n w. ((-1, []), w)),
     fe_write = (\<lambda>fd bs w. (-1, w)), fe_seek = (\<lambda>fd a b w. (-1, w)), fe_fat = (\<lambda>fd r w. None), fe_alloc = (\<lambda>w. (True, w)),
     fe_thread = (\<lambda>w. 5), fe_title = (\<lambda>w. 0), fe_syscode = (\<lambda>w. 0), fe_mload = (\<lambda>(m, f, k). k),
     fe_set_mload = (\<lambda>k (m, f, _). (m, f, k)) \<rparr>"

abbreviation (input) demo_link :: "(unit, unit) linked ffs_env" where
  "demo_link \<equiv> link demo_fat (\<lambda>r. r + 40) (\<lambda>fd. 0) demo_kernel"

definition demo_nand :: "cstring \<Rightarrow> unit fat_mod" where
  "demo_nand p = fat_zero\<lparr> emuNandPath := blit (replicate 192 0) 0 (cbytes (p @ ''/'')), emuNandPathLen := of_nat (length p + 1) \<rparr>"

definition demo_on :: "cstring \<Rightarrow> fs_state" where
  "demo_on p = fs_zero\<lparr> fsc_mode := 0x82, fsc_path := blit (replicate 256 0) 0 (cbytes p), fsc_pathlen := of_nat (length p),
     fat_fd := replicate 20 (-1), fatFd := 40, fat_iobuf := True \<rparr>"

lemma demo_abs: "cstring_ok p \<Longrightarrow> length p + length (FAT_Escape x) < 254 \<Longrightarrow> abs_path (demo_on p) x = Some (''1:'' @ p @ FAT_Escape x)"
  by (simp add: abs_path_def FS_GenerateAbsolutePath_def demo_on_def blit_def cstr_cbytes0 dev_prefix_def unat_of_nat_u32)

lemma demo_requests:
  assumes "length p < 256"
  shows "Ffs_Plugin.FAT_CreateDir demo_link p (demo_on q) (m, f, k) = Some (0, m, f, k)"
    and "demo_dir p = None \<Longrightarrow> CHR '':'' \<notin> set (drop 2 p)
      \<Longrightarrow> Ffs_Plugin.FAT_DeleteDir demo_link p (demo_on q) (m, f, k) = Some (-106, m, f, k)"
  using assms
  by (simp_all add: Ffs_Plugin.FAT_CreateDir_def Ffs_Plugin.FAT_DeleteDir_def fat_simple_def fat_call_def demo_on_def link_def serve_req_def
      fat_main_def fat_ioctlv_def plain_def Fat_Module.FAT_CreateDir_def Fat_Module.FAT_DeleteDir_def FAT_OpenDir_def demo_fat_def)

lemma demo_prepare: "FS_PrepareFolders demo_link (demo_on ''/nand'') (m, f, k) = Some (m, f, k)"
    "FS_PrepareFolders demo_link (demo_on ''/disk'') (m, f, k) = Some (m, f, k)"
  by (simp_all add: FS_PrepareFolders_def dirs_def demo_abs demo_requests cstring_ok_def demo_dir_def)

lemma demo_first: "\<exists>m' k'. FS_SetMode demo_link 2 ''/nand'' fs_zero (fat_zero, (), mload_zero) = Some (0, demo_on ''/nand'', m', (), k')"
proof -
  let ?st = "fs_zero\<lparr> fat_fd := replicate 20 (-1), fsc_path := blit (replicate 256 0) 0 (cbytes ''/nand''), fsc_pathlen := 5, fsc_mode := 0x82 \<rparr>"
  have a: "abs_path ?st [] = Some ''1:/nand''"
    by (simp add: abs_path_def FS_GenerateAbsolutePath_def blit_def cstr_cbytes0 dev_prefix_def cstring_ok_def)
  obtain m' :: "unit fat_mod" where n: "set_nand_path ''1:/nand'' fat_zero = Some (0, m')"
    using set_nand_path_short [of "fat_zero :: unit fat_mod" "''1:/nand''"] by (auto simp: fat_zero_def length_blit cstring_ok_def)
  have d: "?st\<lparr> fat_iobuf := True, fatFd := 40 \<rparr> = demo_on ''/nand''" by (simp add: demo_on_def)
  have i: "FAT_Init demo_link ''1:/nand'' ?st (fat_zero, (), k) = Some (0, demo_on ''/nand'', m', (), k)" for k
    by (simp add: FAT_Init_def link_def demo_kernel_def fs_zero_def serve_open_def serve_req_def fat_main_def fat_open_def starts_def fat_call_def
        fat_ioctl_def n demo_on_def)
  have l: "fe_mload demo_link (m, f, k) = k" "fe_set_mload demo_link k' (m, f, k) = (m, f, k')" for m f k k' by (simp_all add: link_def)
  have z: "FS_UnregisterAllFiles (fat_fd fs_zero) = replicate 20 (-1)" "fsc_path fs_zero = replicate 256 0"
    "\<not> Stealth_CheckRunningTitle mload_zero"
    by (simp_all add: FS_UnregisterAllFiles_def fs_zero_def Stealth_CheckRunningTitle_def Swi_GetRunningTitle_def mload_zero_def)
  show ?thesis using a i demo_prepare(1) by (simp add: FS_SetMode_def Let_def l z)
qed

text \<open>
  C31. After the first selection of an emulated memory the plugin and the module agree on every file:
  the relative name by which the plugin opens a file is resolved by the module to the absolute path
  that the plugin uses to create, delete, rename or examine it.
\<close>

theorem opened_file_is_named_file:
  assumes "FS_SetMode (link F kfd handle B) mode path st (m, f, k) = Some (ret, st', m', f', k')" and "fs_inv st"
    and "\<not> 0 < fatFd st" and "0 \<le> ret" and "fsc_mode st' \<noteq> 0" and "cstring_ok path" and "length (emuNandPath m) = 192"
    and "FS_GenerateRelativePath p = Some (True, rel)" and "abs_path st' p = Some q"
  shows "fat_open F rel md m' f1 = Some (FAT_Open F q md m' f1)"
proof -
  from FS_SetMode_first [OF assms(1,3-5)] obtain nand m1 where nand: "abs_path st' [] = Some nand" "set_nand_path nand m = Some (ret, m1)"
    and m': "emuNandPath m' = emuNandPath m1" "emuNandPathLen m' = emuNandPathLen m1" by (elim exE conjE)
  have inv: "fs_inv st'" by (rule FS_SetMode_inv [OF assms(1,2,6)])
  have ok: "cstring_ok nand" using nand(1) by (rule abs_path_folder_ok)
  have len: "length nand < 191"
  proof (rule ccontr)
    assume "\<not> length nand < 191"
    then consider "length nand = 191" | "192 \<le> length nand" by linarith
    then show False using set_nand_path_long [OF assms(7)] nand(2) assms(4) by cases auto
  qed
  obtain m2 where m2: "set_nand_path nand m = Some (0, m2)" "cstr (emuNandPath m2) 0 = Some (nand @ ''/'')"
    "unat (emuNandPathLen m2) = length nand + 1" using set_nand_path_short [OF assms(7) ok len] by (elim exE conjE)
  have r: "starts p ''/''" "rel = ''$'' @ drop 1 p"
    using assms(8) by (auto simp: FS_GenerateRelativePath_def split: if_splits)
  have "nand_file m' (drop 1 p) = Some q"
    using agree_file [OF inv nand(1) _ _ len assms(9) r(1), of m'] m2 nand(2) m' by simp
  then show ?thesis by (simp add: fat_open_def r(2) starts_def)
qed

theorem opened_file_is_named_file_witness:
  "\<exists>m' k'. FS_SetMode demo_link 2 ''/nand'' fs_zero (fat_zero, (), mload_zero) = Some (0, demo_on ''/nand'', m', (), k')
    \<and> abs_path (demo_on ''/nand'') ''/tmp/x'' = Some ''1:/nand/tmp/x''
    \<and> fat_open demo_fat ''$tmp/x'' 1 m' () = Some (FAT_Open demo_fat ''1:/nand/tmp/x'' 1 m' ())"
proof -
  obtain m' k' where c: "FS_SetMode demo_link 2 ''/nand'' fs_zero (fat_zero, (), mload_zero) = Some (0, demo_on ''/nand'', m', (), k')"
    using demo_first by (elim exE)
  have q: "abs_path (demo_on ''/nand'') ''/tmp/x'' = Some ''1:/nand/tmp/x''" by (simp add: demo_abs cstring_ok_def)
  have r: "FS_GenerateRelativePath ''/tmp/x'' = Some (True, ''$tmp/x'')" by (simp add: FS_GenerateRelativePath_def starts_def)
  have "fat_open demo_fat ''$tmp/x'' 1 m' () = Some (FAT_Open demo_fat ''1:/nand/tmp/x'' 1 m' ())"
    by (rule opened_file_is_named_file [OF c zero_fs_inv _ _ _ _ _ r q])
      (simp_all add: fs_zero_def demo_on_def cstring_ok_def fat_zero_def length_blit)
  then show ?thesis using c q by (intro exI conjI)
qed

text \<open>
  A later selection of another folder does not reach the module: the plugin's client returns at once
  when it has opened the module before, so that files are still opened in the folder of the first
  selection, while the absolute paths already name the new one.
\<close>

theorem second_folder_not_sent:
  assumes "FS_SetMode (link F kfd handle B) mode path st (m, f, k) = Some (ret, st', m', f', k')" and "0 < fatFd st"
    and "FS_GenerateRelativePath p = Some (True, rel)" and "nand_file m (drop 1 p) = Some old"
  shows "fat_open F rel md m' f1 = Some (FAT_Open F old md m' f1)"
proof -
  have "nand_file m' = nand_file m" using FS_SetMode_again [OF assms(1,2)] by (rule nand_file_cong)
  moreover have "rel = ''$'' @ drop 1 p" using assms(3) by (auto simp: FS_GenerateRelativePath_def split: if_splits)
  ultimately show ?thesis using assms(4) by (simp add: fat_open_def starts_def)
qed

lemma demo_second: "\<exists>k'. FS_SetMode demo_link 2 ''/disk'' (demo_on ''/nand'') (m, (), mload_zero) = Some (0, demo_on ''/disk'', m, (), k')"
proof -
  let ?st = "(demo_on ''/nand'')\<lparr> fat_fd := replicate 20 (-1), fsc_path := blit (fsc_path (demo_on ''/nand'')) 0 (cbytes ''/disk''),
    fsc_pathlen := 5, fsc_mode := 0x82 \<rparr>"
  have a: "abs_path ?st [] = Some ''1:/disk''"
    by (simp add: abs_path_def FS_GenerateAbsolutePath_def blit_def cstr_cbytes0 dev_prefix_def cstring_ok_def)
  have l: "fe_mload demo_link (m, f, k) = k" "fe_set_mload demo_link k' (m, f, k) = (m, f, k')" for m f k k' by (simp_all add: link_def)
  have s: "?st = demo_on ''/disk''" by (simp add: demo_on_def fs_zero_def blit_def cbytes_def)
  have i: "FAT_Init E p (demo_on ''/disk'') w = Some (0, demo_on ''/disk'', w)" for E :: "(unit, unit) linked ffs_env" and p w
    by (rule FAT_Init_again) (simp add: demo_on_def)
  have z: "FS_UnregisterAllFiles (fat_fd (demo_on ''/nand'')) = replicate 20 (-1)" "\<not> Stealth_CheckRunningTitle mload_zero"
    by (simp_all add: FS_UnregisterAllFiles_def Stealth_CheckRunningTitle_def Swi_GetRunningTitle_def mload_zero_def)
  show ?thesis using a demo_prepare(2) i by (simp add: FS_SetMode_def Let_def l z s)
qed

theorem second_folder_not_sent_witness:
  "\<exists>k'. FS_SetMode demo_link 2 ''/disk'' (demo_on ''/nand'') (demo_nand ''1:/nand'', (), mload_zero)
      = Some (0, demo_on ''/disk'', demo_nand ''1:/nand'', (), k')
    \<and> abs_path (demo_on ''/disk'') ''/tmp/x'' = Some ''1:/disk/tmp/x''
    \<and> fat_open demo_fat ''$tmp/x'' 1 (demo_nand ''1:/nand'') () = Some (FAT_Open demo_fat ''1:/nand/tmp/x'' 1 (demo_nand ''1:/nand'') ())"
proof -
  let ?m = "demo_nand ''1:/nand''"
  obtain k' where c: "FS_SetMode demo_link 2 ''/disk'' (demo_on ''/nand'') (?m, (), mload_zero) = Some (0, demo_on ''/disk'', ?m, (), k')"
    using demo_second [of ?m] by (elim exE)
  have q: "abs_path (demo_on ''/disk'') ''/tmp/x'' = Some ''1:/disk/tmp/x''" by (simp add: demo_abs cstring_ok_def)
  have r: "FS_GenerateRelativePath ''/tmp/x'' = Some (True, ''$tmp/x'')" by (simp add: FS_GenerateRelativePath_def starts_def)
  have n: "nand_file ?m (drop 1 ''/tmp/x'') = Some ''1:/nand/tmp/x''"
    by (simp add: nand_file_def demo_nand_def blit_def cstr_cbytes0 cstring_ok_def)
  have "fat_open demo_fat ''$tmp/x'' 1 ?m () = Some (FAT_Open demo_fat ''1:/nand/tmp/x'' 1 ?m ())"
    by (rule second_folder_not_sent [OF c _ r n]) (simp add: demo_on_def)
  then show ?thesis using c q by (intro exI conjI)
qed

end
