(* ===== verification/Libc.thy ===== *)
theory Libc
  imports Cios_Prelude
begin

text \<open>
  The C library of the modules (\<open>cios-lib/libc.c\<close>) over an explicit memory: a function from addresses
  to bytes, with 32-bit big-endian words in it. A byte store below \<open>MEM1_SIZE\<close> is done by reading and
  writing the word around it, and blocks are filled and copied by words where the alignment allows. The
  references are \<open>wr\<close>, which writes a list of bytes at an address, and \<open>rdm\<close>, which reads one. Sizes
  are below \<open>2\<^sup>3\<^sup>2\<close>; a string without an end is the value \<open>None\<close>.
\<close>

section \<open>Memory\<close>

type_synonym memory = "u32 \<Rightarrow> u8"

abbreviation (input) MEM1_SIZE :: u32 where "MEM1_SIZE \<equiv> 0x1800000"

definition load32 :: "memory \<Rightarrow> u32 \<Rightarrow> u32" where
  "load32 m a = be32 [m a, m (a + 1), m (a + 2), m (a + 3)]"

definition store32 :: "memory \<Rightarrow> u32 \<Rightarrow> u32 \<Rightarrow> memory" where
  "store32 m a w = m(a := ucast (drop_bit 24 w), a + 1 := ucast (drop_bit 16 w), a + 2 := ucast (drop_bit 8 w), a + 3 := ucast w)"

definition store8 :: "memory \<Rightarrow> u32 \<Rightarrow> u8 \<Rightarrow> memory" where
  "store8 m a b = m(a := b)"

text \<open>The store of a byte through the word around it.\<close>

definition store8_word :: "memory \<Rightarrow> u32 \<Rightarrow> u8 \<Rightarrow> memory" where
  "store8_word m dest b =
     (let addr = dest AND NOT 3; offset = unat (24 - (dest AND 3) * 8)
      in store32 m addr ((load32 m addr AND NOT (push_bit offset 0xFF)) OR push_bit offset (ucast b)))"

definition byte_store :: "u32 \<Rightarrow> memory \<Rightarrow> u32 \<Rightarrow> u8 \<Rightarrow> memory" where
  "byte_store dest = (if dest < MEM1_SIZE then store8_word else store8)"

section \<open>Blocks\<close>

fun set_loop :: "(memory \<Rightarrow> u32 \<Rightarrow> u8 \<Rightarrow> memory) \<Rightarrow> memory \<Rightarrow> u32 \<Rightarrow> u8 \<Rightarrow> nat \<Rightarrow> memory" where
  "set_loop st m dest c 0 = m"
| "set_loop st m dest c (Suc n) = set_loop st (st m dest c) (dest + 1) c n"

definition memset_inner :: "memory \<Rightarrow> u32 \<Rightarrow> u8 \<Rightarrow> nat \<Rightarrow> memory" where
  "memset_inner m dest c sz = set_loop (byte_store dest) m dest c sz"

fun set_words :: "memory \<Rightarrow> u32 \<Rightarrow> u32 \<Rightarrow> nat \<Rightarrow> memory \<times> u32 \<times> nat" where
  "set_words m dest data32 sz =
     (if 4 \<le> sz then set_words (store32 m dest data32) (dest + 4) data32 (sz - 4) else (m, dest, sz))"

declare set_words.simps [simp del]

definition memset_aligned :: "memory \<Rightarrow> u32 \<Rightarrow> u8 \<Rightarrow> nat \<Rightarrow> memory" where
  "memset_aligned m dest c sz =
     (let d16 = (push_bit 8 (ucast c) OR ucast c) :: u32; data32 = push_bit 16 d16 OR d16;
          (m1, dest1, size1) = set_words m dest data32 sz
      in if size1 > 0 then memset_inner m1 dest1 c size1 else m1)"

definition memset :: "memory \<Rightarrow> u32 \<Rightarrow> u8 \<Rightarrow> nat \<Rightarrow> memory" where
  "memset m dest c sz =
     (if sz = 0 then m
      else if dest AND 3 \<noteq> 0 then
        let cnt = 4 - unat (dest AND 3) in
        if sz \<le> cnt then memset_inner m dest c sz
        else memset_aligned (memset_inner m dest c cnt) (dest + of_nat cnt) c (sz - cnt)
      else memset_aligned m dest c sz)"

text \<open>A block of \<open>k\<close> words is loaded before it is stored.\<close>

fun store_words :: "memory \<Rightarrow> u32 \<Rightarrow> u32 list \<Rightarrow> memory" where
  "store_words m dest [] = m"
| "store_words m dest (w # ws) = store_words (store32 m dest w) (dest + 4) ws"

definition load_words :: "memory \<Rightarrow> u32 \<Rightarrow> nat \<Rightarrow> u32 list" where
  "load_words m src k = map (\<lambda>i. load32 m (src + 4 * of_nat i)) [0..<k]"

fun copy_blocks :: "nat \<Rightarrow> memory \<Rightarrow> u32 \<Rightarrow> u32 \<Rightarrow> nat \<Rightarrow> memory \<times> u32 \<times> u32 \<times> nat" where
  "copy_blocks k m dest src sz =
     (if 0 < k \<and> 4 * k \<le> sz
      then copy_blocks k (store_words m dest (load_words m src k)) (dest + 4 * of_nat k) (src + 4 * of_nat k) (sz - 4 * k)
      else (m, dest, src, sz))"

declare copy_blocks.simps [simp del]

fun copy_loop :: "(memory \<Rightarrow> u32 \<Rightarrow> u8 \<Rightarrow> memory) \<Rightarrow> memory \<Rightarrow> u32 \<Rightarrow> u32 \<Rightarrow> nat \<Rightarrow> memory" where
  "copy_loop st m dest src 0 = m"
| "copy_loop st m dest src (Suc n) = copy_loop st (st m dest (m src)) (dest + 1) (src + 1) n"

definition memcpy :: "memory \<Rightarrow> u32 \<Rightarrow> u32 \<Rightarrow> nat \<Rightarrow> memory" where
  "memcpy m dest src sz =
     (if sz = 0 then m
      else
        let (m1, dest1, src1, size1) =
              (if (dest OR src) AND 3 = 0 then
                 let (m8, d8, s8, n8) = copy_blocks 8 m dest src sz;
                     (m4, d4, s4, n4) = copy_blocks 4 m8 d8 s8 n8
                 in copy_blocks 1 m4 d4 s4 n4
               else (m, dest, src, sz))
        in copy_loop (byte_store dest1) m1 dest1 src1 size1)"

fun memcmp :: "memory \<Rightarrow> u32 \<Rightarrow> u32 \<Rightarrow> nat \<Rightarrow> s32" where
  "memcmp m s1 s2 0 = 0"
| "memcmp m s1 s2 (Suc n) =
     (if m s1 \<noteq> m s2 then int (unat (m s1)) - int (unat (m s2)) else memcmp m (s1 + 1) (s2 + 1) n)"

section \<open>Strings\<close>

partial_function (option) strcmp :: "memory \<Rightarrow> u32 \<Rightarrow> u32 \<Rightarrow> s32 option" where
  "strcmp m s1 s2 =
     (if m s1 \<noteq> 0 \<and> m s1 = m s2 then strcmp m (s1 + 1) (s2 + 1)
      else Some (int (unat (m s1)) - int (unat (m s2))))"

fun strncmp :: "memory \<Rightarrow> u32 \<Rightarrow> u32 \<Rightarrow> nat \<Rightarrow> s32" where
  "strncmp m s1 s2 0 = 0"
| "strncmp m s1 s2 (Suc n) =
     (if m s1 = m s2 \<and> n \<noteq> 0 \<and> m s1 \<noteq> 0 then strncmp m (s1 + 1) (s2 + 1) n
      else int (unat (m s1)) - int (unat (m s2)))"

partial_function (option) strend :: "memory \<Rightarrow> u32 \<Rightarrow> u32 option" where
  "strend m s = (if m s \<noteq> 0 then strend m (s + 1) else Some s)"

definition strlen :: "memory \<Rightarrow> u32 \<Rightarrow> u32 option" where
  "strlen m str = map_option (\<lambda>s. s - str) (strend m str)"

fun strnlen :: "memory \<Rightarrow> u32 \<Rightarrow> nat \<Rightarrow> nat" where
  "strnlen m s 0 = 0"
| "strnlen m s (Suc n) = (if m s = 0 then 0 else Suc (strnlen m (s + 1) n))"

partial_function (option) str_copy ::
  "(memory \<Rightarrow> u32 \<Rightarrow> u8 \<Rightarrow> memory) \<Rightarrow> memory \<Rightarrow> u32 \<Rightarrow> u32 \<Rightarrow> memory option"
where
  "str_copy st m s1 s2 =
     (let data = m s2; m' = st m s1 data
      in if data \<noteq> 0 then str_copy st m' (s1 + 1) (s2 + 1) else Some m')"

definition strcpy :: "memory \<Rightarrow> u32 \<Rightarrow> u32 \<Rightarrow> memory option" where
  "strcpy m s1 s2 = str_copy (byte_store s1) m s1 s2"

definition strcat :: "memory \<Rightarrow> u32 \<Rightarrow> u32 \<Rightarrow> memory option" where
  "strcat m s1 s2 = do { e \<leftarrow> strend m s1; str_copy (byte_store e) m e s2 }"

partial_function (option) strchr :: "memory \<Rightarrow> u32 \<Rightarrow> u8 \<Rightarrow> u32 option option" where
  "strchr m s c = (if m s \<noteq> 0 \<and> m s \<noteq> c then strchr m (s + 1) c else Some (if m s = c then Some s else None))"

fun strncpy_loop :: "(memory \<Rightarrow> u32 \<Rightarrow> u8 \<Rightarrow> memory) \<Rightarrow> memory \<Rightarrow> u32 \<Rightarrow> u32 \<Rightarrow> nat \<Rightarrow> memory" where
  "strncpy_loop st m dest src 0 = m"
| "strncpy_loop st m dest src (Suc n) =
     (let data = m src; m' = st m dest data
      in if data = 0 then set_loop st m' (dest + 1) 0 n else strncpy_loop st m' (dest + 1) (src + 1) n)"

definition strncpy :: "memory \<Rightarrow> u32 \<Rightarrow> u32 \<Rightarrow> nat \<Rightarrow> memory" where
  "strncpy m dest src num = strncpy_loop (byte_store dest) m dest src num"

definition rand :: "64 word \<Rightarrow> s32 \<times> 64 word" where
  "rand rand_next =
     (let n = rand_next * 6364136223846793005 + 1 in (int (unat (drop_bit 32 n AND 0x7FFFFFFF)), n))"

section \<open>Lists of bytes in memory\<close>

definition wr :: "memory \<Rightarrow> u32 \<Rightarrow> bytes \<Rightarrow> memory" where
  "wr m a bs = (\<lambda>x. if unat (x - a) < length bs then bs ! unat (x - a) else m x)"

definition rdm :: "memory \<Rightarrow> u32 \<Rightarrow> nat \<Rightarrow> bytes" where
  "rdm m a n = map (\<lambda>i. m (a + of_nat i)) [0..<n]"

lemma length_rdm [simp]: "length (rdm m a n) = n"
  by (simp add: rdm_def)

lemma wr_Nil [simp]: "wr m a [] = m"
  by (simp add: wr_def)

lemma wr_Cons:
  assumes "length bs < 4294967296"
  shows "wr (m(a := b)) (a + 1) bs = wr m a (b # bs)"
proof
  fix x
  show "wr (m(a := b)) (a + 1) bs x = wr m a (b # bs) x"
  proof (cases "x = a")
    case True
    have "x - (a + 1) = -1" using True by simp
    then have "unat (x - (a + 1)) = 4294967295" by (simp only: unsigned_minus_1_eq_mask) (simp add: mask_eq_exp_minus_1)
    then show ?thesis using assms True by (simp add: wr_def)
  next
    case False
    have e: "x - (a + 1) = (x - a) - 1" by simp
    have "x - a \<noteq> 0" using False by simp
    then have "unat (x - a) = Suc (unat ((x - a) - 1))"
      by (metis Suc_pred' unat_gt_0 unat_minus_one)
    then show ?thesis using False by (simp add: wr_def e)
  qed
qed

lemma wr_append:
  "length bs + length cs \<le> 4294967296 \<Longrightarrow> wr (wr m a bs) (a + of_nat (length bs)) cs = wr m a (bs @ cs)"
proof (induction bs arbitrary: m a)
  case (Cons b bs)
  have "wr (wr m a (b # bs)) (a + of_nat (length (b # bs))) cs = wr (wr (m(a := b)) (a + 1) bs) (a + 1 + of_nat (length bs)) cs"
    using Cons.prems by (simp add: wr_Cons add.assoc)
  also have "\<dots> = wr (m(a := b)) (a + 1) (bs @ cs)" using Cons.prems by (intro Cons.IH) simp
  also have "\<dots> = wr m a ((b # bs) @ cs)" using Cons.prems by (simp add: wr_Cons)
  finally show ?case .
qed simp

lemma rdm_append: "rdm m a (j + k) = rdm m a j @ rdm m (a + of_nat j) k"
proof -
  have "map (\<lambda>i. m (a + of_nat i)) [j..<j + k] = map (\<lambda>i. m (a + of_nat j + of_nat i)) [0..<k]"
    by (rule nth_equalityI) (simp_all add: ac_simps)
  then show ?thesis by (simp add: rdm_def upt_add_eq_append [of 0])
qed

lemma put_be32_be32: "put_be32 (be32 [a, b, c, d]) = [a, b, c, d]"
proof -
  have "ucast (drop_bit 24 (be32 [a, b, c, d])) = a" "ucast (drop_bit 16 (be32 [a, b, c, d])) = b"
    "ucast (drop_bit 8 (be32 [a, b, c, d])) = c" "ucast (be32 [a, b, c, d]) = d"
    unfolding be32_def by (rule bit_word_eqI, auto simp: bit_simps dest: bit_imp_le_length)+
  then show ?thesis by (simp add: put_be32_def)
qed

lemma store32_wr: "store32 m a w = wr m a (put_be32 w)"
  by (simp add: store32_def put_be32_def wr_Cons [symmetric] add.assoc)

lemma put_load32: "put_be32 (load32 m a) = rdm m a 4"
  by (simp add: load32_def rdm_def put_be32_be32 upt_rec)

section \<open>The store of a byte through a word\<close>

lemma wr_update:
  assumes "k < n" and "n \<le> 4294967296"
  shows "wr m a ((rdm m a n)[k := b]) = m(a + of_nat k := b)"
proof
  fix x
  have k: "unat (of_nat k :: u32) = k" using assms by (intro unat_of_nat_u32) simp
  show "wr m a ((rdm m a n)[k := b]) x = (m(a + of_nat k := b)) x"
  proof (cases "x = a + of_nat k")
    case True
    then show ?thesis using assms k by (simp add: wr_def)
  next
    case False
    then have "unat (x - a) \<noteq> k" using k by (metis add.commute diff_add_cancel word_unat_eq_iff)
    then show ?thesis using False by (simp add: wr_def rdm_def)
  qed
qed

lemma put_be32_bit: "j < 4 \<Longrightarrow> bit (put_be32 w ! j) i \<longleftrightarrow> i < 8 \<and> bit w (24 - 8 * j + i)"
  by (auto simp: put_be32_def less_Suc_eq numeral_eq_Suc bit_simps)

lemma put_be32_replace:
  assumes "off = 24 - 8 * k" and "k < 4"
  shows "put_be32 ((w AND NOT (push_bit off 0xFF)) OR push_bit off (ucast b)) = (put_be32 w)[k := b]"
proof -
  have ff: "(0xFF :: u32) = mask 8" by (simp add: mask_eq_exp_minus_1)
  show ?thesis unfolding ff
  proof (rule nth_equalityI)
    fix j assume "j < length (put_be32 ((w AND NOT (push_bit off (mask 8))) OR push_bit off (ucast b)))"
    then have j: "j < 4" by simp
    show "put_be32 ((w AND NOT (push_bit off (mask 8))) OR push_bit off (ucast b)) ! j = (put_be32 w)[k := b] ! j"
    proof (rule bit_word_eqI)
      fix i assume "i < LENGTH(8)"
      then have i: "i < 8" by simp
      have b8: "\<not> bit b p" if "8 \<le> p" for p using that bit_imp_le_length [of b p] by auto
      let ?p = "24 - 8 * j + i"
      have "bit (put_be32 ((w AND NOT (push_bit off (mask 8))) OR push_bit off (ucast b)) ! j) i
          \<longleftrightarrow> bit w ?p \<and> \<not> (off \<le> ?p \<and> ?p - off < 8) \<or> off \<le> ?p \<and> bit b (?p - off)"
        using i j assms by (auto simp: put_be32_bit bit_simps)
      also have "\<dots> \<longleftrightarrow> bit ((put_be32 w)[k := b] ! j) i"
      proof (cases "j = k")
        case True
        then show ?thesis using i assms by (auto simp: nth_list_update)
      next
        case False
        then have "\<not> off \<le> ?p \<or> 8 \<le> ?p - off" using i j assms by linarith
        then show ?thesis using False i j b8 by (auto simp: put_be32_bit nth_list_update)
      qed
      finally show "bit (put_be32 ((w AND NOT (push_bit off (mask 8))) OR push_bit off (ucast b)) ! j) i = bit ((put_be32 w)[k := b] ! j) i" .
    qed
  qed simp
qed

lemma word_align: "a = (a AND NOT 3) + (a AND 3)" for a :: u32
proof -
  have "(a AND NOT 3) + (a AND 3) = (a AND NOT 3) OR (a AND 3)"
    by (rule disjunctive_add) (auto simp: bit_simps)
  also have "\<dots> = a" by (rule bit_word_eqI) (auto simp: bit_simps)
  finally show ?thesis by simp
qed

lemma low_bits: "unat (a AND 3 :: u32) < 4"
proof -
  have "(3 :: u32) = mask 2" by (simp add: mask_eq_exp_minus_1)
  then have "unat (a AND 3) = unat a mod 2 ^ 2" by (simp only: unat_and_mask)
  then show ?thesis by simp
qed

lemma store8_word_upd: "store8_word m a b = m(a := b)"
proof -
  let ?d = "a AND NOT 3" and ?k = "unat (a AND 3)"
  have k: "?k < 4" by (rule low_bits)
  have o: "unat (24 - (a AND 3) * 8) = 24 - 8 * ?k"
  proof -
    have "unat ((a AND 3) * 8) = ?k * 8" using k by (simp add: unat_word_ariths)
    then show ?thesis using k by (simp add: unat_u32_sub)
  qed
  have "store8_word m a b = wr m ?d (put_be32 ((load32 m ?d AND NOT (push_bit (24 - 8 * ?k) 0xFF)) OR push_bit (24 - 8 * ?k) (ucast b)))"
    unfolding store8_word_def Let_def o store32_wr ..
  also have "\<dots> = wr m ?d ((rdm m ?d 4)[?k := b])" using k by (subst put_be32_replace) (simp_all add: put_load32)
  also have "\<dots> = m(?d + of_nat ?k := b)" using k by (intro wr_update) simp_all
  also have "?d + of_nat ?k = a" using word_align [of a] by simp
  finally show ?thesis .
qed

lemma byte_store_upd: "byte_store d m a b = m(a := b)"
  by (simp add: byte_store_def store8_def store8_word_upd)

section \<open>Filling\<close>

lemma set_loop_wr: "n < 4294967296 \<Longrightarrow> set_loop (byte_store d) m a c n = wr m a (replicate n c)"
  by (induction n arbitrary: m a) (simp_all add: wr_Cons byte_store_upd)

lemma put_be32_repeat:
  fixes c :: u8
  defines "h \<equiv> (push_bit 8 (ucast c) OR ucast c) :: u32"
  shows "put_be32 (push_bit 16 h OR h) = replicate 4 c"
proof (rule nth_equalityI)
  fix j assume "j < length (put_be32 (push_bit 16 h OR h))"
  then have j: "j < 4" by simp
  have c8: "\<not> bit c p" if "8 \<le> p" for p using that bit_imp_le_length [of c p] by auto
  show "put_be32 (push_bit 16 h OR h) ! j = replicate 4 c ! j"
  proof (rule bit_word_eqI)
    fix i assume "i < LENGTH(8)"
    then have i: "i < 8" by simp
    consider "j = 0" | "j = 1" | "j = 2" | "j = 3" using j by linarith
    then show "bit (put_be32 (push_bit 16 h OR h) ! j) i = bit (replicate 4 c ! j) i"
      by cases (use i c8 in \<open>auto simp: put_be32_bit h_def bit_simps\<close>)
  qed
qed simp

lemma set_words_wr:
  assumes "put_be32 w = replicate 4 c" and "n < 4294967296"
  shows "set_words m a w n = (wr m a (replicate (4 * (n div 4)) c), a + of_nat (4 * (n div 4)), n mod 4)"
  using assms(2)
proof (induction n arbitrary: m a rule: less_induct)
  case (less n)
  show ?case
  proof (cases "4 \<le> n")
    case True
    define q where "q = (n - 4) div 4"
    have q: "n div 4 = Suc q" "n mod 4 = (n - 4) mod 4" using True by (simp_all add: q_def le_div_geq le_mod_geq)
    have "set_words m a w n = set_words (wr m a (replicate 4 c)) (a + 4) w (n - 4)"
      using True by (subst set_words.simps) (simp add: store32_wr assms(1))
    also have "\<dots> = (wr (wr m a (replicate 4 c)) (a + of_nat (length (replicate 4 c))) (replicate (4 * q) c), a + 4 + of_nat (4 * q), n mod 4)"
      using less.IH [of "n - 4"] less.prems True unfolding q_def q(2) by simp
    also have "\<dots> = (wr m a (replicate 4 c @ replicate (4 * q) c), a + of_nat (4 * Suc q), n mod 4)"
    proof -
      have "4 + 4 * q \<le> 4294967296" using less.prems True q(1) by (simp add: q_def)
      then show ?thesis by (subst wr_append) simp_all
    qed
    finally show ?thesis unfolding q(1) by (simp add: replicate_add [symmetric])
  qed (subst set_words.simps, simp)
qed

lemma memset_inner_wr: "n < 4294967296 \<Longrightarrow> memset_inner m a c n = wr m a (replicate n c)"
  by (simp add: memset_inner_def set_loop_wr)

lemma memset_aligned_wr:
  assumes "n < 4294967296"
  shows "memset_aligned m a c n = wr m a (replicate n c)"
proof -
  let ?q = "4 * (n div 4)"
  have n: "?q + n mod 4 = n" by simp
  then have z: "n mod 4 = 0 \<Longrightarrow> ?q = n" by simp
  have "wr (wr m a (replicate ?q c)) (a + of_nat (length (replicate ?q c))) (replicate (n mod 4) c) = wr m a (replicate n c)"
    using assms n by (subst wr_append) (simp_all add: replicate_add [symmetric])
  then show ?thesis using assms
    unfolding memset_aligned_def Let_def set_words_wr [OF put_be32_repeat assms] by (simp add: memset_inner_wr z)
qed

lemma memset_wr:
  assumes "n < 4294967296"
  shows "memset m dest c n = wr m dest (replicate n c)"
proof -
  let ?c = "4 - unat (dest AND 3)"
  have sub: "n - ?c < 4294967296" by (rule le_less_trans [OF diff_le_self assms])
  have split: "wr (wr m dest (replicate ?c c)) (dest + of_nat ?c) (replicate (n - ?c) c) = wr m dest (replicate n c)" if "?c < n"
    using that assms wr_append [of "replicate ?c c" "replicate (n - ?c) c" m dest] by (simp add: replicate_add [symmetric])
  show ?thesis using split assms sub by (auto simp: memset_def Let_def memset_inner_wr memset_aligned_wr)
qed

section \<open>Copying\<close>

definition apart :: "u32 \<Rightarrow> u32 \<Rightarrow> nat \<Rightarrow> bool" where
  "apart d s n \<longleftrightarrow> (\<forall>i < n. \<forall>j < n. d + of_nat i \<noteq> s + of_nat j)"

lemma apart_le: "apart d s n \<Longrightarrow> k \<le> n \<Longrightarrow> apart d s k"
  by (simp add: apart_def)

lemma apart_drop:
  assumes "apart d s (k + n)"
  shows "apart (d + of_nat k) (s + of_nat k) n"
  unfolding apart_def
proof (intro allI impI)
  fix i j assume "i < n" "j < n"
  then have "d + of_nat (k + i) \<noteq> s + of_nat (k + j)" using assms by (simp add: apart_def del: of_nat_add)
  then show "d + of_nat k + of_nat i \<noteq> s + of_nat k + of_nat j" by (simp add: add.assoc)
qed

text \<open>A part that was copied does not change the rest of the source.\<close>

lemma rdm_wr_apart:
  assumes "apart d s (k + n)" and "length bs = k"
  shows "rdm (wr m d bs) (s + of_nat k) n = rdm m (s + of_nat k) n"
  unfolding rdm_def
proof (rule map_cong [OF refl])
  fix j assume "j \<in> set [0..<n]"
  then have j: "j < n" by simp
  have "\<not> unat (s + of_nat k + of_nat j - d) < k"
  proof
    assume lt: "unat (s + of_nat k + of_nat j - d) < k"
    have "d + of_nat (unat (s + of_nat k + of_nat j - d)) = s + of_nat (k + j)" by (simp add: add.assoc)
    moreover have "d + of_nat (unat (s + of_nat k + of_nat j - d)) \<noteq> s + of_nat (k + j)"
      by (rule assms(1) [unfolded apart_def, rule_format]) (use lt j in auto)
    ultimately show False by contradiction
  qed
  then show "wr m d bs (s + of_nat k + of_nat j) = m (s + of_nat k + of_nat j)" by (simp add: wr_def assms(2))
qed

lemma copy_chain:
  assumes "apart d s (k + n)" and "k + n \<le> 4294967296" and "m1 = wr m d (rdm m s k)"
  shows "wr m1 (d + of_nat k) (rdm m1 (s + of_nat k) n) = wr m d (rdm m s (k + n))"
proof -
  have "rdm m1 (s + of_nat k) n = rdm m (s + of_nat k) n" unfolding assms(3) by (rule rdm_wr_apart [OF assms(1)]) simp
  then show ?thesis using assms(2) wr_append [of "rdm m s k" "rdm m (s + of_nat k) n" m d]
    by (simp add: assms(3) rdm_append)
qed

lemma copy_loop_wr:
  "apart d s n \<Longrightarrow> n < 4294967296 \<Longrightarrow> copy_loop (byte_store x) m d s n = wr m d (rdm m s n)"
proof (induction n arbitrary: m d s)
  case (Suc n)
  let ?m = "m(d := m s)"
  have one: "?m = wr m d (rdm m s 1)" by (simp add: rdm_def wr_Cons [symmetric])
  have a: "apart (d + 1) (s + 1) n" using apart_drop [of d s 1 n] Suc.prems(1) by simp
  have "copy_loop (byte_store x) m d s (Suc n) = copy_loop (byte_store x) ?m (d + 1) (s + 1) n" by (simp add: byte_store_upd)
  also have "\<dots> = wr ?m (d + 1) (rdm ?m (s + 1) n)" by (rule Suc.IH [OF a]) (use Suc.prems(2) in simp)
  also have "\<dots> = wr m d (rdm m s (1 + n))"
    using copy_chain [of d s 1 n ?m m, OF _ _ one] Suc.prems by simp
  finally show ?case by (simp only: plus_1_eq_Suc)
qed (simp add: rdm_def)

lemma store_words_wr:
  "4 * length ws < 4294967296 \<Longrightarrow> store_words m d ws = wr m d (concat (map put_be32 ws))"
proof (induction ws arbitrary: m d)
  case (Cons w ws)
  have l: "length (concat (map put_be32 ws)) = 4 * length ws" by (induction ws) simp_all
  have "store_words m d (w # ws) = wr (wr m d (put_be32 w)) (d + of_nat (length (put_be32 w))) (concat (map put_be32 ws))"
    using Cons by (simp add: store32_wr)
  also have "\<dots> = wr m d (put_be32 w @ concat (map put_be32 ws))" using Cons.prems l by (intro wr_append) simp
  finally show ?case by simp
qed simp

lemma load_words_bytes: "concat (map put_be32 (load_words m s k)) = rdm m s (4 * k)"
proof (induction k)
  case (Suc k)
  have "rdm m s (4 * Suc k) = rdm m s (4 * k + 4)" by (simp add: add.commute)
  also have "\<dots> = rdm m s (4 * k) @ rdm m (s + of_nat (4 * k)) 4" by (rule rdm_append)
  finally show ?case using Suc.IH by (simp add: load_words_def put_load32)
qed (simp add: load_words_def rdm_def)

lemma copy_blocks_wr:
  assumes "0 < k" and "k \<le> 8" and "apart d s n" and "n < 4294967296"
  shows "\<exists>q. copy_blocks k m d s n = (wr m d (rdm m s q), d + of_nat q, s + of_nat q, n - q) \<and> q \<le> n"
  using assms(3,4)
proof (induction n arbitrary: m d s rule: less_induct)
  case (less n)
  show ?case
  proof (cases "4 * k \<le> n")
    case True
    let ?m = "wr m d (rdm m s (4 * k))"
    have st: "store_words m d (load_words m s k) = ?m"
      using assms(2) by (subst store_words_wr) (simp_all add: load_words_bytes, simp add: load_words_def)
    have sp: "4 * k + (n - 4 * k) = n" using True by simp
    have a: "apart (d + of_nat (4 * k)) (s + of_nat (4 * k)) (n - 4 * k)"
      using apart_drop [of d s "4 * k" "n - 4 * k"] less.prems(1) sp by simp
    have lt: "n - 4 * k < n" "n - 4 * k < 4294967296" using True assms(1) less.prems(2) by simp_all
    from less.IH [OF lt(1) a lt(2), of ?m] obtain q where
      q: "copy_blocks k ?m (d + of_nat (4 * k)) (s + of_nat (4 * k)) (n - 4 * k)
        = (wr ?m (d + of_nat (4 * k)) (rdm ?m (s + of_nat (4 * k)) q), d + of_nat (4 * k) + of_nat q, s + of_nat (4 * k) + of_nat q,
           n - 4 * k - q)" "q \<le> n - 4 * k" by (elim exE conjE)
    have "wr ?m (d + of_nat (4 * k)) (rdm ?m (s + of_nat (4 * k)) q) = wr m d (rdm m s (4 * k + q))"
      by (rule copy_chain) (use less.prems q(2) True in \<open>auto intro: apart_le\<close>)
    then have "copy_blocks k m d s n = (wr m d (rdm m s (4 * k + q)), d + of_nat (4 * k + q), s + of_nat (4 * k + q), n - (4 * k + q))"
      using True assms(1) st q(1) by (subst copy_blocks.simps) (simp add: add.assoc)
    then show ?thesis using q(2) True by (intro exI [of _ "4 * k + q"]) simp
  next
    case False
    then show ?thesis by (subst copy_blocks.simps) (auto intro!: exI [of _ 0] simp: rdm_def)
  qed
qed

lemma memcpy_wr:
  assumes "apart d s n" and "n < 4294967296"
  shows "memcpy m d s n = wr m d (rdm m s n)"
proof -
  have rest: "copy_loop (byte_store x) (wr m d (rdm m s q)) (d + of_nat q) (s + of_nat q) (n - q) = wr m d (rdm m s n)"
    if "q \<le> n" for q x
  proof -
    let ?m = "wr m d (rdm m s q)"
    have sp: "q + (n - q) = n" using that by simp
    have a: "apart (d + of_nat q) (s + of_nat q) (n - q)" using apart_drop [of d s q "n - q"] assms(1) sp by simp
    have "copy_loop (byte_store x) ?m (d + of_nat q) (s + of_nat q) (n - q) = wr ?m (d + of_nat q) (rdm ?m (s + of_nat q) (n - q))"
      by (rule copy_loop_wr [OF a]) (use assms(2) in simp)
    also have "\<dots> = wr m d (rdm m s (q + (n - q)))" by (rule copy_chain) (use assms sp in simp_all)
    finally show ?thesis by (simp only: sp)
  qed
  have block: "\<exists>q'. copy_blocks k (wr m d (rdm m s q)) (d + of_nat q) (s + of_nat q) (n - q)
      = (wr m d (rdm m s q'), d + of_nat q', s + of_nat q', n - q') \<and> q' \<le> n" if "q \<le> n" "0 < k" "k \<le> 8" for q k
  proof -
    let ?m = "wr m d (rdm m s q)"
    have sp: "q + (n - q) = n" using that by simp
    have a: "apart (d + of_nat q) (s + of_nat q) (n - q)" using apart_drop [of d s q "n - q"] assms(1) sp by simp
    have l: "n - q < 4294967296" using assms(2) by simp
    from copy_blocks_wr [OF that(2,3) a l, of ?m] obtain r where
      r: "copy_blocks k ?m (d + of_nat q) (s + of_nat q) (n - q)
        = (wr ?m (d + of_nat q) (rdm ?m (s + of_nat q) r), d + of_nat q + of_nat r, s + of_nat q + of_nat r, n - q - r)" "r \<le> n - q"
      by (elim exE conjE)
    have "wr ?m (d + of_nat q) (rdm ?m (s + of_nat q) r) = wr m d (rdm m s (q + r))"
      by (rule copy_chain) (use assms r(2) that sp in \<open>auto intro: apart_le\<close>)
    then show ?thesis using r that by (intro exI [of _ "q + r"]) (simp add: add.assoc)
  qed
  show ?thesis
  proof (cases "(d OR s) AND 3 = 0")
    case True
    obtain q8 where q8: "copy_blocks 8 m d s n = (wr m d (rdm m s q8), d + of_nat q8, s + of_nat q8, n - q8)" "q8 \<le> n"
      using block [of 0 8] by (auto simp: rdm_def)
    obtain q4 where q4: "copy_blocks 4 (wr m d (rdm m s q8)) (d + of_nat q8) (s + of_nat q8) (n - q8)
        = (wr m d (rdm m s q4), d + of_nat q4, s + of_nat q4, n - q4)" "q4 \<le> n" using block [of q8 4] q8(2) by auto
    obtain q1 where q1: "copy_blocks 1 (wr m d (rdm m s q4)) (d + of_nat q4) (s + of_nat q4) (n - q4)
        = (wr m d (rdm m s q1), d + of_nat q1, s + of_nat q1, n - q1)" "q1 \<le> n" using block [of q4 1] q4(2) by auto
    show ?thesis
    proof (cases "n = 0")
      case False
      then show ?thesis using True rest [OF q1(2)] unfolding memcpy_def q8(1) Let_def prod.case q4(1) q1(1) by simp
    qed (simp add: memcpy_def rdm_def)
  next
    case False
    then show ?thesis using rest [of 0 d] by (simp add: memcpy_def rdm_def)
  qed
qed

section \<open>Strings\<close>

definition is_str :: "memory \<Rightarrow> u32 \<Rightarrow> nat \<Rightarrow> bool" where
  "is_str m s k \<longleftrightarrow> (\<forall>i < k. m (s + of_nat i) \<noteq> 0) \<and> m (s + of_nat k) = 0"

lemma is_str_0: "is_str m s 0 \<longleftrightarrow> m s = 0"
  by (simp add: is_str_def)

lemma is_str_Suc: "is_str m s (Suc k) \<longleftrightarrow> m s \<noteq> 0 \<and> is_str m (s + 1) k"
  by (auto simp: is_str_def less_Suc_eq_0_disj add.assoc)

lemma strend_is_str: "is_str m s k \<Longrightarrow> strend m s = Some (s + of_nat k)"
proof (induction k arbitrary: s)
  case 0
  then show ?case by (subst strend.simps) (simp add: is_str_0)
next
  case (Suc k)
  then show ?case by (subst strend.simps) (simp add: is_str_Suc add.assoc)
qed

lemma strlen_is_str: "is_str m s k \<Longrightarrow> strlen m s = Some (of_nat k)"
  by (simp add: strlen_def strend_is_str)

lemma is_str_wr:
  assumes "is_str m (s + 1) k" and "apart d s (Suc (Suc k))"
  shows "is_str (m(d := b)) (s + 1) k"
proof -
  have n: "d \<noteq> s + 1 + of_nat j" if "j \<le> k" for j
    using assms(2) [unfolded apart_def, rule_format, of 0 "Suc j"] that by (simp add: add.assoc)
  have "(m(d := b)) (s + 1 + of_nat j) = m (s + 1 + of_nat j)" if "j \<le> k" for j using n [OF that] by simp
  then show ?thesis using assms(1) unfolding is_str_def by simp
qed

lemma str_copy_wr:
  "is_str m s k \<Longrightarrow> apart d s (Suc k) \<Longrightarrow> k < 4294967295 \<Longrightarrow> str_copy (byte_store x) m d s = Some (wr m d (rdm m s (Suc k)))"
proof (induction k arbitrary: m d s)
  case 0
  then show ?case by (subst str_copy.simps) (simp add: is_str_0 rdm_def wr_Cons [symmetric] byte_store_upd)
next
  case (Suc k)
  let ?m = "m(d := m s)"
  have one: "?m = wr m d (rdm m s 1)" by (simp add: rdm_def wr_Cons [symmetric])
  have a: "apart (d + 1) (s + 1) (Suc k)" using apart_drop [of d s 1 "Suc k"] Suc.prems(2) by simp
  have i: "is_str ?m (s + 1) k" by (rule is_str_wr) (use Suc.prems in \<open>simp_all add: is_str_Suc\<close>)
  have "str_copy (byte_store x) m d s = str_copy (byte_store x) ?m (d + 1) (s + 1)"
    using Suc.prems(1) by (subst str_copy.simps) (simp add: is_str_Suc byte_store_upd)
  also have "\<dots> = Some (wr ?m (d + 1) (rdm ?m (s + 1) (Suc k)))" by (rule Suc.IH [OF i a]) (use Suc.prems(3) in simp)
  also have "wr ?m (d + 1) (rdm ?m (s + 1) (Suc k)) = wr m d (rdm m s (1 + Suc k))"
    using copy_chain [of d s 1 "Suc k" ?m m, OF _ _ one] Suc.prems by simp
  finally show ?case by (simp only: plus_1_eq_Suc)
qed

text \<open>Comparisons tell equal blocks and strings from others.\<close>

lemma rdm_Suc: "rdm m a (Suc n) = m a # rdm m (a + 1) n"
  using rdm_append [of m a 1 n] by (simp add: rdm_def)

lemma memcmp_eq_0: "memcmp m s1 s2 n = 0 \<longleftrightarrow> rdm m s1 n = rdm m s2 n"
  by (induction n arbitrary: s1 s2) (auto simp: rdm_Suc rdm_def [of _ _ 0] word_uint_eq_iff)

lemma strcmp_eq_0:
  "is_str m s1 j \<Longrightarrow> is_str m s2 k \<Longrightarrow> \<exists>r. strcmp m s1 s2 = Some r \<and> (r = 0 \<longleftrightarrow> j = k \<and> rdm m s1 j = rdm m s2 j)"
proof (induction j arbitrary: s1 s2 k)
  case 0
  then show ?case by (subst strcmp.simps) (cases k; auto simp: is_str_0 is_str_Suc rdm_def unsigned_eq_0_iff)
next
  case (Suc j)
  show ?case
  proof (cases "m s1 = m s2")
    case True
    then obtain k' where k: "k = Suc k'" using Suc.prems by (cases k) (auto simp: is_str_0 is_str_Suc)
    have "strcmp m s1 s2 = strcmp m (s1 + 1) (s2 + 1)" using True Suc.prems(1) by (subst strcmp.simps) (simp add: is_str_Suc)
    then show ?thesis using Suc.IH [of "s1 + 1" "s2 + 1" k'] Suc.prems True by (simp add: k is_str_Suc rdm_Suc)
  next
    case False
    then have "strcmp m s1 s2 = Some (int (unat (m s1)) - int (unat (m s2)))" by (subst strcmp.simps) simp
    then show ?thesis using False by (auto simp: rdm_Suc word_uint_eq_iff)
  qed
qed

lemma strcpy_is_str: "is_str m s k \<Longrightarrow> apart d s (Suc k) \<Longrightarrow> k < 4294967295 \<Longrightarrow> strcpy m d s = Some (wr m d (rdm m s (Suc k)))"
  unfolding strcpy_def by (rule str_copy_wr)

lemma strcat_is_str:
  "is_str m d j \<Longrightarrow> is_str m s k \<Longrightarrow> apart (d + of_nat j) s (Suc k) \<Longrightarrow> k < 4294967295
    \<Longrightarrow> strcat m d s = Some (wr m (d + of_nat j) (rdm m s (Suc k)))"
  by (simp add: strcat_def strend_is_str str_copy_wr)

text \<open>The bounded copy pads with zeros.\<close>

lemma strnlen_wr: "apart d s (Suc n) \<Longrightarrow> strnlen (m(d := b)) (s + 1) n = strnlen m (s + 1) n"
proof -
  assume a: "apart d s (Suc n)"
  have "strnlen (m(d := b)) t k = strnlen m t k" if "\<forall>j < k. d \<noteq> t + of_nat j" for t k
    using that
  proof (induction k arbitrary: t)
    case (Suc k)
    have "d \<noteq> t" using Suc.prems [rule_format, of 0] by simp
    moreover have "d \<noteq> t + 1 + of_nat j" if "j < k" for j using Suc.prems [rule_format, of "Suc j"] that by (simp add: add.assoc)
    ultimately show ?case using Suc.IH by simp
  qed simp
  moreover have "d \<noteq> s + 1 + of_nat j" if "j < n" for j
    using a [unfolded apart_def, rule_format, of 0 "Suc j"] that by (simp add: add.assoc)
  ultimately show ?thesis by blast
qed

lemma strnlen_le: "strnlen m s n \<le> n"
  by (induction n arbitrary: s) auto

lemma strncpy_loop_wr:
  "apart d s n \<Longrightarrow> n < 4294967296 \<Longrightarrow>
    strncpy_loop (byte_store x) m d s n = wr m d (rdm m s (strnlen m s n) @ replicate (n - strnlen m s n) 0)"
proof (induction n arbitrary: m d s)
  case (Suc n)
  let ?m = "m(d := m s)"
  show ?case
  proof (cases "m s = 0")
    case True
    have "strncpy_loop (byte_store x) m d s (Suc n) = set_loop (byte_store x) (byte_store x m d 0) (d + 1) 0 n" using True by simp
    also have "\<dots> = wr (byte_store x m d 0) (d + 1) (replicate n 0)" by (rule set_loop_wr) (use Suc.prems(2) in simp)
    also have "\<dots> = wr m d (0 # replicate n 0)" unfolding byte_store_upd by (rule wr_Cons) (use Suc.prems(2) in simp)
    finally show ?thesis using True by (simp add: rdm_def)
  next
    case False
    let ?k = "strnlen m (s + 1) n"
    have k: "?k \<le> n" by (rule strnlen_le)
    have a: "apart (d + 1) (s + 1) n" using apart_drop [of d s 1 n] Suc.prems(1) by simp
    have r: "rdm ?m (s + 1) ?k = rdm m (s + 1) ?k"
    proof -
      have "?m = wr m d [m s]" by (simp add: wr_Cons [symmetric])
      then show ?thesis using rdm_wr_apart [of d s 1 ?k "[m s]" m] Suc.prems(1) k by (auto intro: apart_le)
    qed
    have "strncpy_loop (byte_store x) m d s (Suc n) = strncpy_loop (byte_store x) ?m (d + 1) (s + 1) n" using False by (simp add: byte_store_upd)
    also have "\<dots> = wr ?m (d + 1) (rdm ?m (s + 1) ?k @ replicate (n - ?k) 0)"
      using Suc.IH [OF a, of ?m] Suc.prems(2) by (simp only: strnlen_wr [OF Suc.prems(1)])
    also have "\<dots> = wr m d (m s # rdm m (s + 1) ?k @ replicate (n - ?k) 0)" unfolding r using Suc.prems(2) k by (intro wr_Cons) simp
    finally show ?thesis using False by (simp add: rdm_Suc)
  qed
qed (simp add: rdm_def)

section \<open>Properties\<close>

lemma wr_pointwise:
  "wr m a (replicate (unat n) c) = (\<lambda>x. if x - a < n then c else m x)"
  "wr m a (rdm m s (unat n)) = (\<lambda>x. if x - a < n then m (s + (x - a)) else m x)"
  by (auto simp: wr_def rdm_def word_less_nat_alt)

text \<open>
  Filling a block, by bytes up to a word boundary, by words and by bytes again, and by words around
  the bytes in the lower memory, sets exactly the bytes of the block, whatever its address and size.
\<close>

theorem memset_fills:
  "memset m dest c (unat n) = (\<lambda>x. if x - dest < n then c else m x)"
  by (simp only: memset_wr u32_less wr_pointwise)

text \<open>
  C38. Copying a block, by eight, four and single words where both addresses are aligned and by bytes
  otherwise, copies exactly the bytes of the source when the two blocks do not overlap.
\<close>

theorem memcpy_copies:
  assumes "\<forall>i < unat n. \<forall>j < unat n. dest + of_nat i \<noteq> src + of_nat j"
  shows "memcpy m dest src (unat n) = (\<lambda>x. if x - dest < n then m (src + (x - dest)) else m x)"
  using memcpy_wr [of dest src "unat n" m] assms by (simp only: apart_def wr_pointwise u32_less)

theorem memcpy_copies_witness:
  "memcpy (\<lambda>x. ucast x) 0x100 0x200 (unat (37 :: u32)) = (\<lambda>x. if x - 0x100 < 37 then ucast (0x200 + (x - 0x100) :: u32) else ucast x)"
proof -
  have "(0x100 :: u32) + of_nat i \<noteq> 0x200 + of_nat j" if "i < 37" "j < 37" for i j
  proof
    assume "(0x100 :: u32) + of_nat i = 0x200 + of_nat j"
    then have "of_nat (0x100 + i) = (of_nat (0x200 + j) :: u32)" by simp
    then have "unat (of_nat (0x100 + i) :: u32) = unat (of_nat (0x200 + j) :: u32)" by (rule arg_cong)
    then have "0x100 + i = 0x200 + j" using that by (subst (asm) (1 2) unat_of_nat_u32) simp_all
    then show False using that by simp
  qed
  then show ?thesis by (intro memcpy_copies) simp
qed

end
