(* ===== verification/Mload.thy ===== *)
theory Mload
  imports Libc Stealth
begin

text \<open>
  The module loader (\<open>mload-module/main.c\<close>, \<open>mload-module/elf.c\<close>): its device gives loaders read and write
  access to the memory of the processor, loads ELF images and starts threads. The memory is explicit,
  because an image is read from it while its segments are written to it. The threads of the kernel
  and the addresses that the linker provides are the parameter \<open>mload_env\<close>; the caches are left out.
  \<open>None\<close> is a loop that does not end or a string without an end.
\<close>

section \<open>The ELF loader\<close>

record 'w mload_env =
  mk_thread_create :: "u32 \<Rightarrow> u32 \<Rightarrow> u32 \<Rightarrow> u32 \<Rightarrow> u32 \<Rightarrow> 'w \<Rightarrow> s32 \<times> 'w"
  mk_thread_continue :: "s32 \<Rightarrow> 'w \<Rightarrow> s32 \<times> 'w"
  mk_thread_stop :: "s32 \<Rightarrow> 'w \<Rightarrow> s32 \<times> 'w"
  mk_ios_info :: bytes
  mk_exe_mem :: u32
  mk_exe_mem_size :: u32
  mk_device_name :: u32

record elfdata =
  elf_start :: u32
  elf_stack :: u32
  elf_prio :: u32
  elf_size_stack :: u32

record elfphentry =
  ph_type :: u32
  ph_offset :: u32
  ph_vaddr :: u32
  ph_filesz :: u32
  ph_memsz :: u32

definition load16 :: "memory \<Rightarrow> u32 \<Rightarrow> u16" where
  "load16 m a = be16 [m a, m (a + 1)]"

definition head_phoff :: "memory \<Rightarrow> u32 \<Rightarrow> u32" where "head_phoff m data = load32 m (data + 28)"
definition head_entry :: "memory \<Rightarrow> u32 \<Rightarrow> u32" where "head_entry m data = load32 m (data + 24)"
definition head_phnum :: "memory \<Rightarrow> u32 \<Rightarrow> nat" where "head_phnum m data = unat (load16 m (data + 44))"

definition head_ok :: "memory \<Rightarrow> u32 \<Rightarrow> bool" where
  "head_ok m data \<longleftrightarrow> load32 m data = 0x7F454C46 \<and> load32 m (data + 4) = 0x01020161 \<and> load32 m (data + 8) = 0x01000000"

definition phentry :: "memory \<Rightarrow> u32 \<Rightarrow> elfphentry" where
  "phentry m a = \<lparr> ph_type = load32 m a, ph_offset = load32 m (a + 4), ph_vaddr = load32 m (a + 8),
     ph_filesz = load32 m (a + 16), ph_memsz = load32 m (a + 20) \<rparr>"

text \<open>The pairs of the note segment set the parameters of the thread.\<close>

definition elf_note :: "u32 \<Rightarrow> u32 \<Rightarrow> elfdata \<Rightarrow> elfdata" where
  "elf_note val1 val2 elf =
     (if val1 = 0x9 then elf\<lparr> elf_start := val2 \<rparr>
      else if val1 = 0x7D then elf\<lparr> elf_prio := val2 \<rparr>
      else if val1 = 0x7E then elf\<lparr> elf_size_stack := val2 \<rparr>
      else if val1 = 0x7F then elf\<lparr> elf_stack := val2 \<rparr>
      else elf)"

partial_function (option) note_loop :: "memory \<Rightarrow> u32 \<Rightarrow> u32 \<Rightarrow> u32 \<Rightarrow> elfdata \<Rightarrow> elfdata option" where
  "note_loop m addr memsz j elf =
     (if j < memsz
      then note_loop m addr memsz (j + 8) (elf_note (load32 m (addr + j)) (load32 m (addr + j + 4)) elf)
      else Some elf)"

definition loadable :: "elfphentry \<Rightarrow> bool" where
  "loadable e \<longleftrightarrow> ph_type e = 1 \<and> ph_memsz e \<noteq> 0 \<and> ph_vaddr e \<noteq> 0"

text \<open>The number of entries is read from the image in every turn. The entry is read before the copy,
  and again from the memory that the clearing of the segment leaves.\<close>

definition load_entry :: "u32 \<Rightarrow> u32 \<Rightarrow> memory \<Rightarrow> memory" where
  "load_entry data pos m =
     (let e = phentry m (data + pos) in
      if loadable e
      then let m1 = memset m (ph_vaddr e) 0 (unat (ph_memsz e)); e1 = phentry m1 (data + pos)
           in memcpy m1 (ph_vaddr e) (data + ph_offset e) (unat (ph_filesz e1))
      else m)"

function elf_loop :: "u32 \<Rightarrow> nat \<Rightarrow> u32 \<Rightarrow> elfdata \<Rightarrow> memory \<Rightarrow> (s32 \<times> elfdata \<times> memory) option" where
  "elf_loop data i pos elf m =
     (if i < head_phnum m data then
        let e = phentry m (data + pos) in
        if ph_type e = 4 \<and> load32 m (data + ph_offset e) \<noteq> 0 then Some (-2, elf, m)
        else do { elf1 \<leftarrow> (if ph_type e = 4 then note_loop m (data + ph_offset e) (ph_memsz e) 4 elf else Some elf);
                  elf_loop data (i + 1) (pos + 32) elf1 (load_entry data pos m) }
      else Some (0, elf, m))"
  by pat_completeness auto
termination
proof (relation "measure (\<lambda>(data, i, pos, elf, m). 65536 - i)")
  show "\<And>data i pos elf m x xa.
       i < head_phnum m data \<Longrightarrow> x = phentry m (data + pos) \<Longrightarrow> \<not> (ph_type x = 4 \<and> load32 m (data + ph_offset x) \<noteq> 0)
       \<Longrightarrow> ((data, i + 1, pos + 32, xa, load_entry data pos m), data, i, pos, elf, m) \<in> measure (\<lambda>(data, i, pos, elf, m). 65536 - i)"
  proof -
    fix data i m
    have "head_phnum m data < 65536" by (simp add: head_phnum_def)
    then show "\<And>pos elf x xa. i < head_phnum m data \<Longrightarrow> x = phentry m (data + pos) \<Longrightarrow> \<not> (ph_type x = 4 \<and> load32 m (data + ph_offset x) \<noteq> 0)
       \<Longrightarrow> ((data, i + 1, pos + 32, xa, load_entry data pos m), data, i, pos, elf, m) \<in> measure (\<lambda>(data, i, pos, elf, m). 65536 - i)"
      by simp
  qed
qed simp

declare elf_loop.simps [simp del]

definition Elf_Load :: "u32 \<Rightarrow> elfdata \<Rightarrow> memory \<Rightarrow> (s32 \<times> elfdata \<times> memory) option" where
  "Elf_Load data elf m =
     (if \<not> head_ok m data then Some (-1, elf, m)
      else elf_loop data 0 (head_phoff m data) (elf\<lparr> elf_start := head_entry m data \<rparr>) m)"

definition Elf_RunThread ::
  "'w mload_env \<Rightarrow> u32 \<Rightarrow> u32 \<Rightarrow> u32 \<Rightarrow> u32 \<Rightarrow> u32 \<Rightarrow> 'w \<Rightarrow> s32 \<times> 'w"
where
  "Elf_RunThread E start arg stack stacksize priority w =
     (let (ret, w1) = mk_thread_create E start arg stack stacksize priority w
      in if ret \<ge> 0 then (ret, snd (mk_thread_continue E ret w1)) else (ret, w1))"

definition Elf_Run :: "'w mload_env \<Rightarrow> elfdata \<Rightarrow> 'w \<Rightarrow> s32 \<times> 'w" where
  "Elf_Run E elf w = Elf_RunThread E (elf_start elf) 0 (elf_stack elf) (elf_size_stack elf) (elf_prio elf) w"

definition Elf_StopThread :: "'w mload_env \<Rightarrow> s32 \<Rightarrow> 'w \<Rightarrow> s32 \<times> 'w" where
  "Elf_StopThread E t w = mk_thread_stop E t w"

definition Elf_ContinueThread :: "'w mload_env \<Rightarrow> s32 \<Rightarrow> 'w \<Rightarrow> s32 \<times> 'w" where
  "Elf_ContinueThread E t w = mk_thread_continue E t w"

section \<open>The device\<close>

record mload_dev =
  ml_offset :: u32
  ml_elf :: elfdata
  ml_gecko :: bool
  ml_stealth :: mload_state
  ml_mem :: memory

text \<open>The text handler: the buffer of the log is compiled out.\<close>

definition Debug_SetMode :: "u8 \<Rightarrow> mload_dev \<Rightarrow> s32 \<times> mload_dev" where
  "Debug_SetMode mode st =
     (if mode = 0 then (0, st\<lparr> ml_gecko := False \<rparr>)
      else if mode = 2 then (0, st\<lparr> ml_gecko := True \<rparr>)
      else (-1, st))"

definition vec_data :: "memory \<Rightarrow> u32 \<Rightarrow> nat \<Rightarrow> u32" where
  "vec_data m v i = load32 m (v + 8 * of_nat i)"

definition vec_u32 :: "memory \<Rightarrow> u32 \<Rightarrow> nat \<Rightarrow> u32" where
  "vec_u32 m v i = load32 m (vec_data m v i)"

definition MLoad_Ioctlv :: "'w mload_env \<Rightarrow> u32 \<Rightarrow> u32 \<Rightarrow> mload_dev \<Rightarrow> 'w \<Rightarrow> (s32 \<times> mload_dev \<times> 'w) option" where
  "MLoad_Ioctlv E cmd v st w =
     (let m = ml_mem st in
      if cmd = 0x4D4C4401 then
        Some (0, st\<lparr> ml_mem := wr m (vec_data m v 0) (mk_ios_info E) \<rparr>, w)
      else if cmd = 0x4D4C4402 then Some (16, st, w)
      else if cmd = 0x4D4C4490 then
        let m1 = store32 m (vec_data m v 0) (mk_exe_mem E)
        in Some (0, st\<lparr> ml_mem := store32 m1 (vec_data m v 1) (mk_exe_mem_size E) \<rparr>, w)
      else if cmd = 0x4D4C4480 then
        do { (ret, elf, m') \<leftarrow> Elf_Load (vec_data m v 0) (ml_elf st) m; Some (ret, st\<lparr> ml_elf := elf, ml_mem := m' \<rparr>, w) }
      else if cmd = 0x4D4C4481 then let (ret, w') = Elf_Run E (ml_elf st) w in Some (ret, st, w')
      else if cmd = 0x4D4C4482 then
        let (ret, w') = Elf_RunThread E (vec_u32 m v 0) 0 (vec_u32 m v 1) (vec_u32 m v 2) (vec_u32 m v 3) w in Some (ret, st, w')
      else if cmd = 0x4D4C4484 then let (ret, w') = Elf_StopThread E (sint (vec_u32 m v 0)) w in Some (ret, st, w')
      else if cmd = 0x4D4C4485 then let (ret, w') = Elf_ContinueThread E (sint (vec_u32 m v 0)) w in Some (ret, st, w')
      else if cmd = 0x4D4C4491 then
        Some (0, st\<lparr> ml_mem := memset m (vec_u32 m v 0) (ucast (vec_u32 m v 1)) (unat (vec_u32 m v 2)) \<rparr>, w)
      else if cmd = 0x4D4C44D0 then let (ret, st') = Debug_SetMode (ucast (vec_u32 m v 0)) st in Some (ret, st', w)
      else if cmd = 0x4D4C44D1 then Some (0, st, w)
      else if cmd = 0x4D4C44E0 then
        Some (0, st\<lparr> ml_stealth := (ml_stealth st)\<lparr> stealth_mode := vec_u32 m v 0 \<rparr> \<rparr>, w)
      else Some (IPC_ENOENT, st, w))"

text \<open>Copies through the software interrupt.\<close>

definition Swi_Memcpy :: "u32 \<Rightarrow> u32 \<Rightarrow> u32 \<Rightarrow> memory \<Rightarrow> memory" where
  "Swi_Memcpy dst src len m = (if sint len \<le> 0 then m else memcpy m dst src (unat len))"

text \<open>A message: the command and the words of the union, which every kind of request reads in its own way.\<close>

record mload_msg =
  mm_command :: u32
  mm_word0 :: u32
  mm_word1 :: u32
  mm_word2 :: u32
  mm_word3 :: u32

definition ms_seek :: "mload_msg \<Rightarrow> mload_dev \<Rightarrow> s32 \<times> mload_dev" where
  "ms_seek msg st =
     (let whence = mm_word1 msg; where = mm_word0 msg;
          off = (if whence = 0 then where else if whence = 1 then ml_offset st + where
                 else if whence = 2 then - where else ml_offset st)
      in (sint off, st\<lparr> ml_offset := off \<rparr>))"

definition ms_write :: "mload_msg \<Rightarrow> mload_dev \<Rightarrow> s32 \<times> mload_dev" where
  "ms_write msg st =
     ms_seek msg (st\<lparr> ml_mem := Swi_Memcpy (ml_offset st) (mm_word0 msg) (mm_word1 msg) (ml_mem st),
                      ml_offset := ml_offset st + mm_word1 msg \<rparr>)"

definition ms_read :: "mload_msg \<Rightarrow> mload_dev \<Rightarrow> s32 \<times> mload_dev" where
  "ms_read msg st =
     ms_write msg (st\<lparr> ml_mem := Swi_Memcpy (mm_word0 msg) (ml_offset st) (mm_word1 msg) (ml_mem st),
                       ml_offset := ml_offset st + mm_word1 msg \<rparr>)"

definition ms_open :: "'w mload_env \<Rightarrow> mload_msg \<Rightarrow> mload_dev \<Rightarrow> s32 option" where
  "ms_open E msg st =
     (if Stealth_CheckRunningTitle (ml_stealth st) then Some IPC_ENOENT
      else do { r \<leftarrow> strcmp (ml_mem st) (mm_word0 msg) (mk_device_name E);
                Some (if r = 0 then sint (mm_word2 msg) else IPC_ENOENT) })"

definition mload_main :: "'w mload_env \<Rightarrow> mload_msg \<Rightarrow> mload_dev \<Rightarrow> 'w \<Rightarrow> (s32 \<times> mload_dev \<times> 'w) option" where
  "mload_main E msg st w =
     (let cmd = mm_command msg in
      if cmd = 1 then map_option (\<lambda>ret. (ret, st, w)) (ms_open E msg st)
      else if cmd = 2 then Some (0, st, w)
      else if cmd = 3 then let (ret, st') = ms_read msg st in Some (ret, st', w)
      else if cmd = 4 then let (ret, st') = ms_write msg st in Some (ret, st', w)
      else if cmd = 5 then let (ret, st') = ms_seek msg st in Some (ret, st', w)
      else if cmd = 7 then MLoad_Ioctlv E (mm_word0 msg) (mm_word3 msg) st w
      else Some (IPC_EINVAL, st, w))"

section \<open>What loading an image means\<close>

text \<open>The entries of the program header, the bytes of a segment, and the parameters in a note segment, all read
  from the image as it was before.\<close>

definition phs :: "memory \<Rightarrow> u32 \<Rightarrow> elfphentry list" where
  "phs m data = map (\<lambda>i. phentry m (data + (head_phoff m data + 32 * of_nat i))) [0..<head_phnum m data]"

definition seg_image :: "memory \<Rightarrow> u32 \<Rightarrow> elfphentry \<Rightarrow> bytes" where
  "seg_image m data e = rdm m (data + ph_offset e) (unat (ph_filesz e)) @ replicate (unat (ph_memsz e) - unat (ph_filesz e)) 0"

definition place :: "memory \<Rightarrow> u32 \<Rightarrow> elfphentry \<Rightarrow> memory \<Rightarrow> memory" where
  "place m data e m' = (if loadable e then wr m' (ph_vaddr e) (seg_image m data e) else m')"

definition note_params :: "memory \<Rightarrow> u32 \<Rightarrow> nat \<Rightarrow> nat \<Rightarrow> elfdata \<Rightarrow> elfdata" where
  "note_params m addr j n elf = fold (\<lambda>k. elf_note (load32 m (addr + of_nat (j + 8 * k))) (load32 m (addr + of_nat (j + 8 * k + 4)))) [0..<n] elf"

definition thread_params :: "memory \<Rightarrow> u32 \<Rightarrow> elfphentry \<Rightarrow> elfdata \<Rightarrow> elfdata" where
  "thread_params m data e elf =
     (if ph_type e = 4 then note_params m (data + ph_offset e) 4 ((unat (ph_memsz e) + 3) div 8) elf else elf)"

text \<open>An image of \<open>L\<close> bytes: header, entries, segments and notes lie inside, and no segment is loaded over it.\<close>

definition entry_ok :: "memory \<Rightarrow> u32 \<Rightarrow> u32 \<Rightarrow> elfphentry \<Rightarrow> bool" where
  "entry_ok m data L e \<longleftrightarrow>
     (loadable e \<longrightarrow> ph_filesz e \<le> ph_memsz e \<and> unat (ph_offset e) + unat (ph_filesz e) \<le> unat L
        \<and> (\<forall>x. x - ph_vaddr e < ph_memsz e \<longrightarrow> \<not> x - data < L))
     \<and> (ph_type e = 4 \<longrightarrow> load32 m (data + ph_offset e) = 0 \<and> unat (ph_offset e) + unat (ph_memsz e) + 8 \<le> unat L)"

definition elf_image :: "memory \<Rightarrow> u32 \<Rightarrow> u32 \<Rightarrow> bool" where
  "elf_image m data L \<longleftrightarrow> head_ok m data \<and> 52 \<le> unat L \<and> unat (head_phoff m data) + 32 * head_phnum m data \<le> unat L
     \<and> (\<forall>e \<in> set (phs m data). entry_ok m data L e)"

definition agree :: "memory \<Rightarrow> memory \<Rightarrow> u32 \<Rightarrow> u32 \<Rightarrow> bool" where
  "agree m m' data L \<longleftrightarrow> (\<forall>x. x - data < L \<longrightarrow> m' x = m x)"

lemma unat_off: "unat off + k < 4294967296 \<Longrightarrow> unat (off + of_nat k :: u32) = unat off + k"
  by (simp add: unat_word_ariths unat_of_nat mod_add_right_eq)

lemma agree_at:
  assumes "agree m m' data L" and "unat off + k < unat L"
  shows "m' (data + (off + of_nat k)) = m (data + (off + of_nat k))"
proof -
  have "unat (off + of_nat k) = unat off + k" by (rule unat_off) (use assms(2) u32_less [of L] in linarith)
  then show ?thesis using assms by (simp add: agree_def word_less_nat_alt)
qed

lemma load_agree:
  assumes "agree m m' data L"
  shows "unat off + 4 \<le> unat L \<Longrightarrow> load32 m' (data + off) = load32 m (data + off)"
    and "unat off + 2 \<le> unat L \<Longrightarrow> load16 m' (data + off) = load16 m (data + off)"
  using agree_at [OF assms, of off 0] agree_at [OF assms, of off 1] agree_at [OF assms, of off 2] agree_at [OF assms, of off 3]
  by (simp_all add: load32_def load16_def add.assoc)

lemma rdm_agree:
  assumes "agree m m' data L" and "unat off + n \<le> unat L"
  shows "rdm m' (data + off) n = rdm m (data + off) n"
  using assms(2) agree_at [OF assms(1), of off] by (auto simp: rdm_def add.assoc)

lemma phentry_agree:
  assumes "agree m m' data L" and "unat off + 24 \<le> unat L"
  shows "phentry m' (data + off) = phentry m (data + off)"
proof -
  have "load32 m' (data + (off + of_nat k)) = load32 m (data + (off + of_nat k))" if "k \<le> 20" for k
  proof (rule load_agree(1) [OF assms(1)])
    have "unat (off + of_nat k) = unat off + k" by (rule unat_off) (use assms(2) that u32_less [of L] in linarith)
    then show "unat (off + of_nat k) + 4 \<le> unat L" using assms(2) that by simp
  qed
  from this [of 0] this [of 4] this [of 8] this [of 16] this [of 20] show ?thesis by (simp add: phentry_def add.assoc)
qed

lemma agree_wr:
  assumes "agree m m' data L" and "\<forall>x. unat (x - d) < length bs \<longrightarrow> \<not> x - data < L"
  shows "agree m (wr m' d bs) data L"
  using assms by (auto simp: agree_def wr_def)

lemma wr_over: "length bs \<le> n \<Longrightarrow> wr (wr m d (replicate n 0)) d bs = wr m d (bs @ replicate (n - length bs) 0)"
  by (auto simp: wr_def nth_append)

lemma note_loop_params:
  assumes "memsz \<le> 0xFFFFFFF7"
  shows "j + 8 * n < unat memsz + 8 \<Longrightarrow> unat memsz \<le> j + 8 * n
    \<Longrightarrow> note_loop m addr memsz (of_nat j) elf = Some (note_params m addr j n elf)"
proof (induction n arbitrary: j elf)
  case 0
  have "unat memsz \<le> 0xFFFFFFF7" using assms by (simp add: word_le_nat_alt)
  then have "unat (of_nat j :: u32) = j" using 0 by (intro unat_of_nat_u32) simp
  then show ?case using 0 by (subst note_loop.simps) (simp add: word_less_nat_alt note_params_def)
next
  case (Suc n)
  have b: "unat memsz \<le> 0xFFFFFFF7" using assms by (simp add: word_le_nat_alt)
  then have j: "unat (of_nat j :: u32) = j" using Suc.prems by (intro unat_of_nat_u32) simp
  let ?elf = "elf_note (load32 m (addr + of_nat j)) (load32 m (addr + of_nat (j + 4))) elf"
  have "note_loop m addr memsz (of_nat j) elf = note_loop m addr memsz (of_nat (j + 8)) ?elf"
    using j Suc.prems by (subst note_loop.simps) (simp add: word_less_nat_alt add.assoc)
  also have "\<dots> = Some (note_params m addr (j + 8) n ?elf)" by (rule Suc.IH) (use Suc.prems in simp_all)
  also have "note_params m addr (j + 8) n ?elf = note_params m addr j (Suc n) elf"
  proof -
    have "[0..<Suc n] = 0 # map Suc [0..<n]" by (simp add: map_Suc_upt upt_conv_Cons del: upt_Suc)
    then show ?thesis by (simp add: note_params_def fold_map comp_def algebra_simps del: upt_Suc)
  qed
  finally show ?case .
qed

lemma note_params_agree:
  assumes "agree m m' data L" and "unat off + j + 8 * n \<le> unat L"
  shows "note_params m' (data + off) j n elf = note_params m (data + off) j n elf"
  unfolding note_params_def
proof (rule fold_cong [OF refl refl])
  fix k assume "k \<in> set [0..<n]"
  then have k: "k < n" by simp
  have "load32 m' (data + (off + of_nat i)) = load32 m (data + (off + of_nat i))" if "i + 4 \<le> j + 8 * n" for i
  proof (rule load_agree(1) [OF assms(1)])
    have "unat (off + of_nat i) = unat off + i" by (rule unat_off) (use that assms(2) u32_less [of L] in linarith)
    then show "unat (off + of_nat i) + 4 \<le> unat L" using that assms(2) by simp
  qed
  then have "load32 m' (data + off + of_nat i) = load32 m (data + off + of_nat i)" if "i + 4 \<le> j + 8 * n" for i
    using that by (simp add: add.assoc)
  then show "elf_note (load32 m' (data + off + of_nat (j + 8 * k))) (load32 m' (data + off + of_nat (j + 8 * k + 4)))
      = elf_note (load32 m (data + off + of_nat (j + 8 * k))) (load32 m (data + off + of_nat (j + 8 * k + 4)))"
    using k by (simp del: of_nat_add)
qed

text \<open>Loading one entry from a memory that still holds the image.\<close>

lemma load_entry_place:
  assumes "agree m m' data L" and "unat pos + 24 \<le> unat L" and "e = phentry m (data + pos)" and "entry_ok m data L e"
  shows "load_entry data pos m' = place m data e m' \<and> agree m (load_entry data pos m') data L"
proof (cases "loadable e")
  case False
  then show ?thesis using assms phentry_agree [OF assms(1,2)] by (simp add: load_entry_def place_def)
next
  case True
  let ?d = "ph_vaddr e" and ?s = "data + ph_offset e" and ?n = "unat (ph_filesz e)" and ?k = "unat (ph_memsz e)"
  let ?m1 = "wr m' ?d (replicate ?k 0)"
  have o: "?n \<le> ?k" "unat (ph_offset e) + ?n \<le> unat L" "\<And>x. x - ?d < ph_memsz e \<Longrightarrow> \<not> x - data < L"
    using assms(4) True by (auto simp: entry_ok_def word_le_nat_alt)
  have e': "phentry m' (data + pos) = e" using phentry_agree [OF assms(1,2)] assms(3) by simp
  have ag: "agree m ?m1 data L" by (rule agree_wr [OF assms(1)]) (use o(3) in \<open>simp add: word_less_nat_alt\<close>)
  have e1: "phentry ?m1 (data + pos) = e" using phentry_agree [OF ag assms(2)] assms(3) by simp
  have ms: "memset m' ?d 0 ?k = ?m1" by (rule memset_wr) simp
  have ap: "apart ?d ?s ?n"
    unfolding apart_def
  proof (intro allI impI)
    fix i j assume i: "i < ?n" and j: "j < ?n"
    have "unat (of_nat i :: u32) = i" using i u32_less [of "ph_filesz e"] by (intro unat_of_nat_u32) linarith
    then have "\<not> ?d + of_nat i - data < L" using o(1,3) i by (simp add: word_less_nat_alt)
    moreover have "unat (ph_offset e + of_nat j) = unat (ph_offset e) + j"
      by (rule unat_off) (use o(2) j u32_less [of L] in linarith)
    then have "?s + of_nat j - data < L" using o(2) j by (simp add: word_less_nat_alt add.assoc)
    ultimately show "?d + of_nat i \<noteq> ?s + of_nat j" by metis
  qed
  have "load_entry data pos m' = memcpy ?m1 ?d ?s ?n" using True by (simp add: load_entry_def e' ms e1)
  also have "\<dots> = wr ?m1 ?d (rdm ?m1 ?s ?n)" by (rule memcpy_wr [OF ap]) simp
  also have "rdm ?m1 ?s ?n = rdm m ?s ?n" by (rule rdm_agree [OF ag o(2)])
  also have "wr ?m1 ?d (rdm m ?s ?n) = wr m' ?d (seg_image m data e)" using o(1) by (simp add: wr_over seg_image_def)
  finally have p: "load_entry data pos m' = wr m' ?d (seg_image m data e)" .
  have "agree m (wr m' ?d (seg_image m data e)) data L"
    by (rule agree_wr [OF assms(1)]) (use o(1,3) in \<open>simp add: seg_image_def word_less_nat_alt\<close>)
  then show ?thesis using p True by (simp add: place_def)
qed

lemma nth_phs: "i < head_phnum m data \<Longrightarrow> phs m data ! i = phentry m (data + (head_phoff m data + 32 * of_nat i))"
  by (simp add: phs_def)

lemma elf_loop_places:
  assumes "elf_image m data L" and "agree m m' data L" and "i \<le> head_phnum m data"
  shows "elf_loop data i (head_phoff m data + 32 * of_nat i) elf m'
    = Some (0, fold (thread_params m data) (drop i (phs m data)) elf, fold (place m data) (drop i (phs m data)) m')"
  using assms(2,3)
proof (induction "head_phnum m data - i" arbitrary: i elf m')
  case 0
  have "load16 m' (data + 44) = load16 m (data + 44)"
    by (rule load_agree(2) [OF "0.prems"(1)]) (use assms(1) in \<open>simp add: elf_image_def\<close>)
  then show ?case using 0 by (subst elf_loop.simps) (simp add: head_phnum_def phs_def)
next
  case (Suc n)
  let ?pos = "head_phoff m data + 32 * of_nat i"
  let ?e = "phentry m (data + ?pos)"
  have i: "i < head_phnum m data" using Suc.hyps(2) by simp
  have L: "52 \<le> unat L" "unat (head_phoff m data) + 32 * head_phnum m data \<le> unat L" using assms(1) by (simp_all add: elf_image_def)
  have pn: "head_phnum m' data = head_phnum m data"
    using load_agree(2) [OF Suc.prems(1), of 44] L(1) by (simp add: head_phnum_def)
  have "unat (head_phoff m data + of_nat (32 * i)) = unat (head_phoff m data) + 32 * i"
    by (rule unat_off) (use L(2) i u32_less [of L] in linarith)
  then have pos: "unat ?pos + 24 \<le> unat L" using L(2) i by simp
  have ok: "entry_ok m data L ?e" using assms(1) i nth_phs [OF i] nth_mem [of i "phs m data"] by (simp add: elf_image_def phs_def)
  have e': "phentry m' (data + ?pos) = ?e" by (rule phentry_agree [OF Suc.prems(1) pos])
  note le = load_entry_place [OF Suc.prems(1) pos refl ok]
  have d: "drop i (phs m data) = ?e # drop (Suc i) (phs m data)"
    using i nth_phs [OF i] by (simp add: Cons_nth_drop_Suc [symmetric] phs_def del: upt_Suc)
  have next4: "ph_type ?e = 4 \<Longrightarrow> load32 m' (data + ph_offset ?e) = 0 \<and>
      note_loop m' (data + ph_offset ?e) (ph_memsz ?e) 4 elf = Some (thread_params m data ?e elf)"
  proof -
    assume t: "ph_type ?e = 4"
    let ?o = "ph_offset ?e" and ?s = "ph_memsz ?e"
    have b: "load32 m (data + ?o) = 0" "unat ?o + unat ?s + 8 \<le> unat L" using ok t by (simp_all add: entry_ok_def)
    have z: "load32 m' (data + ?o) = 0" using load_agree(1) [OF Suc.prems(1), of ?o] b by simp
    have "unat ?s \<le> 0xFFFFFFF7" using b(2) u32_less [of L] by linarith
    then have s: "?s \<le> 0xFFFFFFF7" by (simp add: word_le_nat_alt)
    have "note_loop m' (data + ?o) ?s (of_nat 4) elf = Some (note_params m' (data + ?o) 4 ((unat ?s + 3) div 8) elf)"
      by (rule note_loop_params [OF s]) linarith+
    also have "note_params m' (data + ?o) 4 ((unat ?s + 3) div 8) elf = note_params m (data + ?o) 4 ((unat ?s + 3) div 8) elf"
      by (rule note_params_agree [OF Suc.prems(1)]) (use b(2) in linarith)
    finally show ?thesis using z t by (simp add: thread_params_def)
  qed
  have p: "?pos + 32 = head_phoff m data + 32 * of_nat (Suc i)" by (simp add: algebra_simps)
  have step: "elf_loop data i ?pos elf m' = elf_loop data (Suc i) (?pos + 32) (thread_params m data ?e elf)
      (load_entry data ?pos m')"
  proof (cases "ph_type ?e = 4")
    case True
    then show ?thesis using i next4 by (subst elf_loop.simps) (simp add: pn e')
  next
    case False
    then have "thread_params m data ?e elf = elf" by (simp add: thread_params_def)
    then show ?thesis using i False by (subst elf_loop.simps) (simp add: pn e')
  qed
  have n: "n = head_phnum m data - Suc i" "Suc i \<le> head_phnum m data" using Suc.hyps(2) i by simp_all
  have pl: "load_entry data ?pos m' = place m data ?e m'" using le by (rule conjunct1)
  note step
  also note p
  also note Suc.hyps(1) [OF n(1) conjunct2 [OF le] n(2)]
  finally show ?case by (simp only: d pl fold_simps)
qed

text \<open>
  C37. Loading an ELF image puts every loadable segment, its bytes followed by zeros, at its address in the
  order of the program header and changes nothing else; the thread parameters are those of the header and of
  the note segments. The image may lie anywhere in memory where no segment is loaded over it.
\<close>

theorem elf_load_places:
  assumes "elf_image m data L"
  shows "Elf_Load data elf m = Some (0, fold (thread_params m data) (phs m data) (elf\<lparr> elf_start := head_entry m data \<rparr>),
    fold (place m data) (phs m data) m)"
proof -
  have "agree m m data L" by (simp add: agree_def)
  then show ?thesis using elf_loop_places [OF assms, of m 0] assms by (simp add: Elf_Load_def elf_image_def)
qed

text \<open>An image of one segment: four bytes to 0x2000, followed by four zeros.\<close>

definition demo_image :: bytes where
  "demo_image = put_be32 0x7F454C46 @ put_be32 0x01020161 @ put_be32 0x01000000 @ put_be32 0 @ put_be32 0 @ put_be32 0
     @ put_be32 0x2000 @ put_be32 52 @ put_be32 0 @ put_be32 0 @ put_be16 52 @ put_be16 32 @ put_be16 1 @ put_be16 0 @ put_be16 0 @ put_be16 0
     @ put_be32 1 @ put_be32 84 @ put_be32 0x2000 @ put_be32 0 @ put_be32 4 @ put_be32 8 @ put_be32 0 @ put_be32 0 @ [1, 2, 3, 4]"

definition demo_mem :: memory where
  "demo_mem = wr (\<lambda>x. 0xAA) 0x1000 demo_image"

lemma demo_fields:
  "head_ok demo_mem 0x1000" "head_phoff demo_mem 0x1000 = 52" "head_phnum demo_mem 0x1000 = 1" "head_entry demo_mem 0x1000 = 0x2000"
  "phentry demo_mem 0x1034 = \<lparr> ph_type = 1, ph_offset = 84, ph_vaddr = 0x2000, ph_filesz = 4, ph_memsz = 8 \<rparr>"
  "rdm demo_mem 0x1054 4 = [1, 2, 3, 4]"
  by (simp_all add: head_ok_def head_phoff_def head_phnum_def head_entry_def phentry_def load32_def load16_def demo_mem_def wr_def
      demo_image_def put_be32_def put_be16_def be32_def be16_def rdm_def upt_rec)

definition demo_elf :: elfdata where
  "demo_elf = \<lparr> elf_start = 0, elf_stack = 0, elf_prio = 0, elf_size_stack = 0 \<rparr>"

theorem elf_load_places_witness:
  "\<exists>elf' m'. Elf_Load 0x1000 demo_elf demo_mem = Some (0, elf', m') \<and> elf_start elf' = 0x2000
    \<and> rdm m' 0x2000 8 = [1, 2, 3, 4, 0, 0, 0, 0]"
proof -
  let ?e = "\<lparr> ph_type = 1, ph_offset = 84, ph_vaddr = 0x2000, ph_filesz = 4, ph_memsz = 8 \<rparr>"
  have ps: "phs demo_mem 0x1000 = [?e]" using demo_fields by (simp add: phs_def)
  have away: "\<not> x - 0x1000 < 88" if "x - 0x2000 < 8" for x :: u32
  proof -
    have "unat (x - 0x2000) < 8" using that by (simp add: word_less_nat_alt)
    then have "unat (x - 0x2000 + 0x1000) = unat (x - 0x2000) + 0x1000" by (subst unat_u32_add) simp_all
    moreover have "x - 0x2000 + 0x1000 = x - 0x1000" by simp
    ultimately show ?thesis by (simp add: word_less_nat_alt)
  qed
  have i: "elf_image demo_mem 0x1000 88"
    using demo_fields ps away by (simp add: elf_image_def entry_ok_def loadable_def)
  have z: "replicate 4 (0 :: u8) = [0, 0, 0, 0]" by (simp add: numeral_eq_Suc)
  have si: "seg_image demo_mem 0x1000 ?e = [1, 2, 3, 4, 0, 0, 0, 0]" using demo_fields(6) by (simp add: seg_image_def z)
  have "rdm (wr demo_mem 0x2000 [1, 2, 3, 4, 0, 0, 0, 0]) 0x2000 8 = [1, 2, 3, 4, 0, 0, 0, 0]"
    by (simp add: rdm_def wr_def upt_rec)
  then show ?thesis using elf_load_places [OF i, of demo_elf] ps si demo_fields(4)
    by (simp add: place_def loadable_def thread_params_def)
qed

lemma rdm_wr_same: "length bs < 4294967296 \<Longrightarrow> rdm (wr m d bs) d (length bs) = bs"
  by (rule nth_equalityI) (simp_all add: rdm_def wr_def unat_of_nat_u32)

text \<open>
  A read request of the device also writes: the cases of the message fall through, so that reading n
  bytes copies them over the n bytes that follow in memory, and moves the position by twice
  their number.
\<close>

theorem read_overwrites_memory:
  assumes "mm_command msg = 3" and "n = mm_word1 msg" and "b = mm_word0 msg" and "pos = ml_offset st"
    and "3 \<le> n" and "n < 0x80000000"
    and "\<forall>i < unat n. \<forall>j < unat n. b + of_nat i \<noteq> pos + of_nat j \<and> pos + n + of_nat i \<noteq> b + of_nat j"
  shows "\<exists>ret st'. mload_main E msg st w = Some (ret, st', w) \<and> ml_offset st' = pos + n + n
    \<and> rdm (ml_mem st') (pos + n) (unat n) = rdm (ml_mem st) pos (unat n)"
proof -
  let ?m = "ml_mem st" and ?k = "unat n"
  let ?m1 = "wr ?m b (rdm ?m pos ?k)"
  have ap: "apart b pos ?k" "apart (pos + n) b ?k" using assms(7) by (simp_all add: apart_def)
  have n3: "n \<noteq> 0" "n \<noteq> 1" "n \<noteq> 2" using assms(5) by (auto simp: word_le_nat_alt)
  have "sint n = uint n"
  proof -
    have "uint n < 2 ^ 31" using assms(6) by (simp add: word_less_def)
    then have "signed_take_bit 31 (uint n) = uint n" by (intro signed_take_bit_int_eq_self order_trans [OF _ unsigned_greater_eq]) simp_all
    then show ?thesis by (simp add: sint_uint)
  qed
  moreover have "uint n \<noteq> 0" using n3(1) by (simp only: unsigned_eq_0_iff) simp
  moreover have "0 \<le> uint n" by simp
  ultimately have s: "\<not> sint n \<le> 0" by linarith
  have m1: "Swi_Memcpy b pos n ?m = ?m1" using s by (simp add: Swi_Memcpy_def memcpy_wr [OF ap(1)])
  have "Swi_Memcpy (pos + n) b n ?m1 = wr ?m1 (pos + n) (rdm ?m1 b ?k)" using s by (simp add: Swi_Memcpy_def memcpy_wr [OF ap(2)])
  moreover have "rdm ?m1 b ?k = rdm ?m pos ?k" using rdm_wr_same [of "rdm ?m pos ?k" ?m b] by simp
  ultimately have m2: "Swi_Memcpy (pos + n) b n ?m1 = wr ?m1 (pos + n) (rdm ?m pos ?k)" by simp
  have "rdm (wr ?m1 (pos + n) (rdm ?m pos ?k)) (pos + n) ?k = rdm ?m pos ?k"
    using rdm_wr_same [of "rdm ?m pos ?k" ?m1 "pos + n"] by simp
  then show ?thesis using assms(1-4) m1 m2 n3
    by (simp add: mload_main_def ms_read_def ms_write_def ms_seek_def Let_def)
qed

definition demo_msg :: mload_msg where
  "demo_msg = \<lparr> mm_command = 3, mm_word0 = 0x4000, mm_word1 = 4, mm_word2 = 0, mm_word3 = 0 \<rparr>"

definition demo_dev :: mload_dev where
  "demo_dev = \<lparr> ml_offset = 0x1054, ml_elf = demo_elf, ml_gecko = False,
     ml_stealth = mload_zero, ml_mem = demo_mem \<rparr>"

definition demo_mload :: "unit mload_env" where
  "demo_mload = \<lparr> mk_thread_create = (\<lambda>a b c d e w. (1, w)), mk_thread_continue = (\<lambda>t w. (0, w)),
     mk_thread_stop = (\<lambda>t w. (0, w)), mk_ios_info = [], mk_exe_mem = 0x13700000, mk_exe_mem_size = 0x80000, mk_device_name = 0x3000 \<rparr>"

theorem read_overwrites_memory_witness:
  "\<exists>ret st'. mload_main demo_mload demo_msg demo_dev () = Some (ret, st', ()) \<and> rdm (ml_mem st') 0x1058 4 = [1, 2, 3, 4]"
proof -
  have ne: "x + of_nat i \<noteq> y + of_nat j" if "i < 4" "j < 4" "unat x + 4 \<le> unat y" "unat y < 0x10000" for x y :: u32 and i j
  proof
    assume "x + of_nat i = y + of_nat j"
    then have "unat (x + of_nat i) = unat (y + of_nat j)" by (rule arg_cong)
    then have "unat x + i = unat y + j" using that by (subst (asm) (1 2) unat_off) simp_all
    then show False using that by simp
  qed
  have ap: "\<forall>i < unat (4 :: u32). \<forall>j < unat (4 :: u32). (0x4000 :: u32) + of_nat i \<noteq> 0x1054 + of_nat j \<and> (0x1054 :: u32) + 4 + of_nat i \<noteq> 0x4000 + of_nat j"
  proof (intro allI impI)
    fix i j assume "i < unat (4 :: u32)" "j < unat (4 :: u32)"
    then have ij: "i < 4" "j < 4" by simp_all
    have "(0x4000 :: u32) + of_nat i \<noteq> 0x1054 + of_nat j" by (rule not_sym, rule ne) (use ij in simp_all)
    moreover have "(0x1054 :: u32) + 4 + of_nat i \<noteq> 0x4000 + of_nat j" by (rule ne) (use ij in simp_all)
    ultimately show "(0x4000 :: u32) + of_nat i \<noteq> 0x1054 + of_nat j \<and> (0x1054 :: u32) + 4 + of_nat i \<noteq> 0x4000 + of_nat j" by (rule conjI)
  qed
  have "\<exists>ret st'. mload_main demo_mload demo_msg demo_dev () = Some (ret, st', ()) \<and> ml_offset st' = 0x1054 + 4 + 4
      \<and> rdm (ml_mem st') (0x1054 + 4) (unat (4 :: u32)) = rdm (ml_mem demo_dev) 0x1054 (unat (4 :: u32))"
    by (rule read_overwrites_memory [OF _ _ _ _ _ _ ap]) (simp_all add: demo_msg_def demo_dev_def)
  moreover have "rdm (ml_mem demo_dev) 0x1054 4 = [1, 2, 3, 4]" using demo_fields(6) by (simp add: demo_dev_def)
  ultimately show ?thesis by auto
qed

end
