(* ===== verification/Isfs.thy ===== *)
theory Isfs
  imports Dip_Config Ffs_Plugin
begin

text \<open>
  The client of the file system module (\<open>cios-lib/isfs.c\<close>), which the plugins share: it keeps one
  descriptor of \<open>/dev/fs\<close> and one static buffer, a union of the messages. The calls of the kernel are the
  parameter \<open>os_calls\<close>; a vector request carries its buffers. The buffer is kept as its bytes, so the parts a
  call does not write keep what an earlier message left there; its address, which the vectors hold, is
  \<open>oc_isfsBuf\<close>. \<open>isfs_files\<close> gives the interface \<open>files\<close> of the saved states on it, and the messages are
  those that the file system plugin (\<open>Ffs_Plugin\<close>) reads.
\<close>

section \<open>State\<close>

record 'w os_calls =
  oc_open :: "cstring \<Rightarrow> u32 \<Rightarrow> 'w \<Rightarrow> s32 \<times> 'w"
  oc_close :: "s32 \<Rightarrow> 'w \<Rightarrow> 'w"
  oc_read :: "s32 \<Rightarrow> nat \<Rightarrow> 'w \<Rightarrow> (s32 \<times> bytes) \<times> 'w"
  oc_write :: "s32 \<Rightarrow> bytes \<Rightarrow> 'w \<Rightarrow> s32 \<times> 'w"
  oc_ioctl :: "s32 \<Rightarrow> u32 \<Rightarrow> bytes \<Rightarrow> bytes \<Rightarrow> 'w \<Rightarrow> (s32 \<times> bytes) \<times> 'w"
  oc_ioctlv :: "s32 \<Rightarrow> u32 \<Rightarrow> nat \<Rightarrow> nat \<Rightarrow> bytes list \<Rightarrow> 'w \<Rightarrow> (s32 \<times> bytes list) \<times> 'w"
  oc_isfsBuf :: u32

abbreviation (input) sizeof_isfs :: nat where "sizeof_isfs \<equiv> 192"
abbreviation (input) off_union :: nat where "off_union \<equiv> 64"
abbreviation (input) off_config_mode :: nat where "off_config_mode \<equiv> 96"
abbreviation (input) off_config_path :: nat where "off_config_path \<equiv> 128"
abbreviation (input) sizeof_fsattr :: nat where "sizeof_fsattr \<equiv> 76"

record isfs_state =
  isfs_fd :: s32
  isfsBuf :: bytes

definition isfs_zero :: isfs_state where
  "isfs_zero = \<lparr> isfs_fd = -1, isfsBuf = replicate sizeof_isfs 0 \<rparr>"

section \<open>Operations\<close>

definition ISFS_Open :: "'w os_calls \<Rightarrow> isfs_state \<times> 'w \<Rightarrow> s32 \<times> isfs_state \<times> 'w" where
  "ISFS_Open K d =
     (case d of (s, w) \<Rightarrow>
        if isfs_fd s \<ge> 0 then (0, s, w)
        else let (fd, w') = oc_open K ''/dev/fs'' 0 w
             in (if fd < 0 then fd else 0, s\<lparr> isfs_fd := fd \<rparr>, w'))"

definition ISFS_Close :: "'w os_calls \<Rightarrow> isfs_state \<times> 'w \<Rightarrow> isfs_state \<times> 'w" where
  "ISFS_Close K d =
     (case d of (s, w) \<Rightarrow> (s\<lparr> isfs_fd := -1 \<rparr>, if isfs_fd s \<ge> 0 then oc_close K (isfs_fd s) w else w))"

text \<open>\<open>strcpy\<close> into the buffer; the callers' paths are literals of at most 63 characters.\<close>

definition isfs_put :: "nat \<Rightarrow> bytes \<Rightarrow> isfs_state \<Rightarrow> isfs_state" where
  "isfs_put off bs s = s\<lparr> isfsBuf := blit (isfsBuf s) off bs \<rparr>"

definition isfs_get :: "nat \<Rightarrow> nat \<Rightarrow> isfs_state \<Rightarrow> bytes" where
  "isfs_get off n s = take n (drop off (isfsBuf s))"

definition create_message :: "cstring \<Rightarrow> isfs_state \<Rightarrow> isfs_state" where
  "create_message filename s =
     isfs_put (off_union + 70) [ISFS_OPEN_RW, ISFS_OPEN_RW, ISFS_OPEN_RW]
      (isfs_put (off_union + 4) [0, 0]
        (isfs_put off_union [0, 0, 0, 0]
          (isfs_put (off_union + 6) (cbytes filename) s)))"

definition ISFS_CreateFile :: "'w os_calls \<Rightarrow> cstring \<Rightarrow> isfs_state \<times> 'w \<Rightarrow> s32 \<times> isfs_state \<times> 'w" where
  "ISFS_CreateFile K filename d =
     (case d of (s, w) \<Rightarrow>
        if isfs_fd s < 0 then (IPC_ENOENT, s, w)
        else let s1 = create_message filename s;
                 ((ret, out), w1) = oc_ioctl K (isfs_fd s) 9 (isfs_get off_union sizeof_fsattr s1) [] w
             in (ret, s1, w1))"

definition delete_message :: "cstring \<Rightarrow> isfs_state \<Rightarrow> isfs_state" where
  "delete_message filename s = isfs_put off_union (cbytes filename) s"

definition ISFS_Delete :: "'w os_calls \<Rightarrow> cstring \<Rightarrow> isfs_state \<times> 'w \<Rightarrow> s32 \<times> isfs_state \<times> 'w" where
  "ISFS_Delete K filename d =
     (case d of (s, w) \<Rightarrow>
        if isfs_fd s < 0 then (IPC_ENOENT, s, w)
        else let s1 = delete_message filename s;
                 ((ret, out), w1) = oc_ioctl K (isfs_fd s) 7 (isfs_get off_union ISFS_MAXPATH s1) [] w
             in (ret, s1, w1))"

definition config_vector :: "u32 \<Rightarrow> isfs_state \<Rightarrow> isfs_state" where
  "config_vector a s = isfs_put off_union
     (put_be32 (a + of_nat off_config_mode) @ put_be32 4 @ put_be32 (a + of_nat off_config_path) @ put_be32 (of_nat ISFS_MAXPATH)) s"

definition config_bufs :: "isfs_state \<Rightarrow> bytes list" where
  "config_bufs s = [isfs_get off_config_mode 4 s, isfs_get off_config_path ISFS_MAXPATH s]"

definition config_back :: "bytes list \<Rightarrow> isfs_state \<Rightarrow> isfs_state" where
  "config_back vec s = (case vec of [m, p] \<Rightarrow> isfs_put off_config_path p (isfs_put off_config_mode m s) | _ \<Rightarrow> s)"

definition setmode_message :: "u32 \<Rightarrow> u32 \<Rightarrow> cstring \<Rightarrow> isfs_state \<Rightarrow> isfs_state" where
  "setmode_message a mode path s =
     config_vector a (isfs_put off_config_path (cbytes path) (isfs_put off_config_mode (put_be32 mode) s))"

definition ISFS_SetMode ::
  "'w os_calls \<Rightarrow> u32 \<Rightarrow> cstring \<Rightarrow> isfs_state \<times> 'w \<Rightarrow> s32 \<times> isfs_state \<times> 'w"
where
  "ISFS_SetMode K mode path d =
     (case ISFS_Open K d of (r, s, w) \<Rightarrow>
        if r < 0 then (r, s, w)
        else let s1 = setmode_message (oc_isfsBuf K) mode path s;
                 ((ret, vec), w1) = oc_ioctlv K (isfs_fd s1) 100 2 0 (config_bufs s1) w
             in (ret, ISFS_Close K (config_back vec s1, w1)))"

text \<open>The outer \<open>None\<close>: the path that came back has no terminator inside the buffer.\<close>

definition ISFS_GetMode ::
  "'w os_calls \<Rightarrow> isfs_state \<times> 'w \<Rightarrow> (s32 \<times> (u32 \<times> cstring) option \<times> isfs_state \<times> 'w) option"
where
  "ISFS_GetMode K d =
     (case ISFS_Open K d of (r, s, w) \<Rightarrow>
        if r < 0 then Some (r, None, s, w)
        else let s1 = config_vector (oc_isfsBuf K) s;
                 ((ret, vec), w1) = oc_ioctlv K (isfs_fd s1) 101 0 2 (config_bufs s1) w;
                 s2 = config_back vec s1
             in if ret \<ge> 0
                then do { path \<leftarrow> cstr (isfsBuf s2) off_config_path;
                          mode \<leftarrow> rd32 (isfsBuf s2) off_config_mode;
                          Some (ret, Some (mode, path), ISFS_Close K (s2, w1)) }
                else Some (ret, None, ISFS_Close K (s2, w1)))"

text \<open>The interface of the saved states (\<open>Dip_Config\<close>) on these calls.\<close>

definition isfs_files :: "'w os_calls \<Rightarrow> (isfs_state \<times> 'w) files" where
  "isfs_files K = \<lparr>
     fl_open = (\<lambda>n m (s, w). let (fd, w') = oc_open K n (of_nat m) w in (fd, s, w')),
     fl_read = (\<lambda>fd k (s, w). let (r, w') = oc_read K fd k w in (r, s, w')),
     fl_write = (\<lambda>fd bs (s, w). let (r, w') = oc_write K fd bs w in (r, s, w')),
     fl_close = (\<lambda>fd (s, w). (s, oc_close K fd w)),
     fl_isfs_open = ISFS_Open K, fl_isfs_close = ISFS_Close K,
     fl_create = ISFS_CreateFile K, fl_delete = ISFS_Delete K \<rparr>"

section \<open>The messages reach the plugin\<close>

lemma length_isfs_put [simp]:
  "off + length bs \<le> length (isfsBuf s) \<Longrightarrow> length (isfsBuf (isfs_put off bs s)) = length (isfsBuf s)"
  by (simp add: isfs_put_def length_blit)

lemma isfs_get_put_same:
  "off + length bs \<le> length (isfsBuf s) \<Longrightarrow> isfs_get off (length bs) (isfs_put off bs s) = bs"
  by (simp add: isfs_get_def isfs_put_def blit_def)

lemma isfs_get_put_cbytes:
  "off + Suc (length p) \<le> length (isfsBuf s) \<Longrightarrow>
   isfs_get off (Suc (length p)) (isfs_put off (cbytes p) s) = cbytes p"
  using isfs_get_put_same [of off "cbytes p" s] by simp

lemma isfs_get_put_apart:
  assumes "off + length bs \<le> length (isfsBuf s)" and "o' + n \<le> off \<or> off + length bs \<le> o'"
  shows "isfs_get o' n (isfs_put off bs s) = isfs_get o' n s"
proof (rule nth_equalityI)
  have len: "length (blit (isfsBuf s) off bs) = length (isfsBuf s)" using assms(1) by (rule length_blit)
  show "length (isfs_get o' n (isfs_put off bs s)) = length (isfs_get o' n s)"
    by (simp add: isfs_get_def isfs_put_def len)
  fix i assume "i < length (isfs_get o' n (isfs_put off bs s))"
  then show "isfs_get o' n (isfs_put off bs s) ! i = isfs_get o' n s ! i"
    using assms by (auto simp: isfs_get_def isfs_put_def len nth_blit)
qed

lemma isfs_fd_put [simp]: "isfs_fd (isfs_put off bs s) = isfs_fd s"
  by (simp add: isfs_put_def)

lemma cstr_isfs_get:
  assumes "cstring_ok p" and "length p < n" and "off + n \<le> length (isfsBuf s)"
    and "take (Suc (length p)) (drop off (isfsBuf s)) = cbytes p"
  shows "cstr (isfs_get off n s) 0 = Some p"
proof -
  have "isfs_get off n s = [] @ cbytes p @ drop (Suc (length p)) (isfs_get off n s)"
    using assms(2) append_take_drop_id [of "Suc (length p)" "isfs_get off n s"] assms(4)
    by (simp add: isfs_get_def min_def)
  then show ?thesis using cstr_cbytes [OF assms(1), of "[]"] by (metis list.size(3))
qed

lemma create_message_get:
  assumes "length (isfsBuf s) = sizeof_isfs" and "length p < ISFS_MAXPATH"
  shows "take (Suc (length p)) (drop (off_union + 6) (isfsBuf (create_message p s))) = cbytes p"
proof -
  have "isfs_get (off_union + 6) (length (cbytes p)) (create_message p s) = cbytes p"
    using assms unfolding create_message_def
    by (simp add: isfs_get_put_apart isfs_get_put_cbytes)
  then show ?thesis by (simp add: isfs_get_def)
qed

lemma length_create_message:
  "length (isfsBuf s) = sizeof_isfs \<Longrightarrow> length p < ISFS_MAXPATH \<Longrightarrow>
   length (isfsBuf (create_message p s)) = sizeof_isfs"
  by (simp add: create_message_def)

lemma setmode_message_get:
  assumes "length (isfsBuf s) = sizeof_isfs" and "length p < ISFS_MAXPATH"
  shows "isfs_get off_config_mode 4 (setmode_message a m p s) = put_be32 m"
    and "take (Suc (length p)) (drop off_config_path (isfsBuf (setmode_message a m p s))) = cbytes p"
    and "length (isfsBuf (setmode_message a m p s)) = sizeof_isfs"
proof -
  let ?s1 = "isfs_put off_config_mode (put_be32 m) s"
  have l1: "length (isfsBuf ?s1) = sizeof_isfs" using assms(1) by simp
  show "isfs_get off_config_mode 4 (setmode_message a m p s) = put_be32 m"
    unfolding setmode_message_def config_vector_def
    using assms isfs_get_put_same [of off_config_mode "put_be32 m" s]
    by (simp add: isfs_get_put_apart l1)
  have "isfs_get off_config_path (length (cbytes p)) (setmode_message a m p s) = cbytes p"
    unfolding setmode_message_def config_vector_def
    using assms by (simp add: isfs_get_put_apart isfs_get_put_cbytes)
  then show "take (Suc (length p)) (drop off_config_path (isfsBuf (setmode_message a m p s))) = cbytes p"
    by (simp add: isfs_get_def)
  show "length (isfsBuf (setmode_message a m p s)) = sizeof_isfs"
    using assms by (simp add: setmode_message_def config_vector_def)
qed

lemma delete_message_get:
  assumes "length (isfsBuf s) = sizeof_isfs" and "length p < ISFS_MAXPATH"
  shows "take (Suc (length p)) (drop off_union (isfsBuf (delete_message p s))) = cbytes p"
    and "length (isfsBuf (delete_message p s)) = sizeof_isfs"
  using assms isfs_get_put_cbytes [of off_union p s]
  by (simp_all add: delete_message_def isfs_get_def)

lemma fsattr_path:
  assumes "length (isfsBuf s) = sizeof_isfs" and "cstring_ok p" and "length p < ISFS_MAXPATH"
  shows "cstr (isfs_get off_union sizeof_fsattr (create_message p s)) 6 = Some p"
proof -
  let ?m = "create_message p s"
  have "cstr (isfs_get (off_union + 6) 70 ?m) 0 = Some p"
    using assms create_message_get [OF assms(1,3)] length_create_message [OF assms(1,3)]
    by (intro cstr_isfs_get) simp_all
  moreover have "isfs_get (off_union + 6) 70 ?m = drop 6 (isfs_get off_union sizeof_fsattr ?m)"
    by (simp add: isfs_get_def drop_take)
  moreover have "length (isfs_get off_union sizeof_fsattr ?m) = 76"
    using length_create_message [OF assms(1,3)] by (simp add: isfs_get_def)
  ultimately show ?thesis by (simp add: cstr_def Let_def split: if_splits)
qed

lemma setmode_understood:
  assumes "length (isfsBuf s) = sizeof_isfs" and "cstring_ok p" and "length p < ISFS_MAXPATH"
  shows "FS_Ioctlv E 100 (config_bufs (setmode_message a m p s)) 2 0 st w
      = map_option (\<lambda>(ret, st', w'). ((ret, 1, config_bufs (setmode_message a m p s)), st', w')) (FS_SetMode E m p st w)"
proof -
  have p: "cstr (isfs_get off_config_path ISFS_MAXPATH (setmode_message a m p s)) 0 = Some p"
    using setmode_message_get [OF assms(1,3)] assms(2,3) by (intro cstr_isfs_get) simp_all
  have m: "rd32 (isfs_get off_config_mode 4 (setmode_message a m p s)) 0 = Some m"
    unfolding setmode_message_get(1) [OF assms(1,3)] by (simp add: rd32_Some)
  show ?thesis
    by (simp add: FS_Ioctlv_def config_bufs_def rd_def p m split: option.splits)
       (auto simp: map_option_case split: option.splits)
qed

lemma config_back_bufs:
  assumes "length (isfsBuf s) = sizeof_isfs"
  shows "config_back (config_bufs s) s = s"
proof -
  have "isfs_put off (isfs_get off n s) s = s" if "off + n \<le> length (isfsBuf s)" for off n
  proof -
    have "take n (drop off (isfsBuf s)) @ drop (off + n) (isfsBuf s) = drop off (isfsBuf s)"
      using append_take_drop_id [of n "drop off (isfsBuf s)"] by (simp add: add.commute)
    then show ?thesis using that by (simp add: isfs_put_def isfs_get_def blit_def)
  qed
  then show ?thesis using assms by (simp add: config_back_def config_bufs_def)
qed

section \<open>The saved states on these calls\<close>

text \<open>
  What the kernel and the file system module promise, in terms of the messages: \<open>is_fs w fd\<close> says that the
  descriptor is one of \<open>/dev/fs\<close>.
\<close>

definition fs_service ::
  "'w os_calls \<Rightarrow> ('w \<Rightarrow> string \<Rightarrow> bytes option) \<Rightarrow> ('w \<Rightarrow> s32 \<Rightarrow> (string \<times> nat) option) \<Rightarrow> ('w \<Rightarrow> s32 \<Rightarrow> bool) \<Rightarrow> bool"
where
  "fs_service K content cursor is_fs \<longleftrightarrow>
     (\<forall>w fd w'. oc_open K ''/dev/fs'' 0 w = (fd, w') \<longrightarrow> 0 \<le> fd \<and> content w' = content w \<and> is_fs w' fd) \<and>
     (\<forall>w fd. content (oc_close K fd w) = content w) \<and>
     (\<forall>w fd msg n out r w'. is_fs w fd \<longrightarrow> cstr msg 6 = Some n \<longrightarrow> content w n = None
        \<longrightarrow> oc_ioctl K fd 9 msg out w = (r, w') \<longrightarrow> content w' = (content w)(n := Some [])) \<and>
     (\<forall>w fd msg n out r w'. is_fs w fd \<longrightarrow> cstr msg 0 = Some n
        \<longrightarrow> oc_ioctl K fd 7 msg out w = (r, w') \<longrightarrow> content w' = (content w)(n := None)) \<and>
     (\<forall>w n m fd w'. content w n \<noteq> None \<longrightarrow> oc_open K n m w = (fd, w') \<longrightarrow>
        0 \<le> fd \<and> content w' = content w \<and> cursor w' fd = Some (n, 0)) \<and>
     (\<forall>w fd n bs data r w'. cursor w fd = Some (n, length bs) \<longrightarrow> content w n = Some bs
        \<longrightarrow> oc_write K fd data w = (r, w') \<longrightarrow>
        r = int (length data) \<and> content w' = (content w)(n := Some (bs @ data))
        \<and> cursor w' fd = Some (n, length (bs @ data))) \<and>
     (\<forall>w fd n p k bs r out w'. cursor w fd = Some (n, p) \<longrightarrow> content w n = Some bs \<longrightarrow> p + k \<le> length bs
        \<longrightarrow> oc_read K fd k w = ((r, out), w') \<longrightarrow>
        r = int k \<and> out = take k (drop p bs) \<and> content w' = content w \<and> cursor w' fd = Some (n, p + k))"

lemmas fs_serviceD =
  fs_service_def [THEN iffD1, THEN conjunct1, rule_format]
  fs_service_def [THEN iffD1, THEN conjunct2, THEN conjunct1, rule_format]
  fs_service_def [THEN iffD1, THEN conjunct2, THEN conjunct2, THEN conjunct1, rule_format]
  fs_service_def [THEN iffD1, THEN conjunct2, THEN conjunct2, THEN conjunct2, THEN conjunct1, rule_format]
  fs_service_def [THEN iffD1, THEN conjunct2, THEN conjunct2, THEN conjunct2, THEN conjunct2, THEN conjunct1, rule_format]
  fs_service_def [THEN iffD1, THEN conjunct2, THEN conjunct2, THEN conjunct2, THEN conjunct2, THEN conjunct2, THEN conjunct1, rule_format]
  fs_service_def [THEN iffD1, THEN conjunct2, THEN conjunct2, THEN conjunct2, THEN conjunct2, THEN conjunct2, THEN conjunct2, rule_format]

text \<open>Between the calls the client holds no descriptor.\<close>

definition isfs_idle :: "isfs_state \<Rightarrow> bool" where
  "isfs_idle s \<longleftrightarrow> isfs_fd s = -1 \<and> length (isfsBuf s) = sizeof_isfs"

lemma isfs_create:
  assumes sv: "fs_service K content cursor is_fs" and "isfs_idle s" and "short_name n" and "content w n = None"
    and "Config_Create (isfs_files K) n (s, w) = (r, s', w')"
  shows "isfs_idle s' \<and> content w' = (content w)(n := Some [])"
proof -
  obtain fd w1 where o: "oc_open K ''/dev/fs'' 0 w = (fd, w1)" by (rule prod.exhaust)
  note o1 = fs_serviceD(1) [OF sv o]
  let ?s = "create_message n (s\<lparr> isfs_fd := fd \<rparr>)"
  obtain r1 w2 where c: "oc_ioctl K fd 9 (isfs_get off_union sizeof_fsattr ?s) [] w1 = (r1, w2)" by (rule prod.exhaust)
  have b: "length (isfsBuf (s\<lparr> isfs_fd := fd \<rparr>)) = sizeof_isfs" using assms(2) by (simp add: isfs_idle_def)
  have m: "cstr (isfs_get off_union sizeof_fsattr ?s) 6 = Some n"
    using fsattr_path [OF b] assms(3) by (simp add: short_name_def cstring_ok_def)
  have w2: "content w2 = (content w)(n := Some [])"
    using fs_serviceD(3) [OF sv _ m _ c] o1 assms(4) by simp
  have "Config_Create (isfs_files K) n (s, w) = (fst r1, ISFS_Close K (?s, w2))"
    using assms(2) o o1 c
    by (simp add: Config_Create_def isfs_files_def ISFS_Open_def ISFS_CreateFile_def isfs_idle_def create_message_def
      split: prod.splits)
  then have "s' = ?s\<lparr> isfs_fd := -1 \<rparr>" "content w' = content w2"
    using assms(5) fs_serviceD(2) [OF sv] by (auto simp: ISFS_Close_def)
  then show ?thesis using w2 length_create_message [OF b] assms(3) by (simp add: isfs_idle_def short_name_def)
qed

lemma isfs_delete:
  assumes sv: "fs_service K content cursor is_fs" and "isfs_idle s" and "short_name n"
    and "Config_Delete (isfs_files K) n (s, w) = (r, s', w')"
  shows "isfs_idle s' \<and> content w' = (content w)(n := None)"
proof -
  obtain fd w1 where o: "oc_open K ''/dev/fs'' 0 w = (fd, w1)" by (rule prod.exhaust)
  note o1 = fs_serviceD(1) [OF sv o]
  let ?s = "delete_message n (s\<lparr> isfs_fd := fd \<rparr>)"
  obtain r1 w2 where c: "oc_ioctl K fd 7 (isfs_get off_union ISFS_MAXPATH ?s) [] w1 = (r1, w2)" by (rule prod.exhaust)
  have b: "length (isfsBuf (s\<lparr> isfs_fd := fd \<rparr>)) = sizeof_isfs" using assms(2) by (simp add: isfs_idle_def)
  have n: "cstring_ok n" "length n < ISFS_MAXPATH" using assms(3) by (simp_all add: short_name_def cstring_ok_def)
  have m: "cstr (isfs_get off_union ISFS_MAXPATH ?s) 0 = Some n"
    using delete_message_get [OF b n(2)] n by (intro cstr_isfs_get) simp_all
  have w2: "content w2 = (content w)(n := None)" using fs_serviceD(4) [OF sv _ m c] o1 by simp
  have "Config_Delete (isfs_files K) n (s, w) = (fst r1, ISFS_Close K (?s, w2))"
    using assms(2) o o1 c
    by (simp add: Config_Delete_def isfs_files_def ISFS_Open_def ISFS_Delete_def isfs_idle_def delete_message_def
      split: prod.splits)
  then have "s' = ?s\<lparr> isfs_fd := -1 \<rparr>" "content w' = content w2"
    using assms(4) fs_serviceD(2) [OF sv] by (auto simp: ISFS_Close_def)
  then show ?thesis using w2 delete_message_get(2) [OF b n(2)] by (simp add: isfs_idle_def)
qed

lemma isfs_open_file:
  assumes "fs_service K content cursor is_fs" and "content w n = Some bs" and "oc_open K n m w = (fd, w')"
  shows "0 \<le> fd \<and> content w' = content w \<and> cursor w' fd = Some (n, 0)"
  using fs_serviceD(5) [OF assms(1) _ assms(3)] assms(2) by simp

text \<open>So the client of the file system module is a store of files.\<close>

lemma isfs_file_store:
  assumes sv: "fs_service K content cursor is_fs"
  shows "file_store (isfs_files K) (\<lambda>d. isfs_idle (fst d)) (\<lambda>d. content (snd d)) (\<lambda>d. cursor (snd d))"
  unfolding file_store_def
proof (intro conjI allI impI, goal_cases)
  case (1 d n r d') then show ?case using isfs_create [OF sv] by (metis prod.collapse)
next
  case (2 d n r d') then show ?case using isfs_create [OF sv] by (metis prod.collapse)
next
  case (3 d n r d') then show ?case using isfs_delete [OF sv] by (metis prod.collapse)
next
  case (4 d n r d') then show ?case using isfs_delete [OF sv] by (metis prod.collapse)
qed (auto simp: isfs_files_def split: prod.splits dest: isfs_open_file [OF sv] fs_serviceD(6,7) [OF sv] simp: fs_serviceD(2) [OF sv])

text \<open>The file system in memory behind these calls.\<close>

definition ram_os :: "((string \<Rightarrow> bytes option) \<times> (s32 \<Rightarrow> (string \<times> nat) option)) os_calls" where
  "ram_os = \<lparr>
     oc_open = (\<lambda>n m (c, k). if c n = None \<and> n \<noteq> ''/dev/fs'' then (-106, (c, k)) else (3, (c, k(3 := Some (n, 0))))),
     oc_close = fl_close ram_files, oc_read = fl_read ram_files, oc_write = fl_write ram_files,
     oc_ioctl = (\<lambda>fd cmd msg out d.
       if cmd = 9 then (case cstr msg 6 of Some n \<Rightarrow> (case fl_create ram_files n d of (r, d') \<Rightarrow> ((r, out), d')) | None \<Rightarrow> ((-4, out), d))
       else if cmd = 7 then (case cstr msg 0 of Some n \<Rightarrow> (case fl_delete ram_files n d of (r, d') \<Rightarrow> ((r, out), d')) | None \<Rightarrow> ((-4, out), d))
       else ((0, out), d)),
     oc_ioctlv = (\<lambda>fd cmd i o' vec d. ((0, vec), d)), oc_isfsBuf = 0x20100000 \<rparr>"

lemma ram_fs_service: "fs_service ram_os fst snd (\<lambda>_ _. True)"
  by (auto simp: fs_service_def ram_os_def ram_files_def blit_def split: if_splits)

section \<open>Properties\<close>

text \<open>
  The messages of the shared client are understood by the plugin that answers them: the vector of a
  mode change is the plugin's change to that mode and path, the buffers coming back unchanged, and the
  messages that create and delete a file name that file, whatever earlier messages left in the buffer
  they share.
\<close>

theorem isfs_messages_understood:
  assumes "length (isfsBuf s) = sizeof_isfs" and "cstring_ok p" and "length p < ISFS_MAXPATH"
  shows "FS_Ioctlv E 100 (config_bufs (setmode_message a m p s)) 2 0 st w
      = map_option (\<lambda>(ret, st', w'). ((ret, 1, config_bufs (setmode_message a m p s)), st', w')) (FS_SetMode E m p st w)
    \<and> FS_Ioctl E 9 fd (isfs_get off_union sizeof_fsattr (create_message p s)) [] st w
      = emulate st p [] (\<lambda>q w. with_buf [] (FAT_CreateFile E q st w)) w
    \<and> FS_Ioctl E 7 fd (isfs_get off_union ISFS_MAXPATH (delete_message p s)) [] st w
      = emulate st p [] (\<lambda>q w. with_buf [] (FAT_Delete E q st w)) w"
proof (intro conjI)
  show "FS_Ioctlv E 100 (config_bufs (setmode_message a m p s)) 2 0 st w
      = map_option (\<lambda>(ret, st', w'). ((ret, 1, config_bufs (setmode_message a m p s)), st', w')) (FS_SetMode E m p st w)"
    by (rule setmode_understood [OF assms])
  show "FS_Ioctl E 9 fd (isfs_get off_union sizeof_fsattr (create_message p s)) [] st w
      = emulate st p [] (\<lambda>q w. with_buf [] (FAT_CreateFile E q st w)) w"
    using fsattr_path [OF assms] by (simp add: FS_Ioctl_def)
  have "cstr (isfs_get off_union ISFS_MAXPATH (delete_message p s)) 0 = Some p"
    using delete_message_get [OF assms(1,3)] assms(2,3) by (intro cstr_isfs_get) simp_all
  then show "FS_Ioctl E 7 fd (isfs_get off_union ISFS_MAXPATH (delete_message p s)) [] st w
      = emulate st p [] (\<lambda>q w. with_buf [] (FAT_Delete E q st w)) w"
    by (simp add: FS_Ioctl_def)
qed

theorem isfs_messages_understood_witness:
  "FS_Ioctlv demo_ffs 100 (config_bufs (setmode_message 0x1000 0 ''/sys'' isfs_zero)) 2 0 fs_zero mload_zero
     = Some ((0, 1, config_bufs (setmode_message 0x1000 0 ''/sys'' isfs_zero)), mode_off fs_zero, mload_zero)"
proof -
  have "length (isfsBuf isfs_zero) = sizeof_isfs" "cstring_ok ''/sys''" "length ''/sys'' < ISFS_MAXPATH"
    by (simp_all add: isfs_zero_def cstring_ok_def)
  from isfs_messages_understood [OF this, of demo_ffs "0x1000" 0 fs_zero mload_zero] show ?thesis
    by (simp add: FS_SetMode_def demo_ffs_def mload_zero_def Swi_GetRunningTitle_def)
qed

end
