(* ===== verification/Es_Plugin.thy ===== *)
theory Es_Plugin
  imports Isfs
begin

text \<open>
  The title plugin (\<open>es-plugin/plugin.c\<close>, \<open>es-plugin/config.c\<close>): it answers launches of the system menu and of other
  systems by launching a title of its own choice, hides that a system is missing, and tells the kernel
  patcher when a title runs. The original module, the kernel and the other modules are the parameter
  \<open>es_env\<close>; files are those of \<open>Dip_Config\<close>. A request carries the buffers of its vector, absent ones as
  \<open>None\<close>. The outer \<open>None\<close> is an access outside a buffer.
\<close>

section \<open>State\<close>

record 'w es_env =
  ee_os :: "'w os_calls"
  ee_handle_open :: "'w \<Rightarrow> s32 \<times> 'w"
  ee_handle_ioctlv :: "u32 \<Rightarrow> nat \<Rightarrow> nat \<Rightarrow> bytes option list \<Rightarrow> 'w \<Rightarrow> (s32 \<times> bytes option list) \<times> 'w"
  ee_launch :: "u32 \<Rightarrow> u32 \<Rightarrow> bytes \<Rightarrow> 'w \<Rightarrow> s32 \<times> 'w"
  ee_get_version :: "'w \<Rightarrow> u32"
  ee_set_version :: "u32 \<Rightarrow> 'w \<Rightarrow> 'w"
  ee_low_version :: "'w \<Rightarrow> u32"
  ee_thread :: "'w \<Rightarrow> s32"
  ee_set_ahbprot :: "'w \<Rightarrow> 'w"
  ee_mload :: "'w \<Rightarrow> mload_state"
  ee_set_mload :: "mload_state \<Rightarrow> 'w \<Rightarrow> 'w"

abbreviation (input) TIK_SIZE :: nat where "TIK_SIZE \<equiv> 676"
abbreviation (input) sizeof_tikview :: nat where "sizeof_tikview \<equiv> 216"
abbreviation (input) sizeof_sig_rsa2048 :: nat where "sizeof_sig_rsa2048 \<equiv> 320"
abbreviation (input) sizeof_tmd :: nat where "sizeof_tmd \<equiv> 164"
abbreviation (input) es_cfg_filename :: string where "es_cfg_filename \<equiv> ''/sys/esp.cfg''"

type_synonym u64 = "64 word"

record esConfig =
  fakelaunch :: u32
  es_ios :: u32
  title_id :: u64
  sm_title_id :: u64

record es_state =
  es_config :: esConfig
  stage2_done :: bool
  tmp_tid :: bytes
  tik_buffer :: bytes
  es_isfs :: isfs_state

definition es_zero :: es_state where
  "es_zero = \<lparr> es_config = \<lparr> fakelaunch = 0, es_ios = 0, title_id = 0, sm_title_id = 0 \<rparr>, stage2_done = False,
     tmp_tid = replicate 8 0, tik_buffer = replicate TIK_SIZE 0, es_isfs = isfs_zero \<rparr>"

definition put_be64 :: "u64 \<Rightarrow> bytes" where
  "put_be64 w = put_be32 (ucast (drop_bit 32 w)) @ put_be32 (ucast w)"

definition be64 :: "bytes \<Rightarrow> u64" where
  "be64 bs = push_bit 32 (ucast (be32 (take 4 bs))) OR ucast (be32 (take 4 (drop 4 bs)))"

lemma be64_put [simp]: "be64 (put_be64 w) = w"
  unfolding be64_def put_be64_def by (simp, rule bit_word_eqI) (auto simp: bit_simps)

lemma length_put_be64 [simp]: "length (put_be64 w) = 8"
  by (simp add: put_be64_def)

definition rd64 :: "bytes \<Rightarrow> nat \<Rightarrow> u64 option" where
  "rd64 buf off = map_option be64 (rd_block buf off 8)"

definition enc_esConfig :: "esConfig \<Rightarrow> bytes" where
  "enc_esConfig c = put_be32 (fakelaunch c) @ put_be32 (es_ios c) @ put_be64 (title_id c) @ put_be64 (sm_title_id c)"

definition dec_esConfig :: "bytes \<Rightarrow> esConfig" where
  "dec_esConfig bs = \<lparr> fakelaunch = be32 (take 4 bs), es_ios = be32 (take 4 (drop 4 bs)),
     title_id = be64 (take 8 (drop 8 bs)), sm_title_id = be64 (take 8 (drop 16 bs)) \<rparr>"

interpretation esConfig_codec: wire_codec enc_esConfig dec_esConfig 24
  by unfold_locales (simp_all add: enc_esConfig_def dec_esConfig_def)

declare esConfig_codec.length_enc [simp] esConfig_codec.dec_enc [simp]

section \<open>The saved configuration\<close>

definition Config_Load :: "'w files \<Rightarrow> esConfig \<Rightarrow> 'w \<Rightarrow> s32 \<times> esConfig \<times> 'w" where
  "Config_Load F cfg w =
     (case fl_open F es_cfg_filename ISFS_OPEN_READ w of (fd, w1) \<Rightarrow>
        if fd < 0 then (fd, cfg, w1)
        else case fl_read F fd 24 w1 of ((ret, bs), w2) \<Rightarrow>
          let (r3, w3) = Config_Delete F es_cfg_filename (fl_close F fd w2)
          in (ret, dec_esConfig (over bs (enc_esConfig cfg)), w3))"

definition Config_Save :: "'w files \<Rightarrow> esConfig \<Rightarrow> 'w \<Rightarrow> s32 \<times> 'w" where
  "Config_Save F cfg w =
     (case Config_Create F es_cfg_filename w of (r0, w0) \<Rightarrow>
      case fl_open F es_cfg_filename ISFS_OPEN_WRITE w0 of (fd, w1) \<Rightarrow>
        if fd < 0 then (fd, w1)
        else case fl_write F fd (enc_esConfig cfg) w1 of (ret, w2) \<Rightarrow> (ret, fl_close F fd w2))"

section \<open>Titles and tickets\<close>

definition tid_hi :: "u64 \<Rightarrow> u32" where "tid_hi t = ucast (drop_bit 32 t)"
definition tid_lo :: "u64 \<Rightarrow> u32" where "tid_lo t = ucast t"

definition is_disc_based_game :: "u64 \<Rightarrow> bool" where
  "is_disc_based_game t \<longleftrightarrow> drop_bit 32 t = 0x00010000 \<or> drop_bit 32 t = 0x00010004"

definition ES_GetTitleID :: "'w es_env \<Rightarrow> es_state \<Rightarrow> 'w \<Rightarrow> (s32 \<times> u64) \<times> es_state \<times> 'w" where
  "ES_GetTitleID E st w =
     (let ((ret, vec), w') = ee_handle_ioctlv E 0x20 0 1 [Some (tmp_tid st)] w;
          tmp = (case vec of [Some t] \<Rightarrow> t | _ \<Rightarrow> tmp_tid st)
      in ((ret, if ret < 0 then 0 else be64 tmp), st\<lparr> tmp_tid := tmp \<rparr>, w'))"

definition hex8 :: "u32 \<Rightarrow> cstring" where
  "hex8 v = map (\<lambda>i. ''0123456789abcdef'' ! (unat (drop_bit (28 - 4 * i) v) mod 16)) [0..<8]"

definition ticket_path :: "u32 \<Rightarrow> u32 \<Rightarrow> cstring" where
  "ticket_path tidh tidl = ''#ticket/'' @ hex8 tidh @ ''/'' @ hex8 tidl @ ''.tik''"

text \<open>The view of a ticket, made of the bytes of its file over what the buffer held.\<close>

definition ticket_view :: "bytes \<Rightarrow> bytes" where
  "ticket_view buffer =
     (put_be32 (be32 (take 4 (drop 0x1BC buffer)) AND 0xFF000000) @ take (sizeof_tikview - 4) (drop 0x1D0 buffer))[0x96 := 0, 0x97 := 0]"

definition ES_GetTicketView ::
  "'w es_env \<Rightarrow> u32 \<Rightarrow> u32 \<Rightarrow> es_state \<Rightarrow> 'w \<Rightarrow> (s32 \<times> bytes option) \<times> es_state \<times> 'w"
where
  "ES_GetTicketView E tidh tidl st w =
     (case oc_open (ee_os E) (ticket_path tidh tidl) 1 w of (fd, w1) \<Rightarrow>
        if fd < 0 then ((fd, None), st, w1)
        else case oc_read (ee_os E) fd TIK_SIZE w1 of ((ret, bs), w2) \<Rightarrow>
          let st1 = st\<lparr> tik_buffer := over bs (tik_buffer st) \<rparr>; w3 = oc_close (ee_os E) fd w2
          in if ret < 0 then ((ret, None), st1, w3) else ((0, Some (ticket_view (tik_buffer st1))), st1, w3))"

definition ES_CustomLaunch :: "'w es_env \<Rightarrow> u32 \<Rightarrow> u32 \<Rightarrow> es_state \<Rightarrow> 'w \<Rightarrow> s32 \<times> es_state \<times> 'w" where
  "ES_CustomLaunch E tidh tidl st w =
     (case ES_GetTicketView E tidh tidl st w of
        ((ret, None), st1, w1) \<Rightarrow> (ret, st1, w1)
      | ((ret, Some view), st1, w1) \<Rightarrow> let (r, w2) = ee_launch E tidh tidl view w1 in (r, st1, w2))"

section \<open>The fake launches\<close>

abbreviation set_config :: "(esConfig \<Rightarrow> esConfig) \<Rightarrow> es_state \<Rightarrow> es_state" where
  "set_config f st \<equiv> st\<lparr> es_config := f (es_config st) \<rparr>"

definition ES_SetFakeIosLaunch :: "u32 \<Rightarrow> u32 \<Rightarrow> es_state \<Rightarrow> es_state" where
  "ES_SetFakeIosLaunch mode ios = set_config (\<lambda>c. c\<lparr> fakelaunch := mode, es_ios := ios, title_id := 0 \<rparr>)"

definition ES_RemoveError002 :: "'w es_env \<Rightarrow> bytes option \<Rightarrow> es_state \<Rightarrow> 'w \<Rightarrow> es_state \<times> 'w" where
  "ES_RemoveError002 E data st w =
     (if fakelaunch (es_config st) \<noteq> 0 \<and> title_id (es_config st) \<noteq> 0 then
        let (st1, w1) =
          (case data of
             None \<Rightarrow> (st, w)
           | Some bs \<Rightarrow>
               if length bs < sizeof_sig_rsa2048 + sizeof_tmd then (st, w)
               else if be64 (take 8 (drop (sizeof_sig_rsa2048 + 76) bs)) \<noteq> title_id (es_config st)
               then (set_config (\<lambda>c. c\<lparr> fakelaunch := 0 \<rparr>) st, w)
               else (st, ee_set_version E
                 (push_bit 16 (ucast (be64 (take 8 (drop (sizeof_sig_rsa2048 + 68) bs)))) OR 0xFFFF) w))
        in (set_config (\<lambda>c. c\<lparr> title_id := 0 \<rparr>) st1, w1)
      else (st, w))"

text \<open>The title that stands in for a missing one; 0 for none.\<close>

definition fake_tid_of :: "'w es_env \<Rightarrow> u64 \<Rightarrow> es_state \<Rightarrow> 'w \<Rightarrow> u64 \<times> es_state \<times> 'w" where
  "fake_tid_of E t64 st w =
     (let c = es_config st; tidl = tid_lo t64;
          f0 = (if tidl = 2 \<and> sm_title_id c \<noteq> 0 then sm_title_id c else 0)
      in if 3 \<le> tidl \<and> tidl \<le> 255 \<and> fakelaunch c \<noteq> 0 \<and> title_id c = 0 then
           case ES_GetTitleID E st w of ((ret, running), st1, w1) \<Rightarrow>
             (if ret \<ge> 0 \<and> is_disc_based_game running \<and> tidl = drop_bit 16 (ee_low_version E w1)
              then 0x0000000100000000 OR ucast (es_ios c) else f0, st1, w1)
         else (f0, st, w))"

definition put_buf :: "bytes option list \<Rightarrow> nat \<Rightarrow> bytes \<Rightarrow> bytes option list option" where
  "put_buf vec i bs =
     (case rd vec i of Some (Some b) \<Rightarrow> if length bs \<le> length b then Some (vec[i := Some (blit b 0 bs)]) else None
      | _ \<Rightarrow> None)"

text \<open>The answer for a missing title that the title \<open>fake\<close> stands in for.\<close>

definition use_fake_tid ::
  "'w es_env \<Rightarrow> bool \<Rightarrow> u64 \<Rightarrow> bytes option list \<Rightarrow> s32 \<Rightarrow> es_state \<Rightarrow> 'w
     \<Rightarrow> ((s32 \<times> bytes option list) \<times> es_state \<times> 'w) option"
where
  "use_fake_tid E justCounting fake vec ret st w =
     (if fake = 0 then Some ((ret, vec), st, w)
      else if justCounting then do { vec' \<leftarrow> put_buf vec 1 (put_be32 1); Some ((0, vec'), st, w) }
      else do { _ \<leftarrow> rd vec 2;
                case ES_GetTicketView E (tid_hi fake) (tid_lo fake) st w of
                  ((r, None), st', w') \<Rightarrow> Some ((ret, vec), st', w')
                | ((r, Some view), st', w') \<Rightarrow> do { vec' \<leftarrow> put_buf vec 2 view; Some ((0, vec'), st', w') } })"

definition ES_FixMissingTitle ::
  "'w es_env \<Rightarrow> bool \<Rightarrow> bytes option list \<Rightarrow> s32 \<Rightarrow> es_state \<Rightarrow> 'w
     \<Rightarrow> ((s32 \<times> bytes option list) \<times> es_state \<times> 'w) option"
where
  "ES_FixMissingTitle E justCounting vec ret st w =
     do { count \<leftarrow> rd vec 1;
          tidp \<leftarrow> rd vec 0;
          case (count, tidp) of
            (Some cb, Some tb) \<Rightarrow>
              if ret \<noteq> (if justCounting then 0 else -1017) then Some ((ret, vec), st, w)
              else do { c \<leftarrow> rd32 cb 0;
                        if c \<noteq> (if justCounting then 0 else 1) then Some ((ret, vec), st, w)
                        else do { t64 \<leftarrow> rd64 tb 0;
                                  if tid_hi t64 = 1 then
                                    case fake_tid_of E t64 st w of (fake, st1, w1) \<Rightarrow>
                                      use_fake_tid E justCounting fake vec ret st1 w1
                                  else Some ((ret, vec), st, w) } }
          | _ \<Rightarrow> Some ((ret, vec), st, w) }"

section \<open>Requests\<close>

definition ES_EmulateOpen :: "'w es_env \<Rightarrow> es_state \<Rightarrow> 'w \<Rightarrow> s32 \<times> es_state \<times> 'w" where
  "ES_EmulateOpen E st w =
     (let (st1, w1) =
        (if stage2_done st then (st, w)
         else let st0 = (if title_id (es_config st) = 0
                         then ES_SetFakeIosLaunch 1 (drop_bit 16 (ee_get_version E w) AND 0xFF) st else st);
                  w0 = ee_set_mload E (snd (Swi_AddThreadRights (ee_thread E w) TID_RIGHTS_FORCE_REAL_NAND (ee_mload E w))) w
              in (st0\<lparr> stage2_done := True \<rparr>, ee_set_ahbprot E w0));
        (ret, w2) = ee_handle_open E w1
      in (ret, st1, w2))"

text \<open>The state of the kernel patcher changed by a software interrupt.\<close>

definition swi :: "'w es_env \<Rightarrow> (mload_state \<Rightarrow> mload_state) \<Rightarrow> 'w \<Rightarrow> 'w" where
  "swi E f w = ee_set_mload E (f (ee_mload E w)) w"

definition es_forward ::
  "'w es_env \<Rightarrow> u32 \<Rightarrow> nat \<Rightarrow> nat \<Rightarrow> bytes option list \<Rightarrow> es_state \<Rightarrow> 'w \<Rightarrow> ((s32 \<times> bytes option list) \<times> es_state \<times> 'w) option"
where
  "es_forward E cmd inlen iolen vec st w =
     (let (r, w') = ee_handle_ioctlv E cmd inlen iolen vec w in Some (r, st, w'))"

text \<open>\<open>DI_Config_Save\<close> of this plugin (\<open>di.c\<close>): the request to the disc interface plugin.\<close>

definition ES_DI_Config_Save :: "'w es_env \<Rightarrow> 'w \<Rightarrow> s32 \<times> 'w" where
  "ES_DI_Config_Save E w =
     (case oc_open (ee_os E) ''/dev/di'' 0 w of (fd, w1) \<Rightarrow>
        if fd < 0 then (fd, w1)
        else case oc_ioctl (ee_os E) fd 0xFE ([0xFE, 0, 0, 0] @ replicate 28 0) (replicate 32 0) w1 of ((ret, out), w2) \<Rightarrow>
          (ret, oc_close (ee_os E) fd w2))"

definition launch_menu :: "'w es_env \<Rightarrow> es_state \<Rightarrow> 'w \<Rightarrow> es_state \<times> 'w" where
  "launch_menu E st w =
     (case ISFS_SetMode (ee_os E) 0 [] (es_isfs st, swi E (Swi_SetEsRequest 1) w) of (r, s, w1) \<Rightarrow>
        (st\<lparr> es_isfs := s \<rparr>, swi E (Swi_SetEsRequest 0) w1))"

definition launch_game_ios :: "'w es_env \<Rightarrow> u32 \<Rightarrow> es_state \<Rightarrow> 'w \<Rightarrow> s32 \<times> es_state \<times> 'w" where
  "launch_game_ios E tidh st w =
     (let w1 = swi E (Swi_SetEsRequest 0) (snd (ES_DI_Config_Save E (swi E (Swi_SetEsRequest 1) w)));
          (r, s, w2) = Config_Save (isfs_files (ee_os E)) (es_config st) (es_isfs st, w1)
      in ES_CustomLaunch E tidh (es_ios (es_config st)) (st\<lparr> es_isfs := s \<rparr>) w2)"

definition ES_Launch ::
  "'w es_env \<Rightarrow> nat \<Rightarrow> nat \<Rightarrow> bytes option list \<Rightarrow> es_state \<Rightarrow> 'w \<Rightarrow> ((s32 \<times> bytes option list) \<times> es_state \<times> 'w) option"
where
  "ES_Launch E inlen iolen vec st w =
     do { p \<leftarrow> rd vec 0; b \<leftarrow> p; t64 \<leftarrow> rd64 b 0;
          let tidh = tid_hi t64; tidl = tid_lo t64;
              (st1, w1) = (if tidh = 1 \<and> tidl = 2 then launch_menu E st w else (st, w));
              sm = sm_title_id (es_config st1)
          in if tidh = 1 \<and> tidl = 2 \<and> sm \<noteq> 0 then
               case ES_CustomLaunch E (tid_hi sm) (tid_lo sm) st1 w1 of (ret, st2, w2) \<Rightarrow> Some ((ret, vec), st2, w2)
             else if tidh = 1 \<and> fakelaunch (es_config st1) \<noteq> 0 \<and> 3 \<le> tidl \<and> tidl \<le> 255
                     \<and> title_id (es_config st1) = 0 then
               case ES_GetTitleID E st1 w1 of ((ret, t), st2, w2) \<Rightarrow>
                 if ret \<ge> 0 \<and> is_disc_based_game t then
                   case launch_game_ios E tidh (set_config (\<lambda>c. c\<lparr> title_id := t \<rparr>) st2) w2 of (r, st3, w3) \<Rightarrow>
                     Some ((r, vec), st3, w3)
                 else es_forward E 0x08 inlen iolen vec (set_config (\<lambda>c. c\<lparr> title_id := 0 \<rparr>) st2) w2
             else es_forward E 0x08 inlen iolen vec st1 w1 }"

definition ES_EmulateIoctlv ::
  "'w es_env \<Rightarrow> u32 \<Rightarrow> nat \<Rightarrow> nat \<Rightarrow> bytes option list \<Rightarrow> es_state \<Rightarrow> 'w
     \<Rightarrow> ((s32 \<times> bytes option list) \<times> es_state \<times> 'w) option"
where
  "ES_EmulateIoctlv E cmd inlen iolen vec st w =
     (if cmd = 0x1C then
        do { data \<leftarrow> rd vec 3;
             let (st1, w1) = ES_RemoveError002 E data st w;
                 ((ret, vec'), w2) = ee_handle_ioctlv E cmd inlen iolen vec w1
             in Some ((ret, vec'), st1, swi E (Swi_SetRunningTitle (if ret = 0 then 1 else 0)) w2) }
      else if cmd = 0x12 \<or> cmd = 0x13 then
        (case ee_handle_ioctlv E cmd inlen iolen vec w of ((ret, vec'), w1) \<Rightarrow>
           ES_FixMissingTitle E (cmd = 0x12) vec' ret st w1)
      else if cmd = 0x08 then ES_Launch E inlen iolen vec st w
      else if cmd = 0x45 then Some ((-1017, vec), st, w)
      else if cmd = 0xA0 then
        if Stealth_CheckRunningTitle (ee_mload E w) then Some ((IPC_ENOENT, vec), st, w)
        else do { p \<leftarrow> rd vec 0; b \<leftarrow> p; mode \<leftarrow> rd32 b 0;
                  ios \<leftarrow> (if inlen > 1 then do { q \<leftarrow> rd vec 1; d \<leftarrow> q; rd32 d 0 } else Some 249);
                  Some ((0, vec), ES_SetFakeIosLaunch mode ios st, w) }
      else if cmd = 0xA1 then
        if Stealth_CheckRunningTitle (ee_mload E w) then Some ((IPC_ENOENT, vec), st, w)
        else do { p \<leftarrow> rd vec 0; b \<leftarrow> p; sm \<leftarrow> rd64 b 0;
                  Some ((0, vec), set_config (\<lambda>c. c\<lparr> sm_title_id := sm \<rparr>) st, w) }
      else es_forward E cmd inlen iolen vec st w)"

text \<open>The start of the plugin (\<open>main.c\<close>): the configuration an earlier instance saved is read back, the
  original module is patched, and the open of its device, now delivered to this plugin, ends the set-up.\<close>

definition es_main :: "'w es_env \<Rightarrow> 'w \<Rightarrow> es_state \<times> 'w" where
  "es_main E w =
     (case Config_Load (isfs_files (ee_os E)) (es_config es_zero) (isfs_zero, w) of (r, cfg, s, w1) \<Rightarrow>
      case ES_EmulateOpen E (es_zero\<lparr> es_config := cfg, es_isfs := s \<rparr>) w1 of (fd, st, w2) \<Rightarrow>
        (st, if fd < 0 then w2 else oc_close (ee_os E) fd w2))"

section \<open>The configuration survives a reload\<close>

lemma es_name [simp]: "short_name es_cfg_filename"
  by (simp add: short_name_def)

lemma es_save_store:
  assumes st: "file_store F ok content cursor" and "ok d" and "content d es_cfg_filename = None"
  shows "\<exists>d'. Config_Save F cfg d = (24, d') \<and> ok d'
    \<and> content d' = (content d)(es_cfg_filename := Some (enc_esConfig cfg))"
proof -
  obtain r0 d0 where c: "Config_Create F es_cfg_filename d = (r0, d0)" by (rule prod.exhaust)
  obtain fd d1 where o: "fl_open F es_cfg_filename ISFS_OPEN_WRITE d0 = (fd, d1)" by (rule prod.exhaust)
  note o1 = created_file [OF st assms(2) es_name assms(3) c o]
  obtain r2 d2 where w: "fl_write F fd (enc_esConfig cfg) d1 = (r2, d2)" by (rule prod.exhaust)
  have "ok d2" "r2 = 24" "content d2 = (content d)(es_cfg_filename := Some (enc_esConfig cfg))"
    using file_storeD(4) [OF st o1(2,4) _ w] o1(3) by simp_all
  then show ?thesis using c o o1(1) w file_storeD(6) [OF st] by (simp add: Config_Save_def)
qed

lemma es_load_store:
  assumes st: "file_store F ok content cursor" and "ok d" and "content d es_cfg_filename = Some (enc_esConfig cfg)"
  shows "\<exists>d'. Config_Load F cfg0 d = (24, cfg, d') \<and> ok d' \<and> content d' = (content d)(es_cfg_filename := None)"
proof -
  obtain fd d1 where o: "fl_open F es_cfg_filename ISFS_OPEN_READ d = (fd, d1)" by (rule prod.exhaust)
  have o1: "ok d1" "0 \<le> fd" "content d1 = content d" "cursor d1 fd = Some (es_cfg_filename, 0)"
    using file_storeD(3) [OF st assms(2) _ o] assms(3) by simp_all
  obtain rb d2 where rb: "fl_read F fd 24 d1 = (rb, d2)" by (rule prod.exhaust)
  obtain r bs where rb': "rb = (r, bs)" by (rule prod.exhaust)
  have r2: "ok d2" "r = 24" "bs = enc_esConfig cfg" "content d2 = content d"
    using file_storeD(5) [OF st o1(1,4) _ _ rb [unfolded rb']] o1(3) assms(3) by simp_all
  obtain r3 d3 where del: "Config_Delete F es_cfg_filename (fl_close F fd d2) = (r3, d3)" by (rule prod.exhaust)
  note d3 = closed_and_deleted [OF st r2(1) es_name del]
  show ?thesis using o o1(2) rb rb' r2 del d3 by (simp add: Config_Load_def over_all)
qed

text \<open>
  What the rest of the system promises about the file of this configuration: no other call, and no
  request of another module, touches it.
\<close>

definition es_quiet :: "'w es_env \<Rightarrow> ('w \<Rightarrow> string \<Rightarrow> bytes option) \<Rightarrow> bool" where
  "es_quiet E content \<longleftrightarrow>
     (\<forall>p m w. content (snd (oc_open (ee_os E) p m w)) es_cfg_filename = content w es_cfg_filename) \<and>
     (\<forall>fd n w. content (snd (oc_read (ee_os E) fd n w)) es_cfg_filename = content w es_cfg_filename) \<and>
     (\<forall>fd i o' w. content (snd (oc_ioctl (ee_os E) fd 0xFE i o' w)) es_cfg_filename = content w es_cfg_filename) \<and>
     (\<forall>fd w. content (oc_close (ee_os E) fd w) es_cfg_filename = content w es_cfg_filename) \<and>
     (\<forall>c i o' vec w. content (snd (ee_handle_ioctlv E c i o' vec w)) es_cfg_filename = content w es_cfg_filename) \<and>
     (\<forall>h l v w. content (snd (ee_launch E h l v w)) es_cfg_filename = content w es_cfg_filename) \<and>
     (\<forall>m w. content (ee_set_mload E m w) es_cfg_filename = content w es_cfg_filename)"

lemmas es_quietD = es_quiet_def [THEN iffD1, THEN conjunct1, rule_format]
  es_quiet_def [THEN iffD1, THEN conjunct2, THEN conjunct1, rule_format]
  es_quiet_def [THEN iffD1, THEN conjunct2, THEN conjunct2, THEN conjunct1, rule_format]
  es_quiet_def [THEN iffD1, THEN conjunct2, THEN conjunct2, THEN conjunct2, THEN conjunct1, rule_format]
  es_quiet_def [THEN iffD1, THEN conjunct2, THEN conjunct2, THEN conjunct2, THEN conjunct2, THEN conjunct1, rule_format]
  es_quiet_def [THEN iffD1, THEN conjunct2, THEN conjunct2, THEN conjunct2, THEN conjunct2, THEN conjunct2, THEN conjunct1, rule_format]

lemma quiet_launch:
  assumes "es_quiet E content" and "ES_CustomLaunch E h l st w = (r, st', w')"
  shows "content w' es_cfg_filename = content w es_cfg_filename"
proof -
  obtain fd w1 where o: "oc_open (ee_os E) (ticket_path h l) 1 w = (fd, w1)" by (rule prod.exhaust)
  obtain rb w2 where rb: "oc_read (ee_os E) fd TIK_SIZE w1 = (rb, w2)" by (rule prod.exhaust)
  obtain r1 bs where rb': "rb = (r1, bs)" by (rule prod.exhaust)
  let ?v = "ticket_view (over bs (tik_buffer st))"
  obtain r2 w4 where l: "ee_launch E h l ?v (oc_close (ee_os E) fd w2) = (r2, w4)" by (rule prod.exhaust)
  have "content w1 es_cfg_filename = content w es_cfg_filename" "content w2 es_cfg_filename = content w1 es_cfg_filename"
    "content w4 es_cfg_filename = content w2 es_cfg_filename"
    "content (oc_close (ee_os E) fd w2) es_cfg_filename = content w2 es_cfg_filename"
    using es_quietD(1) [OF assms(1), of "ticket_path h l" 1 w] es_quietD(2) [OF assms(1), of fd TIK_SIZE w1]
      es_quietD(6) [OF assms(1), of h l ?v "oc_close (ee_os E) fd w2"] es_quietD(4) [OF assms(1), of fd w2] o rb l
    by simp_all
  then show ?thesis using assms(2) o rb rb' l
    by (auto simp: ES_CustomLaunch_def ES_GetTicketView_def Let_def split: if_splits)
qed

lemma quiet_di:
  assumes "es_quiet E content"
  shows "content (snd (ES_DI_Config_Save E w)) es_cfg_filename = content w es_cfg_filename"
proof -
  obtain fd w1 where o: "oc_open (ee_os E) ''/dev/di'' 0 w = (fd, w1)" by (rule prod.exhaust)
  obtain rb w2 where rb: "oc_ioctl (ee_os E) fd 0xFE ([0xFE, 0, 0, 0] @ replicate 28 0) (replicate 32 0) w1 = (rb, w2)"
    by (rule prod.exhaust)
  obtain r1 bs where rb': "rb = (r1, bs)" by (rule prod.exhaust)
  have "content w1 es_cfg_filename = content w es_cfg_filename" "content w2 es_cfg_filename = content w1 es_cfg_filename"
    "content (oc_close (ee_os E) fd w2) es_cfg_filename = content w2 es_cfg_filename"
    using es_quietD(1) [OF assms, of "''/dev/di''" 0 w]
      es_quietD(3) [OF assms, of fd "[0xFE, 0, 0, 0] @ replicate 28 0" "replicate 32 0" w1]
      es_quietD(4) [OF assms, of fd w2] unfolding o rb by simp_all
  then show ?thesis unfolding ES_DI_Config_Save_def o prod.case rb rb' by simp
qed

lemma quiet_swi: "es_quiet E content \<Longrightarrow> content (swi E f w) es_cfg_filename = content w es_cfg_filename"
  by (simp add: es_quiet_def swi_def)

lemma GetTitleID_frame:
  assumes "ES_GetTitleID E st w = (r, st1, w1)"
  shows "es_config st1 = es_config st" and "es_isfs st1 = es_isfs st"
    and "es_quiet E content \<Longrightarrow> content w1 es_cfg_filename = content w es_cfg_filename"
proof -
  obtain rv w' where h: "ee_handle_ioctlv E 0x20 0 1 [Some (tmp_tid st)] w = (rv, w')" by (rule prod.exhaust)
  obtain ret vec where rv: "rv = (ret, vec)" by (rule prod.exhaust)
  show "es_config st1 = es_config st" "es_isfs st1 = es_isfs st"
    using assms unfolding ES_GetTitleID_def h rv by (auto simp: Let_def)
  have "w1 = w'" using assms unfolding ES_GetTitleID_def h rv by (auto simp: Let_def)
  then show "es_quiet E content \<Longrightarrow> content w1 es_cfg_filename = content w es_cfg_filename"
    using es_quietD(5) [of E content "0x20" 0 1 "[Some (tmp_tid st)]" w] unfolding h by simp
qed

text \<open>What the launch of the system a game asks for leaves behind.\<close>

lemma launch_game_ios_saves:
  assumes sv: "fs_service (ee_os E) content cursor is_fs" and q: "es_quiet E content"
    and "isfs_idle (es_isfs st)" and "content w es_cfg_filename = None"
    and "launch_game_ios E h st w = (r, st', w')"
  shows "content w' es_cfg_filename = Some (enc_esConfig (es_config st))"
proof -
  let ?w1 = "swi E (Swi_SetEsRequest 0) (snd (ES_DI_Config_Save E (swi E (Swi_SetEsRequest 1) w)))"
  let ?c = "\<lambda>d :: isfs_state \<times> 'a. content (snd d)"
  have n: "content ?w1 es_cfg_filename = None" using assms(4) by (simp add: quiet_swi [OF q] quiet_di [OF q])
  have "\<exists>d. Config_Save (isfs_files (ee_os E)) (es_config st) (es_isfs st, ?w1) = (24, d) \<and> isfs_idle (fst d)
      \<and> ?c d = (?c (es_isfs st, ?w1))(es_cfg_filename := Some (enc_esConfig (es_config st)))"
    by (rule es_save_store [OF isfs_file_store [OF sv]]) (simp_all add: assms(3) n)
  then obtain d where d: "Config_Save (isfs_files (ee_os E)) (es_config st) (es_isfs st, ?w1) = (24, d)"
    "?c d = (?c (es_isfs st, ?w1))(es_cfg_filename := Some (enc_esConfig (es_config st)))" by (elim exE conjE)
  obtain s2 w2 where d2: "d = (s2, w2)" by (rule prod.exhaust)
  have "ES_CustomLaunch E h (es_ios (es_config st)) (st\<lparr> es_isfs := s2 \<rparr>) w2 = (r, st', w')"
    using assms(5) d(1) by (simp add: launch_game_ios_def d2 Let_def)
  from quiet_launch [OF q this] d(2) show ?thesis by (simp add: d2)
qed

lemma es_main_loads:
  assumes sv: "fs_service (ee_os E) content cursor is_fs"
    and "content w es_cfg_filename = Some (enc_esConfig cfg)" and "title_id cfg \<noteq> 0"
  shows "es_config (fst (es_main E w)) = cfg"
proof -
  let ?c = "\<lambda>d :: isfs_state \<times> 'a. content (snd d)"
  have "\<exists>d. Config_Load (isfs_files (ee_os E)) (es_config es_zero) (isfs_zero, w) = (24, cfg, d) \<and> isfs_idle (fst d)
      \<and> ?c d = (?c (isfs_zero, w))(es_cfg_filename := None)"
    by (rule es_load_store [OF isfs_file_store [OF sv]]) (simp_all add: assms(2) isfs_idle_def isfs_zero_def)
  then obtain s1 w1 where d: "Config_Load (isfs_files (ee_os E)) (es_config es_zero) (isfs_zero, w) = (24, cfg, s1, w1)"
    by (metis prod.collapse)
  then show ?thesis using assms(3)
    by (simp add: es_main_def ES_EmulateOpen_def es_zero_def Let_def split: prod.splits)
qed

lemma disc_game_not_0: "is_disc_based_game g \<Longrightarrow> g \<noteq> 0"
  by (auto simp: is_disc_based_game_def)

text \<open>The check of the metadata after the reload, on the configuration that was read back.\<close>

lemma RemoveError002_loaded:
  assumes "es_config st' = c\<lparr> title_id := g \<rparr>" and "fakelaunch c \<noteq> 0" and "title_id c = 0" and "g \<noteq> 0"
    and "sizeof_sig_rsa2048 + sizeof_tmd \<le> length tmd"
  shows "ES_RemoveError002 E (Some tmd) st' v
    = (if be64 (take 8 (drop 396 tmd)) = g
       then (st'\<lparr> es_config := c \<rparr>, ee_set_version E (push_bit 16 (ucast (be64 (take 8 (drop 388 tmd)))) OR 0xFFFF) v)
       else (st'\<lparr> es_config := c\<lparr> fakelaunch := 0 \<rparr> \<rparr>, v))"
proof -
  have "c\<lparr> title_id := 0 \<rparr> = c" using assms(3) by (cases c) simp
  moreover have "c\<lparr> title_id := g, fakelaunch := 0, title_id := 0 \<rparr> = c\<lparr> fakelaunch := 0 \<rparr>"
    using assms(3) by (cases c) simp
  ultimately show ?thesis using assms by (simp add: ES_RemoveError002_def)
qed

section \<open>Instances\<close>

text \<open>The plugin over the file system in memory; the running title is a game.\<close>

definition ram_es :: "((string \<Rightarrow> bytes option) \<times> (s32 \<Rightarrow> (string \<times> nat) option)) es_env" where
  "ram_es = \<lparr> ee_os = ram_os, ee_handle_open = (\<lambda>w. (5, w)),
     ee_handle_ioctlv = (\<lambda>c i o' vec w. ((0, if c = 0x20 then [Some (put_be64 0x0001000052534245)] else vec), w)),
     ee_launch = (\<lambda>h l v w. (0, w)), ee_get_version = (\<lambda>w. 0x00381620), ee_set_version = (\<lambda>v w. w),
     ee_low_version = (\<lambda>w. 0x00381620), ee_thread = (\<lambda>w. 9), ee_set_ahbprot = (\<lambda>w. w),
     ee_mload = (\<lambda>w. mload_zero), ee_set_mload = (\<lambda>m w. w) \<rparr>"

lemma ram_es_quiet: "es_quiet ram_es fst"
  by (auto simp: es_quiet_def ram_es_def ram_os_def ram_files_def split: option.splits prod.splits)

text \<open>
  The plugin over the model of the file system plugin: a vector request on \<open>/dev/fs\<close> is answered by
  \<open>FS_Ioctlv\<close> and both share the state of the kernel patcher. The world is \<open>None\<close> once the file system
  plugin has failed.
\<close>

definition ffs_os :: "'w ffs_env \<Rightarrow> (fs_state \<times> 'w) option os_calls" where
  "ffs_os E = \<lparr>
     oc_open = (\<lambda>n m x. (64, x)), oc_close = (\<lambda>fd x. x), oc_read = (\<lambda>fd n x. ((-4, []), x)),
     oc_write = (\<lambda>fd bs x. (-4, x)), oc_ioctl = (\<lambda>fd cmd msg out x.
       case x of None \<Rightarrow> ((-1, out), None)
       | Some (st, w) \<Rightarrow> (case FS_Ioctl E cmd fd msg out st w of None \<Rightarrow> ((-1, out), None)
           | Some ((r, p, out'), st', w') \<Rightarrow> ((r, out'), Some (st', w')))),
     oc_ioctlv = (\<lambda>fd cmd i o' vec x.
       case x of None \<Rightarrow> ((-1, vec), None)
       | Some (st, w) \<Rightarrow> (case FS_Ioctlv E cmd vec i o' st w of None \<Rightarrow> ((-1, vec), None)
           | Some ((r, p, vec'), st', w') \<Rightarrow> ((r, vec'), Some (st', w')))),
     oc_isfsBuf = 0x20100000 \<rparr>"

definition es_on_ffs :: "'w ffs_env \<Rightarrow> (fs_state \<times> 'w) option es_env \<Rightarrow> (fs_state \<times> 'w) option es_env" where
  "es_on_ffs F E = E\<lparr> ee_os := ffs_os F,
     ee_mload := (\<lambda>x. case x of None \<Rightarrow> mload_zero | Some (st, w) \<Rightarrow> fe_mload F w),
     ee_set_mload := (\<lambda>m x. map_option (\<lambda>(st, w). (st, fe_set_mload F m w)) x) \<rparr>"

definition demo_es :: "'w es_env" where
  "demo_es = \<lparr> ee_os = \<lparr> oc_open = (\<lambda>n m x. (64, x)), oc_close = (\<lambda>fd x. x), oc_read = (\<lambda>fd n x. ((-4, []), x)),
       oc_write = (\<lambda>fd bs x. (-4, x)), oc_ioctl = (\<lambda>fd c i o' x. ((0, o'), x)),
       oc_ioctlv = (\<lambda>fd c i o' v x. ((0, v), x)), oc_isfsBuf = 0 \<rparr>,
     ee_handle_open = (\<lambda>w. (5, w)), ee_handle_ioctlv = (\<lambda>c i o' vec w. ((0, vec), w)),
     ee_launch = (\<lambda>h l v w. (0, w)), ee_get_version = (\<lambda>w. 0x00381620), ee_set_version = (\<lambda>v w. w),
     ee_low_version = (\<lambda>w. 0x00381620), ee_thread = (\<lambda>w. 9), ee_set_ahbprot = (\<lambda>w. w),
     ee_mload = (\<lambda>w. mload_zero), ee_set_mload = (\<lambda>m w. w) \<rparr>"

lemma ffs_nand_mode:
  assumes "isfs_idle s" and "Swi_GetEsRequest (fe_mload F w)"
  shows "\<exists>s'. isfs_idle s' \<and> ISFS_SetMode (ffs_os F) 0 [] (s, Some (st, w)) = (0, s', Some (mode_off st, w))"
proof -
  let ?s = "s\<lparr> isfs_fd := 64 \<rparr>"
  let ?m = "setmode_message 0x20100000 0 [] ?s"
  have b: "length (isfsBuf ?s) = sizeof_isfs" using assms(1) by (simp add: isfs_idle_def)
  have len: "length (isfsBuf ?m) = sizeof_isfs" using setmode_message_get(3) [OF b, of "[]"] by simp
  have "FS_SetMode F 0 [] st w = Some (0, mode_off st, w)" using assms(2) by (simp add: FS_SetMode_def)
  then have "FS_Ioctlv F 100 (config_bufs ?m) 2 0 st w = Some ((0, 1, config_bufs ?m), mode_off st, w)"
    using setmode_understood [OF b, of "[]" F "0x20100000" 0 st w] by (simp add: cstring_ok_def)
  then have "ISFS_SetMode (ffs_os F) 0 [] (s, Some (st, w)) = (0, ?m\<lparr> isfs_fd := -1 \<rparr>, Some (mode_off st, w))"
    using assms(1) config_back_bufs [OF len]
    by (simp add: ISFS_SetMode_def ISFS_Open_def ISFS_Close_def ffs_os_def isfs_idle_def Let_def)
  then show ?thesis using len by (intro exI [of _ "?m\<lparr> isfs_fd := -1 \<rparr>"]) (simp add: isfs_idle_def)
qed

section \<open>What a request may change in the configuration\<close>

lemma GetTicketView_config: "ES_GetTicketView E h l st w = (r, st', w') \<Longrightarrow> es_config st' = es_config st"
  by (auto simp: ES_GetTicketView_def Let_def split: prod.splits if_splits)

lemma CustomLaunch_config: "ES_CustomLaunch E h l st w = (r, st', w') \<Longrightarrow> es_config st' = es_config st"
  by (auto simp: ES_CustomLaunch_def dest: GetTicketView_config split: prod.splits option.splits)

lemma launch_game_ios_config: "launch_game_ios E h st w = (r, st', w') \<Longrightarrow> es_config st' = es_config st"
  by (auto simp: launch_game_ios_def Let_def dest: CustomLaunch_config split: prod.splits)

lemma launch_menu_config: "es_config (fst (launch_menu E st w)) = es_config st"
  by (simp add: launch_menu_def split: prod.splits)

lemma fake_tid_of_config: "fake_tid_of E t st w = (f, st', w') \<Longrightarrow> es_config st' = es_config st"
  by (auto simp: fake_tid_of_def Let_def dest: GetTitleID_frame(1) split: prod.splits if_splits)

lemma use_fake_tid_config:
  assumes "use_fake_tid E j fake vec ret st w = Some (r, st', w')"
  shows "es_config st' = es_config st"
proof -
  obtain v st1 w1 where g: "ES_GetTicketView E (tid_hi fake) (tid_lo fake) st w = (v, st1, w1)" by (rule prod_cases3)
  obtain r1 o' where v: "v = (r1, o')" by (rule prod.exhaust)
  show ?thesis using assms GetTicketView_config [OF g]
    by (auto simp: use_fake_tid_def g v bind_eq_Some_conv split: if_splits option.splits)
qed

lemma FixMissingTitle_config:
  assumes "ES_FixMissingTitle E j vec ret st w = Some (r, st', w')"
  shows "es_config st' = es_config st"
proof -
  obtain count tidp where v: "rd vec 1 = Some count" "rd vec 0 = Some tidp"
    using assms by (auto simp: ES_FixMissingTitle_def bind_eq_Some_conv)
  consider "st' = st" | cb tb t64 where "count = Some cb" "tidp = Some tb" "tid_hi t64 = 1"
    "(case fake_tid_of E t64 st w of (fake, st1, w1) \<Rightarrow> use_fake_tid E j fake vec ret st1 w1) = Some (r, st', w')"
    using assms unfolding ES_FixMissingTitle_def v
    by (cases count; cases tidp) (auto simp: bind_eq_Some_conv split: if_splits)
  then show ?thesis
  proof cases
    case 2
    obtain fake st1 w1 where f: "fake_tid_of E t64 st w = (fake, st1, w1)" by (rule prod_cases3)
    then show ?thesis using 2(4) use_fake_tid_config [of E j fake vec ret st1 w1] fake_tid_of_config [OF f] by simp
  qed simp
qed

text \<open>The settings a running title must not change.\<close>

definition same_settings :: "es_state \<Rightarrow> es_state \<Rightarrow> bool" where
  "same_settings st' st \<longleftrightarrow> es_ios (es_config st') = es_ios (es_config st)
     \<and> sm_title_id (es_config st') = sm_title_id (es_config st)
     \<and> (fakelaunch (es_config st') = fakelaunch (es_config st) \<or> fakelaunch (es_config st') = 0)"

lemma same_settingsI: "es_config st' = es_config st \<Longrightarrow> same_settings st' st"
  by (simp add: same_settings_def)

lemma RemoveError002_settings: "same_settings (fst (ES_RemoveError002 E d st w)) st"
  by (auto simp: ES_RemoveError002_def same_settings_def Let_def split: option.splits)

lemma Launch_settings:
  assumes "ES_Launch E i n vec st w = Some (r, st', w')"
  shows "same_settings st' st"
proof -
  obtain b t64 where b: "rd vec 0 = Some (Some b)" "rd64 b 0 = Some t64"
    using assms by (auto simp: ES_Launch_def bind_eq_Some_conv)
  define m where "m = (if tid_hi t64 = 1 \<and> tid_lo t64 = 2 then launch_menu E st w else (st, w))"
  obtain st1 w1 where m1: "m = (st1, w1)" by (rule prod.exhaust)
  have c1: "es_config st1 = es_config st"
    using launch_menu_config [of E st w] m1 by (auto simp: m_def split: if_splits)
  let ?sm = "sm_title_id (es_config st1)"
  obtain r2 st2 w2 where cl: "ES_CustomLaunch E (tid_hi ?sm) (tid_lo ?sm) st1 w1 = (r2, st2, w2)" by (rule prod_cases3)
  obtain g st3 w3 where gt: "ES_GetTitleID E st1 w1 = (g, st3, w3)" by (rule prod_cases3)
  obtain ret t where g: "g = (ret, t)" by (rule prod.exhaust)
  obtain r4 st4 w4 where lg: "launch_game_ios E (tid_hi t64) (set_config (\<lambda>c. c\<lparr> title_id := t \<rparr>) st3) w3 = (r4, st4, w4)"
    by (rule prod_cases3)
  have c: "es_config st2 = es_config st1" "es_config st3 = es_config st1"
    "es_config st4 = (es_config st3)\<lparr> title_id := t \<rparr>"
    using CustomLaunch_config [OF cl] GetTitleID_frame(1) [OF gt] launch_game_ios_config [OF lg] by simp_all
  have "st' = st1 \<or> st' = st2 \<or> st' = st4 \<or> st' = set_config (\<lambda>c. c\<lparr> title_id := 0 \<rparr>) st3"
    using assms unfolding ES_Launch_def b Option.bind.bind_lunit Let_def m_def [symmetric] m1 prod.case cl gt g lg es_forward_def
    by (auto split: if_splits prod.splits)
  then show ?thesis using c c1 by (auto simp: same_settings_def)
qed

section \<open>Properties\<close>

text \<open>
  C35. The block of reloads survives the reload: when a disc game launches another system while the block is on, the
  plugin saves its configuration with the title of the game and launches the system it stands in for; the
  plugin of that system reads the configuration back at its start, and the check of the game's metadata then gives the
  kernel the version the game requires, and switches the block off for any other title.
\<close>

theorem reload_block_survives:
  assumes "fs_service (ee_os E) content cursor is_fs" and "es_quiet E content"
    and "isfs_idle (es_isfs st)" and "content w es_cfg_filename = None"
    and "rd64 b 0 = Some t64" and "tid_hi t64 = 1" and "3 \<le> tid_lo t64" and "tid_lo t64 \<le> 255"
    and "fakelaunch (es_config st) \<noteq> 0" and "title_id (es_config st) = 0"
    and "ES_GetTitleID E st w = ((ret, g), st1, w1)" and "0 \<le> ret" and "is_disc_based_game g"
  shows "\<exists>r st2 w2. ES_EmulateIoctlv E 0x08 i n (Some b # vs) st w = Some ((r, Some b # vs), st2, w2)
    \<and> es_config (fst (es_main E w2)) = (es_config st)\<lparr> title_id := g \<rparr>
    \<and> (\<forall>tmd v. sizeof_sig_rsa2048 + sizeof_tmd \<le> length tmd \<longrightarrow>
        ES_RemoveError002 E (Some tmd) (fst (es_main E w2)) v
        = (if be64 (take 8 (drop 396 tmd)) = g
           then ((fst (es_main E w2))\<lparr> es_config := es_config st \<rparr>,
                 ee_set_version E (push_bit 16 (ucast (be64 (take 8 (drop 388 tmd)))) OR 0xFFFF) v)
           else ((fst (es_main E w2))\<lparr> es_config := (es_config st)\<lparr> fakelaunch := 0 \<rparr> \<rparr>, v)))"
proof -
  note f = GetTitleID_frame [OF assms(11)]
  let ?st = "set_config (\<lambda>c. c\<lparr> title_id := g \<rparr>) st1"
  obtain r st2 w2 where l: "launch_game_ios E 1 ?st w1 = (r, st2, w2)" by (rule prod_cases3)
  have i: "isfs_idle (es_isfs ?st)" using assms(3) f(2) by simp
  have n1: "content w1 es_cfg_filename = None" using assms(4) f(3) [OF assms(2)] by simp
  have sv: "content w2 es_cfg_filename = Some (enc_esConfig ((es_config st)\<lparr> title_id := g \<rparr>))"
    using launch_game_ios_saves [OF assms(1,2), OF i n1 l] unfolding f(1) by (simp add: f(1))
  have c: "es_config (fst (es_main E w2)) = (es_config st)\<lparr> title_id := g \<rparr>"
    by (rule es_main_loads [OF assms(1), OF sv]) (simp add: disc_game_not_0 [OF assms(13)])
  have nm: "tid_lo t64 \<noteq> 2" using assms(7) by auto
  have "ES_EmulateIoctlv E 0x08 i n (Some b # vs) st w = Some ((r, Some b # vs), st2, w2)"
    using assms(5-13) nm l by (simp add: ES_EmulateIoctlv_def ES_Launch_def rd_def Let_def)
  then show ?thesis using c RemoveError002_loaded [OF c assms(9,10) disc_game_not_0 [OF assms(13)]]
    by (intro exI conjI allI impI)
qed

theorem reload_block_survives_witness:
  "\<exists>r st2 w2. ES_EmulateIoctlv ram_es 0x08 1 0 [Some (put_be64 0x0000000100000025)]
        (ES_SetFakeIosLaunch 1 56 es_zero) (\<lambda>_. None, \<lambda>_. None) = Some ((r, [Some (put_be64 0x0000000100000025)]), st2, w2)
    \<and> title_id (es_config (fst (es_main ram_es w2))) = 0x0001000052534245"
proof -
  let ?st = "ES_SetFakeIosLaunch 1 56 es_zero"
  let ?w = "(\<lambda>_. None, \<lambda>_. None) :: (string \<Rightarrow> bytes option) \<times> (s32 \<Rightarrow> (string \<times> nat) option)"
  have g: "ES_GetTitleID ram_es ?st ?w = ((0, 0x0001000052534245), ?st\<lparr> tmp_tid := put_be64 0x0001000052534245 \<rparr>, ?w)"
    by (simp add: ES_GetTitleID_def ram_es_def)
  have s: "fs_service (ee_os ram_es) fst snd (\<lambda>_ _. True)" using ram_fs_service by (simp add: ram_es_def)
  have t: "rd64 (put_be64 0x0000000100000025) 0 = Some 0x0000000100000025" by (simp add: rd64_def rd_block_def)
  have "isfs_idle (es_isfs ?st)" by (simp add: ES_SetFakeIosLaunch_def es_zero_def isfs_idle_def isfs_zero_def)
  from reload_block_survives [OF s ram_es_quiet this _ t _ _ _ _ _ g, of 1 0 "[]"] show ?thesis
    by (auto simp: tid_hi_def tid_lo_def ES_SetFakeIosLaunch_def es_zero_def is_disc_based_game_def)
qed

text \<open>
  A running title cannot change what the plugin launches: whatever the request, while a title runs in stealth mode the
  system and the title that stand in for others stay as they are, and the block of reloads can only be switched off.
\<close>

theorem es_settings_safe:
  assumes "Stealth_CheckRunningTitle (ee_mload E w)"
    and "ES_EmulateIoctlv E cmd i n vec st w = Some (r, st', w')"
  shows "es_ios (es_config st') = es_ios (es_config st) \<and> sm_title_id (es_config st') = sm_title_id (es_config st)
    \<and> (fakelaunch (es_config st') = fakelaunch (es_config st) \<or> fakelaunch (es_config st') = 0)"
  unfolding same_settings_def [symmetric]
proof -
  consider "cmd = 0x1C" | "cmd = 0x12 \<or> cmd = 0x13" | "cmd = 0x08" | "cmd \<notin> {0x1C, 0x12, 0x13, 0x08}" by blast
  then show "same_settings st' st"
  proof cases
    case 1
    obtain d where d: "rd vec 3 = Some d" using assms(2) 1 by (auto simp: ES_EmulateIoctlv_def bind_eq_Some_conv)
    have "st' = fst (ES_RemoveError002 E d st w)"
      using assms(2) 1 d by (simp add: ES_EmulateIoctlv_def Let_def split: prod.splits)
    then show ?thesis using RemoveError002_settings by simp
  next
    case 2
    then show ?thesis using assms(2)
      by (auto simp: ES_EmulateIoctlv_def split: prod.splits intro!: same_settingsI dest: FixMissingTitle_config)
  next
    case 3
    then show ?thesis using assms(2) Launch_settings by (simp add: ES_EmulateIoctlv_def)
  next
    case 4
    then show ?thesis using assms
      by (auto simp: ES_EmulateIoctlv_def es_forward_def intro!: same_settingsI split: if_splits prod.splits)
  qed
qed

theorem es_settings_safe_witness:
  "Stealth_CheckRunningTitle (ee_mload (es_on_ffs demo_ffs demo_es) (Some (fs_zero, Swi_SetRunningTitle 1 mload_zero)))
    \<and> es_ios (es_config (ES_SetFakeIosLaunch 1 56 es_zero)) = 56
    \<and> ES_EmulateIoctlv (es_on_ffs demo_ffs demo_es) 0xA0 1 0 [Some (put_be32 0)] (ES_SetFakeIosLaunch 1 56 es_zero)
        (Some (fs_zero, Swi_SetRunningTitle 1 mload_zero))
      = Some ((IPC_ENOENT, [Some (put_be32 0)]), ES_SetFakeIosLaunch 1 56 es_zero,
          Some (fs_zero, Swi_SetRunningTitle 1 mload_zero))"
proof -
  let ?E = "es_on_ffs demo_ffs demo_es" and ?st = "ES_SetFakeIosLaunch 1 56 es_zero"
  let ?w = "Some (fs_zero, Swi_SetRunningTitle 1 mload_zero)"
  have r: "Stealth_CheckRunningTitle (ee_mload ?E ?w)"
    by (simp add: es_on_ffs_def demo_ffs_def Swi_SetRunningTitle_def mload_zero_def Stealth_CheckRunningTitle_def
      Swi_GetRunningTitle_def)
  then have e: "ES_EmulateIoctlv ?E 0xA0 1 0 [Some (put_be32 0)] ?st ?w = Some ((IPC_ENOENT, [Some (put_be32 0)]), ?st, ?w)"
    by (simp add: ES_EmulateIoctlv_def)
  have "es_ios (es_config ?st) = 56" by (simp add: ES_SetFakeIosLaunch_def)
  then show ?thesis using r e es_settings_safe [OF r e] by (intro conjI)
qed

text \<open>
  C36. The system menu runs on the real memory: a launch of the menu, when no other title is set to stand in for it and though a title is running and the file system
  plugin refuses it the change, switches the emulated memory off before the launch goes on, and the permission the
  plugin gave itself for it is withdrawn again.
\<close>

theorem menu_launch_ends_emulation:
  assumes "\<And>m w. fe_mload F (fe_set_mload F m w) = m"
    and "isfs_idle (es_isfs st)" and "sm_title_id (es_config st) = 0" and "rd64 b 0 = Some 0x0000000100000002"
  shows "\<exists>s w'. ES_EmulateIoctlv (es_on_ffs F E) 0x08 i n (Some b # vs) st (Some (fs, w))
      = es_forward (es_on_ffs F E) 0x08 i n (Some b # vs) (st\<lparr> es_isfs := s \<rparr>) (Some (mode_off fs, w'))
    \<and> isfs_idle s \<and> fe_mload F w' = (fe_mload F w)\<lparr> es_request := 0 \<rparr>"
proof -
  let ?w1 = "fe_set_mload F (Swi_SetEsRequest 1 (fe_mload F w)) w"
  have "Swi_GetEsRequest (fe_mload F ?w1)" by (simp add: assms(1) Swi_GetEsRequest_def Swi_SetEsRequest_def)
  from ffs_nand_mode [OF assms(2) this, of fs] obtain s where s: "isfs_idle s"
    "ISFS_SetMode (ffs_os F) 0 [] (es_isfs st, Some (fs, ?w1)) = (0, s, Some (mode_off fs, ?w1))" by (elim exE conjE)
  let ?w2 = "fe_set_mload F (Swi_SetEsRequest 0 (fe_mload F ?w1)) ?w1"
  have m: "launch_menu (es_on_ffs F E) st (Some (fs, w)) = (st\<lparr> es_isfs := s \<rparr>, Some (mode_off fs, ?w2))"
    using s(2) by (simp add: launch_menu_def swi_def es_on_ffs_def)
  have "ES_EmulateIoctlv (es_on_ffs F E) 0x08 i n (Some b # vs) st (Some (fs, w))
      = es_forward (es_on_ffs F E) 0x08 i n (Some b # vs) (st\<lparr> es_isfs := s \<rparr>) (Some (mode_off fs, ?w2))"
    using assms(3,4) m by (simp add: ES_EmulateIoctlv_def ES_Launch_def rd_def Let_def tid_hi_def tid_lo_def)
  moreover have "fe_mload F ?w2 = (fe_mload F w)\<lparr> es_request := 0 \<rparr>"
    by (simp add: assms(1) Swi_SetEsRequest_def)
  ultimately show ?thesis using s(1) by (intro exI conjI)
qed

theorem menu_launch_ends_emulation_witness:
  "\<exists>s w'. ES_EmulateIoctlv (es_on_ffs demo_ffs demo_es) 0x08 1 0 [Some (put_be64 0x0000000100000002)] es_zero
        (Some (fs_zero\<lparr> fsc_mode := 2 \<rparr>, Swi_SetRunningTitle 1 mload_zero))
      = es_forward (es_on_ffs demo_ffs demo_es) 0x08 1 0 [Some (put_be64 0x0000000100000002)]
          (es_zero\<lparr> es_isfs := s \<rparr>) (Some (mode_off (fs_zero\<lparr> fsc_mode := 2 \<rparr>), w'))
    \<and> isfs_idle s \<and> fe_mload demo_ffs w' = (fe_mload demo_ffs (Swi_SetRunningTitle 1 mload_zero))\<lparr> es_request := 0 \<rparr>"
  by (rule menu_launch_ends_emulation)
    (simp_all add: demo_ffs_def es_zero_def isfs_idle_def isfs_zero_def rd64_def rd_block_def)

end
