(* ===== verification/Sdio.thy ===== *)
theory Sdio
  imports Cios_Prelude
begin

text \<open>
  The driver of the SD card slot (\<open>cios-lib/sdio.c\<close>): the commands, the start-up of a card, reads and writes of
  sectors. The slot device of the system and the sleeping are the parameter \<open>sd_os\<close>; a request passes its
  bytes and the old contents of the buffer for the answer. The driver hands the address of a data buffer
  to the device and never looks at the data, so memory belongs to \<open>'w\<close>.
\<close>

section \<open>State\<close>

record 'w sd_os =
  so_open :: "string \<Rightarrow> u32 \<Rightarrow> 'w \<Rightarrow> s32 \<times> 'w"
  so_close :: "s32 \<Rightarrow> 'w \<Rightarrow> 'w"
  so_ioctl :: "s32 \<Rightarrow> u32 \<Rightarrow> bytes \<Rightarrow> bytes \<Rightarrow> 'w \<Rightarrow> (s32 \<times> bytes) \<times> 'w"
  so_ioctlv :: "s32 \<Rightarrow> u32 \<Rightarrow> bytes \<Rightarrow> u32 \<Rightarrow> u32 \<Rightarrow> bytes \<Rightarrow> 'w \<Rightarrow> (s32 \<times> bytes) \<times> 'w"
  so_usleep :: "nat \<Rightarrow> 'w \<Rightarrow> 'w"

abbreviation (input) PAGE_SIZE512 :: u32 where "PAGE_SIZE512 \<equiv> 512"
abbreviation (input) SDIOHCR_HOSTCONTROL :: u8 where "SDIOHCR_HOSTCONTROL \<equiv> 0x28"
abbreviation (input) SDIOHCR_POWERCONTROL :: u8 where "SDIOHCR_POWERCONTROL \<equiv> 0x29"
abbreviation (input) SDIOHCR_CLOCKCONTROL :: u8 where "SDIOHCR_CLOCKCONTROL \<equiv> 0x2c"
abbreviation (input) SDIOHCR_TIMEOUTCONTROL :: u8 where "SDIOHCR_TIMEOUTCONTROL \<equiv> 0x2e"
abbreviation (input) SDIOHCR_SOFTWARERESET :: u8 where "SDIOHCR_SOFTWARERESET \<equiv> 0x2f"
abbreviation (input) SDIO_STATUS_CARD_INSERTED :: u32 where "SDIO_STATUS_CARD_INSERTED \<equiv> 0x1"
abbreviation (input) SDIO_STATUS_CARD_INITIALIZED :: u32 where "SDIO_STATUS_CARD_INITIALIZED \<equiv> 0x10000"
abbreviation (input) SDIO_STATUS_CARD_SDHC :: u32 where "SDIO_STATUS_CARD_SDHC \<equiv> 0x100000"

text \<open>The static variables; \<open>sd_buffer1\<close> and \<open>sd_response\<close> are the static buffers the answers come in.\<close>

record sd_state =
  sd_fd :: s32
  sd_rca :: u16
  sd_initialized :: bool
  sd_sdhc :: bool
  sd_cid :: bytes
  sdio_initialized :: bool
  sd_buffer1 :: bytes
  sd_response :: bytes

definition sd_zero :: sd_state where
  "sd_zero = \<lparr> sd_fd = -1, sd_rca = 0, sd_initialized = False, sd_sdhc = False, sd_cid = replicate 16 0,
     sdio_initialized = False, sd_buffer1 = replicate 32 0, sd_response = replicate 16 0 \<rparr>"

type_synonym 'w sd_op = "sd_state \<times> 'w \<Rightarrow> s32 \<times> sd_state \<times> 'w"

text \<open>The words of an answer.\<close>

definition buffer1_word :: "sd_state \<Rightarrow> u32" where
  "buffer1_word s = be32 (take 4 (sd_buffer1 s))"

definition rsp0 :: "sd_state \<Rightarrow> u32" where
  "rsp0 s = be32 (take 4 (sd_response s))"

section \<open>Commands\<close>

definition sdio_request :: "u32 \<Rightarrow> u32 \<Rightarrow> u32 \<Rightarrow> u32 \<Rightarrow> u32 \<Rightarrow> u32 \<Rightarrow> u32 \<Rightarrow> bytes" where
  "sdio_request cmd cmd_type rsp_type arg blk_cnt blk_size buffer =
     put_be32 cmd @ put_be32 cmd_type @ put_be32 rsp_type @ put_be32 arg @ put_be32 blk_cnt @ put_be32 blk_size
     @ put_be32 buffer @ put_be32 (if buffer \<noteq> 0 then 1 else 0) @ put_be32 0"

definition sdio_sendcommand :: "'w sd_os \<Rightarrow> u32 \<Rightarrow> u32 \<Rightarrow> u32 \<Rightarrow> u32 \<Rightarrow> u32 \<Rightarrow> u32 \<Rightarrow> u32 \<Rightarrow> 'w sd_op" where
  "sdio_sendcommand K cmd cmd_type rsp_type arg blk_cnt blk_size buffer d =
     (case d of (s, w) \<Rightarrow>
        let request = sdio_request cmd cmd_type rsp_type arg blk_cnt blk_size buffer;
            ((ret, resp), w1) =
              (if buffer \<noteq> 0 \<or> sd_sdhc s
               then so_ioctlv K (sd_fd s) 7 request buffer (blk_size * blk_cnt) (sd_response s) w
               else so_ioctl K (sd_fd s) 7 request (sd_response s) w)
        in (ret, s\<lparr> sd_response := blit (sd_response s) 0 (take 16 resp) \<rparr>, w1))"

text \<open>A request with \<open>sd_buffer1\<close> for the answer, of \<open>n\<close> bytes.\<close>

definition slot_ioctl :: "'w sd_os \<Rightarrow> u32 \<Rightarrow> bytes \<Rightarrow> nat \<Rightarrow> 'w sd_op" where
  "slot_ioctl K cmd query n d =
     (case d of (s, w) \<Rightarrow>
        let ((ret, out), w1) = so_ioctl K (sd_fd s) cmd query (take n (sd_buffer1 s)) w
        in (ret, s\<lparr> sd_buffer1 := blit (sd_buffer1 s) 0 (take n out) \<rparr>, w1))"

definition put_buffer1 :: "bytes \<Rightarrow> sd_state \<Rightarrow> sd_state" where
  "put_buffer1 bs s = s\<lparr> sd_buffer1 := blit (sd_buffer1 s) 0 bs \<rparr>"

definition sdio_setclock :: "'w sd_os \<Rightarrow> u32 \<Rightarrow> 'w sd_op" where
  "sdio_setclock K v d = (case d of (s, w) \<Rightarrow> slot_ioctl K 0x06 (put_be32 v) 0 (put_buffer1 (put_be32 v) s, w))"

definition sdio_getstatus :: "'w sd_os \<Rightarrow> sd_state \<times> 'w \<Rightarrow> u32 \<times> sd_state \<times> 'w" where
  "sdio_getstatus K d =
     (case slot_ioctl K 0x0B [] 4 d of (ret, s, w) \<Rightarrow> (if ret < 0 then of_int ret else buffer1_word s, s, w))"

definition sdio_resetcard :: "'w sd_os \<Rightarrow> 'w sd_op" where
  "sdio_resetcard K d =
     (case d of (s, w) \<Rightarrow>
        case slot_ioctl K 0x04 [] 4 (s\<lparr> sd_rca := 0 \<rparr>, w) of (ret, s1, w1) \<Rightarrow>
          if ret < 0 then (ret, s1, w1)
          else (int (unat (buffer1_word s1 AND 0xFFFF)), s1\<lparr> sd_rca := ucast (drop_bit 16 (buffer1_word s1)) \<rparr>, w1))"

definition hcr_query :: "u8 \<Rightarrow> u8 \<Rightarrow> u32 \<Rightarrow> bytes" where
  "hcr_query reg sz data = put_be32 (ucast reg) @ replicate 8 0 @ put_be32 (ucast sz) @ put_be32 data @ replicate 4 0"

definition sdio_gethcr :: "'w sd_os \<Rightarrow> u8 \<Rightarrow> u8 \<Rightarrow> sd_state \<times> 'w \<Rightarrow> (s32 \<times> u32) \<times> sd_state \<times> 'w" where
  "sdio_gethcr K reg sz d =
     (case d of (s, w) \<Rightarrow>
        case slot_ioctl K 0x02 (hcr_query reg sz 0) 4 (put_buffer1 (put_be32 0) s, w) of
          (ret, s1, w1) \<Rightarrow> ((ret, buffer1_word s1), s1, w1))"

definition sdio_sethcr :: "'w sd_os \<Rightarrow> u8 \<Rightarrow> u8 \<Rightarrow> u32 \<Rightarrow> 'w sd_op" where
  "sdio_sethcr K reg sz data d =
     (case d of (s, w) \<Rightarrow> slot_ioctl K 0x01 (hcr_query reg sz data) 0 (put_buffer1 (hcr_query reg sz data) s, w))"

fun waithcr_loop :: "'w sd_os \<Rightarrow> u8 \<Rightarrow> u8 \<Rightarrow> bool \<Rightarrow> u32 \<Rightarrow> nat \<Rightarrow> 'w sd_op" where
  "waithcr_loop K reg sz unset m 0 d = (-1, d)"
| "waithcr_loop K reg sz unset m (Suc tries) d =
     (case sdio_gethcr K reg sz d of ((ret, val), s, w) \<Rightarrow>
        if ret < 0 then (ret, s, w)
        else if unset = (val AND m = 0) then (0, s, w)
        else waithcr_loop K reg sz unset m tries (s, so_usleep K 10000 w))"

definition sdio_waithcr :: "'w sd_os \<Rightarrow> u8 \<Rightarrow> u8 \<Rightarrow> bool \<Rightarrow> u32 \<Rightarrow> 'w sd_op" where
  "sdio_waithcr K reg sz unset m = waithcr_loop K reg sz unset m 10"

definition sdio_setbuswidth :: "'w sd_os \<Rightarrow> u32 \<Rightarrow> 'w sd_op" where
  "sdio_setbuswidth K bus_width d =
     (case sdio_gethcr K SDIOHCR_HOSTCONTROL 1 d of ((ret, hc_reg), d1) \<Rightarrow>
        if ret < 0 then (ret, d1)
        else sdio_sethcr K SDIOHCR_HOSTCONTROL 1 ((hc_reg AND 0xFF AND NOT 2) OR (if bus_width = 4 then 2 else 0)) d1)"

definition sd0_getrca :: "'w sd_os \<Rightarrow> 'w sd_op" where
  "sd0_getrca K d =
     (case sdio_sendcommand K 0x03 0 6 0 0 0 0 d of (ret, s, w) \<Rightarrow>
        if ret < 0 then (ret, s, w)
        else (int (unat (rsp0 s AND 0xFFFF)), s\<lparr> sd_rca := ucast (drop_bit 16 (rsp0 s)) \<rparr>, w))"

definition rca_arg :: "sd_state \<Rightarrow> u32" where
  "rca_arg s = push_bit 16 (ucast (sd_rca s))"

definition sd0_select :: "'w sd_os \<Rightarrow> 'w sd_op" where
  "sd0_select K d = sdio_sendcommand K 0x07 3 2 (rca_arg (fst d)) 0 0 0 d"

definition sd0_deselect :: "'w sd_os \<Rightarrow> 'w sd_op" where
  "sd0_deselect K = sdio_sendcommand K 0x07 3 2 0 0 0 0"

definition sd0_setblocklength :: "'w sd_os \<Rightarrow> u32 \<Rightarrow> 'w sd_op" where
  "sd0_setblocklength K blk_len = sdio_sendcommand K 0x10 3 1 blk_len 0 0 0"

definition sd0_setbuswidth :: "'w sd_os \<Rightarrow> u32 \<Rightarrow> 'w sd_op" where
  "sd0_setbuswidth K bus_width d =
     (case sdio_sendcommand K 0x37 3 1 (rca_arg (fst d)) 0 0 0 d of (ret, d1) \<Rightarrow>
        if ret < 0 then (ret, d1)
        else sdio_sendcommand K 0x06 3 1 (if bus_width = 4 then 2 else 0) 0 0 0 d1)"

definition sd0_getcid :: "'w sd_os \<Rightarrow> 'w sd_op" where
  "sd0_getcid K d =
     (case sdio_sendcommand K 0x02 0 3 (rca_arg (fst d)) 0 0 0 d of (ret, s, w) \<Rightarrow> (ret, s\<lparr> sd_cid := take 16 (sd_response s) \<rparr>, w))"

section \<open>Start-up\<close>

text \<open>Operations in turn, up to the first that fails.\<close>

fun sd_steps :: "'w sd_op list \<Rightarrow> sd_state \<times> 'w \<Rightarrow> bool \<times> sd_state \<times> 'w" where
  "sd_steps [] d = (True, d)"
| "sd_steps (f # fs) d = (case f d of (ret, d1) \<Rightarrow> if ret < 0 then (False, d1) else sd_steps fs d1)"

definition ignoring :: "'w sd_op \<Rightarrow> 'w sd_op" where
  "ignoring f d = (case f d of (ret, d1) \<Rightarrow> (0, d1))"

definition set_sdhc :: "bool \<Rightarrow> 'w sd_op" where
  "set_sdhc b d = (case d of (s, w) \<Rightarrow> (0, s\<lparr> sd_sdhc := b \<rparr>, w))"

text \<open>From the reset of the host controller to the voltage check of the card.\<close>

definition controller_steps :: "'w sd_os \<Rightarrow> 'w sd_op list" where
  "controller_steps K =
     [sdio_sethcr K SDIOHCR_SOFTWARERESET 1 7, sdio_waithcr K SDIOHCR_SOFTWARERESET 1 True 7,
      ignoring (sdio_sethcr K 0x34 4 0x13f00c3), ignoring (sdio_sethcr K 0x38 4 0x13f00c3), set_sdhc True,
      sdio_sethcr K SDIOHCR_POWERCONTROL 1 0xe, sdio_sethcr K SDIOHCR_POWERCONTROL 1 0xf,
      sdio_sethcr K SDIOHCR_CLOCKCONTROL 2 0, sdio_sethcr K SDIOHCR_CLOCKCONTROL 2 0x101,
      sdio_waithcr K SDIOHCR_CLOCKCONTROL 2 False 2, sdio_sethcr K SDIOHCR_CLOCKCONTROL 2 0x107,
      sdio_sethcr K SDIOHCR_TIMEOUTCONTROL 1 0xe,
      sdio_sendcommand K 0x00 0 0 0 0 0 0, sdio_sendcommand K 0x08 0 7 0x1aa 0 0 0]"

text \<open>The card is asked until it is no longer busy.\<close>

fun opcond_loop :: "'w sd_os \<Rightarrow> nat \<Rightarrow> sd_state \<times> 'w \<Rightarrow> bool \<times> sd_state \<times> 'w" where
  "opcond_loop K 0 d = (False, d)"
| "opcond_loop K (Suc tries) d =
     (case sd_steps [sdio_sendcommand K 0x37 3 1 0 0 0 0, sdio_sendcommand K 0x29 0 4 0x40300000 0 0 0] d of
        (ok, s, w) \<Rightarrow>
          if \<not> ok then (False, s, w)
          else if bit (rsp0 s) 31 then (True, s, w)
          else opcond_loop K tries (s, so_usleep K 10000 w))"

definition card_init :: "'w sd_os \<Rightarrow> sd_state \<times> 'w \<Rightarrow> bool \<times> sd_state \<times> 'w" where
  "card_init K d =
     (case sd_steps (controller_steps K) d of (ok, s, w) \<Rightarrow>
        if \<not> ok \<or> rsp0 s AND 0xFF \<noteq> 0xAA then (False, s, w)
        else case opcond_loop K 10 (s, w) of (ok1, s1, w1) \<Rightarrow>
          if \<not> ok1 then (False, s1, w1)
          else sd_steps [set_sdhc (bit (rsp0 s1) 30), sd0_getcid K, sd0_getrca K] (s1, w1))"

definition init_failed :: "'w sd_os \<Rightarrow> sd_state \<times> 'w \<Rightarrow> bool \<times> sd_state \<times> 'w" where
  "init_failed K d =
     (case sdio_waithcr K SDIOHCR_SOFTWARERESET 1 True 7 (snd (sdio_sethcr K SDIOHCR_SOFTWARERESET 1 7 d)) of (_, s, w) \<Rightarrow>
        case so_open K ''/dev/sdio/slot0'' 1 (so_close K (sd_fd s) w) of (fd, w1) \<Rightarrow> (False, s\<lparr> sd_fd := fd \<rparr>, w1))"

text \<open>The common end: the bus, the clock, the block length. A failed step after the selection deselects.\<close>

definition init_bus :: "'w sd_os \<Rightarrow> sd_state \<times> 'w \<Rightarrow> bool \<times> sd_state \<times> 'w" where
  "init_bus K d =
     (case sd_steps [sdio_setbuswidth K 4, sdio_setclock K 1, sd0_select K] d of (ok, d1) \<Rightarrow>
        if \<not> ok then (False, d1)
        else case sd_steps [sd0_setblocklength K PAGE_SIZE512, sd0_setbuswidth K 4] d1 of (ok2, d2) \<Rightarrow>
          case sd0_deselect K d2 of (_, s3, w3) \<Rightarrow>
            if \<not> ok2 then (False, s3, w3) else (True, s3\<lparr> sd_initialized := True \<rparr>, w3))"

definition sd0_initio :: "'w sd_os \<Rightarrow> sd_state \<times> 'w \<Rightarrow> bool \<times> sd_state \<times> 'w" where
  "sd0_initio K d =
     (case sdio_getstatus K (snd (sdio_resetcard K d)) of (status, s, w) \<Rightarrow>
        if status AND SDIO_STATUS_CARD_INSERTED = 0 then (False, s, w)
        else if status AND SDIO_STATUS_CARD_INITIALIZED = 0 then
          (case so_open K ''/dev/sdio/slot0'' 1 (so_close K (sd_fd s) w) of (fd, w1) \<Rightarrow>
             if fd < 0 then (False, s\<lparr> sd_fd := fd \<rparr>, w1)
             else case card_init K (s\<lparr> sd_fd := fd \<rparr>, w1) of (ok, d2) \<Rightarrow> if ok then init_bus K d2 else init_failed K d2)
        else init_bus K (s\<lparr> sd_sdhc := (status AND SDIO_STATUS_CARD_SDHC \<noteq> 0) \<rparr>, w))"

definition sdio_Deinitialize :: "'w sd_os \<Rightarrow> sd_state \<times> 'w \<Rightarrow> bool \<times> sd_state \<times> 'w" where
  "sdio_Deinitialize K d =
     (case d of (s, w) \<Rightarrow> (True, s\<lparr> sd_fd := -1, sdio_initialized := False \<rparr>, if sd_fd s \<ge> 0 then so_close K (sd_fd s) w else w))"

definition sdio_Startup :: "'w sd_os \<Rightarrow> sd_state \<times> 'w \<Rightarrow> bool \<times> sd_state \<times> 'w" where
  "sdio_Startup K d =
     (case d of (s, w) \<Rightarrow>
        if sdio_initialized s then (True, s, w)
        else case so_open K ''/dev/sdio/slot0'' 1 w of (fd, w1) \<Rightarrow>
          if fd < 0 then (False, snd (sdio_Deinitialize K (s\<lparr> sd_fd := fd \<rparr>, w1)))
          else case sd0_initio K (s\<lparr> sd_fd := fd \<rparr>, w1) of (ok, s2, w2) \<Rightarrow>
            if \<not> ok then (False, snd (sdio_Deinitialize K (s2, w2))) else (True, s2\<lparr> sdio_initialized := True \<rparr>, w2))"

definition sdio_Shutdown :: "'w sd_os \<Rightarrow> sd_state \<times> 'w \<Rightarrow> bool \<times> sd_state \<times> 'w" where
  "sdio_Shutdown K d =
     (case d of (s, w) \<Rightarrow>
        if \<not> sd_initialized s then (False, s, w)
        else case sdio_Deinitialize K (s, w) of (_, s1, w1) \<Rightarrow> (True, s1\<lparr> sd_initialized := False \<rparr>, w1))"

section \<open>Sectors\<close>

text \<open>A transfer is tried ten times. On a card that counts bytes the sector is turned into bytes at every try.\<close>

fun rw_loop :: "'w sd_os \<Rightarrow> u32 \<Rightarrow> nat \<Rightarrow> u32 \<Rightarrow> u32 \<Rightarrow> u32 \<Rightarrow> sd_state \<times> 'w \<Rightarrow> bool \<times> sd_state \<times> 'w" where
  "rw_loop K cmd 0 sector numSectors buffer d = (False, d)"
| "rw_loop K cmd (Suc tries) sector numSectors buffer d =
     (case sd0_select K d of (ret, d1) \<Rightarrow>
        if ret < 0 then rw_loop K cmd tries sector numSectors buffer d1
        else let sector1 = (if sd_sdhc (fst d1) then sector else sector * PAGE_SIZE512);
                 (ret2, d2) = sdio_sendcommand K cmd 4 1 sector1 numSectors PAGE_SIZE512 buffer d1;
                 (_, d3) = sd0_deselect K d2
             in if ret2 \<ge> 0 then (True, d3) else rw_loop K cmd tries sector1 numSectors buffer d3)"

definition sdio_ReadSectors :: "'w sd_os \<Rightarrow> u32 \<Rightarrow> u32 \<Rightarrow> u32 \<Rightarrow> sd_state \<times> 'w \<Rightarrow> bool \<times> sd_state \<times> 'w" where
  "sdio_ReadSectors K sector numSectors buffer d =
     (if buffer = 0 then (False, d) else rw_loop K 0x12 10 sector numSectors buffer d)"

definition sdio_WriteSectors :: "'w sd_os \<Rightarrow> u32 \<Rightarrow> u32 \<Rightarrow> u32 \<Rightarrow> sd_state \<times> 'w \<Rightarrow> bool \<times> sd_state \<times> 'w" where
  "sdio_WriteSectors K sector numSectors buffer d =
     (if buffer = 0 then (False, d) else rw_loop K 0x19 10 sector numSectors buffer d)"

definition sdio_ClearStatus :: bool where
  "sdio_ClearStatus = True"

definition sdio_IsInserted :: "'w sd_os \<Rightarrow> sd_state \<times> 'w \<Rightarrow> bool \<times> sd_state \<times> 'w" where
  "sdio_IsInserted K d =
     (case sdio_getstatus K d of (status, d1) \<Rightarrow> (status AND SDIO_STATUS_CARD_INSERTED = SDIO_STATUS_CARD_INSERTED, d1))"

definition sdio_IsInitialized :: "'w sd_os \<Rightarrow> sd_state \<times> 'w \<Rightarrow> bool \<times> sd_state \<times> 'w" where
  "sdio_IsInitialized K d =
     (case sdio_getstatus K d of (status, d1) \<Rightarrow> (status AND SDIO_STATUS_CARD_INITIALIZED = SDIO_STATUS_CARD_INITIALIZED, d1))"

end
