(* ===== verification/Disk_Blocks.thy ===== *)
theory Disk_Blocks
  imports Libc
begin

text \<open>
  What the storage drivers are compared with: a disk as the bytes of its sectors, and the contract of a driver
  that moves whole sectors between the disk and the memory. The USB drive and the SD card interpret it.
\<close>

section \<open>Sectors\<close>

definition sectors :: "(nat \<Rightarrow> bytes) \<Rightarrow> nat \<Rightarrow> nat \<Rightarrow> bytes" where
  "sectors disk s n = concat (map disk [s..<s + n])"

text \<open>Bytes stored from sector \<open>s\<close> on.\<close>

definition store_sectors :: "nat \<Rightarrow> nat \<Rightarrow> bytes \<Rightarrow> (nat \<Rightarrow> bytes) \<Rightarrow> nat \<Rightarrow> bytes" where
  "store_sectors ss s bs disk i =
     (if s \<le> i \<and> i < s + length bs div ss then take ss (drop ((i - s) * ss) bs) else disk i)"

lemma length_sectors: "(\<And>i. length (disk i) = k) \<Longrightarrow> length (sectors disk s n) = n * k"
  by (simp add: sectors_def length_concat comp_def sum_list_triv)

lemma store_sectors_inside:
  assumes "length bs = n * ss" and "0 < ss" and "i < n"
  shows "store_sectors ss s bs disk (s + i) = take ss (drop (i * ss) bs)"
  using assms by (simp add: store_sectors_def)

lemma store_sectors_outside:
  assumes "length bs = n * ss" and "0 < ss" and "i < s \<or> s + n \<le> i"
  shows "store_sectors ss s bs disk i = disk i"
  using assms by (auto simp: store_sectors_def)

lemma length_store_sectors:
  assumes "length bs = n * ss" and "0 < ss" and "\<And>i. length (disk i) = ss"
  shows "length (store_sectors ss s bs disk i) = ss"
proof (cases "s \<le> i \<and> i < s + n")
  case True
  then have "(i - s) * ss + ss \<le> n * ss" using mult_le_mono1 [of "Suc (i - s)" n ss] by (simp add: ac_simps less_diff_conv2 Suc_le_eq)
  then show ?thesis using True assms(1,2) by (simp add: store_sectors_def)
next
  case False
  then show ?thesis using assms by (auto simp: store_sectors_def)
qed

lemma sectors_pieces: "length bs = n * ss \<Longrightarrow> concat (map (\<lambda>i. take ss (drop (i * ss) bs)) [0..<n]) = bs"
proof (induction n arbitrary: bs)
  case (Suc n)
  have "concat (map (\<lambda>i. take ss (drop (i * ss) (drop ss bs))) [0..<n]) = drop ss bs"
    by (rule Suc.IH) (use Suc.prems in simp)
  moreover have "map (\<lambda>i. take ss (drop (i * ss) bs)) [0..<Suc n] = take ss bs # map (\<lambda>i. take ss (drop (i * ss) (drop ss bs))) [0..<n]"
    by (subst upt_conv_Cons) (simp_all add: map_Suc_upt [symmetric] ac_simps del: upt_Suc)
  ultimately show ?case by simp
qed simp

lemma sectors_store:
  assumes "length bs = n * ss" and "0 < ss"
  shows "sectors (store_sectors ss s bs disk) s n = bs"
proof -
  have "map (store_sectors ss s bs disk) [s..<s + n] = map (\<lambda>i. take ss (drop (i * ss) bs)) [0..<n]"
    by (rule nth_equalityI) (use assms in \<open>simp_all add: store_sectors_inside\<close>)
  then show ?thesis using sectors_pieces [OF assms(1)] by (simp add: sectors_def)
qed

lemma rdm_wr: "length bs < 4294967296 \<Longrightarrow> k + n \<le> length bs \<Longrightarrow> rdm (wr m a bs) (a + of_nat k) n = take n (drop k bs)"
  by (rule nth_equalityI) (simp_all add: rdm_def wr_def unat_of_nat_u32 flip: of_nat_add)

lemma sectors_append: "k \<le> n \<Longrightarrow> sectors disk s k @ sectors disk (s + k) (n - k) = sectors disk s n"
proof -
  assume "k \<le> n"
  then have "[s..<s + k] @ [s + k..<s + n] = [s..<s + n]" using upt_add_eq_append [of s "s + k" "n - k"] by simp
  then have "concat (map disk [s..<s + n]) = concat (map disk ([s..<s + k] @ [s + k..<s + n]))" by simp
  then show ?thesis using \<open>k \<le> n\<close> by (simp add: sectors_def)
qed

lemma nth_sectors:
  assumes "\<And>i. length (disk i) = ss" and "i < n" and "j < ss"
  shows "sectors disk s n ! (i * ss + j) = disk (s + i) ! j"
proof -
  have "sectors disk (s + i) (n - i) = disk (s + i) @ sectors disk (Suc (s + i)) (n - i - 1)"
    using assms(2) by (simp add: sectors_def upt_conv_Cons)
  then show ?thesis
    unfolding sectors_append [OF less_imp_le [OF assms(2)], of disk s, symmetric]
    using assms(1,3) by (simp add: nth_append length_sectors [of disk ss])
qed

text \<open>Two places in memory with a gap or nothing between them share no byte.\<close>

lemma places_apart:
  fixes a b x :: u32
  assumes "unat a + n \<le> unat b" and "unat b + k \<le> 4294967296"
  shows "\<not> (unat (x - a) < n \<and> unat (x - b) < k)"
proof
  assume x: "unat (x - a) < n \<and> unat (x - b) < k"
  have "unat (x - a + a) = unat (x - a) + unat a" using x assms by (subst unat_u32_add) linarith+
  moreover have "unat (x - b + b) = unat (x - b) + unat b" using x assms by (subst unat_u32_add) linarith+
  ultimately show False using x assms by simp
qed

text \<open>A block that was filled, and where else the memory may have changed.\<close>

definition filled :: "(u32 \<Rightarrow> bool) \<Rightarrow> memory \<Rightarrow> memory \<Rightarrow> u32 \<Rightarrow> bytes \<Rightarrow> bool" where
  "filled E m m' a bs \<longleftrightarrow> (\<forall>x. (unat (x - a) < length bs \<longrightarrow> m' x = bs ! unat (x - a))
     \<and> (unat (x - a) < length bs \<or> E x \<or> m' x = m x))"

lemma unat_off_sub: "k \<le> unat x \<Longrightarrow> unat (x - of_nat k :: u32) = unat x - k"
proof -
  assume k: "k \<le> unat x"
  then have "unat (of_nat k :: u32) = k" using u32_less [of x] by (intro unat_of_nat_u32) linarith
  then show ?thesis using k by (simp add: unat_sub word_le_nat_alt)
qed

lemma unat_wrap_sub: "unat x < k \<Longrightarrow> k < 4294967296 \<Longrightarrow> unat (x - of_nat k :: u32) = unat x + 4294967296 - k"
  by (subst unat_sub_if') (simp add: word_le_nat_alt unat_of_nat_u32)

text \<open>Two transfers one after the other are one.\<close>

lemma filled_append:
  assumes "filled E m m1 a bs" and "filled E m1 m2 (a + of_nat (length bs)) cs"
    and "length bs + length cs < 4294967296" and "\<And>x. unat (x - a) < length bs + length cs \<Longrightarrow> \<not> E x"
  shows "filled E m m2 a (bs @ cs)"
  unfolding filled_def
proof (intro allI)
  fix x :: u32
  let ?i = "unat (x - a)" and ?j = "unat (x - (a + of_nat (length bs)))"
  have e: "x - (a + of_nat (length bs)) = (x - a) - of_nat (length bs)" by simp
  have p1: "?i < length bs \<Longrightarrow> m1 x = bs ! ?i" "?i < length bs \<or> E x \<or> m1 x = m x"
    using assms(1) by (simp_all add: filled_def)
  have p2: "?j < length cs \<Longrightarrow> m2 x = cs ! ?j" "?j < length cs \<or> E x \<or> m2 x = m1 x"
    using assms(2) by (simp_all add: filled_def)
  have ob: "\<not> (?i < length bs + length cs \<and> E x)" using assms(4) by blast
  show "(?i < length (bs @ cs) \<longrightarrow> m2 x = (bs @ cs) ! ?i)
    \<and> (?i < length (bs @ cs) \<or> E x \<or> m2 x = m x)"
  proof (cases "?i < length bs")
    case True
    then have "?j = ?i + 4294967296 - length bs" unfolding e using assms(3) by (intro unat_wrap_sub) simp_all
    then have "\<not> ?j < length cs" using True assms(3) by linarith
    then have "m2 x = m1 x" using p2(2) ob True by linarith
    then show ?thesis using True p1(1) by (simp add: nth_append)
  next
    case False
    then have j: "?j = ?i - length bs" unfolding e by (intro unat_off_sub) simp
    show ?thesis
    proof (cases "?j < length cs")
      case True
      then have "?i < length bs + length cs" using j False by linarith
      then show ?thesis using p2(1) True j False by (simp add: nth_append)
    next
      case jF: False
      then have "\<not> ?i < length (bs @ cs)" using j False by simp
      then show ?thesis using p1(2) p2(2) jF False by auto
    qed
  qed
qed

lemma filledI:
  assumes "\<And>i. i < length bs \<Longrightarrow> m' (a + of_nat i) = bs ! i" and "\<And>x. unat (x - a) < length bs \<or> E x \<or> m' x = m x"
  shows "filled E m m' a bs"
  unfolding filled_def
proof (intro allI conjI impI)
  fix x :: u32
  show "unat (x - a) < length bs \<or> E x \<or> m' x = m x" by (rule assms(2))
  assume "unat (x - a) < length bs"
  from assms(1) [OF this] show "m' x = bs ! unat (x - a)" by simp
qed

lemma filled_weaken: "filled E m m' a bs \<Longrightarrow> (\<And>x. E x \<Longrightarrow> F x) \<Longrightarrow> filled F m m' a bs"
  by (auto simp: filled_def)

text \<open>Words stored before a transfer, outside its block.\<close>

lemma filled_after:
  assumes "filled E m1 m2 a bs" and "\<And>x. \<not> E x \<Longrightarrow> m1 x = m x"
  shows "filled E m m2 a bs"
  using assms unfolding filled_def by metis

lemma rdm_cong: "(\<And>i. i < n \<Longrightarrow> m' (a + of_nat i) = m (a + of_nat i)) \<Longrightarrow> rdm m' a n = rdm m a n"
  by (simp add: rdm_def)

lemma load32_eq: "load32 m' a = load32 m a'" if "rdm m' a 4 = rdm m a' 4"
  using that unfolding put_load32 [symmetric] by (metis be32_put)

lemma load32_store: "load32 (store32 m a v) a = v"
proof -
  have "rdm (store32 m a v) a 4 = put_be32 v" using rdm_wr [of "put_be32 v" 0 4 m a] by (simp add: store32_wr)
  then show ?thesis unfolding put_load32 [symmetric] by (metis be32_put)
qed

lemma load32_other:
  assumes "\<And>x. unat (x - b) < 4 \<Longrightarrow> \<not> unat (x - a) < 4"
  shows "load32 (store32 m a v) b = load32 m b"
proof (rule load32_eq, rule rdm_cong)
  fix i :: nat
  assume "i < 4"
  then have "unat (b + of_nat i - b) < 4" by (simp add: unat_of_nat_u32)
  then show "store32 m a v (b + of_nat i) = m (b + of_nat i)"
    using assms [of "b + of_nat i"] by (simp add: store32_wr wr_def)
qed

section \<open>The contract of a driver\<close>

text \<open>
  \<open>usable\<close> is the state in which the driver serves requests, \<open>fits\<close> says which sectors and which place of the
  buffer a request may name; both survive a request. \<open>None\<close> is a request that fails.
\<close>

locale sector_driver =
  fixes ss :: nat
    and usable :: "'s \<Rightarrow> bool"
    and fits :: "'s \<Rightarrow> nat \<Rightarrow> nat \<Rightarrow> u32 \<Rightarrow> bool"
    and mem_of :: "'s \<Rightarrow> memory"
    and disk_of :: "'s \<Rightarrow> nat \<Rightarrow> bytes"
    and rd_op :: "nat \<Rightarrow> nat \<Rightarrow> u32 \<Rightarrow> 's \<Rightarrow> 's option"
    and wr_op :: "nat \<Rightarrow> nat \<Rightarrow> u32 \<Rightarrow> 's \<Rightarrow> 's option"
  assumes ss_pos: "usable d \<Longrightarrow> 0 < ss"
    and reads: "usable d \<Longrightarrow> fits d s n b \<Longrightarrow> \<exists>d'. rd_op s n b d = Some d' \<and> usable d' \<and> disk_of d' = disk_of d
          \<and> rdm (mem_of d') b (n * ss) = sectors (disk_of d) s n"
    and writes: "usable d \<Longrightarrow> fits d s n b \<Longrightarrow> \<exists>d'. wr_op s n b d = Some d' \<and> usable d' \<and> fits d' = fits d
          \<and> disk_of d' = store_sectors ss s (rdm (mem_of d) b (n * ss)) (disk_of d)"
begin

lemma write_then_read:
  assumes "usable d" and "fits d s n a" and "fits d s n b"
  shows "\<exists>d1 d2. wr_op s n a d = Some d1 \<and> rd_op s n b d1 = Some d2
    \<and> rdm (mem_of d2) b (n * ss) = rdm (mem_of d) a (n * ss)
    \<and> disk_of d2 = disk_of d1 \<and> (\<forall>i. i < s \<or> s + n \<le> i \<longrightarrow> disk_of d1 i = disk_of d i)"
proof -
  let ?bs = "rdm (mem_of d) a (n * ss)"
  obtain d1 where 1: "wr_op s n a d = Some d1" "usable d1" "fits d1 = fits d" "disk_of d1 = store_sectors ss s ?bs (disk_of d)"
    using writes [OF assms(1,2)] by blast
  obtain d2 where 2: "rd_op s n b d1 = Some d2" "disk_of d2 = disk_of d1" "rdm (mem_of d2) b (n * ss) = sectors (disk_of d1) s n"
    using reads [OF 1(2), of s n b] assms(3) unfolding 1(3) by blast
  have "sectors (disk_of d1) s n = ?bs" unfolding 1(4) by (rule sectors_store [OF _ ss_pos [OF assms(1)]]) simp
  moreover have "\<forall>i. i < s \<or> s + n \<le> i \<longrightarrow> disk_of d1 i = disk_of d i"
    unfolding 1(4) using store_sectors_outside [OF _ ss_pos [OF assms(1)], of ?bs n] by simp
  ultimately show ?thesis using 1(1) 2 by (intro exI [of _ d1] exI [of _ d2]) simp
qed

end

end
