(* ===== verification/Sd_Card.thy ===== *)
theory Sd_Card
  imports Sdio Disk_Blocks
begin

text \<open>
  What the SD card driver promises. \<open>sd_card_os\<close> specifies a slot with a card, after the SD specification: the card
  goes from idle over ready and identification to standby, and moves data only while it is selected.
  A card is of high capacity and counts sectors, or not and counts bytes; the system may start it by itself. A card
  of the first version of the specification does not answer the voltage check. The start-up succeeds exactly for the
  cards that the system started and for those of the second version that are ready in time, and leads to a card
  that reads and writes its sectors. The last property states what a repeated try does to a card that counts bytes.
\<close>

section \<open>The card\<close>

datatype sd_mode = Sd_Idle | Sd_Ready | Sd_Ident | Sd_Stby | Sd_Tran

text \<open>
  \<open>c_v2\<close> is the second version of the specification. \<open>c_busy\<close> is how often the card answers that it is busy while
  it starts, \<open>c_faults\<close> how many of the next transfers fail. \<open>c_app\<close> says that the next command is an application command.
\<close>

record sd_card =
  c_v2 :: bool
  c_hc :: bool
  c_ios :: bool
  c_busy :: nat
  c_faults :: nat
  c_rca :: u16
  c_mode :: sd_mode
  c_app :: bool
  c_blocks :: "nat \<Rightarrow> bytes"
  c_mem :: memory

definition sd_data :: "sd_card \<Rightarrow> u32 \<Rightarrow> u32 \<Rightarrow> u32 \<Rightarrow> u32 \<Rightarrow> s32 \<times> u32 \<times> sd_card" where
  "sd_data c cmd arg n buf =
     (if c_mode c \<noteq> Sd_Tran \<or> (\<not> c_hc c \<and> arg AND 0x1FF \<noteq> 0) then (-1, 0, c)
      else if 0 < c_faults c then (-1, 0, c\<lparr> c_faults := c_faults c - 1 \<rparr>)
      else let s = (if c_hc c then unat arg else unat arg div 512)
           in (0, 0, if cmd = 0x12 then c\<lparr> c_mem := wr (c_mem c) buf (sectors (c_blocks c) s (unat n)) \<rparr>
                     else c\<lparr> c_blocks := store_sectors 512 s (rdm (c_mem c) buf (unat n * 512)) (c_blocks c) \<rparr>))"

definition sd_command :: "sd_card \<Rightarrow> u32 \<Rightarrow> u32 \<Rightarrow> u32 \<Rightarrow> u32 \<Rightarrow> s32 \<times> u32 \<times> sd_card" where
  "sd_command c0 cmd arg n buf =
     (let c = c0\<lparr> c_app := False \<rparr>; bad = (-1, 0, c) in
      if cmd = 0x00 then (0, 0, c\<lparr> c_mode := Sd_Idle \<rparr>)
      else if cmd = 0x08 then if c_v2 c \<and> c_mode c = Sd_Idle then (0, arg, c) else bad
      else if cmd = 0x37 then (0, 0, c\<lparr> c_app := True \<rparr>)
      else if cmd = 0x29 then
        if \<not> c_app c0 \<or> c_mode c \<noteq> Sd_Idle then bad
        else if 0 < c_busy c then (0, 0, c\<lparr> c_busy := c_busy c - 1 \<rparr>)
        else if c_hc c \<and> \<not> bit arg 30 then bad
        else (0, if c_hc c then 0xC0000000 else 0x80000000, c\<lparr> c_mode := Sd_Ready \<rparr>)
      else if cmd = 0x02 then if c_mode c = Sd_Ready then (0, 0, c\<lparr> c_mode := Sd_Ident \<rparr>) else bad
      else if cmd = 0x03 then
        if c_mode c = Sd_Ident then (0, push_bit 16 (ucast (c_rca c)), c\<lparr> c_mode := Sd_Stby \<rparr>) else bad
      else if cmd = 0x07 then
        if c_mode c = Sd_Stby \<and> arg = push_bit 16 (ucast (c_rca c)) then (0, 0, c\<lparr> c_mode := Sd_Tran \<rparr>)
        else if c_mode c = Sd_Tran \<and> arg = 0 then (0, 0, c\<lparr> c_mode := Sd_Stby \<rparr>)
        else bad
      else if cmd = 0x10 then if c_mode c = Sd_Tran \<and> arg = 512 then (0, 0, c) else bad
      else if cmd = 0x06 then if c_app c0 \<and> c_mode c = Sd_Tran then (0, 0, c) else bad
      else if cmd = 0x12 \<or> cmd = 0x19 then sd_data c cmd arg n buf
      else bad)"

text \<open>A request as the device reads it, and its answer in the first word of the response.\<close>

definition word_of :: "bytes \<Rightarrow> nat \<Rightarrow> u32" where
  "word_of bs k = be32 (take 4 (drop k bs))"

definition sd_send :: "bytes \<Rightarrow> bytes \<Rightarrow> sd_card \<Rightarrow> (s32 \<times> bytes) \<times> sd_card" where
  "sd_send request resp c =
     (case sd_command c (word_of request 0) (word_of request 12) (word_of request 16) (word_of request 24) of
        (ret, v, c') \<Rightarrow> ((ret, put_be32 v @ drop 4 resp), c'))"

definition sd_status :: "sd_card \<Rightarrow> u32" where
  "sd_status c = (if c_ios c then if c_hc c then 0x110001 else 0x10001 else 1)"

text \<open>The registers of the host controller: the reset is done at once and the clock is stable.\<close>

definition sd_ioctl :: "u32 \<Rightarrow> bytes \<Rightarrow> bytes \<Rightarrow> sd_card \<Rightarrow> (s32 \<times> bytes) \<times> sd_card" where
  "sd_ioctl cmd request out c =
     (if cmd = 7 then sd_send request out c
      else if cmd = 0x0B then ((0, put_be32 (sd_status c)), c)
      else if cmd = 0x04 then
        if c_ios c then ((0, put_be32 (push_bit 16 (ucast (c_rca c)))), c\<lparr> c_mode := Sd_Stby \<rparr>) else ((0, put_be32 0), c\<lparr> c_mode := Sd_Idle \<rparr>)
      else if cmd = 0x02 then ((0, put_be32 (if word_of request 0 = 0x2c then 2 else 0)), c)
      else ((0, out), c))"

definition sd_card_os :: "sd_card sd_os" where
  "sd_card_os = \<lparr> so_open = (\<lambda>f m c. (3, c)), so_close = (\<lambda>fd c. c), so_ioctl = (\<lambda>fd. sd_ioctl),
     so_ioctlv = (\<lambda>fd cmd request buf len resp c. if cmd = 7 then sd_send request resp c else ((-1, resp), c)),
     so_usleep = (\<lambda>n c. c) \<rparr>"

section \<open>Operations on the card\<close>

text \<open>The static buffers keep their sizes.\<close>

definition sd_bufs :: "sd_state \<Rightarrow> bool" where
  "sd_bufs s \<longleftrightarrow> length (sd_buffer1 s) = 32 \<and> length (sd_response s) = 16"

definition answered :: "u32 \<Rightarrow> sd_state \<Rightarrow> sd_state" where
  "answered v s = s\<lparr> sd_response := put_be32 v @ drop 4 (sd_response s) \<rparr>"

lemma word_of_append: "word_of (put_be32 v @ rest) 0 = v" "4 \<le> k \<Longrightarrow> word_of (put_be32 v @ rest) k = word_of rest (k - 4)"
  by (simp_all add: word_of_def)

lemma request_words:
  "word_of (sdio_request cmd ty rs arg n sz buf) 0 = cmd" "word_of (sdio_request cmd ty rs arg n sz buf) 12 = arg"
  "word_of (sdio_request cmd ty rs arg n sz buf) 16 = n" "word_of (sdio_request cmd ty rs arg n sz buf) 24 = buf"
  by (simp_all add: sdio_request_def word_of_append)

lemma sendcommand_card:
  assumes "sd_bufs s"
  shows "sdio_sendcommand sd_card_os cmd ty rs arg n sz buf (s, c) = (case sd_command c cmd arg n buf of (ret, v, c') \<Rightarrow> (ret, answered v s, c'))"
  using assms
  by (simp add: sdio_sendcommand_def Let_def sd_card_os_def sd_ioctl_def sd_send_def request_words answered_def sd_bufs_def blit_def split: prod.splits)

lemma answered_facts [simp]:
  "rsp0 (answered v s) = v" "sd_bufs s \<Longrightarrow> sd_bufs (answered v s)" "sd_rca (answered v s) = sd_rca s"
  "sd_sdhc (answered v s) = sd_sdhc s" "sd_fd (answered v s) = sd_fd s"
  by (simp_all add: answered_def rsp0_def sd_bufs_def)

lemma bufs_update [simp]:
  "sd_bufs (s\<lparr> sd_rca := r \<rparr>) = sd_bufs s" "sd_bufs (s\<lparr> sd_sdhc := h \<rparr>) = sd_bufs s" "sd_bufs (s\<lparr> sd_fd := f \<rparr>) = sd_bufs s"
  "sd_bufs (s\<lparr> sd_cid := cid \<rparr>) = sd_bufs s" "sd_bufs (s\<lparr> sd_initialized := i \<rparr>) = sd_bufs s" "sd_bufs (s\<lparr> sdio_initialized := i \<rparr>) = sd_bufs s"
  by (simp_all add: sd_bufs_def)

lemma put_buffer1_facts [simp]:
  "sd_bufs s \<Longrightarrow> length bs \<le> 32 \<Longrightarrow> sd_bufs (put_buffer1 bs s)" "sd_rca (put_buffer1 bs s) = sd_rca s"
  "sd_sdhc (put_buffer1 bs s) = sd_sdhc s" "sd_fd (put_buffer1 bs s) = sd_fd s"
  by (simp_all add: put_buffer1_def sd_bufs_def length_blit)

lemma buffer1_word_put [simp]: "buffer1_word (put_buffer1 (put_be32 v) s) = v"
  by (simp add: put_buffer1_def buffer1_word_def blit_def)

lemma length_hcr_query [simp]: "length (hcr_query reg sz data) = 24"
  by (simp add: hcr_query_def)

lemma sethcr_card: "sdio_sethcr sd_card_os reg sz data (s, c) = (0, put_buffer1 (hcr_query reg sz data) s, c)"
  by (simp add: sdio_sethcr_def slot_ioctl_def sd_card_os_def sd_ioctl_def blit_def)

lemma gethcr_card:
  assumes "sd_bufs s"
  shows "sdio_gethcr sd_card_os reg sz (s, c)
    = ((0, if reg = 0x2c then 2 else 0), put_buffer1 (put_be32 (if reg = 0x2c then 2 else 0)) s, c)"
proof -
  have "(ucast reg :: u32) = 0x2c \<longleftrightarrow> reg = 0x2c" by (simp add: word_unat_eq_iff)
  then have "word_of (hcr_query reg sz 0) 0 = 0x2c \<longleftrightarrow> reg = 0x2c" by (simp add: hcr_query_def word_of_append)
  then show ?thesis using assms
    by (simp add: sdio_gethcr_def slot_ioctl_def sd_card_os_def sd_ioctl_def put_buffer1_def buffer1_word_def blit_def sd_bufs_def)
qed

lemma waithcr_card:
  assumes "sd_bufs s" and "reg = 0x2f \<and> unset \<or> reg = 0x2c \<and> \<not> unset \<and> m = 2"
  shows "sdio_waithcr sd_card_os reg sz unset m (s, c) = (0, put_buffer1 (put_be32 (if reg = 0x2c then 2 else 0)) s, c)"
proof -
  have "waithcr_loop sd_card_os reg sz unset m (Suc k) (s, c) = (0, put_buffer1 (put_be32 (if reg = 0x2c then 2 else 0)) s, c)" for k
    using assms(2) gethcr_card [OF assms(1)] by auto
  from this [of 9] show ?thesis by (simp add: sdio_waithcr_def)
qed

lemmas card_ops = sendcommand_card sethcr_card gethcr_card waithcr_card

text \<open>The selection of the card and its release.\<close>

lemma select_card:
  assumes "sd_bufs s" and "c_mode c = Sd_Stby" and "sd_rca s = c_rca c" and "c_app c = False"
  shows "sd0_select sd_card_os (s, c) = (0, answered 0 s, c\<lparr> c_mode := Sd_Tran \<rparr>)"
proof -
  have "c\<lparr> c_app := False, c_mode := Sd_Tran \<rparr> = c\<lparr> c_mode := Sd_Tran \<rparr>" using assms(4) by (cases c) simp
  then show ?thesis using assms by (simp add: sd0_select_def sendcommand_card sd_command_def rca_arg_def)
qed

lemma deselect_card:
  assumes "sd_bufs s" and "c_mode c = Sd_Tran" and "c_app c = False"
  shows "sd0_deselect sd_card_os (s, c) = (0, answered 0 s, c\<lparr> c_mode := Sd_Stby \<rparr>)"
proof -
  have "c\<lparr> c_app := False, c_mode := Sd_Stby \<rparr> = c\<lparr> c_mode := Sd_Stby \<rparr>" using assms(3) by (cases c) simp
  then show ?thesis using assms by (simp add: sd0_deselect_def sendcommand_card sd_command_def)
qed

section \<open>Reads and writes\<close>

text \<open>A driver and a card that know of each other.\<close>

definition sd_paired :: "sd_state \<Rightarrow> sd_card \<Rightarrow> bool" where
  "sd_paired s c \<longleftrightarrow> sd_bufs s \<and> sd_rca s = c_rca c \<and> sd_sdhc s = c_hc c \<and> c_mode c = Sd_Stby \<and> \<not> c_app c"

declare rw_loop.simps(2) [simp del]

lemma rw_try:
  assumes "sd_paired s c" and "cmd = 0x12 \<or> cmd = 0x19"
    and "sd_data (c\<lparr> c_mode := Sd_Tran \<rparr>) cmd (if c_hc c then sector else sector * 512) n buf = (ret, v, c')"
    and "c_mode c' = Sd_Tran" and "\<not> c_app c'"
  shows "\<exists>s'. rw_loop sd_card_os cmd (Suc tries) sector n buf (s, c)
      = (if 0 \<le> ret then (True, s', c'\<lparr> c_mode := Sd_Stby \<rparr>)
         else rw_loop sd_card_os cmd tries (if c_hc c then sector else sector * 512) n buf (s', c'\<lparr> c_mode := Sd_Stby \<rparr>))
    \<and> sd_bufs s' \<and> sd_rca s' = sd_rca s \<and> sd_sdhc s' = sd_sdhc s \<and> sd_fd s' = sd_fd s"
proof -
  have s: "sd_bufs s" "sd_rca s = c_rca c" "sd_sdhc s = c_hc c" "c_mode c = Sd_Stby" "c_app c = False"
    using assms(1) by (simp_all add: sd_paired_def)
  have c: "c\<lparr> c_mode := Sd_Tran, c_app := False \<rparr> = c\<lparr> c_mode := Sd_Tran \<rparr>" using s(5) by (cases c) simp
  have "sd_command (c\<lparr> c_mode := Sd_Tran \<rparr>) cmd (if c_hc c then sector else sector * 512) n buf = (ret, v, c')"
    using assms(2,3) by (auto simp: sd_command_def c)
  moreover have "sd0_deselect sd_card_os (answered v (answered 0 s), c') = (0, answered 0 (answered v (answered 0 s)), c'\<lparr> c_mode := Sd_Stby \<rparr>)"
    by (rule deselect_card) (use s(1) assms(4,5) in simp_all)
  ultimately show ?thesis using s select_card [OF s(1,4,2,5)]
    by (intro exI [of _ "answered 0 (answered v (answered 0 s))"]) (simp add: rw_loop.simps(2) sendcommand_card Let_def)
qed

lemma sd_data_tran:
  assumes "c_mode c = Sd_Tran" and "\<not> c_app c" and "sd_data c cmd arg n buf = (ret, v, c')"
  shows "c_mode c' = Sd_Tran" and "\<not> c_app c'" and "c_rca c' = c_rca c" and "c_hc c' = c_hc c"
  using assms by (auto simp: sd_data_def Let_def split: if_splits)

text \<open>A card of high capacity: the tries that fail change nothing but their number.\<close>

lemma rw_hc:
  assumes "sd_paired s c" and "c_hc c" and "c_faults c < tries" and "cmd = 0x12 \<or> cmd = 0x19"
  shows "\<exists>s'. rw_loop sd_card_os cmd tries sector n buf (s, c)
      = (True, s', (snd (snd (sd_data (c\<lparr> c_mode := Sd_Tran, c_faults := 0 \<rparr>) cmd sector n buf)))\<lparr> c_mode := Sd_Stby \<rparr>)
    \<and> sd_bufs s' \<and> sd_rca s' = sd_rca s \<and> sd_sdhc s' = sd_sdhc s \<and> sd_fd s' = sd_fd s"
  using assms
proof (induction tries arbitrary: s c)
  case 0
  then show ?case by simp
next
  case (Suc tries)
  have app: "\<not> c_app c" using Suc.prems(1) by (simp add: sd_paired_def)
  obtain ret v c' where d: "sd_data (c\<lparr> c_mode := Sd_Tran \<rparr>) cmd sector n buf = (ret, v, c')" by (rule prod_cases3)
  have tr: "c_mode c' = Sd_Tran" "\<not> c_app c'" using sd_data_tran(1,2) [OF _ _ d] app by simp_all
  have hc: "(if c_hc c then sector else sector * 512) = sector" using Suc.prems(2) by simp
  obtain s' where t: "rw_loop sd_card_os cmd (Suc tries) sector n buf (s, c)
      = (if 0 \<le> ret then (True, s', c'\<lparr> c_mode := Sd_Stby \<rparr>) else rw_loop sd_card_os cmd tries sector n buf (s', c'\<lparr> c_mode := Sd_Stby \<rparr>))"
    and s': "sd_bufs s'" "sd_rca s' = sd_rca s" "sd_sdhc s' = sd_sdhc s" "sd_fd s' = sd_fd s"
    using rw_try [OF Suc.prems(1,4), where sector = sector and tries = tries, unfolded hc, OF d tr] by blast
  show ?case
  proof (cases "c_faults c = 0")
    case True
    then have "c\<lparr> c_mode := Sd_Tran, c_faults := 0 \<rparr> = c\<lparr> c_mode := Sd_Tran \<rparr>" by (cases c) simp
    moreover have "0 \<le> ret" using d True Suc.prems(2) by (auto simp: sd_data_def Let_def)
    ultimately show ?thesis using t s' d by (intro exI [of _ s']) simp
  next
    case False
    then have r: "ret = -1" "c' = c\<lparr> c_mode := Sd_Tran, c_faults := c_faults c - 1 \<rparr>"
      using d Suc.prems(2) by (simp_all add: sd_data_def)
    have "c_mode c = Sd_Stby" using Suc.prems(1) by (simp add: sd_paired_def)
    then have c': "c'\<lparr> c_mode := Sd_Stby \<rparr> = c\<lparr> c_faults := c_faults c - 1 \<rparr>" unfolding r(2) by (cases c) simp
    have "sd_paired s' (c\<lparr> c_faults := c_faults c - 1 \<rparr>)" using Suc.prems(1) s' by (simp add: sd_paired_def)
    from Suc.IH [OF this] Suc.prems False s' t r(1) c' show ?thesis by auto
  qed
qed

lemma byte_sector: "unat (x :: u32) * 512 < 4294967296 \<Longrightarrow> (x * 512) AND 0x1FF = 0 \<and> unat (x * 512) div 512 = unat x"
proof
  assume "unat x * 512 < 4294967296"
  then have "unat (x * 512) = unat x * 512" by (simp add: unat_word_ariths)
  then show "unat (x * 512) div 512 = unat x" by simp
  have "x * 512 = push_bit 9 x" by (simp add: push_bit_eq_mult)
  moreover have "push_bit 9 x AND mask 9 = 0" by (rule bit_word_eqI) (auto simp: bit_simps)
  ultimately show "(x * 512) AND 0x1FF = 0" by (simp add: mask_eq_exp_minus_1)
qed

definition sd_usable :: "sd_state \<times> sd_card \<Rightarrow> bool" where
  "sd_usable d \<longleftrightarrow> (case d of (s, c) \<Rightarrow> sd_paired s c \<and> (\<forall>i. length (c_blocks c i) = 512)
     \<and> c_faults c < (if c_hc c then 10 else 1))"

definition sd_fits :: "sd_state \<times> sd_card \<Rightarrow> nat \<Rightarrow> nat \<Rightarrow> u32 \<Rightarrow> bool" where
  "sd_fits d s n b \<longleftrightarrow> s * (if c_hc (snd d) then 1 else 512) < 4294967296 \<and> n * 512 < 4294967296 \<and> b \<noteq> 0"

definition sd_transfer ::
  "(u32 \<Rightarrow> u32 \<Rightarrow> u32 \<Rightarrow> sd_state \<times> sd_card \<Rightarrow> bool \<times> sd_state \<times> sd_card) \<Rightarrow> nat \<Rightarrow> nat \<Rightarrow> u32
    \<Rightarrow> sd_state \<times> sd_card \<Rightarrow> (sd_state \<times> sd_card) option"
where
  "sd_transfer f s n b d = (case f (of_nat s) (of_nat n) b d of (ok, d') \<Rightarrow> if ok then Some d' else None)"

text \<open>What a command does once it gets through.\<close>

definition sd_done :: "u32 \<Rightarrow> nat \<Rightarrow> nat \<Rightarrow> u32 \<Rightarrow> sd_card \<Rightarrow> sd_card" where
  "sd_done cmd s n buf c =
     (if cmd = 0x12 then c\<lparr> c_faults := 0, c_mem := wr (c_mem c) buf (sectors (c_blocks c) s n) \<rparr>
      else c\<lparr> c_faults := 0, c_blocks := store_sectors 512 s (rdm (c_mem c) buf (n * 512)) (c_blocks c) \<rparr>)"

lemma sd_done_facts [simp]:
  "c_app (sd_done cmd s n buf c) = c_app c" "c_mode (sd_done cmd s n buf c) = c_mode c"
  "c_rca (sd_done cmd s n buf c) = c_rca c" "c_hc (sd_done cmd s n buf c) = c_hc c" "c_faults (sd_done cmd s n buf c) = 0"
  by (simp_all add: sd_done_def)

lemma sd_data_done:
  assumes "c_mode c = Sd_Stby" and "c_hc c \<or> arg AND 0x1FF = 0" and "cmd = 0x12 \<or> cmd = 0x19"
    and "s = (if c_hc c then unat arg else unat arg div 512)"
  shows "sd_data (c\<lparr> c_mode := Sd_Tran, c_faults := 0 \<rparr>) cmd arg n buf = (0, 0, (sd_done cmd s (unat n) buf c)\<lparr> c_mode := Sd_Tran \<rparr>)"
    and "(sd_done cmd s (unat n) buf c)\<lparr> c_mode := Sd_Tran \<rparr>\<lparr> c_mode := Sd_Stby \<rparr> = sd_done cmd s (unat n) buf c"
  using assms by (cases c, auto simp: sd_data_def sd_done_def)+

lemma rw_usable:
  assumes "sd_usable (s, c)" and "sd_fits (s, c) k n b" and "cmd = 0x12 \<or> cmd = 0x19"
  shows "\<exists>s'. rw_loop sd_card_os cmd 10 (of_nat k) (of_nat n) b (s, c) = (True, s', sd_done cmd k n b c)
    \<and> sd_bufs s' \<and> sd_rca s' = sd_rca s \<and> sd_sdhc s' = sd_sdhc s"
proof -
  have p: "sd_paired s c" using assms(1) by (simp add: sd_usable_def)
  then have m: "c_mode c = Sd_Stby" "\<not> c_app c" by (simp_all add: sd_paired_def)
  have n: "unat (of_nat n :: u32) = n" and k: "unat (of_nat k :: u32) = k"
    using assms(2) by (auto simp: sd_fits_def unat_of_nat_u32 split: if_splits)
  show ?thesis
  proof (cases "c_hc c")
    case True
    note d = sd_data_done [OF m(1) disjI1 [OF True] assms(3), where arg = "of_nat k" and n = "of_nat n" and buf = b and s = k]
    show ?thesis using rw_hc [OF p True _ assms(3), of 10 "of_nat k" "of_nat n" b] d assms(1) True k n by (auto simp: sd_usable_def)
  next
    case False
    have lt: "unat (of_nat k :: u32) * 512 < 4294967296" using assms(2) False k by (simp add: sd_fits_def)
    have f0: "c\<lparr> c_mode := Sd_Tran, c_faults := 0 \<rparr> = c\<lparr> c_mode := Sd_Tran \<rparr>"
      using assms(1) False by (cases c) (simp add: sd_usable_def)
    have hc: "(if c_hc c then of_nat k else of_nat k * 512) = (of_nat k * 512 :: u32)" using False by simp
    have d: "sd_data (c\<lparr> c_mode := Sd_Tran \<rparr>) cmd (of_nat k * 512) (of_nat n) b = (0, 0, (sd_done cmd k n b c)\<lparr> c_mode := Sd_Tran \<rparr>)"
      "(sd_done cmd k n b c)\<lparr> c_mode := Sd_Tran \<rparr>\<lparr> c_mode := Sd_Stby \<rparr> = sd_done cmd k n b c"
      using sd_data_done [OF m(1) _ assms(3), where arg = "of_nat k * 512" and n = "of_nat n" and buf = b and s = k] byte_sector [OF lt] False k n
      unfolding f0 by simp_all
    obtain s' where "rw_loop sd_card_os cmd (Suc 9) (of_nat k) (of_nat n) b (s, c)
        = (True, s', (sd_done cmd k n b c)\<lparr> c_mode := Sd_Tran \<rparr>\<lparr> c_mode := Sd_Stby \<rparr>)"
      and "sd_bufs s'" "sd_rca s' = sd_rca s" "sd_sdhc s' = sd_sdhc s"
      using rw_try [OF p assms(3), where sector = "of_nat k" and tries = 9, unfolded hc, OF d(1)] m by auto
    then show ?thesis unfolding d(2) by (intro exI [of _ s']) simp
  qed
qed

lemma sd_ops:
  "b \<noteq> 0 \<Longrightarrow> sdio_ReadSectors K x n b d = rw_loop K 0x12 10 x n b d"
  "b \<noteq> 0 \<Longrightarrow> sdio_WriteSectors K x n b d = rw_loop K 0x19 10 x n b d"
  by (simp_all add: sdio_ReadSectors_def sdio_WriteSectors_def)

lemma sd_reads:
  assumes "sd_usable (s, c)" and "sd_fits (s, c) k n b"
  shows "\<exists>s' c'. sdio_ReadSectors sd_card_os (of_nat k) (of_nat n) b (s, c) = (True, s', c') \<and> sd_usable (s', c')
    \<and> c_mem c' = wr (c_mem c) b (sectors (c_blocks c) k n) \<and> c_blocks c' = c_blocks c"
proof -
  have "b \<noteq> 0" using assms(2) by (simp add: sd_fits_def)
  then obtain s' where "sdio_ReadSectors sd_card_os (of_nat k) (of_nat n) b (s, c) = (True, s', sd_done 0x12 k n b c)"
    and "sd_bufs s'" "sd_rca s' = sd_rca s" "sd_sdhc s' = sd_sdhc s"
    using rw_usable [OF assms, where cmd = "0x12"] by (auto simp: sd_ops)
  then show ?thesis using assms(1)
    by (intro exI [of _ s'] exI [of _ "sd_done 0x12 k n b c"]) (simp add: sd_usable_def sd_paired_def, simp add: sd_done_def)
qed

lemma sd_writes:
  assumes "sd_usable (s, c)" and "sd_fits (s, c) k n b"
  shows "\<exists>s' c'. sdio_WriteSectors sd_card_os (of_nat k) (of_nat n) b (s, c) = (True, s', c') \<and> sd_usable (s', c') \<and> c_hc c' = c_hc c
    \<and> c_mem c' = c_mem c \<and> c_blocks c' = store_sectors 512 k (rdm (c_mem c) b (n * 512)) (c_blocks c)"
proof -
  have "b \<noteq> 0" using assms(2) by (simp add: sd_fits_def)
  then obtain s' where w: "sdio_WriteSectors sd_card_os (of_nat k) (of_nat n) b (s, c) = (True, s', sd_done 0x19 k n b c)"
    and s': "sd_bufs s'" "sd_rca s' = sd_rca s" "sd_sdhc s' = sd_sdhc s"
    using rw_usable [OF assms, where cmd = "0x19"] by (auto simp: sd_ops)
  have "length (c_blocks (sd_done 0x19 k n b c) i) = 512" for i
    using length_store_sectors [where n = n and ss = 512 and disk = "c_blocks c"] assms(1) by (simp add: sd_done_def sd_usable_def)
  then have "sd_usable (s', sd_done 0x19 k n b c)" using assms(1) s' by (simp add: sd_usable_def sd_paired_def)
  then show ?thesis using w by (intro exI [of _ s'] exI [of _ "sd_done 0x19 k n b c"]) (simp, simp add: sd_done_def)
qed

interpretation sd: sector_driver 512 sd_usable sd_fits "\<lambda>d. c_mem (snd d)" "\<lambda>d. c_blocks (snd d)"
    "sd_transfer (sdio_ReadSectors sd_card_os)" "sd_transfer (sdio_WriteSectors sd_card_os)"
proof
  fix d s n b
  assume u: "sd_usable d" and f: "sd_fits d s n b"
  obtain st c where d: "d = (st, c)" by (rule prod.exhaust)
  obtain s1 c1 where r: "sdio_ReadSectors sd_card_os (of_nat s) (of_nat n) b d = (True, s1, c1)" "sd_usable (s1, c1)"
    "c_mem c1 = wr (c_mem c) b (sectors (c_blocks c) s n)" "c_blocks c1 = c_blocks c"
    using sd_reads [OF u [unfolded d] f [unfolded d]] unfolding d by (elim exE conjE)
  have len: "length (sectors (c_blocks c) s n) = n * 512" using u by (simp add: length_sectors sd_usable_def d)
  have "rdm (c_mem c1) b (n * 512) = sectors (c_blocks c) s n"
    using rdm_wr [of "sectors (c_blocks c) s n" 0 "n * 512" "c_mem c" b] len f by (simp add: r(3) sd_fits_def)
  then show "\<exists>d'. sd_transfer (sdio_ReadSectors sd_card_os) s n b d = Some d' \<and> sd_usable d' \<and> c_blocks (snd d') = c_blocks (snd d)
      \<and> rdm (c_mem (snd d')) b (n * 512) = sectors (c_blocks (snd d)) s n"
    by (intro exI [of _ "(s1, c1)"]) (use r in \<open>simp add: sd_transfer_def d\<close>)
  obtain s2 c2 where w: "sdio_WriteSectors sd_card_os (of_nat s) (of_nat n) b d = (True, s2, c2)" "sd_usable (s2, c2)" "c_hc c2 = c_hc c"
    "c_blocks c2 = store_sectors 512 s (rdm (c_mem c) b (n * 512)) (c_blocks c)"
    using sd_writes [OF u [unfolded d] f [unfolded d]] unfolding d by (elim exE conjE)
  then show "\<exists>d'. sd_transfer (sdio_WriteSectors sd_card_os) s n b d = Some d' \<and> sd_usable d' \<and> sd_fits d' = sd_fits d
      \<and> c_blocks (snd d') = store_sectors 512 s (rdm (c_mem (snd d)) b (n * 512)) (c_blocks (snd d))"
    by (intro exI [of _ "(s2, c2)"]) (simp add: sd_transfer_def sd_fits_def [abs_def] d)
qed simp

section \<open>Start-up\<close>

lemma controller_card:
  assumes "sd_bufs s" and "\<not> c_app c" and "c_v2 c"
  shows "\<exists>s1. sd_steps (controller_steps sd_card_os) (s, c) = (True, s1, c\<lparr> c_mode := Sd_Idle \<rparr>) \<and> sd_bufs s1 \<and> rsp0 s1 = 0x1AA"
proof -
  have "c\<lparr> c_app := False, c_mode := Sd_Idle \<rparr> = c\<lparr> c_mode := Sd_Idle \<rparr>" "c\<lparr> c_mode := Sd_Idle, c_app := False \<rparr> = c\<lparr> c_mode := Sd_Idle \<rparr>"
    using assms(2) by (cases c, simp)+
  then show ?thesis using assms(1,3)
    by (simp add: controller_steps_def card_ops ignoring_def set_sdhc_def sd_command_def Let_def)
qed

lemma opcond_wait:
  assumes "sd_bufs s" and "c_mode c = Sd_Idle" and "\<not> c_app c" and "c_busy c \<noteq> 0"
  shows "opcond_loop sd_card_os (Suc tries) (s, c) = opcond_loop sd_card_os tries (answered 0 (answered 0 s), c\<lparr> c_busy := c_busy c - 1 \<rparr>)"
proof -
  have "c\<lparr> c_app := False, c_busy := k \<rparr> = c\<lparr> c_busy := k \<rparr>" "c\<lparr> c_busy := k, c_app := False \<rparr> = c\<lparr> c_busy := k \<rparr>" for k
    using assms(3) by (cases c, simp)+
  then show ?thesis using assms(1,2,4) by (simp add: sendcommand_card sd_command_def Let_def) (simp add: sd_card_os_def)
qed

lemma opcond_card:
  assumes "sd_bufs s" and "c_mode c = Sd_Idle" and "\<not> c_app c" and "c_busy c < tries"
  shows "\<exists>s1. opcond_loop sd_card_os tries (s, c) = (True, s1, c\<lparr> c_busy := 0, c_mode := Sd_Ready \<rparr>) \<and> sd_bufs s1 \<and> bit (rsp0 s1) 30 = c_hc c"
  using assms
proof (induction tries arbitrary: s c)
  case 0
  then show ?case by simp
next
  case (Suc tries)
  have c: "c\<lparr> c_app := False, c_mode := Sd_Ready \<rparr> = c\<lparr> c_mode := Sd_Ready \<rparr>" "c\<lparr> c_app := False, c_busy := k \<rparr> = c\<lparr> c_busy := k \<rparr>"
    for k using Suc.prems(3) by (cases c, simp)+
  have bits: "bit (0xC0000000 :: u32) 31" "bit (0x80000000 :: u32) 31" "bit (0xC0000000 :: u32) 30" "\<not> bit (0x80000000 :: u32) 30" "bit (0x40300000 :: u32) 30"
    by (simp_all add: bit_iff_odd_drop_bit drop_bit_eq_div)
  show ?case
  proof (cases "c_busy c = 0")
    case True
    then have "c\<lparr> c_busy := 0, c_mode := Sd_Ready \<rparr> = c\<lparr> c_mode := Sd_Ready \<rparr>" by (cases c) simp
    then show ?thesis using Suc.prems True bits c by (auto simp: sendcommand_card sd_command_def Let_def)
  next
    case False
    let ?s = "answered 0 (answered 0 s)" and ?c = "c\<lparr> c_busy := c_busy c - 1 \<rparr>"
    have "opcond_loop sd_card_os (Suc tries) (s, c) = opcond_loop sd_card_os tries (?s, ?c)"
      by (rule opcond_wait [OF Suc.prems(1-3) False])
    moreover have "\<exists>s1. opcond_loop sd_card_os tries (?s, ?c) = (True, s1, ?c\<lparr> c_busy := 0, c_mode := Sd_Ready \<rparr>) \<and> sd_bufs s1 \<and> bit (rsp0 s1) 30 = c_hc ?c"
      by (rule Suc.IH) (use Suc.prems False in simp_all)
    ultimately show ?thesis by simp
  qed
qed

lemma rca_halves: "(ucast (drop_bit 16 (push_bit 16 (ucast r :: u32))) :: u16) = r" "push_bit 16 (ucast r :: u32) AND 0xFFFF = 0" for r :: u16
proof -
  show "(ucast (drop_bit 16 (push_bit 16 (ucast r :: u32))) :: u16) = r"
    by (rule bit_word_eqI) (auto simp: bit_simps dest: bit_imp_le_length)
  have "push_bit 16 (ucast r :: u32) AND mask 16 = 0" by (rule bit_word_eqI) (auto simp: bit_simps)
  then show "push_bit 16 (ucast r :: u32) AND 0xFFFF = 0" by (simp add: mask_eq_exp_minus_1)
qed

lemma card_init_card:
  assumes "sd_bufs s" and "\<not> c_app c" and "c_v2 c" and "c_busy c < 10"
  shows "\<exists>s1. card_init sd_card_os (s, c) = (True, s1, c\<lparr> c_busy := 0, c_mode := Sd_Stby \<rparr>) \<and> sd_bufs s1
    \<and> sd_sdhc s1 = c_hc c \<and> sd_rca s1 = c_rca c"
proof -
  obtain s1 where 1: "sd_steps (controller_steps sd_card_os) (s, c) = (True, s1, c\<lparr> c_mode := Sd_Idle \<rparr>)" "sd_bufs s1" "rsp0 s1 = 0x1AA"
    using controller_card [OF assms(1-3)] by blast
  obtain s2 where 2: "opcond_loop sd_card_os 10 (s1, c\<lparr> c_mode := Sd_Idle \<rparr>) = (True, s2, c\<lparr> c_busy := 0, c_mode := Sd_Ready \<rparr>)"
    "sd_bufs s2" "bit (rsp0 s2) 30 = c_hc c"
    using opcond_card [OF 1(2), of "c\<lparr> c_mode := Sd_Idle \<rparr>" 10] assms(2,4) by auto
  have c: "c\<lparr> c_app := False, c_busy := 0, c_mode := m \<rparr> = c\<lparr> c_busy := 0, c_mode := m \<rparr>"
    "c\<lparr> c_busy := 0, c_mode := m, c_app := False, c_mode := m' \<rparr> = c\<lparr> c_busy := 0, c_mode := m' \<rparr>" for m m'
    using assms(2) by (cases c, simp)+
  show ?thesis using 1 2 rca_halves [of "c_rca c"] c
    by (simp add: card_init_def set_sdhc_def sd0_getcid_def sd0_getrca_def sendcommand_card sd_command_def Let_def)
qed

lemma init_bus_card:
  assumes "sd_paired s c"
  shows "\<exists>s1. init_bus sd_card_os (s, c) = (True, s1, c) \<and> sd_bufs s1 \<and> sd_sdhc s1 = sd_sdhc s \<and> sd_rca s1 = sd_rca s"
proof -
  have s: "sd_bufs s" "sd_rca s = c_rca c" "c_mode c = Sd_Stby" "c_app c = False" using assms by (simp_all add: sd_paired_def)
  have c: "c\<lparr> c_mode := Sd_Stby \<rparr> = c" "c\<lparr> c_app := False, c_mode := m \<rparr> = c\<lparr> c_mode := m \<rparr>"
    "c\<lparr> c_mode := m, c_app := False \<rparr> = c\<lparr> c_mode := m \<rparr>" "c\<lparr> c_app := b, c_mode := m, c_app := False \<rparr> = c\<lparr> c_mode := m \<rparr>" for m b
    using s(3,4) by (cases c, simp)+
  have clk: "sdio_setclock sd_card_os v (s', c') = (0, put_buffer1 (put_be32 v) s', c')" for v s' c'
    by (simp add: sdio_setclock_def slot_ioctl_def sd_card_os_def sd_ioctl_def blit_def)
  show ?thesis using s c
    by (simp add: init_bus_def sdio_setbuswidth_def sd0_setblocklength_def sd0_setbuswidth_def card_ops clk
        sd0_select_def sd0_deselect_def rca_arg_def sd_command_def Let_def)
qed

lemma card_ioctls:
  "sdio_getstatus sd_card_os (s, c) = (sd_status c, put_buffer1 (put_be32 (sd_status c)) s, c)"
  "\<not> c_ios c \<Longrightarrow> sdio_resetcard sd_card_os (s, c) = (0, (put_buffer1 (put_be32 0) (s\<lparr> sd_rca := 0 \<rparr>))\<lparr> sd_rca := 0 \<rparr>, c\<lparr> c_mode := Sd_Idle \<rparr>)"
  "c_ios c \<Longrightarrow> sdio_resetcard sd_card_os (s, c)
     = (0, (put_buffer1 (put_be32 (push_bit 16 (ucast (c_rca c)))) (s\<lparr> sd_rca := 0 \<rparr>))\<lparr> sd_rca := c_rca c \<rparr>, c\<lparr> c_mode := Sd_Stby \<rparr>)"
  using rca_halves [of "c_rca c"]
  by (simp_all add: sdio_getstatus_def sdio_resetcard_def slot_ioctl_def sd_card_os_def sd_ioctl_def put_buffer1_def buffer1_word_def blit_def)

text \<open>Both ways in: the card that the system started, and the one that the driver starts itself.\<close>

lemma initio_card:
  assumes "sd_bufs s" and "\<not> c_app c" and "c_ios c \<or> c_v2 c \<and> c_busy c < 10"
  shows "\<exists>s1 c1. sd0_initio sd_card_os (s, c) = (True, s1, c1) \<and> sd_paired s1 c1
    \<and> c1 = c\<lparr> c_busy := (if c_ios c then c_busy c else 0), c_mode := Sd_Stby \<rparr>"
proof (cases "c_ios c")
  case True
  let ?s = "(put_buffer1 (put_be32 (sd_status c)) ((put_buffer1 (put_be32 (push_bit 16 (ucast (c_rca c)))) (s\<lparr> sd_rca := 0 \<rparr>))\<lparr> sd_rca := c_rca c \<rparr>))\<lparr> sd_sdhc := c_hc c \<rparr>"
  let ?c = "c\<lparr> c_mode := Sd_Stby \<rparr>"
  have c: "c\<lparr> c_busy := c_busy c, c_mode := Sd_Stby \<rparr> = ?c" by (cases c) simp
  have st: "sd_status ?c = sd_status c" "sd_status c AND 1 \<noteq> 0" "sd_status c AND 0x10000 \<noteq> 0" "(sd_status c AND 0x100000 \<noteq> 0) = c_hc c"
    using True by (simp_all add: sd_status_def)
  have p: "sd_paired ?s ?c" using assms(1,2) by (simp add: sd_paired_def)
  have "sd0_initio sd_card_os (s, c) = init_bus sd_card_os (?s, ?c)"
    using st by (simp add: sd0_initio_def card_ioctls(3) [OF True] card_ioctls(1))
  with init_bus_card [OF p] show ?thesis using True c p by (auto simp: sd_paired_def)
next
  case False
  let ?c = "c\<lparr> c_mode := Sd_Idle \<rparr>" and ?d = "c\<lparr> c_busy := 0, c_mode := Sd_Stby \<rparr>"
  let ?s = "(put_buffer1 (put_be32 (sd_status c)) ((put_buffer1 (put_be32 0) (s\<lparr> sd_rca := 0 \<rparr>))\<lparr> sd_rca := 0 \<rparr>))\<lparr> sd_fd := 3 \<rparr>"
  have st: "sd_status ?c = sd_status c" "sd_status c = 1" using False by (simp_all add: sd_status_def)
  obtain s1 where 1: "card_init sd_card_os (?s, ?c) = (True, s1, ?d)" "sd_bufs s1" "sd_sdhc s1 = c_hc c" "sd_rca s1 = c_rca c"
    using card_init_card [of ?s ?c] assms False by auto
  have p: "sd_paired s1 ?d" using 1 assms(2) by (simp add: sd_paired_def)
  have "sd0_initio sd_card_os (s, c) = init_bus sd_card_os (s1, ?d)"
    using st 1(1) by (simp add: sd0_initio_def card_ioctls(2) [OF False] card_ioctls(1)) (simp add: sd_card_os_def)
  with init_bus_card [OF p] show ?thesis using False p by (auto simp: sd_paired_def)
qed

lemma startup_card:
  assumes "sd_bufs s" and "\<not> sdio_initialized s" and "\<not> c_app c" and "c_ios c \<or> c_v2 c \<and> c_busy c < 10"
  shows "\<exists>s1 c1. sdio_Startup sd_card_os (s, c) = (True, s1, c1) \<and> sdio_initialized s1 \<and> sd_paired s1 c1
    \<and> c1 = c\<lparr> c_busy := (if c_ios c then c_busy c else 0), c_mode := Sd_Stby \<rparr>"
proof -
  obtain s1 c1 where 1: "sd0_initio sd_card_os (s\<lparr> sd_fd := 3 \<rparr>, c) = (True, s1, c1)" "sd_paired s1 c1"
    "c1 = c\<lparr> c_busy := (if c_ios c then c_busy c else 0), c_mode := Sd_Stby \<rparr>"
    using initio_card [of "s\<lparr> sd_fd := 3 \<rparr>" c] assms by auto
  have "so_open sd_card_os f m c = (3, c)" for f m by (simp add: sd_card_os_def)
  then have "sdio_Startup sd_card_os (s, c) = (True, s1\<lparr> sdio_initialized := True \<rparr>, c1)"
    using 1(1) assms(2) by (simp add: sdio_Startup_def)
  then show ?thesis using 1(2,3) by (intro exI [of _ "s1\<lparr> sdio_initialized := True \<rparr>"] exI [of _ c1]) (simp add: sd_paired_def)
qed

text \<open>The cards that cannot be started: those that do not answer the voltage check or are busy for too long.\<close>

lemma opcond_busy:
  assumes "sd_bufs s" and "c_mode c = Sd_Idle" and "\<not> c_app c" and "tries \<le> c_busy c"
  shows "\<not> fst (opcond_loop sd_card_os tries (s, c))"
  using assms
proof (induction tries arbitrary: s c)
  case (Suc tries)
  have nz: "c_busy c \<noteq> 0" using Suc.prems(4) by simp
  have "\<not> fst (opcond_loop sd_card_os tries (answered 0 (answered 0 s), c\<lparr> c_busy := c_busy c - 1 \<rparr>))"
    by (rule Suc.IH) (use Suc.prems in simp_all)
  then show ?case unfolding opcond_wait [OF Suc.prems(1-3) nz] .
qed simp

lemma card_init_refused:
  assumes "sd_bufs s" and "\<not> c_app c" and "\<not> (c_v2 c \<and> c_busy c < 10)"
  shows "\<exists>d. card_init sd_card_os (s, c) = (False, d)"
proof (cases "c_v2 c")
  case True
  obtain s1 where 1: "sd_steps (controller_steps sd_card_os) (s, c) = (True, s1, c\<lparr> c_mode := Sd_Idle \<rparr>)" "sd_bufs s1" "rsp0 s1 = 0x1AA"
    using controller_card [OF assms(1,2) True] by blast
  have "\<not> fst (opcond_loop sd_card_os 10 (s1, c\<lparr> c_mode := Sd_Idle \<rparr>))"
    using assms(2,3) True by (intro opcond_busy [OF 1(2)]) simp_all
  then obtain s2 w2 where 2: "opcond_loop sd_card_os 10 (s1, c\<lparr> c_mode := Sd_Idle \<rparr>) = (False, s2, w2)"
    by (cases "opcond_loop sd_card_os 10 (s1, c\<lparr> c_mode := Sd_Idle \<rparr>)") auto
  show ?thesis using 1 2 by (simp add: card_init_def)
next
  case False
  have "\<not> fst (sd_steps (controller_steps sd_card_os) (s, c))"
    using assms(1) False by (simp add: controller_steps_def card_ops ignoring_def set_sdhc_def sd_command_def Let_def)
  then obtain s1 w1 where "sd_steps (controller_steps sd_card_os) (s, c) = (False, s1, w1)"
    by (cases "sd_steps (controller_steps sd_card_os) (s, c)") auto
  then show ?thesis by (simp add: card_init_def)
qed

lemma init_failed_fails: "\<exists>d'. init_failed K d = (False, d')"
  by (simp add: init_failed_def split: prod.splits)

lemma startup_refused:
  assumes "sd_bufs s" and "\<not> sdio_initialized s" and "\<not> c_app c" and "\<not> c_ios c" and "\<not> (c_v2 c \<and> c_busy c < 10)"
  shows "\<not> fst (sdio_Startup sd_card_os (s, c))"
proof -
  let ?c = "c\<lparr> c_mode := Sd_Idle \<rparr>"
  let ?t = "s\<lparr> sd_fd := 3 \<rparr>"
  let ?s = "(put_buffer1 (put_be32 (sd_status c)) ((put_buffer1 (put_be32 0) (?t\<lparr> sd_rca := 0 \<rparr>))\<lparr> sd_rca := 0 \<rparr>))\<lparr> sd_fd := 3 \<rparr>"
  have os: "so_open sd_card_os f m x = (3, x)" "so_close sd_card_os fd x = x" for f m fd x by (simp_all add: sd_card_os_def)
  have st: "sd_status ?c = sd_status c" "sd_status c = 1" using assms(4) by (simp_all add: sd_status_def)
  obtain d2 where 2: "card_init sd_card_os (?s, ?c) = (False, d2)" using card_init_refused [of ?s ?c] assms by auto
  obtain s3 w3 where 3: "init_failed sd_card_os d2 = (False, s3, w3)" using init_failed_fails [of sd_card_os d2] by auto
  have "sd0_initio sd_card_os (?t, c) = (False, s3, w3)"
    using st 2 3 by (simp add: sd0_initio_def card_ioctls(2) [OF assms(4)] card_ioctls(1) os)
  then show ?thesis using assms(2) by (simp add: sdio_Startup_def os)
qed

lemma sd_zero_bufs: "sd_bufs sd_zero" and sd_zero_start: "\<not> sdio_initialized sd_zero"
  by (simp_all add: sd_zero_def sd_bufs_def)

section \<open>Properties\<close>

text \<open>
  C11. The start-up succeeds exactly for the cards it can start, and then the card can be read. It starts a card that the
  system has started, and any other card that answers the voltage check, as cards of the second version of the
  specification do, and is busy for at most nine answers; every other card is refused. After it a read, of sectors
  that 32 bits can address and into a buffer that is not null, puts the bytes of the sectors asked for into the buffer and changes nothing else, on a card that counts sectors even when up to nine
  transfers fail, on a card that counts bytes when none does.
\<close>

theorem sd_startup_then_read:
  assumes "\<not> c_app c" and "\<And>i. length (c_blocks c i) = 512" and "c_faults c < (if c_hc c then 10 else 1)"
    and "unat s * (if c_hc c then 1 else 512) < 4294967296" and "unat n * 512 < 4294967296" and "b \<noteq> 0"
  shows "(fst (sdio_Startup sd_card_os (sd_zero, c)) \<longleftrightarrow> c_ios c \<or> c_v2 c \<and> c_busy c < 10)
    \<and> (\<forall>d1. sdio_Startup sd_card_os (sd_zero, c) = (True, d1) \<longrightarrow>
         (\<exists>d2. sdio_ReadSectors sd_card_os s n b d1 = (True, d2)
           \<and> c_mem (snd d2) = wr (c_mem c) b (sectors (c_blocks c) (unat s) (unat n)) \<and> c_blocks (snd d2) = c_blocks c))"
proof (cases "c_ios c \<or> c_v2 c \<and> c_busy c < 10")
  case False
  then have "\<not> fst (sdio_Startup sd_card_os (sd_zero, c))"
    using startup_refused [OF sd_zero_bufs sd_zero_start assms(1)] by simp
  then show ?thesis using False by auto
next
  case True
  obtain s1 c1 where 1: "sdio_Startup sd_card_os (sd_zero, c) = (True, s1, c1)" "sd_paired s1 c1"
    "c1 = c\<lparr> c_busy := (if c_ios c then c_busy c else 0), c_mode := Sd_Stby \<rparr>"
    using startup_card [OF sd_zero_bufs sd_zero_start assms(1) True] by (elim exE conjE)
  have w: "of_nat (unat x) = x" for x :: u32 by simp
  have u: "sd_usable (s1, c1)" using 1(2,3) assms(2,3) by (simp add: sd_usable_def)
  have f: "sd_fits (s1, c1) (unat s) (unat n) b" using assms(4-6) 1(3) by (simp add: sd_fits_def)
  obtain s2 c2 where 2: "sdio_ReadSectors sd_card_os s n b (s1, c1) = (True, s2, c2)" "c_mem c2 = wr (c_mem c1) b (sectors (c_blocks c1) (unat s) (unat n))"
    "c_blocks c2 = c_blocks c1"
    using sd_reads [OF u f] unfolding w by (elim exE conjE)
  show ?thesis using 1(1,3) 2 True by simp
qed

definition demo_card :: sd_card where
  "demo_card = \<lparr> c_v2 = True, c_hc = True, c_ios = False, c_busy = 3, c_faults = 2, c_rca = 0x1234, c_mode = Sd_Tran, c_app = False,
     c_blocks = (\<lambda>i. replicate 512 (of_nat i)), c_mem = (\<lambda>_. 9) \<rparr>"

theorem sd_startup_then_read_witness:
  "\<exists>d1 d2. sdio_Startup sd_card_os (sd_zero, demo_card) = (True, d1) \<and> sdio_ReadSectors sd_card_os 7 2 0x10000000 d1 = (True, d2)
    \<and> c_mem (snd d2) 0x10000208 = 8 \<and> c_mem (snd d2) 0x10000400 = 9"
proof -
  have bytes: "sectors (c_blocks demo_card) 7 2 = replicate 512 7 @ replicate 512 8"
    by (simp add: sectors_def demo_card_def upt_rec)
  have up: "fst (sdio_Startup sd_card_os (sd_zero, demo_card)) \<longleftrightarrow> c_ios demo_card \<or> c_v2 demo_card \<and> c_busy demo_card < 10"
    and rd: "\<And>d1. sdio_Startup sd_card_os (sd_zero, demo_card) = (True, d1) \<Longrightarrow>
      \<exists>d2. sdio_ReadSectors sd_card_os 7 2 0x10000000 d1 = (True, d2)
        \<and> c_mem (snd d2) = wr (c_mem demo_card) 0x10000000 (sectors (c_blocks demo_card) (unat (7 :: u32)) (unat (2 :: u32))) \<and> c_blocks (snd d2) = c_blocks demo_card"
    using sd_startup_then_read [of demo_card 7 2 "0x10000000"] by (simp_all add: demo_card_def)
  obtain d1 where 1: "sdio_Startup sd_card_os (sd_zero, demo_card) = (True, d1)"
    using up by (cases "sdio_Startup sd_card_os (sd_zero, demo_card)") (simp add: demo_card_def)
  obtain d2 where 2: "sdio_ReadSectors sd_card_os 7 2 0x10000000 d1 = (True, d2)"
    and "c_mem (snd d2) = wr (c_mem demo_card) 0x10000000 (sectors (c_blocks demo_card) (unat (7 :: u32)) (unat (2 :: u32)))"
    using rd [OF 1] by (elim exE conjE)
  then have m: "c_mem (snd d2) = wr (c_mem demo_card) 0x10000000 (sectors (c_blocks demo_card) 7 2)" by simp
  have "c_mem (snd d2) 0x10000208 = 8" "c_mem (snd d2) 0x10000400 = 9"
    unfolding m bytes by (simp_all add: wr_def nth_append demo_card_def)
  with 1 2 show ?thesis by (intro exI conjI)
qed

text \<open>
  C12. What is written to a started card, in sectors that 32 bits can address, is read back, into any buffer that is
  not null, and the other sectors are as before: on a card that counts sectors even when up to nine transfers fail, on a card that counts bytes when none does.
\<close>

theorem sd_write_read_roundtrip:
  assumes "sd_usable (s, c)" and "sd_fits (s, c) k n a" and "sd_fits (s, c) k n b"
  shows "\<exists>s1 c1 s2 c2. sdio_WriteSectors sd_card_os (of_nat k) (of_nat n) a (s, c) = (True, s1, c1)
    \<and> sdio_ReadSectors sd_card_os (of_nat k) (of_nat n) b (s1, c1) = (True, s2, c2)
    \<and> rdm (c_mem c2) b (n * 512) = rdm (c_mem c) a (n * 512) \<and> c_blocks c2 = c_blocks c1
    \<and> (\<forall>i. i < k \<or> k + n \<le> i \<longrightarrow> c_blocks c1 i = c_blocks c i)"
proof -
  have split: "\<exists>s' c'. f (of_nat k) (of_nat n) x d = (True, s', c') \<and> d' = (s', c')" if "sd_transfer f k n x d = Some d'" for f x d d'
    using that by (auto simp: sd_transfer_def split: prod.splits if_splits)
  obtain d1 d2 where d: "sd_transfer (sdio_WriteSectors sd_card_os) k n a (s, c) = Some d1" "sd_transfer (sdio_ReadSectors sd_card_os) k n b d1 = Some d2"
    and r: "rdm (c_mem (snd d2)) b (n * 512) = rdm (c_mem c) a (n * 512)" "c_blocks (snd d2) = c_blocks (snd d1)"
      "\<forall>i. i < k \<or> k + n \<le> i \<longrightarrow> c_blocks (snd d1) i = c_blocks c i"
    using sd.write_then_read [OF assms] unfolding snd_conv by (elim exE conjE)
  obtain s1 c1 where 1: "sdio_WriteSectors sd_card_os (of_nat k) (of_nat n) a (s, c) = (True, s1, c1)" "d1 = (s1, c1)"
    using split [OF d(1)] by (elim exE conjE)
  obtain s2 c2 where 2: "sdio_ReadSectors sd_card_os (of_nat k) (of_nat n) b d1 = (True, s2, c2)" "d2 = (s2, c2)"
    using split [OF d(2)] by (elim exE conjE)
  show ?thesis using 1 2 r by (intro exI conjI) (assumption | simp)+
qed

definition demo_slot :: sd_state where
  "demo_slot = sd_zero\<lparr> sd_fd := 3, sd_rca := 0x1234, sd_sdhc := True, sd_initialized := True, sdio_initialized := True \<rparr>"

theorem sd_write_read_roundtrip_witness:
  "\<exists>s1 c1 s2 c2. sdio_WriteSectors sd_card_os (of_nat 7) (of_nat 2) 0x10000000 (demo_slot, demo_card\<lparr> c_mode := Sd_Stby \<rparr>) = (True, s1, c1)
    \<and> sdio_ReadSectors sd_card_os (of_nat 7) (of_nat 2) 0x10002000 (s1, c1) = (True, s2, c2) \<and> c_blocks c2 9 = replicate 512 9"
proof -
  have u: "sd_usable (demo_slot, demo_card\<lparr> c_mode := Sd_Stby \<rparr>)"
    by (simp add: sd_usable_def sd_paired_def sd_bufs_def demo_slot_def demo_card_def sd_zero_def)
  have f: "sd_fits (demo_slot, demo_card\<lparr> c_mode := Sd_Stby \<rparr>) 7 2 x" if "x \<noteq> 0" for x
    using that by (simp add: sd_fits_def demo_card_def)
  obtain s1 c1 s2 c2 where r: "sdio_WriteSectors sd_card_os (of_nat 7) (of_nat 2) 0x10000000 (demo_slot, demo_card\<lparr> c_mode := Sd_Stby \<rparr>) = (True, s1, c1)"
    "sdio_ReadSectors sd_card_os (of_nat 7) (of_nat 2) 0x10002000 (s1, c1) = (True, s2, c2)" "c_blocks c2 = c_blocks c1"
    "\<forall>i. i < 7 \<or> 7 + 2 \<le> i \<longrightarrow> c_blocks c1 i = c_blocks (demo_card\<lparr> c_mode := Sd_Stby \<rparr>) i"
    using sd_write_read_roundtrip [OF u f f, of "0x10000000" "0x10002000"] by auto
  have "c_blocks c2 9 = replicate 512 9" using r(3) r(4) [rule_format, of 9] by (simp add: demo_card_def)
  then show ?thesis using r(1,2) by (intro exI conjI)
qed

text \<open>
  C39. A repeated try goes to another sector: on a card that counts bytes the sector is multiplied by 512 at every
  try, so that a write whose first transfer fails returns success, stores the data from sector \<open>512 * s\<close> on
  and leaves the sector it was given as it was.
\<close>

theorem sd_retry_wrong_sector:
  assumes "sd_paired s c" and "\<not> c_hc c" and "c_faults c = 1" and "unat k * 262144 < 4294967296" and "k \<noteq> 0" and "b \<noteq> 0"
  shows "\<exists>s' c'. sdio_WriteSectors sd_card_os k n b (s, c) = (True, s', c')
    \<and> c_blocks c' = store_sectors 512 (512 * unat k) (rdm (c_mem c) b (unat n * 512)) (c_blocks c)
    \<and> c_blocks c' (unat k) = c_blocks c (unat k)"
proof -
  let ?k = "k * 512" and ?c = "c\<lparr> c_faults := 0 \<rparr>"
  let ?done = "sd_done 0x19 (512 * unat k) (unat n) b c"
  have m: "c_mode c = Sd_Stby" "\<not> c_app c" using assms(1) by (simp_all add: sd_paired_def)
  have k: "unat ?k = 512 * unat k" using assms(4) by (simp add: unat_word_ariths)
  have lt: "unat k * 512 < 4294967296" "unat ?k * 512 < 4294967296" using assms(4) k by linarith+
  have mult: "(if c_hc c then x else x * 512) = x * 512" "(if c_hc ?c then x else x * 512) = x * 512" for x :: u32 using assms(2) by simp_all
  have d1: "sd_data (c\<lparr> c_mode := Sd_Tran \<rparr>) 0x19 ?k n b = (-1, 0, c\<lparr> c_mode := Sd_Tran, c_faults := 0 \<rparr>)"
    using byte_sector [OF lt(1)] assms(3) by (simp add: sd_data_def)
  have c1: "c\<lparr> c_mode := Sd_Stby, c_faults := 0 \<rparr> = ?c" "c\<lparr> c_faults := 0, c_mode := Sd_Stby \<rparr> = ?c" using m(1) by (cases c, simp)+
  obtain s1 where 1: "rw_loop sd_card_os 0x19 (Suc 9) k n b (s, c) = rw_loop sd_card_os 0x19 9 ?k n b (s1, ?c)"
    and s1: "sd_bufs s1" "sd_rca s1 = sd_rca s" "sd_sdhc s1 = sd_sdhc s"
    using rw_try [OF assms(1) disjI2 [OF refl], where sector = k and tries = 9, unfolded mult, OF d1] m c1 by auto
  have swap: "c\<lparr> c_mode := Sd_Tran, c_faults := 0 \<rparr> = c\<lparr> c_faults := 0, c_mode := Sd_Tran \<rparr>" by (cases c) simp
  have p: "sd_paired s1 ?c" using assms(1) s1 by (simp add: sd_paired_def)
  have d2: "sd_data (?c\<lparr> c_mode := Sd_Tran \<rparr>) 0x19 (?k * 512) n b = (0, 0, ?done\<lparr> c_mode := Sd_Tran \<rparr>)"
    "?done\<lparr> c_mode := Sd_Tran \<rparr>\<lparr> c_mode := Sd_Stby \<rparr> = ?done"
    using sd_data_done [OF m(1), where arg = "?k * 512" and cmd = "0x19" and n = n and buf = b and s = "512 * unat k"] byte_sector [OF lt(2)] assms(2) k
    by (simp_all add: ac_simps swap)
  obtain s2 where 2: "rw_loop sd_card_os 0x19 (Suc 8) ?k n b (s1, ?c) = (True, s2, ?done)"
    using rw_try [OF p disjI2 [OF refl], where sector = ?k and tries = 8, unfolded mult, OF d2(1)] m d2(2) by auto
  have "sdio_WriteSectors sd_card_os k n b (s, c) = (True, s2, ?done)"
    using 1 2 by (simp add: sd_ops(2) [OF assms(6)])
  moreover have "c_blocks ?done (unat k) = c_blocks c (unat k)"
    using assms(5) by (simp add: sd_done_def store_sectors_def unat_gt_0)
  ultimately show ?thesis by (intro exI [of _ s2] exI [of _ ?done]) (simp add: sd_done_def)
qed

theorem sd_retry_wrong_sector_witness:
  "\<exists>s' c'. sdio_WriteSectors sd_card_os 5 1 0x10000000 (demo_slot\<lparr> sd_sdhc := False \<rparr>, demo_card\<lparr> c_hc := False, c_mode := Sd_Stby, c_faults := 1 \<rparr>) = (True, s', c')
    \<and> c_blocks c' 2560 = replicate 512 9 \<and> c_blocks c' 5 = replicate 512 5"
proof -
  have p: "sd_paired (demo_slot\<lparr> sd_sdhc := False \<rparr>) (demo_card\<lparr> c_hc := False, c_mode := Sd_Stby, c_faults := 1 \<rparr>)"
    by (simp add: sd_paired_def sd_bufs_def demo_slot_def demo_card_def sd_zero_def)
  obtain s' c' where r: "sdio_WriteSectors sd_card_os 5 1 0x10000000 (demo_slot\<lparr> sd_sdhc := False \<rparr>, demo_card\<lparr> c_hc := False, c_mode := Sd_Stby, c_faults := 1 \<rparr>) = (True, s', c')"
    "c_blocks c' = store_sectors 512 (512 * unat (5 :: u32)) (rdm (c_mem demo_card) 0x10000000 (unat (1 :: u32) * 512)) (c_blocks demo_card)"
    "c_blocks c' (unat (5 :: u32)) = c_blocks demo_card (unat (5 :: u32))"
    using sd_retry_wrong_sector [OF p, of 5 "0x10000000" 1] by auto
  have "rdm (\<lambda>_. 9) a n = replicate n 9" for a n by (rule nth_equalityI) (simp_all add: rdm_def)
  then have "c_blocks c' 2560 = replicate 512 9" "c_blocks c' 5 = replicate 512 5"
    using r(2,3) by (simp_all add: store_sectors_def demo_card_def)
  then show ?thesis using r(1) by (intro exI conjI)
qed

end
