(* ===== verification/Usb2.thy ===== *)
theory Usb2
  imports Libc
begin

text \<open>
  The client of the USB host module (\<open>usb-module/usb2.c\<close>): the list of attached devices, control and bulk
  messages, descriptors. The kernel, the heap and the host module are the parameter \<open>usb_os\<close>. The data of a
  message lies in the memory at the address the message names, and the host module may change it there; the
  message itself and the small request blocks are private to their call and passed as their bytes, words that
  the code does not set as zeros. \<open>uo_stack\<close> is where the local arrays of a caller lie.
  \<open>None\<close> is an access through a null pointer or outside an array, or to a descriptor that was never filled in.
\<close>

section \<open>State\<close>

record 'w usb_os =
  uo_open :: "string \<Rightarrow> 'w \<Rightarrow> s32 \<times> 'w"
  uo_close :: "s32 \<Rightarrow> 'w \<Rightarrow> 'w"
  uo_ioctl :: "s32 \<Rightarrow> u32 \<Rightarrow> bytes \<Rightarrow> nat \<Rightarrow> 'w \<Rightarrow> (s32 \<times> bytes) \<times> 'w"
  uo_ioctlv :: "s32 \<Rightarrow> u32 \<Rightarrow> nat \<Rightarrow> nat \<Rightarrow> bytes \<Rightarrow> u32 \<Rightarrow> u16 \<Rightarrow> memory \<Rightarrow> 'w \<Rightarrow> s32 \<times> memory \<times> 'w"
  uo_ioctl_async :: "s32 \<Rightarrow> u32 \<Rightarrow> 'w \<Rightarrow> 'w"
  uo_alloc :: "nat \<Rightarrow> 'w \<Rightarrow> u32 \<times> 'w"
  uo_free :: "u32 \<Rightarrow> 'w \<Rightarrow> 'w"
  uo_callback :: "u32 \<Rightarrow> u32 \<Rightarrow> 'w \<Rightarrow> 'w"
  uo_usleep :: "nat \<Rightarrow> 'w \<Rightarrow> 'w"
  uo_queue_send :: "u32 \<Rightarrow> 'w \<Rightarrow> 'w"
  uo_stack :: u32

abbreviation (input) USB_MAX_DEVICES :: nat where "USB_MAX_DEVICES \<equiv> 32"
abbreviation (input) USB_CLASS_HID :: u8 where "USB_CLASS_HID \<equiv> 0x03"
abbreviation (input) USBV5_IOCTL_CTRLMSG :: u32 where "USBV5_IOCTL_CTRLMSG \<equiv> 18"
abbreviation (input) USBV5_IOCTL_INTRMSG :: u32 where "USBV5_IOCTL_INTRMSG \<equiv> 19"
abbreviation (input) USBV5_IOCTL_BULKMSG :: u32 where "USBV5_IOCTL_BULKMSG \<equiv> 21"

record usb_device_entry =
  de_id :: s32
  de_vid :: u16
  de_pid :: u16
  de_token :: u32

record removal_notify =
  rn_cb :: u32
  rn_userdata :: u32
  rn_device_id :: s32

record usbv5_host =
  attached_devices :: "usb_device_entry list"
  remove_cb :: "removal_notify list"
  host_fd :: s32

definition no_entry :: usb_device_entry where
  "no_entry = \<lparr> de_id = 0, de_vid = 0, de_pid = 0, de_token = 0 \<rparr>"

definition host_zero :: usbv5_host where
  "host_zero = \<lparr> attached_devices = replicate USB_MAX_DEVICES no_entry,
     remove_cb = replicate USB_MAX_DEVICES \<lparr> rn_cb = 0, rn_userdata = 0, rn_device_id = 0 \<rparr>, host_fd = 0 \<rparr>"

type_synonym ('r, 'w) usb_result = "('r \<times> memory \<times> 'w) option"

section \<open>Messages\<close>

text \<open>The 64 bytes of a message that are sent: the device, the union, no callback, and the vector.\<close>

definition msg_vec :: "u32 \<Rightarrow> u32 \<Rightarrow> u16 \<Rightarrow> bytes" where
  "msg_vec msg rpData wLength = put_be32 msg @ put_be32 64 @ put_be32 rpData @ put_be32 (ucast wLength) @ replicate 16 0"

definition ctrl_msg :: "u32 \<Rightarrow> s32 \<Rightarrow> u8 \<Rightarrow> u8 \<Rightarrow> u16 \<Rightarrow> u16 \<Rightarrow> u16 \<Rightarrow> u32 \<Rightarrow> bytes" where
  "ctrl_msg msg devId bmRequestType bmRequest wValue wIndex wLength rpData =
     put_be32 (of_int devId) @ [0, 0, 0, 0]
     @ [bmRequestType, bmRequest] @ put_be16 wValue @ put_be16 wIndex @ put_be16 wLength @ put_be32 rpData @ [0, 0, 0, 0]
     @ replicate 8 0 @ msg_vec msg rpData wLength"

definition intr_msg :: "u32 \<Rightarrow> s32 \<Rightarrow> u8 \<Rightarrow> u16 \<Rightarrow> u32 \<Rightarrow> bytes" where
  "intr_msg msg devId bEndpoint wLength rpData =
     put_be32 (of_int devId) @ [0, 0, 0, 0]
     @ put_be32 rpData @ put_be16 wLength @ [bEndpoint] @ replicate 9 0
     @ replicate 8 0 @ msg_vec msg rpData wLength"

definition bulk_msg :: "u32 \<Rightarrow> s32 \<Rightarrow> u8 \<Rightarrow> u16 \<Rightarrow> u32 \<Rightarrow> bytes" where
  "bulk_msg msg devId bEndpoint wLength rpData =
     put_be32 (of_int devId) @ [0, 0, 0, 0]
     @ put_be32 rpData @ put_be16 wLength @ replicate 4 0 @ [bEndpoint] @ replicate 5 0
     @ replicate 8 0 @ msg_vec msg rpData wLength"

definition usb_control_message ::
  "'w usb_os \<Rightarrow> usbv5_host option \<Rightarrow> s32 \<Rightarrow> u8 \<Rightarrow> u8 \<Rightarrow> u16 \<Rightarrow> u16 \<Rightarrow> u16 \<Rightarrow> u32 \<Rightarrow> memory \<Rightarrow> 'w \<Rightarrow> (s32, 'w) usb_result"
where
  "usb_control_message U host devId bmRequestType bmRequest wValue wIndex wLength rpData m w =
     (let adjust = unat (drop_bit 7 bmRequestType); (msg, w1) = uo_alloc U 88 w in
      if msg = 0 then Some (IPC_ENOMEM, m, w1)
      else do { h \<leftarrow> host;
                let (ret, m2, w2) = uo_ioctlv U (host_fd h) USBV5_IOCTL_CTRLMSG (2 - adjust) adjust
                      (ctrl_msg msg devId bmRequestType bmRequest wValue wIndex wLength rpData) rpData wLength m w1
                in Some (ret, m2, uo_free U msg w2) })"

definition usb_interrupt_bulk_message ::
  "'w usb_os \<Rightarrow> usbv5_host option \<Rightarrow> s32 \<Rightarrow> u32 \<Rightarrow> u8 \<Rightarrow> u16 \<Rightarrow> u32 \<Rightarrow> memory \<Rightarrow> 'w \<Rightarrow> (s32, 'w) usb_result"
where
  "usb_interrupt_bulk_message U host devId ioctl bEndpoint wLength rpData m w =
     (let adjust = unat (drop_bit 7 bEndpoint) in
      if rpData AND 31 \<noteq> 0 then Some (IPC_EINVAL, m, w)
      else if wLength \<noteq> 0 \<and> rpData = 0 then Some (IPC_EINVAL, m, w)
      else if wLength = 0 \<and> rpData \<noteq> 0 then Some (IPC_EINVAL, m, w)
      else let (msg, w1) = uo_alloc U 88 w in
        if msg = 0 then Some (IPC_ENOMEM, m, w1)
        else do { h \<leftarrow> host;
                  let (ret, m2, w2) = uo_ioctlv U (host_fd h) ioctl (2 - adjust) adjust
                        (if ioctl = USBV5_IOCTL_INTRMSG then intr_msg msg devId bEndpoint wLength rpData
                         else bulk_msg msg devId bEndpoint wLength rpData) rpData wLength m w1
                  in Some (ret, m2, uo_free U msg w2) })"

definition USB_ReadIntrMsg where "USB_ReadIntrMsg U host devId = usb_interrupt_bulk_message U host devId USBV5_IOCTL_INTRMSG"
definition USB_WriteIntrMsg where "USB_WriteIntrMsg U host devId = usb_interrupt_bulk_message U host devId USBV5_IOCTL_INTRMSG"
definition USB_ReadBlkMsg where "USB_ReadBlkMsg U host devId = usb_interrupt_bulk_message U host devId USBV5_IOCTL_BULKMSG"
definition USB_WriteBlkMsg where "USB_WriteBlkMsg U host devId = usb_interrupt_bulk_message U host devId USBV5_IOCTL_BULKMSG"
definition USB_ReadCtrlMsg where "USB_ReadCtrlMsg U host devId = usb_control_message U host devId"
definition USB_WriteCtrlMsg where "USB_WriteCtrlMsg U host devId = usb_control_message U host devId"

section \<open>Attached devices\<close>

text \<open>The search runs to the first free entry; a list without one is read past its end.\<close>

fun find_dev :: "s32 \<Rightarrow> usb_device_entry list \<Rightarrow> s32 option" where
  "find_dev devId [] = None"
| "find_dev devId (e # es) =
     (if de_id e = 0 then Some (-1) else if de_id e = devId then Some 0
      else map_option (\<lambda>i. if i < 0 then i else i + 1) (find_dev devId es))"

definition USB_FindDevice :: "usbv5_host option \<Rightarrow> s32 \<Rightarrow> s32 option" where
  "USB_FindDevice host devId =
     (case host of None \<Rightarrow> Some IPC_EINVAL | Some h \<Rightarrow> find_dev devId (attached_devices h))"

definition USB_AttachFinish :: "'w usb_os \<Rightarrow> usbv5_host option \<Rightarrow> s32 \<Rightarrow> 'w \<Rightarrow> s32 \<times> 'w" where
  "USB_AttachFinish U host result w =
     (0, case host of Some h \<Rightarrow> if result = 0 then uo_ioctl_async U (host_fd h) 1 w else w | None \<Rightarrow> w)"

text \<open>A device that is no longer in the list loses its callback, which is called.\<close>

fun drop_removed ::
  "'w usb_os \<Rightarrow> usb_device_entry list \<Rightarrow> removal_notify list \<Rightarrow> 'w \<Rightarrow> removal_notify list \<times> 'w"
where
  "drop_removed U att [] w = ([], w)"
| "drop_removed U att (r # rs) w =
     (let gone = rn_cb r \<noteq> 0 \<and> rn_device_id r \<notin> de_id ` set att;
          w1 = (if gone then uo_callback U (rn_cb r) (rn_userdata r) w else w);
          (rs', w2) = drop_removed U att rs w1
      in ((if gone then r\<lparr> rn_cb := 0 \<rparr> else r) # rs', w2))"

definition USB_DeviceChange :: "'w usb_os \<Rightarrow> usbv5_host option \<Rightarrow> s32 \<Rightarrow> 'w \<Rightarrow> (s32 \<times> usbv5_host option \<times> 'w) option" where
  "USB_DeviceChange U host result w =
     (case host of
        None \<Rightarrow> Some (0, host, w)
      | Some h \<Rightarrow>
          if result < 0 then Some (0, host, w)
          else if result > int USB_MAX_DEVICES then None
          else let n = nat result;
                   (rs, w1) = drop_removed U (take n (attached_devices h)) (remove_cb h) w;
                   h1 = h\<lparr> remove_cb := rs,
                           attached_devices := take n (attached_devices h) @ replicate (USB_MAX_DEVICES - n) no_entry \<rparr>
               in Some (0, Some h1, uo_ioctl_async U (host_fd h) 6 w1))"

definition USB_Init :: "'w usb_os \<Rightarrow> usbv5_host option \<Rightarrow> 'w \<Rightarrow> (s32 \<times> usbv5_host option \<times> 'w) option" where
  "USB_Init U host w =
     (if host \<noteq> None then Some (0, host, w)
      else let (fd, w1) = uo_open U ''/dev/usb/ven'' w in
        if fd < 0 then Some (IPC_ENOENT, None, w1)
        else let (p, w2) = uo_alloc U 772 w1 in
          if p = 0 then Some (IPC_ENOMEM, None, uo_close U fd w2)
          else let h = host_zero\<lparr> host_fd := fd \<rparr>; (v, w3) = uo_alloc U 32 w2 in
            if v = 0 then Some (IPC_ENOMEM, Some h, w3)
            else let ((ret, ver), w4) = uo_ioctl U fd 0 [] 32 w3 in
              do { v0 \<leftarrow> rd32 ver 0;
                   if ret \<noteq> 0 \<or> v0 \<noteq> 0x50001 then None
                   else Some (ret, Some h, uo_free U v (uo_ioctl_async U fd 1 w4)) })"

definition USB_Close :: "'w usb_os \<Rightarrow> u32 \<Rightarrow> usbv5_host option \<Rightarrow> 'w \<Rightarrow> usbv5_host option \<times> 'w" where
  "USB_Close U p host w =
     (case host of
        None \<Rightarrow> (None, w)
      | Some h \<Rightarrow> (None, uo_free U p
          (if host_fd h \<ge> 0 then uo_close U (host_fd h) (snd (uo_ioctl U (host_fd h) 2 [] 0 w)) else w)))"

text \<open>A request block of 32 bytes: the device and one word.\<close>

definition dev_request :: "'w usb_os \<Rightarrow> usbv5_host option \<Rightarrow> u32 \<Rightarrow> s32 \<Rightarrow> u32 \<Rightarrow> 'w \<Rightarrow> (s32 \<times> 'w) option" where
  "dev_request U host cmd devId v w =
     do { i \<leftarrow> USB_FindDevice host devId;
          if i < 0 then Some (IPC_ENOENT, w)
          else let (buf, w1) = uo_alloc U 32 w in
            if buf = 0 then Some (IPC_ENOMEM, w1)
            else do { h \<leftarrow> host;
                      let ((ret, out), w2) = uo_ioctl U (host_fd h) cmd
                            (put_be32 (of_int devId) @ [0, 0, 0, 0] @ put_be32 v @ replicate 20 0) 0 w1
                      in Some (ret, uo_free U buf w2) } }"

definition USB_SuspendResume :: "'w usb_os \<Rightarrow> usbv5_host option \<Rightarrow> s32 \<Rightarrow> s32 \<Rightarrow> 'w \<Rightarrow> (s32 \<times> 'w) option" where
  "USB_SuspendResume U host devId resumed w = dev_request U host 16 devId (of_int resumed) w"

definition USB_CancelEndpoint :: "'w usb_os \<Rightarrow> usbv5_host option \<Rightarrow> s32 \<Rightarrow> u8 \<Rightarrow> 'w \<Rightarrow> (s32 \<times> 'w) option" where
  "USB_CancelEndpoint U host devId endpoint w = dev_request U host 17 devId (ucast endpoint) w"

definition USB_OpenDevice :: "'w usb_os \<Rightarrow> usbv5_host option \<Rightarrow> s32 \<Rightarrow> 'w \<Rightarrow> (s32 \<times> 'w) option" where
  "USB_OpenDevice U host devId w =
     do { i \<leftarrow> USB_FindDevice host devId;
          if i < 0 then Some (IPC_EINVAL, w) else USB_SuspendResume U host devId 1 w }"

text \<open>The first callback of the device is called and forgotten.\<close>

fun call_removal :: "'w usb_os \<Rightarrow> s32 \<Rightarrow> removal_notify list \<Rightarrow> 'w \<Rightarrow> removal_notify list \<times> 'w" where
  "call_removal U devId [] w = ([], w)"
| "call_removal U devId (r # rs) w =
     (if rn_cb r \<noteq> 0 \<and> rn_device_id r = devId then (r\<lparr> rn_cb := 0 \<rparr> # rs, uo_callback U (rn_cb r) (rn_userdata r) w)
      else let (rs', w') = call_removal U devId rs w in (r # rs', w'))"

definition USB_CloseDevice ::
  "'w usb_os \<Rightarrow> usbv5_host option \<Rightarrow> s32 \<Rightarrow> 'w \<Rightarrow> (s32 \<times> s32 \<times> usbv5_host option \<times> 'w) option"
where
  "USB_CloseDevice U host devId w =
     do { i \<leftarrow> USB_FindDevice host devId;
          if i < 0 then Some (IPC_EINVAL, devId, host, w)
          else do { h \<leftarrow> host;
                    let (rs, w1) = call_removal U devId (remove_cb h) w; host1 = Some (h\<lparr> remove_cb := rs \<rparr>)
                    in do { (ret, w2) \<leftarrow> USB_SuspendResume U host1 devId 0 w1; Some (ret, -1, host1, w2) } } }"

fun free_slot :: "u32 \<Rightarrow> u32 \<Rightarrow> s32 \<Rightarrow> removal_notify list \<Rightarrow> removal_notify list option" where
  "free_slot cb ud devId [] = None"
| "free_slot cb ud devId (r # rs) =
     (if rn_cb r = 0 then Some (\<lparr> rn_cb = cb, rn_userdata = ud, rn_device_id = devId \<rparr> # rs)
      else map_option (Cons r) (free_slot cb ud devId rs))"

definition USB_DeviceRemovalNotify ::
  "usbv5_host option \<Rightarrow> s32 \<Rightarrow> u32 \<Rightarrow> u32 \<Rightarrow> (s32 \<times> usbv5_host option) option"
where
  "USB_DeviceRemovalNotify host devId cb userdata =
     do { i \<leftarrow> USB_FindDevice host devId;
          if i < 0 then Some (IPC_ENOENT, host)
          else do { h \<leftarrow> host;
                    if \<exists>r \<in> set (remove_cb h). rn_cb r \<noteq> 0 \<and> rn_device_id r = devId then Some (IPC_EINVAL, host)
                    else (case free_slot cb userdata devId (remove_cb h) of
                            Some rs \<Rightarrow> Some (0, Some (h\<lparr> remove_cb := rs \<rparr>))
                          | None \<Rightarrow> Some (IPC_EINVAL, host)) } }"

definition USB_GetDeviceList :: "usbv5_host option \<Rightarrow> nat \<Rightarrow> u8 \<Rightarrow> (s32 \<times> usb_device_entry list) option" where
  "USB_GetDeviceList host num_descr interface =
     (if interface = USB_CLASS_HID then Some (IPC_EINVAL, [])
      else if num_descr = 0 then Some (0, [])
      else do { h \<leftarrow> host; Some (0, take num_descr (takeWhile (\<lambda>e. de_id e \<noteq> 0) (attached_devices h))) })"

section \<open>Descriptors\<close>

record usb_endpointdesc =
  ed_bLength :: u8
  ed_bEndpointAddress :: u8
  ed_bmAttributes :: u8

record usb_interfacedesc =
  id_bLength :: u8
  id_bInterfaceNumber :: u8
  id_bAlternateSetting :: u8
  id_bNumEndpoints :: u8
  id_bInterfaceClass :: u8
  id_bInterfaceSubClass :: u8
  id_bInterfaceProtocol :: u8
  id_endpoints :: "(u32 \<times> usb_endpointdesc list) option"

record usb_configurationdesc =
  cd_bNumInterfaces :: u8
  cd_bConfigurationValue :: u8
  cd_interfaces :: "(u32 \<times> usb_interfacedesc list) option"

record usb_devdesc =
  dd_bLength :: u8
  dd_bNumConfigurations :: u8
  dd_configurations :: "(u32 \<times> usb_configurationdesc list) option"

definition round4 :: "u8 \<Rightarrow> nat" where
  "round4 n = (unat n + 3) div 4 * 4"

text \<open>The descriptors in the reply, read one after the other; a read past the 192 bytes of the reply is \<open>None\<close>.\<close>

fun read_endpoints :: "bytes \<Rightarrow> nat \<Rightarrow> nat \<Rightarrow> (usb_endpointdesc list \<times> nat) option" where
  "read_endpoints buffer next 0 = Some ([], next)"
| "read_endpoints buffer next (Suc n) =
     do { d \<leftarrow> rd_block buffer next 7;
          (es, next') \<leftarrow> read_endpoints buffer (next + round4 (d ! 0)) n;
          Some (\<lparr> ed_bLength = d ! 0, ed_bEndpointAddress = d ! 2, ed_bmAttributes = d ! 3 \<rparr> # es, next') }"

definition interface_of :: "bytes \<Rightarrow> (u32 \<times> usb_endpointdesc list) option \<Rightarrow> usb_interfacedesc" where
  "interface_of d eps = \<lparr> id_bLength = d ! 0, id_bInterfaceNumber = d ! 2, id_bAlternateSetting = d ! 3,
     id_bNumEndpoints = d ! 4, id_bInterfaceClass = d ! 5, id_bInterfaceSubClass = d ! 6,
     id_bInterfaceProtocol = d ! 7, id_endpoints = eps \<rparr>"

text \<open>One configuration. The flag says that every allocation succeeded; a configuration without interface
  has no room for the one that is copied.\<close>

definition read_config ::
  "'w usb_os \<Rightarrow> bytes \<Rightarrow> nat \<Rightarrow> 'w \<Rightarrow> ((usb_configurationdesc \<times> nat \<times> bool) \<times> 'w) option"
where
  "read_config U buffer next w =
     do { c \<leftarrow> rd_block buffer next 9;
          let n = (if c ! 4 \<noteq> 0 then 1 else 0); next1 = next + 12; (ip, w1) = uo_alloc U (unat n * 18) w;
              cd = (\<lambda>is. \<lparr> cd_bNumInterfaces = n, cd_bConfigurationValue = c ! 5, cd_interfaces = is \<rparr>)
          in if ip = 0 then Some ((cd None, next1, False), w1)
             else if n = 0 then None
             else do { d \<leftarrow> rd_block buffer next1 9;
                       let next2 = next1 + round4 (d ! 0); (ep, w2) = uo_alloc U (unat (d ! 4) * 7) w1
                       in if ep = 0 then Some ((cd (Some (ip, [interface_of d None])), next2, False), w2)
                          else do { (es, next3) \<leftarrow> read_endpoints buffer next2 (unat (d ! 4));
                                    Some ((cd (Some (ip, [interface_of d (Some (ep, es))])), next3, True), w2) } } }"

fun read_configs ::
  "'w usb_os \<Rightarrow> bytes \<Rightarrow> nat \<Rightarrow> nat \<Rightarrow> 'w \<Rightarrow> (usb_configurationdesc list \<times> 'w) option"
where
  "read_configs U buffer next 0 w = Some ([], w)"
| "read_configs U buffer next (Suc n) w =
     do { ((c, next', ok), w1) \<leftarrow> read_config U buffer next w;
          if ok then do { (cs, w2) \<leftarrow> read_configs U buffer next' n w1; Some (c # cs, w2) }
          else Some ([c], w1) }"

text \<open>The result of \<open>USB_FindDevice\<close> is still in \<open>ret\<close> when an allocation fails, and later the zero of the
  request: failed allocations are not reported. Descriptors that were not filled in are \<open>None\<close>.\<close>

definition USB_GetDescriptors ::
  "'w usb_os \<Rightarrow> usbv5_host option \<Rightarrow> s32 \<Rightarrow> 'w \<Rightarrow> ((s32 \<times> usb_devdesc option) \<times> 'w) option"
where
  "USB_GetDescriptors U host devId w =
     do { i \<leftarrow> USB_FindDevice host devId;
          if i < 0 then Some ((IPC_EINVAL, None), w)
          else let (iobuf, w1) = uo_alloc U 0x20 w; (buffer, w2) = uo_alloc U 0xC0 w1;
                   done = (\<lambda>w. let w' = (if iobuf \<noteq> 0 then uo_free U iobuf w else w) in if buffer \<noteq> 0 then uo_free U buffer w' else w')
               in if iobuf = 0 \<or> buffer = 0 then Some ((i, None), done w2)
                  else do { h \<leftarrow> host;
                            let ((ret, reply), w3) = uo_ioctl U (host_fd h) 3
                                  (put_be32 (of_int devId) @ replicate 28 0) 0xC0 w2
                            in if ret \<noteq> 0 then Some ((ret, None), done w3)
                               else do { d \<leftarrow> rd_block reply 20 22;
                                         let (cp, w4) = uo_alloc U (unat (d ! 17) * 13) w3;
                                             dd = (\<lambda>cs. Some \<lparr> dd_bLength = d ! 0, dd_bNumConfigurations = d ! 17, dd_configurations = cs \<rparr>)
                                         in if cp = 0 then Some ((0, dd None), done w4)
                                            else do { (cs, w5) \<leftarrow> read_configs U reply (20 + round4 (d ! 0)) (unat (d ! 17)) w4;
                                                      Some ((0, dd (Some (cp, cs))), done w5) } } } }"

text \<open>The pointer \<open>extra\<close> of an interface, which is never set, is taken as null.\<close>

definition free_interface :: "'w usb_os \<Rightarrow> usb_interfacedesc \<Rightarrow> 'w \<Rightarrow> 'w" where
  "free_interface U i w = (case id_endpoints i of Some (p, es) \<Rightarrow> uo_free U p w | None \<Rightarrow> w)"

definition free_config :: "'w usb_os \<Rightarrow> usb_configurationdesc \<Rightarrow> 'w \<Rightarrow> 'w" where
  "free_config U c w =
     (case cd_interfaces c of Some (p, is) \<Rightarrow> uo_free U p (fold (free_interface U) is w) | None \<Rightarrow> w)"

definition USB_FreeDescriptors :: "'w usb_os \<Rightarrow> usb_devdesc \<Rightarrow> 'w \<Rightarrow> 'w" where
  "USB_FreeDescriptors U udd w =
     (case dd_configurations udd of Some (p, cs) \<Rightarrow> uo_free U p (fold (free_config U) cs w) | None \<Rightarrow> w)"

section \<open>Standard requests\<close>

definition USB_SetConfiguration where
  "USB_SetConfiguration U host fd configuration = usb_control_message U host fd 0 0x09 (ucast (configuration :: u8)) 0 0 0"

definition USB_GetConfiguration ::
  "'w usb_os \<Rightarrow> usbv5_host option \<Rightarrow> s32 \<Rightarrow> memory \<Rightarrow> 'w \<Rightarrow> (s32 \<times> u8 option, 'w) usb_result"
where
  "USB_GetConfiguration U host fd m w =
     (let (conf, w1) = uo_alloc U 1 w in
      if conf = 0 then Some ((IPC_ENOMEM, None), m, w1)
      else do { (ret, m2, w2) \<leftarrow> usb_control_message U host fd 0x80 0x08 0 0 1 conf m w1;
                Some ((ret, if ret \<ge> 0 then Some (m2 conf) else None), m2, uo_free U conf w2) })"

definition USB_SetAlternativeInterface ::
  "'w usb_os \<Rightarrow> usbv5_host option \<Rightarrow> s32 \<Rightarrow> u8 \<Rightarrow> u8 \<Rightarrow> memory \<Rightarrow> 'w \<Rightarrow> (s32, 'w) usb_result"
where
  "USB_SetAlternativeInterface U host fd interface alternateSetting m w =
     (if alternateSetting = 0 then Some (IPC_EINVAL, m, w)
      else usb_control_message U host fd 1 0x0b (ucast alternateSetting) (ucast interface) 0 0 m w)"

end
