(* ===== verification/Usb_Storage.thy ===== *)
theory Usb_Storage
  imports Usb2
begin

text \<open>
  The mass storage driver of the USB module (\<open>usb-module/usbstorage.c\<close>): commands in wrappers over the bulk
  endpoints, with retries and resets. Buffers are addresses in the memory, the local arrays for sense data and
  capacity lie at \<open>uo_stack\<close>; a command block is passed as its bytes.
\<close>

section \<open>State\<close>

abbreviation (input) USBSTORAGE_OK :: s32 where "USBSTORAGE_OK \<equiv> 0"
abbreviation (input) USBSTORAGE_ENOINTERFACE :: s32 where "USBSTORAGE_ENOINTERFACE \<equiv> -10000"
abbreviation (input) USBSTORAGE_ESENSE :: s32 where "USBSTORAGE_ESENSE \<equiv> -10001"
abbreviation (input) USBSTORAGE_ESHORTWRITE :: s32 where "USBSTORAGE_ESHORTWRITE \<equiv> -10002"
abbreviation (input) USBSTORAGE_ESHORTREAD :: s32 where "USBSTORAGE_ESHORTREAD \<equiv> -10003"
abbreviation (input) USBSTORAGE_ESIGNATURE :: s32 where "USBSTORAGE_ESIGNATURE \<equiv> -10004"
abbreviation (input) USBSTORAGE_ETAG :: s32 where "USBSTORAGE_ETAG \<equiv> -10005"
abbreviation (input) USBSTORAGE_ESTATUS :: s32 where "USBSTORAGE_ESTATUS \<equiv> -10006"
abbreviation (input) USBSTORAGE_EDATARESIDUE :: s32 where "USBSTORAGE_EDATARESIDUE \<equiv> -10007"
abbreviation (input) USBSTORAGE_ETIMEDOUT :: s32 where "USBSTORAGE_ETIMEDOUT \<equiv> -10008"
abbreviation (input) USBSTORAGE_EINIT :: s32 where "USBSTORAGE_EINIT \<equiv> -10009"
abbreviation (input) TAG_START :: u32 where "TAG_START \<equiv> 0x0BADC0DE"
abbreviation (input) CBW_SIGNATURE :: u32 where "CBW_SIGNATURE \<equiv> 0x43425355"
abbreviation (input) CSW_SIGNATURE :: u32 where "CSW_SIGNATURE \<equiv> 0x53425355"
abbreviation (input) CBW_IN :: u8 where "CBW_IN \<equiv> 0x80"
abbreviation (input) CBW_OUT :: u8 where "CBW_OUT \<equiv> 0"
abbreviation (input) MAX_TRANSFER_SIZE :: u32 where "MAX_TRANSFER_SIZE \<equiv> 4096"
abbreviation (input) SCSI_SENSE_REPLY_SIZE :: nat where "SCSI_SENSE_REPLY_SIZE \<equiv> 18"

text \<open>\<open>us_sector_size\<close> is the array with its address.\<close>

record usbstorage_handle =
  us_configuration :: u8
  us_interface :: u32
  us_altInterface :: u32
  us_ep_in :: u8
  us_ep_out :: u8
  us_max_lun :: u8
  us_sector_size :: "(u32 \<times> u32 list) option"
  us_fd :: s32
  us_tag :: u32
  us_suspended :: u8
  us_buffer :: u32

definition handle_zero :: usbstorage_handle where
  "handle_zero = \<lparr> us_configuration = 0, us_interface = 0, us_altInterface = 0, us_ep_in = 0, us_ep_out = 0,
     us_max_lun = 0, us_sector_size = None, us_fd = 0, us_tag = 0, us_suspended = 0, us_buffer = 0 \<rparr>"

definition Swap32 :: "u32 \<Rightarrow> u32" where
  "Swap32 val = push_bit 24 (val AND 0x000000FF) OR push_bit 8 (val AND 0x0000FF00)
     OR drop_bit 24 (val AND 0xFF000000) OR drop_bit 8 (val AND 0x00FF0000)"

section \<open>Transport\<close>

definition USB_BlkMsgTimeout ::
  "'w usb_os \<Rightarrow> usbv5_host option \<Rightarrow> usbstorage_handle \<Rightarrow> u8 \<Rightarrow> u16 \<Rightarrow> u32 \<Rightarrow> memory \<Rightarrow> 'w \<Rightarrow> (s32, 'w) usb_result"
where
  "USB_BlkMsgTimeout U host dev bEndpoint wLength rpData m w =
     do { (retval, m1, w1) \<leftarrow> USB_WriteBlkMsg U host (us_fd dev) bEndpoint wLength rpData m w;
          if retval < 0
          then do { (_, w2) \<leftarrow> USB_CancelEndpoint U host (us_fd dev) bEndpoint w1; Some (retval, m1, w2) }
          else Some (retval, m1, w1) }"

definition USB_CtrlMsgTimeout where
  "USB_CtrlMsgTimeout U host dev = USB_WriteCtrlMsg U host (us_fd dev)"

definition usbstorage_reset ::
  "'w usb_os \<Rightarrow> usbv5_host option \<Rightarrow> usbstorage_handle \<Rightarrow> memory \<Rightarrow> 'w \<Rightarrow> (s32, 'w) usb_result"
where
  "usbstorage_reset U host dev m w =
     do { (retval, m1, w1) \<leftarrow> USB_CtrlMsgTimeout U host dev 0x21 0xFF 0 (ucast (us_interface dev)) 0 0 m w;
          Some (retval, m1, if retval < 0 \<and> retval \<noteq> -7004 then w1 else uo_usleep U 100 w1) }"

text \<open>The command wrapper, built in the buffer of the handle.\<close>

definition put_cbw :: "usbstorage_handle \<Rightarrow> u8 \<Rightarrow> u32 \<Rightarrow> u8 \<Rightarrow> bytes \<Rightarrow> memory \<Rightarrow> memory" where
  "put_cbw dev lun len flags cb m =
     (let buf = us_buffer dev;
          m1 = memset m buf 0 31;
          m2 = store32 (store32 (store32 m1 buf (Swap32 CBW_SIGNATURE)) (buf + 4) (Swap32 (us_tag dev))) (buf + 8) (Swap32 len);
          m3 = m2(buf + 12 := flags, buf + 13 := lun, buf + 14 := if 6 < length cb then 10 else 6)
      in wr m3 (buf + 15) cb)"

definition send_cbw ::
  "'w usb_os \<Rightarrow> usbv5_host option \<Rightarrow> usbstorage_handle \<Rightarrow> u8 \<Rightarrow> u32 \<Rightarrow> u8 \<Rightarrow> bytes \<Rightarrow> memory \<Rightarrow> 'w
     \<Rightarrow> (s32 \<times> usbstorage_handle, 'w) usb_result"
where
  "send_cbw U host dev lun len flags cb m w =
     (if cb = [] \<or> 16 < length cb then Some ((IPC_EINVAL, dev), m, w)
      else let m1 = put_cbw dev lun len flags cb m in
        do { w1 \<leftarrow> (if us_suspended dev = 1 then map_option snd (USB_SuspendResume U host (us_fd dev) 1 w) else Some w);
             let dev1 = (if us_suspended dev = 1 then dev\<lparr> us_suspended := 0 \<rparr> else dev) in
             do { (retval, m2, w2) \<leftarrow> USB_BlkMsgTimeout U host dev1 (us_ep_out dev1) 31 (us_buffer dev1) m1 w1;
                  Some ((if retval = 31 then USBSTORAGE_OK else if retval > 0 then USBSTORAGE_ESHORTWRITE else retval, dev1), m2, w2) } })"

text \<open>The status wrapper: the result, and the status and residue when its signature was right.\<close>

definition read_csw ::
  "'w usb_os \<Rightarrow> usbv5_host option \<Rightarrow> usbstorage_handle \<Rightarrow> memory \<Rightarrow> 'w
     \<Rightarrow> (s32 \<times> (u8 \<times> u32) option \<times> usbstorage_handle, 'w) usb_result"
where
  "read_csw U host dev m w =
     do { (retval, m1, w1) \<leftarrow> USB_BlkMsgTimeout U host dev (us_ep_in dev) 13 (us_buffer dev) (memset m (us_buffer dev) 0 13) w;
          if retval > 0 \<and> retval \<noteq> 13 then Some ((USBSTORAGE_ESHORTREAD, None, dev), m1, w1)
          else if retval < 0 then Some ((retval, None, dev), m1, w1)
          else let buf = us_buffer dev; signature = Swap32 (load32 m1 buf); tag = Swap32 (load32 m1 (buf + 4));
                   res = Some (m1 (buf + 12), Swap32 (load32 m1 (buf + 8)))
               in if signature \<noteq> CSW_SIGNATURE then Some ((USBSTORAGE_ESIGNATURE, None, dev), m1, w1)
                  else if tag \<noteq> us_tag dev then Some ((USBSTORAGE_ETAG, res, dev), m1, w1)
                  else Some ((USBSTORAGE_OK, res, dev\<lparr> us_tag := us_tag dev + 1 \<rparr>), m1, w1) }"

section \<open>Data\<close>

text \<open>A buffer that is not aligned, or does not lie in the upper memory, goes through the one of the handle.\<close>

definition bounced :: "u32 \<Rightarrow> bool" where
  "bounced buffer \<longleftrightarrow> buffer AND 0x1F \<noteq> 0 \<or> buffer AND 0x10000000 = 0"

definition this_len :: "u32 \<Rightarrow> u32" where
  "this_len len = (if len > MAX_TRANSFER_SIZE then MAX_TRANSFER_SIZE else len)"

lemma this_len_pos: "len \<noteq> 0 \<Longrightarrow> unat (len - this_len len) < unat len"
  by (auto simp: this_len_def word_less_nat_alt unat_u32_sub word_le_nat_alt unat_gt_0)

definition write_chunk ::
  "'w usb_os \<Rightarrow> usbv5_host option \<Rightarrow> usbstorage_handle \<Rightarrow> u32 \<Rightarrow> u32 \<Rightarrow> memory \<Rightarrow> 'w \<Rightarrow> (s32, 'w) usb_result"
where
  "write_chunk U host dev len buffer m w =
     (if bounced buffer
      then USB_BlkMsgTimeout U host dev (us_ep_out dev) (ucast (this_len len)) (us_buffer dev)
             (memcpy m (us_buffer dev) buffer (unat (this_len len))) w
      else USB_BlkMsgTimeout U host dev (us_ep_out dev) (ucast (this_len len)) buffer m w)"

definition read_chunk ::
  "'w usb_os \<Rightarrow> usbv5_host option \<Rightarrow> usbstorage_handle \<Rightarrow> u32 \<Rightarrow> u32 \<Rightarrow> memory \<Rightarrow> 'w \<Rightarrow> (s32, 'w) usb_result"
where
  "read_chunk U host dev len buffer m w =
     (if bounced buffer
      then do { (retval, m1, w1) \<leftarrow> USB_BlkMsgTimeout U host dev (us_ep_in dev) (ucast (this_len len)) (us_buffer dev) m w;
                Some (retval, if retval > 0 then memcpy m1 buffer (us_buffer dev) (nat retval) else m1, w1) }
      else USB_BlkMsgTimeout U host dev (us_ep_in dev) (ucast (this_len len)) buffer m w)"

text \<open>The loops return the result with the length and the buffer that are left.\<close>

function write_data ::
  "'w usb_os \<Rightarrow> usbv5_host option \<Rightarrow> usbstorage_handle \<Rightarrow> s32 \<Rightarrow> u32 \<Rightarrow> u32 \<Rightarrow> memory \<Rightarrow> 'w
     \<Rightarrow> (s32 \<times> u32 \<times> u32, 'w) usb_result"
where
  "write_data U host dev retval len buffer m w =
     (if len = 0 then Some ((retval, len, buffer), m, w)
      else case write_chunk U host dev len buffer m w of
             None \<Rightarrow> None
           | Some (r, m1, w1) \<Rightarrow>
               if r = USBSTORAGE_ETIMEDOUT then Some ((r, len, buffer), m1, w1)
               else if r < 0 then Some ((USBSTORAGE_EDATARESIDUE, len, buffer), m1, w1)
               else if r \<noteq> int (unat (this_len len)) then Some ((USBSTORAGE_EDATARESIDUE, len, buffer), m1, w1)
               else write_data U host dev r (len - this_len len) (buffer + this_len len) m1 w1)"
  by pat_completeness auto
termination by (relation "measure (\<lambda>(U, host, dev, retval, len, buffer, m, w). unat len)") (auto intro: this_len_pos)

declare write_data.simps [simp del]

function read_data ::
  "'w usb_os \<Rightarrow> usbv5_host option \<Rightarrow> usbstorage_handle \<Rightarrow> s32 \<Rightarrow> u32 \<Rightarrow> u32 \<Rightarrow> memory \<Rightarrow> 'w
     \<Rightarrow> (s32 \<times> u32 \<times> u32, 'w) usb_result"
where
  "read_data U host dev retval len buffer m w =
     (if len = 0 then Some ((retval, len, buffer), m, w)
      else case read_chunk U host dev len buffer m w of
             None \<Rightarrow> None
           | Some (r, m1, w1) \<Rightarrow>
               if r = USBSTORAGE_ETIMEDOUT then Some ((r, len, buffer), m1, w1)
               else if r \<noteq> int (unat (this_len len))
               then Some ((r, len - of_int r, buffer + of_int r), m1, w1)
               else read_data U host dev r (len - this_len len) (buffer + this_len len) m1 w1)"
  by pat_completeness auto
termination by (relation "measure (\<lambda>(U, host, dev, retval, len, buffer, m, w). unat len)") (auto intro: this_len_pos)

declare read_data.simps [simp del]

section \<open>One command\<close>

record cycle_state =
  cy_len :: u32
  cy_buffer :: u32
  cy_status :: u8
  cy_residue :: u32
  cy_dev :: usbstorage_handle

text \<open>After an error the device is reset; a reset that times out replaces the error.\<close>

definition fail_reset ::
  "'w usb_os \<Rightarrow> usbv5_host option \<Rightarrow> s32 \<Rightarrow> cycle_state \<Rightarrow> memory \<Rightarrow> 'w \<Rightarrow> (s32 \<times> cycle_state, 'w) usb_result"
where
  "fail_reset U host retval c m w =
     do { (r, m1, w1) \<leftarrow> usbstorage_reset U host (cy_dev c) m w;
          Some ((if r = USBSTORAGE_ETIMEDOUT then USBSTORAGE_ETIMEDOUT else retval, c), m1, w1) }"

definition cycle_once ::
  "'w usb_os \<Rightarrow> usbv5_host option \<Rightarrow> u8 \<Rightarrow> bytes \<Rightarrow> bool \<Rightarrow> cycle_state \<Rightarrow> memory \<Rightarrow> 'w \<Rightarrow> (s32 \<times> cycle_state, 'w) usb_result"
where
  "cycle_once U host lun cb write c m w =
     do { ((r1, dev1), m1, w1) \<leftarrow> send_cbw U host (cy_dev c) lun (cy_len c) (if write then CBW_OUT else CBW_IN) cb m w;
          let c1 = c\<lparr> cy_dev := dev1 \<rparr> in
          if r1 < 0 then fail_reset U host r1 c1 m1 w1
          else do {
            ((r2, len, buffer), m2, w2) \<leftarrow> (if write then write_data else read_data) U host dev1 r1 (cy_len c) (cy_buffer c) m1 w1;
            let c2 = c1\<lparr> cy_len := len, cy_buffer := buffer \<rparr> in
            if r2 < 0 then fail_reset U host r2 c2 m2 w2
            else do {
              ((r3, res, dev3), m3, w3) \<leftarrow> read_csw U host dev1 m2 w2;
              let c3 = (case res of None \<Rightarrow> c2 | Some (s, d) \<Rightarrow> c2\<lparr> cy_status := s, cy_residue := d \<rparr>)\<lparr> cy_dev := dev3 \<rparr> in
              if r3 < 0 then fail_reset U host r3 c3 m3 w3
              else Some ((USBSTORAGE_OK, c3), m3, w3) } } }"

fun cycle_loop ::
  "'w usb_os \<Rightarrow> usbv5_host option \<Rightarrow> u8 \<Rightarrow> bytes \<Rightarrow> bool \<Rightarrow> nat \<Rightarrow> s32 \<Rightarrow> cycle_state \<Rightarrow> memory \<Rightarrow> 'w
     \<Rightarrow> (s32 \<times> cycle_state, 'w) usb_result"
where
  "cycle_loop U host lun cb write 0 retval c m w = Some ((retval, c), m, w)"
| "cycle_loop U host lun cb write (Suc retries) retval c m w =
     (if retval = USBSTORAGE_ETIMEDOUT then Some ((retval, c), m, w)
      else do { ((r, c1), m1, w1) \<leftarrow> cycle_once U host lun cb write c m w;
                if r < 0 \<and> retries > 0 then cycle_loop U host lun cb write retries r c1 m1 w1
                else Some ((r, c1), m1, w1) })"

definition cycle ::
  "'w usb_os \<Rightarrow> usbv5_host option \<Rightarrow> usbstorage_handle \<Rightarrow> u8 \<Rightarrow> u32 \<Rightarrow> u32 \<Rightarrow> bytes \<Rightarrow> bool \<Rightarrow> memory \<Rightarrow> 'w
     \<Rightarrow> (s32 \<times> cycle_state, 'w) usb_result"
where
  "cycle U host dev lun buffer len cb write m w =
     do { ((retval, c), m1, w1) \<leftarrow> cycle_loop U host lun cb write 4 USBSTORAGE_OK
            \<lparr> cy_len = len, cy_buffer = buffer, cy_status = 0, cy_residue = 0, cy_dev = dev \<rparr> m w;
          if retval < 0 \<and> retval \<noteq> USBSTORAGE_ETIMEDOUT then fail_reset U host retval c m1 w1
          else Some ((retval, c), m1, w1) }"

section \<open>Operations\<close>

definition USBStorage_ReadCapacity ::
  "'w usb_os \<Rightarrow> usbv5_host option \<Rightarrow> usbstorage_handle \<Rightarrow> u8 \<Rightarrow> memory \<Rightarrow> 'w
     \<Rightarrow> (s32 \<times> (u32 \<times> u32) option \<times> usbstorage_handle, 'w) usb_result"
where
  "USBStorage_ReadCapacity U host dev lun m w =
     do { ((retval, c), m1, w1) \<leftarrow> cycle U host dev lun (uo_stack U) 8 (0x25 # push_bit 5 lun # replicate 8 0) False m w;
          Some (if retval \<ge> 0 then (USBSTORAGE_OK, Some (load32 m1 (uo_stack U + 4), load32 m1 (uo_stack U)), cy_dev c)
                else (retval, None, cy_dev c), m1, w1) }"

definition usbstorage_clearerrors ::
  "'w usb_os \<Rightarrow> usbv5_host option \<Rightarrow> usbstorage_handle \<Rightarrow> u8 \<Rightarrow> memory \<Rightarrow> 'w \<Rightarrow> (s32 \<times> usbstorage_handle, 'w) usb_result"
where
  "usbstorage_clearerrors U host dev lun m w =
     do { ((retval, c), m1, w1) \<leftarrow> cycle U host dev lun 0 0 [0] False m w;
          if retval < 0 then Some ((retval, cy_dev c), m1, w1)
          else if cy_status c = 0 then Some ((retval, cy_dev c), m1, w1)
          else do {
            ((r, c2), m2, w2) \<leftarrow> cycle U host (cy_dev c) lun (uo_stack U) 18 [0x03, push_bit 5 lun, 0, 0, 18, 0] False
                (memset m1 (uo_stack U) 0 SCSI_SENSE_REPLY_SIZE) w1;
            let key = m2 (uo_stack U + 2) AND 0xF in
            Some ((if r \<ge> 0 then if key = 2 then USBSTORAGE_EINIT else if key = 3 \<or> key = 4 then USBSTORAGE_ESENSE else r
                   else r, cy_dev c2), m2, w2) } }"

definition USBStorage_Reset where
  "USBStorage_Reset U host dev = usbstorage_reset U host dev"

definition USBStorage_GetMaxLUN :: "usbstorage_handle \<Rightarrow> s32" where
  "USBStorage_GetMaxLUN dev = int (unat (us_max_lun dev))"

definition USBStorage_MountLUN ::
  "'w usb_os \<Rightarrow> usbv5_host option \<Rightarrow> usbstorage_handle \<Rightarrow> u8 \<Rightarrow> memory \<Rightarrow> 'w \<Rightarrow> (s32 \<times> usbstorage_handle, 'w) usb_result"
where
  "USBStorage_MountLUN U host dev lun m w =
     (if lun \<ge> us_max_lun dev then Some ((IPC_EINVAL, dev), m, w)
      else do { ((r, dev1), m1, w1) \<leftarrow> usbstorage_clearerrors U host dev lun m w;
                if r < 0 then Some ((r, dev1), m1, w1)
                else do { ((r2, cap, dev2), m2, w2) \<leftarrow> USBStorage_ReadCapacity U host dev1 lun m1 w1;
                          dev3 \<leftarrow> (case cap of
                             None \<Rightarrow> Some dev2
                           | Some (ss, n) \<Rightarrow>
                               do { (p, arr) \<leftarrow> us_sector_size dev2;
                                    if unat lun < length arr then Some (dev2\<lparr> us_sector_size := Some (p, arr[unat lun := ss]) \<rparr>) else None });
                          Some ((r2, dev3), m2, w2) } })"

definition rw_cmd :: "u8 \<Rightarrow> u8 \<Rightarrow> u32 \<Rightarrow> u16 \<Rightarrow> bytes" where
  "rw_cmd code lun sector n_sectors =
     [code, push_bit 5 lun, ucast (drop_bit 24 sector), ucast (drop_bit 16 sector), ucast (drop_bit 8 sector), ucast sector,
      0, ucast (drop_bit 8 n_sectors), ucast n_sectors, 0]"

definition rw_sectors ::
  "bool \<Rightarrow> 'w usb_os \<Rightarrow> usbv5_host option \<Rightarrow> usbstorage_handle \<Rightarrow> u8 \<Rightarrow> u32 \<Rightarrow> u16 \<Rightarrow> u32 \<Rightarrow> memory \<Rightarrow> 'w
     \<Rightarrow> (s32 \<times> usbstorage_handle, 'w) usb_result"
where
  "rw_sectors write U host dev lun sector n_sectors buffer m w =
     (if lun \<ge> us_max_lun dev then Some ((IPC_EINVAL, dev), m, w)
      else do { (p, arr) \<leftarrow> us_sector_size dev;
                ss \<leftarrow> rd arr (unat lun);
                if ss = 0 then Some ((IPC_EINVAL, dev), m, w)
                else do { ((retval, c), m1, w1) \<leftarrow> cycle U host dev lun buffer (ucast n_sectors * ss)
                            (rw_cmd (if write then 0x2A else 0x28) lun sector n_sectors) write m w;
                          Some ((if retval > 0 \<and> cy_status c \<noteq> 0 then USBSTORAGE_ESTATUS else retval, cy_dev c), m1, w1) } })"

definition USBStorage_Read where "USBStorage_Read U = rw_sectors False U"
definition USBStorage_Write where "USBStorage_Write U = rw_sectors True U"

definition USBStorage_Suspend ::
  "'w usb_os \<Rightarrow> usbv5_host option \<Rightarrow> usbstorage_handle \<Rightarrow> 'w \<Rightarrow> (s32 \<times> usbstorage_handle \<times> 'w) option"
where
  "USBStorage_Suspend U host dev w =
     (if us_suspended dev = 1 then Some (USBSTORAGE_OK, dev, w)
      else do { (r, w1) \<leftarrow> USB_SuspendResume U host (us_fd dev) 0 w; Some (USBSTORAGE_OK, dev\<lparr> us_suspended := 1 \<rparr>, w1) })"

section \<open>Opening a device\<close>

definition USBStorage_Close ::
  "'w usb_os \<Rightarrow> usbv5_host option \<Rightarrow> usbstorage_handle \<Rightarrow> 'w \<Rightarrow> (s32 \<times> usbstorage_handle \<times> usbv5_host option \<times> 'w) option"
where
  "USBStorage_Close U host dev w =
     do { (host1, w1) \<leftarrow> (if us_fd dev \<noteq> -1
            then do { (r, fd, h, w') \<leftarrow> USB_CloseDevice U host (us_fd dev) w; Some (h, w') } else Some (host, w));
          let w2 = uo_free U (case us_sector_size dev of None \<Rightarrow> 0 | Some (p, a) \<Rightarrow> p) w1;
              w3 = (if us_buffer dev \<noteq> 0 then uo_free U (us_buffer dev) w2 else w2)
          in Some (0, handle_zero\<lparr> us_fd := -1 \<rparr>, host1, w3) }"

text \<open>The endpoints of an interface: the last bulk endpoint of each direction.\<close>

fun bulk_endpoints :: "usb_endpointdesc list \<Rightarrow> u8 \<times> u8 \<Rightarrow> u8 \<times> u8" where
  "bulk_endpoints [] io = io"
| "bulk_endpoints (e # es) (i, o') =
     bulk_endpoints es (if ed_bmAttributes e \<noteq> 2 then (i, o')
       else if ed_bEndpointAddress e AND 0x80 \<noteq> 0 then (ed_bEndpointAddress e, o') else (i, ed_bEndpointAddress e))"

definition is_mass_storage :: "usb_interfacedesc \<Rightarrow> bool" where
  "is_mass_storage i \<longleftrightarrow> id_bInterfaceClass i = 0x08 \<and> id_bInterfaceSubClass i = 0x06 \<and> id_bInterfaceProtocol i = 0x50"

text \<open>The search: whether an interface was found, and the handle, whose endpoints every candidate sets.\<close>

fun find_interface :: "u8 \<Rightarrow> nat \<Rightarrow> usb_interfacedesc list \<Rightarrow> usbstorage_handle \<Rightarrow> (bool \<times> usbstorage_handle) option" where
  "find_interface conf 0 is dev = Some (False, dev)"
| "find_interface conf (Suc n) [] dev = None"
| "find_interface conf (Suc n) (i # is) dev =
     (if is_mass_storage i \<and> id_bNumEndpoints i \<ge> 2 then
        do { (p, es) \<leftarrow> id_endpoints i;
             if length es < unat (id_bNumEndpoints i) then None
             else let (ei, eo) = bulk_endpoints es (0, 0); dev1 = dev\<lparr> us_ep_in := ei, us_ep_out := eo \<rparr>
                  in if ei \<noteq> 0 \<and> eo \<noteq> 0
                     then Some (True, dev1\<lparr> us_configuration := conf, us_interface := ucast (id_bInterfaceNumber i),
                                            us_altInterface := ucast (id_bAlternateSetting i) \<rparr>)
                     else find_interface conf n is dev1 }
      else find_interface conf n is dev)"

fun find_config :: "nat \<Rightarrow> usb_configurationdesc list \<Rightarrow> usbstorage_handle \<Rightarrow> (bool \<times> usbstorage_handle) option" where
  "find_config 0 cs dev = Some (False, dev)"
| "find_config (Suc n) [] dev = None"
| "find_config (Suc n) (c # cs) dev =
     do { (found, dev1) \<leftarrow>
            (if cd_bNumInterfaces c = 0 then Some (False, dev)
             else do { (p, is) \<leftarrow> cd_interfaces c; find_interface (cd_bConfigurationValue c) (unat (cd_bNumInterfaces c)) is dev });
          if found then Some (True, dev1) else find_config n cs dev1 }"

text \<open>The set-up of the interface that was found, up to the allocation of the arrays. A configuration that could
  not be read counts as a different one, and the new array of sector sizes as zero.\<close>

definition open_found ::
  "'w usb_os \<Rightarrow> usbv5_host option \<Rightarrow> u32 \<Rightarrow> usbstorage_handle \<Rightarrow> memory \<Rightarrow> 'w \<Rightarrow> (s32 \<times> usbstorage_handle, 'w) usb_result"
where
  "open_found U host max_lun dev m w =
     do { ((_, conf), m1, w1) \<leftarrow> USB_GetConfiguration U host (us_fd dev) m w;
          (r2, m2, w2) \<leftarrow>
            (if conf \<noteq> Some (us_configuration dev)
             then USB_SetConfiguration U host (us_fd dev) (us_configuration dev) m1 w1 else Some (USBSTORAGE_EINIT, m1, w1));
          if conf \<noteq> Some (us_configuration dev) \<and> r2 < 0 then Some ((r2, dev), m2, w2)
          else do {
            (r3, m3, w3) \<leftarrow>
              (if us_altInterface dev \<noteq> 0
               then USB_SetAlternativeInterface U host (us_fd dev) (ucast (us_interface dev)) (ucast (us_altInterface dev)) m2 w2
               else Some (0, m2, w2));
            if r3 < 0 then Some ((r2, dev), m3, w3)
            else do {
              let dev4 = dev\<lparr> us_suspended := 0 \<rparr>;
              (r5, m5, w5) \<leftarrow> USBStorage_Reset U host dev4 m3 w3;
              if r5 < 0 then Some ((r5, dev4), m5, w5)
              else do {
                (r6, m6, w6) \<leftarrow> USB_CtrlMsgTimeout U host dev4 0xA1 0xFE 0 (ucast (us_interface dev4)) 1 max_lun m5 w5;
                let dev6 = dev4\<lparr> us_max_lun := if r6 < 0 then 1 else m6 max_lun + 1 \<rparr>;
                if r6 = USBSTORAGE_ETIMEDOUT then Some ((r6, dev6), m6, w6)
                else let (sp, w7) = uo_alloc U (unat (us_max_lun dev6) * 4) w6 in
                  if sp = 0 then Some ((IPC_ENOMEM, dev6), m6, w7)
                  else let (bp, w8) = uo_alloc U 4096 w7;
                           dev8 = dev6\<lparr> us_sector_size := Some (sp, replicate (unat (us_max_lun dev6)) 0), us_buffer := bp \<rparr>
                       in Some ((if bp = 0 then IPC_ENOMEM else USBSTORAGE_OK, dev8), m6, w8) } } } }"

definition USBStorage_Open ::
  "'w usb_os \<Rightarrow> usbv5_host option \<Rightarrow> usbstorage_handle \<Rightarrow> s32 \<Rightarrow> memory \<Rightarrow> 'w
     \<Rightarrow> (s32 \<times> usbstorage_handle \<times> usbv5_host option, 'w) usb_result"
where
  "USBStorage_Open U host dev device_id m w =
     (let (max_lun, w0) = uo_alloc U 1 w in
      if max_lun = 0 then Some ((IPC_ENOMEM, dev, host), m, w0)
      else do {
        let dev0 = handle_zero\<lparr> us_fd := -1, us_tag := TAG_START \<rparr>;
        (r1, w1) \<leftarrow> USB_OpenDevice U host device_id w0;
        ((retval, dev5), m5, w5) \<leftarrow>
          (if r1 < 0 then Some ((r1, dev0), m, w1)
           else do {
             let dev1 = dev0\<lparr> us_fd := device_id \<rparr>;
             ((r2, udd), w2) \<leftarrow> USB_GetDescriptors U host device_id w1;
             if r2 < 0 then Some ((r2, dev1), m, w2)
             else do {
               d \<leftarrow> udd;
               (found, dev2) \<leftarrow>
                 (if dd_bNumConfigurations d = 0 then Some (False, dev1)
                  else do { (p, cs) \<leftarrow> dd_configurations d; find_config (unat (dd_bNumConfigurations d)) cs dev1 });
               let w3 = USB_FreeDescriptors U d w2;
               if found then open_found U host max_lun dev2 m w3 else Some ((USBSTORAGE_ENOINTERFACE, dev2), m, w3) } });
        let w6 = uo_free U max_lun w5;
        if retval < 0
        then do { (_, dev7, host7, w7) \<leftarrow> USBStorage_Close U host dev5 w6; Some ((retval, dev7, host7), m5, w7) }
        else Some ((0, dev5, host), m5, w6) })"

end
