(* ===== verification/Wbfs_Front.thy ===== *)
theory Wbfs_Front
  imports Wbfs Libc
begin

text \<open>
  The WBFS front end that the USB modules and the SD card server each have a copy of
  (\<open>usb-module/wbfs.c\<close>, \<open>ehci-module/wbfs.c\<close>, \<open>cios-lib/sdhc_server.c\<close>): a partition and a disc that stay open
  between requests, in two static pointers. \<open>Dangling\<close> is a pointer to memory that was released; using one is
  \<open>None\<close>. The library keeps its buffers as bytes (\<open>Wbfs\<close>); sectors arrive in memory at \<open>wh_buf\<close>, where the buffers of
  the library lie, and bytes of a read are stored when it succeeds.
\<close>

datatype 'a ptr = Null | Live 'a | Dangling

record wbfs_front =
  wf_hdd :: "wbfs_t ptr"
  wf_disc :: "wbfs_disc_t ptr"

definition front_zero :: wbfs_front where
  "front_zero = \<lparr> wf_hdd = Null, wf_disc = Null \<rparr>"

text \<open>The heap below the library: fresh memory, whether the allocations of a disc succeed, and the place of its buffers.\<close>

record wbfs_heap =
  wh_junk :: "nat \<Rightarrow> bytes"
  wh_disc_ok :: bool
  wh_header_ok :: bool
  wh_buf :: u32

text \<open>Closing a disc releases it and counts down in its partition, which must still be there.\<close>

definition front_close_disc :: "wbfs_front \<Rightarrow> wbfs_front option" where
  "front_close_disc f =
     (case wf_disc f of
        Null \<Rightarrow> Some f
      | Dangling \<Rightarrow> None
      | Live disc \<Rightarrow>
          (case wf_hdd f of
             Live p \<Rightarrow> Some (f\<lparr> wf_hdd := Live (wbfs_close_disc p), wf_disc := Dangling \<rparr>)
           | _ \<Rightarrow> None))"

text \<open>Closing a partition releases it unless a disc is open.\<close>

definition front_close_hd :: "'d wbfs_dev \<Rightarrow> wbfs_front \<times> 'd \<Rightarrow> (wbfs_front \<times> 'd) option" where
  "front_close_hd dev x =
     (case x of (f, d) \<Rightarrow>
        case wf_hdd f of
          Null \<Rightarrow> Some (f, d)
        | Dangling \<Rightarrow> None
        | Live p \<Rightarrow> (case wbfs_close dev p d of (freed, d1) \<Rightarrow> Some (if freed then f\<lparr> wf_hdd := Dangling \<rparr> else f, d1)))"

text \<open>\<open>base\<close> is the code of a partition that does not open; a disc that is not found has the next one.\<close>

definition front_open :: "'d wbfs_dev \<Rightarrow> wbfs_heap \<Rightarrow> s32 \<Rightarrow> u32 \<Rightarrow> bytes \<Rightarrow> wbfs_front \<times> 'd \<Rightarrow> (s32 \<times> wbfs_front \<times> 'd) option" where
  "front_open dev H base sector_size discid x =
     (case x of (f, d) \<Rightarrow>
        do { f1 \<leftarrow> front_close_disc f;
             (f2, d2) \<leftarrow> front_close_hd dev (f1, d);
             (hdd, d3) \<leftarrow> wbfs_open_hd dev (wh_junk H) False sector_size False d2;
             case hdd of
               None \<Rightarrow> Some (base, f2\<lparr> wf_hdd := Null \<rparr>, d3)
             | Some p \<Rightarrow>
                 do { (disc, p1, d4) \<leftarrow> wbfs_open_disc dev (wh_disc_ok H) (wh_header_ok H) p discid d3;
                      Some (if disc = None then base + 1 else 0,
                            f2\<lparr> wf_hdd := Live p1, wf_disc := (case disc of None \<Rightarrow> Null | Some i \<Rightarrow> Live i) \<rparr>, d4) } })"

text \<open>A read of the open disc: the code of the library, or the bytes. Without a disc the code is 1.\<close>

definition front_read :: "'d wbfs_dev \<Rightarrow> u32 \<Rightarrow> u32 \<Rightarrow> wbfs_front \<times> 'd \<Rightarrow> ((s32 + bytes) \<times> 'd) option" where
  "front_read dev len offset x =
     (case x of (f, d) \<Rightarrow>
        case wf_disc f of
          Null \<Rightarrow> Some (Inl 1, d)
        | Dangling \<Rightarrow> None
        | Live disc \<Rightarrow> (case wf_hdd f of Live p \<Rightarrow> wbfs_disc_read dev p (disc_header disc) offset len d | _ \<Rightarrow> None))"

section \<open>What reading keeps\<close>

text \<open>
  The front ends give the library no way to write. Then what every sector read keeps of the device, every operation
  of the front end keeps.
\<close>

locale kept_by_reads =
  fixes dev :: "'d wbfs_dev" and P :: "'d \<Rightarrow> bool"
  assumes read_keeps: "P d \<Longrightarrow> P (snd (read_hdsector dev lba n d))"
    and no_writes: "write_hdsector dev = None"
begin

lemma read_kept: "P d \<Longrightarrow> read_hdsector dev lba n d = (r, d') \<Longrightarrow> P d'"
  using read_keeps [of d lba n] by simp

lemma close_kept: "P d \<Longrightarrow> wbfs_close dev p d = (b, d') \<Longrightarrow> P d'"
  by (simp add: wbfs_close_def wbfs_sync_def no_writes)

lemma head_kept: "P d \<Longrightarrow> load_head dev reset fresh lba n d = (bs, d') \<Longrightarrow> P d'"
  by (auto simp: load_head_def split: if_splits prod.splits intro: read_kept)

lemma partition_kept:
  assumes "P d" and "wbfs_open_partition dev junk force sz n lba reset d = Some (r, d')"
  shows "P d'"
proof -
  obtain h1 d1 where 1: "load_head dev reset (format_head sz n) lba 1 d = (h1, d1)" by fastforce
  have P1: "P d1" using assms(1) 1 by (rule head_kept)
  show ?thesis
  proof (cases "head_magic h1 = WBFS_MAGIC")
    case False
    then show ?thesis using assms(2) P1 1 by (simp add: wbfs_open_partition_def)
  next
    case True
    obtain y where y: "shl1 (unat (head_hd_sec_sz_s h1)) = Some y"
      using assms(2) 1 True by (cases "shl1 (unat (head_hd_sec_sz_s h1))") (simp_all add: wbfs_open_partition_def)
    define ratio where "ratio = y div (if sz \<noteq> 0 then sz else 512)"
    obtain h2 d2 where 2: "load_head dev reset h1 lba ratio d1 = (h2, d2)" by fastforce
    have "d' = d2"
      using assms(2) unfolding wbfs_open_partition_def 1 prod.case Let_def
      by (simp only: y bind.bind_lunit 2 prod.case True flip: ratio_def)
        (auto simp only: bind_eq_Some_conv option.inject prod.inject split: if_splits)
    then show ?thesis using head_kept [OF P1 2] by simp
  qed
qed

lemma hd_loop_kept: "P d \<Longrightarrow> open_hd_loop dev junk force sz reset tab i left d = Some (r, d') \<Longrightarrow> P d'"
proof (induction left arbitrary: i d)
  case (Suc left)
  then show ?case
    by (auto simp: Let_def bind_eq_Some_conv split: if_splits prod.splits dest: read_kept partition_kept)
qed simp

lemma open_hd_kept: "P d \<Longrightarrow> wbfs_open_hd dev junk force sz reset d = Some (r, d') \<Longrightarrow> P d'"
  by (auto simp: wbfs_open_hd_def bind_eq_Some_conv split: if_splits prod.splits dest: read_kept hd_loop_kept)

lemma disc_loop_kept: "P d \<Longrightarrow> open_disc_loop dev d_ok h_ok discid p i left d = Some (r, p', d') \<Longrightarrow> P d'"
proof (induction left arbitrary: i d)
  case (Suc left)
  then show ?case
    by (auto simp: bind_eq_Some_conv split: if_splits prod.splits dest: read_kept)
qed simp

lemma open_disc_kept: "P d \<Longrightarrow> wbfs_open_disc dev d_ok h_ok p discid d = Some (r, p', d') \<Longrightarrow> P d'"
  unfolding wbfs_open_disc_def by (rule disc_loop_kept)

lemma block_kept: "P d \<Longrightarrow> block_read dev p b lba n d = (r, d') \<Longrightarrow> P d'"
  unfolding block_read_def by (rule read_kept)

lemma read_head_kept: "P d \<Longrightarrow> read_head dev p hdr pos off len d = Some (r, d') \<Longrightarrow> P d'"
  by (auto simp: read_head_def Let_def bind_eq_Some_conv split: if_splits prod.splits dest: block_kept)

lemma read_sectors_kept:
  assumes "read_sectors dev p hdr pos len acc d = Some r" and "P d"
  shows "P (snd r)"
proof -
  have "dev = dev \<longrightarrow> P d \<longrightarrow> P (snd r)"
  proof (rule read_sectors.raw_induct [where P = "\<lambda>dv p hdr pos len acc d r. dv = dev \<longrightarrow> P d \<longrightarrow> P (snd r)", OF _ assms(1)])
    fix rs dv p hdr pos len acc d r
    assume IH: "\<And>dv p hdr pos len acc d r. rs dv p hdr pos len acc d = Some r \<Longrightarrow> dv = dev \<longrightarrow> P d \<longrightarrow> P (snd r)"
      and s: "(if len \<ge> hd_sec_sz p then
        (case pos of (wlba, iwlba, lba) \<Rightarrow>
           let nlb0 = drop_bit (unat (hd_sec_sz_s p)) len;
               nlb = (if lba + nlb0 > wbfs_sec_sz p then wbfs_sec_sz p - lba else nlb0)
           in case block_read dv p iwlba lba nlb d of ((err, bs), d1) \<Rightarrow>
                if err \<noteq> 0 then Some (Inl err, d1)
                else let len' = len - push_bit (unat (hd_sec_sz_s p)) nlb
                     in do { nxt \<leftarrow> next_block p hdr (wlba, iwlba, lba + nlb) len';
                             case nxt of None \<Rightarrow> Some (Inl 1, d1)
                             | Some pos' \<Rightarrow> rs dv p hdr pos' len' (acc @ bs) d1 })
      else Some (Inr (pos, len, acc), d)) = Some r"
    have IH': "P (snd r)" if "rs dev p hdr pos len acc d = Some r" "P d" for p hdr pos len acc d r using IH [OF that(1)] that(2) by simp
    show "dv = dev \<longrightarrow> P d \<longrightarrow> P (snd r)"
      using s by (auto simp: Let_def bind_eq_Some_conv split: if_splits prod.splits option.splits dest!: block_kept [rotated] elim: IH')
  qed
  then show ?thesis using assms(2) by simp
qed

lemma read_tail_kept: "P d \<Longrightarrow> read_tail dev p pos len acc d = (r, d') \<Longrightarrow> P d'"
  by (auto simp: read_tail_def split: if_splits prod.splits dest: block_kept)

lemma disc_read_kept:
  assumes "P d" and "wbfs_disc_read dev p hdr offset len d = Some (r, d')"
  shows "P d'"
proof -
  let ?w = "(ucast (drop_bit (unat (wbfs_sec_sz_s p - 2)) offset) :: u16)"
  obtain b where b: "wlba_table hdr ?w = Some b"
    using assms(2) by (cases "wlba_table hdr ?w") (simp_all add: wbfs_disc_read_def Let_def)
  show ?thesis
  proof (cases "b = 0")
    case True
    then show ?thesis using assms b by (simp add: wbfs_disc_read_def Let_def)
  next
    case False
    then obtain r1 d1 where 1: "P d1" and r1: "(case r1 of Inl e \<Rightarrow> Some (Inl e, d1)
        | Inr (pos, len1, part) \<Rightarrow>
            do { (r2, d2) \<leftarrow> read_sectors dev p hdr pos len1 part d1;
                 case r2 of Inl e \<Rightarrow> Some (Inl e, d2)
                 | Inr (pos2, len2, acc) \<Rightarrow> Some (read_tail dev p pos2 len2 acc d2) }) = Some (r, d')"
      using assms(2) b by (auto simp: wbfs_disc_read_def Let_def bind_eq_Some_conv dest: read_head_kept [OF assms(1)])
    show ?thesis
    proof (cases r1)
      case (Inl e)
      then show ?thesis using r1 1 by simp
    next
      case (Inr x)
      then obtain r2 d2 where 2: "P d2" and r2: "(case r2 of Inl e \<Rightarrow> Some (Inl e, d2)
          | Inr (pos2, len2, acc) \<Rightarrow> Some (read_tail dev p pos2 len2 acc d2)) = Some (r, d')"
        using r1 by (cases x) (auto simp: bind_eq_Some_conv dest: read_sectors_kept [OF _ 1])
      then show ?thesis by (cases r2) (auto dest: read_tail_kept [OF 2])
    qed
  qed
qed

lemma front_open_kept:
  assumes "P d" and "front_open dev H base ss discid (f, d) = Some (r, f', d')"
  shows "P d'"
proof -
  have hd: "P d2" if "front_close_hd dev (f1, d) = Some (f2, d2)" for f1 f2 d2
    using that assms(1) by (auto simp: front_close_hd_def split: ptr.splits prod.splits if_splits dest: close_kept)
  obtain f1 f2 d2 h d3 where "front_close_hd dev (f1, d) = Some (f2, d2)" and 3: "wbfs_open_hd dev (wh_junk H) False ss False d2 = Some (h, d3)"
    and r: "(case h of None \<Rightarrow> Some (base, f2\<lparr> wf_hdd := Null \<rparr>, d3)
             | Some p \<Rightarrow>
                 do { (disc, p1, d4) \<leftarrow> wbfs_open_disc dev (wh_disc_ok H) (wh_header_ok H) p discid d3;
                      Some (if disc = None then base + 1 else 0,
                            f2\<lparr> wf_hdd := Live p1, wf_disc := (case disc of None \<Rightarrow> Null | Some i \<Rightarrow> Live i) \<rparr>, d4) }) = Some (r, f', d')"
    using assms(2) by (auto simp: front_open_def bind_eq_Some_conv)
  then have 3: "P d3" using open_hd_kept [OF hd 3] by simp
  show ?thesis
  proof (cases h)
    case None
    then show ?thesis using r 3 by simp
  next
    case (Some p)
    then show ?thesis using r by (auto simp: bind_eq_Some_conv dest: open_disc_kept [OF 3])
  qed
qed

lemma front_read_kept: "P d \<Longrightarrow> front_read dev len offset (f, d) = Some (r, d') \<Longrightarrow> P d'"
  by (auto simp: front_read_def split: ptr.splits dest: disc_read_kept)

end

section \<open>States of the pointers\<close>

text \<open>No pointer is used after its memory was released, and an open disc has its partition.\<close>

definition front_ok :: "wbfs_front \<Rightarrow> bool" where
  "front_ok f \<longleftrightarrow> wf_hdd f \<noteq> Dangling \<and> wf_disc f \<noteq> Dangling \<and> (wf_disc f \<noteq> Null \<longrightarrow> wf_hdd f \<noteq> Null)"

lemma front_zero_ok: "front_ok front_zero"
  by (simp add: front_ok_def front_zero_def)

lemma front_ok_cases:
  assumes "front_ok f"
  obtains "wf_disc f = Null" "wf_hdd f = Null" | p where "wf_disc f = Null" "wf_hdd f = Live p"
    | i p where "wf_disc f = Live i" "wf_hdd f = Live p"
  using assms unfolding front_ok_def by (cases "wf_hdd f"; cases "wf_disc f") auto

text \<open>An open that reaches the partition leaves the pointers in order, whether it finds the disc or not.\<close>

lemma front_open_ok:
  assumes "front_open dev H base ss discid (f, d) = Some (r, f', d')" and "r \<noteq> base"
  shows "front_ok f'"
  using assms
  by (auto simp: front_open_def front_ok_def bind_eq_Some_conv split: option.splits)

text \<open>
  An open that fails at the partition, after a disc was open, leaves the pointer to the disc that was released.
\<close>

lemma front_open_dangles:
  assumes "wf_disc f = Live i" and "wf_hdd f = Live p" and "read_hdsector dev 0 1 (wbfs_sync dev (wbfs_close_disc p) d) = ((e, bs), d1)" and "e \<noteq> 0"
  shows "\<exists>f'. front_open dev H base ss discid (f, d) = Some (base, f', d1) \<and> wf_disc f' = Dangling \<and> wf_hdd f' = Null"
  using assms
  by (simp add: front_open_def front_close_disc_def front_close_hd_def wbfs_close_def wbfs_open_hd_def)

end
