(* ===== verification/Sdhc_Server.thy ===== *)
theory Sdhc_Server
  imports Sdio Wbfs_Front
begin

text \<open>
  The SD card server that both USB modules carry (\<open>cios-lib/sdhc_server.c\<close>): the requests on \<open>/dev/sdio/sdhc\<close>. The
  arguments of a request are vectors of addresses and lengths in memory; the device of the slot works on the
  memory and the rest of the world, \<open>memory \<times> 'w\<close>.
\<close>

type_synonym ioctl_vector = "(u32 \<times> u32) list"

abbreviation (input) SDHC_IOCTL_WBFS_OPEN_DISC :: u32 where "SDHC_IOCTL_WBFS_OPEN_DISC \<equiv> 0x57465301"
abbreviation (input) SDHC_IOCTL_WBFS_READ_DISC :: u32 where "SDHC_IOCTL_WBFS_READ_DISC \<equiv> 0x57465302"

definition vec_addr :: "ioctl_vector \<Rightarrow> nat \<Rightarrow> u32 option" where
  "vec_addr vec i = map_option fst (rd vec i)"

definition vec_word :: "ioctl_vector \<Rightarrow> nat \<Rightarrow> memory \<Rightarrow> u32 option" where
  "vec_word vec i m = map_option (load32 m) (vec_addr vec i)"

definition not_ok :: "bool \<Rightarrow> s32" where
  "not_ok b = (if b then 0 else 1)"

record sdhc_state =
  ss_card :: sd_state
  ss_front :: wbfs_front

definition sdhc_zero :: sdhc_state where
  "sdhc_zero = \<lparr> ss_card = sd_zero, ss_front = front_zero \<rparr>"

text \<open>The sector callback of the library.\<close>

definition sdhc_sectors :: "(memory \<times> 'w) sd_os \<Rightarrow> wbfs_heap \<Rightarrow> (sd_state \<times> memory \<times> 'w) wbfs_dev" where
  "sdhc_sectors K H =
     \<lparr> read_hdsector = (\<lambda>lba count d. case sdio_ReadSectors K lba count (wh_buf H) d of
         (ok, s, m, w) \<Rightarrow> ((not_ok ok, rdm m (wh_buf H) (unat (512 * count))), s, m, w)),
       write_hdsector = None \<rparr>"

definition SDHC_WBFS_OpenDisc ::
  "(memory \<times> 'w) sd_os \<Rightarrow> wbfs_heap \<Rightarrow> u32 \<Rightarrow> sdhc_state \<times> memory \<times> 'w \<Rightarrow> (s32 \<times> sdhc_state \<times> memory \<times> 'w) option"
where
  "SDHC_WBFS_OpenDisc K H discid x =
     (case x of (st, m, w) \<Rightarrow>
        case sdio_Startup K (ss_card st, m, w) of (ok, s1, m1, w1) \<Rightarrow>
          if \<not> ok then Some (1, st\<lparr> ss_card := s1 \<rparr>, m1, w1)
          else do { (r, f, s2, m2, w2) \<leftarrow> front_open (sdhc_sectors K H) H 2 512 (rdm m1 discid 6) (ss_front st, s1, m1, w1);
                    Some (r, st\<lparr> ss_card := s2, ss_front := f \<rparr>, m2, w2) })"

definition SDHC_WBFS_Read ::
  "(memory \<times> 'w) sd_os \<Rightarrow> wbfs_heap \<Rightarrow> u32 \<Rightarrow> u32 \<Rightarrow> u32 \<Rightarrow> sdhc_state \<times> memory \<times> 'w
     \<Rightarrow> (s32 \<times> sdhc_state \<times> memory \<times> 'w) option"
where
  "SDHC_WBFS_Read K H buffer len offset x =
     (case x of (st, m, w) \<Rightarrow>
        do { (r, s1, m1, w1) \<leftarrow> front_read (sdhc_sectors K H) len offset (ss_front st, ss_card st, m, w);
             Some (case r of Inl e \<Rightarrow> (e, st\<lparr> ss_card := s1 \<rparr>, m1, w1)
                   | Inr bs \<Rightarrow> (0, st\<lparr> ss_card := s1 \<rparr>, wr m1 buffer bs, w1)) })"

definition SDHC_CheckDevicePath :: "string \<Rightarrow> bool" where
  "SDHC_CheckDevicePath devpath \<longleftrightarrow> devpath = ''/dev/sdio/sdhc''"

definition SDHC_Close :: "(memory \<times> 'w) sd_os \<Rightarrow> sdhc_state \<times> memory \<times> 'w \<Rightarrow> s32 \<times> sdhc_state \<times> memory \<times> 'w" where
  "SDHC_Close K x =
     (case x of (st, m, w) \<Rightarrow> case sdio_Shutdown K (ss_card st, m, w) of (ok, s1, m1, w1) \<Rightarrow> (not_ok ok, st\<lparr> ss_card := s1 \<rparr>, m1, w1))"

text \<open>A request of the card driver, with its result as a code.\<close>

definition card_request ::
  "(sd_state \<times> memory \<times> 'w \<Rightarrow> bool \<times> sd_state \<times> memory \<times> 'w) \<Rightarrow> sdhc_state \<times> memory \<times> 'w \<Rightarrow> s32 \<times> sdhc_state \<times> memory \<times> 'w"
where
  "card_request f x =
     (case x of (st, m, w) \<Rightarrow> case f (ss_card st, m, w) of (ok, s1, m1, w1) \<Rightarrow> (not_ok ok, st\<lparr> ss_card := s1 \<rparr>, m1, w1))"

definition SDHC_Ioctlv ::
  "(memory \<times> 'w) sd_os \<Rightarrow> wbfs_heap \<Rightarrow> u32 \<Rightarrow> ioctl_vector \<Rightarrow> sdhc_state \<times> memory \<times> 'w
     \<Rightarrow> (s32 \<times> sdhc_state \<times> memory \<times> 'w) option"
where
  "SDHC_Ioctlv K H cmd vec x =
     (case x of (st, m, w) \<Rightarrow>
        if cmd = 0x01 then Some (card_request (sdio_Startup K) x)
        else if cmd = 0x02 then
          do { sector \<leftarrow> vec_word vec 0 m; numSectors \<leftarrow> vec_word vec 1 m; buffer \<leftarrow> vec_addr vec 2;
               Some (card_request (sdio_ReadSectors K sector numSectors buffer) x) }
        else if cmd = 0x03 then
          do { sector \<leftarrow> vec_word vec 0 m; numSectors \<leftarrow> vec_word vec 1 m; buffer \<leftarrow> vec_addr vec 2;
               Some (card_request (sdio_WriteSectors K sector numSectors buffer) x) }
        else if cmd = 0x04 then Some (card_request (sdio_IsInserted K) x)
        else if cmd = SDHC_IOCTL_WBFS_OPEN_DISC then do { discid \<leftarrow> vec_addr vec 0; SDHC_WBFS_OpenDisc K H discid x }
        else if cmd = SDHC_IOCTL_WBFS_READ_DISC then
          do { offset \<leftarrow> vec_word vec 0 m; len \<leftarrow> vec_word vec 1 m; buffer \<leftarrow> vec_addr vec 2;
               (ret, y) \<leftarrow> SDHC_WBFS_Read K H buffer len offset x;
               Some (if ret \<noteq> 0 then 0x8000 else 0, y) }
        else Some (IPC_EINVAL, x))"

text \<open>
  When a disc was open and the card no longer answers while another is opened, the pointer to the first disc is
  left to memory that was released, and the next read goes through it.
\<close>

lemma failed_open_then_read:
  assumes "wf_disc (ss_front st) = Live i" and "wf_hdd (ss_front st) = Live p" and "sdio_initialized (ss_card st)"
    and "read_hdsector (sdhc_sectors K H) 0 1 (ss_card st, m, w) = ((e, bs), s1, m1, w1)" and "e \<noteq> 0"
  shows "\<exists>st'. SDHC_WBFS_OpenDisc K H discid (st, m, w) = Some (2, st', m1, w1) \<and> SDHC_WBFS_Read K H buffer len offset (st', m1, w1) = None"
proof -
  have "wbfs_sync (sdhc_sectors K H) q d = d" for q d by (simp add: wbfs_sync_def sdhc_sectors_def)
  then have "read_hdsector (sdhc_sectors K H) 0 1 (wbfs_sync (sdhc_sectors K H) (wbfs_close_disc p) (ss_card st, m, w)) = ((e, bs), s1, m1, w1)"
    using assms(4) by simp
  from front_open_dangles [OF assms(1,2) this assms(5), of H 2 512 "rdm m discid 6"]
  obtain f' where f: "front_open (sdhc_sectors K H) H 2 512 (rdm m discid 6) (ss_front st, ss_card st, m, w) = Some (2, f', s1, m1, w1)"
    "wf_disc f' = Dangling" by blast
  have "SDHC_WBFS_OpenDisc K H discid (st, m, w) = Some (2, st\<lparr> ss_card := s1, ss_front := f' \<rparr>, m1, w1)"
    using f(1) assms(3) by (simp add: SDHC_WBFS_OpenDisc_def sdio_Startup_def)
  moreover have "SDHC_WBFS_Read K H buffer len offset (st\<lparr> ss_card := s1, ss_front := f' \<rparr>, m1, w1) = None"
    using f(2) by (simp add: SDHC_WBFS_Read_def front_read_def)
  ultimately show ?thesis by blast
qed

end
