(* ===== verification/Usb_Module.thy ===== *)
theory Usb_Module
  imports Usb_Storage Sdhc_Server Stealth
begin

text \<open>
  The USB module (\<open>usb-module/usbglue.c\<close>, \<open>wbfs.c\<close>, \<open>main.c\<close>): the drive that is mounted, the requests on
  \<open>/dev/usb2\<close>, and the messages of the main loop, those of the SD card server included. Arguments lie in memory
  at the addresses of their vectors. The start-up of the module (heap, timer, queue) is left out.
\<close>

section \<open>State\<close>

abbreviation (input) DEVLIST_MAXSIZE :: nat where "DEVLIST_MAXSIZE \<equiv> 8"
abbreviation (input) USB_CLASS_MASS_STORAGE :: u8 where "USB_CLASS_MASS_STORAGE \<equiv> 0x08"
abbreviation (input) MESSAGE_MOUNT :: u32 where "MESSAGE_MOUNT \<equiv> 0x10000001"
abbreviation (input) SDHC_FD :: s32 where "SDHC_FD \<equiv> 0x5D4CFD"

text \<open>The static variables of the three files.\<close>

record ums =
  um_host :: "usbv5_host option"
  um_usbfd :: usbstorage_handle
  um_lun :: u8
  um_vid :: u16
  um_pid :: u16
  um_mounted :: bool
  um_inited :: bool
  um_front :: wbfs_front
  um_sectorSz :: u32
  um_nbSector :: u32

definition ums_zero :: ums where
  "ums_zero = \<lparr> um_host = None, um_usbfd = handle_zero, um_lun = 0, um_vid = 0, um_pid = 0, um_mounted = False,
     um_inited = False, um_front = front_zero, um_sectorSz = 0, um_nbSector = 0 \<rparr>"

type_synonym 'w ums_world = "ums \<times> memory \<times> 'w"

section \<open>The mounted drive\<close>

definition usbstorage_Startup :: "'w usb_os \<Rightarrow> 'w ums_world \<Rightarrow> (bool \<times> 'w ums_world) option" where
  "usbstorage_Startup U x =
     (case x of (g, m, w) \<Rightarrow>
        do { (ok, g1, w1) \<leftarrow>
               (if um_inited g then Some (True, g, w)
                else do { (ret, host, w1) \<leftarrow> USB_Init U (um_host g) w;
                          Some (if ret < 0 then (False, g\<lparr> um_host := host \<rparr>, w1)
                                else (True, g\<lparr> um_host := host, um_inited := True \<rparr>, w1)) });
             Some (if ok then (True, g1, m, uo_queue_send U MESSAGE_MOUNT (uo_usleep U 1000 w1)) else (False, g1, m, w1)) })"

text \<open>The last close of a search that mounted nothing, and the closing of the handle.\<close>

definition close_usbfd :: "'w usb_os \<Rightarrow> 'w ums_world \<Rightarrow> ('w ums_world) option" where
  "close_usbfd U x =
     (case x of (g, m, w) \<Rightarrow>
        do { (r, dev, host, w1) \<leftarrow> USBStorage_Close U (um_host g) (um_usbfd g) w;
             Some (g\<lparr> um_host := host, um_usbfd := dev \<rparr>, m, w1) })"

text \<open>The first sector of a unit must be that of a WBFS partition or end in a boot signature; a unit whose first
  sector cannot be held is taken. The block holds 512 bytes, whatever the sector size of the unit.\<close>

definition bootable :: "memory \<Rightarrow> u32 \<Rightarrow> bool" where
  "bootable m mbr \<longleftrightarrow> load32 m mbr = 0x57424653 \<or> be16 (rdm m (mbr + 510) 2) = 0x55AA \<or> be16 (rdm m (mbr + 510) 2) = 0x55AB"

definition check_unit :: "'w usb_os \<Rightarrow> u8 \<Rightarrow> 'w ums_world \<Rightarrow> (bool \<times> 'w ums_world) option" where
  "check_unit U j x =
     (case x of (g, m, w) \<Rightarrow>
        let (mbr, w1) = uo_alloc U 512 w in
        if mbr = 0 then Some (True, g, m, w1)
        else do { ((r, dev), m2, w2) \<leftarrow> USBStorage_Read U (um_host g) (um_usbfd g) j 0 1 mbr m w1;
                  Some (bootable m2 mbr, g\<lparr> um_usbfd := dev \<rparr>, m2, uo_free U mbr w2) })"

text \<open>The units of a device, from \<open>j\<close> on, until one is mounted.\<close>

fun try_units :: "'w usb_os \<Rightarrow> u16 \<Rightarrow> u16 \<Rightarrow> nat \<Rightarrow> nat \<Rightarrow> 'w ums_world \<Rightarrow> ('w ums_world) option" where
  "try_units U vid pid j 0 x = Some x"
| "try_units U vid pid j (Suc left) x =
     (case x of (g, m, w) \<Rightarrow>
        do { ((retval, dev), m1, w1) \<leftarrow> USBStorage_MountLUN U (um_host g) (um_usbfd g) (of_nat j) m w;
             let g1 = g\<lparr> um_usbfd := dev \<rparr> in
             if retval = USBSTORAGE_ETIMEDOUT then Some (g1, m1, w1)
             else if retval < 0 then try_units U vid pid (Suc j) left (g1, m1, w1)
             else do { (ok, g2, m2, w2) \<leftarrow> check_unit U (of_nat j) (g1, m1, w1);
                       if ok then Some (g2\<lparr> um_mounted := True, um_lun := of_nat j, um_vid := vid, um_pid := pid \<rparr>, m2, w2)
                       else try_units U vid pid (Suc j) left (g2, m2, w2) } })"

fun try_devices :: "'w usb_os \<Rightarrow> usb_device_entry list \<Rightarrow> 'w ums_world \<Rightarrow> ('w ums_world) option" where
  "try_devices U [] x = Some x"
| "try_devices U (e # es) x =
     (case x of (g, m, w) \<Rightarrow>
        if de_vid e = 0 \<or> de_pid e = 0 then try_devices U es x
        else do { ((retval, dev, host), m1, w1) \<leftarrow> USBStorage_Open U (um_host g) (um_usbfd g) (de_id e) m w;
                  let g1 = g\<lparr> um_usbfd := dev, um_host := host \<rparr> in
                  if retval < 0 then try_devices U es (g1, m1, w1)
                  else do { (g2, m2, w2) \<leftarrow> try_units U (de_vid e) (de_pid e) 0 (nat (USBStorage_GetMaxLUN dev)) (g1, m1, w1);
                            if um_mounted g2 then Some (g2, m2, w2)
                            else do { y \<leftarrow> close_usbfd U (g2, m2, w2); try_devices U es y } } })"

definition usbstorage_IsInserted :: "'w usb_os \<Rightarrow> 'w ums_world \<Rightarrow> (bool \<times> 'w ums_world) option" where
  "usbstorage_IsInserted U x =
     (case x of (g, m, w) \<Rightarrow>
        if \<not> um_inited g then Some (False, x)
        else let g0 = g\<lparr> um_mounted := False \<rparr>; (buffer, w1) = uo_alloc U 96 w;
                 fail = (\<lambda>y. do { (g', m', w') \<leftarrow> close_usbfd U y;
                                  Some (False, g'\<lparr> um_mounted := False, um_lun := 0, um_vid := 0, um_pid := 0 \<rparr>, m', uo_free U buffer w') })
             in if buffer = 0 then Some (False, g0, m, w1)
                else do { (retval, devs) \<leftarrow> USB_GetDeviceList (um_host g0) DEVLIST_MAXSIZE USB_CLASS_MASS_STORAGE;
                          if retval < 0 then fail (g0, m, w1)
                          else let w2 = uo_usleep U 100 w1 in
                            if um_vid g0 \<noteq> 0 \<or> um_pid g0 \<noteq> 0 then
                              if \<exists>e \<in> set devs. de_vid e = um_vid g0 \<and> de_pid e = um_pid g0
                              then Some (True, g0\<lparr> um_mounted := True \<rparr>, m, uo_usleep U 50 (uo_free U buffer w2))
                              else fail (g0, m, w2)
                            else do { (g3, m3, w3) \<leftarrow> try_devices U devs (g0, m, w2);
                                      if um_mounted g3 then Some (True, g3, m3, uo_free U buffer w3) else fail (g3, m3, w3) } })"

text \<open>The number of sectors is cut to the 16 bits of the driver.\<close>

definition usbstorage_ReadSectors :: "'w usb_os \<Rightarrow> u32 \<Rightarrow> u32 \<Rightarrow> u32 \<Rightarrow> 'w ums_world \<Rightarrow> (bool \<times> 'w ums_world) option" where
  "usbstorage_ReadSectors U sector numSectors buffer x =
     (case x of (g, m, w) \<Rightarrow>
        if \<not> um_mounted g then Some (False, x)
        else do { ((r, dev), m1, w1) \<leftarrow> USBStorage_Read U (um_host g) (um_usbfd g) (um_lun g) sector (ucast numSectors) buffer m w;
                  Some (r \<ge> 0, g\<lparr> um_usbfd := dev \<rparr>, m1, w1) })"

definition usbstorage_WriteSectors :: "'w usb_os \<Rightarrow> u32 \<Rightarrow> u32 \<Rightarrow> u32 \<Rightarrow> 'w ums_world \<Rightarrow> (bool \<times> 'w ums_world) option" where
  "usbstorage_WriteSectors U sector numSectors buffer x =
     (case x of (g, m, w) \<Rightarrow>
        if \<not> um_mounted g then Some (False, x)
        else do { ((r, dev), m1, w1) \<leftarrow> USBStorage_Write U (um_host g) (um_usbfd g) (um_lun g) sector (ucast numSectors) buffer m w;
                  Some (r \<ge> 0, g\<lparr> um_usbfd := dev \<rparr>, m1, w1) })"

text \<open>The sector size and the number of sectors, when the drive gave them.\<close>

definition usbstorage_ReadCapacity :: "'w usb_os \<Rightarrow> 'w ums_world \<Rightarrow> ((bool \<times> (u32 \<times> u32) option) \<times> 'w ums_world) option" where
  "usbstorage_ReadCapacity U x =
     (case x of (g, m, w) \<Rightarrow>
        if \<not> um_mounted g then Some ((False, None), x)
        else do { ((r, cap, dev), m1, w1) \<leftarrow> USBStorage_ReadCapacity U (um_host g) (um_usbfd g) (um_lun g) m w;
                  Some ((r \<ge> 0, cap), g\<lparr> um_usbfd := dev \<rparr>, m1, w1) })"

definition usbstorage_Shutdown :: "'w usb_os \<Rightarrow> 'w ums_world \<Rightarrow> (bool \<times> 'w ums_world) option" where
  "usbstorage_Shutdown U x =
     (case x of (g, m, w) \<Rightarrow>
        if um_vid g \<noteq> 0 \<or> um_pid g \<noteq> 0 then do { y \<leftarrow> close_usbfd U x; Some (True, y) } else Some (True, x))"

section \<open>WBFS\<close>

text \<open>The sector callback of the library; a read that does not return stays without a state.\<close>

definition usb_sectors :: "'w usb_os \<Rightarrow> wbfs_heap \<Rightarrow> (('w ums_world) option) wbfs_dev" where
  "usb_sectors U H =
     \<lparr> read_hdsector = (\<lambda>lba count d.
         case Option.bind d (usbstorage_ReadSectors U lba count (wh_buf H)) of
           None \<Rightarrow> ((1, []), None)
         | Some (ok, g, m, w) \<Rightarrow> ((not_ok ok, rdm m (wh_buf H) (unat (um_sectorSz g * count))), Some (g, m, w))),
       write_hdsector = None \<rparr>"

definition WBFS_OpenDisc :: "'w usb_os \<Rightarrow> wbfs_heap \<Rightarrow> u32 \<Rightarrow> 'w ums_world \<Rightarrow> (s32 \<times> 'w ums_world) option" where
  "WBFS_OpenDisc U H discid x =
     do { (ok, x1) \<leftarrow> usbstorage_Startup U x;
          if \<not> ok then Some (1, x1)
          else do { ((ok2, cap), g2, m2, w2) \<leftarrow> usbstorage_ReadCapacity U x1;
                    let g3 = (case cap of None \<Rightarrow> g2 | Some (ss, n) \<Rightarrow> g2\<lparr> um_sectorSz := ss, um_nbSector := n \<rparr>) in
                    if \<not> ok2 then Some (2, g3, m2, w2)
                    else do { (r, f, d) \<leftarrow> front_open (usb_sectors U H) H 3 (um_sectorSz g3) (rdm m2 discid 6)
                                (um_front g3, Some (g3, m2, w2));
                              (g4, m4, w4) \<leftarrow> d;
                              Some (r, g4\<lparr> um_front := f \<rparr>, m4, w4) } } }"

definition WBFS_Read :: "'w usb_os \<Rightarrow> wbfs_heap \<Rightarrow> u32 \<Rightarrow> u32 \<Rightarrow> u32 \<Rightarrow> 'w ums_world \<Rightarrow> (s32 \<times> 'w ums_world) option" where
  "WBFS_Read U H buffer len offset x =
     (case x of (g, m, w) \<Rightarrow>
        do { (r, d) \<leftarrow> front_read (usb_sectors U H) len offset (um_front g, Some x);
             (g1, m1, w1) \<leftarrow> d;
             Some (case r of Inl e \<Rightarrow> (e, g1, m1, w1) | Inr bs \<Rightarrow> (0, g1, wr m1 buffer bs, w1)) })"

section \<open>Requests\<close>

abbreviation (input) IOCTL_UMS_INIT :: u32 where "IOCTL_UMS_INIT \<equiv> 0x554D5301"
abbreviation (input) IOCTL_UMS_GET_CAPACITY :: u32 where "IOCTL_UMS_GET_CAPACITY \<equiv> 0x554D5302"
abbreviation (input) IOCTL_UMS_READ_SECTORS :: u32 where "IOCTL_UMS_READ_SECTORS \<equiv> 0x554D5303"
abbreviation (input) IOCTL_UMS_WRITE_SECTORS :: u32 where "IOCTL_UMS_WRITE_SECTORS \<equiv> 0x554D5304"
abbreviation (input) IOCTL_WBFS_OPEN_DISC :: u32 where "IOCTL_WBFS_OPEN_DISC \<equiv> 0x57465301"
abbreviation (input) IOCTL_WBFS_READ_DISC :: u32 where "IOCTL_WBFS_READ_DISC \<equiv> 0x57465302"

definition code_of :: "(bool \<times> 'w ums_world) option \<Rightarrow> (s32 \<times> 'w ums_world) option" where
  "code_of r = map_option (\<lambda>(ok, x). (not_ok ok, x)) r"

text \<open>A capacity that could not be read leaves the code 1; one that was read is the code.\<close>

definition get_capacity :: "'w usb_os \<Rightarrow> u32 \<Rightarrow> 'w ums_world \<Rightarrow> (s32 \<times> 'w ums_world) option" where
  "get_capacity U output x =
     do { ((ok, cap), g, m, w) \<leftarrow> usbstorage_ReadCapacity U x;
          if ok then do { (ss, n) \<leftarrow> cap; Some (sint n, g, store32 m output ss, w) } else Some (1, g, m, w) }"

definition USB_Ioctlv ::
  "'w usb_os \<Rightarrow> wbfs_heap \<Rightarrow> u32 \<Rightarrow> ioctl_vector \<Rightarrow> 'w ums_world \<Rightarrow> (s32 \<times> 'w ums_world) option"
where
  "USB_Ioctlv U H cmd vec x =
     (case x of (g, m, w) \<Rightarrow>
        if cmd = 0x01 \<or> cmd = IOCTL_UMS_INIT then code_of (usbstorage_Startup U x)
        else if cmd = 0x02 \<or> cmd = IOCTL_UMS_READ_SECTORS then
          do { buffer \<leftarrow> vec_addr vec 2; sector \<leftarrow> vec_word vec 0 m; count \<leftarrow> vec_word vec 1 m;
               code_of (usbstorage_ReadSectors U sector count buffer x) }
        else if cmd = 0x03 \<or> cmd = IOCTL_UMS_WRITE_SECTORS then
          do { buffer \<leftarrow> vec_addr vec 2; sector \<leftarrow> vec_word vec 0 m; count \<leftarrow> vec_word vec 1 m;
               code_of (usbstorage_WriteSectors U sector count buffer x) }
        else if cmd = IOCTL_UMS_GET_CAPACITY then do { output \<leftarrow> vec_addr vec 0; get_capacity U output x }
        else if cmd = 0x04 then code_of (usbstorage_IsInserted U x)
        else if cmd = 0x05 then code_of (usbstorage_Shutdown U x)
        else if cmd = IOCTL_WBFS_OPEN_DISC then do { discid \<leftarrow> vec_addr vec 0; WBFS_OpenDisc U H discid x }
        else if cmd = IOCTL_WBFS_READ_DISC then
          do { offset \<leftarrow> vec_word vec 0 m; len \<leftarrow> vec_word vec 1 m; buffer \<leftarrow> vec_addr vec 2;
               (ret, y) \<leftarrow> WBFS_Read U H buffer len offset x; Some (if ret \<noteq> 0 then 0x8000 else 0, y) }
        else Some (IPC_EINVAL, x))"

section \<open>Messages\<close>

text \<open>The replies of the host module carry its result; the other messages are requests with the descriptor they came on.\<close>

datatype ums_message = Msg_Devchange s32 | Msg_Attach s32 | Msg_Mount
  | Msg_Open string s32 | Msg_Close s32 | Msg_Ioctlv s32 u32 ioctl_vector | Msg_Other

type_synonym 'w usb_system = "ums \<times> sdhc_state \<times> memory \<times> 'w"

definition USB_Callback :: "'w usb_os \<Rightarrow> ums_message \<Rightarrow> 'w ums_world \<Rightarrow> ('w ums_world) option option" where
  "USB_Callback U msg x =
     (case x of (g, m, w) \<Rightarrow>
        case msg of
          Msg_Devchange result \<Rightarrow>
            Some (do { (r, host, w1) \<leftarrow> USB_DeviceChange U (um_host g) result w; Some (g\<lparr> um_host := host \<rparr>, m, w1) })
        | Msg_Attach result \<Rightarrow> Some (Some (g, m, snd (USB_AttachFinish U (um_host g) result w)))
        | Msg_Mount \<Rightarrow> Some (map_option snd (usbstorage_IsInserted U x))
        | _ \<Rightarrow> None)"

text \<open>One turn of the main loop: the reply, if the message has one, and the new state. A running title opens nothing.\<close>

definition usb_main_step ::
  "'w usb_os \<Rightarrow> (memory \<times> 'w) sd_os \<Rightarrow> wbfs_heap \<Rightarrow> ('w \<Rightarrow> mload_state) \<Rightarrow> ums_message \<Rightarrow> 'w usb_system
     \<Rightarrow> (s32 option \<times> 'w usb_system) option"
where
  "usb_main_step U K H mload msg sys =
     (case sys of (g, sd, m, w) \<Rightarrow>
        case USB_Callback U msg (g, m, w) of
          Some r \<Rightarrow> map_option (\<lambda>(g1, m1, w1). (None, g1, sd, m1, w1)) r
        | None \<Rightarrow>
            (case msg of
               Msg_Open devpath resultfd \<Rightarrow>
                 Some (Some (if Stealth_CheckRunningTitle (mload w) then IPC_ENOENT
                             else if devpath = ''/dev/usb2'' then resultfd
                             else if SDHC_CheckDevicePath devpath then SDHC_FD else IPC_ENOENT), sys)
             | Msg_Close fd \<Rightarrow>
                 if fd = SDHC_FD then (case SDHC_Close K (sd, m, w) of (r, sd1, m1, w1) \<Rightarrow> Some (Some r, g, sd1, m1, w1))
                 else Some (Some 0, sys)
             | Msg_Ioctlv fd cmd vec \<Rightarrow>
                 if fd = SDHC_FD
                 then map_option (\<lambda>(r, sd1, m1, w1). (Some r, g, sd1, m1, w1)) (SDHC_Ioctlv K H cmd vec (sd, m, w))
                 else map_option (\<lambda>(r, g1, m1, w1). (Some r, g1, sd, m1, w1)) (USB_Ioctlv U H cmd vec (g, m, w))
             | _ \<Rightarrow> Some (Some IPC_EINVAL, sys)))"

end
