(* ===== verification/Ums_Client.thy ===== *)
theory Ums_Client
  imports Usb_Module
begin

text \<open>
  The client of the USB mass storage device (\<open>cios-lib/usbstorage.c\<close>), through which the plugins and the FAT module
  reach a drive. The kernel is the parameter \<open>client_os\<close>; a vector request passes the vector, whose data lie in
  memory. The two static words of the client are at \<open>co_buffer1\<close> and \<open>co_buffer2\<close>.
\<close>

record 'w client_os =
  co_open :: "string \<Rightarrow> 'w \<Rightarrow> s32 \<times> 'w"
  co_close :: "s32 \<Rightarrow> 'w \<Rightarrow> 'w"
  co_ioctlv :: "s32 \<Rightarrow> u32 \<Rightarrow> nat \<Rightarrow> nat \<Rightarrow> ioctl_vector \<Rightarrow> memory \<Rightarrow> 'w \<Rightarrow> (s32 \<times> memory \<times> 'w) option"
  co_buffer1 :: u32
  co_buffer2 :: u32

record ums_client =
  uc_fd :: s32
  uc_sectorSz :: u32

definition client_zero :: ums_client where
  "client_zero = \<lparr> uc_fd = -1, uc_sectorSz = 0 \<rparr>"

abbreviation (input) USB_MAX_SECTORS :: u32 where "USB_MAX_SECTORS \<equiv> 64"

type_synonym 'w client_world = "ums_client \<times> memory \<times> 'w"

definition client_Read_Write :: "'w client_os \<Rightarrow> bool \<Rightarrow> u32 \<Rightarrow> u32 \<Rightarrow> u32 \<Rightarrow> 'w client_world \<Rightarrow> (bool \<times> 'w client_world) option" where
  "client_Read_Write C write sector numSectors buffer x =
     (case x of (c, m, w) \<Rightarrow>
        if uc_fd c < 0 then Some (False, x)
        else let m1 = store32 (store32 m (co_buffer1 C) sector) (co_buffer2 C) numSectors;
                 vec = [(co_buffer1 C, 4), (co_buffer2 C, 4), (buffer, uc_sectorSz c * numSectors)]
             in do { (ret, m2, w2) \<leftarrow> (if write then co_ioctlv C (uc_fd c) IOCTL_UMS_WRITE_SECTORS 3 0 vec m1 w
                                       else co_ioctlv C (uc_fd c) IOCTL_UMS_READ_SECTORS 2 1 vec m1 w);
                     Some (ret = 0, c, m2, w2) })"

definition limited :: "u32 \<Rightarrow> u32" where
  "limited n = (if n > USB_MAX_SECTORS then USB_MAX_SECTORS else n)"

lemma limited_less: "cnt < n \<Longrightarrow> unat (n - (cnt + limited (n - cnt))) < unat (n - cnt)"
proof -
  assume "cnt < n"
  then have d: "0 < unat (n - cnt)" by (simp add: unat_gt_0 word_less_nat_alt unat_u32_sub word_le_nat_alt)
  have "0 < unat (limited (n - cnt))" "unat (limited (n - cnt)) \<le> unat (n - cnt)"
    using d by (auto simp: limited_def word_less_nat_alt unat_gt_0)
  then have "unat (n - cnt - limited (n - cnt)) < unat (n - cnt)"
    by (subst unat_u32_sub) (simp_all add: word_le_nat_alt)
  then show ?thesis by (simp add: diff_diff_add)
qed

function client_loop :: "'w client_os \<Rightarrow> bool \<Rightarrow> u32 \<Rightarrow> u32 \<Rightarrow> u32 \<Rightarrow> u32 \<Rightarrow> 'w client_world \<Rightarrow> (bool \<times> 'w client_world) option" where
  "client_loop C write sector numSectors buffer cnt x =
     (if cnt < numSectors then
        let n = limited (numSectors - cnt)
        in case client_Read_Write C write (sector + cnt) n (buffer + uc_sectorSz (fst x) * cnt) x of
             None \<Rightarrow> None
           | Some (ok, y) \<Rightarrow> if ok then client_loop C write sector numSectors buffer (cnt + n) y else Some (False, y)
      else Some (True, x))"
  by pat_completeness auto
termination
  by (relation "measure (\<lambda>(C, write, sector, n, buffer, cnt, x). unat (n - cnt))") (auto intro: limited_less)

declare client_loop.simps [simp del]

definition client_ReadWriteSectors where
  "client_ReadWriteSectors C write sector numSectors buffer x =
     (if uc_fd (fst x) < 0 then Some (False, x) else client_loop C write sector numSectors buffer 0 x)"

text \<open>The number of sectors, and the sector size when it is not zero.\<close>

definition client_GetCapacity :: "'w client_os \<Rightarrow> 'w client_world \<Rightarrow> ((u32 \<times> u32 option) \<times> 'w client_world) option" where
  "client_GetCapacity C x =
     (case x of (c, m, w) \<Rightarrow>
        if uc_fd c < 0 then Some ((0, None), x)
        else do { (ret, m1, w1) \<leftarrow> co_ioctlv C (uc_fd c) IOCTL_UMS_GET_CAPACITY 0 1 [(co_buffer1 C, 4)] m w;
                  let nbSector = of_int ret; sz = load32 m1 (co_buffer1 C)
                  in Some ((nbSector, if nbSector \<noteq> 0 then Some sz else None), c\<lparr> uc_sectorSz := sz \<rparr>, m1, w1) })"

definition client_Shutdown :: "'w client_os \<Rightarrow> 'w client_world \<Rightarrow> bool \<times> 'w client_world" where
  "client_Shutdown C x =
     (case x of (c, m, w) \<Rightarrow> (True, if uc_fd c \<ge> 0 then (c\<lparr> uc_fd := -1 \<rparr>, m, co_close C (uc_fd c) w) else x))"

definition client_Init :: "'w client_os \<Rightarrow> 'w client_world \<Rightarrow> (bool \<times> 'w client_world) option" where
  "client_Init C x =
     (case x of (c, m, w) \<Rightarrow>
        if uc_fd c \<ge> 0 then Some (True, x)
        else let (fd, w1) = co_open C ''/dev/usb2'' w; c1 = c\<lparr> uc_fd := fd \<rparr> in
          if fd < 0 then Some (False, c1, m, w1)
          else do { (ret, m2, w2) \<leftarrow> co_ioctlv C fd IOCTL_UMS_INIT 0 0 [] m w1;
                    if ret \<noteq> 0 then Some (False, snd (client_Shutdown C (c1, m2, w2)))
                    else do { ((n, sz), y) \<leftarrow> client_GetCapacity C (c1, m2, w2);
                              Some (if n = 0 then (False, snd (client_Shutdown C y)) else (True, y)) } })"

definition client_IsInserted :: "'w client_os \<Rightarrow> 'w client_world \<Rightarrow> (bool \<times> 'w client_world) option" where
  "client_IsInserted C x = do { ((n, sz), y) \<leftarrow> client_GetCapacity C x; Some (n \<noteq> 0, y) }"

definition client_ReadSectors where "client_ReadSectors C = client_ReadWriteSectors C False"
definition client_WriteSectors where "client_WriteSectors C = client_ReadWriteSectors C True"

definition client_GetSectorSize :: "ums_client \<Rightarrow> u32" where
  "client_GetSectorSize c = (if uc_fd c < 0 then 0 else uc_sectorSz c)"

definition client_ClearStatus :: bool where
  "client_ClearStatus = True"

section \<open>The client on the module\<close>

text \<open>The kernel passes the requests of the client to the module.\<close>

definition module_os :: "'w usb_os \<Rightarrow> (memory \<times> 'w) sd_os \<Rightarrow> wbfs_heap \<Rightarrow> ('w \<Rightarrow> mload_state) \<Rightarrow> u32 \<Rightarrow> u32
    \<Rightarrow> (ums \<times> sdhc_state \<times> 'w) client_os" where
  "module_os U K H mload b1 b2 =
     \<lparr> co_open = (\<lambda>path x. case x of (g, sd, w) \<Rightarrow>
         case usb_main_step U K H mload (Msg_Open path 1) (g, sd, (\<lambda>_. 0), w) of
           Some (Some r, g1, sd1, m1, w1) \<Rightarrow> (r, g1, sd1, w1)
         | _ \<Rightarrow> (-1, x)),
       co_close = (\<lambda>fd x. x),
       co_ioctlv = (\<lambda>fd cmd nin nio vec m x. case x of (g, sd, w) \<Rightarrow>
         case usb_main_step U K H mload (Msg_Ioctlv fd cmd vec) (g, sd, m, w) of
           Some (Some r, g1, sd1, m1, w1) \<Rightarrow> Some (r, m1, g1, sd1, w1)
         | _ \<Rightarrow> None),
       co_buffer1 = b1, co_buffer2 = b2 \<rparr>"

end
