(* ===== verification/Usb_Disk.thy ===== *)
theory Usb_Disk
  imports Usb_Storage Disk_Blocks
begin

text \<open>
  What the mass storage driver promises. \<open>bot_usb\<close> specifies a drive on the bulk endpoints: it takes a command wrapper,
  then moves the data of the command in any pieces, then answers with a status wrapper. Against it a read
  returns the sectors of the drive. The last section states what happens when a command fails.
\<close>

section \<open>The drive\<close>

datatype bot_phase = Bot_Idle | Bot_In u32 bytes | Bot_Out u32 nat nat bytes | Bot_Status u32

text \<open>\<open>bt_status\<close> is the status of every command, zero for success; a read that fails moves no data. The
  next \<open>bt_faults\<close> transfers to the host stall.\<close>

record bot =
  bt_phase :: bot_phase
  bt_disk :: "nat \<Rightarrow> bytes"
  bt_status :: u8
  bt_faults :: nat

definition le32 :: "bytes \<Rightarrow> u32" where
  "le32 bs = be32 (rev (take 4 bs))"

definition put_le32 :: "u32 \<Rightarrow> bytes" where
  "put_le32 v = rev (put_be32 v)"

definition bot_data_in :: "u32 \<Rightarrow> bytes \<Rightarrow> bot_phase" where
  "bot_data_in tag bs = (if bs = [] then Bot_Status tag else Bot_In tag bs)"

text \<open>The phase after a command wrapper.\<close>

definition bot_command :: "nat \<Rightarrow> bot \<Rightarrow> bytes \<Rightarrow> bot_phase" where
  "bot_command ss w cbw =
     (let tag = le32 (drop 4 cbw); cb = drop 15 cbw;
          s = unat (be32 (take 4 (drop 2 cb))); n = unat (be16 (take 2 (drop 7 cb)))
      in if le32 cbw \<noteq> 0x43425355 then Bot_Idle
         else if cb ! 0 = 0x28 then if bt_status w \<noteq> 0 then Bot_In tag [] else bot_data_in tag (sectors (bt_disk w) s n)
         else if cb ! 0 = 0x2A \<and> n \<noteq> 0 then Bot_Out tag s (n * ss) []
         else Bot_Status tag)"

definition bot_bulk :: "nat \<Rightarrow> u8 \<Rightarrow> u32 \<Rightarrow> nat \<Rightarrow> memory \<Rightarrow> bot \<Rightarrow> s32 \<times> memory \<times> bot" where
  "bot_bulk ss ep a len m w =
     (let inp = ep AND 0x80 \<noteq> 0 in
      case bt_phase w of
        Bot_Idle \<Rightarrow>
          if \<not> inp \<and> len = 31 then (31, m, w\<lparr> bt_phase := bot_command ss w (rdm m a 31) \<rparr>) else (-7004, m, w)
      | Bot_In tag bs \<Rightarrow>
          if inp \<and> 0 < bt_faults w then (-7004, m, w\<lparr> bt_faults := bt_faults w - 1 \<rparr>)
          else if inp then (int (min len (length bs)), wr m a (take len bs), w\<lparr> bt_phase := bot_data_in tag (drop len bs) \<rparr>)
          else (-7004, m, w)
      | Bot_Out tag s n got \<Rightarrow>
          if \<not> inp then
            let got' = got @ rdm m a len
            in (int len, m, if length got' < n then w\<lparr> bt_phase := Bot_Out tag s n got' \<rparr>
                            else w\<lparr> bt_phase := Bot_Status tag, bt_disk := store_sectors ss s (take n got') (bt_disk w) \<rparr>)
          else (-7004, m, w)
      | Bot_Status tag \<Rightarrow>
          if inp \<and> 13 \<le> len
          then (13, wr m a (put_le32 0x53425355 @ put_le32 tag @ put_le32 0 @ [bt_status w]), w\<lparr> bt_phase := Bot_Idle \<rparr>)
          else (-7004, m, w))"

definition bot_usb :: "nat \<Rightarrow> bot usb_os" where
  "bot_usb ss = \<lparr> uo_open = (\<lambda>n w. (5, w)), uo_close = (\<lambda>fd w. w), uo_ioctl = (\<lambda>fd c i n w. ((0, replicate n 0), w)),
     uo_ioctlv = (\<lambda>fd c i n msg a len m w. if c = 21 then bot_bulk ss (msg ! 18) a (unat len) m w
       else (0, m, w\<lparr> bt_phase := Bot_Idle \<rparr>)),
     uo_ioctl_async = (\<lambda>fd c w. w), uo_alloc = (\<lambda>n w. (0x13A00000, w)), uo_free = (\<lambda>p w. w),
     uo_callback = (\<lambda>c u w. w), uo_usleep = (\<lambda>n w. w), uo_queue_send = (\<lambda>q w. w), uo_stack = 0x13A01000 \<rparr>"

section \<open>Memory\<close>

lemma wr_inside:
  assumes "k + length cs \<le> length bs" and "length bs < 4294967296"
  shows "wr (wr m a bs) (a + of_nat k) cs = wr m a (blit bs k cs)"
proof
  fix x :: u32
  let ?i = "unat (x - a)"
  have k: "unat (of_nat k :: u32) = k" using assms by (simp add: unat_of_nat_u32)
  have e: "x - (a + of_nat k) = (x - a) - of_nat k" by simp
  show "wr (wr m a bs) (a + of_nat k) cs x = wr m a (blit bs k cs) x"
  proof (cases "k \<le> ?i")
    case True
    then have "unat (x - (a + of_nat k)) = ?i - k"
      unfolding e using k by (simp add: unat_sub word_le_nat_alt)
    then show ?thesis using True assms by (auto simp: wr_def nth_blit length_blit)
  next
    case False
    have "unat (x - (a + of_nat k)) = ?i + 4294967296 - k"
      unfolding e using False k by (subst unat_sub_if') (simp add: word_le_nat_alt)
    then have "\<not> unat (x - (a + of_nat k)) < length cs" using False assms by simp
    then show ?thesis using False assms by (auto simp: wr_def nth_blit length_blit)
  qed
qed

lemma upd_wr: "m(a := b) = wr m a [b]"
proof
  fix x
  show "(m(a := b)) x = wr m a [b] x" by (cases "x = a") (auto simp: wr_def unat_eq_0)
qed

text \<open>A block that a transfer filled, by way of the transfer buffer.\<close>

abbreviation placed :: "u32 \<Rightarrow> memory \<Rightarrow> memory \<Rightarrow> u32 \<Rightarrow> bytes \<Rightarrow> bool" where
  "placed dbuf \<equiv> filled (\<lambda>x. unat (x - dbuf) < 4096)"

definition off_buffer :: "u32 \<Rightarrow> u32 \<Rightarrow> nat \<Rightarrow> bool" where
  "off_buffer dbuf a n \<longleftrightarrow> (\<forall>x. \<not> (unat (x - a) < n \<and> unat (x - dbuf) < 4096))"

lemmas placed_def = filled_def

lemma placed_append:
  assumes "placed dbuf m m1 a bs" and "placed dbuf m1 m2 (a + of_nat (length bs)) cs"
    and "length bs + length cs < 4294967296" and "off_buffer dbuf a (length bs + length cs)"
  shows "placed dbuf m m2 a (bs @ cs)"
  by (rule filled_append [OF assms(1-3)]) (use assms(4) in \<open>auto simp: off_buffer_def\<close>)

lemma placed_outside:
  assumes "placed dbuf m1 m2 a bs" and "\<not> unat (x - dbuf) < 4096 \<Longrightarrow> m1 x = m x" and "\<not> unat (x - dbuf) < 4096 \<Longrightarrow> m3 x = m2 x"
  shows "unat (x - a) < length bs \<or> unat (x - dbuf) < 4096 \<or> m3 x = m x"
proof (cases "unat (x - dbuf) < 4096")
  case False
  then show ?thesis using assms(1) assms(2,3) [OF False] by (auto simp: placed_def)
qed simp

lemma placed_at:
  assumes "placed dbuf m1 m2 a bs" and "off_buffer dbuf a (length bs)" and "length bs < 4294967296" and "i < length bs"
    and "\<And>x. \<not> unat (x - dbuf) < 4096 \<Longrightarrow> m3 x = m2 x"
  shows "m3 (a + of_nat i) = bs ! i"
proof -
  have i: "unat (a + of_nat i - a) = i" using assms(3,4) by (simp add: unat_of_nat_u32)
  then have "\<not> unat (a + of_nat i - dbuf) < 4096" using assms(2,4) unfolding off_buffer_def by metis
  then have "m3 (a + of_nat i) = m2 (a + of_nat i)" by (rule assms(5))
  then show ?thesis using assms(1,4) i unfolding placed_def by metis
qed

lemma wr_frame: "length bs \<le> 4096 \<Longrightarrow> \<not> unat (x - dbuf) < 4096 \<Longrightarrow> wr m dbuf bs x = m x"
  by (simp add: wr_def)

lemma off_buffer_apart:
  assumes "off_buffer dbuf a n" and "k \<le> n" and "k \<le> 4096"
  shows "apart a dbuf k"
  unfolding apart_def
proof (intro allI impI notI)
  fix i j assume ij: "i < k" "j < k" and e: "a + of_nat i = dbuf + (of_nat j :: u32)"
  have "unat (a + of_nat i - a) = i" "unat (dbuf + of_nat j - dbuf) = j"
    using ij assms(3) by (simp_all add: unat_of_nat_u32)
  then have "unat (a + of_nat i - a) < n" "unat (a + of_nat i - dbuf) < 4096"
    using ij assms(2,3) unfolding e [symmetric] by simp_all
  then show False using assms(1) by (simp only: off_buffer_def) blast
qed

section \<open>Messages to the drive\<close>

lemma bulk_msg_endpoint: "bulk_msg msg devId ep len a ! 18 = ep"
  by (simp add: bulk_msg_def put_be32_def put_be16_def numeral_eq_Suc)

lemma bulk_bot:
  assumes "a AND 31 = 0" and "a \<noteq> 0" and "len \<noteq> 0" and "bot_bulk ss ep a (unat len) m w = (r, m', w')" and "0 \<le> r"
  shows "USB_BlkMsgTimeout (bot_usb ss) (Some h) dev ep len a m w = Some (r, m', w')"
  using assms
  by (simp add: USB_BlkMsgTimeout_def USB_WriteBlkMsg_def usb_interrupt_bulk_message_def bot_usb_def bulk_msg_endpoint)

lemma Swap32_masks: "Swap32 val = push_bit 24 (val AND mask 8) OR push_bit 8 (val AND push_bit 8 (mask 8))
     OR drop_bit 24 (val AND push_bit 24 (mask 8)) OR drop_bit 8 (val AND push_bit 16 (mask 8))"
  by (simp add: Swap32_def mask_eq_exp_minus_1)

lemma Swap32_bytes:
  "(ucast (drop_bit 24 (Swap32 v)) :: u8) = ucast v" "(ucast (drop_bit 16 (Swap32 v)) :: u8) = ucast (drop_bit 8 v)"
  "(ucast (drop_bit 8 (Swap32 v)) :: u8) = ucast (drop_bit 16 v)" "(ucast (Swap32 v) :: u8) = ucast (drop_bit 24 v)"
  by (rule bit_word_eqI; auto simp: Swap32_masks bit_simps dest: bit_imp_le_length)+

lemma put_be32_Swap32: "put_be32 (Swap32 v) = put_le32 v"
  by (simp add: put_le32_def put_be32_def Swap32_bytes)

lemma Swap32_Swap32 [simp]: "Swap32 (Swap32 v) = v"
proof -
  have "be32 (put_be32 (Swap32 (Swap32 v))) = be32 (put_be32 v)"
    unfolding put_be32_def Swap32_bytes by simp
  then show ?thesis by (simp only: be32_put)
qed

lemma le32_put: "le32 (put_le32 v @ rest) = v"
proof -
  have "take 4 (put_le32 v @ rest) = put_le32 v" by (simp add: put_le32_def)
  then show ?thesis by (simp add: le32_def) (simp add: put_le32_def)
qed

lemma length_put_le32 [simp]: "length (put_le32 v) = 4"
  by (simp add: put_le32_def)

text \<open>The command wrapper in the buffer.\<close>

definition cbw_bytes :: "u32 \<Rightarrow> u32 \<Rightarrow> u8 \<Rightarrow> u8 \<Rightarrow> bytes \<Rightarrow> bytes" where
  "cbw_bytes tag len flags lun cb = put_le32 0x43425355 @ put_le32 tag @ put_le32 len
     @ [flags, lun, if 6 < length cb then 10 else 6] @ cb @ replicate (16 - length cb) 0"

lemma length_cbw_bytes: "length cb \<le> 16 \<Longrightarrow> length (cbw_bytes tag len flags lun cb) = 31"
  by (simp add: cbw_bytes_def)

lemma drop3: "drop (3 + n) (a # b # c # xs) = drop n xs"
  by (simp add: numeral_3_eq_3)

lemma put_cbw_wr:
  assumes "length cb \<le> 16"
  shows "put_cbw dev lun len flags cb m = wr m (us_buffer dev) (cbw_bytes (us_tag dev) len flags lun cb)"
proof -
  let ?b = "us_buffer dev" and ?z = "replicate 31 (0 :: u8)"
  let ?f = "if 6 < length cb then 10 else 6 :: u8"
  note in0 = wr_inside [where k = 0, simplified] and in4 = wr_inside [where k = 4, simplified]
    and in8 = wr_inside [where k = 8, simplified] and in12 = wr_inside [where k = 12, simplified]
    and in13 = wr_inside [where k = 13, simplified] and in14 = wr_inside [where k = 14, simplified]
    and in15 = wr_inside [where k = 15, simplified]
  have "put_cbw dev lun len flags cb m
      = wr m ?b (blit (blit (blit (blit (blit (blit (blit ?z 0 (put_le32 0x43425355)) 4 (put_le32 (us_tag dev))) 8 (put_le32 len))
          12 [flags]) 13 [lun]) 14 [?f]) 15 cb)"
    using assms
    by (simp add: put_cbw_def Let_def memset_wr store32_wr upd_wr put_be32_Swap32 in0 in4 in8 in12 in13 in14 in15 length_blit)
  also have "blit (blit (blit (blit (blit (blit (blit ?z 0 (put_le32 0x43425355)) 4 (put_le32 (us_tag dev))) 8 (put_le32 len))
          12 [flags]) 13 [lun]) 14 [?f]) 15 cb = cbw_bytes (us_tag dev) len flags lun cb"
    using assms by (simp add: blit_def cbw_bytes_def drop3)
  finally show ?thesis .
qed

section \<open>A read\<close>

text \<open>A handle that was opened: its endpoints and its transfer buffer.\<close>

definition handle_ok :: "usbstorage_handle \<Rightarrow> bool" where
  "handle_ok dev \<longleftrightarrow> us_suspended dev \<noteq> 1 \<and> us_ep_in dev AND 0x80 \<noteq> 0 \<and> us_ep_out dev AND 0x80 = 0
     \<and> us_buffer dev AND 31 = 0 \<and> us_buffer dev \<noteq> 0"

lemma send_cbw_bot:
  assumes "handle_ok dev" and "cb \<noteq> []" and "length cb \<le> 16" and "bt_phase w = Bot_Idle"
  shows "send_cbw (bot_usb ss) (Some h) dev lun len flags cb m w
    = Some ((0, dev), wr m (us_buffer dev) (cbw_bytes (us_tag dev) len flags lun cb),
        w\<lparr> bt_phase := bot_command ss w (cbw_bytes (us_tag dev) len flags lun cb) \<rparr>)"
proof -
  let ?c = "cbw_bytes (us_tag dev) len flags lun cb" and ?b = "us_buffer dev"
  have "rdm (wr m ?b ?c) ?b 31 = ?c"
    using rdm_wr [of ?c 0 31 m ?b] length_cbw_bytes [OF assms(3)] by simp
  then have "bot_bulk ss (us_ep_out dev) ?b (unat (31 :: u16)) (wr m ?b ?c) w
      = (31, wr m ?b ?c, w\<lparr> bt_phase := bot_command ss w ?c \<rparr>)"
    using assms by (simp add: bot_bulk_def handle_ok_def)
  from bulk_bot [OF _ _ _ this, of h dev] show ?thesis
    using assms by (simp add: send_cbw_def put_cbw_wr handle_ok_def)
qed

lemma csw_bot:
  assumes "handle_ok dev" and "bt_phase w = Bot_Status (us_tag dev)"
  shows "\<exists>m'. read_csw (bot_usb ss) (Some h) dev m w
      = Some ((0, Some (bt_status w, 0), dev\<lparr> us_tag := us_tag dev + 1 \<rparr>), m', w\<lparr> bt_phase := Bot_Idle \<rparr>)
    \<and> (\<forall>x. \<not> unat (x - us_buffer dev) < 4096 \<longrightarrow> m' x = m x)"
proof -
  let ?b = "us_buffer dev" and ?m = "memset m (us_buffer dev) 0 13"
  let ?c = "put_le32 0x53425355 @ put_le32 (us_tag dev) @ put_le32 0 @ [bt_status w]"
  let ?m' = "wr ?m ?b ?c"
  have "bot_bulk ss (us_ep_in dev) ?b (unat (13 :: u16)) ?m w = (13, ?m', w\<lparr> bt_phase := Bot_Idle \<rparr>)"
    using assms by (simp add: bot_bulk_def handle_ok_def)
  from bulk_bot [OF _ _ _ this, of h dev]
  have blk: "USB_BlkMsgTimeout (bot_usb ss) (Some h) dev (us_ep_in dev) 13 ?b ?m w = Some (13, ?m', w\<lparr> bt_phase := Bot_Idle \<rparr>)"
    using assms(1) by (simp add: handle_ok_def)
  have ld: "load32 ?m' (?b + of_nat k) = Swap32 v" if "k + 4 \<le> 13" "take 4 (drop k ?c) = put_le32 v" for k v
  proof -
    have "put_be32 (load32 ?m' (?b + of_nat k)) = put_be32 (Swap32 v)"
      unfolding put_load32 put_be32_Swap32 using rdm_wr [of ?c k 4 ?m ?b] that by simp
    then have "be32 (put_be32 (load32 ?m' (?b + of_nat k))) = be32 (put_be32 (Swap32 v))" by simp
    then show ?thesis by (simp only: be32_put)
  qed
  have "load32 ?m' ?b = Swap32 0x53425355" "load32 ?m' (?b + 4) = Swap32 (us_tag dev)" "load32 ?m' (?b + 8) = Swap32 0"
    using ld [of 0 "0x53425355"] ld [of 4 "us_tag dev"] ld [of 8 0] by simp_all
  moreover have "?m' (?b + 12) = bt_status w" by (simp add: wr_def nth_append)
  ultimately have "read_csw (bot_usb ss) (Some h) dev m w
      = Some ((0, Some (bt_status w, 0), dev\<lparr> us_tag := us_tag dev + 1 \<rparr>), ?m', w\<lparr> bt_phase := Bot_Idle \<rparr>)"
    by (simp add: read_csw_def blk Let_def)
  moreover have "\<not> unat (x - ?b) < 4096 \<Longrightarrow> ?m' x = m x" for x by (simp add: memset_wr wr_frame)
  ultimately show ?thesis by (intro exI [of _ ?m']) simp
qed

lemma this_len_bounds:
  assumes "len \<noteq> 0"
  shows "unat (this_len len) \<le> 4096" and "unat (this_len len) \<le> unat len" and "0 < unat (this_len len)"
    and "unat (ucast (this_len len) :: u16) = unat (this_len len)" and "(ucast (this_len len) :: u16) \<noteq> 0"
proof -
  show k: "unat (this_len len) \<le> 4096" "unat (this_len len) \<le> unat len" "0 < unat (this_len len)"
    using assms by (auto simp: this_len_def word_less_nat_alt unat_gt_0)
  show kl: "unat (ucast (this_len len) :: u16) = unat (this_len len)"
    using k(1) by (simp add: unsigned_ucast_eq take_bit_nat_eq_self)
  show "(ucast (this_len len) :: u16) \<noteq> 0" using k(3) kl by (metis less_numeral_extra(3) unat_0)
qed

text \<open>One transfer from the drive; it is short when the drive has less to give.\<close>

lemma read_chunk_bot:
  assumes "handle_ok dev" and "bt_phase w = Bot_In tag bs" and "len \<noteq> 0" and "bt_faults w = 0"
    and "off_buffer (us_buffer dev) buffer (length (take (unat (this_len len)) bs))"
  defines "t \<equiv> take (unat (this_len len)) bs"
  shows "\<exists>m'. read_chunk (bot_usb ss) (Some h) dev len buffer m w
      = Some (int (length t), m', w\<lparr> bt_phase := bot_data_in tag (drop (unat (this_len len)) bs) \<rparr>)
    \<and> placed (us_buffer dev) m m' buffer t"
proof -
  let ?k = "unat (this_len len)" and ?b = "us_buffer dev"
  note k = this_len_bounds [OF assms(3)]
  have len: "length t \<le> 4096" using k(1) by (simp add: t_def)
  have bulk: "bot_bulk ss (us_ep_in dev) a (unat (ucast (this_len len) :: u16)) m w
      = (int (length t), wr m a t, w\<lparr> bt_phase := bot_data_in tag (drop ?k bs) \<rparr>)" for a
    using assms(1-4) by (simp add: bot_bulk_def handle_ok_def k(4) t_def min.commute)
  show ?thesis
  proof (cases "bounced buffer")
    case True
    let ?m = "wr m ?b t"
    have "USB_BlkMsgTimeout (bot_usb ss) (Some h) dev (us_ep_in dev) (ucast (this_len len)) ?b m w
        = Some (int (length t), ?m, w\<lparr> bt_phase := bot_data_in tag (drop ?k bs) \<rparr>)"
      by (rule bulk_bot [OF _ _ k(5) bulk]) (use assms(1) in \<open>simp_all add: handle_ok_def\<close>)
    moreover have "memcpy ?m buffer ?b (length t) = wr ?m buffer t"
    proof -
      have "rdm ?m ?b (length t) = t" using rdm_wr [of t 0 "length t" m ?b] len by simp
      then show ?thesis using memcpy_wr [OF off_buffer_apart [OF assms(5) order_refl], folded t_def] len by simp
    qed
    moreover have "wr ?m buffer [] = ?m" by simp
    ultimately have "read_chunk (bot_usb ss) (Some h) dev len buffer m w
        = Some (int (length t), wr ?m buffer t, w\<lparr> bt_phase := bot_data_in tag (drop ?k bs) \<rparr>)"
      using True by (cases "t = []") (simp_all add: read_chunk_def)
    moreover have "placed ?b m (wr ?m buffer t) buffer t"
      using len by (auto simp: placed_def wr_def)
    ultimately show ?thesis by blast
  next
    case False
    then have "buffer AND 31 = 0" "buffer \<noteq> 0" by (auto simp: bounced_def)
    then have "read_chunk (bot_usb ss) (Some h) dev len buffer m w
        = Some (int (length t), wr m buffer t, w\<lparr> bt_phase := bot_data_in tag (drop ?k bs) \<rparr>)"
      using False bulk_bot [OF _ _ k(5) bulk] by (simp add: read_chunk_def)
    moreover have "placed ?b m (wr m buffer t) buffer t" by (auto simp: placed_def wr_def)
    ultimately show ?thesis by blast
  qed
qed

lemma off_buffer_le: "off_buffer dbuf a n \<Longrightarrow> k \<le> n \<Longrightarrow> off_buffer dbuf a k"
  by (auto simp: off_buffer_def)

lemma off_buffer_drop:
  assumes "off_buffer dbuf a n" and "k \<le> n" and "n < 4294967296"
  shows "off_buffer dbuf (a + of_nat k) (n - k)"
  unfolding off_buffer_def
proof (intro allI notI)
  fix x :: u32
  assume x: "unat (x - (a + of_nat k)) < n - k \<and> unat (x - dbuf) < 4096"
  have "unat (x - (a + of_nat k)) + k < 4294967296" using x assms(2,3) by linarith
  then have "unat (x - (a + of_nat k) + of_nat k) = unat (x - (a + of_nat k)) + k"
    using assms(2,3) by (subst unat_u32_add) (simp_all add: unat_of_nat_u32)
  then have "unat (x - a) = unat (x - (a + of_nat k)) + k" by simp
  then have "unat (x - a) < n" using x by linarith
  then show False using x assms(1) by (simp add: off_buffer_def)
qed

lemma read_data_bot:
  assumes "handle_ok dev" and "bt_phase w = bot_data_in tag bs" and "length bs = unat len"
    and "off_buffer (us_buffer dev) buffer (unat len)" and "0 \<le> r" and "bt_faults w = 0"
  shows "\<exists>r' m'. read_data (bot_usb ss) (Some h) dev r len buffer m w
      = Some ((r', 0, buffer + len), m', w\<lparr> bt_phase := Bot_Status tag \<rparr>) \<and> 0 \<le> r'
    \<and> placed (us_buffer dev) m m' buffer bs"
  using assms(2-6)
proof (induction "unat len" arbitrary: len buffer m w r bs rule: less_induct)
  case less
  show ?case
  proof (cases "len = 0")
    case True
    then have "bs = []" using less.prems(2) by simp
    then have "w\<lparr> bt_phase := Bot_Status tag \<rparr> = w" using less.prems(1) by (cases w) (simp add: bot_data_in_def)
    then show ?thesis using True less.prems(4) \<open>bs = []\<close> by (simp add: read_data.simps placed_def)
  next
    case False
    let ?k = "unat (this_len len)"
    have k: "?k \<le> unat len" by (auto simp: this_len_def word_less_nat_alt)
    have sub: "unat (len - this_len len) = unat len - ?k"
      using k by (simp add: unat_u32_sub word_le_nat_alt)
    have u: "unat len < 4294967296" by (rule u32_less)
    have ph: "bt_phase w = Bot_In tag bs" using less.prems(1,2) False by (auto simp: bot_data_in_def unat_eq_0)
    have lt: "length (take ?k bs) = ?k" using k less.prems(2) by simp
    obtain m1 where c: "read_chunk (bot_usb ss) (Some h) dev len buffer m w
        = Some (int ?k, m1, w\<lparr> bt_phase := bot_data_in tag (drop ?k bs) \<rparr>)" and p1: "placed (us_buffer dev) m m1 buffer (take ?k bs)"
      using read_chunk_bot [OF assms(1) ph False less.prems(5), unfolded lt, OF off_buffer_le [OF less.prems(3) k], of ss h m] by blast
    have ob: "off_buffer (us_buffer dev) (buffer + this_len len) (unat (len - this_len len))"
      using off_buffer_drop [OF less.prems(3) k u] by (simp add: sub)
    have "\<exists>r' m'. read_data (bot_usb ss) (Some h) dev (int ?k) (len - this_len len) (buffer + this_len len) m1
          (w\<lparr> bt_phase := bot_data_in tag (drop ?k bs) \<rparr>)
        = Some ((r', 0, buffer + this_len len + (len - this_len len)), m', w\<lparr> bt_phase := bot_data_in tag (drop ?k bs), bt_phase := Bot_Status tag \<rparr>)
        \<and> 0 \<le> r' \<and> placed (us_buffer dev) m1 m' (buffer + this_len len) (drop ?k bs)"
      by (rule less.hyps [OF this_len_pos [OF False]]) (use less.prems(2,5) sub ob in simp_all)
    then obtain r' m' where rec: "read_data (bot_usb ss) (Some h) dev (int ?k) (len - this_len len) (buffer + this_len len) m1
          (w\<lparr> bt_phase := bot_data_in tag (drop ?k bs) \<rparr>) = Some ((r', 0, buffer + len), m', w\<lparr> bt_phase := Bot_Status tag \<rparr>)"
      and r': "0 \<le> r'" and p2: "placed (us_buffer dev) m1 m' (buffer + this_len len) (drop ?k bs)" by auto
    have "placed (us_buffer dev) m m' buffer (take ?k bs @ drop ?k bs)"
      by (rule placed_append [OF p1]) (use p2 less.prems(2,3) k u in simp_all)
    moreover have "read_data (bot_usb ss) (Some h) dev r len buffer m w = Some ((r', 0, buffer + len), m', w\<lparr> bt_phase := Bot_Status tag \<rparr>)"
      using False c rec by (subst read_data.simps) (simp add: not_sym [OF less_imp_neq [OF order_less_le_trans [OF _ unsigned_greater_eq]]])
    ultimately show ?thesis using r' by (intro exI [of _ r'] exI [of _ m']) simp
  qed
qed

lemma bot_command_read:
  "bot_command ss w (cbw_bytes tag len flags lun (rw_cmd 0x28 lun s n))
    = (if bt_status w \<noteq> 0 then Bot_In tag [] else bot_data_in tag (sectors (bt_disk w) (unat s) (unat n)))"
proof -
  have d4: "drop 4 (cbw_bytes tag len flags lun cb) = put_le32 tag @ put_le32 len @ [flags, lun, if 6 < length cb then 10 else 6] @ cb @ replicate (16 - length cb) 0"
    "drop 15 (cbw_bytes tag len flags lun cb) = cb @ replicate (16 - length cb) 0" for cb
    by (simp_all add: cbw_bytes_def)
  have "le32 (cbw_bytes tag len flags lun cb) = 0x43425355" for cb by (simp add: cbw_bytes_def le32_put)
  then show ?thesis by (simp add: bot_command_def Let_def d4 le32_put rw_cmd_def)
qed

text \<open>A turn of a read: the command, the data, and a status wrapper.\<close>

lemma cycle_once_read:
  assumes "handle_ok (cy_dev c)" and "cb \<noteq> []" and "length cb \<le> 16" and "bt_phase w = Bot_Idle"
    and "read_data (bot_usb ss) (Some h) (cy_dev c) 0 (cy_len c) (cy_buffer c)
        (wr m (us_buffer (cy_dev c)) (cbw_bytes (us_tag (cy_dev c)) (cy_len c) CBW_IN lun cb))
        (w\<lparr> bt_phase := bot_command ss w (cbw_bytes (us_tag (cy_dev c)) (cy_len c) CBW_IN lun cb) \<rparr>) = Some ((r2, len2, buf2), m2, w2)"
    and "0 \<le> r2" and "bt_phase w2 = Bot_Status (us_tag (cy_dev c))"
  shows "\<exists>m3. cycle_once (bot_usb ss) (Some h) lun cb False c m w
      = Some ((0, c\<lparr> cy_len := len2, cy_buffer := buf2, cy_status := bt_status w2, cy_residue := 0,
                    cy_dev := (cy_dev c)\<lparr> us_tag := us_tag (cy_dev c) + 1 \<rparr> \<rparr>), m3, w2\<lparr> bt_phase := Bot_Idle \<rparr>)
    \<and> (\<forall>x. \<not> unat (x - us_buffer (cy_dev c)) < 4096 \<longrightarrow> m3 x = m2 x)"
proof -
  obtain m3 where csw: "read_csw (bot_usb ss) (Some h) (cy_dev c) m2 w2
      = Some ((0, Some (bt_status w2, 0), (cy_dev c)\<lparr> us_tag := us_tag (cy_dev c) + 1 \<rparr>), m3, w2\<lparr> bt_phase := Bot_Idle \<rparr>)"
    and f: "\<forall>x. \<not> unat (x - us_buffer (cy_dev c)) < 4096 \<longrightarrow> m3 x = m2 x"
    using csw_bot [OF assms(1,7)] by blast
  have c: "c\<lparr> cy_dev := cy_dev c \<rparr> = c" by simp
  show ?thesis
    using send_cbw_bot [OF assms(1-4), of ss h lun "cy_len c" CBW_IN m] assms(5,6) csw f
    by (intro exI [of _ m3] conjI) (simp_all add: cycle_once_def)
qed

lemma cbw_frame: "length cb \<le> 16 \<Longrightarrow> \<not> unat (x - b) < 4096 \<Longrightarrow> wr m b (cbw_bytes tag len flags lun cb) x = m x"
  by (rule wr_frame) (simp_all add: length_cbw_bytes)

lemma rw_cmd_length: "rw_cmd code lun s n \<noteq> []" "length (rw_cmd code lun s n) \<le> 16"
  by (simp_all add: rw_cmd_def)

lemma unat_read_len: "unat n * unat ss < 4294967296 \<Longrightarrow> unat (ucast n * ss :: u32) = unat n * unat ss" for n :: u16
  by (simp add: unat_word_ariths unat_ucast_u16_u32)

lemma read_bot:
  assumes "handle_ok dev" and "bt_phase w = Bot_Idle \<and> bt_status w = 0 \<and> bt_faults w = 0" and "lun < us_max_lun dev"
    and "us_sector_size dev = Some (p, arr)" and "rd arr (unat lun) = Some ss" and "ss \<noteq> 0" and "\<And>i. length (bt_disk w i) = unat ss"
    and "unat n * unat ss < 4294967296" and "off_buffer (us_buffer dev) buffer (unat n * unat ss)"
  shows "\<exists>m'. USBStorage_Read (bot_usb (unat ss)) (Some h) dev lun s n buffer m w
      = Some ((0, dev\<lparr> us_tag := us_tag dev + 1 \<rparr>), m', w)
    \<and> (\<forall>i < unat n * unat ss. m' (buffer + of_nat i) = sectors (bt_disk w) (unat s) (unat n) ! i)
    \<and> (\<forall>x. unat (x - buffer) < unat n * unat ss \<or> unat (x - us_buffer dev) < 4096 \<or> m' x = m x)"
proof -
  let ?N = "unat n * unat ss" and ?bs = "sectors (bt_disk w) (unat s) (unat n)" and ?b = "us_buffer dev"
  let ?len = "ucast n * ss" and ?cb = "rw_cmd 0x28 lun s n"
  let ?c = "\<lparr> cy_len = ?len, cy_buffer = buffer, cy_status = 0, cy_residue = 0, cy_dev = dev \<rparr>"
  let ?m1 = "wr m ?b (cbw_bytes (us_tag dev) ?len CBW_IN lun ?cb)"
  note len = unat_read_len [OF assms(8)] and bs = length_sectors [where k = "unat ss" and s = "unat s" and n = "unat n", OF assms(7)]
  obtain r' m2 where rd: "read_data (bot_usb (unat ss)) (Some h) dev 0 ?len buffer ?m1 (w\<lparr> bt_phase := bot_data_in (us_tag dev) ?bs \<rparr>)
      = Some ((r', 0, buffer + ?len), m2, w\<lparr> bt_phase := Bot_Status (us_tag dev) \<rparr>)" and r': "0 \<le> r'"
    and p2: "placed ?b ?m1 m2 buffer ?bs"
    using read_data_bot [OF assms(1), of "w\<lparr> bt_phase := bot_data_in (us_tag dev) ?bs \<rparr>" "us_tag dev" ?bs ?len buffer 0 "unat ss" h ?m1]
      assms(2,9) bs len by auto
  have wi: "w\<lparr> bt_phase := Bot_Idle \<rparr> = w" using assms(2) by (cases w) simp
  obtain m3 c3 where once: "cycle_once (bot_usb (unat ss)) (Some h) lun ?cb False ?c m w = Some ((0, c3), m3, w)"
    and c3: "cy_dev c3 = dev\<lparr> us_tag := us_tag dev + 1 \<rparr>" and f3: "\<And>x. \<not> unat (x - ?b) < 4096 \<Longrightarrow> m3 x = m2 x"
    using cycle_once_read [of ?c ?cb w "unat ss" h m lun r' 0 "buffer + ?len" m2 "w\<lparr> bt_phase := Bot_Status (us_tag dev) \<rparr>"]
      assms(1,2) rw_cmd_length rd r' wi by (auto simp: bot_command_read)
  have "USBStorage_Read (bot_usb (unat ss)) (Some h) dev lun s n buffer m w = Some ((0, dev\<lparr> us_tag := us_tag dev + 1 \<rparr>), m3, w)"
    using assms(3-6) once c3
    by (simp add: USBStorage_Read_def rw_sectors_def cycle_def numeral_eq_Suc not_le)
  moreover have "m3 (buffer + of_nat i) = ?bs ! i" if "i < ?N" for i
    by (rule placed_at [OF p2 _ _ _ f3]) (use assms(8,9) bs that in simp_all)
  moreover have "unat (x - buffer) < ?N \<or> unat (x - ?b) < 4096 \<or> m3 x = m x" for x
    using placed_outside [OF p2 cbw_frame [OF rw_cmd_length(2)] f3, where x = x] unfolding bs .
  ultimately show ?thesis by (intro exI [of _ m3]) simp
qed

section \<open>A write\<close>

lemma off_buffer_at:
  assumes "off_buffer dbuf a n" and "i < n" and "n < 4294967296"
  shows "\<not> unat (a + of_nat i - dbuf) < 4096"
proof -
  have "unat (a + of_nat i - a) = i" using assms(2,3) by (simp add: unat_of_nat_u32)
  then show ?thesis using assms(1,2) unfolding off_buffer_def by metis
qed

lemma apart_sym: "apart a b n \<Longrightarrow> apart b a n"
  unfolding apart_def by metis

definition bot_out :: "nat \<Rightarrow> u32 \<Rightarrow> nat \<Rightarrow> nat \<Rightarrow> bytes \<Rightarrow> bot \<Rightarrow> bot" where
  "bot_out ss tag s n got w =
     (if length got < n then w\<lparr> bt_phase := Bot_Out tag s n got \<rparr>
      else w\<lparr> bt_phase := Bot_Status tag, bt_disk := store_sectors ss s (take n got) (bt_disk w) \<rparr>)"

lemma write_chunk_bot:
  assumes "handle_ok dev" and "bt_phase w = Bot_Out tag s n got" and "len \<noteq> 0" and "off_buffer (us_buffer dev) buffer (unat len)"
  defines "k \<equiv> unat (this_len len)"
  shows "\<exists>m'. write_chunk (bot_usb ss) (Some h) dev len buffer m w
      = Some (int k, m', bot_out ss tag s n (got @ rdm m buffer k) w)
    \<and> (\<forall>x. \<not> unat (x - us_buffer dev) < 4096 \<longrightarrow> m' x = m x)"
proof -
  let ?b = "us_buffer dev"
  note k = this_len_bounds [OF assms(3), folded k_def]
  have bulk: "bot_bulk ss (us_ep_out dev) a (unat (ucast (this_len len) :: u16)) m' w
      = (int k, m', bot_out ss tag s n (got @ rdm m' a k) w)" for a m'
    using assms(1,2) by (simp add: bot_bulk_def handle_ok_def k(4) bot_out_def)
  show ?thesis
  proof (cases "bounced buffer")
    case True
    let ?m = "memcpy m ?b buffer k"
    have ap: "apart ?b buffer k" by (rule apart_sym [OF off_buffer_apart [OF assms(4) k(2,1)]])
    have m: "?m = wr m ?b (rdm m buffer k)" using memcpy_wr [OF ap] k(1) by simp
    have r: "rdm ?m ?b k = rdm m buffer k" unfolding m using rdm_wr [of "rdm m buffer k" 0 k m ?b] k(1) by simp
    have "USB_BlkMsgTimeout (bot_usb ss) (Some h) dev (us_ep_out dev) (ucast (this_len len)) ?b ?m w
        = Some (int k, ?m, bot_out ss tag s n (got @ rdm ?m ?b k) w)"
      by (rule bulk_bot [OF _ _ k(5) bulk]) (use assms(1) in \<open>simp_all add: handle_ok_def\<close>)
    then have "write_chunk (bot_usb ss) (Some h) dev len buffer m w = Some (int k, ?m, bot_out ss tag s n (got @ rdm m buffer k) w)"
      using True by (simp add: write_chunk_def r flip: k_def)
    moreover have "\<not> unat (x - ?b) < 4096 \<Longrightarrow> ?m x = m x" for x unfolding m using k(1) by (intro wr_frame) simp_all
    ultimately show ?thesis by blast
  next
    case False
    then have "buffer AND 31 = 0" "buffer \<noteq> 0" by (auto simp: bounced_def)
    then have "write_chunk (bot_usb ss) (Some h) dev len buffer m w = Some (int k, m, bot_out ss tag s n (got @ rdm m buffer k) w)"
      using False bulk_bot [OF _ _ k(5) bulk] by (simp add: write_chunk_def)
    then show ?thesis by blast
  qed
qed

lemma write_data_bot:
  assumes "handle_ok dev" and "bt_phase w = Bot_Out tag s n got" and "length got + unat len = n" and "len \<noteq> 0"
    and "off_buffer (us_buffer dev) buffer (unat len)"
  shows "\<exists>r' m'. write_data (bot_usb ss) (Some h) dev r len buffer m w
      = Some ((r', 0, buffer + len), m', w\<lparr> bt_phase := Bot_Status tag,
          bt_disk := store_sectors ss s (got @ rdm m buffer (unat len)) (bt_disk w) \<rparr>) \<and> 0 \<le> r'
    \<and> (\<forall>x. \<not> unat (x - us_buffer dev) < 4096 \<longrightarrow> m' x = m x)"
  using assms(2-5)
proof (induction "unat len" arbitrary: len buffer m w r got rule: less_induct)
  case less
  let ?k = "unat (this_len len)"
  note k = this_len_bounds [OF less.prems(3)]
  have sub: "unat (len - this_len len) = unat len - ?k" using k by (simp add: unat_u32_sub word_le_nat_alt)
  have u: "unat len < 4294967296" by (rule u32_less)
  obtain m1 where c: "write_chunk (bot_usb ss) (Some h) dev len buffer m w
      = Some (int ?k, m1, bot_out ss tag s n (got @ rdm m buffer ?k) w)" and f1: "\<And>x. \<not> unat (x - us_buffer dev) < 4096 \<Longrightarrow> m1 x = m x"
    using write_chunk_bot [OF assms(1) less.prems(1,3,4), of ss h m] by blast
  have step: "write_data (bot_usb ss) (Some h) dev r len buffer m w
      = write_data (bot_usb ss) (Some h) dev (int ?k) (len - this_len len) (buffer + this_len len) m1 (bot_out ss tag s n (got @ rdm m buffer ?k) w)"
    using less.prems(3) c by (subst write_data.simps) (simp add: not_sym [OF less_imp_neq [OF order_less_le_trans [OF _ unsigned_greater_eq]]] not_less)
  show ?case
  proof (cases "len - this_len len = 0")
    case True
    then have l: "this_len len = len" by simp
    have "bot_out ss tag s n (got @ rdm m buffer ?k) w = w\<lparr> bt_phase := Bot_Status tag,
        bt_disk := store_sectors ss s (got @ rdm m buffer (unat len)) (bt_disk w) \<rparr>"
      using less.prems(2) by (simp add: bot_out_def l)
    then show ?thesis unfolding step using f1
      by (intro exI [of _ "int ?k"] exI [of _ m1]) (simp add: write_data.simps l)
  next
    case False
    let ?got = "got @ rdm m buffer ?k" and ?a = "buffer + this_len len"
    have lt: "?k < unat len" using False k(2) sub by (metis cancel_comm_monoid_add_class.diff_cancel le_neq_implies_less unsigned_eq_0_iff)
    have w: "bot_out ss tag s n ?got w = w\<lparr> bt_phase := Bot_Out tag s n ?got \<rparr>"
      using less.prems(2) lt by (simp add: bot_out_def)
    have ob: "off_buffer (us_buffer dev) ?a (unat (len - this_len len))"
      using off_buffer_drop [OF less.prems(4) k(2) u] by (simp add: sub)
    have "\<exists>r' m'. write_data (bot_usb ss) (Some h) dev (int ?k) (len - this_len len) ?a m1 (w\<lparr> bt_phase := Bot_Out tag s n ?got \<rparr>)
      = Some ((r', 0, ?a + (len - this_len len)), m', w\<lparr> bt_phase := Bot_Out tag s n ?got \<rparr>\<lparr> bt_phase := Bot_Status tag,
          bt_disk := store_sectors ss s (?got @ rdm m1 ?a (unat (len - this_len len))) (bt_disk (w\<lparr> bt_phase := Bot_Out tag s n ?got \<rparr>)) \<rparr>) \<and> 0 \<le> r'
      \<and> (\<forall>x. \<not> unat (x - us_buffer dev) < 4096 \<longrightarrow> m' x = m1 x)"
      by (rule less.hyps [OF this_len_pos [OF less.prems(3)]]) (use less.prems(2) sub ob False lt in simp_all)
    then obtain r' m' where rec: "write_data (bot_usb ss) (Some h) dev (int ?k) (len - this_len len) ?a m1 (w\<lparr> bt_phase := Bot_Out tag s n ?got \<rparr>)
      = Some ((r', 0, buffer + len), m', w\<lparr> bt_phase := Bot_Status tag,
          bt_disk := store_sectors ss s (?got @ rdm m1 ?a (unat (len - this_len len))) (bt_disk w) \<rparr>)"
      and r': "0 \<le> r'" and f2: "\<And>x. \<not> unat (x - us_buffer dev) < 4096 \<Longrightarrow> m' x = m1 x" by auto
    have "rdm m1 ?a (unat (len - this_len len)) = rdm m ?a (unat (len - this_len len))"
      by (rule rdm_cong, rule f1, rule off_buffer_at [OF ob]) (rule u32_less | assumption)+
    then have "rdm m buffer ?k @ rdm m1 ?a (unat (len - this_len len)) = rdm m buffer (unat len)"
      using rdm_append [of m buffer ?k "unat (len - this_len len)"] sub k(2) by simp
    then show ?thesis unfolding step w rec using r' f1 f2 by (intro exI [of _ r'] exI [of _ m']) simp
  qed
qed

lemma bot_command_write:
  "n \<noteq> 0 \<Longrightarrow> bot_command ss w (cbw_bytes tag len flags lun (rw_cmd 0x2A lun s n)) = Bot_Out tag (unat s) (unat n * ss) []"
proof -
  have d4: "drop 4 (cbw_bytes tag len flags lun cb) = put_le32 tag @ put_le32 len @ [flags, lun, if 6 < length cb then 10 else 6] @ cb @ replicate (16 - length cb) 0"
    "drop 15 (cbw_bytes tag len flags lun cb) = cb @ replicate (16 - length cb) 0" for cb
    by (simp_all add: cbw_bytes_def)
  have "le32 (cbw_bytes tag len flags lun cb) = 0x43425355" for cb by (simp add: cbw_bytes_def le32_put)
  then show "n \<noteq> 0 \<Longrightarrow> ?thesis" by (simp add: bot_command_def Let_def d4 le32_put rw_cmd_def unat_gt_0)
qed

lemma write_bot:
  assumes "handle_ok dev" and "bt_phase w = Bot_Idle" and "lun < us_max_lun dev"
    and "us_sector_size dev = Some (p, arr)" and "rd arr (unat lun) = Some ss" and "ss \<noteq> 0" and "n \<noteq> 0"
    and "unat n * unat ss < 4294967296" and "off_buffer (us_buffer dev) buffer (unat n * unat ss)"
  shows "\<exists>m'. USBStorage_Write (bot_usb (unat ss)) (Some h) dev lun s n buffer m w
      = Some ((0, dev\<lparr> us_tag := us_tag dev + 1 \<rparr>), m',
          w\<lparr> bt_disk := store_sectors (unat ss) (unat s) (rdm m buffer (unat n * unat ss)) (bt_disk w) \<rparr>)
    \<and> (\<forall>x. unat (x - us_buffer dev) < 4096 \<or> m' x = m x)"
proof -
  let ?N = "unat n * unat ss" and ?b = "us_buffer dev" and ?len = "ucast n * ss" and ?cb = "rw_cmd 0x2A lun s n"
  let ?c = "\<lparr> cy_len = ?len, cy_buffer = buffer, cy_status = 0, cy_residue = 0, cy_dev = dev \<rparr>"
  let ?m1 = "wr m ?b (cbw_bytes (us_tag dev) ?len CBW_OUT lun ?cb)"
  let ?w1 = "w\<lparr> bt_phase := Bot_Out (us_tag dev) (unat s) ?N [] \<rparr>"
  let ?disk = "store_sectors (unat ss) (unat s) (rdm m buffer ?N) (bt_disk w)"
  note len = unat_read_len [OF assms(8)]
  have l0: "?len \<noteq> 0" using len assms(6,7) by (metis mult_eq_0_iff unsigned_eq_0_iff)
  have fr: "\<not> unat (x - ?b) < 4096 \<Longrightarrow> ?m1 x = m x" for x by (rule cbw_frame [OF rw_cmd_length(2)])
  have eq: "rdm ?m1 buffer (unat ?len) = rdm m buffer ?N" unfolding len
    by (rule rdm_cong, rule fr, rule off_buffer_at [OF assms(9)]) (rule assms(8) | assumption)+
  obtain r' m2 where wd: "write_data (bot_usb (unat ss)) (Some h) dev 0 ?len buffer ?m1 ?w1
      = Some ((r', 0, buffer + ?len), m2, w\<lparr> bt_phase := Bot_Status (us_tag dev), bt_disk := ?disk \<rparr>)"
    and r': "0 \<le> r'" and f2: "\<And>x. \<not> unat (x - ?b) < 4096 \<Longrightarrow> m2 x = ?m1 x"
    using write_data_bot [OF assms(1), of ?w1 "us_tag dev" "unat s" ?N "[]" ?len buffer "unat ss" h 0 ?m1] l0 len assms(9)
    unfolding eq by auto
  have wi: "w\<lparr> bt_phase := Bot_Idle \<rparr> = w" using assms(2) by (cases w) simp
  have w2: "w\<lparr> bt_phase := Bot_Status (us_tag dev), bt_disk := ?disk \<rparr>\<lparr> bt_phase := Bot_Idle \<rparr> = w\<lparr> bt_disk := ?disk \<rparr>"
    using assms(2) by (cases w) simp
  obtain m3 where csw: "read_csw (bot_usb (unat ss)) (Some h) dev m2 (w\<lparr> bt_phase := Bot_Status (us_tag dev), bt_disk := ?disk \<rparr>)
      = Some ((0, Some (bt_status w, 0), dev\<lparr> us_tag := us_tag dev + 1 \<rparr>), m3, w\<lparr> bt_disk := ?disk \<rparr>)"
    and f3: "\<And>x. \<not> unat (x - ?b) < 4096 \<Longrightarrow> m3 x = m2 x"
    using csw_bot [OF assms(1), of "w\<lparr> bt_phase := Bot_Status (us_tag dev), bt_disk := ?disk \<rparr>" "unat ss" h m2] unfolding w2 by auto
  have send: "send_cbw (bot_usb (unat ss)) (Some h) dev lun ?len CBW_OUT ?cb m w = Some ((0, dev), ?m1, ?w1)"
    using send_cbw_bot [OF assms(1) rw_cmd_length(1) rw_cmd_length(2) assms(2), where ss = "unat ss" and h = h and lun = lun
      and len = ?len and flags = CBW_OUT and m = m]
    by (simp add: bot_command_write [OF assms(7)])
  have "USBStorage_Write (bot_usb (unat ss)) (Some h) dev lun s n buffer m w
      = Some ((0, dev\<lparr> us_tag := us_tag dev + 1 \<rparr>), m3, w\<lparr> bt_disk := ?disk \<rparr>)"
    using assms(3-6) send wd r' csw
    by (simp add: USBStorage_Write_def rw_sectors_def cycle_def cycle_once_def numeral_eq_Suc not_le)
  moreover have "unat (x - ?b) < 4096 \<or> m3 x = m x" for x using fr [of x] f2 [of x] f3 [of x] by (cases "unat (x - ?b) < 4096") simp_all
  ultimately show ?thesis by (intro exI [of _ m3]) simp
qed

section \<open>The driver as a sector driver\<close>

definition usb_usable :: "u32 \<Rightarrow> u8 \<Rightarrow> usbstorage_handle \<times> memory \<times> bot \<Rightarrow> bool" where
  "usb_usable ss lun d \<longleftrightarrow> (case d of (dev, m, w) \<Rightarrow>
     handle_ok dev \<and> (bt_phase w = Bot_Idle \<and> bt_status w = 0 \<and> bt_faults w = 0) \<and> lun < us_max_lun dev
     \<and> (\<exists>p arr. us_sector_size dev = Some (p, arr) \<and> rd arr (unat lun) = Some ss) \<and> ss \<noteq> 0
     \<and> (\<forall>i. length (bt_disk w i) = unat ss))"

definition usb_fits :: "u32 \<Rightarrow> usbstorage_handle \<times> memory \<times> bot \<Rightarrow> nat \<Rightarrow> nat \<Rightarrow> u32 \<Rightarrow> bool" where
  "usb_fits ss d s n b \<longleftrightarrow> s < 4294967296 \<and> 0 < n \<and> n < 65536 \<and> n * unat ss < 4294967296
     \<and> off_buffer (us_buffer (fst d)) b (n * unat ss)"

definition usb_transfer ::
  "(usbstorage_handle \<Rightarrow> u8 \<Rightarrow> u32 \<Rightarrow> u16 \<Rightarrow> u32 \<Rightarrow> memory \<Rightarrow> bot \<Rightarrow> (s32 \<times> usbstorage_handle, bot) usb_result)
    \<Rightarrow> u8 \<Rightarrow> nat \<Rightarrow> nat \<Rightarrow> u32 \<Rightarrow> usbstorage_handle \<times> memory \<times> bot \<Rightarrow> (usbstorage_handle \<times> memory \<times> bot) option"
where
  "usb_transfer f lun s n b d =
     (case d of (dev, m, w) \<Rightarrow>
        case f dev lun (of_nat s) (of_nat n) b m w of
          Some ((r, dev'), m', w') \<Rightarrow> if r = 0 then Some (dev', m', w') else None
        | None \<Rightarrow> None)"

text \<open>What the two conditions say of the words the driver is called with.\<close>

lemma usb_request:
  assumes "usb_usable ss lun (dev, m, w)" and "usb_fits ss (dev, m, w) s n b"
  obtains p arr where "handle_ok dev" "bt_phase w = Bot_Idle \<and> bt_status w = 0 \<and> bt_faults w = 0" "lun < us_max_lun dev"
    "us_sector_size dev = Some (p, arr)" "rd arr (unat lun) = Some ss" "ss \<noteq> 0" "\<And>i. length (bt_disk w i) = unat ss"
    "unat (of_nat n :: u16) * unat ss < 4294967296" "off_buffer (us_buffer dev) b (unat (of_nat n :: u16) * unat ss)"
    "unat (of_nat n :: u16) = n" "(of_nat n :: u16) \<noteq> 0" "unat (of_nat s :: u32) = s"
    "handle_ok (dev\<lparr> us_tag := us_tag dev + 1 \<rparr>)"
proof -
  have n: "unat (of_nat n :: u16) = n" "(of_nat n :: u16) \<noteq> 0" and s: "unat (of_nat s :: u32) = s"
    using assms(2) by (auto simp: usb_fits_def unat_of_nat_u32 unat_of_nat_u16 simp flip: unat_eq_0)
  have ok: "handle_ok (dev\<lparr> us_tag := us_tag dev + 1 \<rparr>)" using assms(1) by (simp add: usb_usable_def handle_ok_def)
  from assms(1) obtain p arr where "handle_ok dev" "bt_phase w = Bot_Idle \<and> bt_status w = 0 \<and> bt_faults w = 0" "lun < us_max_lun dev"
    "us_sector_size dev = Some (p, arr)" "rd arr (unat lun) = Some ss" "ss \<noteq> 0" "\<And>i. length (bt_disk w i) = unat ss"
    by (auto simp: usb_usable_def)
  then show ?thesis using assms(2) n s ok by (intro that [of p arr]) (simp_all add: usb_fits_def)
qed

lemma read_placed:
  assumes "usb_usable ss lun (dev, m, w)" and "unat n * unat ss < 4294967296"
    and "off_buffer (us_buffer dev) buffer (unat n * unat ss)"
  shows "\<exists>m'. USBStorage_Read (bot_usb (unat ss)) (Some h) dev lun s n buffer m w = Some ((0, dev\<lparr> us_tag := us_tag dev + 1 \<rparr>), m', w)
    \<and> placed (us_buffer dev) m m' buffer (sectors (bt_disk w) (unat s) (unat n))"
proof -
  obtain p arr where u: "handle_ok dev" "bt_phase w = Bot_Idle \<and> bt_status w = 0 \<and> bt_faults w = 0" "lun < us_max_lun dev"
    "us_sector_size dev = Some (p, arr)" "rd arr (unat lun) = Some ss" "ss \<noteq> 0" "\<And>i. length (bt_disk w i) = unat ss"
    using assms(1) by (auto simp: usb_usable_def)
  have len: "length (sectors (bt_disk w) (unat s) (unat n)) = unat n * unat ss" by (rule length_sectors [OF u(7)])
  from read_bot [OF u assms(2,3), where h = h and s = s and m = m] obtain m' where
    m': "USBStorage_Read (bot_usb (unat ss)) (Some h) dev lun s n buffer m w = Some ((0, dev\<lparr> us_tag := us_tag dev + 1 \<rparr>), m', w)"
    "\<forall>i < unat n * unat ss. m' (buffer + of_nat i) = sectors (bt_disk w) (unat s) (unat n) ! i"
    "\<forall>x. unat (x - buffer) < unat n * unat ss \<or> unat (x - us_buffer dev) < 4096 \<or> m' x = m x" by blast
  have "placed (us_buffer dev) m m' buffer (sectors (bt_disk w) (unat s) (unat n))"
    by (rule filledI) (use m'(2,3) len in simp_all)
  then show ?thesis using m'(1) by blast
qed

lemma usb_reads:
  assumes "usb_usable ss lun (dev, m, w)" and "usb_fits ss (dev, m, w) s n b"
  shows "\<exists>m'. usb_transfer (USBStorage_Read (bot_usb (unat ss)) (Some h)) lun s n b (dev, m, w) = Some (dev\<lparr> us_tag := us_tag dev + 1 \<rparr>, m', w)
    \<and> usb_usable ss lun (dev\<lparr> us_tag := us_tag dev + 1 \<rparr>, m', w) \<and> rdm m' b (n * unat ss) = sectors (bt_disk w) s n"
proof (rule usb_request [OF assms])
  fix p arr
  assume u: "handle_ok dev" "bt_phase w = Bot_Idle \<and> bt_status w = 0 \<and> bt_faults w = 0" "lun < us_max_lun dev"
    "us_sector_size dev = Some (p, arr)" "rd arr (unat lun) = Some ss" "ss \<noteq> 0" "\<And>i. length (bt_disk w i) = unat ss"
    "unat (of_nat n :: u16) * unat ss < 4294967296" "off_buffer (us_buffer dev) b (unat (of_nat n :: u16) * unat ss)"
    and n: "unat (of_nat n :: u16) = n" and s: "unat (of_nat s :: u32) = s" and ok: "handle_ok (dev\<lparr> us_tag := us_tag dev + 1 \<rparr>)"
  from read_bot [OF u, where h = h and s = "of_nat s" and m = m, unfolded n s] obtain m' where
    r: "USBStorage_Read (bot_usb (unat ss)) (Some h) dev lun (of_nat s) (of_nat n) b m w = Some ((0, dev\<lparr> us_tag := us_tag dev + 1 \<rparr>), m', w)"
    "\<forall>i < n * unat ss. m' (b + of_nat i) = sectors (bt_disk w) s n ! i" by blast
  have "rdm m' b (n * unat ss) = sectors (bt_disk w) s n"
    by (rule nth_equalityI) (use r(2) length_sectors [OF u(7)] in \<open>simp_all add: rdm_def\<close>)
  then show ?thesis using r(1) u ok by (intro exI [of _ m']) (simp add: usb_transfer_def usb_usable_def)
qed

lemma usb_writes:
  assumes "usb_usable ss lun (dev, m, w)" and "usb_fits ss (dev, m, w) s n b"
  defines "w' \<equiv> w\<lparr> bt_disk := store_sectors (unat ss) s (rdm m b (n * unat ss)) (bt_disk w) \<rparr>"
  shows "\<exists>m'. usb_transfer (USBStorage_Write (bot_usb (unat ss)) (Some h)) lun s n b (dev, m, w) = Some (dev\<lparr> us_tag := us_tag dev + 1 \<rparr>, m', w')
    \<and> usb_usable ss lun (dev\<lparr> us_tag := us_tag dev + 1 \<rparr>, m', w')"
proof (rule usb_request [OF assms(1,2)])
  fix p arr
  assume u: "handle_ok dev" "bt_phase w = Bot_Idle \<and> bt_status w = 0 \<and> bt_faults w = 0" "lun < us_max_lun dev"
    "us_sector_size dev = Some (p, arr)" "rd arr (unat lun) = Some ss" "ss \<noteq> 0" "\<And>i. length (bt_disk w i) = unat ss"
    "unat (of_nat n :: u16) * unat ss < 4294967296" "off_buffer (us_buffer dev) b (unat (of_nat n :: u16) * unat ss)"
    "(of_nat n :: u16) \<noteq> 0"
    and n: "unat (of_nat n :: u16) = n" and s: "unat (of_nat s :: u32) = s" and ok: "handle_ok (dev\<lparr> us_tag := us_tag dev + 1 \<rparr>)"
  from write_bot [OF u(1) conjunct1 [OF u(2)] u(3-6,10,8,9), where h = h and s = "of_nat s" and m = m, unfolded n s] obtain m' where
    r: "USBStorage_Write (bot_usb (unat ss)) (Some h) dev lun (of_nat s) (of_nat n) b m w = Some ((0, dev\<lparr> us_tag := us_tag dev + 1 \<rparr>), m', w')"
    unfolding w'_def by blast
  have "length (bt_disk w' i) = unat ss" for i
    using length_store_sectors [where n = n and disk = "bt_disk w"] u(6,7) by (simp add: w'_def unat_gt_0)
  then show ?thesis using r u ok by (intro exI [of _ m']) (simp add: usb_transfer_def usb_usable_def w'_def)
qed

interpretation usb: sector_driver "unat ss" "usb_usable ss lun" "usb_fits ss" "\<lambda>d. fst (snd d)" "\<lambda>d. bt_disk (snd (snd d))"
    "usb_transfer (USBStorage_Read (bot_usb (unat ss)) (Some h)) lun" "usb_transfer (USBStorage_Write (bot_usb (unat ss)) (Some h)) lun"
  for ss :: u32 and lun :: u8 and h :: usbv5_host
proof
  fix d s n b
  assume u: "usb_usable ss lun d"
  obtain dev m w where d: "d = (dev, m, w)" by (rule prod_cases3)
  show "0 < unat ss" using u by (simp add: usb_usable_def d unat_gt_0)
  assume f: "usb_fits ss d s n b"
  obtain m1 where r: "usb_transfer (USBStorage_Read (bot_usb (unat ss)) (Some h)) lun s n b d = Some (dev\<lparr> us_tag := us_tag dev + 1 \<rparr>, m1, w)"
    "usb_usable ss lun (dev\<lparr> us_tag := us_tag dev + 1 \<rparr>, m1, w)" "rdm m1 b (n * unat ss) = sectors (bt_disk w) s n"
    using usb_reads [OF u [unfolded d] f [unfolded d], where h = h] unfolding d by (elim exE conjE)
  show "\<exists>d'. usb_transfer (USBStorage_Read (bot_usb (unat ss)) (Some h)) lun s n b d = Some d' \<and> usb_usable ss lun d'
      \<and> bt_disk (snd (snd d')) = bt_disk (snd (snd d)) \<and> rdm (fst (snd d')) b (n * unat ss) = sectors (bt_disk (snd (snd d))) s n"
    by (rule exI [of _ "(dev\<lparr> us_tag := us_tag dev + 1 \<rparr>, m1, w)"]) (use r in \<open>simp add: d\<close>)
  let ?w = "w\<lparr> bt_disk := store_sectors (unat ss) s (rdm m b (n * unat ss)) (bt_disk w) \<rparr>"
  obtain m2 where v: "usb_transfer (USBStorage_Write (bot_usb (unat ss)) (Some h)) lun s n b d = Some (dev\<lparr> us_tag := us_tag dev + 1 \<rparr>, m2, ?w)"
    "usb_usable ss lun (dev\<lparr> us_tag := us_tag dev + 1 \<rparr>, m2, ?w)"
    using usb_writes [OF u [unfolded d] f [unfolded d], where h = h] unfolding d by (elim exE conjE)
  show "\<exists>d'. usb_transfer (USBStorage_Write (bot_usb (unat ss)) (Some h)) lun s n b d = Some d' \<and> usb_usable ss lun d'
      \<and> usb_fits ss d' = usb_fits ss d
      \<and> bt_disk (snd (snd d')) = store_sectors (unat ss) s (rdm (fst (snd d)) b (n * unat ss)) (bt_disk (snd (snd d)))"
    by (rule exI [of _ "(dev\<lparr> us_tag := us_tag dev + 1 \<rparr>, m2, ?w)"]) (use v in \<open>simp add: d usb_fits_def [abs_def]\<close>)
qed

lemma usb_transfer_Some:
  assumes "usb_transfer f lun s n b (dev, m, w) = Some d'"
  obtains dev' m' w' where "d' = (dev', m', w')" "f dev lun (of_nat s) (of_nat n) b m w = Some ((0, dev'), m', w')"
  using assms by (auto simp: usb_transfer_def split: option.splits if_splits)

section \<open>A transfer that stalls\<close>

lemma bulk_bot_stall:
  assumes "a AND 31 = 0" and "a \<noteq> 0" and "len \<noteq> 0" and "bot_bulk ss ep a (unat len) m w = (r, m', w')" and "r < 0"
    and "find_dev (us_fd dev) (attached_devices h) = Some j"
  shows "USB_BlkMsgTimeout (bot_usb ss) (Some h) dev ep len a m w = Some (r, m', w')"
  using assms
  by (simp add: USB_BlkMsgTimeout_def USB_WriteBlkMsg_def usb_interrupt_bulk_message_def bot_usb_def bulk_msg_endpoint
        USB_CancelEndpoint_def dev_request_def USB_FindDevice_def)

lemma read_chunk_stall:
  assumes "handle_ok dev" and "bt_phase w = Bot_In tag bs" and "len \<noteq> 0" and "bt_faults w = Suc f"
    and "find_dev (us_fd dev) (attached_devices h) = Some j"
  shows "read_chunk (bot_usb ss) (Some h) dev len buffer m w = Some (-7004, m, w\<lparr> bt_faults := f \<rparr>)"
proof -
  have "bot_bulk ss (us_ep_in dev) a (unat (ucast (this_len len) :: u16)) m w = (-7004, m, w\<lparr> bt_faults := f \<rparr>)" for a
    using assms(1,2,4) by (simp add: bot_bulk_def handle_ok_def)
  note blk = bulk_bot_stall [OF _ _ this_len_bounds(5) [OF assms(3)] this _ assms(5)]
  show ?thesis
    using blk [of "us_buffer dev"] blk [of buffer] assms(1)
    by (cases "bounced buffer"; cases "buffer = 0") (auto simp: read_chunk_def handle_ok_def bounced_def)
qed

lemma fail_reset_bot: "fail_reset (bot_usb ss) (Some h) r c m w = Some ((r, c), m, w\<lparr> bt_phase := Bot_Idle \<rparr>)"
  by (simp add: fail_reset_def usbstorage_reset_def USB_CtrlMsgTimeout_def USB_WriteCtrlMsg_def usb_control_message_def bot_usb_def)

text \<open>A turn that stalls leaves the place for the next one before the buffer.\<close>

lemma cycle_once_stall:
  assumes "handle_ok (cy_dev c)" and "cb \<noteq> []" and "length cb \<le> 16" and "bt_phase w = Bot_Idle"
    and "bot_command ss w (cbw_bytes (us_tag (cy_dev c)) (cy_len c) CBW_IN lun cb) = Bot_In tag bs" and "cy_len c \<noteq> 0"
    and "bt_faults w = Suc f" and "find_dev (us_fd (cy_dev c)) (attached_devices h) = Some j"
  shows "cycle_once (bot_usb ss) (Some h) lun cb False c m w
    = Some ((-7004, c\<lparr> cy_len := cy_len c + 7004, cy_buffer := cy_buffer c - 7004 \<rparr>),
        wr m (us_buffer (cy_dev c)) (cbw_bytes (us_tag (cy_dev c)) (cy_len c) CBW_IN lun cb), w\<lparr> bt_faults := f \<rparr>)"
proof -
  let ?cbw = "cbw_bytes (us_tag (cy_dev c)) (cy_len c) CBW_IN lun cb"
  let ?m = "wr m (us_buffer (cy_dev c)) ?cbw" and ?w = "w\<lparr> bt_phase := Bot_In tag bs \<rparr>"
  have c: "c\<lparr> cy_dev := cy_dev c \<rparr> = c" by simp
  have "read_chunk (bot_usb ss) (Some h) (cy_dev c) (cy_len c) (cy_buffer c) ?m ?w = Some (-7004, ?m, ?w\<lparr> bt_faults := f \<rparr>)"
    by (rule read_chunk_stall [OF assms(1)]) (use assms(6-8) in simp_all)
  moreover have "uint (this_len (cy_len c)) \<noteq> -7004" using uint_nonnegative [of "this_len (cy_len c)"] by linarith
  ultimately have rd: "read_data (bot_usb ss) (Some h) (cy_dev c) 0 (cy_len c) (cy_buffer c) ?m ?w
      = Some ((-7004, cy_len c + 7004, cy_buffer c - 7004), ?m, ?w\<lparr> bt_faults := f \<rparr>)"
    using assms(6) by (subst read_data.simps) simp
  have wi: "w\<lparr> bt_faults := f, bt_phase := Bot_Idle \<rparr> = w\<lparr> bt_faults := f \<rparr>" using assms(4) by (cases w) simp
  show ?thesis
    using send_cbw_bot [OF assms(1-4), of ss h lun "cy_len c" CBW_IN m] assms(5) rd wi
    by (simp add: cycle_once_def fail_reset_bot)
qed

section \<open>Properties\<close>

text \<open>
  C7. A read returns the sectors of the drive: whatever the alignment and the place of the buffer and in as
  many transfers as it takes, the bytes of the buffer are those of the sectors asked for, and nothing else in memory
  changes but the transfer buffer of the handle.
\<close>

theorem usb_read_refines_disk:
  assumes "handle_ok dev" and "bt_phase w = Bot_Idle \<and> bt_status w = 0 \<and> bt_faults w = 0" and "lun < us_max_lun dev"
    and "us_sector_size dev = Some (p, arr)" and "rd arr (unat lun) = Some ss" and "ss \<noteq> 0" and "\<And>i. length (bt_disk w i) = unat ss"
    and "unat n * unat ss < 4294967296" and "off_buffer (us_buffer dev) buffer (unat n * unat ss)"
  shows "\<exists>m'. USBStorage_Read (bot_usb (unat ss)) (Some h) dev lun s n buffer m w
      = Some ((0, dev\<lparr> us_tag := us_tag dev + 1 \<rparr>), m', w)
    \<and> (\<forall>i < unat n * unat ss. m' (buffer + of_nat i) = sectors (bt_disk w) (unat s) (unat n) ! i)
    \<and> (\<forall>x. unat (x - buffer) < unat n * unat ss \<or> unat (x - us_buffer dev) < 4096 \<or> m' x = m x)"
  by (rule read_bot [OF assms])

text \<open>A handle on a drive of sectors of 512 bytes, each of which holds its number.\<close>

definition demo_handle :: usbstorage_handle where
  "demo_handle = handle_zero\<lparr> us_ep_in := 0x81, us_ep_out := 0x02, us_max_lun := 1, us_sector_size := Some (0x13A02000, [512]),
     us_fd := 77, us_tag := TAG_START, us_buffer := 0x13A03000 \<rparr>"

definition demo_drive :: bot where
  "demo_drive = \<lparr> bt_phase = Bot_Idle, bt_disk = (\<lambda>i. replicate 512 (of_nat i)), bt_status = 0, bt_faults = 0 \<rparr>"

definition demo_host :: usbv5_host where
  "demo_host = host_zero\<lparr> attached_devices := \<lparr> de_id = 77, de_vid = 1, de_pid = 2, de_token = 3 \<rparr> # replicate 31 no_entry \<rparr>"

lemma demo_handle_ok: "handle_ok demo_handle"
  by (simp add: handle_ok_def demo_handle_def handle_zero_def)

lemma demo_sectors: "sectors (bt_disk demo_drive) 7 3 ! 600 = 8"
  by (simp add: sectors_def demo_drive_def upt_rec nth_append)

lemma off_bufferI: "unat a + n \<le> unat dbuf \<Longrightarrow> unat dbuf + 4096 \<le> 4294967296 \<Longrightarrow> off_buffer dbuf a n"
  unfolding off_buffer_def by (blast dest: places_apart)

theorem usb_read_refines_disk_witness:
  "\<exists>m'. USBStorage_Read (bot_usb 512) (Some demo_host) demo_handle 0 7 3 0x12000005 (\<lambda>_. 9) demo_drive
      = Some ((0, demo_handle\<lparr> us_tag := us_tag demo_handle + 1 \<rparr>), m', demo_drive)
    \<and> m' (0x12000005 + of_nat 600) = 8"
proof -
  have ss: "us_sector_size demo_handle = Some (0x13A02000, [512])" by (simp add: demo_handle_def)
  have ob: "off_buffer (us_buffer demo_handle) 0x12000005 (unat (3 :: u16) * unat (512 :: u32))"
    by (rule off_bufferI) (simp_all add: demo_handle_def)
  have d: "length (bt_disk demo_drive i) = unat (512 :: u32)" for i by (simp add: demo_drive_def)
  have "\<exists>m'. USBStorage_Read (bot_usb (unat (512 :: u32))) (Some demo_host) demo_handle 0 7 3 0x12000005 (\<lambda>_. 9) demo_drive
      = Some ((0, demo_handle\<lparr> us_tag := us_tag demo_handle + 1 \<rparr>), m', demo_drive)
    \<and> (\<forall>i < unat (3 :: u16) * unat (512 :: u32). m' (0x12000005 + of_nat i) = sectors (bt_disk demo_drive) (unat (7 :: u32)) (unat (3 :: u16)) ! i)
    \<and> (\<forall>x. unat (x - 0x12000005) < unat (3 :: u16) * unat (512 :: u32) \<or> unat (x - us_buffer demo_handle) < 4096 \<or> m' x = 9)"
    by (rule usb_read_refines_disk [OF demo_handle_ok _ _ ss _ _ d _ ob]) (simp_all add: demo_drive_def demo_handle_def)
  then obtain m' where m': "USBStorage_Read (bot_usb 512) (Some demo_host) demo_handle 0 7 3 0x12000005 (\<lambda>_. 9) demo_drive
      = Some ((0, demo_handle\<lparr> us_tag := us_tag demo_handle + 1 \<rparr>), m', demo_drive)"
    "\<forall>i < 1536. m' (0x12000005 + of_nat i) = sectors (bt_disk demo_drive) 7 3 ! i" by auto
  show ?thesis using m'(1) m'(2) [rule_format, of 600] demo_sectors by (intro exI [of _ m']) simp
qed

text \<open>
  C16. A command that the drive refuses is reported as done: when the drive answers a read with no data and a failure
  in the status wrapper, the driver returns success and the buffer keeps what it held.
\<close>

theorem usb_failed_read_reported_ok:
  assumes "handle_ok dev" and "bt_phase w = Bot_Idle \<and> bt_status w \<noteq> 0 \<and> bt_faults w = 0" and "lun < us_max_lun dev"
    and "us_sector_size dev = Some (p, arr)" and "rd arr (unat lun) = Some ss" and "ss \<noteq> 0"
    and "ucast n * ss \<noteq> 0"
  shows "\<exists>m'. USBStorage_Read (bot_usb k) (Some h) dev lun s n buffer m w
      = Some ((0, dev\<lparr> us_tag := us_tag dev + 1 \<rparr>), m', w)
    \<and> (\<forall>x. unat (x - us_buffer dev) < 4096 \<or> m' x = m x)"
proof -
  let ?b = "us_buffer dev" and ?len = "ucast n * ss" and ?cb = "rw_cmd 0x28 lun s n"
  let ?c = "\<lparr> cy_len = ?len, cy_buffer = buffer, cy_status = 0, cy_residue = 0, cy_dev = dev \<rparr>"
  let ?m1 = "wr m ?b (cbw_bytes (us_tag dev) ?len CBW_IN lun ?cb)" and ?w = "w\<lparr> bt_phase := Bot_In (us_tag dev) [] \<rparr>"
  obtain m2 where ch: "read_chunk (bot_usb k) (Some h) dev ?len buffer ?m1 ?w
      = Some (0, m2, w\<lparr> bt_phase := Bot_Status (us_tag dev) \<rparr>)" and p2: "placed ?b ?m1 m2 buffer []"
    using read_chunk_bot [OF assms(1), of ?w "us_tag dev" "[]" ?len buffer k h ?m1] assms(2,7)
    by (auto simp: bot_data_in_def off_buffer_def)
  have nz: "this_len ?len \<noteq> 0" using this_len_bounds(3) [OF assms(7)] by auto
  have rd: "read_data (bot_usb k) (Some h) dev 0 ?len buffer ?m1 ?w = Some ((0, ?len, buffer), m2, w\<lparr> bt_phase := Bot_Status (us_tag dev) \<rparr>)"
    using assms(7) ch nz by (subst read_data.simps) (simp add: unsigned_eq_0_iff)
  have wi: "w\<lparr> bt_phase := Bot_Idle \<rparr> = w" using assms(2) by (cases w) simp
  obtain m3 c3 where once: "cycle_once (bot_usb k) (Some h) lun ?cb False ?c m w = Some ((0, c3), m3, w)"
    and c3: "cy_dev c3 = dev\<lparr> us_tag := us_tag dev + 1 \<rparr>" and f3: "\<And>x. \<not> unat (x - ?b) < 4096 \<Longrightarrow> m3 x = m2 x"
    using cycle_once_read [of ?c ?cb w k h m lun 0 ?len buffer m2 "w\<lparr> bt_phase := Bot_Status (us_tag dev) \<rparr>"]
      assms(1,2) rw_cmd_length rd wi by (auto simp: bot_command_read)
  have "USBStorage_Read (bot_usb k) (Some h) dev lun s n buffer m w = Some ((0, dev\<lparr> us_tag := us_tag dev + 1 \<rparr>), m3, w)"
    using assms(3-6) once c3
    by (simp add: USBStorage_Read_def rw_sectors_def cycle_def numeral_eq_Suc not_le)
  moreover have "unat (x - ?b) < 4096 \<or> m3 x = m x" for x
    using placed_outside [OF p2 cbw_frame [OF rw_cmd_length(2)] f3, where x = x] by simp
  ultimately show ?thesis by (intro exI [of _ m3]) simp
qed

theorem usb_failed_read_reported_ok_witness:
  "\<exists>m'. USBStorage_Read (bot_usb 512) (Some demo_host) demo_handle 0 7 3 0x12000005 (\<lambda>_. 9) (demo_drive\<lparr> bt_status := 1 \<rparr>)
      = Some ((0, demo_handle\<lparr> us_tag := us_tag demo_handle + 1 \<rparr>), m', demo_drive\<lparr> bt_status := 1 \<rparr>)
    \<and> (\<forall>x. unat (x - us_buffer demo_handle) < 4096 \<or> m' x = 9)"
proof -
  have ss: "us_sector_size demo_handle = Some (0x13A02000, [512])" by (simp add: demo_handle_def)
  show ?thesis
    by (rule usb_failed_read_reported_ok [OF demo_handle_ok _ _ ss, where ss = 512]) (simp_all add: demo_drive_def demo_handle_def)
qed

text \<open>
  C14. What is written is read back: after a write of some sectors, a read of the same sectors into any other buffer
  leaves the bytes of the first buffer in the second, and the sectors of the drive outside them are as before.
\<close>

theorem usb_write_read_roundtrip:
  assumes "handle_ok dev" and "bt_phase w = Bot_Idle \<and> bt_status w = 0 \<and> bt_faults w = 0" and "lun < us_max_lun dev"
    and "us_sector_size dev = Some (p, arr)" and "rd arr (unat lun) = Some ss" and "ss \<noteq> 0" and "\<And>i. length (bt_disk w i) = unat ss"
    and "n \<noteq> 0" and "unat n * unat ss < 4294967296"
    and "off_buffer (us_buffer dev) a (unat n * unat ss)" and "off_buffer (us_buffer dev) b (unat n * unat ss)"
  shows "\<exists>dev1 m1 w1 dev2 m2 w2. USBStorage_Write (bot_usb (unat ss)) (Some h) dev lun s n a m w = Some ((0, dev1), m1, w1)
    \<and> USBStorage_Read (bot_usb (unat ss)) (Some h) dev1 lun s n b m1 w1 = Some ((0, dev2), m2, w2)
    \<and> bt_disk w2 = bt_disk w1 \<and> (\<forall>i < unat n * unat ss. m2 (b + of_nat i) = m (a + of_nat i))
    \<and> (\<forall>i. i < unat s \<or> unat s + unat n \<le> i \<longrightarrow> bt_disk w1 i = bt_disk w i)"
proof -
  have u: "usb_usable ss lun (dev, m, w)" using assms(1-7) by (simp add: usb_usable_def)
  have len: "unat n * unat ss < 4294967296" "unat s < 4294967296" "0 < unat n" "unat n < 65536"
    using assms(8,9) unsigned_less [of s] unsigned_less [of n] by (simp_all add: unat_gt_0)
  have fits: "usb_fits ss (dev, m, w) (unat s) (unat n) a" "usb_fits ss (dev, m, w) (unat s) (unat n) b"
    using len assms(10,11) by (simp_all add: usb_fits_def)
  obtain d1 d2 where
    d: "usb_transfer (USBStorage_Write (bot_usb (unat ss)) (Some h)) lun (unat s) (unat n) a (dev, m, w) = Some d1"
       "usb_transfer (USBStorage_Read (bot_usb (unat ss)) (Some h)) lun (unat s) (unat n) b d1 = Some d2"
    and bytes: "rdm (fst (snd d2)) b (unat n * unat ss) = rdm m a (unat n * unat ss)" "bt_disk (snd (snd d2)) = bt_disk (snd (snd d1))"
      "\<forall>i. i < unat s \<or> unat s + unat n \<le> i \<longrightarrow> bt_disk (snd (snd d1)) i = bt_disk w i"
    using usb.write_then_read [OF u fits, where h = h] unfolding fst_conv snd_conv by (elim exE conjE)
  from d(1) obtain dev1 m1 w1 where 1: "d1 = (dev1, m1, w1)" "USBStorage_Write (bot_usb (unat ss)) (Some h) dev lun s n a m w = Some ((0, dev1), m1, w1)"
    by (rule usb_transfer_Some) simp
  from d(2) [unfolded 1(1)] obtain dev2 m2 w2 where 2: "d2 = (dev2, m2, w2)" "USBStorage_Read (bot_usb (unat ss)) (Some h) dev1 lun s n b m1 w1 = Some ((0, dev2), m2, w2)"
    by (rule usb_transfer_Some) simp
  have "m2 (b + of_nat i) = m (a + of_nat i)" if "i < unat n * unat ss" for i
    using arg_cong [OF bytes(1), of "\<lambda>bs. bs ! i"] that unfolding 2(1) by (simp add: rdm_def)
  then show ?thesis using 1 2 bytes(2,3) by (intro exI conjI) (assumption | simp)+
qed

theorem usb_write_read_roundtrip_witness:
  "\<exists>dev1 m1 w1 dev2 m2 w2. USBStorage_Write (bot_usb 512) (Some demo_host) demo_handle 0 7 3 0x12000005 (\<lambda>x. ucast x) demo_drive = Some ((0, dev1), m1, w1)
    \<and> USBStorage_Read (bot_usb 512) (Some demo_host) dev1 0 7 3 0x12004000 m1 w1 = Some ((0, dev2), m2, w2)
    \<and> m2 (0x12004000 + of_nat 1000) = 0xED \<and> bt_disk w1 10 = replicate 512 10"
proof -
  have ss: "us_sector_size demo_handle = Some (0x13A02000, [512])" by (simp add: demo_handle_def)
  have d: "length (bt_disk demo_drive i) = unat (512 :: u32)" for i by (simp add: demo_drive_def)
  have ob: "off_buffer (us_buffer demo_handle) a (unat (3 :: u16) * unat (512 :: u32))" if "a = 0x12000005 \<or> a = 0x12004000" for a
    using that by (auto intro!: off_bufferI simp: demo_handle_def)
  have "\<exists>dev1 m1 w1 dev2 m2 w2. USBStorage_Write (bot_usb (unat (512 :: u32))) (Some demo_host) demo_handle 0 7 3 0x12000005 (\<lambda>x. ucast x) demo_drive = Some ((0, dev1), m1, w1)
    \<and> USBStorage_Read (bot_usb (unat (512 :: u32))) (Some demo_host) dev1 0 7 3 0x12004000 m1 w1 = Some ((0, dev2), m2, w2)
    \<and> bt_disk w2 = bt_disk w1 \<and> (\<forall>i < unat (3 :: u16) * unat (512 :: u32). m2 (0x12004000 + of_nat i) = ucast (0x12000005 + of_nat i :: u32))
    \<and> (\<forall>i. i < unat (7 :: u32) \<or> unat (7 :: u32) + unat (3 :: u16) \<le> i \<longrightarrow> bt_disk w1 i = bt_disk demo_drive i)"
    by (rule usb_write_read_roundtrip [OF demo_handle_ok _ _ ss _ _ d _ _ ob ob]) (simp_all add: demo_drive_def demo_handle_def)
  then obtain dev1 m1 w1 dev2 m2 w2 where
    r: "USBStorage_Write (bot_usb 512) (Some demo_host) demo_handle 0 7 3 0x12000005 (\<lambda>x. ucast x) demo_drive = Some ((0, dev1), m1, w1)"
      "USBStorage_Read (bot_usb 512) (Some demo_host) dev1 0 7 3 0x12004000 m1 w1 = Some ((0, dev2), m2, w2)"
    and m: "\<forall>i < 1536. m2 (0x12004000 + of_nat i) = ucast (0x12000005 + of_nat i :: u32)"
    and d: "\<forall>i. i < 7 \<or> 10 \<le> i \<longrightarrow> bt_disk w1 i = bt_disk demo_drive i" by auto
  have "m2 (0x12004000 + of_nat 1000) = 0xED" using m [rule_format, of 1000] by simp
  moreover have "bt_disk w1 10 = replicate 512 10" using d [rule_format, of 10] by (simp add: demo_drive_def)
  ultimately show ?thesis using r by (intro exI conjI)
qed

text \<open>
  C15. A read that is tried again after a stall writes before its buffer: the loop moves the buffer by the
  error it got, so that a read of less than one transfer (4096 bytes) whose first transfer stalls returns success at
  its second turn with the sectors 7004 bytes before the buffer that was passed, where that lies outside the
  transfer buffer of the driver. Nothing else changes but that transfer buffer.
\<close>

theorem usb_retry_writes_before_buffer:
  assumes "handle_ok dev" and "bt_phase w = Bot_Idle \<and> bt_status w = 0 \<and> bt_faults w = 1" and "lun < us_max_lun dev"
    and "us_sector_size dev = Some (p, arr)" and "rd arr (unat lun) = Some ss" and "ss \<noteq> 0" and "\<And>i. length (bt_disk w i) = unat ss"
    and "n \<noteq> 0" and "unat n * unat ss < 4096" and "find_dev (us_fd dev) (attached_devices h) = Some j"
    and "off_buffer (us_buffer dev) (buffer - 7004) (unat n * unat ss)"
  shows "\<exists>m'. USBStorage_Read (bot_usb (unat ss)) (Some h) dev lun s n buffer m w
      = Some ((0, dev\<lparr> us_tag := us_tag dev + 1 \<rparr>), m', w\<lparr> bt_faults := 0 \<rparr>)
    \<and> (\<forall>i < unat n * unat ss. m' (buffer - 7004 + of_nat i) = sectors (bt_disk w) (unat s) (unat n) ! i)
    \<and> (\<forall>x. unat (x - (buffer - 7004)) < unat n * unat ss \<or> unat (x - us_buffer dev) < 4096 \<or> m' x = m x)"
proof -
  let ?N = "unat n * unat ss" and ?bs = "sectors (bt_disk w) (unat s) (unat n)" and ?b = "us_buffer dev"
  let ?len = "ucast n * ss" and ?cb = "rw_cmd 0x28 lun s n" and ?to = "buffer - 7004" and ?w = "w\<lparr> bt_faults := 0 \<rparr>"
  let ?c = "\<lparr> cy_len = ?len, cy_buffer = buffer, cy_status = 0, cy_residue = 0, cy_dev = dev \<rparr>"
  let ?c1 = "?c\<lparr> cy_len := ?len + 7004, cy_buffer := ?to \<rparr>"
  let ?m1 = "wr m ?b (cbw_bytes (us_tag dev) ?len CBW_IN lun ?cb)"
  let ?m2 = "wr ?m1 ?b (cbw_bytes (us_tag dev) (?len + 7004) CBW_IN lun ?cb)"
  have len: "unat ?len = ?N" by (rule unat_read_len) (use assms(9) in linarith)
  have l0: "?len \<noteq> 0" using len assms(6,8) by (metis mult_eq_0_iff unsigned_eq_0_iff)
  have bs: "length ?bs = ?N" using assms(7) by (rule length_sectors)
  have bs0: "?bs \<noteq> []" using bs assms(6,8) by (auto simp: unat_eq_0)
  have "unat (?len + 7004) = ?N + 7004" by (subst unat_u32_add) (use len assms(9) in simp_all)
  then have l1: "?len + 7004 \<noteq> 0" "this_len (?len + 7004) = 4096"
    by (auto simp: this_len_def word_less_nat_alt simp flip: unat_eq_0)
  have once: "cycle_once (bot_usb (unat ss)) (Some h) lun ?cb False ?c m w = Some ((-7004, ?c1), ?m1, ?w)"
    by (rule cycle_once_stall [where bs = ?bs and tag = "us_tag dev" and f = 0, THEN trans])
      (use assms(1,2,10) rw_cmd_length l0 bs0 in \<open>simp_all add: bot_command_read bot_data_in_def\<close>)
  obtain m3 where ch: "read_chunk (bot_usb (unat ss)) (Some h) dev (?len + 7004) ?to ?m2 (?w\<lparr> bt_phase := Bot_In (us_tag dev) ?bs \<rparr>)
      = Some (int ?N, m3, ?w\<lparr> bt_phase := Bot_Status (us_tag dev) \<rparr>)" and p3: "placed ?b ?m2 m3 ?to ?bs"
    using read_chunk_bot [OF assms(1), of "?w\<lparr> bt_phase := Bot_In (us_tag dev) ?bs \<rparr>" "us_tag dev" ?bs "?len + 7004" ?to "unat ss" h ?m2]
      l1 bs assms(9,11) by (auto simp: bot_data_in_def)
  have i: "int ?N \<noteq> 4096" "int ?N \<noteq> -10008" using assms(9) by linarith+
  have rd: "read_data (bot_usb (unat ss)) (Some h) dev 0 (?len + 7004) ?to ?m2 (?w\<lparr> bt_phase := Bot_In (us_tag dev) ?bs \<rparr>)
      = Some ((int ?N, ?len + 7004 - of_nat ?N, ?to + of_nat ?N), m3, ?w\<lparr> bt_phase := Bot_Status (us_tag dev) \<rparr>)"
    using ch l1 i by (subst read_data.simps) simp
  have wi: "?w\<lparr> bt_phase := Bot_Idle \<rparr> = ?w" using assms(2) by (cases w) simp
  obtain m4 c4 where once2: "cycle_once (bot_usb (unat ss)) (Some h) lun ?cb False ?c1 ?m1 ?w = Some ((0, c4), m4, ?w)"
    and c4: "cy_dev c4 = dev\<lparr> us_tag := us_tag dev + 1 \<rparr>" and f4: "\<And>x. \<not> unat (x - ?b) < 4096 \<Longrightarrow> m4 x = m3 x"
    using cycle_once_read [of ?c1 ?cb ?w "unat ss" h ?m1 lun "int ?N" "?len + 7004 - of_nat ?N" "?to + of_nat ?N" m3
        "?w\<lparr> bt_phase := Bot_Status (us_tag dev) \<rparr>"] assms(1,2) rw_cmd_length rd wi bs0
    by (auto simp: bot_command_read bot_data_in_def)
  have "USBStorage_Read (bot_usb (unat ss)) (Some h) dev lun s n buffer m w = Some ((0, dev\<lparr> us_tag := us_tag dev + 1 \<rparr>), m4, ?w)"
    using assms(3-6) once once2 c4
    by (simp add: USBStorage_Read_def rw_sectors_def cycle_def numeral_eq_Suc not_le)
  moreover have "m4 (?to + of_nat i) = ?bs ! i" if "i < ?N" for i
    by (rule placed_at [OF p3 _ _ _ f4]) (use assms(9,11) bs that in simp_all)
  moreover have f2: "?m2 x = m x" if "\<not> unat (x - ?b) < 4096" for x
    using that by (simp add: cbw_frame [OF rw_cmd_length(2)])
  have "unat (x - ?to) < ?N \<or> unat (x - ?b) < 4096 \<or> m4 x = m x" for x
    using placed_outside [OF p3 f2 f4, where x = x] unfolding bs .
  ultimately show ?thesis by (intro exI [of _ m4]) simp
qed

theorem usb_retry_writes_before_buffer_witness:
  "\<exists>m'. USBStorage_Read (bot_usb 512) (Some demo_host) demo_handle 0 7 3 0x12004000 (\<lambda>_. 9) (demo_drive\<lparr> bt_faults := 1 \<rparr>)
      = Some ((0, demo_handle\<lparr> us_tag := us_tag demo_handle + 1 \<rparr>), m', demo_drive)
    \<and> m' (0x12004000 - 7004 + of_nat 600) = 8 \<and> m' 0x12004000 = 9"
proof -
  have ss: "us_sector_size demo_handle = Some (0x13A02000, [512])" by (simp add: demo_handle_def)
  have ob: "off_buffer (us_buffer demo_handle) (0x12004000 - 7004) (unat (3 :: u16) * unat (512 :: u32))"
    by (rule off_bufferI) (simp_all add: demo_handle_def)
  have "\<exists>m'. USBStorage_Read (bot_usb (unat (512 :: u32))) (Some demo_host) demo_handle 0 7 3 0x12004000 (\<lambda>_. 9) (demo_drive\<lparr> bt_faults := 1 \<rparr>)
      = Some ((0, demo_handle\<lparr> us_tag := us_tag demo_handle + 1 \<rparr>), m', demo_drive\<lparr> bt_faults := 1 \<rparr>\<lparr> bt_faults := 0 \<rparr>)
    \<and> (\<forall>i < unat (3 :: u16) * unat (512 :: u32). m' (0x12004000 - 7004 + of_nat i)
        = sectors (bt_disk (demo_drive\<lparr> bt_faults := 1 \<rparr>)) (unat (7 :: u32)) (unat (3 :: u16)) ! i)
    \<and> (\<forall>x. unat (x - (0x12004000 - 7004)) < unat (3 :: u16) * unat (512 :: u32) \<or> unat (x - us_buffer demo_handle) < 4096 \<or> m' x = 9)"
    by (rule usb_retry_writes_before_buffer [OF demo_handle_ok _ _ ss _ _ _ _ _ _ ob, where j = 0])
      (simp_all add: demo_drive_def demo_handle_def demo_host_def)
  then obtain m' where m': "USBStorage_Read (bot_usb 512) (Some demo_host) demo_handle 0 7 3 0x12004000 (\<lambda>_. 9) (demo_drive\<lparr> bt_faults := 1 \<rparr>)
      = Some ((0, demo_handle\<lparr> us_tag := us_tag demo_handle + 1 \<rparr>), m', demo_drive)"
    "\<forall>i < 1536. m' (0x12004000 - 7004 + of_nat i) = sectors (bt_disk demo_drive) 7 3 ! i"
    and f: "\<forall>x. unat (x - (0x12004000 - 7004)) < 1536 \<or> unat (x - us_buffer demo_handle) < 4096 \<or> m' x = 9"
    by (auto simp: demo_drive_def)
  have "m' (0x12004000 - 7004 + of_nat 600) = 8"
    using m'(2) [rule_format, of 600] demo_sectors by simp
  moreover have "unat (0x12004000 - (0x12004000 - 7004) :: u32) < 1536 \<or> unat (0x12004000 - us_buffer demo_handle) < 4096 \<or> m' 0x12004000 = 9"
    by (rule spec [OF f])
  then have "m' 0x12004000 = 9" by (simp add: demo_handle_def)
  ultimately show ?thesis using m'(1) by (intro exI conjI)
qed

end
