(* ===== verification/Ums_Disk.thy ===== *)
theory Ums_Disk
  imports Ums_Client Usb_Disk
begin

text \<open>
  The way from a request of a plugin to the drive: the client, the module and the mass storage driver together.
  Reads of any number of sectors return the sectors of the drive. The last properties state what the client is
  told when no drive is mounted, and what an unmount leaves behind.
\<close>

text \<open>The memory a read changes besides its buffer: the transfer buffer of the drive and the two words of the client.\<close>

definition side_area :: "u32 \<Rightarrow> u32 \<Rightarrow> u32 \<Rightarrow> u32 \<Rightarrow> bool" where
  "side_area dbuf b1 b2 x \<longleftrightarrow> unat (x - dbuf) < 4096 \<or> unat (x - b1) < 4 \<or> unat (x - b2) < 4"

definition off_side :: "u32 \<Rightarrow> u32 \<Rightarrow> u32 \<Rightarrow> u32 \<Rightarrow> nat \<Rightarrow> bool" where
  "off_side dbuf b1 b2 a n \<longleftrightarrow> (\<forall>x. unat (x - a) < n \<longrightarrow> \<not> side_area dbuf b1 b2 x)"

definition words_apart :: "u32 \<Rightarrow> u32 \<Rightarrow> bool" where
  "words_apart a b \<longleftrightarrow> (\<forall>x. unat (x - a) < 4 \<longrightarrow> \<not> unat (x - b) < 4)"

lemma off_sideI:
  assumes "unat a + n \<le> unat dbuf" "unat dbuf + 4096 \<le> 4294967296" "unat a + n \<le> unat b1" "unat b1 + 4 \<le> 4294967296"
    "unat a + n \<le> unat b2" "unat b2 + 4 \<le> 4294967296"
  shows "off_side dbuf b1 b2 a n"
  unfolding off_side_def side_area_def
  using places_apart [OF assms(1,2)] places_apart [OF assms(3,4)] places_apart [OF assms(5,6)] by blast

lemma off_side_buffer: "off_side dbuf b1 b2 a n \<Longrightarrow> off_buffer dbuf a n"
  by (auto simp: off_side_def side_area_def off_buffer_def)

lemma module_read:
  assumes "um_mounted g" and "um_host g = Some h" and "usb_usable ss (um_lun g) (um_usbfd g, m, w)"
    and "unat n < 65536" and "unat n * unat ss < 4294967296" and "off_buffer (us_buffer (um_usbfd g)) buffer (unat n * unat ss)"
  shows "\<exists>m'. usbstorage_ReadSectors (bot_usb (unat ss)) s n buffer (g, m, w)
      = Some (True, g\<lparr> um_usbfd := (um_usbfd g)\<lparr> us_tag := us_tag (um_usbfd g) + 1 \<rparr> \<rparr>, m', w)
    \<and> placed (us_buffer (um_usbfd g)) m m' buffer (sectors (bt_disk w) (unat s) (unat n))"
proof -
  have n: "unat (ucast n :: u16) = unat n" using assms(4) by (simp add: unsigned_ucast_eq take_bit_nat_eq_self)
  from read_placed [OF assms(3), where n = "ucast n" and h = h and s = s and buffer = buffer, unfolded n, OF assms(5,6)]
  show ?thesis using assms(1,2) by (auto simp: usbstorage_ReadSectors_def)
qed

text \<open>One request of the client. The module finds the sector and the number in the words the client stored.\<close>

lemma client_request:
  assumes "um_mounted g" and "um_host g = Some h" and "usb_usable ss (um_lun g) (um_usbfd g, m, w)"
    and "unat n < 65536" and "unat n * unat ss < 4294967296" and "off_side (us_buffer (um_usbfd g)) b1 b2 buffer (unat n * unat ss)"
    and "words_apart b1 b2" and "0 \<le> uc_fd c" and "uc_fd c \<noteq> SDHC_FD"
  shows "\<exists>m'. client_Read_Write (module_os (bot_usb (unat ss)) K H mload b1 b2) False s n buffer (c, m, g, sd, w)
      = Some (True, c, m', g\<lparr> um_usbfd := (um_usbfd g)\<lparr> us_tag := us_tag (um_usbfd g) + 1 \<rparr> \<rparr>, sd, w)
    \<and> filled (side_area (us_buffer (um_usbfd g)) b1 b2) m m' buffer (sectors (bt_disk w) (unat s) (unat n))"
proof -
  let ?E = "side_area (us_buffer (um_usbfd g)) b1 b2" and ?m = "store32 (store32 m b1 s) b2 n"
  have u: "usb_usable ss (um_lun g) (um_usbfd g, ?m, w)" using assms(3) by (simp add: usb_usable_def)
  obtain m' where r: "usbstorage_ReadSectors (bot_usb (unat ss)) s n buffer (g, ?m, w)
      = Some (True, g\<lparr> um_usbfd := (um_usbfd g)\<lparr> us_tag := us_tag (um_usbfd g) + 1 \<rparr> \<rparr>, m', w)"
    and p: "placed (us_buffer (um_usbfd g)) ?m m' buffer (sectors (bt_disk w) (unat s) (unat n))"
    using module_read [OF assms(1,2) u assms(4,5) off_side_buffer [OF assms(6)], where s = s] by (elim exE conjE)
  have "load32 ?m b1 = load32 (store32 m b1 s) b1"
    by (rule load32_other) (use assms(7) in \<open>simp add: words_apart_def\<close>)
  then have w: "load32 ?m b1 = s" "load32 ?m b2 = n" by (simp_all add: load32_store)
  have "client_Read_Write (module_os (bot_usb (unat ss)) K H mload b1 b2) False s n buffer (c, m, g, sd, w)
      = Some (True, c, m', g\<lparr> um_usbfd := (um_usbfd g)\<lparr> us_tag := us_tag (um_usbfd g) + 1 \<rparr> \<rparr>, sd, w)"
    using assms(8,9) r w
    by (simp add: client_Read_Write_def module_os_def usb_main_step_def USB_Callback_def USB_Ioctlv_def vec_word_def vec_addr_def rd_def
        code_of_def not_ok_def)
  moreover have "filled ?E ?m m' buffer (sectors (bt_disk w) (unat s) (unat n))"
    by (rule filled_weaken [OF p]) (simp add: side_area_def)
  then have "filled ?E m m' buffer (sectors (bt_disk w) (unat s) (unat n))"
    by (rule filled_after) (simp add: side_area_def store32_wr wr_def)
  ultimately show ?thesis by blast
qed

lemma off_side_part:
  assumes "off_side dbuf b1 b2 a n" and "k + l \<le> n" and "n < 4294967296"
  shows "off_side dbuf b1 b2 (a + of_nat k) l"
  unfolding off_side_def
proof (intro allI impI)
  fix x :: u32
  assume x: "unat (x - (a + of_nat k)) < l"
  then have "unat (x - (a + of_nat k) + of_nat k) = unat (x - (a + of_nat k)) + k"
    using assms(2,3) by (subst unat_u32_add) (simp_all add: unat_of_nat_u32)
  then have "unat (x - a) < n" using x assms(2) by simp
  then show "\<not> side_area dbuf b1 b2 x" using assms(1) by (simp add: off_side_def)
qed

text \<open>The place in the buffer where the sectors from \<open>cnt\<close> on go.\<close>

lemma client_loop_read:
  assumes "um_host g = Some h" and "um_mounted g" and "usb_usable ss (um_lun g) (um_usbfd g, m, w)"
    and "words_apart b1 b2" and "0 \<le> uc_fd c" and "uc_fd c \<noteq> SDHC_FD" and "uc_sectorSz c = ss"
    and "unat s + unat n \<le> 4294967296" and "unat n * unat ss < 4294967296" and "unat cnt \<le> unat n"
    and "off_side (us_buffer (um_usbfd g)) b1 b2 (buffer + ss * cnt) ((unat n - unat cnt) * unat ss)"
  shows "\<exists>m' k. client_loop (module_os (bot_usb (unat ss)) K H mload b1 b2) False s n buffer cnt (c, m, g, sd, w)
      = Some (True, c, m', g\<lparr> um_usbfd := (um_usbfd g)\<lparr> us_tag := k \<rparr> \<rparr>, sd, w)
    \<and> filled (side_area (us_buffer (um_usbfd g)) b1 b2) m m' (buffer + ss * cnt) (sectors (bt_disk w) (unat s + unat cnt) (unat n - unat cnt))"
  using assms
proof (induction "unat n - unat cnt" arbitrary: cnt m g rule: less_induct)
  case less
  let ?dev = "um_usbfd g" and ?C = "module_os (bot_usb (unat ss)) K H mload b1 b2"
  let ?E = "side_area (us_buffer ?dev) b1 b2" and ?r = "unat n - unat cnt"
  show ?case
  proof (cases "cnt < n")
    case False
    then have "unat n - unat cnt = 0" by (simp add: word_less_nat_alt)
    moreover have "g\<lparr> um_usbfd := ?dev\<lparr> us_tag := us_tag ?dev \<rparr> \<rparr> = g" by simp
    ultimately show ?thesis using False
      by (intro exI [of _ m] exI [of _ "us_tag ?dev"]) (simp add: client_loop.simps filled_def sectors_def)
  next
    case True
    let ?n = "limited (n - cnt)"
    let ?k = "unat ?n" and ?g = "g\<lparr> um_usbfd := ?dev\<lparr> us_tag := us_tag ?dev + 1 \<rparr> \<rparr>"
    have lt: "unat cnt < unat n" using True by (simp add: word_less_nat_alt)
    have r: "unat (n - cnt) = ?r" using lt by (simp add: unat_u32_sub word_le_nat_alt)
    have k: "?k \<le> ?r" "?k \<le> 64" "0 < ?k" using lt r by (auto simp: limited_def word_less_nat_alt)
    have cnt: "unat (cnt + ?n) = unat cnt + ?k" using k lt u32_less [of n] by (intro unat_u32_add) linarith
    have sec: "unat (s + cnt) = unat s + unat cnt" using lt less.prems(8) by (intro unat_u32_add) linarith
    have le: "?k * unat ss \<le> ?r * unat ss" "?r * unat ss \<le> unat n * unat ss" using k(1) by (simp_all add: mult_le_mono1)
    have kb: "?k * unat ss < 4294967296" "?r * unat ss < 4294967296" using le less.prems(9) by linarith+
    have ob: "off_side (us_buffer ?dev) b1 b2 (buffer + ss * cnt) (?k * unat ss)"
      using off_side_part [OF less.prems(11), of 0 "?k * unat ss"] le(1) kb(2) by simp
    have k64: "?k < 65536" using k(2) by linarith
    obtain m1 where rq: "client_Read_Write ?C False (s + cnt) ?n (buffer + ss * cnt) (c, m, g, sd, w) = Some (True, c, m1, ?g, sd, w)"
      and f1: "filled ?E m m1 (buffer + ss * cnt) (sectors (bt_disk w) (unat s + unat cnt) ?k)"
      using client_request [OF less.prems(2,1,3) k64 kb(1) ob less.prems(4-6), where s = "s + cnt" and K = K and H = H and mload = mload and sd = sd, unfolded sec] by (elim exE conjE)
    have rest: "unat n - unat (cnt + ?n) = ?r - ?k" by (simp add: cnt)
    have "ss * ?n = of_nat (?k * unat ss)" by (simp add: mult.commute)
    then have addr: "buffer + ss * (cnt + ?n) = buffer + ss * cnt + of_nat (?k * unat ss)" by (simp add: ring_distribs)
    have sum: "?k * unat ss + (?r - ?k) * unat ss = ?r * unat ss" by (simp only: k(1) le_add_diff_inverse flip: add_mult_distrib)
    have ob2: "off_side (us_buffer ?dev) b1 b2 (buffer + ss * (cnt + ?n)) ((?r - ?k) * unat ss)"
      unfolding addr by (rule off_side_part [OF less.prems(11)]) (simp_all only: sum kb order.refl)
    have u: "usb_usable ss (um_lun ?g) (um_usbfd ?g, m1, w)" using less.prems(3) by (simp add: usb_usable_def handle_ok_def)
    have "\<exists>m' t. client_loop ?C False s n buffer (cnt + ?n) (c, m1, ?g, sd, w)
        = Some (True, c, m', ?g\<lparr> um_usbfd := (um_usbfd ?g)\<lparr> us_tag := t \<rparr> \<rparr>, sd, w)
      \<and> filled (side_area (us_buffer (um_usbfd ?g)) b1 b2) m1 m' (buffer + ss * (cnt + ?n)) (sectors (bt_disk w) (unat s + unat (cnt + ?n)) (unat n - unat (cnt + ?n)))"
      by (rule less.hyps) (use less.prems u ob2 rest cnt k lt in simp_all)
    then obtain m2 t where rec: "client_loop ?C False s n buffer (cnt + ?n) (c, m1, ?g, sd, w) = Some (True, c, m2, g\<lparr> um_usbfd := ?dev\<lparr> us_tag := t \<rparr> \<rparr>, sd, w)"
      and f2: "filled ?E m1 m2 (buffer + ss * cnt + of_nat (?k * unat ss)) (sectors (bt_disk w) (unat s + unat cnt + ?k) (?r - ?k))"
      unfolding rest cnt addr by (auto simp: add.assoc)
    have disk: "\<And>i. length (bt_disk w i) = unat ss" using less.prems(3) by (simp add: usb_usable_def)
    note len = length_sectors [of "bt_disk w", OF disk]
    have "filled ?E m m2 (buffer + ss * cnt) (sectors (bt_disk w) (unat s + unat cnt) ?k @ sectors (bt_disk w) (unat s + unat cnt + ?k) (?r - ?k))"
      by (rule filled_append [OF f1]) (use f2 less.prems(11) in \<open>simp_all only: len sum kb off_side_def\<close>, blast)
    then have "filled ?E m m2 (buffer + ss * cnt) (sectors (bt_disk w) (unat s + unat cnt) ?r)" by (simp only: sectors_append [OF k(1)])
    moreover have "client_loop ?C False s n buffer cnt (c, m, g, sd, w) = Some (True, c, m2, g\<lparr> um_usbfd := ?dev\<lparr> us_tag := t \<rparr> \<rparr>, sd, w)"
      using True rq rec less.prems(7) by (subst client_loop.simps) (simp add: Let_def)
    ultimately show ?thesis by blast
  qed
qed

text \<open>
  C8. A read of the client returns the sectors of the drive, for any number of sectors, into a buffer of any
  alignment: the client cuts it into requests of 64 sectors, the module hands each to the mass storage driver, the
  driver to the drive. Memory outside the buffer, the transfer buffer of the drive and the two words of the
  client is as before.
\<close>

theorem client_read_refines_disk:
  assumes "um_host g = Some h" and "um_mounted g" and "usb_usable ss (um_lun g) (um_usbfd g, m, w)"
    and "words_apart b1 b2" and "0 \<le> uc_fd c" and "uc_fd c \<noteq> SDHC_FD" and "uc_sectorSz c = ss"
    and "unat s + unat n \<le> 4294967296" and "unat n * unat ss < 4294967296"
    and "off_side (us_buffer (um_usbfd g)) b1 b2 buffer (unat n * unat ss)"
  shows "\<exists>m' k. client_ReadSectors (module_os (bot_usb (unat ss)) K H mload b1 b2) s n buffer (c, m, g, sd, w)
      = Some (True, c, m', g\<lparr> um_usbfd := (um_usbfd g)\<lparr> us_tag := k \<rparr> \<rparr>, sd, w)
    \<and> (\<forall>i < unat n * unat ss. m' (buffer + of_nat i) = sectors (bt_disk w) (unat s) (unat n) ! i)
    \<and> (\<forall>x. unat (x - buffer) < unat n * unat ss \<or> side_area (us_buffer (um_usbfd g)) b1 b2 x \<or> m' x = m x)"
proof -
  have disk: "\<And>i. length (bt_disk w i) = unat ss" using assms(3) by (simp add: usb_usable_def)
  have len: "length (sectors (bt_disk w) (unat s) (unat n)) = unat n * unat ss" using disk by (rule length_sectors)
  obtain m' k where r: "client_loop (module_os (bot_usb (unat ss)) K H mload b1 b2) False s n buffer 0 (c, m, g, sd, w)
      = Some (True, c, m', g\<lparr> um_usbfd := (um_usbfd g)\<lparr> us_tag := k \<rparr> \<rparr>, sd, w)"
    and f: "filled (side_area (us_buffer (um_usbfd g)) b1 b2) m m' buffer (sectors (bt_disk w) (unat s) (unat n))"
    using client_loop_read [OF assms(1-9), where cnt = 0 and buffer = buffer and K = K and H = H and mload = mload and sd = sd] assms(10)
    by auto
  have "m' (buffer + of_nat i) = sectors (bt_disk w) (unat s) (unat n) ! i" if "i < unat n * unat ss" for i
    using f that len assms(9) by (simp add: filled_def unat_of_nat_u32)
  moreover have "client_ReadSectors (module_os (bot_usb (unat ss)) K H mload b1 b2) s n buffer (c, m, g, sd, w)
      = Some (True, c, m', g\<lparr> um_usbfd := (um_usbfd g)\<lparr> us_tag := k \<rparr> \<rparr>, sd, w)"
    using r assms(5) by (simp add: client_ReadSectors_def client_ReadWriteSectors_def)
  ultimately show ?thesis using f unfolding filled_def len by blast
qed

definition demo_ums :: ums where
  "demo_ums = ums_zero\<lparr> um_host := Some demo_host, um_usbfd := demo_handle, um_mounted := True, um_inited := True, um_vid := 1, um_pid := 2 \<rparr>"

theorem client_read_refines_disk_witness:
  "\<forall>K H mload sd. \<exists>m' g'. client_ReadSectors (module_os (bot_usb 512) K H mload 0x13A03000 0x13A03004) 7 100 0x12000005
        (\<lparr> uc_fd = 1, uc_sectorSz = 512 \<rparr>, \<lambda>_. 9, demo_ums, sd, demo_drive)
      = Some (True, \<lparr> uc_fd = 1, uc_sectorSz = 512 \<rparr>, m', g', sd, demo_drive)
    \<and> m' (0x12000005 + of_nat 40000) = 85 \<and> m' 0x12000004 = 9"
proof (intro allI)
  fix K H mload sd
  have u: "usb_usable 512 (um_lun demo_ums) (um_usbfd demo_ums, \<lambda>_. 9, demo_drive)"
    using demo_handle_ok by (simp add: usb_usable_def demo_ums_def ums_zero_def demo_drive_def demo_handle_def)
  have a: "words_apart 0x13A03000 0x13A03004"
    unfolding words_apart_def by (intro allI impI) (simp add: unat_sub_if' unat_arith_simps split: if_splits)
  have o: "off_side (us_buffer (um_usbfd demo_ums)) 0x13A03000 0x13A03004 0x12000005 (unat (100 :: u32) * unat (512 :: u32))"
    by (rule off_sideI) (simp_all add: demo_ums_def demo_handle_def)
  have "\<exists>m' k. client_ReadSectors (module_os (bot_usb (unat (512 :: u32))) K H mload 0x13A03000 0x13A03004) 7 100 0x12000005
        (\<lparr> uc_fd = 1, uc_sectorSz = 512 \<rparr>, \<lambda>_. 9, demo_ums, sd, demo_drive)
      = Some (True, \<lparr> uc_fd = 1, uc_sectorSz = 512 \<rparr>, m', demo_ums\<lparr> um_usbfd := (um_usbfd demo_ums)\<lparr> us_tag := k \<rparr> \<rparr>, sd, demo_drive)
    \<and> (\<forall>i < unat (100 :: u32) * unat (512 :: u32). m' (0x12000005 + of_nat i) = sectors (bt_disk demo_drive) (unat (7 :: u32)) (unat (100 :: u32)) ! i)
    \<and> (\<forall>x. unat (x - 0x12000005) < unat (100 :: u32) * unat (512 :: u32)
        \<or> side_area (us_buffer (um_usbfd demo_ums)) 0x13A03000 0x13A03004 x \<or> m' x = 9)"
    by (rule client_read_refines_disk [OF _ _ u a _ _ _ _ _ o, where h = demo_host]) (simp_all add: demo_ums_def)
  then obtain m' k where r: "client_ReadSectors (module_os (bot_usb 512) K H mload 0x13A03000 0x13A03004) 7 100 0x12000005
        (\<lparr> uc_fd = 1, uc_sectorSz = 512 \<rparr>, \<lambda>_. 9, demo_ums, sd, demo_drive)
      = Some (True, \<lparr> uc_fd = 1, uc_sectorSz = 512 \<rparr>, m', demo_ums\<lparr> um_usbfd := (um_usbfd demo_ums)\<lparr> us_tag := k \<rparr> \<rparr>, sd, demo_drive)"
    and v: "\<forall>i < 51200. m' (0x12000005 + of_nat i) = sectors (bt_disk demo_drive) 7 100 ! i"
    and f: "\<forall>x. unat (x - 0x12000005) < 51200 \<or> side_area (us_buffer (um_usbfd demo_ums)) 0x13A03000 0x13A03004 x \<or> m' x = 9"
    by auto
  have "sectors (bt_disk demo_drive) 7 100 ! (78 * 512 + 64) = bt_disk demo_drive (7 + 78) ! 64"
    by (rule nth_sectors) (simp_all add: demo_drive_def)
  then have "m' (0x12000005 + of_nat 40000) = 85" using v [rule_format, of 40000] by (simp add: demo_drive_def)
  moreover have "m' 0x12000004 = 9"
    using spec [OF f, of "0x12000004"] by (simp add: side_area_def demo_ums_def demo_handle_def unsigned_minus_1_eq_mask mask_eq_exp_minus_1)
  ultimately show "\<exists>m' g'. client_ReadSectors (module_os (bot_usb 512) K H mload 0x13A03000 0x13A03004) 7 100 0x12000005
        (\<lparr> uc_fd = 1, uc_sectorSz = 512 \<rparr>, \<lambda>_. 9, demo_ums, sd, demo_drive)
      = Some (True, \<lparr> uc_fd = 1, uc_sectorSz = 512 \<rparr>, m', g', sd, demo_drive)
    \<and> m' (0x12000005 + of_nat 40000) = 85 \<and> m' 0x12000004 = 9"
    using r by (intro exI conjI)
qed

section \<open>Without a drive\<close>

text \<open>
  C40. When no drive is mounted the client is told that one of a single sector is there: the module answers a request
  for the capacity with the code of its failure, 1, and the client takes the code as the number of sectors. So its
  start-up and its check for a drive succeed, with whatever sector size the static word holds, and reads fail.
\<close>

theorem client_init_without_drive:
  assumes "um_inited g" and "\<not> um_mounted g" and "uc_fd c < 0" and "\<not> Stealth_CheckRunningTitle (mload w)"
  shows "\<exists>w' c'. c' = \<lparr> uc_fd = 1, uc_sectorSz = load32 m b1 \<rparr>
    \<and> client_Init (module_os U K H mload b1 b2) (c, m, g, sd, w) = Some (True, c', m, g, sd, w')
    \<and> client_IsInserted (module_os U K H mload b1 b2) (c', m, g, sd, w') = Some (True, c', m, g, sd, w')
    \<and> (\<forall>s n buffer. n \<noteq> 0 \<longrightarrow>
         (\<exists>y. client_ReadSectors (module_os U K H mload b1 b2) s n buffer (c', m, g, sd, w') = Some (False, y)))"
proof -
  let ?C = "module_os U K H mload b1 b2" and ?w = "uo_queue_send U MESSAGE_MOUNT (uo_usleep U 1000 w)"
  let ?c = "\<lparr> uc_fd = 1, uc_sectorSz = load32 m b1 \<rparr>"
  have cap: "client_GetCapacity ?C (d, m, g, sd, v) = Some ((1, Some (load32 m b1)), d\<lparr> uc_sectorSz := load32 m b1 \<rparr>, m, g, sd, v)"
    if "uc_fd d = 1" for d v
    using that assms(2)
    by (simp add: client_GetCapacity_def module_os_def usb_main_step_def USB_Callback_def USB_Ioctlv_def vec_addr_def rd_def
        get_capacity_def usbstorage_ReadCapacity_def Let_def)
  have "client_Init ?C (c, m, g, sd, w) = Some (True, ?c, m, g, sd, ?w)"
    using assms cap [of "c\<lparr> uc_fd := 1 \<rparr>" ?w]
    by (cases c) (simp add: client_Init_def module_os_def usb_main_step_def USB_Callback_def USB_Ioctlv_def usbstorage_Startup_def code_of_def not_ok_def)
  moreover have "client_IsInserted ?C (?c, m, g, sd, ?w) = Some (True, ?c, m, g, sd, ?w)"
    using cap [of ?c ?w] by (simp add: client_IsInserted_def)
  moreover have "\<exists>y. client_ReadSectors ?C s n buffer (?c, m, g, sd, ?w) = Some (False, y)" if "n \<noteq> 0" for s n buffer
  proof -
    have "\<exists>y. client_Read_Write ?C False s' n' buffer' (?c, m, g, sd, ?w) = Some (False, y)" for s' n' buffer'
      using assms(2)
      by (simp add: client_Read_Write_def module_os_def usb_main_step_def USB_Callback_def USB_Ioctlv_def vec_word_def vec_addr_def rd_def
          usbstorage_ReadSectors_def code_of_def not_ok_def)
    then obtain y where "client_Read_Write ?C False s (limited n) buffer (?c, m, g, sd, ?w) = Some (False, y)" by blast
    then have "client_ReadSectors ?C s n buffer (?c, m, g, sd, ?w) = Some (False, y)"
      using that by (simp add: client_ReadSectors_def client_ReadWriteSectors_def client_loop.simps word_neq_0_conv)
    then show ?thesis by blast
  qed
  ultimately show ?thesis by blast
qed

theorem client_init_without_drive_witness:
  "\<forall>K H. \<exists>w'. client_Init (module_os (bot_usb 512) K H (\<lambda>w. mload_zero) 0x13A03000 0x13A03004)
        (client_zero, \<lambda>_. 9, ums_zero\<lparr> um_inited := True \<rparr>, sdhc_zero, demo_drive)
      = Some (True, \<lparr> uc_fd = 1, uc_sectorSz = load32 (\<lambda>_. 9) 0x13A03000 \<rparr>, \<lambda>_. 9, ums_zero\<lparr> um_inited := True \<rparr>, sdhc_zero, w')"
proof (intro allI)
  fix K H
  show "\<exists>w'. client_Init (module_os (bot_usb 512) K H (\<lambda>w. mload_zero) 0x13A03000 0x13A03004)
        (client_zero, \<lambda>_. 9, ums_zero\<lparr> um_inited := True \<rparr>, sdhc_zero, demo_drive)
      = Some (True, \<lparr> uc_fd = 1, uc_sectorSz = load32 (\<lambda>_. 9) 0x13A03000 \<rparr>, \<lambda>_. 9, ums_zero\<lparr> um_inited := True \<rparr>, sdhc_zero, w')"
    using client_init_without_drive [of "ums_zero\<lparr> um_inited := True \<rparr>" client_zero "\<lambda>w. mload_zero" demo_drive "\<lambda>_. 9" "0x13A03000"
        "bot_usb 512" K H "0x13A03004" sdhc_zero]
    by (auto simp: ums_zero_def client_zero_def Stealth_CheckRunningTitle_def Swi_GetRunningTitle_def mload_zero_def)
qed

lemma close_device_returns:
  assumes "find_dev d (attached_devices h) = Some j"
  shows "\<exists>r fd h' w'. USB_CloseDevice U (Some h) d w = Some (r, fd, Some h', w') \<and> attached_devices h' = attached_devices h"
  using assms
  by (auto simp: USB_CloseDevice_def USB_FindDevice_def USB_SuspendResume_def dev_request_def Let_def split: prod.splits)

lemma close_usbfd_returns:
  assumes "um_host g = Some h" and "find_dev (us_fd (um_usbfd g)) (attached_devices h) = Some j"
  shows "\<exists>h' w'. close_usbfd U (g, m, w) = Some (g\<lparr> um_host := Some h', um_usbfd := handle_zero\<lparr> us_fd := -1 \<rparr> \<rparr>, m, w')
    \<and> attached_devices h' = attached_devices h"
proof (cases "us_fd (um_usbfd g) = -1")
  case True
  then show ?thesis using assms(1) by (auto simp: close_usbfd_def USBStorage_Close_def Let_def)
next
  case False
  from close_device_returns [OF assms(2), where U = U and w = w] obtain r fd h' w'
    where "USB_CloseDevice U (Some h) (us_fd (um_usbfd g)) w = Some (r, fd, Some h', w')" "attached_devices h' = attached_devices h"
    by (elim exE conjE)
  then show ?thesis using False assms(1) by (auto simp: close_usbfd_def USBStorage_Close_def Let_def)
qed

text \<open>
  A drive that was unmounted cannot be mounted again: the unmount closes the drive but keeps its identity, so that
  the next check finds the device in the list and reports it mounted without opening it, while every read fails.
\<close>

theorem unmounted_drive_unreadable:
  assumes "um_inited g" and "um_host g = Some h" and "find_dev (us_fd (um_usbfd g)) (attached_devices h) = Some j"
    and "um_vid g \<noteq> 0 \<or> um_pid g \<noteq> 0" and "\<And>n v. fst (uo_alloc U n v) \<noteq> 0"
    and "e \<in> set (take 8 (takeWhile (\<lambda>e. de_id e \<noteq> 0) (attached_devices h)))" and "de_vid e = um_vid g" and "de_pid e = um_pid g"
  shows "\<exists>y z. usbstorage_Shutdown U (g, m, w) = Some (True, y) \<and> usbstorage_IsInserted U y = Some (True, z)
    \<and> (\<forall>s n buffer. usbstorage_ReadSectors U s n buffer z = Some (False, z))"
proof -
  let ?dev = "handle_zero\<lparr> us_fd := -1 \<rparr>"
  obtain h' w1 where c: "close_usbfd U (g, m, w) = Some (g\<lparr> um_host := Some h', um_usbfd := ?dev \<rparr>, m, w1)"
    and h': "attached_devices h' = attached_devices h"
    using close_usbfd_returns [OF assms(2,3), where U = U and m = m and w = w] by (elim exE conjE)
  let ?g = "g\<lparr> um_host := Some h', um_usbfd := ?dev \<rparr>"
  obtain p w2 where p: "uo_alloc U 96 w1 = (p, w2)" by fastforce
  then have p0: "p \<noteq> 0" using assms(5) [of 96 w1] by simp
  let ?z = "(?g\<lparr> um_mounted := True \<rparr>, m, uo_usleep U 50 (uo_free U p (uo_usleep U 100 w2)))"
  have "usbstorage_Shutdown U (g, m, w) = Some (True, ?g, m, w1)"
    using assms(4) c by (simp add: usbstorage_Shutdown_def)
  moreover have "usbstorage_IsInserted U (?g, m, w1) = Some (True, ?z)"
    using assms(1,4,6-8) p p0 h' by (auto simp: usbstorage_IsInserted_def USB_GetDeviceList_def Let_def)
  moreover have "usbstorage_ReadSectors U s n buffer ?z = Some (False, ?z)" for s n buffer
    by (simp add: usbstorage_ReadSectors_def USBStorage_Read_def rw_sectors_def handle_zero_def word_le_nat_alt)
  ultimately show ?thesis by blast
qed

theorem unmounted_drive_unreadable_witness:
  "\<exists>y z. usbstorage_Shutdown (bot_usb 512) (demo_ums, \<lambda>_. 9, demo_drive) = Some (True, y)
    \<and> usbstorage_IsInserted (bot_usb 512) y = Some (True, z) \<and> usbstorage_ReadSectors (bot_usb 512) 0 1 0x12000000 z = Some (False, z)"
  using unmounted_drive_unreadable [of demo_ums demo_host _ "bot_usb 512" "\<lparr> de_id = 77, de_vid = 1, de_pid = 2, de_token = 3 \<rparr>"
      "\<lambda>_. 9" demo_drive]
  by (fastforce simp: demo_ums_def ums_zero_def demo_host_def host_zero_def demo_handle_def handle_zero_def bot_usb_def no_entry_def)

end
