(* ===== verification/Diskio.thy ===== *)
theory Diskio
  imports Sd_Card Ums_Disk
begin

text \<open>
  The drives of the FAT library (\<open>fat-module/diskio.c\<close>): drive 0 is the SD card, drive 1 the USB drive, behind one
  interface that gives the drivers aligned buffers. The slot device, the kernel below the storage client and the
  heap are the parameter \<open>disk_os\<close>. With the card and the drive of \<open>Sd_Card\<close> and \<open>Usb_Disk\<close> below, what the library
  reads are the sectors of the medium.
\<close>

abbreviation (input) DRIVE_SDHC :: u8 where "DRIVE_SDHC \<equiv> 0"
abbreviation (input) DRIVE_EHCI :: u8 where "DRIVE_EHCI \<equiv> 1"

datatype DRESULT = RES_OK | RES_ERROR | RES_WRPRT | RES_NOTRDY | RES_PARERR

record 'w disk_os =
  dk_slot :: "(memory \<times> 'w) sd_os"
  dk_client :: "'w client_os"
  dk_alloc :: "nat \<Rightarrow> 'w \<Rightarrow> u32 \<times> 'w"
  dk_free :: "u32 \<Rightarrow> 'w \<Rightarrow> 'w"

type_synonym 'w disk_world = "sd_state \<times> ums_client \<times> memory \<times> 'w"

definition SECTOR_SZ :: "u8 \<Rightarrow> ums_client \<Rightarrow> u32" where
  "SECTOR_SZ drv c = (if drv = DRIVE_SDHC then 512 else if drv = DRIVE_EHCI then client_GetSectorSize c else 0)"

definition disk_initialize :: "u8 \<Rightarrow> DRESULT" where
  "disk_initialize drv = (if drv = DRIVE_SDHC \<or> drv = DRIVE_EHCI then RES_OK else RES_PARERR)"

text \<open>A drive that does not exist is there.\<close>

definition disk_status :: "'w disk_os \<Rightarrow> u8 \<Rightarrow> 'w disk_world \<Rightarrow> (u8 \<times> 'w disk_world) option" where
  "disk_status D drv x =
     (case x of (s, c, m, w) \<Rightarrow>
        do { (ret, y) \<leftarrow>
               (if drv = DRIVE_SDHC then case sdio_IsInserted (dk_slot D) (s, m, w) of (ok, s', m', w') \<Rightarrow> Some (ok, s', c, m', w')
                else if drv = DRIVE_EHCI then map_option (\<lambda>(ok, c', m', w'). (ok, s, c', m', w')) (client_IsInserted (dk_client D) (c, m, w))
                else Some (True, x));
             Some (if ret then 0 else 2, y) })"

text \<open>The switch over the drives, for reads and for writes.\<close>

definition drive_transfer :: "'w disk_os \<Rightarrow> bool \<Rightarrow> u8 \<Rightarrow> u32 \<Rightarrow> u32 \<Rightarrow> u32 \<Rightarrow> 'w disk_world \<Rightarrow> (bool \<times> 'w disk_world) option" where
  "drive_transfer D write drv sector count buffer x =
     (case x of (s, c, m, w) \<Rightarrow>
        if drv = DRIVE_SDHC then
          (case (if write then sdio_WriteSectors else sdio_ReadSectors) (dk_slot D) sector count buffer (s, m, w) of
             (ok, s', m', w') \<Rightarrow> Some (ok, s', c, m', w'))
        else if drv = DRIVE_EHCI then
          map_option (\<lambda>(ok, c', m', w'). (ok, s, c', m', w'))
            ((if write then client_WriteSectors else client_ReadSectors) (dk_client D) sector count buffer (c, m, w))
        else Some (False, x))"

definition disk_buffer :: "'w disk_os \<Rightarrow> u32 \<Rightarrow> u32 \<Rightarrow> 'w \<Rightarrow> u32 option \<times> 'w" where
  "disk_buffer D buff len w =
     (if buff AND 31 \<noteq> 0 then case dk_alloc D (unat len) w of (p, w1) \<Rightarrow> (if p = 0 then None else Some p, w1)
      else (Some buff, w))"

definition disk_read :: "'w disk_os \<Rightarrow> u8 \<Rightarrow> u32 \<Rightarrow> u32 \<Rightarrow> u8 \<Rightarrow> 'w disk_world \<Rightarrow> (DRESULT \<times> 'w disk_world) option" where
  "disk_read D drv buff sector count x =
     (case x of (s, c, m, w) \<Rightarrow>
        let len = ucast count * SECTOR_SZ drv c in
        if len = 0 then Some (RES_ERROR, x)
        else case disk_buffer D buff len w of
            (None, w1) \<Rightarrow> Some (RES_ERROR, s, c, m, w1)
          | (Some buffer, w1) \<Rightarrow>
              do { (ret, s2, c2, m2, w2) \<leftarrow> drive_transfer D False drv sector (ucast count) buffer (s, c, m, w1);
                   let m3 = (if buffer \<noteq> buff \<and> ret then memcpy m2 buff buffer (unat len) else m2);
                       w3 = (if buffer \<noteq> buff then dk_free D buffer w2 else w2)
                   in Some (if ret then RES_OK else RES_ERROR, s2, c2, m3, w3) })"

definition disk_write :: "'w disk_os \<Rightarrow> u8 \<Rightarrow> u32 \<Rightarrow> u32 \<Rightarrow> u8 \<Rightarrow> 'w disk_world \<Rightarrow> (DRESULT \<times> 'w disk_world) option" where
  "disk_write D drv buff sector count x =
     (case x of (s, c, m, w) \<Rightarrow>
        let len = ucast count * SECTOR_SZ drv c in
        if len = 0 then Some (RES_ERROR, x)
        else case disk_buffer D buff len w of
            (None, w1) \<Rightarrow> Some (RES_ERROR, s, c, m, w1)
          | (Some buffer, w1) \<Rightarrow>
              let m1 = (if buff AND 31 \<noteq> 0 then memcpy m buffer buff (unat len) else m) in
              do { (ret, s2, c2, m2, w2) \<leftarrow> drive_transfer D True drv sector (ucast count) buffer (s, c, m1, w1);
                   Some (if ret then RES_OK else RES_ERROR, s2, c2, m2, if buffer \<noteq> buff then dk_free D buffer w2 else w2) })"

text \<open>The sector size as a half-word, the only request that is answered.\<close>

definition disk_ioctl :: "u8 \<Rightarrow> u8 \<Rightarrow> u32 \<Rightarrow> 'w disk_world \<Rightarrow> DRESULT \<times> 'w disk_world" where
  "disk_ioctl drv ctrl buff x =
     (case x of (s, c, m, w) \<Rightarrow>
        if ctrl = 2 then
          let sz = (ucast (SECTOR_SZ drv c) :: u16)
          in (if sz \<noteq> 0 then RES_OK else RES_ERROR, s, c, wr m buff [ucast (drop_bit 8 sz), ucast sz], w)
        else (RES_OK, x))"

definition get_fattime :: u32 where
  "get_fattime = 0"

section \<open>Buffers\<close>

text \<open>A read whose transfer fills an aligned buffer fills the buffer it was given.\<close>

lemma disk_read_fills:
  assumes "unat len = unat count * ss" and "0 < unat count * ss" and "SECTOR_SZ drv c = of_nat ss" and "ss < 4294967296"
    and "len = ucast count * SECTOR_SZ drv c" and "disk_buffer D buff len w = (Some b, w1)"
    and "drive_transfer D False drv sector (ucast count) b (s, c, m, w1) = Some (True, s2, c2, m2, w2)"
    and "filled E m m2 b bs" and "length bs = unat len" and "b = buff \<or> apart buff b (unat len)" and "\<And>x. E x \<Longrightarrow> F x"
    and "b \<noteq> buff \<Longrightarrow> (\<And>x. unat (x - b) < unat len \<Longrightarrow> F x)"
  shows "\<exists>m3 w3. disk_read D drv buff sector count (s, c, m, w) = Some (RES_OK, s2, c2, m3, w3) \<and> filled F m m3 buff bs"
proof -
  let ?m3 = "if b \<noteq> buff then memcpy m2 buff b (unat len) else m2"
  have l0: "len \<noteq> 0" using assms(1,2) by (metis less_numeral_extra(3) unat_0)
  have r: "disk_read D drv buff sector count (s, c, m, w) = Some (RES_OK, s2, c2, ?m3, if b \<noteq> buff then dk_free D b w2 else w2)"
    using assms(7) l0 assms(6) unfolding disk_read_def assms(5) [symmetric] prod.case by (simp add: Let_def flip: assms(5))
  have "filled F m ?m3 buff bs"
  proof (cases "b = buff")
    case True
    then show ?thesis using filled_weaken [OF assms(8,11)] by simp
  next
    case False
    then have ap: "apart buff b (unat len)" using assms(10) by simp
    have cp: "memcpy m2 buff b (unat len) = wr m2 buff (rdm m2 b (unat len))" by (rule memcpy_wr [OF ap u32_less])
    have "rdm m2 b (unat len) = bs"
    proof (rule nth_equalityI)
      fix i assume "i < length (rdm m2 b (unat len))"
      then have i: "i < length bs" "i < 4294967296" using assms(9) u32_less [of len] by (simp_all, linarith)
      then have "unat (b + of_nat i - b) = i" by (simp add: unat_of_nat_u32)
      then have "m2 (b + of_nat i) = bs ! i" using assms(8) i(1) unfolding filled_def by metis
      then show "rdm m2 b (unat len) ! i = bs ! i" using i(1) assms(9) by (simp add: rdm_def)
    qed (simp add: assms(9))
    then have m3: "?m3 = wr m2 buff bs" using False cp by simp
    have "unat (x - b) < length bs \<or> E x \<or> m2 x = m x" for x using assms(8) by (simp add: filled_def)
    then have "unat (x - buff) < length bs \<or> F x \<or> wr m2 buff bs x = m x" for x
      using assms(9,11,12) False by (auto simp: wr_def)
    then show ?thesis unfolding m3 by (auto simp: filled_def wr_def)
  qed
  then show ?thesis using r by blast
qed


section \<open>The SD card\<close>

text \<open>The card driver calls the slot device and nothing else: what it does over a world that is a view of another is
  the view of what it does there.\<close>

locale slot_view =
  fixes K :: "'w sd_os" and K' :: "'v sd_os" and h :: "'v \<Rightarrow> 'w"
  assumes ioctl_view: "map_prod id h (so_ioctl K' fd cmd req out x) = so_ioctl K fd cmd req out (h x)"
    and ioctlv_view: "map_prod id h (so_ioctlv K' fd cmd req buf len resp x) = so_ioctlv K fd cmd req buf len resp (h x)"
begin

lemma send_view:
  "sdio_sendcommand K cmd ty rsp arg cnt sz buf (s, h x)
    = map_prod id (map_prod id h) (sdio_sendcommand K' cmd ty rsp arg cnt sz buf (s, x))"
  by (simp add: sdio_sendcommand_def Let_def split_beta flip: ioctl_view ioctlv_view)

lemma rw_view:
  "rw_loop K cmd tries sector n buf (s, h x) = map_prod id (map_prod id h) (rw_loop K' cmd tries sector n buf (s, x))"
proof (induction tries arbitrary: sector s x)
  case (Suc tries)
  obtain r1 s1 x1 where 1: "sd0_select K' (s, x) = (r1, s1, x1)" by (cases "sd0_select K' (s, x)")
  have v1: "sd0_select K (s, h x) = (r1, s1, h x1)" using 1 by (simp add: sd0_select_def send_view)
  show ?case
  proof (cases "r1 < 0")
    case True
    then show ?thesis using 1 v1 Suc.IH by (simp add: rw_loop.simps(2))
  next
    case False
    let ?s = "if sd_sdhc s1 then sector else sector * 512"
    obtain r2 s2 x2 where 2: "sdio_sendcommand K' cmd 4 1 ?s n 512 buf (s1, x1) = (r2, s2, x2)"
      by (cases "sdio_sendcommand K' cmd 4 1 ?s n 512 buf (s1, x1)")
    obtain r3 s3 x3 where 3: "sd0_deselect K' (s2, x2) = (r3, s3, x3)" by (cases "sd0_deselect K' (s2, x2)")
    have "sd0_deselect K (s2, h x2) = (r3, s3, h x3)" using 3 by (simp add: sd0_deselect_def send_view)
    then show ?thesis using 1 v1 2 3 False Suc.IH by (simp add: rw_loop.simps(2) Let_def send_view)
  qed
qed simp

lemma read_view:
  "sdio_ReadSectors K sector n buf (s, h x) = map_prod id (map_prod id h) (sdio_ReadSectors K' sector n buf (s, x))"
  by (simp add: sdio_ReadSectors_def rw_view)

end

text \<open>The card of \<open>Sd_Card\<close> with the memory beside it.\<close>

definition with_mem :: "memory \<times> sd_card \<Rightarrow> sd_card" where
  "with_mem x = (snd x)\<lparr> c_mem := fst x \<rparr>"

definition and_mem :: "'a \<times> sd_card \<Rightarrow> 'a \<times> memory \<times> sd_card" where
  "and_mem r = (fst r, c_mem (snd r), snd r)"

definition card_slot_os :: "(memory \<times> sd_card) sd_os" where
  "card_slot_os =
     \<lparr> so_open = (\<lambda>f md x. and_mem (so_open sd_card_os f md (with_mem x))), so_close = (\<lambda>fd x. x),
       so_ioctl = (\<lambda>fd cmd req out x. and_mem (so_ioctl sd_card_os fd cmd req out (with_mem x))),
       so_ioctlv = (\<lambda>fd cmd req buf len resp x. and_mem (so_ioctlv sd_card_os fd cmd req buf len resp (with_mem x))),
       so_usleep = (\<lambda>n x. x) \<rparr>"

lemma with_and_mem: "map_prod id with_mem (and_mem r) = r"
  by (cases r) (simp add: and_mem_def with_mem_def)

interpretation card_view: slot_view sd_card_os card_slot_os with_mem
  by unfold_locales (simp_all add: card_slot_os_def with_and_mem)

lemma card_transfer:
  assumes "sd_usable (s, with_mem (m, w))" and "sd_fits (s, with_mem (m, w)) (unat sector) (unat count) b"
    and "dk_slot D = card_slot_os"
  shows "\<exists>s2 m2 w2. drive_transfer D False DRIVE_SDHC sector (ucast count) b (s, c, m, w) = Some (True, s2, c, m2, w2)
    \<and> m2 = wr m b (sectors (c_blocks w) (unat sector) (unat (count :: u8)))"
proof -
  have u: "of_nat (unat count) = (ucast count :: u32)" "of_nat (unat sector) = sector" by simp_all
  obtain s' c' where r: "sdio_ReadSectors sd_card_os sector (ucast count) b (s, with_mem (m, w)) = (True, s', c')"
    and m: "c_mem c' = wr m b (sectors (c_blocks w) (unat sector) (unat count))"
    using sd_reads [OF assms(1,2)] unfolding u by (auto simp: with_mem_def)
  obtain ok s2 m2 w2 where v: "sdio_ReadSectors card_slot_os sector (ucast count) b (s, m, w) = (ok, s2, m2, w2)"
    by (cases "sdio_ReadSectors card_slot_os sector (ucast count) b (s, m, w)") auto
  have "ok = True" "c' = with_mem (m2, w2)"
    using r v card_view.read_view [of sector "ucast count" b s "(m, w)"] by simp_all
  then show ?thesis using v m assms(3) by (simp add: drive_transfer_def with_mem_def)
qed

lemma wr_filled: "length bs < 4294967296 \<Longrightarrow> filled E m (wr m a bs) a bs"
  by (simp add: filled_def wr_def)

text \<open>
  C10. What the FAT library reads from the SD card are its sectors, in a buffer of any alignment: a buffer that is not
  aligned gets them through a block of the heap. No other memory changes but that block.
\<close>

theorem disk_read_card:
  assumes "sd_usable (s, with_mem (m, w))" and "sd_fits (s, with_mem (m, w)) (unat sector) (unat count) b" and "dk_slot D = card_slot_os"
    and "count \<noteq> 0" and "disk_buffer D buff (ucast count * 512) w = (Some b, w)" and "b = buff \<or> apart buff b (unat count * 512)"
  shows "\<exists>s' m' w'. disk_read D DRIVE_SDHC buff sector count (s, c, m, w) = Some (RES_OK, s', c, m', w')
    \<and> (\<forall>i < unat count * 512. m' (buff + of_nat i) = sectors (c_blocks w) (unat sector) (unat count) ! i)
    \<and> (\<forall>x. unat (x - buff) < unat count * 512 \<or> unat (x - b) < unat count * 512 \<or> m' x = m x)"
proof -
  let ?bs = "sectors (c_blocks w) (unat sector) (unat count)" and ?len = "ucast count * 512 :: u32"
  have c: "unat count < 256" "0 < unat count" using unsigned_less [of count] assms(4) by (simp_all add: unat_gt_0)
  then have len: "unat ?len = unat count * 512" by (simp add: unat_word_ariths unsigned_ucast_eq take_bit_nat_eq_self)
  have bs: "length ?bs = unat count * 512" using assms(1) by (intro length_sectors) (simp add: sd_usable_def with_mem_def)
  obtain s2 m2 w2 where t: "drive_transfer D False DRIVE_SDHC sector (ucast count) b (s, c, m, w) = Some (True, s2, c, m2, w2)" "m2 = wr m b ?bs"
    using card_transfer [OF assms(1-3), where c = c] by (elim exE conjE)
  have "length ?bs < 4294967296" using bs c by simp
  then have f: "filled (\<lambda>x. False) m m2 b ?bs" unfolding t(2) by (rule wr_filled)
  obtain m3 w3 where r: "disk_read D DRIVE_SDHC buff sector count (s, c, m, w) = Some (RES_OK, s2, c, m3, w3)"
    and f3: "filled (\<lambda>x. unat (x - b) < unat count * 512) m m3 buff ?bs"
    using disk_read_fills [OF len _ _ _ _ assms(5) t(1) f, where F = "\<lambda>x. unat (x - b) < unat count * 512"] bs len assms(6) c
    by (auto simp: SECTOR_SZ_def)
  have "m3 (buff + of_nat i) = ?bs ! i" if "i < unat count * 512" for i
    using f3 that bs c by (simp add: filled_def unat_of_nat_u32)
  then show ?thesis using r f3 bs unfolding filled_def by (intro exI [of _ s2] exI [of _ m3] exI [of _ w3]) simp
qed

definition dead_client :: "'w client_os" where
  "dead_client = \<lparr> co_open = (\<lambda>p w. (-1, w)), co_close = (\<lambda>fd w. w), co_ioctlv = (\<lambda>fd cmd i n v m w. Some (-4, m, w)), co_buffer1 = 0x13A03000, co_buffer2 = 0x13A03004 \<rparr>"

definition demo_disk_os :: "sd_card disk_os" where
  "demo_disk_os = \<lparr> dk_slot = card_slot_os, dk_client = dead_client, dk_alloc = (\<lambda>n w. (0x13A00000, w)), dk_free = (\<lambda>p w. w) \<rparr>"

lemma apart_places:
  assumes "unat a + n \<le> unat b" and "unat b + n \<le> 4294967296"
  shows "apart a b n"
  unfolding apart_def
proof (intro allI impI)
  fix i j :: nat
  assume i: "i < n" "j < n"
  then have "unat (a + of_nat i - a) < n" "unat (b + of_nat j - b) < n" using assms by (simp_all add: unat_of_nat_u32)
  then show "a + of_nat i \<noteq> b + of_nat j" using places_apart [OF assms, of "a + of_nat i"] by metis
qed

theorem disk_read_card_witness:
  "\<exists>s' m' w'. disk_read demo_disk_os DRIVE_SDHC 0x12000005 7 2 (demo_slot, client_zero, \<lambda>_. 9, demo_card\<lparr> c_mode := Sd_Stby \<rparr>)
      = Some (RES_OK, s', client_zero, m', w') \<and> m' (0x12000005 + of_nat 600) = 8 \<and> m' 0x12000000 = 9"
proof -
  let ?w = "demo_card\<lparr> c_mode := Sd_Stby \<rparr>"
  have u: "sd_usable (demo_slot, with_mem (\<lambda>_. 9, ?w))"
    by (simp add: sd_usable_def sd_paired_def sd_bufs_def demo_slot_def demo_card_def sd_zero_def with_mem_def)
  have f: "sd_fits (demo_slot, with_mem (\<lambda>_. 9, ?w)) (unat (7 :: u32)) (unat (2 :: u8)) 0x13A00000"
    by (simp add: sd_fits_def demo_card_def with_mem_def)
  have b: "disk_buffer demo_disk_os 0x12000005 (ucast (2 :: u8) * 512) ?w = (Some 0x13A00000, ?w)"
    by (simp add: disk_buffer_def demo_disk_os_def)
  have a: "(0x13A00000 :: u32) = 0x12000005 \<or> apart 0x12000005 0x13A00000 (unat (2 :: u8) * 512)"
    by (rule disjI2, rule apart_places) simp_all
  obtain s' m' w' where r: "disk_read demo_disk_os DRIVE_SDHC 0x12000005 7 2 (demo_slot, client_zero, \<lambda>_. 9, ?w) = Some (RES_OK, s', client_zero, m', w')"
    and v: "\<forall>i < unat (2 :: u8) * 512. m' (0x12000005 + of_nat i) = sectors (c_blocks ?w) (unat (7 :: u32)) (unat (2 :: u8)) ! i"
    and o: "\<forall>x. unat (x - 0x12000005) < unat (2 :: u8) * 512 \<or> unat (x - 0x13A00000) < unat (2 :: u8) * 512 \<or> m' x = 9"
    using disk_read_card [OF u f _ _ b a, where c = client_zero] by (auto simp: demo_disk_os_def)
  have "sectors (c_blocks ?w) 7 2 ! (1 * 512 + 88) = c_blocks ?w (7 + 1) ! 88"
    by (rule nth_sectors) (simp_all add: demo_card_def)
  then have "m' (0x12000005 + of_nat 600) = 8" using v [rule_format, of 600] by (simp add: demo_card_def)
  moreover have "m' 0x12000000 = 9" using spec [OF o, of "0x12000000"] by simp
  ultimately show ?thesis using r by (intro exI conjI)
qed

section \<open>The USB drive\<close>

text \<open>
  C9. What the FAT library reads from the USB drive are its sectors, of any size up to the drive's, in a buffer of any
  alignment: through the glue, the client, the module and the mass storage driver. No other memory changes but the
  working buffers on the way.
\<close>

theorem disk_read_usb:
  assumes "um_host g = Some h" and "um_mounted g" and "usb_usable ss (um_lun g) (um_usbfd g, m, v)"
    and "words_apart b1 b2" and "0 \<le> uc_fd c" and "uc_fd c \<noteq> SDHC_FD" and "uc_sectorSz c = ss"
    and "unat sector + unat count \<le> 4294967296" and "unat count * unat ss < 4294967296" and "count \<noteq> 0"
    and "off_side (us_buffer (um_usbfd g)) b1 b2 b (unat count * unat ss)" and "dk_client D = module_os (bot_usb (unat ss)) K H mload b1 b2"
    and "disk_buffer D buff (ucast count * ss) (g, sd, v) = (Some b, g, sd, v)" and "b = buff \<or> apart buff b (unat count * unat ss)"
  shows "\<exists>m' w'. disk_read D DRIVE_EHCI buff sector count (s, c, m, g, sd, v) = Some (RES_OK, s, c, m', w')
    \<and> (\<forall>i < unat count * unat ss. m' (buff + of_nat i) = sectors (bt_disk v) (unat sector) (unat count) ! i)
    \<and> (\<forall>x. unat (x - buff) < unat count * unat ss \<or> unat (x - b) < unat count * unat ss
        \<or> side_area (us_buffer (um_usbfd g)) b1 b2 x \<or> m' x = m x)"
proof -
  let ?bs = "sectors (bt_disk v) (unat sector) (unat count)" and ?len = "ucast count * ss"
  let ?F = "\<lambda>x. unat (x - b) < unat count * unat ss \<or> side_area (us_buffer (um_usbfd g)) b1 b2 x"
  have n: "unat (ucast count :: u32) = unat count" by (simp add: unsigned_ucast_eq take_bit_nat_eq_self)
  have len: "unat ?len = unat count * unat ss" using assms(9) n by (simp add: unat_word_ariths)
  have ss: "ss \<noteq> 0" "\<And>i. length (bt_disk v i) = unat ss" using assms(3) by (simp_all add: usb_usable_def)
  then have pos: "0 < unat count * unat ss" using assms(10) by (simp add: unat_gt_0)
  have bs: "length ?bs = unat count * unat ss" using ss(2) by (rule length_sectors)
  obtain m2 k where r: "client_loop (dk_client D) False sector (ucast count) b 0 (c, m, g, sd, v)
      = Some (True, c, m2, g\<lparr> um_usbfd := (um_usbfd g)\<lparr> us_tag := k \<rparr> \<rparr>, sd, v)"
    and f: "filled (side_area (us_buffer (um_usbfd g)) b1 b2) m m2 b ?bs"
    using client_loop_read [OF assms(1-7), of sector "ucast count" 0 b K H mload sd] assms(8,9,11,12) n by auto
  have t: "drive_transfer D False DRIVE_EHCI sector (ucast count) b (s, c, m, g, sd, v)
      = Some (True, s, c, m2, g\<lparr> um_usbfd := (um_usbfd g)\<lparr> us_tag := k \<rparr> \<rparr>, sd, v)"
    using r assms(5) by (simp add: drive_transfer_def client_ReadSectors_def client_ReadWriteSectors_def)
  have sz: "SECTOR_SZ DRIVE_EHCI c = of_nat (unat ss)" using assms(5,7) by (simp add: SECTOR_SZ_def client_GetSectorSize_def)
  obtain m3 w3 where d: "disk_read D DRIVE_EHCI buff sector count (s, c, m, g, sd, v) = Some (RES_OK, s, c, m3, w3)"
    and f3: "filled ?F m m3 buff ?bs"
    using disk_read_fills [OF len pos sz u32_less _ assms(13) t f, where F = ?F] bs len assms(14) sz by auto
  have "m3 (buff + of_nat i) = ?bs ! i" if "i < unat count * unat ss" for i
    using f3 that bs assms(9) by (simp add: filled_def unat_of_nat_u32)
  then show ?thesis using d f3 bs unfolding filled_def by (intro exI [of _ m3] exI [of _ w3]) simp
qed

theorem disk_read_usb_witness:
  "\<forall>K S H mload sd. \<exists>m' w'. disk_read \<lparr> dk_slot = S, dk_client = module_os (bot_usb 512) K H mload 0x13A03000 0x13A03004,
        dk_alloc = (\<lambda>n w. (0x12800000, w)), dk_free = (\<lambda>p w. w) \<rparr> DRIVE_EHCI 0x12000005 7 100
        (sd_zero, \<lparr> uc_fd = 1, uc_sectorSz = 512 \<rparr>, \<lambda>_. 9, demo_ums, sd, demo_drive)
      = Some (RES_OK, sd_zero, \<lparr> uc_fd = 1, uc_sectorSz = 512 \<rparr>, m', w') \<and> m' (0x12000005 + of_nat 40000) = 85"
proof (intro allI)
  fix K S H mload sd
  let ?c = "\<lparr> uc_fd = 1, uc_sectorSz = 512 \<rparr>"
  let ?D = "\<lparr> dk_slot = S, dk_client = module_os (bot_usb 512) K H mload 0x13A03000 0x13A03004,
        dk_alloc = (\<lambda>n w. (0x12800000, w)), dk_free = (\<lambda>p w. w) \<rparr>"
  have u: "usb_usable 512 (um_lun demo_ums) (um_usbfd demo_ums, \<lambda>_. 9, demo_drive)"
    using demo_handle_ok by (simp add: usb_usable_def demo_ums_def ums_zero_def demo_drive_def demo_handle_def)
  have w: "words_apart 0x13A03000 0x13A03004"
    unfolding words_apart_def by (intro allI impI) (simp add: unat_sub_if' unat_arith_simps split: if_splits)
  have o: "off_side (us_buffer (um_usbfd demo_ums)) 0x13A03000 0x13A03004 0x12800000 (unat (100 :: u8) * unat (512 :: u32))"
    by (rule off_sideI) (simp_all add: demo_ums_def demo_handle_def)
  have a: "(0x12800000 :: u32) = 0x12000005 \<or> apart 0x12000005 0x12800000 (unat (100 :: u8) * unat (512 :: u32))"
    by (rule disjI2, rule apart_places) simp_all
  obtain m' w' where r: "disk_read ?D DRIVE_EHCI 0x12000005 7 100 (sd_zero, ?c, \<lambda>_. 9, demo_ums, sd, demo_drive) = Some (RES_OK, sd_zero, ?c, m', w')"
    and v: "\<forall>i < unat (100 :: u8) * unat (512 :: u32). m' (0x12000005 + of_nat i) = sectors (bt_disk demo_drive) (unat (7 :: u32)) (unat (100 :: u8)) ! i"
    using disk_read_usb [OF _ _ u w _ _ _ _ _ _ o _ _ a, where h = demo_host and c = ?c and sector = 7 and D = ?D and K = K and H = H and mload = mload
        and s = sd_zero and sd = sd]
    by (auto simp: demo_ums_def disk_buffer_def)
  have "sectors (bt_disk demo_drive) 7 100 ! (78 * 512 + 64) = bt_disk demo_drive (7 + 78) ! 64"
    by (rule nth_sectors) (simp_all add: demo_drive_def)
  then have "m' (0x12000005 + of_nat 40000) = 85" using v [rule_format, of 40000] by (simp add: demo_drive_def)
  then show "\<exists>m' w'. disk_read ?D DRIVE_EHCI 0x12000005 7 100 (sd_zero, ?c, \<lambda>_. 9, demo_ums, sd, demo_drive)
      = Some (RES_OK, sd_zero, ?c, m', w') \<and> m' (0x12000005 + of_nat 40000) = 85"
    using r by (intro exI conjI)
qed

end
