(* ===== verification/Ums_State.thy ===== *)
theory Ums_State
  imports Usb_Module
begin

text \<open>
  The states of the USB module: what its main loop keeps of the mounted drive, whatever the messages, the memory and
  the host do. WBFS requests keep it because the library only reads (\<open>kept_by_reads\<close>).
\<close>

text \<open>The host is there once the module is initialised; a mounted drive has an identity.\<close>

definition ums_inv :: "ums \<Rightarrow> bool" where
  "ums_inv g \<longleftrightarrow> (um_inited g \<longrightarrow> um_host g \<noteq> None) \<and> (um_mounted g \<longrightarrow> um_inited g \<and> um_vid g \<noteq> 0 \<and> um_pid g \<noteq> 0)
     \<and> (um_vid g = 0 \<longleftrightarrow> um_pid g = 0)"

text \<open>The part of the state the invariant reads.\<close>

definition ums_core :: "ums \<Rightarrow> bool \<times> bool \<times> bool \<times> u16 \<times> u16" where
  "ums_core g = (um_host g = None, um_inited g, um_mounted g, um_vid g, um_pid g)"

lemma ums_inv_core: "ums_core g' = ums_core g \<Longrightarrow> ums_inv g' = ums_inv g"
  by (auto simp: ums_core_def ums_inv_def)

section \<open>Operations\<close>

lemma read_core: "usbstorage_ReadSectors U s n b x = Some (ok, g', m', w') \<Longrightarrow> ums_core g' = ums_core (fst x)"
  by (auto simp: usbstorage_ReadSectors_def ums_core_def bind_eq_Some_conv split: if_splits prod.splits)

lemma write_core: "usbstorage_WriteSectors U s n b x = Some (ok, g', m', w') \<Longrightarrow> ums_core g' = ums_core (fst x)"
  by (auto simp: usbstorage_WriteSectors_def ums_core_def bind_eq_Some_conv split: if_splits prod.splits)

lemma capacity_core: "usbstorage_ReadCapacity U x = Some (r, g', m', w') \<Longrightarrow> ums_core g' = ums_core (fst x)"
  by (auto simp: usbstorage_ReadCapacity_def ums_core_def bind_eq_Some_conv split: if_splits prod.splits)

lemma close_device_host:
  assumes "USB_CloseDevice U host d w = Some (r, fd, host', w')"
  shows "host' = None \<longleftrightarrow> host = None"
proof (cases host)
  case None
  then show ?thesis using assms by (auto simp: USB_CloseDevice_def bind_eq_Some_conv split: if_splits)
next
  case (Some h)
  obtain rs w1 where "call_removal U d (remove_cb h) w = (rs, w1)" by fastforce
  then show ?thesis using assms Some by (auto simp: USB_CloseDevice_def Let_def bind_eq_Some_conv split: if_splits)
qed

lemma close_storage_host: "USBStorage_Close U host dev w = Some (r, dev', host', w') \<Longrightarrow> host' = None \<longleftrightarrow> host = None"
  by (auto simp: USBStorage_Close_def Let_def bind_eq_Some_conv split: if_splits dest: close_device_host)

lemma close_core: "close_usbfd U x = Some (g', m', w') \<Longrightarrow> ums_core g' = ums_core (fst x)"
  by (auto simp: close_usbfd_def ums_core_def bind_eq_Some_conv split: prod.splits dest!: close_storage_host)

lemma bind_last:
  "do { (r, w) \<leftarrow> A; ((a, b), c, d) \<leftarrow> F r w; G a b c d } = Some y \<Longrightarrow> \<exists>a b c d. G a b c d = Some y"
  by (auto simp: bind_eq_Some_conv)

lemma open_storage_host:
  assumes "USBStorage_Open U host dev i m w = Some ((r, dev', host'), m', w')"
  shows "host' = None \<longleftrightarrow> host = None"
proof -
  obtain p w0 where p: "uo_alloc U 1 w = (p, w0)" by fastforce
  show ?thesis
  proof (cases "p = 0")
    case True
    then show ?thesis using assms unfolding USBStorage_Open_def p by simp
  next
    case False
    note s = assms [unfolded USBStorage_Open_def p Let_def prod.case if_not_P [OF False]]
    from bind_last [OF s] show ?thesis
      by (auto simp: bind_eq_Some_conv split: if_splits dest: close_storage_host)
  qed
qed

lemma startup_inv:
  assumes "usbstorage_Startup U x = Some (ok, g', m', w')" and "ums_inv (fst x)"
  shows "ums_inv g'"
proof -
  have init: "r < 0 \<or> (\<exists>h. host' = Some h)" if "USB_Init U host w = Some (r, host', w')" for host host' r w w'
    using that by (auto simp: USB_Init_def Let_def bind_eq_Some_conv split: if_splits prod.splits)
  show ?thesis using assms
    by (cases x) (auto simp: usbstorage_Startup_def ums_inv_def bind_eq_Some_conv split: if_splits dest!: init)
qed

lemma check_unit_core: "check_unit U j x = Some (ok, g', m', w') \<Longrightarrow> ums_core g' = ums_core (fst x)"
  by (auto simp: check_unit_def ums_core_def bind_eq_Some_conv Let_def split: if_splits prod.splits)

text \<open>A search for a unit mounts the device it was given.\<close>

lemma try_units_core:
  assumes "try_units U vid pid j left x = Some (g', m', w')"
  shows "ums_core g' = ums_core (fst x) \<or> ums_core g' = (um_host (fst x) = None, um_inited (fst x), True, vid, pid)"
  using assms
proof (induction left arbitrary: j x)
  case (Suc left)
  obtain g m w where x: "x = (g, m, w)" by (cases x)
  obtain r dev m1 w1 where 1: "USBStorage_MountLUN U (um_host g) (um_usbfd g) (of_nat j) m w = Some ((r, dev), m1, w1)"
    using Suc.prems by (auto simp: x bind_eq_Some_conv)
  have c: "ums_core (g\<lparr> um_usbfd := dev \<rparr>) = ums_core g" by (simp add: ums_core_def)
  show ?case
  proof (cases "r = USBSTORAGE_ETIMEDOUT \<or> r < 0")
    case True
    then show ?thesis using Suc.prems Suc.IH [of "Suc j" "(g\<lparr> um_usbfd := dev \<rparr>, m1, w1)"] c
      by (auto simp: x 1 Let_def ums_core_def split: if_splits)
  next
    case False
    then obtain ok g2 m2 w2 where 2: "check_unit U (of_nat j) (g\<lparr> um_usbfd := dev \<rparr>, m1, w1) = Some (ok, g2, m2, w2)"
      and r: "(if ok then Some (g2\<lparr> um_mounted := True, um_lun := of_nat j, um_vid := vid, um_pid := pid \<rparr>, m2, w2)
               else try_units U vid pid (Suc j) left (g2, m2, w2)) = Some (g', m', w')"
      using Suc.prems by (auto simp: x 1 Let_def bind_eq_Some_conv)
    have "ums_core g2 = ums_core g" using check_unit_core [OF 2] c by simp
    then show ?thesis using r Suc.IH [of "Suc j" "(g2, m2, w2)"] by (auto simp: x ums_core_def split: if_splits)
  qed
qed simp

lemma try_devices_inv:
  assumes "try_devices U es x = Some (g', m', w')" and "ums_inv (fst x)" and "um_inited (fst x)"
  shows "ums_inv g' \<and> um_inited g'"
  using assms
proof (induction es arbitrary: x)
  case (Cons e es)
  obtain g m w where x: "x = (g, m, w)" by (cases x)
  show ?case
  proof (cases "de_vid e = 0 \<or> de_pid e = 0")
    case True
    then show ?thesis using Cons by (auto simp: x)
  next
    case False
    then obtain r dev host m1 w1 where 1: "USBStorage_Open U (um_host g) (um_usbfd g) (de_id e) m w = Some ((r, dev, host), m1, w1)"
      using Cons.prems(1) by (auto simp: x bind_eq_Some_conv)
    let ?g1 = "g\<lparr> um_usbfd := dev, um_host := host \<rparr>"
    have i1: "ums_inv ?g1" "um_inited ?g1" using Cons.prems(2,3) open_storage_host [OF 1] by (auto simp: x ums_inv_def)
    show ?thesis
    proof (cases "r < 0")
      case True
      then show ?thesis using Cons.prems(1) False Cons.IH [of "(?g1, m1, w1)"] i1 by (simp add: x 1)
    next
      case F: False
      obtain g2 m2 w2 where 2: "try_units U (de_vid e) (de_pid e) 0 (nat (USBStorage_GetMaxLUN dev)) (?g1, m1, w1) = Some (g2, m2, w2)"
        and r: "(if um_mounted g2 then Some (g2, m2, w2) else do { y \<leftarrow> close_usbfd U (g2, m2, w2); try_devices U es y }) = Some (g', m', w')"
        using Cons.prems(1) False F by (auto simp: x 1 bind_eq_Some_conv Let_def)
      have i2: "ums_inv g2" "um_inited g2"
        using try_units_core [OF 2] i1 False by (auto simp: ums_core_def ums_inv_def)
      show ?thesis
      proof (cases "um_mounted g2")
        case True
        then show ?thesis using r i2 by simp
      next
        case False
        then obtain g3 m3 w3 where 3: "close_usbfd U (g2, m2, w2) = Some (g3, m3, w3)" and r3: "try_devices U es (g3, m3, w3) = Some (g', m', w')"
          using r by (auto simp: bind_eq_Some_conv)
        have "ums_inv g3" "um_inited g3" using i2 close_core [OF 3] by (auto simp: ums_core_def ums_inv_def)
        then show ?thesis using Cons.IH [OF r3] by simp
      qed
    qed
  qed
qed simp

lemma inserted_inv:
  assumes "usbstorage_IsInserted U x = Some (ok, g', m', w')" and "ums_inv (fst x)"
  shows "ums_inv g'"
proof -
  obtain g m w where x: "x = (g, m, w)" by (cases x)
  let ?g = "g\<lparr> um_mounted := False \<rparr>"
  have i: "ums_inv ?g" using assms(2) by (simp add: x ums_inv_def)
  have fail: "ums_inv (g3\<lparr> um_mounted := False, um_lun := 0, um_vid := 0, um_pid := 0 \<rparr>)"
    if "close_usbfd U (g2, m2, w2) = Some (g3, m3, w3)" "ums_inv g2" for g2 m2 w2 g3 m3 w3
    using close_core [OF that(1)] that(2) by (auto simp: ums_core_def ums_inv_def)
  obtain p w1 where p: "uo_alloc U 96 w = (p, w1)" by fastforce
  show ?thesis
  proof (cases "um_inited g \<and> p \<noteq> 0")
    case False
    then show ?thesis using assms i by (auto simp: x p usbstorage_IsInserted_def Let_def split: if_splits)
  next
    case True
    then have up: "um_inited ?g" by simp
    obtain r devs where d: "USB_GetDeviceList (um_host ?g) DEVLIST_MAXSIZE USB_CLASS_MASS_STORAGE = Some (r, devs)"
      using assms(1) True by (auto simp: x p usbstorage_IsInserted_def Let_def bind_eq_Some_conv)
    show ?thesis
    proof (cases "r < 0 \<or> um_vid g \<noteq> 0 \<or> um_pid g \<noteq> 0")
      case T: True
      have "ums_inv g" "um_inited g" using assms(2) True by (simp_all add: x)
      then have again: "\<not> r < 0 \<Longrightarrow> ums_inv (g\<lparr> um_mounted := True \<rparr>)" using T by (auto simp: ums_inv_def)
      show ?thesis
        using assms(1) T True d again
        by (auto simp: x p usbstorage_IsInserted_def Let_def bind_eq_Some_conv split: if_splits dest!: fail [OF _ i])
    next
      case F: False
      then obtain g3 m3 w3 where t: "try_devices U devs (?g, m, uo_usleep U 100 w1) = Some (g3, m3, w3)"
        and r: "(if um_mounted g3 then Some (True, g3, m3, uo_free U p w3)
                 else do { (g', m', w') \<leftarrow> close_usbfd U (g3, m3, w3);
                           Some (False, g'\<lparr> um_mounted := False, um_lun := 0, um_vid := 0, um_pid := 0 \<rparr>, m', uo_free U p w') })
               = Some (ok, g', m', w')"
        using assms(1) True d by (auto simp: x p usbstorage_IsInserted_def Let_def bind_eq_Some_conv)
      have "ums_inv g3" using try_devices_inv [OF t] i up by simp
      then show ?thesis using r fail by (auto simp: bind_eq_Some_conv split: if_splits)
    qed
  qed
qed

lemma shutdown_core: "usbstorage_Shutdown U x = Some (ok, g', m', w') \<Longrightarrow> ums_core g' = ums_core (fst x)"
  by (auto simp: usbstorage_Shutdown_def bind_eq_Some_conv split: prod.splits if_splits dest: close_core)

section \<open>WBFS requests\<close>

text \<open>What the sector callback of the library keeps: a state with the given core, or none.\<close>

definition has_core :: "bool \<times> bool \<times> bool \<times> u16 \<times> u16 \<Rightarrow> ('w ums_world) option \<Rightarrow> bool" where
  "has_core c d \<longleftrightarrow> (\<forall>x. d = Some x \<longrightarrow> ums_core (fst x) = c)"

interpretation usb_wbfs: kept_by_reads "usb_sectors U H" "has_core c" for U H c
proof
  show "has_core c (snd (read_hdsector (usb_sectors U H) lba n d))" if "has_core c d" for d lba n
    using that
    by (auto simp: usb_sectors_def has_core_def split: option.splits bind_splits dest: read_core)
qed (simp add: usb_sectors_def)

lemma open_disc_inv:
  assumes "WBFS_OpenDisc U H discid x = Some (r, g', m', w')" and "ums_inv (fst x)"
  shows "ums_inv g'"
proof -
  obtain ok g1 m1 w1 where 1: "usbstorage_Startup U x = Some (ok, g1, m1, w1)"
    using assms(1) by (auto simp: WBFS_OpenDisc_def bind_eq_Some_conv)
  have i1: "ums_inv g1" using startup_inv [OF 1 assms(2)] .
  show ?thesis
  proof (cases ok)
    case False
    then show ?thesis using assms(1) 1 i1 by (simp add: WBFS_OpenDisc_def)
  next
    case True
    then obtain ok2 cap g2 m2 w2 where 2: "usbstorage_ReadCapacity U (g1, m1, w1) = Some ((ok2, cap), g2, m2, w2)"
      using assms(1) 1 by (auto simp: WBFS_OpenDisc_def bind_eq_Some_conv)
    let ?g3 = "case cap of None \<Rightarrow> g2 | Some (ss, n) \<Rightarrow> g2\<lparr> um_sectorSz := ss, um_nbSector := n \<rparr>"
    have c3: "ums_core ?g3 = ums_core g1" using capacity_core [OF 2] by (auto simp: ums_core_def split: option.splits)
    show ?thesis
    proof (cases ok2)
      case False
      then have "g' = ?g3" using assms(1) 1 2 True by (simp add: WBFS_OpenDisc_def Let_def)
      then show ?thesis using i1 ums_inv_core [OF c3] by simp
    next
      case T2: True
      then obtain f g4 where 4: "front_open (usb_sectors U H) H 3 (um_sectorSz ?g3) (rdm m2 discid 6) (um_front ?g3, Some (?g3, m2, w2))
          = Some (r, f, Some (g4, m', w'))" and g': "g' = g4\<lparr> um_front := f \<rparr>"
        using assms(1) 1 2 True by (simp add: WBFS_OpenDisc_def Let_def bind_eq_Some_conv) (elim exE conjE, simp)
      have "has_core (ums_core g1) (Some (g4, m', w'))"
        by (rule usb_wbfs.front_open_kept [OF _ 4]) (simp add: has_core_def c3)
      then have "ums_core g' = ums_core g1" by (simp add: has_core_def g' ums_core_def)
      then show ?thesis using i1 ums_inv_core by blast
    qed
  qed
qed

lemma wbfs_read_core:
  assumes "WBFS_Read U H buffer len offset x = Some (r, g', m', w')"
  shows "ums_core g' = ums_core (fst x)"
proof -
  obtain g m w where x: "x = (g, m, w)" by (cases x)
  obtain r1 g1 m1 w1 where f: "front_read (usb_sectors U H) len offset (um_front g, Some x) = Some (r1, Some (g1, m1, w1))"
    and r: "(case r1 of Inl e \<Rightarrow> (e, g1, m1, w1) | Inr bs \<Rightarrow> (0, g1, wr m1 buffer bs, w1)) = (r, g', m', w')"
    using assms by (auto simp: x WBFS_Read_def bind_eq_Some_conv)
  have "g' = g1 \<and> w' = w1" using r by (cases r1) simp_all
  then have "front_read (usb_sectors U H) len offset (um_front g, Some x) = Some (r1, Some (g', m1, w'))" using f by simp
  then have "has_core (ums_core g) (Some (g', m1, w'))"
    by (rule usb_wbfs.front_read_kept [rotated]) (simp add: has_core_def x)
  then show ?thesis by (simp add: has_core_def x)
qed

section \<open>The main loop\<close>

lemma ioctlv_inv:
  assumes "USB_Ioctlv U H cmd vec x = Some (r, g', m', w')" and "ums_inv (fst x)"
  shows "ums_inv g'"
proof -
  have cap: "ums_core g' = ums_core (fst y)" if "get_capacity U out y = Some (r, g', m', w')" for out y
    using that by (auto simp: get_capacity_def bind_eq_Some_conv split: if_splits dest: capacity_core)
  have keep: "ums_inv g'" if "ums_core g' = ums_core (fst x)" using ums_inv_core [OF that] assms(2) by simp
  have c: "code_of y = Some (r, g', m', w') \<longleftrightarrow> (\<exists>ok. y = Some (ok, g', m', w') \<and> r = not_ok ok)" for y
    by (cases y) (auto simp: code_of_def)
  from assms(1) show ?thesis
    by (cases x) (auto simp: USB_Ioctlv_def c bind_eq_Some_conv split: if_split_asm
      intro: startup_inv [OF _ assms(2)] inserted_inv [OF _ assms(2)] open_disc_inv [OF _ assms(2)]
        keep read_core write_core cap shutdown_core wbfs_read_core)
qed

lemma device_change_host: "USB_DeviceChange U host r w = Some (v, host', w') \<Longrightarrow> host' = None \<longleftrightarrow> host = None"
  by (auto simp: USB_DeviceChange_def Let_def split: option.splits if_splits prod.splits)

lemma main_step_inv:
  assumes "usb_main_step U K H mload msg (g, sd, m, w) = Some (r, g', sd', m', w')" and "ums_inv g"
  shows "ums_inv g'"
proof (cases msg)
  case (Msg_Devchange v)
  then show ?thesis using assms
    by (auto simp: usb_main_step_def USB_Callback_def bind_eq_Some_conv ums_inv_def dest!: device_change_host)
qed (use assms in \<open>auto simp: usb_main_step_def USB_Callback_def split: if_splits prod.splits dest: inserted_inv ioctlv_inv\<close>)

text \<open>The states of the module: those its messages lead to, while the host fills the list of devices.\<close>

inductive ums_reach :: "'w usb_os \<Rightarrow> (memory \<times> 'w) sd_os \<Rightarrow> wbfs_heap \<Rightarrow> ('w \<Rightarrow> mload_state) \<Rightarrow> ums \<Rightarrow> bool"
  for U K H mload
where
  start: "ums_reach U K H mload ums_zero"
| message: "ums_reach U K H mload g \<Longrightarrow> usb_main_step U K H mload msg (g, sd, m, w) = Some (r, g', sd', m', w')
    \<Longrightarrow> ums_reach U K H mload g'"
| devices: "ums_reach U K H mload g \<Longrightarrow> um_host g = Some h \<Longrightarrow> length es = USB_MAX_DEVICES
    \<Longrightarrow> ums_reach U K H mload (g\<lparr> um_host := Some (h\<lparr> attached_devices := es \<rparr>) \<rparr>)"

text \<open>
  C13. In every state the module reaches, by messages and changes of the list of devices in any order and over any
  memory, the host is open once the module is initialised, and a drive is mounted only in an initialised module
  and under a vendor and a product number that are not zero, by which it is found again.
\<close>

theorem usb_module_invariant:
  assumes "ums_reach U K H mload g"
  shows "(um_inited g \<longrightarrow> um_host g \<noteq> None) \<and> (um_mounted g \<longrightarrow> um_inited g \<and> um_vid g \<noteq> 0 \<and> um_pid g \<noteq> 0)
    \<and> (um_vid g = 0 \<longleftrightarrow> um_pid g = 0)"
proof -
  from assms have "ums_inv g"
  proof induction
    case start
    show ?case by (simp add: ums_inv_def ums_zero_def)
  next
    case (message g msg sd m w r g' sd' m' w')
    from main_step_inv [OF message(2,3)] show ?case .
  next
    case (devices g h es)
    then show ?case by (simp add: ums_inv_def)
  qed
  then show ?thesis by (simp add: ums_inv_def)
qed

definition quiet_usb :: "unit usb_os" where
  "quiet_usb = \<lparr> uo_open = (\<lambda>n w. (5, w)), uo_close = (\<lambda>fd w. w), uo_ioctl = (\<lambda>fd c i n w. ((0, [0, 5, 0, 1] @ replicate 28 0), w)),
     uo_ioctlv = (\<lambda>fd c i n msg a len m w. (0, m, w)), uo_ioctl_async = (\<lambda>fd c w. w), uo_alloc = (\<lambda>n w. (0x13A00000, w)),
     uo_free = (\<lambda>p w. w), uo_callback = (\<lambda>c u w. w), uo_usleep = (\<lambda>n w. w), uo_queue_send = (\<lambda>q w. w), uo_stack = 0x13A01000 \<rparr>"

theorem usb_module_invariant_witness:
  "\<forall>K H. \<exists>g. ums_reach quiet_usb K H (\<lambda>w. mload_zero) g \<and> um_inited g \<and> um_host g \<noteq> None"
proof (intro allI)
  fix K H
  let ?g = "ums_zero\<lparr> um_host := Some (host_zero\<lparr> host_fd := 5 \<rparr>), um_inited := True \<rparr>"
  have "usb_main_step quiet_usb K H (\<lambda>w. mload_zero) (Msg_Ioctlv 1 IOCTL_UMS_INIT []) (ums_zero, sdhc_zero, \<lambda>_. 0, ())
      = Some (Some 0, ?g, sdhc_zero, \<lambda>_. 0, ())"
    by (simp add: usb_main_step_def USB_Callback_def USB_Ioctlv_def code_of_def usbstorage_Startup_def USB_Init_def quiet_usb_def
        ums_zero_def rd32_def rd_block_def be32_def not_ok_def)
  then have "ums_reach quiet_usb K H (\<lambda>w. mload_zero) ?g" by (rule ums_reach.message [OF ums_reach.start])
  with usb_module_invariant [OF this] show "\<exists>g. ums_reach quiet_usb K H (\<lambda>w. mload_zero) g \<and> um_inited g \<and> um_host g \<noteq> None"
    by (intro exI [of _ ?g]) simp
qed

end
