(* ===== verification/Spec2Isabelle.thy ===== *)
theory Spec2Isabelle
  imports RA_Serve RA_Sync USB_Link Exi Wbfs Dip_Plugin Ffs_Fat Mload Es_Plugin Diskio Ums_State
begin

text \<open>
  A verification library for d2x-cios: a set of modules that run on the I/O processor of a
  Wii, beside the game on the main processor. Seven of its parts are modelled: the
  RetroAchievements client (\<open>source/ra-module\<close>), which samples the game's memory each frame and
  exchanges messages with an adapter on the USB port or the memory card bus; the two disc
  image readers (\<open>source/dip-plugin/frag.c\<close> and \<open>source/cios-lib/libwbfs\<close>); the disc
  interface plugin (\<open>source/dip-plugin\<close>), which answers the game's disc commands from an image or
  from the drive; the emulated memory: the file system plugin (\<open>source/ffs-plugin\<close>), which
  answers the requests of titles for files from a FAT partition, the module that serves that
  partition (\<open>source/fat-module\<close>), and the rights of threads that keep both out of reach of
  a running title (\<open>source/mload-module\<close>); and what they stand on: the title plugin
  (\<open>source/es-plugin\<close>), which carries the modes over a reload of the system, the requests and the loader of
  the kernel patcher, and the C library and the file system client the modules share (\<open>source/cios-lib\<close>); and the storage below
  them: the USB module (\<open>source/usb-module\<close>) with its mass storage driver, the client through which the plugins and the FAT module reach it, and
  the SD card driver with its server (\<open>source/cios-lib\<close>).

  \<^bold>\<open>Conventions.\<close> Machine integers are words of the source's width, so arithmetic wraps where the
  code's does; return codes are \<open>s32 = int\<close>. Buffers are byte lists. A result in \<open>option\<close> is
  \<open>None\<close> exactly where the code would read or write outside a buffer, shift by the width or
  more, divide by zero, or never return; the theorems that an operation returns are proved as such.
  Code the sources only call is a parameter: the transport (\<open>ra_link\<close>), the kernel of the USB build
  (\<open>usb_kernel\<close>), the registers of the bus (\<open>exi_hw\<close>), sleeping, LED and shared words
  (\<open>ra_env\<close>), the drives (\<open>frag_disk\<close>, \<open>wbfs_dev\<close>, \<open>drive\<close>), files (\<open>files\<close>), what else the disc
  interface calls (\<open>dip_env\<close>), the kernel below the file system plugin (\<open>ffs_env\<close>), below the patcher
  (\<open>mload_env\<close>), below the file system client (\<open>os_calls\<close>) and below the title plugin (\<open>es_env\<close>), the USB host module (\<open>usb_os\<close>), the card slot (\<open>sd_os\<close>), the
  kernel below the storage client (\<open>client_os\<close>), what the drives of the FAT library stand on (\<open>disk_os\<close>), and FatFs with the
  heap and the storage drivers (\<open>fat_env\<close>). Nothing is assumed of them but what a
  theorem states.

  \<^bold>\<open>The theories.\<close>

  \<^item> \<open>Cios_Prelude\<close>: byte lists, checked reads, bitmaps, big-endian words; the locale \<open>wire_codec\<close> of
    packet layouts.

  \<^item> \<open>RA_Protocol\<close> (\<open>gc_ra_protocol.h\<close>): codes, packets and their layout, each an interpretation of
    \<open>wire_codec\<close>.

  \<^item> \<open>RA_Util\<close> (\<open>main.c\<close>, \<open>vi.c\<close>): the bitwise CRC32, shown to detect every change inside four
    bytes; the debug formatter, shown to round-trip; the timer conversion.

  \<^item> \<open>RA_Chain\<close> (\<open>ra_chain_walk\<close> and its helpers): the table of pointer chains and the per-frame walk.
    \<open>chain_sem\<close> is the meaning of a node as a recursive function of the memory; the walk over
    the arrays refines it. Every byte of an accepted access lies in the game's memory.

  \<^item> \<open>RA_Link\<close>: packet headers, debug channel, the retry loop of the chunk fetches (three attempts), and
    the locale \<open>ra_transport\<close>, the contract of a transport (the receive buffer keeps its size),
    interpreted by \<open>USB_Link\<close> and \<open>Exi\<close>.

  \<^item> \<open>RA_Chain_Fetch\<close> (\<open>ra_fetch_chain_table\<close>): whatever the adapter sends, the table is well formed.

  \<^item> \<open>RA_Watchlist\<close> (\<open>ra_fetch_watchlist\<close>, \<open>ra_parse_response\<close>, \<open>ra_do_resync\<close>): the list of watched
    addresses. \<open>RA_Serve\<close> specifies an adapter that serves a list and shows the fetch to return it.
    \<open>RA_Sync\<close> specifies the numbered mutations of the adapter's history and shows the list to
    be a prefix of the history under losses, repetitions and reordering, and to catch up.

  \<^item> \<open>RA_Snapshot\<close> (\<open>ra_send_snapshot\<close> up to the transfer): the message fits the budget, decodes to the
    sampled values, chains and history, the window rotates over every slot.

  \<^item> \<open>RA_Fire\<close> (\<open>ra_send_snapshot\<close>, \<open>ra_snap_collect\<close>, \<open>ra_send_addr_response\<close> and the body of a fire):
    at most twelve query rounds; bounds of the parser.

  \<^item> \<open>RA_Main\<close> (\<open>ra_poll_thread\<close>, \<open>__RA_Ioctlv\<close>, \<open>main\<close>): the wait for a game, start-up, schedule,
    celebration and diagnostics; \<open>poll_reach\<close> are the states at the head of the main loop.

  \<^item> \<open>USB_Link\<close> (\<open>usb_link.c\<close>): discovery, synchronous exchange, pipelined post and reap, with the state
    machine of the exchange; \<open>usb_reach\<close> are its states.

  \<^item> \<open>Exi\<close> (\<open>exi.c\<close>, the transfers of \<open>mload-module/swi.c\<close>, the memory card build of \<open>main.c\<close>): bounded
    polls, transfers word by word and batched, shown equivalent on an ideal bus.

  \<^item> \<open>Frag\<close> (\<open>dip-plugin/frag.c\<close>): the reader refines the image its fragment list describes.

  \<^item> \<open>Wbfs\<close> (\<open>libwbfs.c\<close>): partition, discs, reads inside a block, block allocation.

  \<^item> \<open>Dip_Drive\<close> (\<open>dip.c\<close>, \<open>dma.c\<close>): reads of the disc by sectors refine the disc; only the last error
    of a read is reported.

  \<^item> \<open>Dip_Config\<close> (\<open>config.c\<close>): the state saved before a reload is the state loaded after it.

  \<^item> \<open>Dip_Plugin\<close> (\<open>plugin.c\<close>, \<open>wbfs.c\<close>): every command and request; \<open>dip_reach\<close> are the states they lead
    to from the start after a load or a reload. A redirection is on only over an open medium, unless the start
    restored it without one, and a running title cannot change it.

  \<^item> \<open>Fat_Tools\<close> (\<open>cios-lib/fat_tools.c\<close>): escaping of names, with the names on which unescaping is its inverse.

  \<^item> \<open>Stealth\<close> (\<open>mload-module/tid.c\<close>, cases 32 to 37 of \<open>swi.c\<close>, \<open>cios-lib/stealth.c\<close>): the table of thread
    rights refines the sets of rights granted (locale \<open>rights_table\<close>); rights come from grants only.

  \<^item> \<open>Ffs_Paths\<close> (\<open>ffs-plugin/fs_tools.c\<close>) and \<open>Ffs_Plugin\<close> (\<open>plugin.c\<close>, \<open>fat.c\<close>, \<open>iop.c\<close>): the path rules, every
    request, the table of open files, the hook of the open call; \<open>fs_reach\<close> are the states of the
    plugin, all of them well typed. A running title changes nothing and sees no path of the partition.

  \<^item> \<open>Fat_Module\<close> (\<open>fat-module/fat_wrapper.c\<close>, \<open>main.c\<close>): every message of the module. Listings and usage are
    compared with the directory (\<open>dir_lists\<close>) and the tree (\<open>node\<close>, \<open>on_disk\<close>) that the library shows.

  \<^item> \<open>Ffs_Fat\<close>: the plugin linked to the module; the relative and the absolute name of a file agree after
    the first selection of a folder, and not after a later one.

  \<^item> \<open>Libc\<close> (\<open>cios-lib/libc.c\<close>): memory and string routines on an explicit memory of bytes, where the lower
    memory takes words only; each equals the plain routine on bytes or strings.

  \<^item> \<open>Mload\<close> (\<open>mload-module/main.c\<close>, \<open>elf.c\<close>, \<open>debug.c\<close>): the requests of the patcher's device and the loader, which
    places the segments its image describes.

  \<^item> \<open>Isfs\<close> (\<open>cios-lib/isfs.c\<close>): the client of the file system module with its shared buffer. Its messages are
    those \<open>Ffs_Plugin\<close> reads, and over a module that keeps them (\<open>fs_service\<close>) it is a store of files
    (\<open>file_store\<close>), as the saved states need it.

  \<^item> \<open>Es_Plugin\<close> (\<open>es-plugin/plugin.c\<close>, \<open>config.c\<close>, \<open>di.c\<close>, \<open>main.c\<close>): every request of the title plugin. The block of
    reloads survives the reload a game asks for, a running title cannot change what is launched, and the
    menu leaves the emulated memory of \<open>Ffs_Plugin\<close>.

  \<^item> \<open>Usb2\<close> (\<open>usb-module/usb2.c\<close>): the client of the USB host module; \<open>Usb_Storage\<close> (\<open>usbstorage.c\<close>): the
    bulk-only mass storage driver. \<open>Disk_Blocks\<close> holds the disk both storage drivers are compared with and the contract
    \<open>sector_driver\<close> they interpret. \<open>Usb_Disk\<close> specifies a drive (\<open>bot_usb\<close>): reads and writes of the driver are
    reads and writes of its sectors. A command the drive reports as failed is returned as success, and a read
    that is tried again after a stall writes before its buffer.

  \<^item> \<open>Sdio\<close> (\<open>cios-lib/sdio.c\<close>): the SD card driver. \<open>Sd_Card\<close> specifies a card that counts bytes or sectors, is busy for a while
    and may fail: the start-up succeeds exactly for the cards it can start (a card of the first version
    of the specification, which does not answer the voltage check, only when the system has started it) and brings
    them to the state in which reads and writes are those of its sectors. A
    transfer that is tried again goes elsewhere on a card that counts bytes.

  \<^item> \<open>Wbfs_Front\<close>: the partition and the disc that the modules keep open between requests, with the states of the two
    pointers; the locale \<open>kept_by_reads\<close> carries what sector reads keep through the library. \<open>Sdhc_Server\<close>
    (\<open>cios-lib/sdhc_server.c\<close>): the requests on the card.

  \<^item> \<open>Usb_Module\<close> (\<open>usb-module/usbglue.c\<close>, \<open>wbfs.c\<close>, \<open>main.c\<close>): mounting, requests and the main loop; \<open>Ums_State\<close>: \<open>ums_reach\<close> are its
    states, with their invariant. \<open>Ums_Client\<close> (\<open>cios-lib/usbstorage.c\<close>): the client of the device; \<open>Ums_Disk\<close> composes
    client, module, driver and drive: a read of any size returns the sectors of the drive. It also shows what
    the client is told when no drive is mounted, and after an unmount.

  \<^item> \<open>Diskio\<close> (\<open>fat-module/diskio.c\<close>): the drives of the FAT library, on top of the card driver and the storage client: what the
    library reads are the sectors of the card or the drive, at any alignment. The locale \<open>slot_view\<close> carries the
    card driver from one world to another.

  This theory holds the property that spans the disc interface and the fragment reader: from the
  command that installs a list to the bytes a read returns.

  \<^bold>\<open>Bounds.\<close> Loops with a bound in the code carry that bound: 32 chunks of a fetch, three
  attempts, twelve query rounds, 100000 polls of a transfer, 200 yields, 30 starts of the USB
  link. \<open>idx_advance\<close> takes as fuel the number of fragments plus one, enough because each
  step moves on in the list. The wait for a game, the waits for the kernel's
  messages, the sector loops of WBFS and of the disc drive and the walks over directories of a FAT
  partition may not end and are partial functions into \<open>option\<close>.

  \<^bold>\<open>Left out of the modelled files.\<close> The debug lines that \<open>RA_DEBUG_SEND 0\<close> compiles out of
  \<open>ra_parse_response\<close> and \<open>ra_fetch_chain_table\<close>, and the builds that the other switches at the head of
  \<open>main.c\<close> turn off; the start-up of the module before its threads run; \<open>wbfs_add_disc\<close> and
  \<open>wbfs_trim\<close>, which rest on the disc parser of \<open>wiidisc.c\<close>.

  \<^bold>\<open>Not modelled.\<close> FatFs (\<open>ff.c\<close>, \<open>ccsbcs.c\<close>) and the AES of \<open>rijndael.c\<close> are third-party code;
  \<open>usbprobe.c\<close> is a measurement build; the host controller drivers are register programming;
  \<open>start.s\<close> is assembly; the patches of the original modules are writes at fixed addresses. The EHCI module, the
  alternative to the USB module, programs the host controller itself; of \<open>cios-lib\<close> the wrappers of kernel calls and the string
  formatter of the debug output are left out.
\<close>

definition demo_media :: "unit dip_env" where
  "demo_media = (demo_dip False)\<lparr> pe_frag_ready := \<lambda>_ _. True, pe_mem := \<lambda>_ _ _. demo_list, pe_disk := \<lambda>_. demo_disk \<rparr>"

text \<open>
  C5. From the set-up command to the bytes of the game: after the loader has switched the fragment
  mode on with a list in its memory, a read of the game returns success and exactly the bytes of
  the image that the list describes, from the game's offset moved by the two base offsets, and
  leaves the rest of the buffer alone.
\<close>

theorem emulated_read_returns_image:
  assumes "rd inbuf 0 = Some 0xF9000000" and "rd inbuf 1 = Some DEV_USB" and "rd inbuf 2 = Some fl"
    and "rd inbuf 3 = Some sz" and "pe_running_title E d = (False, d1)"
    and "DI_EmulateCmd E addr inbuf mem out n st d = Some (res, st', d')" and "DI_ChkMode st' MODE_FRAG"
    and "pe_usb_sector E d1 = 2 ^ k" and "2 \<le> k" and "k < 32"
    and "ff = dec_FragList (take (nat (sint sz)) (pe_mem E (fl AND 0x7FFFFFFF) (unat sz) d1))" and "frag_wf ff"
    and "disk_ok (pe_disk E d2) DEV_USB dsect (2 ^ k)" and "unat (fl_size ff) \<le> MAX_IDX * 32768"
    and "cmd = 0x8D \<or> cmd = IOCTL_DI_READ_A8" and "rd inbuf2 0 = Some (push_bit 24 cmd)"
    and "rd inbuf2 1 = Some len" and "rd inbuf2 2 = Some offset" and "fst (DI_CheckOffset offset st') = 0"
    and "w = offset + (dc_offset0 (config st) + dc_offset1 (config st))" and "unat len \<le> length out2"
    and "4 * unat w + unat len \<le> unat (fl_size ff) * 2 ^ k" and "4 * unat w + unat len < 17179869184"
  shows "DI_EmulateCmd E addr2 inbuf2 mem2 out2 n2 st' d2
    = Some ((0, blit out2 0 (take (unat len) (drop (4 * unat w) (disc_image dsect (2 ^ k) ff)))), set_error 0 st', d2)"
proof -
  have s: "cmd_frag_set E inbuf out (set_error 0 st) d1 = Some (res, st', d')"
    using emulate_frag_set [OF assms(6,1)] assms(5) by simp
  note on = cmd_frag_set_on [OF s assms(7,2,3,4)]
  note r = Frag_Init_reader [OF on(1) [unfolded assms(8)] refl assms(9,10) assms(12) [unfolded assms(11)] assms(13),
      folded assms(11)]
  show ?thesis
  proof (rule emulate_read_frag [OF assms(15-19) assms(7) r(1)])
    show "Frag_Read (pe_disk E d2) (frag st') ff len (offset + (dc_offset0 (config st') + dc_offset1 (config st')))
      = Some (Inr (take (unat len) (drop (4 * unat w) (disc_image dsect (2 ^ k) ff))))"
      using Frag_Read_ok [OF r(2), unfolded r(3), OF assms(22,14,23)] on(3,4) assms(20) by simp
    show "length (take (unat len) (drop (4 * unat w) (disc_image dsect (2 ^ k) ff))) \<le> length out2"
      using assms(21) by simp
  qed
qed

theorem emulated_read_returns_image_witness:
  "\<exists>res st'. DI_EmulateCmd demo_media 0 [0xF9000000, 1, 0x1000, 24] 0 [0, 0, 0, 0] 4 dip_zero () = Some (res, st', ())
    \<and> DI_EmulateCmd demo_media 0 [push_bit 24 0x8D, 8, 128] 0 (replicate 8 0) 8 st' ()
      = Some ((0, blit (replicate 8 0) 0 (take 8 (drop 512 (disc_image demo_sect 512 (dec_FragList demo_list))))),
          set_error 0 st', ())"
proof -
  obtain idxs where ix: "Frag_OptimizeList (dec_FragList demo_list) = Some idxs"
    using Frag_OptimizeList_ok [OF demo_list_wf] by blast
  have t: "take 24 demo_list = demo_list" by (simp add: demo_list_def)
  have "\<exists>res st'. DI_EmulateCmd demo_media 0 [0xF9000000, 1, 0x1000, 24] 0 [0, 0, 0, 0] 4 dip_zero () = Some (res, st', ())
      \<and> DI_ChkMode st' MODE_FRAG \<and> dc_type (config st') = 0"
    using ix t
    by (simp add: DI_EmulateCmd_def custom_codes_def custom_cmd_def cmd_frag_set_def demo_media_def demo_dip_def
        frag_init_def Frag_Init_def Frag_Close_def sizeof_FragList_def put_word_def dip_zero_def frag_zero_def
        DI_ChkMode_def DI_SetMode_def DI_DelMode_def set_error_def Let_def)
  then obtain res st' where
    c: "DI_EmulateCmd demo_media 0 [0xF9000000, 1, 0x1000, 24] 0 [0, 0, 0, 0] 4 dip_zero () = Some (res, st', ())"
    and m: "DI_ChkMode st' MODE_FRAG" and ty: "dc_type (config st') = 0" by (elim exE conjE)
  have sz: "nat (sint (24 :: u32)) = 24" by simp
  have "DI_EmulateCmd demo_media 0 [push_bit 24 0x8D, 8, 128] 0 (replicate 8 0) 8 st' ()
      = Some ((0, blit (replicate 8 0) 0 (take (unat (8 :: u32)) (drop (4 * unat (128 :: u32))
          (disc_image demo_sect (2 ^ 9) (dec_FragList demo_list))))), set_error 0 st', ())"
    by (rule emulated_read_returns_image [OF _ _ _ _ _ c m _ _ _ _ demo_list_wf, where k = 9 and fl = "0x1000" and sz = 24
          and cmd = "0x8D" and offset = 128])
      (use demo_disk_ok t ty demo_list_fields(1) in \<open>simp_all add: demo_media_def demo_dip_def sz DI_CheckOffset_def dip_zero_def\<close>)
  then show ?thesis using c by auto
qed

end
